(* ===== verification/Prelude.thy ===== *)
theory Prelude
  imports Main "HOL-Library.Word" "HOL-Library.Multiset" "HOL-Library.Monad_Syntax"
begin

unbundle bit_operations_syntax

text \<open>
  Shared vocabulary of the development: the status codes of pjlib and pjnath, byte lists with the
  \<^verbatim>\<open>memcmp\<close> of the C library, the search loop with \<^verbatim>\<open>break\<close> that most of the sources use,
  the swap of two array elements, and the lemma collections that carry the component proofs.
\<close>

named_theorems frame_simps \<open>which record fields an operation leaves unchanged\<close>
named_theorems inv_intros \<open>operations that keep a component invariant\<close>

type_synonym byte = "8 word"

subsection \<open>Status codes\<close>

text \<open>
  \<^verbatim>\<open>pj_status_t\<close> is an int; the constants of pj/errno.h and pjnath/errno.h are pairwise distinct,
  so they are constructors here. \<^verbatim>\<open>PJ_STATUS_FROM_STUN_CODE(code)\<close> adds the code to an offset, and
  every other value (an error of the operating system, say) is a \<open>PJ_STATUS\<close> number.
\<close>

datatype pj_status =
    PJ_SUCCESS
  | PJ_EINVAL | PJ_EINVALIDOP | PJ_ETOOMANY | PJ_ENOTFOUND | PJ_ECANCELLED | PJ_EBUG
  | PJ_ETOOSMALL | PJ_ENOMEM | PJ_EEXISTS | PJ_EAFNOTSUP | PJ_EBUSY | PJ_ETIMEDOUT | PJ_EPENDING
  | PJ_ENOTSUP | PJ_EIGNORED | PJ_ETOOBIG
  | PJNATH_EICENOHOSTCAND | PJNATH_EICENOMTIMEOUT | PJNATH_EICEFAILED | PJNATH_EICEINCOMPID
  | PJNATH_EICEINSRCADDR | PJNATH_EICEINPROGRESS | PJNATH_ESTUNNOMAPPEDADDR
  | PJNATH_EINSTUNMSG | PJNATH_EINSTUNMSGLEN | PJNATH_EINSTUNMSGTYPE | PJNATH_ESTUNINATTRLEN | PJNATH_ESTUNDUPATTR
  | PJNATH_ESTUNMSGINTPOS | PJNATH_ESTUNFINGERPOS | PJNATH_ESTUNFINGERPRINT
  | PJNATH_ESTUNTOOMANYATTR | PJNATH_ESTUNTIMEDOUT | PJNATH_ESTUNDESTROYED | PJNATH_EINVAF | PJNATH_ETURNINTP
  | PJ_STATUS_FROM_STUN_CODE nat
  | PJ_STATUS int

subsection \<open>Search loops\<close>

text \<open>
  \<^verbatim>\<open>for (i=0; i<count; ++i) if (P(a[i])) break;\<close> leaves in \<open>i\<close> the first index where \<open>P\<close>
  holds, or \<open>count\<close>.
\<close>

fun find_idx :: "('a \<Rightarrow> bool) \<Rightarrow> 'a list \<Rightarrow> nat" where
  "find_idx P [] = 0"
| "find_idx P (x # xs) = (if P x then 0 else Suc (find_idx P xs))"

lemma find_idx_le [simp]: "find_idx P xs \<le> length xs"
  by (induction xs) auto

lemma find_idx_less_iff: "find_idx P xs < length xs \<longleftrightarrow> (\<exists>x \<in> set xs. P x)"
  by (induction xs) auto

lemma find_idx_nth: "find_idx P xs < length xs \<Longrightarrow> P (xs ! find_idx P xs)"
  by (induction xs) auto

lemma find_idx_before: "j < find_idx P xs \<Longrightarrow> \<not> P (xs ! j)"
  by (induction xs arbitrary: j) (auto simp: nth_Cons' split: if_splits)

lemma find_idx_eq_length_iff: "find_idx P xs = length xs \<longleftrightarrow> (\<forall>x \<in> set xs. \<not> P x)"
  by (induction xs) auto

lemma find_idx_neq_length: "find_idx P xs \<noteq> length xs \<longleftrightarrow> find_idx P xs < length xs"
  using find_idx_le [of P xs] by linarith

lemma find_idx_False [simp]: "find_idx (\<lambda>_. False) xs = length xs"
  by (induction xs) auto

lemma find_idx_cong: "map P xs = map Q ys \<Longrightarrow> find_idx P xs = find_idx Q ys"
proof (induction xs arbitrary: ys)
  case (Cons x xs)
  then show ?case by (cases ys) auto
qed simp

subsection \<open>Swapping two elements of an array\<close>

definition swap :: "'a list \<Rightarrow> nat \<Rightarrow> nat \<Rightarrow> 'a list" where
  "swap xs i j = (xs[i := xs ! j])[j := xs ! i]"

lemma length_swap [simp]: "length (swap xs i j) = length xs"
  by (simp add: swap_def)

lemma mset_swap_elems:
  "i < length xs \<Longrightarrow> j < length xs \<Longrightarrow> mset (swap xs i j) = mset xs"
  by (simp add: swap_def mset_swap)

lemma set_swap_elems: "i < length xs \<Longrightarrow> j < length xs \<Longrightarrow> set (swap xs i j) = set xs"
  by (metis mset_swap_elems set_mset_mset)

lemma nth_swap:
  "i < length xs \<Longrightarrow> j < length xs \<Longrightarrow> k < length xs \<Longrightarrow>
   swap xs i j ! k = (if k = i then xs ! j else if k = j then xs ! i else xs ! k)"
  by (simp add: swap_def nth_list_update)

subsection \<open>memcmp\<close>

text \<open>The sign of \<^verbatim>\<open>memcmp(s1, s2, n)\<close>; C fixes no more than the sign.\<close>

fun memcmp :: "byte list \<Rightarrow> byte list \<Rightarrow> nat \<Rightarrow> int" where
  "memcmp (a # as) (b # bs) (Suc n) =
     (if a < b then -1 else if b < a then 1 else memcmp as bs n)"
| "memcmp _ _ _ = 0"

lemma memcmp_eq_0_iff:
  "n \<le> length as \<Longrightarrow> n \<le> length bs \<Longrightarrow> memcmp as bs n = 0 \<longleftrightarrow> take n as = take n bs"
  by (induction as bs n rule: memcmp.induct) auto

lemma memcmp_refl [simp]: "memcmp as as n = 0"
proof (induction as arbitrary: n)
  case (Cons a as)
  then show ?case by (cases n) auto
qed simp

lemma memcmp_swap: "memcmp as bs n = - memcmp bs as n"
  by (induction as bs n rule: memcmp.induct) auto

subsection \<open>Words as numbers\<close>

lemma unat_ucast_up:
  assumes "LENGTH('a::len) \<le> LENGTH('b::len)"
  shows "unat (ucast (x :: 'a word) :: 'b word) = unat x"
proof -
  have "unat x < 2 ^ LENGTH('a)" by (rule unsigned_less)
  also have "\<dots> \<le> (2 :: nat) ^ LENGTH('b)" using assms by (intro power_increasing) auto
  finally show ?thesis by (simp only: unsigned_ucast_eq take_bit_nat_eq_self)
qed

lemma unat_and_mask: "unat ((x :: 'a::len word) AND mask n) = unat x mod 2 ^ n"
  by (metis take_bit_eq_mask take_bit_eq_mod unsigned_take_bit_eq)

lemma unat_push_bit: "unat (push_bit n (x :: 'a::len word)) = unat x * 2 ^ n mod 2 ^ LENGTH('a)"
  by (metis push_bit_eq_mult take_bit_eq_mod unsigned_push_bit_eq)

lemma unat_push_bit_small:
  "unat (x :: 'a::len word) * 2 ^ n < 2 ^ LENGTH('a) \<Longrightarrow> unat (push_bit n x) = unat x * 2 ^ n"
  by (simp only: unat_push_bit mod_less)

lemma unat_add_small:
  "unat (a :: 'a::len word) + unat b < 2 ^ LENGTH('a) \<Longrightarrow> unat (a + b) = unat a + unat b"
  by (simp only: unat_word_ariths mod_less)

lemma unat_of_nat_small: "n < 2 ^ LENGTH('a::len) \<Longrightarrow> unat (of_nat n :: 'a word) = n"
  by (simp only: unat_of_nat mod_less)

lemma unat_byte_less [simp]: "unat (b :: byte) < 256"
  using unsigned_less [of b] by simp

lemma unat_word16_less [simp]: "unat (w :: 16 word) < 65536"
  using unsigned_less [of w] by simp

subsection \<open>Lists\<close>

lemma distinct_map_filterI: "distinct (map f xs) \<Longrightarrow> distinct (map f (filter P xs))"
  by (induction xs) auto

lemma list_all_update:
  "list_all P xs \<Longrightarrow> P x \<Longrightarrow> list_all P (xs[i := x])"
  by (auto simp: list_all_iff dest!: set_update_subset_insert [THEN subsetD])

subsection \<open>Reading an array\<close>

definition deref :: "'a list \<Rightarrow> nat \<Rightarrow> 'a option" where
  "deref xs i = (if i < length xs then Some (xs ! i) else None)"

lemma deref_Some_iff: "deref xs i = Some x \<longleftrightarrow> i < length xs \<and> x = xs ! i"
  by (auto simp: deref_def)

lemma deref_in [simp]: "i < length xs \<Longrightarrow> deref xs i = Some (xs ! i)"
  by (simp add: deref_def)

subsection \<open>Writing into a buffer\<close>

text \<open>\<^verbatim>\<open>pj_memcpy(buf + pos, src, n)\<close>; the C code writes inside the buffer when \<open>pos + length src \<le> length buf\<close>.\<close>

definition memcpy_at :: "'a list \<Rightarrow> nat \<Rightarrow> 'a list \<Rightarrow> 'a list" where
  "memcpy_at buf pos src = take pos buf @ src @ drop (pos + length src) buf"

lemma length_memcpy_at [simp]: "pos + length src \<le> length buf \<Longrightarrow> length (memcpy_at buf pos src) = length buf"
  by (simp add: memcpy_at_def)

lemma take_memcpy_at: "pos \<le> length buf \<Longrightarrow> take (pos + length src) (memcpy_at buf pos src) = take pos buf @ src"
  by (simp add: memcpy_at_def)

end
