(* ===== verification/SockAddr.thy ===== *)
theory SockAddr
  imports Prelude
begin

text \<open>
  Socket addresses, pjlib/src/pj/sock_common.c. The C union of \<^verbatim>\<open>pj_sockaddr_in\<close> and
  \<^verbatim>\<open>pj_sockaddr_in6\<close> is a record: the address family, the port in host order and the bytes of
  \<^verbatim>\<open>sin_addr\<close> or \<^verbatim>\<open>sin6_addr\<close> in network order. The family numbers are those of the Windows
  headers the project is built with.
\<close>

definition PJ_AF_UNSPEC :: nat where "PJ_AF_UNSPEC = 0"
definition PJ_AF_INET :: nat where "PJ_AF_INET = 2"
definition PJ_AF_INET6 :: nat where "PJ_AF_INET6 = 23"

record pj_sockaddr =
  sa_family :: nat
  sa_port :: "16 word"
  sa_addr :: "byte list"

abbreviation known_family :: "pj_sockaddr \<Rightarrow> bool" where
  "known_family a \<equiv> sa_family a = PJ_AF_INET \<or> sa_family a = PJ_AF_INET6"

definition pj_sockaddr_get_port :: "pj_sockaddr \<Rightarrow> 16 word" where
  "pj_sockaddr_get_port a = (if known_family a then sa_port a else 0xFFFF)"

definition pj_sockaddr_get_addr_len :: "pj_sockaddr \<Rightarrow> nat" where
  "pj_sockaddr_get_addr_len a =
     (if \<not> known_family a then 0 else if sa_family a = PJ_AF_INET6 then 16 else 4)"

definition pj_sockaddr_get_len :: "pj_sockaddr \<Rightarrow> nat" where
  "pj_sockaddr_get_len a =
     (if \<not> known_family a then 0 else if sa_family a = PJ_AF_INET6 then 28 else 16)"

text \<open>\<^verbatim>\<open>pj_sockaddr_get_addr\<close> returns NULL for an unknown family; nothing is read through it then.\<close>

definition pj_sockaddr_get_addr :: "pj_sockaddr \<Rightarrow> byte list" where
  "pj_sockaddr_get_addr a = (if known_family a then sa_addr a else [])"

definition pj_sockaddr_set_port :: "pj_sockaddr \<Rightarrow> 16 word \<Rightarrow> pj_status \<times> pj_sockaddr" where
  "pj_sockaddr_set_port a p =
     (if known_family a then (PJ_SUCCESS, a\<lparr>sa_port := p\<rparr>) else (PJ_EINVAL, a))"

definition pj_sockaddr_has_addr :: "pj_sockaddr \<Rightarrow> bool" where
  "pj_sockaddr_has_addr a =
     (if \<not> known_family a then False
      else if sa_family a = PJ_AF_INET6 then memcmp (sa_addr a) (replicate 16 0) 16 \<noteq> 0
      else \<not> list_all (\<lambda>b. b = 0) (sa_addr a))"

definition pj_sockaddr_cmp :: "pj_sockaddr \<Rightarrow> pj_sockaddr \<Rightarrow> int" where
  "pj_sockaddr_cmp a1 a2 =
     (if sa_family a1 < sa_family a2 then -1
      else if sa_family a2 < sa_family a1 then 1
      else let result = memcmp (pj_sockaddr_get_addr a1) (pj_sockaddr_get_addr a2)
                               (pj_sockaddr_get_addr_len a1)
           in if result \<noteq> 0 then result
              else if pj_sockaddr_get_port a1 < pj_sockaddr_get_port a2 then -1
              else if pj_sockaddr_get_port a2 < pj_sockaddr_get_port a1 then 1
              else 0)"

definition wf_sockaddr :: "pj_sockaddr \<Rightarrow> bool" where
  "wf_sockaddr a \<longleftrightarrow> known_family a \<and> length (sa_addr a) = pj_sockaddr_get_addr_len a"

lemmas sockaddr_defs =
  pj_sockaddr_cmp_def pj_sockaddr_get_addr_def pj_sockaddr_get_addr_len_def
  pj_sockaddr_get_port_def PJ_AF_INET_def PJ_AF_INET6_def

lemma pj_sockaddr_cmp_refl [simp]: "pj_sockaddr_cmp a a = 0"
  by (simp add: pj_sockaddr_cmp_def)

lemma pj_sockaddr_cmp_eq_0_iff:
  assumes "wf_sockaddr a" and "wf_sockaddr b"
  shows "pj_sockaddr_cmp a b = 0 \<longleftrightarrow> a = b"
proof
  assume cmp: "pj_sockaddr_cmp a b = 0"
  then have fam: "sa_family a = sa_family b"
    by (auto simp: pj_sockaddr_cmp_def split: if_splits)
  have len: "length (sa_addr a) = pj_sockaddr_get_addr_len a" "length (sa_addr b) = pj_sockaddr_get_addr_len a"
    using assms fam by (auto simp: wf_sockaddr_def pj_sockaddr_get_addr_len_def)
  have kf: "known_family a" "known_family b"
    using assms by (auto simp: wf_sockaddr_def)
  from cmp fam kf have m: "memcmp (sa_addr a) (sa_addr b) (pj_sockaddr_get_addr_len a) = 0"
    and p: "\<not> sa_port a < sa_port b" "\<not> sa_port b < sa_port a"
    by (auto simp: pj_sockaddr_cmp_def pj_sockaddr_get_addr_def pj_sockaddr_get_port_def Let_def
        split: if_splits)
  from m len have "sa_addr a = sa_addr b"
    using memcmp_eq_0_iff [of "pj_sockaddr_get_addr_len a" "sa_addr a" "sa_addr b"] by simp
  with fam p show "a = b" by (cases a, cases b) auto
qed simp

lemma pj_sockaddr_cmp_swap: "pj_sockaddr_cmp a b = - pj_sockaddr_cmp b a"
proof (cases "sa_family a = sa_family b")
  case True
  then have len: "pj_sockaddr_get_addr_len a = pj_sockaddr_get_addr_len b"
    by (simp add: pj_sockaddr_get_addr_len_def)
  show ?thesis
    using True len memcmp_swap [of "pj_sockaddr_get_addr a" "pj_sockaddr_get_addr b"
        "pj_sockaddr_get_addr_len b"]
    by (auto simp: pj_sockaddr_cmp_def Let_def)
next
  case False
  then show ?thesis by (auto simp: pj_sockaddr_cmp_def)
qed

end
