(* ===== verification/StunTypes.thy ===== *)
theory StunTypes
  imports SockAddr
begin

text \<open>
  The data of a STUN message (pjnath/include/pjnath/stun_msg.h): message classes, attribute types,
  status codes, the header, and the attributes. A C attribute is a header with one of nine bodies,
  selected by the type field of the header; here the body is a datatype.
\<close>

subsection \<open>Message types\<close>

definition PJ_STUN_MAGIC :: "32 word" where "PJ_STUN_MAGIC = 0x2112A442"

definition PJ_STUN_GET_METHOD :: "16 word \<Rightarrow> 16 word" where
  "PJ_STUN_GET_METHOD t = t AND 0xFEEF"

definition STUN_IS_REQUEST :: "16 word \<Rightarrow> bool" where
  "STUN_IS_REQUEST t \<longleftrightarrow> t AND 0x0110 = 0x0000"

definition STUN_IS_SUCCESS_RESPONSE :: "16 word \<Rightarrow> bool" where
  "STUN_IS_SUCCESS_RESPONSE t \<longleftrightarrow> t AND 0x0110 = 0x0100"

definition STUN_IS_ERROR_RESPONSE :: "16 word \<Rightarrow> bool" where
  "STUN_IS_ERROR_RESPONSE t \<longleftrightarrow> t AND 0x0110 = 0x0110"

definition STUN_IS_RESPONSE :: "16 word \<Rightarrow> bool" where
  "STUN_IS_RESPONSE t \<longleftrightarrow> t AND 0x0100 = 0x0100"

definition STUN_IS_INDICATION :: "16 word \<Rightarrow> bool" where
  "STUN_IS_INDICATION t \<longleftrightarrow> t AND 0x0110 = 0x0010"

definition PJ_STUN_SUCCESS_RESPONSE_BIT :: "16 word" where "PJ_STUN_SUCCESS_RESPONSE_BIT = 0x0100"
definition PJ_STUN_ERROR_RESPONSE_BIT :: "16 word" where "PJ_STUN_ERROR_RESPONSE_BIT = 0x0110"
definition PJ_STUN_INDICATION_BIT :: "16 word" where "PJ_STUN_INDICATION_BIT = 0x0010"

subsection \<open>Status codes\<close>

definition PJ_STUN_SC_TRY_ALTERNATE :: nat where "PJ_STUN_SC_TRY_ALTERNATE = 300"
definition PJ_STUN_SC_BAD_REQUEST :: nat where "PJ_STUN_SC_BAD_REQUEST = 400"
definition PJ_STUN_SC_UNAUTHORIZED :: nat where "PJ_STUN_SC_UNAUTHORIZED = 401"
definition PJ_STUN_SC_FORBIDDEN :: nat where "PJ_STUN_SC_FORBIDDEN = 403"
definition PJ_STUN_SC_UNKNOWN_ATTRIBUTE :: nat where "PJ_STUN_SC_UNKNOWN_ATTRIBUTE = 420"
definition PJ_STUN_SC_ALLOCATION_MISMATCH :: nat where "PJ_STUN_SC_ALLOCATION_MISMATCH = 437"
definition PJ_STUN_SC_STALE_NONCE :: nat where "PJ_STUN_SC_STALE_NONCE = 438"
definition PJ_STUN_SC_TRANSITIONING :: nat where "PJ_STUN_SC_TRANSITIONING = 439"
definition PJ_STUN_SC_WRONG_CREDENTIALS :: nat where "PJ_STUN_SC_WRONG_CREDENTIALS = 441"
definition PJ_STUN_SC_UNSUPP_TRANSPORT_PROTO :: nat where "PJ_STUN_SC_UNSUPP_TRANSPORT_PROTO = 442"
definition PJ_STUN_SC_OPER_TCP_ONLY :: nat where "PJ_STUN_SC_OPER_TCP_ONLY = 445"
definition PJ_STUN_SC_CONNECTION_FAILURE :: nat where "PJ_STUN_SC_CONNECTION_FAILURE = 446"
definition PJ_STUN_SC_CONNECTION_TIMEOUT :: nat where "PJ_STUN_SC_CONNECTION_TIMEOUT = 447"
definition PJ_STUN_SC_ALLOCATION_QUOTA_REACHED :: nat where "PJ_STUN_SC_ALLOCATION_QUOTA_REACHED = 486"
definition PJ_STUN_SC_ROLE_CONFLICT :: nat where "PJ_STUN_SC_ROLE_CONFLICT = 487"
definition PJ_STUN_SC_SERVER_ERROR :: nat where "PJ_STUN_SC_SERVER_ERROR = 500"
definition PJ_STUN_SC_INSUFFICIENT_CAPACITY :: nat where "PJ_STUN_SC_INSUFFICIENT_CAPACITY = 508"
definition PJ_STUN_SC_GLOBAL_FAILURE :: nat where "PJ_STUN_SC_GLOBAL_FAILURE = 600"

text \<open>The table of reason phrases, in the order of the source.\<close>

definition stun_err_msg_map :: "(nat \<times> string) list" where
  "stun_err_msg_map = [
    (PJ_STUN_SC_TRY_ALTERNATE, ''Try Alternate''),
    (PJ_STUN_SC_BAD_REQUEST, ''Bad Request''),
    (PJ_STUN_SC_UNAUTHORIZED, ''Unauthorized''),
    (PJ_STUN_SC_FORBIDDEN, ''Forbidden''),
    (PJ_STUN_SC_UNKNOWN_ATTRIBUTE, ''Unknown Attribute''),
    (PJ_STUN_SC_ALLOCATION_MISMATCH, ''Allocation Mismatch''),
    (PJ_STUN_SC_STALE_NONCE, ''Stale Nonce''),
    (PJ_STUN_SC_TRANSITIONING, ''Active Destination Already Set''),
    (PJ_STUN_SC_WRONG_CREDENTIALS, ''Wrong Credentials''),
    (PJ_STUN_SC_UNSUPP_TRANSPORT_PROTO, ''Unsupported Transport Protocol''),
    (PJ_STUN_SC_OPER_TCP_ONLY, ''Operation for TCP Only''),
    (PJ_STUN_SC_CONNECTION_FAILURE, ''Connection Failure''),
    (PJ_STUN_SC_CONNECTION_TIMEOUT, ''Connection Timeout''),
    (PJ_STUN_SC_ALLOCATION_QUOTA_REACHED, ''Allocation Quota Reached''),
    (PJ_STUN_SC_ROLE_CONFLICT, ''Role Conflict''),
    (PJ_STUN_SC_SERVER_ERROR, ''Server Error''),
    (PJ_STUN_SC_INSUFFICIENT_CAPACITY, ''Insufficient Capacity''),
    (PJ_STUN_SC_GLOBAL_FAILURE, ''Global Failure'')]"

subsection \<open>Attributes\<close>

definition PJ_STUN_MAX_ATTR :: nat where "PJ_STUN_MAX_ATTR = 16"

definition PJ_STUN_ATTR_USERNAME :: "16 word" where "PJ_STUN_ATTR_USERNAME = 0x0006"
definition PJ_STUN_ATTR_MESSAGE_INTEGRITY :: "16 word" where "PJ_STUN_ATTR_MESSAGE_INTEGRITY = 0x0008"
definition PJ_STUN_ATTR_ERROR_CODE :: "16 word" where "PJ_STUN_ATTR_ERROR_CODE = 0x0009"
definition PJ_STUN_ATTR_UNKNOWN_ATTRIBUTES :: "16 word" where "PJ_STUN_ATTR_UNKNOWN_ATTRIBUTES = 0x000A"
definition PJ_STUN_ATTR_REALM :: "16 word" where "PJ_STUN_ATTR_REALM = 0x0014"
definition PJ_STUN_ATTR_NONCE :: "16 word" where "PJ_STUN_ATTR_NONCE = 0x0015"
definition PJ_STUN_ATTR_END_MANDATORY_ATTR :: nat where "PJ_STUN_ATTR_END_MANDATORY_ATTR = 0x0031"
definition PJ_STUN_ATTR_START_EXTENDED_ATTR :: nat where "PJ_STUN_ATTR_START_EXTENDED_ATTR = 0x8021"
definition PJ_STUN_ATTR_SOFTWARE :: "16 word" where "PJ_STUN_ATTR_SOFTWARE = 0x8022"
definition PJ_STUN_ATTR_FINGERPRINT :: "16 word" where "PJ_STUN_ATTR_FINGERPRINT = 0x8028"
definition PJ_STUN_ATTR_END_EXTENDED_ATTR :: nat where "PJ_STUN_ATTR_END_EXTENDED_ATTR = 0x802b"

record pj_stun_msg_hdr =
  mh_type :: "16 word"
  mh_length :: "16 word"
  mh_magic :: "32 word"
  mh_tsx_id :: "byte list"

datatype attr_body =
    Sockaddr_body (xor_ed: bool) (body_sockaddr: pj_sockaddr)
  | Empty_body
  | String_body (body_string: "byte list")
  | Uint_body (body_uint: "32 word")
  | Uint64_body (uint64_hi: "32 word") (uint64_lo: "32 word")
  | Binary_body (binary_magic: "32 word") (binary_data: "byte list")
  | Msgint_body (body_hmac: "byte list")
  | Errcode_body (body_err_code: nat) (body_reason: "byte list")
  | Unknown_body (body_attrs: "16 word list")

record pj_stun_attr =
  at_type :: "16 word"
  at_length :: "16 word"
  at_body :: attr_body

record pj_stun_msg =
  msg_hdr :: pj_stun_msg_hdr
  msg_attrs :: "pj_stun_attr list"

text \<open>
  \<^verbatim>\<open>struct attr_desc\<close> holds the decoder, the encoder and the cloner of an attribute type. The tables always
  take the three from the same group, which a kind names; the two kinds of addresses differ in the decoder only.
\<close>

datatype attr_kind =
  SOCKADDR_ATTR | XORED_SOCKADDR_ATTR | EMPTY_ATTR | STRING_ATTR | UINT_ATTR | UINT64_ATTR | BINARY_ATTR
  | MSGINT_ATTR | ERRCODE_ATTR | UNKNOWN_ATTR

definition mandatory_attr_desc :: "(string \<times> attr_kind) option list" where
  "mandatory_attr_desc = [
    None, Some (''MAPPED-ADDRESS'', SOCKADDR_ATTR), Some (''RESPONSE-ADDRESS'', SOCKADDR_ATTR),
    Some (''CHANGE-REQUEST'', UINT_ATTR), Some (''SOURCE-ADDRESS'', SOCKADDR_ATTR), Some (''CHANGED-ADDRESS'', SOCKADDR_ATTR),
    Some (''USERNAME'', STRING_ATTR), Some (''PASSWORD'', STRING_ATTR), Some (''MESSAGE-INTEGRITY'', MSGINT_ATTR),
    Some (''ERROR-CODE'', ERRCODE_ATTR), Some (''UNKNOWN-ATTRIBUTES'', UNKNOWN_ATTR), Some (''REFLECTED-FROM'', SOCKADDR_ATTR),
    Some (''CHANNEL-NUMBER'', UINT_ATTR), Some (''LIFETIME'', UINT_ATTR), None,
    Some (''MAGIC-COOKIE'', UINT_ATTR), Some (''BANDWIDTH'', UINT_ATTR), None,
    Some (''XOR-PEER-ADDRESS'', XORED_SOCKADDR_ATTR), Some (''DATA'', BINARY_ATTR), Some (''REALM'', STRING_ATTR),
    Some (''NONCE'', STRING_ATTR), Some (''XOR-RELAYED-ADDRESS'', XORED_SOCKADDR_ATTR), Some (''REQUESTED-ADDRESS-TYPE'', UINT_ATTR),
    Some (''EVEN-PORT'', UINT_ATTR), Some (''REQUESTED-TRANSPORT'', UINT_ATTR), Some (''DONT-FRAGMENT'', EMPTY_ATTR),
    None, None, None,
    None, None, Some (''XOR-MAPPED-ADDRESS'', XORED_SOCKADDR_ATTR),
    Some (''TIMER-VAL'', UINT_ATTR), Some (''RESERVATION-TOKEN'', UINT64_ATTR), Some (''XOR-REFLECTED-FROM'', XORED_SOCKADDR_ATTR),
    Some (''PRIORITY'', UINT_ATTR), Some (''USE-CANDIDATE'', EMPTY_ATTR), None,
    None, None, None,
    None, None, None,
    None, None, None,
    Some (''ICMP'', UINT_ATTR), None]"

definition extended_attr_desc :: "(string \<times> attr_kind) option list" where
  "extended_attr_desc = [
    None, Some (''SOFTWARE'', STRING_ATTR), Some (''ALTERNATE-SERVER'', SOCKADDR_ATTR),
    Some (''REFRESH-INTERVAL'', UINT_ATTR), None, None,
    None, Some (''FINGERPRINT'', UINT_ATTR), Some (''ICE-CONTROLLED'', UINT64_ATTR),
    Some (''ICE-CONTROLLING'', UINT64_ATTR)]"

definition find_attr_desc :: "nat \<Rightarrow> (string \<times> attr_kind) option" where
  "find_attr_desc attr_type =
     (if attr_type < PJ_STUN_ATTR_END_MANDATORY_ATTR then mandatory_attr_desc ! attr_type
      else if PJ_STUN_ATTR_START_EXTENDED_ATTR \<le> attr_type \<and> attr_type < PJ_STUN_ATTR_END_EXTENDED_ATTR
      then extended_attr_desc ! (attr_type - PJ_STUN_ATTR_START_EXTENDED_ATTR)
      else None)"

definition pj_stun_get_attr_name :: "nat \<Rightarrow> string" where
  "pj_stun_get_attr_name attr_type = (case find_attr_desc attr_type of None \<Rightarrow> ''???'' | Some (name, _) \<Rightarrow> name)"

definition stun_method_names :: "string list" where
  "stun_method_names = [''Unknown'', ''Binding'', ''SharedSecret'', ''Allocate'', ''Refresh'', ''???'', ''Send'', ''Data'',
     ''CreatePermission'', ''ChannelBind'']"

definition pj_stun_get_method_name :: "16 word \<Rightarrow> string" where
  "pj_stun_get_method_name msg_type =
     (let m = unat (PJ_STUN_GET_METHOD msg_type) in
      if m \<ge> length stun_method_names then ''???'' else stun_method_names ! m)"

definition pj_stun_get_class_name :: "16 word \<Rightarrow> string" where
  "pj_stun_get_class_name t =
     (if STUN_IS_REQUEST t then ''request''
      else if STUN_IS_SUCCESS_RESPONSE t then ''success response''
      else if STUN_IS_ERROR_RESPONSE t then ''error response''
      else if STUN_IS_INDICATION t then ''indication''
      else ''???'')"

subsection \<open>Reason phrases\<close>

text \<open>The binary search of \<^verbatim>\<open>pj_stun_get_err_reason\<close>: \<open>first\<close> and \<open>n\<close> delimit the part still searched.\<close>

function err_reason_search :: "nat \<Rightarrow> nat \<Rightarrow> nat \<Rightarrow> nat" where
  "err_reason_search err_code first n =
     (if n > 0 then
        (let half = n div 2; mid = first + half in
         if fst (stun_err_msg_map ! mid) < err_code then err_reason_search err_code (mid + 1) (n - (half + 1))
         else if fst (stun_err_msg_map ! mid) > err_code then err_reason_search err_code first half
         else mid)
      else first)"
  by pat_completeness auto
termination by (relation "measure (\<lambda>(_, _, n). n)") auto

declare err_reason_search.simps [simp del]

text \<open>The entry is read after the loop without a test of the index; \<open>None\<close> is a read past the table.\<close>

definition pj_stun_get_err_reason :: "nat \<Rightarrow> string option option" where
  "pj_stun_get_err_reason err_code = do {
     (code, msg) \<leftarrow> deref stun_err_msg_map (err_reason_search err_code 0 (length stun_err_msg_map));
     Some (if code = err_code then Some msg else None) }"

lemma err_codes_sorted: "sorted_wrt (<) (map fst stun_err_msg_map)"
  by code_simp

lemma err_code_less: "i < j \<Longrightarrow> j < length stun_err_msg_map \<Longrightarrow> fst (stun_err_msg_map ! i) < fst (stun_err_msg_map ! j)"
  using sorted_wrt_nth_less [OF err_codes_sorted, of i j] by simp

lemma err_reason_search_spec:
  assumes "first + n \<le> length stun_err_msg_map" "\<And>i. i < first \<Longrightarrow> fst (stun_err_msg_map ! i) < err_code"
    and "\<And>i. first + n \<le> i \<Longrightarrow> i < length stun_err_msg_map \<Longrightarrow> err_code < fst (stun_err_msg_map ! i)"
  shows "let r = err_reason_search err_code first n in
    r \<le> length stun_err_msg_map \<and> (\<forall>i < r. fst (stun_err_msg_map ! i) < err_code) \<and>
    (\<forall>i. r < i \<and> i < length stun_err_msg_map \<longrightarrow> err_code < fst (stun_err_msg_map ! i)) \<and>
    (r < length stun_err_msg_map \<longrightarrow> err_code \<le> fst (stun_err_msg_map ! r))"
  using assms
proof (induction err_code first n rule: err_reason_search.induct)
  case (1 err_code first n)
  define mid where "mid = first + n div 2"
  show ?case
  proof (cases "n > 0")
    case True
    then have mid: "mid < length stun_err_msg_map" "mid < first + n" using "1.prems"(1) by (simp_all add: mid_def)
    consider "fst (stun_err_msg_map ! mid) < err_code" | "err_code < fst (stun_err_msg_map ! mid)" | "fst (stun_err_msg_map ! mid) = err_code"
      by linarith
    then show ?thesis
    proof cases
      case 1
      have "i < mid + 1 \<Longrightarrow> fst (stun_err_msg_map ! i) < err_code" for i
        using err_code_less [of i mid] 1 mid by (cases "i = mid") force+
      then show ?thesis using "1.IH"(1) [OF True refl refl] 1 "1.prems" mid True
        by (subst err_reason_search.simps) (simp add: mid_def Let_def)
    next
      case 2
      have "first + n div 2 \<le> i \<Longrightarrow> i < length stun_err_msg_map \<Longrightarrow> err_code < fst (stun_err_msg_map ! i)" for i
        using err_code_less [of mid i] 2 by (cases "i = mid") (auto simp: mid_def)
      moreover have "\<not> fst (stun_err_msg_map ! (first + n div 2)) < err_code" using 2 by (simp add: mid_def)
      ultimately show ?thesis using "1.IH"(2) [OF True refl refl] 2 "1.prems" mid True
        by (subst err_reason_search.simps) (simp add: mid_def Let_def)
    next
      case 3
      then have r: "err_reason_search err_code first n = mid" using True by (subst err_reason_search.simps) (simp add: mid_def Let_def)
      then show ?thesis using 3 mid err_code_less by (force simp: Let_def)
    qed
  next
    case False
    then have "err_reason_search err_code first n = first" by (simp add: err_reason_search.simps)
    then show ?thesis using False "1.prems" by (auto simp: Let_def less_imp_le)
  qed
qed

text \<open>
  The binary search for the reason phrase of a code agrees with a linear search of the table for every code up to
  the last entry, 600; for a greater code it reads past the table.
\<close>

theorem stun_err_reason_search:
  "pj_stun_get_err_reason err_code = (if err_code \<le> PJ_STUN_SC_GLOBAL_FAILURE then Some (map_of stun_err_msg_map err_code) else None)"
proof -
  let ?n = "length stun_err_msg_map"
  define r where "r = err_reason_search err_code 0 ?n"
  have r: "r \<le> ?n" "\<And>i. i < r \<Longrightarrow> fst (stun_err_msg_map ! i) < err_code"
      "\<And>i. r < i \<Longrightarrow> i < ?n \<Longrightarrow> err_code < fst (stun_err_msg_map ! i)" "r < ?n \<Longrightarrow> err_code \<le> fst (stun_err_msg_map ! r)"
    using err_reason_search_spec [of 0 ?n err_code] by (auto simp: r_def Let_def)
  have last: "fst (stun_err_msg_map ! (?n - 1)) = PJ_STUN_SC_GLOBAL_FAILURE" "?n = 18" by (simp_all add: stun_err_msg_map_def)
  show ?thesis
  proof (cases "r < ?n")
    case True
    have le: "err_code \<le> PJ_STUN_SC_GLOBAL_FAILURE"
      using r(3) [of "?n - 1"] r(4) [OF True] last True by (cases "r = ?n - 1") auto
    have "map_of stun_err_msg_map err_code = (if fst (stun_err_msg_map ! r) = err_code then Some (snd (stun_err_msg_map ! r)) else None)"
    proof (cases "fst (stun_err_msg_map ! r) = err_code")
      case True
      have "distinct (map fst stun_err_msg_map)" by code_simp
      then show ?thesis using True \<open>r < ?n\<close> by (metis map_of_eq_Some_iff nth_mem prod.collapse)
    next
      case False
      then have "fst (stun_err_msg_map ! i) \<noteq> err_code" if "i < ?n" for i
        using r(2) [of i] r(3) [of i] that by (cases i r rule: linorder_cases) auto
      then have "err_code \<notin> fst ` set stun_err_msg_map" by (auto simp: in_set_conv_nth) (metis fst_conv)
      then show ?thesis using False by (simp add: map_of_eq_None_iff)
    qed
    then show ?thesis using True le by (simp add: pj_stun_get_err_reason_def r_def [symmetric] case_prod_beta)
  next
    case False
    then have "PJ_STUN_SC_GLOBAL_FAILURE < err_code" using r(1) r(2) [of "?n - 1"] last by simp
    then show ?thesis using False by (simp add: pj_stun_get_err_reason_def r_def [symmetric] deref_def)
  qed
qed

end
