(* ===== verification/BlockHash.thy ===== *)
theory BlockHash
  imports Prelude
begin

text \<open>
  What MD5 and SHA-1 have in common: a message is absorbed in blocks of 64 bytes by a compression
  function, the bytes of an unfinished block wait in a buffer, and the digest is that of the padded
  message. The interface of an incremental hash is a locale; HMAC (RFC 2104) is a client of it.
\<close>

subsection \<open>Blocks\<close>

function absorb :: "('s \<Rightarrow> byte list \<Rightarrow> 's) \<Rightarrow> 's \<Rightarrow> byte list \<Rightarrow> 's" where
  "absorb f h m = (if length m < 64 then h else absorb f (f h (take 64 m)) (drop 64 m))"
  by pat_completeness auto
termination by (relation "measure (\<lambda>(_, _, m). length m)") auto

declare absorb.simps [simp del]

definition unfinished :: "byte list \<Rightarrow> byte list" where
  "unfinished m = drop (64 * (length m div 64)) m"

lemma length_unfinished [simp]: "length (unfinished m) = length m mod 64"
  by (simp add: unfinished_def minus_mult_div_eq_mod)

lemma absorb_short [simp]: "length m < 64 \<Longrightarrow> absorb f h m = h"
  by (simp add: absorb.simps)

lemma absorb_block: "length b = 64 \<Longrightarrow> absorb f h (b @ m) = absorb f (f h b) m"
  by (subst absorb.simps) simp

lemma unfinished_short: "length m < 64 \<Longrightarrow> unfinished m = m"
  by (simp add: unfinished_def)

lemma unfinished_drop: "64 \<le> length m \<Longrightarrow> unfinished (drop 64 m) = unfinished m"
proof -
  assume "64 \<le> length m"
  then have "64 * ((length m - 64) div 64) + 64 = 64 * (length m div 64)" by (simp add: le_div_geq)
  then show ?thesis by (simp add: unfinished_def add.commute)
qed

lemma absorb_append: "absorb f h (m @ d) = absorb f (absorb f h m) (unfinished m @ d)"
proof (induction f h m rule: absorb.induct)
  case (1 f h m)
  show ?case
  proof (cases "length m < 64")
    case False
    have "absorb f h (m @ d) = absorb f (f h (take 64 m)) (drop 64 m @ d)"
      using False absorb_block [of "take 64 m" f h "drop 64 m @ d"] by (simp add: append.assoc [symmetric])
    moreover have "absorb f h m = absorb f (f h (take 64 m)) (drop 64 m)" using False by (simp add: absorb.simps)
    ultimately show ?thesis using 1 False by (simp add: unfinished_drop)
  qed (simp add: unfinished_short)
qed

lemma unfinished_append: "unfinished (m @ d) = unfinished (unfinished m @ d)"
proof -
  define k where "k = length m div 64"
  have m: "length m = 64 * k + length m mod 64" by (simp add: k_def)
  have "(length m + length d) div 64 = k + (length m mod 64 + length d) div 64"
    by (subst m) (simp only: add.assoc div_mult_self4 zero_neq_numeral simp_thms)
  moreover have "drop (64 * k + n) (m @ d) = drop n (drop (64 * k) m @ d)" for n
  proof -
    have "drop (64 * k) (m @ d) = drop (64 * k) m @ d" using m by simp
    then show ?thesis by (metis add.commute drop_drop)
  qed
  moreover have "length m - 64 * k = length m mod 64" using m by linarith
  ultimately show ?thesis unfolding unfinished_def by (simp only: length_append length_drop distrib_left k_def [symmetric])
qed

subsection \<open>Bytes of words\<close>

definition be_bytes32 :: "32 word \<Rightarrow> byte list" where
  "be_bytes32 w = [ucast (drop_bit 24 w), ucast (drop_bit 16 w), ucast (drop_bit 8 w), ucast w]"

definition le_bytes32 :: "32 word \<Rightarrow> byte list" where
  "le_bytes32 w = [ucast w, ucast (drop_bit 8 w), ucast (drop_bit 16 w), ucast (drop_bit 24 w)]"

lemma length_word_bytes [simp]: "length (be_bytes32 w) = 4" "length (le_bytes32 w) = 4"
  by (simp_all add: be_bytes32_def le_bytes32_def)

subsection \<open>Incremental hash functions\<close>

text \<open>
  \<open>repr m c\<close>: the context has absorbed \<open>m\<close>. \<open>ctx_ok\<close> are the contexts that \<open>init\<close> may be called on, whose buffer
  is not initialised; \<open>part_ok\<close> the lengths that an update takes.
\<close>

locale stream_hash =
  fixes init :: "'c \<Rightarrow> 'c" and update :: "'c \<Rightarrow> byte list \<Rightarrow> 'c" and final :: "'c \<Rightarrow> byte list \<times> 'c"
    and repr :: "byte list \<Rightarrow> 'c \<Rightarrow> bool" and ctx_ok :: "'c \<Rightarrow> bool" and part_ok :: "byte list \<Rightarrow> bool"
    and digest :: "byte list \<Rightarrow> byte list" and digest_size :: nat
  assumes init_repr: "ctx_ok c \<Longrightarrow> repr [] (init c)"
    and update_repr: "repr m c \<Longrightarrow> part_ok d \<Longrightarrow> repr (m @ d) (update c d)"
    and final_digest: "repr m c \<Longrightarrow> fst (final c) = digest m"
    and final_ctx: "repr m c \<Longrightarrow> ctx_ok (snd (final c))"
    and digest_length: "length (digest m) = digest_size"
    and small_size: "digest_size \<le> 64"
    and small_part: "length d \<le> 64 \<Longrightarrow> part_ok d"
begin

lemma updates_repr: "repr m c \<Longrightarrow> list_all part_ok ds \<Longrightarrow> repr (m @ concat ds) (foldl update c ds)"
proof (induction ds arbitrary: m c)
  case (Cons d ds)
  then have "repr (m @ d) (update c d)" by (simp add: update_repr)
  from Cons.IH [OF this] Cons.prems(2) show ?case by simp
qed simp

lemma hash_parts: "ctx_ok c \<Longrightarrow> list_all part_ok ds \<Longrightarrow> fst (final (foldl update (init c) ds)) = digest (concat ds)"
  using updates_repr [OF init_repr, of c ds] final_digest by fastforce

end

subsection \<open>HMAC\<close>

definition hmac_key :: "(byte list \<Rightarrow> byte list) \<Rightarrow> byte list \<Rightarrow> byte list" where
  "hmac_key H key = (let k = (if length key > 64 then H key else key) in k @ replicate (64 - length k) 0)"

text \<open>The definition of RFC 2104 for a hash function \<open>H\<close> with blocks of 64 bytes.\<close>

definition hmac_spec :: "(byte list \<Rightarrow> byte list) \<Rightarrow> byte list \<Rightarrow> byte list \<Rightarrow> byte list" where
  "hmac_spec H key text =
     H (map (\<lambda>b. b XOR 0x5c) (hmac_key H key) @ H (map (\<lambda>b. b XOR 0x36) (hmac_key H key) @ text))"

context stream_hash
begin

lemma length_hmac_key [simp]: "length (hmac_key digest key) = 64"
  using small_size by (simp add: hmac_key_def Let_def digest_length)

lemma hmac_inner:
  assumes "ctx_ok c" "list_all part_ok ds"
  shows "fst (final (foldl update (update (init c) (map (\<lambda>b. b XOR 0x36) (hmac_key digest key))) ds)) =
    digest (map (\<lambda>b. b XOR 0x36) (hmac_key digest key) @ concat ds)"
  using hash_parts [OF assms(1), of "map (\<lambda>b. b XOR 0x36) (hmac_key digest key) # ds"] assms(2) by (simp add: small_part)

lemma hmac_outer:
  assumes "ctx_ok c"
  shows "fst (final (update (update (init c) (map (\<lambda>b. b XOR 0x5c) (hmac_key digest key))) (digest m))) =
    digest (map (\<lambda>b. b XOR 0x5c) (hmac_key digest key) @ digest m)"
  using hash_parts [OF assms, of "[map (\<lambda>b. b XOR 0x5c) (hmac_key digest key), digest m]"] small_size
  by (simp add: small_part digest_length)

end

end
