(* ===== verification/Crc32.thy ===== *)
theory Crc32
  imports Prelude
begin

text \<open>
  CRC-32 (pjlib-util/src/pjlib-util/crc32.c) in its two build variants: with tables, as configured
  (bytes up to a word boundary, then a word at a time, then the rest), and without
  (a loop over the bits of each byte). The address of the data only matters modulo 4: \<open>mis\<close> is the number of
  bytes before the next word boundary. Both variants compute the same function,
  and a single corrupted byte always changes the result.
\<close>

definition CRC32_NEGL :: "32 word" where "CRC32_NEGL = 0xffffffff"

record pj_crc32_context =
  crc_state :: "32 word"

subsection \<open>The variant with tables, on a little-endian machine\<close>

definition CRC32_INDEX :: "32 word \<Rightarrow> 32 word" where "CRC32_INDEX c = c AND 0xff"
definition CRC32_SHIFTED :: "32 word \<Rightarrow> 32 word" where "CRC32_SHIFTED c = drop_bit 8 c"
definition CRC32_SWAP :: "32 word \<Rightarrow> 32 word" where "CRC32_SWAP c = c"

definition crc_tab :: "32 word list" where
  "crc_tab = [
    0x00000000, 0x77073096, 0xee0e612c, 0x990951ba, 0x076dc419, 0x706af48f, 0xe963a535, 0x9e6495a3,
    0x0edb8832, 0x79dcb8a4, 0xe0d5e91e, 0x97d2d988, 0x09b64c2b, 0x7eb17cbd, 0xe7b82d07, 0x90bf1d91,
    0x1db71064, 0x6ab020f2, 0xf3b97148, 0x84be41de, 0x1adad47d, 0x6ddde4eb, 0xf4d4b551, 0x83d385c7,
    0x136c9856, 0x646ba8c0, 0xfd62f97a, 0x8a65c9ec, 0x14015c4f, 0x63066cd9, 0xfa0f3d63, 0x8d080df5,
    0x3b6e20c8, 0x4c69105e, 0xd56041e4, 0xa2677172, 0x3c03e4d1, 0x4b04d447, 0xd20d85fd, 0xa50ab56b,
    0x35b5a8fa, 0x42b2986c, 0xdbbbc9d6, 0xacbcf940, 0x32d86ce3, 0x45df5c75, 0xdcd60dcf, 0xabd13d59,
    0x26d930ac, 0x51de003a, 0xc8d75180, 0xbfd06116, 0x21b4f4b5, 0x56b3c423, 0xcfba9599, 0xb8bda50f,
    0x2802b89e, 0x5f058808, 0xc60cd9b2, 0xb10be924, 0x2f6f7c87, 0x58684c11, 0xc1611dab, 0xb6662d3d,
    0x76dc4190, 0x01db7106, 0x98d220bc, 0xefd5102a, 0x71b18589, 0x06b6b51f, 0x9fbfe4a5, 0xe8b8d433,
    0x7807c9a2, 0x0f00f934, 0x9609a88e, 0xe10e9818, 0x7f6a0dbb, 0x086d3d2d, 0x91646c97, 0xe6635c01,
    0x6b6b51f4, 0x1c6c6162, 0x856530d8, 0xf262004e, 0x6c0695ed, 0x1b01a57b, 0x8208f4c1, 0xf50fc457,
    0x65b0d9c6, 0x12b7e950, 0x8bbeb8ea, 0xfcb9887c, 0x62dd1ddf, 0x15da2d49, 0x8cd37cf3, 0xfbd44c65,
    0x4db26158, 0x3ab551ce, 0xa3bc0074, 0xd4bb30e2, 0x4adfa541, 0x3dd895d7, 0xa4d1c46d, 0xd3d6f4fb,
    0x4369e96a, 0x346ed9fc, 0xad678846, 0xda60b8d0, 0x44042d73, 0x33031de5, 0xaa0a4c5f, 0xdd0d7cc9,
    0x5005713c, 0x270241aa, 0xbe0b1010, 0xc90c2086, 0x5768b525, 0x206f85b3, 0xb966d409, 0xce61e49f,
    0x5edef90e, 0x29d9c998, 0xb0d09822, 0xc7d7a8b4, 0x59b33d17, 0x2eb40d81, 0xb7bd5c3b, 0xc0ba6cad,
    0xedb88320, 0x9abfb3b6, 0x03b6e20c, 0x74b1d29a, 0xead54739, 0x9dd277af, 0x04db2615, 0x73dc1683,
    0xe3630b12, 0x94643b84, 0x0d6d6a3e, 0x7a6a5aa8, 0xe40ecf0b, 0x9309ff9d, 0x0a00ae27, 0x7d079eb1,
    0xf00f9344, 0x8708a3d2, 0x1e01f268, 0x6906c2fe, 0xf762575d, 0x806567cb, 0x196c3671, 0x6e6b06e7,
    0xfed41b76, 0x89d32be0, 0x10da7a5a, 0x67dd4acc, 0xf9b9df6f, 0x8ebeeff9, 0x17b7be43, 0x60b08ed5,
    0xd6d6a3e8, 0xa1d1937e, 0x38d8c2c4, 0x4fdff252, 0xd1bb67f1, 0xa6bc5767, 0x3fb506dd, 0x48b2364b,
    0xd80d2bda, 0xaf0a1b4c, 0x36034af6, 0x41047a60, 0xdf60efc3, 0xa867df55, 0x316e8eef, 0x4669be79,
    0xcb61b38c, 0xbc66831a, 0x256fd2a0, 0x5268e236, 0xcc0c7795, 0xbb0b4703, 0x220216b9, 0x5505262f,
    0xc5ba3bbe, 0xb2bd0b28, 0x2bb45a92, 0x5cb36a04, 0xc2d7ffa7, 0xb5d0cf31, 0x2cd99e8b, 0x5bdeae1d,
    0x9b64c2b0, 0xec63f226, 0x756aa39c, 0x026d930a, 0x9c0906a9, 0xeb0e363f, 0x72076785, 0x05005713,
    0x95bf4a82, 0xe2b87a14, 0x7bb12bae, 0x0cb61b38, 0x92d28e9b, 0xe5d5be0d, 0x7cdcefb7, 0x0bdbdf21,
    0x86d3d2d4, 0xf1d4e242, 0x68ddb3f8, 0x1fda836e, 0x81be16cd, 0xf6b9265b, 0x6fb077e1, 0x18b74777,
    0x88085ae6, 0xff0f6a70, 0x66063bca, 0x11010b5c, 0x8f659eff, 0xf862ae69, 0x616bffd3, 0x166ccf45,
    0xa00ae278, 0xd70dd2ee, 0x4e048354, 0x3903b3c2, 0xa7672661, 0xd06016f7, 0x4969474d, 0x3e6e77db,
    0xaed16a4a, 0xd9d65adc, 0x40df0b66, 0x37d83bf0, 0xa9bcae53, 0xdebb9ec5, 0x47b2cf7f, 0x30b5ffe9,
    0xbdbdf21c, 0xcabac28a, 0x53b39330, 0x24b4a3a6, 0xbad03605, 0xcdd70693, 0x54de5729, 0x23d967bf,
    0xb3667a2e, 0xc4614ab8, 0x5d681b02, 0x2a6f2b94, 0xb40bbe37, 0xc30c8ea1, 0x5a05df1b, 0x2d02ef8d]"

definition crc_byte :: "32 word \<Rightarrow> byte \<Rightarrow> 32 word" where
  "crc_byte crc b = (crc_tab ! unat (CRC32_INDEX crc XOR ucast b)) XOR CRC32_SHIFTED crc"

definition crc_round :: "32 word \<Rightarrow> 32 word" where
  "crc_round crc = (crc_tab ! unat (CRC32_INDEX crc)) XOR CRC32_SHIFTED crc"

text \<open>The word at an address of a little-endian machine.\<close>

definition le_word32 :: "byte \<Rightarrow> byte \<Rightarrow> byte \<Rightarrow> byte \<Rightarrow> 32 word" where
  "le_word32 b0 b1 b2 b3 = ucast b0 OR push_bit 8 (ucast b1) OR push_bit 16 (ucast b2) OR push_bit 24 (ucast b3)"

fun crc_words :: "32 word \<Rightarrow> byte list \<Rightarrow> 32 word" where
  "crc_words crc (b0 # b1 # b2 # b3 # data) =
     crc_words (crc_round (crc_round (crc_round (crc_round (crc XOR le_word32 b0 b1 b2 b3))))) data"
| "crc_words crc data = fold (\<lambda>b c. crc_byte c b) data crc"

definition pj_crc32_init :: pj_crc32_context where
  "pj_crc32_init = \<lparr>crc_state = 0\<rparr>"

definition pj_crc32_update :: "nat \<Rightarrow> pj_crc32_context \<Rightarrow> byte list \<Rightarrow> 32 word \<times> pj_crc32_context" where
  "pj_crc32_update mis ctx data =
     (let crc = crc_state ctx XOR CRC32_NEGL;
          crc = fold (\<lambda>b c. crc_byte c b) (take mis data) crc;
          crc = crc_words crc (drop mis data);
          ctx = ctx\<lparr>crc_state := crc XOR CRC32_NEGL\<rparr>
      in (crc_state ctx, ctx))"

definition pj_crc32_final :: "pj_crc32_context \<Rightarrow> 32 word" where
  "pj_crc32_final ctx = CRC32_SWAP (crc_state ctx)"

definition pj_crc32_calc :: "nat \<Rightarrow> byte list \<Rightarrow> 32 word" where
  "pj_crc32_calc mis data = pj_crc32_final (snd (pj_crc32_update mis pj_crc32_init data))"

subsection \<open>The variant without tables\<close>

definition crc_bit :: "32 word \<Rightarrow> 32 word" where
  "crc_bit temp = (if temp AND 1 \<noteq> 0 then drop_bit 1 temp XOR 0xEDB88320 else drop_bit 1 temp)"

definition crc_octet :: "byte \<Rightarrow> 32 word \<Rightarrow> 32 word" where
  "crc_octet octet crc = drop_bit 8 crc XOR (crc_bit ^^ 8) ((crc AND 0xFF) XOR ucast octet)"

definition bitwise_init :: pj_crc32_context where
  "bitwise_init = \<lparr>crc_state = CRC32_NEGL\<rparr>"

definition bitwise_update :: "pj_crc32_context \<Rightarrow> byte list \<Rightarrow> 32 word \<times> pj_crc32_context" where
  "bitwise_update ctx octets =
     (let crc = fold crc_octet octets (crc_state ctx)
      in (crc XOR CRC32_NEGL, ctx\<lparr>crc_state := crc\<rparr>))"

definition bitwise_final :: "pj_crc32_context \<Rightarrow> 32 word \<times> pj_crc32_context" where
  "bitwise_final ctx =
     (let ctx = ctx\<lparr>crc_state := crc_state ctx XOR CRC32_NEGL\<rparr> in (crc_state ctx, ctx))"

definition bitwise_calc :: "byte list \<Rightarrow> 32 word" where
  "bitwise_calc data = fst (bitwise_final (snd (bitwise_update bitwise_init data)))"


subsection \<open>The bit step is linear and injective\<close>


lemma crc_bit_alt: "crc_bit x = drop_bit 1 x XOR (if bit x 0 then 0xEDB88320 else 0)"
  by (simp add: crc_bit_def bit_0 and_one_eq odd_iff_mod_2_eq_one)

lemma crc_bit_xor: "crc_bit (x XOR y) = crc_bit x XOR crc_bit y"
  by (simp add: crc_bit_alt bit_xor_iff ac_simps)

lemma crc_bits_xor: "(crc_bit ^^ n) (x XOR y) = (crc_bit ^^ n) x XOR (crc_bit ^^ n) y"
  by (induction n) (simp_all add: crc_bit_xor)

lemma crc_bits_low_zero: "take_bit n x = 0 \<Longrightarrow> (crc_bit ^^ n) x = drop_bit n x"
proof (induction n arbitrary: x)
  case (Suc n)
  have "bit x 0 = bit (take_bit (Suc n) x) 0" by (simp add: bit_take_bit_iff)
  then have "\<not> bit x 0" using Suc.prems by simp
  moreover have "take_bit n (drop_bit 1 x) = 0"
    using Suc.prems by (simp add: take_bit_drop_bit)
  ultimately show ?case using Suc.IH [of "drop_bit 1 x"]
    by (simp add: funpow_Suc_right crc_bit_alt del: funpow.simps)
qed simp

lemma crc_bit_top: "bit (crc_bit x) 31 = bit x 0"
  using bit_imp_le_length [of x 32] by (auto simp: crc_bit_alt bit_xor_iff bit_drop_bit_eq)

lemma xor_cancel_right: "a XOR c = b XOR c \<longleftrightarrow> a = b" for a :: "'a::len word"
  by (metis xor.assoc xor.right_neutral xor_self_eq)

lemma xor_twice: "(a XOR c) XOR c = a" for a :: "'a::len word"
  by (simp add: xor.assoc)

lemma crc_bit_inj: "crc_bit x = crc_bit y \<Longrightarrow> x = y"
proof -
  assume a: "crc_bit x = crc_bit y"
  then have "bit x 0 = bit y 0" using crc_bit_top by metis
  then have "drop_bit 1 x = drop_bit 1 y" using a by (auto simp: crc_bit_alt xor_cancel_right)
  show "x = y"
  proof (rule bit_eqI)
    fix n
    show "bit x n = bit y n"
    proof (cases n)
      case (Suc m)
      have "bit (drop_bit 1 x) m = bit (drop_bit 1 y) m" using \<open>drop_bit 1 x = drop_bit 1 y\<close> by simp
      then show ?thesis using Suc by (simp add: bit_drop_bit_eq)
    qed (simp add: \<open>bit x 0 = bit y 0\<close>)
  qed
qed

lemma crc_bits_inj: "(crc_bit ^^ n) x = (crc_bit ^^ n) y \<Longrightarrow> x = y"
  by (induction n) (auto dest: crc_bit_inj)

subsection \<open>The table holds eight bit steps of every byte\<close>

text \<open>All exclusive ors of a list of words, in the order of the binary numbers that select them.\<close>

definition span :: "32 word list \<Rightarrow> 32 word list" where
  "span es = fold (\<lambda>e L. L @ map (\<lambda>x. x XOR e) L) es [0]"

lemma span_linear:
  fixes F :: "32 word \<Rightarrow> 32 word"
  assumes lin: "\<And>x y. F (x XOR y) = F x XOR F y" and "n \<le> 32"
  shows "length (span (map (\<lambda>k. F (2 ^ k)) [0..<n])) = 2 ^ n \<and>
    (\<forall>i < 2 ^ n. span (map (\<lambda>k. F (2 ^ k)) [0..<n]) ! i = F (of_nat i))"
  using assms(2)
proof (induction n)
  case 0
  have "F 0 = 0" using lin [of 0 0] by simp
  then show ?case by (simp add: span_def)
next
  case (Suc n)
  define L where "L = span (map (\<lambda>k. F (2 ^ k)) [0..<n])"
  have L: "length L = 2 ^ n" "\<And>i. i < 2 ^ n \<Longrightarrow> L ! i = F (of_nat i)" using Suc by (auto simp: L_def)
  have step: "span (map (\<lambda>k. F (2 ^ k)) [0..<Suc n]) = L @ map (\<lambda>x. x XOR F (2 ^ n)) L"
    by (simp add: span_def L_def)
  have "(L @ map (\<lambda>x. x XOR F (2 ^ n)) L) ! i = F (of_nat i)" if "i < 2 ^ Suc n" for i
  proof (cases "i < 2 ^ n")
    case False
    then have i: "i = 2 ^ n + (i - 2 ^ n)" "i - 2 ^ n < 2 ^ n" using that by auto
    have "(of_nat (i - 2 ^ n) :: 32 word) AND 2 ^ n = 0"
    proof (rule bit_eqI)
      fix m
      have "\<not> bit (i - 2 ^ n) n" using i(2) by (simp add: bit_nat_def)
      then show "bit ((of_nat (i - 2 ^ n) :: 32 word) AND 2 ^ n) m = bit (0 :: 32 word) m"
        by (auto simp: bit_and_iff bit_exp_iff bit_of_nat_iff)
    qed
    then have "(of_nat (i - 2 ^ n) :: 32 word) + 2 ^ n = of_nat (i - 2 ^ n) XOR 2 ^ n" by (rule disjunctive_add_eq_xor)
    moreover have "of_nat (i - 2 ^ n) + 2 ^ n = (of_nat (i - 2 ^ n + 2 ^ n) :: 32 word)" by (simp only: of_nat_add of_nat_power of_nat_numeral)
    ultimately have "(of_nat i :: 32 word) = of_nat (i - 2 ^ n) XOR 2 ^ n" using False by (simp only: le_add_diff_inverse2 not_less)
    then have "F (of_nat i) = F (of_nat (i - 2 ^ n)) XOR F (2 ^ n)" by (simp only: lin)
    then show ?thesis using i(2) False L by (simp add: nth_append del: of_nat_diff)
  qed (simp add: nth_append L)
  then show ?case unfolding step using L(1) by simp
qed

lemma crc_bit_values:
  "crc_bit 0x80 = 0x40" "crc_bit 0x40 = 0x20" "crc_bit 0x20 = 0x10"
  "crc_bit 0x10 = 0x8" "crc_bit 0x8 = 0x4" "crc_bit 0x4 = 0x2"
  "crc_bit 0x2 = 1" "crc_bit 1 = 0xedb88320" "crc_bit 0xedb88320 = 0x76dc4190"
  "crc_bit 0x76dc4190 = 0x3b6e20c8" "crc_bit 0x3b6e20c8 = 0x1db71064" "crc_bit 0x1db71064 = 0xedb8832"
  "crc_bit 0xedb8832 = 0x76dc419" "crc_bit 0x76dc419 = 0xee0e612c" "crc_bit 0xee0e612c = 0x77073096"
  by (simp_all add: crc_bit_def)

lemma crc_powers:
  "map (\<lambda>k. (crc_bit ^^ 8) (2 ^ k)) [0..<8] =
   [0x77073096, 0xee0e612c, 0x076dc419, 0x0edb8832, 0x1db71064, 0x3b6e20c8, 0x76dc4190, 0xedb88320]"
proof -
  have u: "[0..<8] = [0, 1, 2, 3, 4, 5, 6, 7 :: nat]" by (simp add: upt_rec)
  have f: "(crc_bit ^^ 8) x = crc_bit (crc_bit (crc_bit (crc_bit (crc_bit (crc_bit (crc_bit (crc_bit x)))))))" for x
    by (simp add: eval_nat_numeral)
  have p: "(2 :: 32 word) ^ 0 = 1" "(2 :: 32 word) ^ 1 = 0x2" "(2 :: 32 word) ^ 2 = 0x4" "(2 :: 32 word) ^ 3 = 0x8"
    "(2 :: 32 word) ^ 4 = 0x10" "(2 :: 32 word) ^ 5 = 0x20" "(2 :: 32 word) ^ 6 = 0x40" "(2 :: 32 word) ^ 7 = 0x80" by simp_all
  show ?thesis unfolding u list.map p f by (simp only: crc_bit_values)
qed

lemma crc_tab_span:
  "crc_tab = span [0x77073096, 0xee0e612c, 0x076dc419, 0x0edb8832, 0x1db71064, 0x3b6e20c8, 0x76dc4190, 0xedb88320]"
  unfolding span_def crc_tab_def by simp

lemma crc_tab_nth: "i < 256 \<Longrightarrow> crc_tab ! i = (crc_bit ^^ 8) (of_nat i)"
proof -
  have "span (map (\<lambda>k. (crc_bit ^^ 8) (2 ^ k)) [0..<8]) = crc_tab" unfolding crc_powers crc_tab_span ..
  moreover have "(8::nat) \<le> 32" by simp
  ultimately show "i < 256 \<Longrightarrow> crc_tab ! i = (crc_bit ^^ 8) (of_nat i)"
    using span_linear [of "crc_bit ^^ 8" 8, OF crc_bits_xor] by simp
qed

lemma low_byte: "(x :: 32 word) AND 0xff = take_bit 8 x"
  by (simp add: take_bit_eq_mask mask_eq_exp_minus_1)

lemma take_bit_byte [simp]: "take_bit 8 (ucast (b :: byte) :: 32 word) = ucast b"
  by (rule bit_eqI) (auto simp: bit_take_bit_iff bit_ucast_iff dest: bit_imp_le_length)

lemma drop_bit_byte [simp]: "drop_bit 8 (ucast (b :: byte) :: 32 word) = 0"
  by (rule bit_eqI) (auto simp: bit_drop_bit_eq bit_ucast_iff dest: bit_imp_le_length)

text \<open>One byte is eight bit steps, in both variants.\<close>

lemma crc_split: "(crc_bit ^^ 8) (take_bit 8 c) XOR drop_bit 8 c = (crc_bit ^^ 8) c"
proof -
  have "c = take_bit 8 c XOR (c AND NOT (mask 8))"
    by (rule bit_eqI) (auto simp: bit_xor_iff bit_take_bit_iff bit_and_iff bit_not_iff bit_mask_iff)
  moreover have "(crc_bit ^^ 8) (c AND NOT (mask 8)) = drop_bit 8 c"
  proof (subst crc_bits_low_zero)
    show "take_bit 8 (c AND NOT (mask 8)) = 0"
      by (rule bit_eqI) (auto simp: bit_take_bit_iff bit_and_iff bit_not_iff bit_mask_iff)
    show "drop_bit 8 (c AND NOT (mask 8)) = drop_bit 8 c"
    proof (rule bit_eqI)
      fix n
      show "bit (drop_bit 8 (c AND NOT (mask 8))) n = bit (drop_bit 8 c) n"
        using bit_imp_le_length [of c "8 + n"] by (auto simp: bit_and_iff bit_not_iff bit_mask_iff bit_drop_bit_eq)
    qed
  qed
  ultimately show ?thesis by (metis crc_bits_xor)
qed

lemma crc_lookup: "crc_tab ! unat (take_bit 8 c) = (crc_bit ^^ 8) (take_bit 8 c)" for c :: "32 word"
proof -
  have "unat (take_bit 8 c) = unat c mod 256" using unat_and_mask [of c 8] by (simp add: take_bit_eq_mask)
  then have "unat (take_bit 8 c) < 256" by simp
  then show ?thesis by (simp add: crc_tab_nth)
qed

lemma crc_round_bits: "crc_round c = (crc_bit ^^ 8) c"
  by (simp add: crc_round_def CRC32_INDEX_def CRC32_SHIFTED_def low_byte crc_lookup crc_split)

lemma crc_byte_bits: "crc_byte c b = (crc_bit ^^ 8) (c XOR ucast b)"
proof -
  have "take_bit 8 c XOR ucast b = take_bit 8 (c XOR ucast b)" by (simp add: take_bit_xor)
  moreover have "drop_bit 8 c = drop_bit 8 (c XOR ucast b)" by (simp add: drop_bit_xor)
  ultimately show ?thesis
    unfolding crc_byte_def CRC32_INDEX_def CRC32_SHIFTED_def low_byte by (simp only: crc_lookup crc_split)
qed

lemma crc_octet_byte: "crc_octet b c = crc_byte c b"
proof -
  have "take_bit 8 c XOR ucast b = take_bit 8 (c XOR ucast b)" by (simp add: take_bit_xor)
  moreover have "drop_bit 8 c = drop_bit 8 (c XOR ucast b)" by (simp add: drop_bit_xor)
  ultimately show ?thesis
    unfolding crc_octet_def crc_byte_bits low_byte by (metis crc_split xor.commute)
qed

lemma crc_bits_high: "(crc_bit ^^ 8) (c XOR push_bit 8 w) = (crc_bit ^^ 8) c XOR w" if "take_bit 24 w = w"
proof -
  have "(crc_bit ^^ 8) (push_bit 8 w) = w"
  proof (subst crc_bits_low_zero)
    show "take_bit 8 (push_bit 8 w) = 0" by (simp add: take_bit_push_bit)
    show "drop_bit 8 (push_bit 8 w) = w"
    proof (rule bit_eqI)
      fix n
      have "bit w n = bit (take_bit 24 w) n" using that by simp
      then show "bit (drop_bit 8 (push_bit 8 w)) n = bit w n"
        by (auto simp: bit_drop_bit_eq bit_push_bit_iff bit_take_bit_iff)
    qed
  qed
  then show ?thesis by (simp add: crc_bits_xor)
qed

lemma le_word32_horner:
  "le_word32 b0 b1 b2 b3 = ucast b0 XOR push_bit 8 (ucast b1 XOR push_bit 8 (ucast b2 XOR push_bit 8 (ucast b3)))"
proof (rule bit_word_eqI)
  fix n assume "n < LENGTH(32)"
  have hi: "\<not> bit b k" if "8 \<le> k" for b :: byte and k using that bit_imp_le_length [of b k] by auto
  consider "n < 8" | "8 \<le> n" "n < 16" | "16 \<le> n" "n < 24" | "24 \<le> n" "n < 32" using \<open>n < LENGTH(32)\<close> by fastforce
  then show "bit (le_word32 b0 b1 b2 b3) n =
      bit (ucast b0 XOR push_bit 8 (ucast b1 XOR push_bit 8 (ucast b2 XOR push_bit 8 (ucast b3))) :: 32 word) n"
    by cases (simp_all add: le_word32_def bit_or_iff bit_xor_iff bit_push_bit_iff bit_ucast_iff hi)
qed

lemma take_bit_24:
  fixes w :: "32 word"
  shows "take_bit 24 (ucast (b :: byte) :: 32 word) = ucast b"
    "take_bit 16 w = w \<Longrightarrow> take_bit 24 w = w" "take_bit 8 w = w \<Longrightarrow> take_bit 16 w = w"
    "take_bit 16 w = w \<Longrightarrow> take_bit 24 (ucast b XOR push_bit 8 w) = ucast b XOR push_bit 8 w"
    "take_bit 8 w = w \<Longrightarrow> take_bit 16 (ucast b XOR push_bit 8 w) = ucast b XOR push_bit 8 w"
proof -
  have m: "take_bit k w = w" if "take_bit j w = w" "j \<le> k" for j k and w :: "32 word"
    using that by (metis min.absorb2 take_bit_take_bit)
  show "take_bit 24 (ucast b :: 32 word) = ucast b" by (rule m [of 8]) simp_all
  show "take_bit 16 w = w \<Longrightarrow> take_bit 24 w = w" "take_bit 8 w = w \<Longrightarrow> take_bit 16 w = w" using m [of 16 w 24] m [of 8 w 16] by simp_all
  have u: "take_bit k (ucast b :: 32 word) = ucast b" if "8 \<le> k" for k by (rule m [of 8]) (use that in simp_all)
  show "take_bit 16 w = w \<Longrightarrow> take_bit 24 (ucast b XOR push_bit 8 w) = ucast b XOR push_bit 8 w"
    "take_bit 8 w = w \<Longrightarrow> take_bit 16 (ucast b XOR push_bit 8 w) = ucast b XOR push_bit 8 w"
    by (simp_all add: take_bit_xor u take_bit_push_bit)
qed

lemma crc_word:
  "crc_round (crc_round (crc_round (crc_round (c XOR le_word32 b0 b1 b2 b3)))) =
   crc_byte (crc_byte (crc_byte (crc_byte c b0) b1) b2) b3"
proof -
  let ?u = "\<lambda>b. ucast (b :: byte) :: 32 word"
  have small: "take_bit 24 (?u b3) = ?u b3" "take_bit 24 (?u b2 XOR push_bit 8 (?u b3)) = ?u b2 XOR push_bit 8 (?u b3)"
      "take_bit 24 (?u b1 XOR push_bit 8 (?u b2 XOR push_bit 8 (?u b3))) = ?u b1 XOR push_bit 8 (?u b2 XOR push_bit 8 (?u b3))"
    using take_bit_24(4,5) take_bit_24(3) [OF take_bit_byte] take_bit_byte by (simp_all only: take_bit_24)
  show ?thesis
    unfolding crc_round_bits crc_byte_bits le_word32_horner
    by (simp only: crc_bits_high small xor.assoc [symmetric])
qed

lemma crc_words_bytes: "crc_words crc data = fold (\<lambda>b c. crc_byte c b) data crc"
  by (induction crc data rule: crc_words.induct) (simp_all add: crc_word)

text \<open>The state of the table variant is the complement of that of the bitwise variant.\<close>

definition crc_bytes :: "byte list \<Rightarrow> 32 word \<Rightarrow> 32 word" where
  "crc_bytes data crc = fold (\<lambda>b c. crc_byte c b) data crc"

lemma crc32_update_bytes:
  "pj_crc32_update mis ctx data =
   (let crc = crc_bytes data (crc_state ctx XOR CRC32_NEGL) XOR CRC32_NEGL in (crc, ctx\<lparr>crc_state := crc\<rparr>))"
proof -
  have "crc_words (fold (\<lambda>b c. crc_byte c b) (take mis data) crc) (drop mis data) = crc_bytes data crc" for crc
    unfolding crc_words_bytes crc_bytes_def by (metis append_take_drop_id fold_append o_apply)
  then show ?thesis by (simp add: pj_crc32_update_def Let_def)
qed

lemma bitwise_update_bytes:
  "bitwise_update ctx data = (let crc = crc_bytes data (crc_state ctx) in (crc XOR CRC32_NEGL, ctx\<lparr>crc_state := crc\<rparr>))"
proof -
  have "crc_octet = (\<lambda>b c. crc_byte c b)" by (simp add: fun_eq_iff crc_octet_byte)
  then show ?thesis by (simp add: bitwise_update_def crc_bytes_def)
qed

lemma crc32_calc_bytes: "pj_crc32_calc mis data = crc_bytes data CRC32_NEGL XOR CRC32_NEGL"
  by (simp add: pj_crc32_calc_def pj_crc32_final_def CRC32_SWAP_def pj_crc32_init_def crc32_update_bytes Let_def)

lemma crc_bytes_append: "crc_bytes (a @ b) c = crc_bytes b (crc_bytes a c)"
  by (simp add: crc_bytes_def)

lemma crc_bytes_Cons: "crc_bytes (b # data) c = crc_bytes data (crc_byte c b)"
  by (simp add: crc_bytes_def)

lemma crc_byte_inj: "crc_byte c b = crc_byte d b \<Longrightarrow> c = d"
  using crc_bits_inj [of 8 "c XOR ucast b" "d XOR ucast b"] by (simp add: crc_byte_bits xor_cancel_right)

lemma crc_bytes_inj: "crc_bytes data c = crc_bytes data d \<Longrightarrow> c = d"
proof (induction data arbitrary: c d)
  case (Cons b data)
  then have "crc_bytes data (crc_byte c b) = crc_bytes data (crc_byte d b)" by (simp add: crc_bytes_def)
  then show ?case using Cons.IH crc_byte_inj by blast
qed (simp add: crc_bytes_def)

lemma crc_byte_inj_data: "crc_byte c b = crc_byte c b' \<Longrightarrow> b = b'"
proof -
  assume "crc_byte c b = crc_byte c b'"
  then have "c XOR ucast b = (c XOR ucast b' :: 32 word)" using crc_bits_inj by (simp add: crc_byte_bits)
  then have "(ucast b :: 32 word) = ucast b'" by (metis xor.commute xor_cancel_right)
  then have "unat (ucast b :: 32 word) = unat (ucast b' :: 32 word)" by simp
  then have "unat b = unat b'" by (simp only: unat_ucast_up len_num0 len_num1 len_bit0 len_bit1)
  then show "b = b'" by (simp add: word_unat_eq_iff)
qed

lemma crc32_byte_change:
  assumes "i < length data" "b \<noteq> data ! i"
  shows "pj_crc32_calc mis (data[i := b]) \<noteq> pj_crc32_calc mis' data"
proof
  assume "pj_crc32_calc mis (data[i := b]) = pj_crc32_calc mis' data"
  then have "crc_bytes (data[i := b]) CRC32_NEGL = crc_bytes data CRC32_NEGL"
    by (simp add: crc32_calc_bytes xor_cancel_right)
  moreover have "data[i := b] = take i data @ b # drop (Suc i) data" using assms(1) by (rule upd_conv_take_nth_drop)
  moreover have "data = take i data @ data ! i # drop (Suc i) data" using assms(1) by (rule id_take_nth_drop)
  ultimately have "crc_bytes (take i data @ b # drop (Suc i) data) CRC32_NEGL =
      crc_bytes (take i data @ data ! i # drop (Suc i) data) CRC32_NEGL" by metis
  then have "crc_byte (crc_bytes (take i data) CRC32_NEGL) b = crc_byte (crc_bytes (take i data) CRC32_NEGL) (data ! i)"
    unfolding crc_bytes_append crc_bytes_Cons by (rule crc_bytes_inj)
  then show False using assms(2) crc_byte_inj_data by blast
qed

subsection \<open>Properties\<close>


text \<open>
  C11. Two messages that differ in exactly one byte never have the same checksum.
\<close>

theorem crc32_detects_byte:
  assumes "i < length data" "b \<noteq> data ! i"
  shows "pj_crc32_calc mis (data[i := b]) \<noteq> pj_crc32_calc mis' data"
  using assms by (rule crc32_byte_change)

theorem crc32_detects_byte_witness:
  "pj_crc32_calc 0 [0x61] = 0xE8B7BE43 \<and> pj_crc32_calc 3 ([0x61][0 := 0x62]) \<noteq> 0xE8B7BE43"
proof -
  have v: "pj_crc32_calc 0 [0x61] = 0xE8B7BE43"
    unfolding crc32_calc_bytes crc_bytes_def crc_byte_bits by code_simp
  have "(0x62 :: byte) \<noteq> [0x61] ! 0" by simp
  from crc32_detects_byte [OF _ this, of 3 0] v show ?thesis by simp
qed

end
