(* ===== verification/Sha1.thy ===== *)
theory Sha1
  imports BlockHash Crc32
begin

text \<open>
  SHA-1 and HMAC-SHA1 (pjlib-util/src/pjlib-util/sha1.c, hmac_sha1.c) on a little-endian machine. The
  transform works in place on a circular block of 16 words; the unrolled rounds rotate the names of
  the five working variables, so a round here takes \<open>(v, w, x, y, z)\<close> and returns the tuple in the
  order in which the next round reads it. \<^verbatim>\<open>pj_size_t\<close> has 64 bits.

  The lemmas show that the code computes SHA-1 as FIPS 180 defines it, however the message is cut
  into updates, and that HMAC-SHA1 is that of RFC 2104.
\<close>

subsection \<open>The transform\<close>

definition rol :: "32 word \<Rightarrow> nat \<Rightarrow> 32 word" where
  "rol val bits = push_bit bits val OR drop_bit (32 - bits) val"

definition blk0 :: "nat \<Rightarrow> 32 word list \<Rightarrow> 32 word \<times> 32 word list" where
  "blk0 i l = (let b = (rol (l ! i) 24 AND 0xFF00FF00) OR (rol (l ! i) 8 AND 0x00FF00FF) in (b, l[i := b]))"

definition blk :: "nat \<Rightarrow> 32 word list \<Rightarrow> 32 word \<times> 32 word list" where
  "blk i l = (let b = rol (l ! ((i + 13) mod 16) XOR l ! ((i + 8) mod 16) XOR l ! ((i + 2) mod 16) XOR l ! (i mod 16)) 1
              in (b, l[i mod 16 := b]))"

type_synonym sha1_vars = "32 word \<times> 32 word \<times> 32 word \<times> 32 word \<times> 32 word"

definition sha1_mix :: "nat \<Rightarrow> 32 word \<Rightarrow> 32 word \<Rightarrow> 32 word \<Rightarrow> 32 word" where
  "sha1_mix i w x y =
     (if i < 20 then ((w AND (x XOR y)) XOR y) + 0x5A827999
      else if i < 40 then (w XOR x XOR y) + 0x6ED9EBA1
      else if i < 60 then (((w OR x) AND y) OR (w AND x)) + 0x8F1BBCDC
      else (w XOR x XOR y) + 0xCA62C1D6)"

definition sha1_round :: "nat \<Rightarrow> sha1_vars \<times> 32 word list \<Rightarrow> sha1_vars \<times> 32 word list" where
  "sha1_round i = (\<lambda>((v, w, x, y, z), l).
     let (b, l) = (if i < 16 then blk0 i l else blk i l)
     in ((z + sha1_mix i w x y + b + rol v 5, v, rol w 30, x, y), l))"

text \<open>The bytes of the buffer seen as words, and back.\<close>

fun le_words :: "byte list \<Rightarrow> 32 word list" where
  "le_words (b0 # b1 # b2 # b3 # bs) = le_word32 b0 b1 b2 b3 # le_words bs"
| "le_words bs = []"

definition SHA1_Transform :: "32 word list \<Rightarrow> byte list \<Rightarrow> 32 word list \<times> byte list" where
  "SHA1_Transform state buffer =
     (let ((a, b, c, d, e), l) = fold sha1_round [0..<80]
            ((state ! 0, state ! 1, state ! 2, state ! 3, state ! 4), le_words buffer)
      in ([state ! 0 + a, state ! 1 + b, state ! 2 + c, state ! 3 + d, state ! 4 + e], concat (map le_bytes32 l)))"

subsection \<open>The context\<close>

record pj_sha1_context =
  sha_state :: "32 word list"
  sha_count0 :: "32 word"
  sha_count1 :: "32 word"
  sha_buffer :: "byte list"

definition pj_sha1_init :: "pj_sha1_context \<Rightarrow> pj_sha1_context" where
  "pj_sha1_init ctx = ctx\<lparr>
     sha_state := [0x67452301, 0xEFCDAB89, 0x98BADCFE, 0x10325476, 0xC3D2E1F0],
     sha_count0 := 0, sha_count1 := 0\<rparr>"

function sha1_blocks :: "32 word list \<Rightarrow> byte list \<Rightarrow> 32 word list \<times> byte list" where
  "sha1_blocks state data =
     (if 63 < length data then sha1_blocks (fst (SHA1_Transform state (take 64 data))) (drop 64 data)
      else (state, data))"
  by pat_completeness auto
termination by (relation "measure (\<lambda>(_, data). length data)") auto

declare sha1_blocks.simps [simp del]

definition pj_sha1_update :: "pj_sha1_context \<Rightarrow> byte list \<Rightarrow> pj_sha1_context" where
  "pj_sha1_update ctx data =
     (let len = length data;
          j = unat (drop_bit 3 (sha_count0 ctx) AND 63);
          count0 = sha_count0 ctx + push_bit 3 (of_nat len);
          count1 = (if unat count0 < len * 8 then sha_count1 ctx + 1 else sha_count1 ctx);
          count1 = count1 + drop_bit 29 (of_nat len);
          ctx = ctx\<lparr>sha_count0 := count0, sha_count1 := count1\<rparr>
      in if j + len > 63 then
           (let buffer = memcpy_at (sha_buffer ctx) j (take (64 - j) data);
                (state, buffer) = SHA1_Transform (sha_state ctx) buffer;
                (state, rest) = sha1_blocks state (drop (64 - j) data)
            in ctx\<lparr>sha_state := state, sha_buffer := memcpy_at buffer 0 rest\<rparr>)
         else ctx\<lparr>sha_buffer := memcpy_at (sha_buffer ctx) j data\<rparr>)"

text \<open>The loop that pads with zeroes runs at most 63 times.\<close>

function sha1_pad :: "pj_sha1_context \<Rightarrow> pj_sha1_context" where
  "sha1_pad ctx = (if sha_count0 ctx AND 504 \<noteq> 448 then sha1_pad (pj_sha1_update ctx [0]) else ctx)"
  by pat_completeness auto

lemma update_count0: "sha_count0 (pj_sha1_update ctx data) = sha_count0 ctx + push_bit 3 (of_nat (length data))"
  by (simp add: pj_sha1_update_def Let_def split: prod.split)

text \<open>How many bytes wait in the buffer, from the low word of the bit count.\<close>

definition waiting :: "32 word \<Rightarrow> nat" where
  "waiting c = unat c div 8 mod 64"

lemma waiting_less [simp]: "waiting c < 64"
  by (simp add: waiting_def)

lemma waiting_word: "unat (drop_bit 3 c AND 63) = waiting c"
proof -
  have "(63 :: 32 word) = mask 6" by (simp add: mask_eq_exp_minus_1)
  then have "unat (drop_bit 3 c AND 63) = unat (drop_bit 3 c) mod 2 ^ 6" by (simp only: unat_and_mask)
  moreover have "unat (drop_bit 3 c) = unat c div 2 ^ 3"
    by (metis drop_bit_eq_div unat_drop_bit_eq)
  ultimately show ?thesis by (simp only: waiting_def) simp
qed

lemma and_shifted_mask: "(c :: 'a::len word) AND push_bit k (mask m) = push_bit k (drop_bit k c AND mask m)"
  by (rule bit_word_eqI) (auto simp: bit_and_iff bit_push_bit_iff bit_drop_bit_eq bit_mask_iff)

lemma waiting_56: "c AND 504 = 448 \<longleftrightarrow> waiting c = 56"
proof -
  have "c AND 504 = push_bit 3 (drop_bit 3 c AND 63)"
    using and_shifted_mask [of c 3 6] by (simp add: mask_eq_exp_minus_1)
  moreover have "unat (push_bit 3 (drop_bit 3 c AND 63)) = waiting c * 8"
    using waiting_less [of c] by (subst unat_push_bit_small) (simp_all add: waiting_word del: waiting_less)
  ultimately have "unat (c AND 504) = waiting c * 8" by simp
  moreover have "c AND 504 = 448 \<longleftrightarrow> unat (c AND 504) = 448" by (simp add: word_unat_eq_iff)
  ultimately show ?thesis by linarith
qed

lemma waiting_add: "waiting (c + push_bit 3 (of_nat n)) = (waiting c + n) mod 64"
proof -
  have "unat (c + push_bit 3 (of_nat n :: 32 word)) = (unat c + n * 8) mod 2 ^ 32"
  proof -
    have "push_bit 3 (of_nat n :: 32 word) = of_nat (n * 8)" by (simp add: push_bit_eq_mult)
    then have "unat (c + push_bit 3 (of_nat n :: 32 word)) = (unat c + n * 8 mod 2 ^ LENGTH(32)) mod 2 ^ LENGTH(32)"
      by (simp only: unat_word_ariths unat_of_nat)
    then show ?thesis by (simp only: mod_add_right_eq) simp
  qed
  also have "\<dots> div 8 mod 64 = ((unat c + n * 8) div 8) mod 64"
  proof -
    have "a mod 2 ^ 32 div 8 mod 64 = a div 8 mod 64" for a :: nat
    proof -
      have "a mod 2 ^ 32 div 8 = a div 8 mod 2 ^ 29" using mod_mult2_eq [of a 8 "2 ^ 29"] by simp
      moreover have "(2 :: nat) ^ 29 = 64 * 2 ^ 23" by simp
      ultimately show ?thesis by (metis dvd_triv_left mod_mod_cancel)
    qed
    then show ?thesis .
  qed
  also have "(unat c + n * 8) div 8 = unat c div 8 + n" by simp
  finally show ?thesis by (simp add: waiting_def mod_add_left_eq)
qed

termination sha1_pad
proof (relation "measure (\<lambda>ctx. (120 - waiting (sha_count0 ctx)) mod 64)")
  fix ctx :: pj_sha1_context assume "sha_count0 ctx AND 504 \<noteq> 448"
  then have p: "waiting (sha_count0 ctx) \<noteq> 56" by (simp add: waiting_56)
  have n: "waiting (sha_count0 (pj_sha1_update ctx [0])) = (waiting (sha_count0 ctx) + 1) mod 64"
    by (simp only: update_count0 waiting_add) simp
  have "(120 - (p + 1) mod 64) mod 64 < (120 - p) mod 64" if lt: "p < 64" "p \<noteq> 56" for p :: nat
  proof (cases "p < 56")
    case True
    then have "(p + 1) mod 64 = p + 1" "(120 - (p + 1)) mod 64 = 55 - p" "(120 - p) mod 64 = 56 - p"
      by (auto simp: mod_if)
    then show ?thesis using True by simp
  next
    case False
    then consider "p = 63" | "56 < p" "p < 63" using lt by linarith
    then show ?thesis by cases (auto simp: mod_if)
  qed
  then show "(pj_sha1_update ctx [0], ctx) \<in> measure (\<lambda>ctx. (120 - waiting (sha_count0 ctx)) mod 64)"
    using p n by simp
qed simp

declare sha1_pad.simps [simp del]

definition pj_sha1_final :: "pj_sha1_context \<Rightarrow> byte list \<times> pj_sha1_context" where
  "pj_sha1_final ctx =
     (let finalcount = be_bytes32 (sha_count1 ctx) @ be_bytes32 (sha_count0 ctx);
          ctx = sha1_pad (pj_sha1_update ctx [0x80]);
          ctx = pj_sha1_update ctx finalcount;
          digest = concat (map be_bytes32 (sha_state ctx))
      in (digest, \<lparr>sha_state = replicate 5 0, sha_count0 = 0, sha_count1 = 0, sha_buffer = replicate 64 0\<rparr>))"

subsection \<open>HMAC-SHA1\<close>

record pj_hmac_sha1_context =
  hs_context :: pj_sha1_context
  hs_k_opad :: "byte list"

text \<open>\<open>tctx\<close> is the uninitialised context on the stack that hashes a long key.\<close>

definition pj_hmac_sha1_init :: "pj_sha1_context \<Rightarrow> pj_hmac_sha1_context \<Rightarrow> byte list \<Rightarrow> pj_hmac_sha1_context" where
  "pj_hmac_sha1_init tctx hctx key =
     (let key = (if length key > 64 then fst (pj_sha1_final (pj_sha1_update (pj_sha1_init tctx) key)) else key);
          k_ipad = memcpy_at (replicate 64 0) 0 key;
          k_opad = memcpy_at (replicate 64 0) 0 key;
          k_ipad = map (\<lambda>b. b XOR 0x36) k_ipad;
          k_opad = map (\<lambda>b. b XOR 0x5c) k_opad
      in hctx\<lparr>hs_context := pj_sha1_update (pj_sha1_init (hs_context hctx)) k_ipad, hs_k_opad := k_opad\<rparr>)"

definition pj_hmac_sha1_update :: "pj_hmac_sha1_context \<Rightarrow> byte list \<Rightarrow> pj_hmac_sha1_context" where
  "pj_hmac_sha1_update hctx input = hctx\<lparr>hs_context := pj_sha1_update (hs_context hctx) input\<rparr>"

definition pj_hmac_sha1_final :: "pj_hmac_sha1_context \<Rightarrow> byte list \<times> pj_hmac_sha1_context" where
  "pj_hmac_sha1_final hctx =
     (let (digest, ctx) = pj_sha1_final (hs_context hctx);
          ctx = pj_sha1_init ctx;
          ctx = pj_sha1_update ctx (hs_k_opad hctx);
          ctx = pj_sha1_update ctx digest;
          (digest, ctx) = pj_sha1_final ctx
      in (digest, hctx\<lparr>hs_context := ctx\<rparr>))"

definition pj_hmac_sha1 :: "pj_sha1_context \<Rightarrow> pj_hmac_sha1_context \<Rightarrow> byte list \<Rightarrow> byte list \<Rightarrow> byte list" where
  "pj_hmac_sha1 tctx ctx input key =
     fst (pj_hmac_sha1_final (pj_hmac_sha1_update (pj_hmac_sha1_init tctx ctx key) input))"

subsection \<open>SHA-1 as FIPS 180 defines it\<close>

definition Ch :: "32 word \<Rightarrow> 32 word \<Rightarrow> 32 word \<Rightarrow> 32 word" where
  "Ch x y z = (x AND y) XOR (NOT x AND z)"

definition Maj :: "32 word \<Rightarrow> 32 word \<Rightarrow> 32 word \<Rightarrow> 32 word" where
  "Maj x y z = (x AND y) XOR (x AND z) XOR (y AND z)"

definition Parity :: "32 word \<Rightarrow> 32 word \<Rightarrow> 32 word \<Rightarrow> 32 word" where
  "Parity x y z = x XOR y XOR z"

definition fips_f :: "nat \<Rightarrow> 32 word \<Rightarrow> 32 word \<Rightarrow> 32 word \<Rightarrow> 32 word" where
  "fips_f t = (if t < 20 then Ch else if t < 40 then Parity else if t < 60 then Maj else Parity)"

definition fips_K :: "nat \<Rightarrow> 32 word" where
  "fips_K t = (if t < 20 then 0x5a827999 else if t < 40 then 0x6ed9eba1 else if t < 60 then 0x8f1bbcdc else 0xca62c1d6)"

definition be_word :: "byte \<Rightarrow> byte \<Rightarrow> byte \<Rightarrow> byte \<Rightarrow> 32 word" where
  "be_word b0 b1 b2 b3 = le_word32 b3 b2 b1 b0"

text \<open>The message schedule of a block.\<close>

function fips_W :: "byte list \<Rightarrow> nat \<Rightarrow> 32 word" where
  "fips_W M t = (if t < 16 then be_word (M ! (4 * t)) (M ! (4 * t + 1)) (M ! (4 * t + 2)) (M ! (4 * t + 3))
     else rol (fips_W M (t - 3) XOR fips_W M (t - 8) XOR fips_W M (t - 14) XOR fips_W M (t - 16)) 1)"
  by pat_completeness auto
termination by (relation "measure snd") auto

declare fips_W.simps [simp del]

definition fips_step :: "byte list \<Rightarrow> nat \<Rightarrow> sha1_vars \<Rightarrow> sha1_vars" where
  "fips_step M t = (\<lambda>(a, b, c, d, e). (rol a 5 + fips_f t b c d + e + fips_K t + fips_W M t, a, rol b 30, c, d))"

definition fips_compress :: "32 word list \<Rightarrow> byte list \<Rightarrow> 32 word list" where
  "fips_compress H M =
     (let (a, b, c, d, e) = fold (fips_step M) [0..<80] (H ! 0, H ! 1, H ! 2, H ! 3, H ! 4)
      in [a + H ! 0, b + H ! 1, c + H ! 2, d + H ! 3, e + H ! 4])"

definition fips_H0 :: "32 word list" where
  "fips_H0 = [0x67452301, 0xEFCDAB89, 0x98BADCFE, 0x10325476, 0xC3D2E1F0]"

text \<open>The padding: a one bit, zeroes up to 448 bits modulo 512, and the length in bits as a 64-bit big-endian number.\<close>

definition be_bytes64 :: "nat \<Rightarrow> byte list" where
  "be_bytes64 n = be_bytes32 (of_nat (n div 2 ^ 32)) @ be_bytes32 (of_nat n)"

definition fips_pad :: "byte list \<Rightarrow> byte list" where
  "fips_pad M = M @ [0x80] @ replicate ((119 - length M mod 64) mod 64) 0 @ be_bytes64 (8 * length M)"

definition sha1_digest :: "byte list \<Rightarrow> byte list" where
  "sha1_digest M = concat (map be_bytes32 (absorb fips_compress fips_H0 (fips_pad M)))"

subsection \<open>The transform is the compression function\<close>

lemma sha1_mix_fips: "sha1_mix t w x y = fips_f t w x y + fips_K t"
proof -
  have "(w AND (x XOR y)) XOR y = Ch w x y" "((w OR x) AND y) OR (w AND x) = Maj w x y"
    by (rule bit_word_eqI; auto simp: Ch_def Maj_def bit_xor_iff bit_and_iff bit_or_iff bit_not_iff)+
  then show ?thesis by (simp add: sha1_mix_def fips_f_def fips_K_def Parity_def)
qed

lemma swap_word: "(rol (le_word32 b0 b1 b2 b3) 24 AND 0xFF00FF00) OR (rol (le_word32 b0 b1 b2 b3) 8 AND 0x00FF00FF) =
  be_word b0 b1 b2 b3"
proof -
  have m: "(0xFF00FF00 :: 32 word) = push_bit 8 (mask 8) OR push_bit 24 (mask 8)" "(0x00FF00FF :: 32 word) = mask 8 OR push_bit 16 (mask 8)"
    by (simp_all add: mask_eq_exp_minus_1)
  have hi: "\<not> bit b k" if "8 \<le> k" for b :: byte and k using that bit_imp_le_length [of b k] by auto
  show ?thesis
  proof (rule bit_word_eqI)
    fix n assume "n < LENGTH(32)"
    then consider "n < 8" | "8 \<le> n" "n < 16" | "16 \<le> n" "n < 24" | "24 \<le> n" "n < 32" by fastforce
    then show "bit ((rol (le_word32 b0 b1 b2 b3) 24 AND 0xFF00FF00) OR (rol (le_word32 b0 b1 b2 b3) 8 AND 0x00FF00FF)) n =
        bit (be_word b0 b1 b2 b3) n"
      unfolding m by cases (simp_all add: le_word32_def be_word_def rol_def bit_or_iff bit_and_iff bit_push_bit_iff
          bit_drop_bit_eq bit_mask_iff bit_ucast_iff hi del: mask_numeral, auto)
  qed
qed

lemma length_le_words: "length (le_words bs) = length bs div 4"
  by (induction bs rule: le_words.induct) auto

lemma le_words_nth:
  "4 * i + 3 < length bs \<Longrightarrow> le_words bs ! i = le_word32 (bs ! (4 * i)) (bs ! (4 * i + 1)) (bs ! (4 * i + 2)) (bs ! (4 * i + 3))"
proof (induction bs arbitrary: i rule: le_words.induct)
  case (1 b0 b1 b2 b3 bs)
  then show ?case by (cases i) (auto simp: numeral_3_eq_3 numeral_2_eq_2)
qed auto

text \<open>After \<open>t\<close> rounds the circular block holds the last 16 words of the schedule.\<close>

definition sched_inv :: "byte list \<Rightarrow> nat \<Rightarrow> 32 word list \<Rightarrow> bool" where
  "sched_inv M t l \<longleftrightarrow> length l = 16 \<and> (\<forall>j < t. t \<le> j + 16 \<longrightarrow> l ! (j mod 16) = fips_W M j) \<and>
     (\<forall>j < 16. t \<le> j \<longrightarrow> l ! j = le_words M ! j)"

lemma sched_inv_update: "sched_inv M t l \<Longrightarrow> sched_inv M (Suc t) (l[t mod 16 := fips_W M t])"
proof -
  assume inv: "sched_inv M t l"
  have "l[t mod 16 := fips_W M t] ! (j mod 16) = fips_W M j" if "j < Suc t" "Suc t \<le> j + 16" for j
  proof (cases "j = t")
    case False
    then have "j < t" "j mod 16 \<noteq> t mod 16"
      using that by (auto simp: mod_eq_iff_dvd_symdiff_nat dest!: dvd_imp_le)
    then show ?thesis using inv that by (auto simp: sched_inv_def)
  qed (use inv in \<open>simp add: sched_inv_def\<close>)
  moreover have "l[t mod 16 := fips_W M t] ! j = le_words M ! j" if "j < 16" "Suc t \<le> j" for j
    using inv that by (auto simp: sched_inv_def)
  ultimately show ?thesis using inv by (auto simp: sched_inv_def)
qed

lemma sched_word:
  assumes "sched_inv M t l" "length M = 64"
  shows "(if t < 16 then blk0 t l else blk t l) = (fips_W M t, l[t mod 16 := fips_W M t])"
proof (cases "t < 16")
  case True
  then have "l ! t = le_word32 (M ! (4 * t)) (M ! (4 * t + 1)) (M ! (4 * t + 2)) (M ! (4 * t + 3))"
    using assms le_words_nth [of t M] by (simp add: sched_inv_def)
  then show ?thesis using True by (simp add: blk0_def Let_def swap_word fips_W.simps [of M t])
next
  case False
  have w: "l ! (k mod 16) = fips_W M j" if "k mod 16 = j mod 16" "j < t" "t \<le> j + 16" for k j
    using assms that by (simp add: sched_inv_def)
  have e: "(t + 13) mod 16 = (t - 3) mod 16" "(t + 8) mod 16 = (t - 8) mod 16" "(t + 2) mod 16 = (t - 14) mod 16" "t mod 16 = (t - 16) mod 16"
    using False by (simp_all add: mod_eq_iff_dvd_symdiff_nat)
  note [simp] = w [OF e(1)] w [OF e(2)] w [OF e(3)] w [OF e(4)]
  have "l ! (Suc (Suc t) mod 16) = l ! ((t + 2) mod 16)" by simp
  then show ?thesis using False w [OF e(3)] by (simp add: blk_def Let_def fips_W.simps [of M t])
qed

lemma sha1_rounds:
  assumes "length M = 64"
  shows "fst (fold sha1_round [0..<t] (s, le_words M)) = fold (fips_step M) [0..<t] s \<and>
    sched_inv M t (snd (fold sha1_round [0..<t] (s, le_words M)))"
proof (induction t)
  case 0
  then show ?case using assms by (simp add: sched_inv_def length_le_words)
next
  case (Suc t)
  obtain v l where vl: "fold sha1_round [0..<t] (s, le_words M) = (v, l)" by fastforce
  then have v: "fold (fips_step M) [0..<t] s = v" "sched_inv M t l" using Suc by auto
  obtain a b c d e where abc: "v = (a, b, c, d, e)" by (metis prod.exhaust)
  have "sha1_round t (v, l) = (fips_step M t v, l[t mod 16 := fips_W M t])"
    unfolding sha1_round_def abc prod.case sched_word [OF v(2) assms] Let_def
    by (simp add: fips_step_def sha1_mix_fips ac_simps)
  then show ?case using vl v sched_inv_update [OF v(2)] by simp
qed

lemma SHA1_Transform_fips: "length M = 64 \<Longrightarrow> fst (SHA1_Transform H M) = fips_compress H M"
proof -
  assume M: "length M = 64"
  obtain a b c d e l where r: "fold sha1_round [0..<80] ((H ! 0, H ! 1, H ! 2, H ! 3, H ! 4), le_words M) = ((a, b, c, d, e), l)"
    by (metis prod.exhaust)
  then have "fold (fips_step M) [0..<80] (H ! 0, H ! 1, H ! 2, H ! 3, H ! 4) = (a, b, c, d, e)"
    using sha1_rounds [OF M, of 80 "(H ! 0, H ! 1, H ! 2, H ! 3, H ! 4)"] by simp
  then show ?thesis unfolding SHA1_Transform_def fips_compress_def r by (simp add: ac_simps)
qed

lemma length_Transform_buffer: "length M = 64 \<Longrightarrow> length (snd (SHA1_Transform H M)) = 64"
proof -
  assume M: "length M = 64"
  obtain a b c d e l where r: "fold sha1_round [0..<80] ((H ! 0, H ! 1, H ! 2, H ! 3, H ! 4), le_words M) = ((a, b, c, d, e), l)"
    by (metis prod.exhaust)
  then have "length l = 16" using sha1_rounds [OF M, of 80 "(H ! 0, H ! 1, H ! 2, H ! 3, H ! 4)"] by (simp add: sched_inv_def)
  moreover have "length (concat (map le_bytes32 l)) = 4 * length l" by (induction l) auto
  ultimately show ?thesis unfolding SHA1_Transform_def r by simp
qed

lemma sha1_blocks_absorb: "sha1_blocks st data = (absorb fips_compress st data, unfinished data)"
proof (induction st data rule: sha1_blocks.induct)
  case (1 st data)
  show ?case
  proof (cases "63 < length data")
    case True
    then have "sha1_blocks st data = (absorb fips_compress (fips_compress st (take 64 data)) (drop 64 data), unfinished (drop 64 data))"
      using 1 by (subst sha1_blocks.simps) (simp add: SHA1_Transform_fips)
    moreover have "absorb fips_compress st data = absorb fips_compress (fips_compress st (take 64 data)) (drop 64 data)"
      using True by (subst absorb.simps) simp
    ultimately show ?thesis using True by (simp add: unfinished_drop)
  next
    case False
    then show ?thesis by (simp add: sha1_blocks.simps unfinished_short)
  qed
qed

subsection \<open>The context represents the message absorbed so far\<close>

definition sha1_repr :: "byte list \<Rightarrow> pj_sha1_context \<Rightarrow> bool" where
  "sha1_repr m ctx \<longleftrightarrow> sha_state ctx = absorb fips_compress fips_H0 m \<and> length (sha_buffer ctx) = 64 \<and>
     take (length m mod 64) (sha_buffer ctx) = unfinished m \<and>
     sha_count0 ctx = of_nat (8 * length m) \<and> sha_count1 ctx = of_nat (8 * length m div 2 ^ 32)"

lemma waiting_repr: "sha1_repr m ctx \<Longrightarrow> waiting (sha_count0 ctx) = length m mod 64"
proof -
  assume "sha1_repr m ctx"
  then have "sha_count0 ctx = 0 + push_bit 3 (of_nat (length m))" by (simp add: sha1_repr_def push_bit_eq_mult)
  then have "waiting (sha_count0 ctx) = (waiting 0 + length m) mod 64" by (simp only: waiting_add)
  then show ?thesis by (simp add: waiting_def)
qed

lemma carry: "8 * n < 2 ^ 32 \<Longrightarrow> 8 * (l + n) div 2 ^ 32 = 8 * l div 2 ^ 32 + (if 8 * (l + n) mod 2 ^ 32 < 8 * n then 1 else (0 :: nat))"
proof -
  assume n: "8 * n < 2 ^ 32"
  define q r where "q = 8 * l div 2 ^ 32" and "r = 8 * l mod (2 ^ 32 :: nat)"
  have l: "8 * l = q * 2 ^ 32 + r" "r < 2 ^ 32" by (simp_all only: q_def r_def div_mult_mod_eq mod_less_divisor zero_less_power zero_less_numeral)
  have e: "8 * (l + n) = q * 2 ^ 32 + (r + 8 * n)" using l(1) by simp
  have "8 * (l + n) div 2 ^ 32 = q + (r + 8 * n) div 2 ^ 32" "8 * (l + n) mod 2 ^ 32 = (r + 8 * n) mod 2 ^ 32"
    unfolding e by simp_all
  moreover have "(r + 8 * n) div 2 ^ 32 = (if (r + 8 * n) mod 2 ^ 32 < 8 * n then 1 else 0)"
  proof (cases "r + 8 * n < 2 ^ 32")
    case False
    then have "(r + 8 * n) div 2 ^ 32 = 1" "(r + 8 * n) mod 2 ^ 32 = r + 8 * n - 2 ^ 32"
      using l(2) n by (simp_all add: div_if mod_if)
    moreover have "r + 8 * n - 2 ^ 32 < 8 * n" using False l(2) by linarith
    ultimately show ?thesis by simp
  qed simp
  ultimately show ?thesis by (simp add: q_def)
qed

lemma update_count1:
  assumes "sha1_repr m ctx" "length d < 2 ^ 29"
  shows "sha_count1 (pj_sha1_update ctx d) = of_nat (8 * length (m @ d) div 2 ^ 32)"
proof -
  have "unat (sha_count0 (pj_sha1_update ctx d)) = 8 * length (m @ d) mod 2 ^ 32"
  proof -
    have "sha_count0 (pj_sha1_update ctx d) = of_nat (8 * length (m @ d))"
      using assms(1) by (simp add: update_count0 sha1_repr_def push_bit_eq_mult)
    then show ?thesis by (simp only: unat_of_nat) simp
  qed
  moreover have "drop_bit 29 (of_nat (length d) :: 32 word) = 0"
  proof -
    have "unat (of_nat (length d) :: 32 word) = length d" using assms(2) by (subst unat_of_nat_small) auto
    then have "unat (drop_bit 29 (of_nat (length d) :: 32 word)) = length d div 2 ^ 29" by (metis drop_bit_eq_div unat_drop_bit_eq)
    then have "unat (drop_bit 29 (of_nat (length d) :: 32 word)) = 0" using assms(2) by simp
    then show ?thesis by (simp add: unsigned_eq_0_iff)
  qed
  moreover have "sha_count1 (pj_sha1_update ctx d) =
      (if unat (sha_count0 (pj_sha1_update ctx d)) < length d * 8 then sha_count1 ctx + 1 else sha_count1 ctx) + drop_bit 29 (of_nat (length d))"
    unfolding update_count0 by (simp add: pj_sha1_update_def Let_def split: prod.split)
  moreover have "8 * length d < 2 ^ 32" using assms(2) by simp
  ultimately show ?thesis using carry [of "length d" "length m"] assms(1) by (simp add: sha1_repr_def mult.commute)
qed

lemma sha1_update_repr:
  assumes "sha1_repr m ctx" "length d < 2 ^ 29"
  shows "sha1_repr (m @ d) (pj_sha1_update ctx d)"
proof -
  define j where "j = length m mod 64"
  have r: "sha_state ctx = absorb fips_compress fips_H0 m" "length (sha_buffer ctx) = 64" "take j (sha_buffer ctx) = unfinished m"
      "length (unfinished m) = j" "j < 64"
    using assms(1) by (simp_all add: sha1_repr_def j_def)
  have jc: "unat (drop_bit 3 (sha_count0 ctx) AND 63) = j" using waiting_repr [OF assms(1)] by (simp add: waiting_word j_def)
  have cnt: "sha_count0 (pj_sha1_update ctx d) = of_nat (8 * length (m @ d))"
    using assms(1) by (simp add: update_count0 sha1_repr_def push_bit_eq_mult)
  have "sha_state (pj_sha1_update ctx d) = absorb fips_compress fips_H0 (m @ d) \<and> length (sha_buffer (pj_sha1_update ctx d)) = 64 \<and>
      take (length (m @ d) mod 64) (sha_buffer (pj_sha1_update ctx d)) = unfinished (m @ d)"
  proof (cases "j + length d > 63")
    case True
    define B where "B = memcpy_at (sha_buffer ctx) j (take (64 - j) d)"
    have B: "B = unfinished m @ take (64 - j) d" "length B = 64"
      using r True by (simp_all add: B_def memcpy_at_def)
    have data: "unfinished m @ d = B @ drop (64 - j) d" by (simp add: B(1))
    obtain st B' where tr: "SHA1_Transform (sha_state ctx) B = (st, B')" by fastforce
    have st: "st = fips_compress (sha_state ctx) B" "length B' = 64"
      using SHA1_Transform_fips [OF B(2)] length_Transform_buffer [OF B(2)] tr by (metis fst_conv snd_conv)+
    have u: "pj_sha1_update ctx d = ctx\<lparr>sha_count0 := sha_count0 (pj_sha1_update ctx d), sha_count1 := sha_count1 (pj_sha1_update ctx d),
        sha_state := absorb fips_compress st (drop (64 - j) d), sha_buffer := memcpy_at B' 0 (unfinished (drop (64 - j) d))\<rparr>"
      using True by (simp add: pj_sha1_update_def jc Let_def B_def [symmetric] tr sha1_blocks_absorb)
    have "unfinished (m @ d) = unfinished (drop (64 - j) d)"
      using unfinished_append [of m d] unfinished_drop [of "B @ drop (64 - j) d"] B(2) data by simp
    moreover have "absorb fips_compress fips_H0 (m @ d) = absorb fips_compress st (drop (64 - j) d)"
      unfolding absorb_append [of _ _ m d] data using absorb_block [OF B(2)] st r by simp
    moreover have "length (unfinished (m @ d)) = length (m @ d) mod 64" by (rule length_unfinished)
    moreover have "length (unfinished (m @ d)) < 64" by simp
    moreover have "take (length (m @ d) mod 64) (memcpy_at B' 0 (unfinished (m @ d))) = unfinished (m @ d)"
      using take_memcpy_at [of 0 B' "unfinished (m @ d)"] by simp
    ultimately show ?thesis by (subst (1 2 3) u) (simp add: st(2) del: length_unfinished length_append)
  next
    case False
    then have u: "pj_sha1_update ctx d = ctx\<lparr>sha_count0 := sha_count0 (pj_sha1_update ctx d), sha_count1 := sha_count1 (pj_sha1_update ctx d),
        sha_buffer := memcpy_at (sha_buffer ctx) j d\<rparr>"
      by (simp add: pj_sha1_update_def jc Let_def)
    have "j + length d < 64" using False by simp
    then have len: "length (unfinished m @ d) < 64" "length (m @ d) mod 64 = j + length d"
      using mod_add_left_eq [of "length m" 64 "length d"] r(4) by (simp_all add: j_def)
    then have "absorb fips_compress fips_H0 (m @ d) = sha_state ctx" "unfinished (m @ d) = unfinished m @ d"
      using r unfinished_append [of m d] by (simp_all add: absorb_append [of _ _ m d] unfinished_short)
    then show ?thesis using False r len(2) by (subst (1 2 3) u) (simp add: take_memcpy_at del: length_append)
  qed
  then show ?thesis using cnt update_count1 [OF assms] by (simp add: sha1_repr_def)
qed

lemma sha1_init_repr: "length (sha_buffer ctx) = 64 \<Longrightarrow> sha1_repr [] (pj_sha1_init ctx)"
  by (simp add: sha1_repr_def pj_sha1_init_def unfinished_def fips_H0_def)

lemma zero_bytes_step: "p < 64 \<Longrightarrow> p \<noteq> 56 \<Longrightarrow> Suc ((120 - (if Suc p = 64 then 0 else Suc p)) mod 64) = (120 - p) mod (64 :: nat)"
proof -
  have m: "a mod 64 = a - 64" if "64 \<le> a" "a < 128" for a :: nat using that by (simp add: le_mod_geq)
  assume "p < 64" "p \<noteq> 56"
  then consider "p < 56" | "p = 63" | "56 < p" "p < 63" by linarith
  then show ?thesis by cases (auto simp: m)
qed

lemma sha1_pad_repr:
  "sha1_repr m ctx \<Longrightarrow> sha1_repr (m @ replicate ((120 - length m mod 64) mod 64) 0) (sha1_pad ctx)"
proof (induction ctx arbitrary: m rule: sha1_pad.induct)
  case (1 ctx)
  have w: "waiting (sha_count0 ctx) = length m mod 64" using waiting_repr [OF "1.prems"] .
  show ?case
  proof (cases "sha_count0 ctx AND 504 = 448")
    case True
    then have "length m mod 64 = 56" using w by (simp add: waiting_56)
    then show ?thesis using True "1.prems" by (simp add: sha1_pad.simps)
  next
    case False
    then have n56: "length m mod 64 \<noteq> 56" using w by (simp add: waiting_56)
    have "sha1_repr (m @ [0]) (pj_sha1_update ctx [0])" using "1.prems" by (intro sha1_update_repr) simp_all
    from "1.IH" [OF False this]
    have IH: "sha1_repr (m @ 0 # replicate ((120 - length (m @ [0]) mod 64) mod 64) 0) (sha1_pad (pj_sha1_update ctx [0]))" by simp
    have "Suc ((120 - Suc n mod 64) mod 64) = (120 - n mod 64) mod 64" if "n mod 64 \<noteq> 56" for n :: nat
    proof -
      have "n mod 64 < 64" by simp
      then show ?thesis using that zero_bytes_step [of "n mod 64"] by (simp add: mod_Suc)
    qed
    from this [OF n56] have "0 # replicate ((120 - length (m @ [0]) mod 64) mod 64) 0 = replicate ((120 - length m mod 64) mod 64) (0 :: byte)"
      by (metis length_append_singleton replicate_Suc)
    then show ?thesis using IH False by (simp add: sha1_pad.simps [of ctx])
  qed
qed

lemma sha1_final_digest: "sha1_repr m ctx \<Longrightarrow> fst (pj_sha1_final ctx) = sha1_digest m"
proof -
  assume r: "sha1_repr m ctx"
  define z where "z = m @ [0x80] @ replicate ((119 - length m mod 64) mod 64) (0 :: byte)"
  have "sha1_repr (m @ [0x80]) (pj_sha1_update ctx [0x80])" using r by (intro sha1_update_repr) simp_all
  from sha1_pad_repr [OF this]
  have "sha1_repr ((m @ [0x80]) @ replicate ((120 - length (m @ [0x80]) mod 64) mod 64) 0) (sha1_pad (pj_sha1_update ctx [0x80]))" .
  moreover have "(120 - Suc n mod 64) mod 64 = (119 - n mod 64) mod 64" for n :: nat
  proof -
    have "n mod 64 < 64" by simp
    then show ?thesis by (simp add: mod_Suc)
  qed
  ultimately have "sha1_repr z (sha1_pad (pj_sha1_update ctx [0x80]))" by (simp add: z_def)
  then have "sha1_repr (z @ be_bytes32 (sha_count1 ctx) @ be_bytes32 (sha_count0 ctx))
      (pj_sha1_update (sha1_pad (pj_sha1_update ctx [0x80])) (be_bytes32 (sha_count1 ctx) @ be_bytes32 (sha_count0 ctx)))"
    by (rule sha1_update_repr) simp
  moreover have "z @ be_bytes32 (sha_count1 ctx) @ be_bytes32 (sha_count0 ctx) = fips_pad m"
    using r by (simp add: fips_pad_def z_def be_bytes64_def sha1_repr_def)
  ultimately show ?thesis by (simp add: pj_sha1_final_def Let_def sha1_repr_def sha1_digest_def)
qed

lemma length_compress: "length (absorb fips_compress H m) = 5" if "length H = 5"
  using that
proof (induction fips_compress H m rule: absorb.induct)
  case (1 H m)
  have "length (fips_compress H (take 64 m)) = 5" by (simp add: fips_compress_def split: prod.split)
  then show ?case using 1 by (subst absorb.simps) simp
qed

lemma length_sha1_digest: "length (sha1_digest m) = 20"
proof -
  have "length (absorb fips_compress fips_H0 (fips_pad m)) = 5" by (rule length_compress) (simp add: fips_H0_def)
  moreover have "length (concat (map be_bytes32 l)) = 4 * length l" for l by (induction l) auto
  ultimately show ?thesis by (simp add: sha1_digest_def)
qed

interpretation sha1: stream_hash pj_sha1_init pj_sha1_update pj_sha1_final sha1_repr "\<lambda>c. length (sha_buffer c) = 64"
  "\<lambda>d. length d < 2 ^ 29" sha1_digest 20
proof unfold_locales
  show "length (sha_buffer (snd (pj_sha1_final c))) = 64" if "sha1_repr m c" for m c by (simp add: pj_sha1_final_def Let_def)
qed (auto simp: sha1_init_repr sha1_update_repr sha1_final_digest length_sha1_digest)

subsection \<open>Properties\<close>

text \<open>
  C9. Whatever a context held before, initialising it, passing a message in any number of parts
  shorter than 512 MB and finishing gives the digest that FIPS 180 defines for the message.
\<close>

theorem sha1_correct:
  assumes "length (sha_buffer ctx) = 64" "\<forall>d \<in> set parts. length d < 2 ^ 29"
  shows "fst (pj_sha1_final (foldl pj_sha1_update (pj_sha1_init ctx) parts)) = sha1_digest (concat parts)"
  using sha1.hash_parts [OF assms(1)] assms(2) by (simp add: list_all_iff)

definition demo_sha :: pj_sha1_context where
  "demo_sha = \<lparr>sha_state = [], sha_count0 = 7, sha_count1 = 9, sha_buffer = replicate 64 0xAA\<rparr>"

theorem sha1_correct_witness:
  "fst (pj_sha1_final (foldl pj_sha1_update (pj_sha1_init demo_sha) [[0x61], [0x62, 0x63]])) = sha1_digest [0x61, 0x62, 0x63]"
  using sha1_correct [of demo_sha "[[0x61], [0x62, 0x63]]"] by (simp add: demo_sha_def)

lemma memcpy_zeroes: "length key \<le> 64 \<Longrightarrow> memcpy_at (replicate 64 0) 0 key = key @ replicate (64 - length key) (0 :: byte)"
  by (simp add: memcpy_at_def drop_replicate)

lemma hmac_sha1_init_key:
  assumes "length (sha_buffer tctx) = 64" "length key < 2 ^ 29"
  shows "pj_hmac_sha1_init tctx hctx key = hctx\<lparr>
      hs_context := pj_sha1_update (pj_sha1_init (hs_context hctx)) (map (\<lambda>b. b XOR 0x36) (hmac_key sha1_digest key)),
      hs_k_opad := map (\<lambda>b. b XOR 0x5c) (hmac_key sha1_digest key)\<rparr>"
proof -
  have "fst (pj_sha1_final (pj_sha1_update (pj_sha1_init tctx) key)) = sha1_digest key"
    using sha1.hash_parts [OF assms(1), of "[key]"] assms(2) by simp
  then have "memcpy_at (replicate 64 0) 0 (if length key > 64 then fst (pj_sha1_final (pj_sha1_update (pj_sha1_init tctx) key)) else key) =
      hmac_key sha1_digest key"
    by (simp add: memcpy_zeroes hmac_key_def Let_def length_sha1_digest)
  then show ?thesis by (simp add: pj_hmac_sha1_init_def Let_def)
qed

lemma hmac_sha1_parts:
  assumes "length (sha_buffer tctx) = 64" "length (sha_buffer (hs_context hctx)) = 64"
    and "length key < 2 ^ 29" "\<forall>d \<in> set parts. length d < 2 ^ 29"
  shows "fst (pj_hmac_sha1_final (foldl pj_hmac_sha1_update (pj_hmac_sha1_init tctx hctx key) parts)) =
    hmac_spec sha1_digest key (concat parts)"
proof -
  define h0 where "h0 = pj_hmac_sha1_init tctx hctx key"
  have upd: "foldl pj_hmac_sha1_update h parts = h\<lparr>hs_context := foldl pj_sha1_update (hs_context h) parts\<rparr>" for h
    by (induction parts arbitrary: h) (simp_all add: pj_hmac_sha1_update_def)
  define c where "c = foldl pj_sha1_update (hs_context h0) parts"
  have h0: "hs_context h0 = pj_sha1_update (pj_sha1_init (hs_context hctx)) (map (\<lambda>b. b XOR 0x36) (hmac_key sha1_digest key))"
      "hs_k_opad h0 = map (\<lambda>b. b XOR 0x5c) (hmac_key sha1_digest key)"
    unfolding h0_def hmac_sha1_init_key [OF assms(1,3)] by simp_all
  have inner: "fst (pj_sha1_final c) = sha1_digest (map (\<lambda>b. b XOR 0x36) (hmac_key sha1_digest key) @ concat parts)"
    unfolding c_def h0 using assms by (intro sha1.hmac_inner) (auto simp: list_all_iff)
  have "length (sha_buffer (snd (pj_sha1_final c))) = 64" by (simp add: pj_sha1_final_def Let_def)
  from sha1.hmac_outer [OF this] show ?thesis
    unfolding h0_def [symmetric] upd pj_hmac_sha1_final_def
    by (simp add: c_def [symmetric] h0(2) inner hmac_spec_def split: prod.split) (metis fst_conv inner snd_conv)
qed

text \<open>
  The HMAC context, initialised with a key of any length, computes the HMAC-SHA1 of RFC 2104 for the concatenation
  of the parts it is given: keys over 64 bytes are hashed first, shorter ones padded with zeroes.
\<close>

theorem hmac_sha1_correct:
  assumes "length (sha_buffer tctx) = 64" "length (sha_buffer (hs_context hctx)) = 64"
    and "length key < 2 ^ 29" "\<forall>d \<in> set parts. length d < 2 ^ 29"
  shows "fst (pj_hmac_sha1_final (foldl pj_hmac_sha1_update (pj_hmac_sha1_init tctx hctx key) parts)) =
    hmac_spec sha1_digest key (concat parts)"
  using assms by (rule hmac_sha1_parts)

theorem hmac_sha1_correct_witness:
  "fst (pj_hmac_sha1_final (foldl pj_hmac_sha1_update
      (pj_hmac_sha1_init demo_sha \<lparr>hs_context = demo_sha, hs_k_opad = []\<rparr> (replicate 80 0xaa)) [[1, 2], [3]])) =
   hmac_spec sha1_digest (replicate 80 0xaa) [1, 2, 3]"
  using hmac_sha1_correct [of demo_sha "\<lparr>hs_context = demo_sha, hs_k_opad = []\<rparr>" "replicate 80 0xaa" "[[1, 2], [3]]"]
  by (simp add: demo_sha_def)

end
