(* ===== verification/StunAttr.thy ===== *)
theory StunAttr
  imports StunTypes Sha1
begin

text \<open>
  The attribute codecs of pjnath/src/pjnath/stun_msg.c. A decoder gets the bytes of the packet from the start of
  the attribute on; an encoder gets the output buffer, the position where it writes and the number
  of bytes its caller says are left there. A read or write outside these is the value \<open>None\<close>;
  otherwise the result is an error status (\<open>Inl\<close>), or the attribute, or the number of bytes printed with the new buffer.
\<close>

subsection \<open>Reading and writing numbers\<close>

definition get_bytes :: "byte list \<Rightarrow> nat \<Rightarrow> nat \<Rightarrow> byte list option" where
  "get_bytes buf pos n = (if pos + n \<le> length buf then Some (take n (drop pos buf)) else None)"

definition put_bytes :: "byte list \<Rightarrow> nat \<Rightarrow> byte list \<Rightarrow> byte list option" where
  "put_bytes buf pos bs = (if pos + length bs \<le> length buf then Some (memcpy_at buf pos bs) else None)"

definition GETVAL16H :: "byte list \<Rightarrow> nat \<Rightarrow> 16 word option" where
  "GETVAL16H buf pos = do {
     b0 \<leftarrow> deref buf (pos + 0); b1 \<leftarrow> deref buf (pos + 1);
     Some (push_bit 8 (ucast b0) OR ucast b1) }"

definition PUTVAL16H :: "byte list \<Rightarrow> nat \<Rightarrow> 16 word \<Rightarrow> byte list option" where
  "PUTVAL16H buf pos hval = put_bytes buf pos [ucast (drop_bit 8 (hval AND 0xFF00)), ucast (hval AND 0x00FF)]"

definition GETVAL32H :: "byte list \<Rightarrow> nat \<Rightarrow> 32 word option" where
  "GETVAL32H buf pos = do {
     b0 \<leftarrow> deref buf (pos + 0); b1 \<leftarrow> deref buf (pos + 1); b2 \<leftarrow> deref buf (pos + 2); b3 \<leftarrow> deref buf (pos + 3);
     Some (push_bit 24 (ucast b0) OR push_bit 16 (ucast b1) OR push_bit 8 (ucast b2) OR ucast b3) }"

definition PUTVAL32H :: "byte list \<Rightarrow> nat \<Rightarrow> 32 word \<Rightarrow> byte list option" where
  "PUTVAL32H buf pos hval = put_bytes buf pos
     [ucast (drop_bit 24 (hval AND 0xFF000000)), ucast (drop_bit 16 (hval AND 0x00FF0000)),
      ucast (drop_bit 8 (hval AND 0x0000FF00)), ucast (hval AND 0x000000FF)]"

definition GETVAL64H :: "byte list \<Rightarrow> nat \<Rightarrow> (32 word \<times> 32 word) option" where
  "GETVAL64H buf pos = do { hi \<leftarrow> GETVAL32H buf pos; lo \<leftarrow> GETVAL32H buf (pos + 4); Some (hi, lo) }"

definition PUTVAL64H :: "byte list \<Rightarrow> nat \<Rightarrow> 32 word \<Rightarrow> 32 word \<Rightarrow> byte list option" where
  "PUTVAL64H buf pos hi lo = do { buf \<leftarrow> PUTVAL32H buf pos hi; PUTVAL32H buf (pos + 4) lo }"

definition GETATTRHDR :: "byte list \<Rightarrow> (16 word \<times> 16 word) option" where
  "GETATTRHDR buf = do { t \<leftarrow> GETVAL16H buf 0; l \<leftarrow> GETVAL16H buf 2; Some (t, l) }"

text \<open>\<^verbatim>\<open>(n + 3) & ~3\<close>\<close>

definition align4 :: "nat \<Rightarrow> nat" where
  "align4 n = (n + 3) div 4 * 4"

definition ATTR_HDR_LEN :: nat where "ATTR_HDR_LEN = 4"
definition STUN_GENERIC_IPV4_ADDR_LEN :: nat where "STUN_GENERIC_IPV4_ADDR_LEN = 8"
definition STUN_GENERIC_IPV6_ADDR_LEN :: nat where "STUN_GENERIC_IPV6_ADDR_LEN = 20"

text \<open>The bytes of \<^verbatim>\<open>pj_htonl(PJ_STUN_MAGIC)\<close>, and the high half of the cookie.\<close>

definition magic_bytes :: "byte list" where "magic_bytes = [0x21, 0x12, 0xA4, 0x42]"
definition magic_port :: "16 word" where "magic_port = ucast (drop_bit 16 PJ_STUN_MAGIC)"

definition xor_bytes :: "byte list \<Rightarrow> byte list \<Rightarrow> byte list" where
  "xor_bytes xs ys = map2 (XOR) xs ys"

subsection \<open>Constructors\<close>

definition INIT_ATTR :: "16 word \<Rightarrow> nat \<Rightarrow> attr_body \<Rightarrow> pj_stun_attr" where
  "INIT_ATTR t l body = \<lparr>at_type = t, at_length = of_nat l, at_body = body\<rparr>"

text \<open>The address argument is well formed, so its length is one of the two that the assertions accept.\<close>

definition pj_stun_sockaddr_attr_create :: "16 word \<Rightarrow> bool \<Rightarrow> pj_sockaddr \<Rightarrow> pj_status + pj_stun_attr" where
  "pj_stun_sockaddr_attr_create attr_type xored addr =
     (if \<not> known_family addr then Inl PJ_EINVAL
      else Inr (INIT_ATTR attr_type (pj_sockaddr_get_addr_len addr + 4) (Sockaddr_body xored addr)))"

definition pj_stun_string_attr_create :: "16 word \<Rightarrow> byte list \<Rightarrow> pj_status + pj_stun_attr" where
  "pj_stun_string_attr_create attr_type val = Inr (INIT_ATTR attr_type (length val) (String_body val))"

definition pj_stun_empty_attr_create :: "16 word \<Rightarrow> pj_status + pj_stun_attr" where
  "pj_stun_empty_attr_create attr_type = Inr (INIT_ATTR attr_type 0 Empty_body)"

definition pj_stun_uint_attr_create :: "16 word \<Rightarrow> 32 word \<Rightarrow> pj_status + pj_stun_attr" where
  "pj_stun_uint_attr_create attr_type val = Inr (INIT_ATTR attr_type 4 (Uint_body val))"

definition pj_stun_uint64_attr_create :: "16 word \<Rightarrow> (32 word \<times> 32 word) option \<Rightarrow> pj_status + pj_stun_attr" where
  "pj_stun_uint64_attr_create attr_type val =
     Inr (INIT_ATTR attr_type 8 (case val of None \<Rightarrow> Uint64_body 0 0 | Some (hi, lo) \<Rightarrow> Uint64_body hi lo))"

definition pj_stun_msgint_attr_create :: "pj_status + pj_stun_attr" where
  "pj_stun_msgint_attr_create = Inr (INIT_ATTR PJ_STUN_ATTR_MESSAGE_INTEGRITY 20 (Msgint_body (replicate 20 0)))"

text \<open>\<^verbatim>\<open>pj_ansi_snprintf\<close> of a number in decimal.\<close>

fun print_dec :: "nat \<Rightarrow> string" where
  "print_dec n = (if n < 10 then [char_of (48 + n)] else print_dec (n div 10) @ [char_of (48 + n mod 10)])"

declare print_dec.simps [simp del]

definition bytes_of :: "string \<Rightarrow> byte list" where
  "bytes_of s = map of_char s"

definition pj_stun_errcode_attr_create :: "nat \<Rightarrow> byte list option \<Rightarrow> (pj_status + pj_stun_attr) option" where
  "pj_stun_errcode_attr_create err_code err_reason =
     (if err_code = 0 then Some (Inl PJ_EINVAL)
      else do {
        reason \<leftarrow> (case err_reason of
            Some r \<Rightarrow> Some r
          | None \<Rightarrow> do {
              str \<leftarrow> pj_stun_get_err_reason err_code;
              Some (case str of Some s \<Rightarrow> bytes_of s | None \<Rightarrow> bytes_of (''Unknown error '' @ print_dec err_code)) });
        Some (Inr (INIT_ATTR PJ_STUN_ATTR_ERROR_CODE (4 + length reason) (Errcode_body err_code reason))) })"

definition pj_stun_unknown_attr_create :: "16 word list \<Rightarrow> pj_status + pj_stun_attr" where
  "pj_stun_unknown_attr_create attrs =
     (if \<not> length attrs < PJ_STUN_MAX_ATTR then Inl PJ_EINVAL
      else Inr (INIT_ATTR PJ_STUN_ATTR_UNKNOWN_ATTRIBUTES (length attrs * 2) (Unknown_body attrs)))"

definition pj_stun_binary_attr_create :: "16 word \<Rightarrow> byte list \<Rightarrow> pj_status + pj_stun_attr" where
  "pj_stun_binary_attr_create attr_type data =
     (if attr_type = 0 then Inl PJ_EINVAL
      else Inr (INIT_ATTR attr_type (length data) (Binary_body PJ_STUN_MAGIC data)))"

subsection \<open>Decoders\<close>

definition decode_sockaddr_attr :: "byte list \<Rightarrow> pj_stun_msg_hdr \<Rightarrow> (pj_status + pj_stun_attr) option" where
  "decode_sockaddr_attr buf msghdr = do {
     (t, len) \<leftarrow> GETATTRHDR buf;
     if unat len \<noteq> STUN_GENERIC_IPV4_ADDR_LEN \<and> unat len \<noteq> STUN_GENERIC_IPV6_ADDR_LEN then Some (Inl PJNATH_ESTUNINATTRLEN)
     else do {
       val \<leftarrow> deref buf (ATTR_HDR_LEN + 1);
       if val = 1 \<and> unat len \<noteq> STUN_GENERIC_IPV4_ADDR_LEN \<or> val = 2 \<and> unat len \<noteq> STUN_GENERIC_IPV6_ADDR_LEN
       then Some (Inl PJNATH_ESTUNINATTRLEN)
       else if val \<noteq> 1 \<and> val \<noteq> 2 then Some (Inl PJNATH_EINVAF)
       else do {
         let af = (if val = 1 then PJ_AF_INET else PJ_AF_INET6);
         let addr_len = (if val = 1 then 4 else 16);
         port \<leftarrow> GETVAL16H buf (ATTR_HDR_LEN + 2);
         addr \<leftarrow> get_bytes buf (ATTR_HDR_LEN + 4) addr_len;
         Some (Inr \<lparr>at_type = t, at_length = len,
           at_body = Sockaddr_body False \<lparr>sa_family = af, sa_port = port, sa_addr = addr\<rparr>\<rparr>) } } }"

definition decode_xored_sockaddr_attr :: "byte list \<Rightarrow> pj_stun_msg_hdr \<Rightarrow> (pj_status + pj_stun_attr) option" where
  "decode_xored_sockaddr_attr buf msghdr = do {
     res \<leftarrow> decode_sockaddr_attr buf msghdr;
     case res of Inl status \<Rightarrow> Some (Inl status)
     | Inr attr \<Rightarrow>
         (case at_body attr of
            Sockaddr_body _ a \<Rightarrow>
              if sa_family a = PJ_AF_INET then
                Some (Inr (attr\<lparr>at_body := Sockaddr_body True
                  (a\<lparr>sa_port := sa_port a XOR magic_port, sa_addr := xor_bytes (sa_addr a) magic_bytes\<rparr>)\<rparr>))
              else if sa_family a = PJ_AF_INET6 then
                Some (Inr (attr\<lparr>at_body := Sockaddr_body True
                  (a\<lparr>sa_port := sa_port a XOR magic_port,
                     sa_addr := xor_bytes (sa_addr a) (magic_bytes @ mh_tsx_id msghdr)\<rparr>)\<rparr>))
              else Some (Inl PJNATH_EINVAF)
          | _ \<Rightarrow> None) }"

definition decode_string_attr :: "byte list \<Rightarrow> (pj_status + pj_stun_attr) option" where
  "decode_string_attr buf = do {
     (t, len) \<leftarrow> GETATTRHDR buf;
     val \<leftarrow> get_bytes buf ATTR_HDR_LEN (unat len);
     Some (Inr \<lparr>at_type = t, at_length = len, at_body = String_body val\<rparr>) }"

definition decode_empty_attr :: "byte list \<Rightarrow> (pj_status + pj_stun_attr) option" where
  "decode_empty_attr buf = do {
     (t, len) \<leftarrow> GETATTRHDR buf;
     Some (if len \<noteq> 0 then Inl PJNATH_ESTUNINATTRLEN else Inr \<lparr>at_type = t, at_length = len, at_body = Empty_body\<rparr>) }"

text \<open>The value is read before the length is checked.\<close>

definition decode_uint_attr :: "byte list \<Rightarrow> (pj_status + pj_stun_attr) option" where
  "decode_uint_attr buf = do {
     (t, len) \<leftarrow> GETATTRHDR buf;
     val \<leftarrow> GETVAL32H buf 4;
     Some (if len \<noteq> 4 then Inl PJNATH_ESTUNINATTRLEN else Inr \<lparr>at_type = t, at_length = len, at_body = Uint_body val\<rparr>) }"

definition decode_uint64_attr :: "byte list \<Rightarrow> (pj_status + pj_stun_attr) option" where
  "decode_uint64_attr buf = do {
     (t, len) \<leftarrow> GETATTRHDR buf;
     if len \<noteq> 8 then Some (Inl PJNATH_ESTUNINATTRLEN)
     else do {
       (hi, lo) \<leftarrow> GETVAL64H buf 4;
       Some (Inr \<lparr>at_type = t, at_length = len, at_body = Uint64_body hi lo\<rparr>) } }"

definition decode_msgint_attr :: "byte list \<Rightarrow> (pj_status + pj_stun_attr) option" where
  "decode_msgint_attr buf = do {
     (t, len) \<leftarrow> GETATTRHDR buf;
     if len \<noteq> 20 then Some (Inl PJNATH_ESTUNINATTRLEN)
     else do {
       hmac \<leftarrow> get_bytes buf 4 20;
       Some (Inr \<lparr>at_type = t, at_length = len, at_body = Msgint_body hmac\<rparr>) } }"

text \<open>The length of the reason is not checked: one below 4 makes the length of the copied string negative, which has no meaning.\<close>

definition decode_errcode_attr :: "byte list \<Rightarrow> (pj_status + pj_stun_attr) option" where
  "decode_errcode_attr buf = do {
     (t, len) \<leftarrow> GETATTRHDR buf;
     b6 \<leftarrow> deref buf 6; b7 \<leftarrow> deref buf 7;
     if unat len < 4 then None
     else do {
       reason \<leftarrow> get_bytes buf (ATTR_HDR_LEN + 4) (unat len - 4);
       Some (Inr \<lparr>at_type = t, at_length = len, at_body = Errcode_body (unat b6 * 100 + unat b7) reason\<rparr>) } }"

fun be_words16 :: "byte list \<Rightarrow> 16 word list" where
  "be_words16 (b0 # b1 # bs) = (push_bit 8 (ucast b0) OR ucast b1) # be_words16 bs"
| "be_words16 bs = []"

definition decode_unknown_attr :: "byte list \<Rightarrow> (pj_status + pj_stun_attr) option" where
  "decode_unknown_attr buf = do {
     (t, len) \<leftarrow> GETATTRHDR buf;
     let attr_count = unat len div 2;
     if attr_count > PJ_STUN_MAX_ATTR then Some (Inl PJ_ETOOMANY)
     else do {
       bs \<leftarrow> get_bytes buf ATTR_HDR_LEN (attr_count * 2);
       Some (Inr \<lparr>at_type = t, at_length = len, at_body = Unknown_body (be_words16 bs)\<rparr>) } }"

text \<open>The magic number of the structure is left zero.\<close>

definition decode_binary_attr :: "byte list \<Rightarrow> (pj_status + pj_stun_attr) option" where
  "decode_binary_attr buf = do {
     (t, len) \<leftarrow> GETATTRHDR buf;
     data \<leftarrow> get_bytes buf ATTR_HDR_LEN (unat len);
     Some (Inr \<lparr>at_type = t, at_length = len, at_body = Binary_body 0 data\<rparr>) }"

definition decode_attr :: "attr_kind \<Rightarrow> byte list \<Rightarrow> pj_stun_msg_hdr \<Rightarrow> (pj_status + pj_stun_attr) option" where
  "decode_attr k buf msghdr = (case k of
     SOCKADDR_ATTR \<Rightarrow> decode_sockaddr_attr buf msghdr
   | XORED_SOCKADDR_ATTR \<Rightarrow> decode_xored_sockaddr_attr buf msghdr
   | EMPTY_ATTR \<Rightarrow> decode_empty_attr buf
   | STRING_ATTR \<Rightarrow> decode_string_attr buf
   | UINT_ATTR \<Rightarrow> decode_uint_attr buf
   | UINT64_ATTR \<Rightarrow> decode_uint64_attr buf
   | BINARY_ATTR \<Rightarrow> decode_binary_attr buf
   | MSGINT_ATTR \<Rightarrow> decode_msgint_attr buf
   | ERRCODE_ATTR \<Rightarrow> decode_errcode_attr buf
   | UNKNOWN_ATTR \<Rightarrow> decode_unknown_attr buf)"

subsection \<open>Encoders\<close>

text \<open>The body of an address attribute as it is sent.\<close>

definition wire_port :: "bool \<Rightarrow> pj_sockaddr \<Rightarrow> 16 word" where
  "wire_port xored a = (if xored then sa_port a XOR magic_port else sa_port a)"

definition wire_addr :: "bool \<Rightarrow> pj_sockaddr \<Rightarrow> pj_stun_msg_hdr \<Rightarrow> byte list" where
  "wire_addr xored a msghdr =
     (if \<not> xored then sa_addr a
      else if sa_family a = PJ_AF_INET then xor_bytes (sa_addr a) magic_bytes
      else xor_bytes (sa_addr a) (magic_bytes @ mh_tsx_id msghdr))"

definition encode_sockaddr_attr ::
  "16 word \<Rightarrow> bool \<Rightarrow> pj_sockaddr \<Rightarrow> byte list \<Rightarrow> nat \<Rightarrow> nat \<Rightarrow> pj_stun_msg_hdr \<Rightarrow> (pj_status + nat \<times> byte list) option" where
  "encode_sockaddr_attr t xored a buf pos len msghdr = do {
     buf \<leftarrow> PUTVAL16H buf pos t;
     if \<not> known_family a then Some (Inl PJNATH_EINVAF)
     else do {
       let addr_len = (if sa_family a = PJ_AF_INET then STUN_GENERIC_IPV4_ADDR_LEN else STUN_GENERIC_IPV6_ADDR_LEN);
       if len < ATTR_HDR_LEN + addr_len then Some (Inl PJ_ETOOSMALL)
       else do {
         buf \<leftarrow> PUTVAL16H buf (pos + 2) (of_nat addr_len);
         buf \<leftarrow> put_bytes buf (pos + ATTR_HDR_LEN) [0, if sa_family a = PJ_AF_INET then 1 else 2];
         buf \<leftarrow> PUTVAL16H buf (pos + ATTR_HDR_LEN + 2) (wire_port xored a);
         buf \<leftarrow> put_bytes buf (pos + ATTR_HDR_LEN + 4) (wire_addr xored a msghdr);
         Some (Inr (ATTR_HDR_LEN + addr_len, buf)) } } }"

definition encode_string_attr ::
  "byte \<Rightarrow> 16 word \<Rightarrow> byte list \<Rightarrow> byte list \<Rightarrow> nat \<Rightarrow> nat \<Rightarrow> pj_stun_msg_hdr \<Rightarrow> (pj_status + nat \<times> byte list) option" where
  "encode_string_attr padding_char t val buf pos len msghdr =
     (let slen = length val; printed = align4 (slen + ATTR_HDR_LEN) in
      if len < printed then Some (Inl PJ_ETOOSMALL)
      else do {
        buf \<leftarrow> PUTVAL16H buf pos t;
        buf \<leftarrow> PUTVAL16H buf (pos + 2)
           (if mh_magic msghdr \<noteq> PJ_STUN_MAGIC \<or> t = PJ_STUN_ATTR_SOFTWARE then of_nat (align4 slen) else of_nat slen);
        buf \<leftarrow> put_bytes buf (pos + ATTR_HDR_LEN) val;
        buf \<leftarrow> (if slen mod 4 \<noteq> 0
                 then put_bytes buf (pos + ATTR_HDR_LEN + slen) (replicate (4 - slen mod 4) padding_char) else Some buf);
        Some (Inr (printed, buf)) })"

definition encode_empty_attr :: "16 word \<Rightarrow> byte list \<Rightarrow> nat \<Rightarrow> nat \<Rightarrow> (pj_status + nat \<times> byte list) option" where
  "encode_empty_attr t buf pos len =
     (if len < ATTR_HDR_LEN then Some (Inl PJ_ETOOSMALL)
      else do {
        buf \<leftarrow> PUTVAL16H buf pos t;
        buf \<leftarrow> PUTVAL16H buf (pos + 2) 0;
        Some (Inr (ATTR_HDR_LEN, buf)) })"

definition encode_uint_attr :: "16 word \<Rightarrow> 32 word \<Rightarrow> byte list \<Rightarrow> nat \<Rightarrow> nat \<Rightarrow> (pj_status + nat \<times> byte list) option" where
  "encode_uint_attr t val buf pos len =
     (if len < 8 then Some (Inl PJ_ETOOSMALL)
      else do {
        buf \<leftarrow> PUTVAL16H buf pos t;
        buf \<leftarrow> PUTVAL16H buf (pos + 2) 4;
        buf \<leftarrow> PUTVAL32H buf (pos + 4) val;
        Some (Inr (8, buf)) })"

definition encode_uint64_attr ::
  "16 word \<Rightarrow> 32 word \<Rightarrow> 32 word \<Rightarrow> byte list \<Rightarrow> nat \<Rightarrow> nat \<Rightarrow> (pj_status + nat \<times> byte list) option" where
  "encode_uint64_attr t hi lo buf pos len =
     (if len < 12 then Some (Inl PJ_ETOOSMALL)
      else do {
        buf \<leftarrow> PUTVAL16H buf pos t;
        buf \<leftarrow> PUTVAL16H buf (pos + 2) 8;
        buf \<leftarrow> PUTVAL64H buf (pos + 4) hi lo;
        Some (Inr (12, buf)) })"

definition encode_msgint_attr ::
  "16 word \<Rightarrow> 16 word \<Rightarrow> byte list \<Rightarrow> byte list \<Rightarrow> nat \<Rightarrow> nat \<Rightarrow> (pj_status + nat \<times> byte list) option" where
  "encode_msgint_attr t l hmac buf pos len =
     (if len < 24 then Some (Inl PJ_ETOOSMALL)
      else do {
        buf \<leftarrow> PUTVAL16H buf pos t;
        buf \<leftarrow> PUTVAL16H buf (pos + 2) l;
        buf \<leftarrow> put_bytes buf (pos + 4) (take 20 hmac);
        Some (Inr (24, buf)) })"

text \<open>The check leaves out the padding, which is not written either.\<close>

definition encode_errcode_attr ::
  "16 word \<Rightarrow> nat \<Rightarrow> byte list \<Rightarrow> byte list \<Rightarrow> nat \<Rightarrow> nat \<Rightarrow> (pj_status + nat \<times> byte list) option" where
  "encode_errcode_attr t err_code reason buf pos len =
     (if len < ATTR_HDR_LEN + 4 + length reason then Some (Inl PJ_ETOOSMALL)
      else do {
        buf \<leftarrow> PUTVAL16H buf pos t;
        buf \<leftarrow> PUTVAL16H buf (pos + 2) (of_nat (4 + length reason));
        buf \<leftarrow> PUTVAL16H buf (pos + 4) 0;
        buf \<leftarrow> put_bytes buf (pos + 6) [of_nat (err_code div 100), of_nat (err_code mod 100)];
        buf \<leftarrow> put_bytes buf (pos + ATTR_HDR_LEN + 4) reason;
        Some (Inr (align4 (ATTR_HDR_LEN + 4 + length reason), buf)) })"

definition be_bytes16 :: "16 word \<Rightarrow> byte list" where
  "be_bytes16 w = [ucast (drop_bit 8 w), ucast w]"

definition encode_unknown_attr ::
  "16 word \<Rightarrow> 16 word list \<Rightarrow> byte list \<Rightarrow> nat \<Rightarrow> nat \<Rightarrow> (pj_status + nat \<times> byte list) option" where
  "encode_unknown_attr t attrs buf pos len =
     (let attr_count = length attrs in
      if len < ATTR_HDR_LEN + attr_count * 2 then Some (Inl PJ_ETOOSMALL)
      else do {
        buf \<leftarrow> PUTVAL16H buf pos t;
        buf \<leftarrow> PUTVAL16H buf (pos + 2) (of_nat (attr_count * 2));
        buf \<leftarrow> put_bytes buf (pos + ATTR_HDR_LEN) (concat (map be_bytes16 attrs));
        Some (Inr (align4 (ATTR_HDR_LEN + attr_count * 2), buf)) })"

text \<open>The padding of binary data is not written.\<close>

definition encode_binary_attr :: "16 word \<Rightarrow> byte list \<Rightarrow> byte list \<Rightarrow> nat \<Rightarrow> nat \<Rightarrow> (pj_status + nat \<times> byte list) option" where
  "encode_binary_attr t data buf pos len =
     (let printed = align4 (length data + ATTR_HDR_LEN) in
      if len < printed then Some (Inl PJ_ETOOSMALL)
      else do {
        buf \<leftarrow> PUTVAL16H buf pos t;
        buf \<leftarrow> PUTVAL16H buf (pos + 2) (of_nat (length data));
        buf \<leftarrow> put_bytes buf (pos + ATTR_HDR_LEN) data;
        Some (Inr (printed, buf)) })"

text \<open>
  Dispatch by the kind that the type field selects. An attribute whose body does not fit its type is
  read as another structure: \<open>None\<close>.
\<close>

definition encode_attr ::
  "byte \<Rightarrow> attr_kind \<Rightarrow> pj_stun_attr \<Rightarrow> byte list \<Rightarrow> nat \<Rightarrow> nat \<Rightarrow> pj_stun_msg_hdr \<Rightarrow> (pj_status + nat \<times> byte list) option" where
  "encode_attr padding_char k a buf pos len msghdr = (case (k, at_body a) of
     (SOCKADDR_ATTR, Sockaddr_body x sa) \<Rightarrow> encode_sockaddr_attr (at_type a) x sa buf pos len msghdr
   | (XORED_SOCKADDR_ATTR, Sockaddr_body x sa) \<Rightarrow> encode_sockaddr_attr (at_type a) x sa buf pos len msghdr
   | (EMPTY_ATTR, Empty_body) \<Rightarrow> encode_empty_attr (at_type a) buf pos len
   | (STRING_ATTR, String_body s) \<Rightarrow> encode_string_attr padding_char (at_type a) s buf pos len msghdr
   | (UINT_ATTR, Uint_body v) \<Rightarrow> encode_uint_attr (at_type a) v buf pos len
   | (UINT64_ATTR, Uint64_body hi lo) \<Rightarrow> encode_uint64_attr (at_type a) hi lo buf pos len
   | (BINARY_ATTR, Binary_body _ d) \<Rightarrow> encode_binary_attr (at_type a) d buf pos len
   | (MSGINT_ATTR, Msgint_body h) \<Rightarrow> encode_msgint_attr (at_type a) (at_length a) h buf pos len
   | (ERRCODE_ATTR, Errcode_body c r) \<Rightarrow> encode_errcode_attr (at_type a) c r buf pos len
   | (UNKNOWN_ATTR, Unknown_body us) \<Rightarrow> encode_unknown_attr (at_type a) us buf pos len
   | _ \<Rightarrow> None)"

subsection \<open>Cloning\<close>

text \<open>The value of a clone is that of the original; only attributes of an unknown type without the magic number are refused.\<close>

definition pj_stun_attr_clone :: "pj_stun_attr \<Rightarrow> pj_stun_attr option" where
  "pj_stun_attr_clone a = (case find_attr_desc (unat (at_type a)) of
     Some _ \<Rightarrow> Some a
   | None \<Rightarrow> (case at_body a of Binary_body m _ \<Rightarrow> if m = PJ_STUN_MAGIC then Some a else None | _ \<Rightarrow> None))"

end
