(* ===== verification/StunWire.thy ===== *)
theory StunWire
  imports StunAttr
begin

text \<open>
  The wire format of STUN attributes as a specification, and its correspondence with the codecs:
  encoding a well-formed attribute writes its serialisation, decoding a serialisation returns the attribute.
\<close>

subsection \<open>Numbers on the wire\<close>

lemma get_put_16: "push_bit 8 (ucast (ucast (drop_bit 8 v) :: byte)) OR ucast (ucast v :: byte) = (v :: 16 word)"
  by (rule bit_word_eqI) (auto simp: bit_or_iff bit_push_bit_iff bit_ucast_iff bit_drop_bit_eq)

lemma get_put_32:
  "push_bit 24 (ucast (ucast (drop_bit 24 v) :: byte)) OR push_bit 16 (ucast (ucast (drop_bit 16 v) :: byte)) OR
   push_bit 8 (ucast (ucast (drop_bit 8 v) :: byte)) OR ucast (ucast v :: byte) = (v :: 32 word)"
proof (rule bit_word_eqI)
  fix n assume "n < LENGTH(32)"
  then consider "n < 8" | "8 \<le> n" "n < 16" | "16 \<le> n" "n < 24" | "24 \<le> n" "n < 32" by fastforce
  then show "bit (push_bit 24 (ucast (ucast (drop_bit 24 v) :: byte)) OR push_bit 16 (ucast (ucast (drop_bit 16 v) :: byte)) OR
      push_bit 8 (ucast (ucast (drop_bit 8 v) :: byte)) OR ucast (ucast v :: byte) :: 32 word) n = bit v n"
    by cases (auto simp: bit_or_iff bit_push_bit_iff bit_ucast_iff bit_drop_bit_eq)
qed

lemma PUTVAL16H_bytes: "PUTVAL16H buf pos v = put_bytes buf pos (be_bytes16 v)"
proof -
  have "(ucast (drop_bit 8 (v AND 0xFF00)) :: byte) = ucast (drop_bit 8 v)" "(ucast (v AND 0x00FF) :: byte) = ucast v"
  proof -
    have "v AND 0xFF00 = v AND push_bit 8 (mask 8)" "v AND 0x00FF = v AND mask 8" by (simp_all add: mask_eq_exp_minus_1)
    then show "(ucast (drop_bit 8 (v AND 0xFF00)) :: byte) = ucast (drop_bit 8 v)" "(ucast (v AND 0x00FF) :: byte) = ucast v"
      by (auto intro!: bit_word_eqI simp: bit_ucast_iff bit_drop_bit_eq bit_and_iff bit_push_bit_iff bit_mask_iff simp del: mask_numeral)
  qed
  then show ?thesis by (simp add: PUTVAL16H_def be_bytes16_def)
qed

lemma PUTVAL32H_bytes: "PUTVAL32H buf pos v = put_bytes buf pos (be_bytes32 v)"
proof -
  have m: "v AND 0xFF000000 = v AND push_bit 24 (mask 8)" "v AND 0x00FF0000 = v AND push_bit 16 (mask 8)"
      "v AND 0x0000FF00 = v AND push_bit 8 (mask 8)" "v AND 0x000000FF = v AND mask 8" by (simp_all add: mask_eq_exp_minus_1)
  have "(ucast (drop_bit 24 (v AND 0xFF000000)) :: byte) = ucast (drop_bit 24 v)" "(ucast (drop_bit 16 (v AND 0x00FF0000)) :: byte) = ucast (drop_bit 16 v)"
      "(ucast (drop_bit 8 (v AND 0x0000FF00)) :: byte) = ucast (drop_bit 8 v)" "(ucast (v AND 0x000000FF) :: byte) = ucast v"
    unfolding m by (auto intro!: bit_word_eqI simp: bit_ucast_iff bit_drop_bit_eq bit_and_iff bit_push_bit_iff bit_mask_iff simp del: mask_numeral)
  then show ?thesis by (simp add: PUTVAL32H_def be_bytes32_def)
qed

lemma length_be16 [simp]: "length (be_bytes16 v) = 2"
  by (simp add: be_bytes16_def)

lemma deref_append: "deref (xs @ ys) (length xs + i) = deref ys i"
  by (simp add: deref_def nth_append)

lemma GETVAL16H_at: "GETVAL16H (xs @ be_bytes16 v @ ys) (length xs) = Some v"
  using deref_append [of xs "be_bytes16 v @ ys" 0] deref_append [of xs "be_bytes16 v @ ys" 1]
  by (simp add: GETVAL16H_def be_bytes16_def get_put_16)

lemma GETVAL32H_at: "GETVAL32H (xs @ be_bytes32 v @ ys) (length xs) = Some v"
  using deref_append [of xs "be_bytes32 v @ ys" 0] deref_append [of xs "be_bytes32 v @ ys" 1]
    deref_append [of xs "be_bytes32 v @ ys" 2] deref_append [of xs "be_bytes32 v @ ys" 3]
  by (simp add: GETVAL32H_def be_bytes32_def get_put_32)

lemma get_bytes_at: "get_bytes (xs @ v @ ys) (length xs) (length v) = Some v"
  by (simp add: get_bytes_def)

lemma GETATTRHDR_at: "GETATTRHDR (be_bytes16 t @ be_bytes16 l @ ys) = Some (t, l)"
  using GETVAL16H_at [of "[]" t "be_bytes16 l @ ys"] GETVAL16H_at [of "be_bytes16 t" l ys] by (simp add: GETATTRHDR_def)

subsection \<open>Consecutive writes\<close>

lemma memcpy_append:
  "q = pos + length a \<Longrightarrow> pos + length a + length b \<le> length buf \<Longrightarrow> memcpy_at (memcpy_at buf pos a) q b = memcpy_at buf pos (a @ b)"
  by (simp add: memcpy_at_def ac_simps)

lemma put_bytes_Some: "pos + length bs \<le> length buf \<Longrightarrow> put_bytes buf pos bs = Some (memcpy_at buf pos bs)"
  by (simp add: put_bytes_def)

lemma put_after:
  "q = pos + length a \<Longrightarrow> pos + length a + length b \<le> length buf \<Longrightarrow> put_bytes (memcpy_at buf pos a) q b = Some (memcpy_at buf pos (a @ b))"
  by (simp add: put_bytes_def memcpy_append)

subsection \<open>The wire format\<close>

definition attr_value :: "pj_stun_msg_hdr \<Rightarrow> attr_body \<Rightarrow> byte list" where
  "attr_value hdr b = (case b of
     Sockaddr_body x a \<Rightarrow> [0, if sa_family a = PJ_AF_INET then 1 else 2] @ be_bytes16 (wire_port x a) @ wire_addr x a hdr
   | Empty_body \<Rightarrow> []
   | String_body s \<Rightarrow> s
   | Uint_body v \<Rightarrow> be_bytes32 v
   | Uint64_body hi lo \<Rightarrow> be_bytes32 hi @ be_bytes32 lo
   | Binary_body _ d \<Rightarrow> d
   | Msgint_body h \<Rightarrow> h
   | Errcode_body c r \<Rightarrow> [0, 0, of_nat (c div 100), of_nat (c mod 100)] @ r
   | Unknown_body us \<Rightarrow> concat (map be_bytes16 us))"

definition attr_wire :: "pj_stun_msg_hdr \<Rightarrow> pj_stun_attr \<Rightarrow> byte list" where
  "attr_wire hdr a = be_bytes16 (at_type a) @ be_bytes16 (of_nat (length (attr_value hdr (at_body a)))) @ attr_value hdr (at_body a)"

text \<open>The attribute of a type of kind \<open>k\<close> (\<open>None\<close>: an unknown type) that the program can build and send.\<close>

definition body_ok :: "attr_kind option \<Rightarrow> pj_stun_msg_hdr \<Rightarrow> 16 word \<Rightarrow> attr_body \<Rightarrow> bool" where
  "body_ok k hdr t b = (case b of
     Sockaddr_body x a \<Rightarrow> (k = Some SOCKADDR_ATTR \<and> \<not> x \<or> k = Some XORED_SOCKADDR_ATTR \<and> x) \<and> wf_sockaddr a
   | Empty_body \<Rightarrow> k = Some EMPTY_ATTR
   | String_body s \<Rightarrow> k = Some STRING_ATTR \<and> length s < 65536 \<and>
       (mh_magic hdr \<noteq> PJ_STUN_MAGIC \<or> t = PJ_STUN_ATTR_SOFTWARE \<longrightarrow> length s mod 4 = 0)
   | Uint_body v \<Rightarrow> k = Some UINT_ATTR
   | Uint64_body hi lo \<Rightarrow> k = Some UINT64_ATTR
   | Binary_body m d \<Rightarrow> (k = Some BINARY_ATTR \<or> k = None \<and> m = PJ_STUN_MAGIC) \<and> length d < 65536
   | Msgint_body h \<Rightarrow> k = Some MSGINT_ATTR \<and> length h = 20
   | Errcode_body c r \<Rightarrow> k = Some ERRCODE_ATTR \<and> c < 25600 \<and> length r < 65532
   | Unknown_body us \<Rightarrow> k = Some UNKNOWN_ATTR \<and> length us \<le> PJ_STUN_MAX_ATTR)"

text \<open>The attribute that decoding gives back: the length field is that of the value, and decoded data carries no magic number.\<close>

definition canon_attr :: "pj_stun_msg_hdr \<Rightarrow> pj_stun_attr \<Rightarrow> pj_stun_attr" where
  "canon_attr hdr a = a\<lparr>at_length := of_nat (length (attr_value hdr (at_body a))),
     at_body := (case (find_attr_desc (unat (at_type a)), at_body a) of (Some _, Binary_body _ d) \<Rightarrow> Binary_body 0 d | (_, b) \<Rightarrow> b)\<rparr>"

subsection \<open>Encoding writes the wire format\<close>

definition attr_size :: "pj_stun_msg_hdr \<Rightarrow> pj_stun_attr \<Rightarrow> nat" where
  "attr_size hdr a = 4 + align4 (length (attr_value hdr (at_body a)))"

text \<open>Only strings are padded explicitly.\<close>

definition written_pad :: "byte \<Rightarrow> attr_body \<Rightarrow> byte list" where
  "written_pad pc b = (case b of String_body s \<Rightarrow> replicate (align4 (length s) - length s) pc | _ \<Rightarrow> [])"

lemma align4_add_4: "align4 (n + 4) = align4 n + 4" "align4 (4 + n) = 4 + align4 n" "align4 (4 + 4 + n) = 4 + align4 (4 + n)"
proof -
  show *: "align4 (n + 4) = align4 n + 4" for n
  proof -
    have "n + 4 + 3 = (n + 3) + 4" by simp
    then show ?thesis unfolding align4_def by (metis div_add_self2 distrib_right mult_1 zero_neq_numeral)
  qed
  show "align4 (4 + n) = 4 + align4 n" "align4 (4 + 4 + n) = 4 + align4 (4 + n)"
    using * [of n] * [of "4 + n"] by (simp_all add: add.commute)
qed

lemma align4_cases:
  obtains q r where "n = 4 * q + r" "r < 4" "align4 n = 4 * q + (if r = 0 then 0 else 4)" "n mod 4 = r"
proof -
  define q r where "q = n div 4" and "r = n mod 4"
  have n: "n = 4 * q + r" "r < 4" by (simp_all add: q_def r_def)
  have "(4 * q + r + 3) div 4 = q + (r + 3) div 4" using div_mult_self4 [of 4 q "r + 3"] by (simp only: add.assoc zero_neq_numeral simp_thms)
  moreover have "(r + 3) div 4 = (if r = 0 then 0 else 1)" using n(2) by (auto simp: div_if)
  ultimately have "align4 n = 4 * q + (if r = 0 then 0 else 4)" using n(1) by (simp only: align4_def) auto
  then show thesis by (rule that [OF n]) (simp only: r_def)
qed

lemma align4_ge [simp]: "n \<le> align4 n"
  by (rule align4_cases [of n]) auto

lemma align4_pad: "align4 n - n = (if n mod 4 = 0 then 0 else 4 - n mod 4)" "align4 n mod 4 = 0"
  by (rule align4_cases [of n]; auto)+

lemma align4_exact: "n mod 4 = 0 \<Longrightarrow> align4 n = n"
  by (rule align4_cases [of n]) auto

lemma length_xor_bytes [simp]: "length (xor_bytes xs ys) = min (length xs) (length ys)"
  by (simp add: xor_bytes_def)

lemma length_wire_addr:
  "wf_sockaddr a \<Longrightarrow> length (mh_tsx_id hdr) = 12 \<Longrightarrow> length (wire_addr x a hdr) = (if sa_family a = PJ_AF_INET then 4 else 16)"
  by (auto simp: wire_addr_def wf_sockaddr_def pj_sockaddr_get_addr_len_def magic_bytes_def PJ_AF_INET_def PJ_AF_INET6_def)

lemma length_be16s: "length (concat (map be_bytes16 us)) = 2 * length us"
  by (induction us) auto

lemma length_attr_value:
  assumes "body_ok k hdr t b" "length (mh_tsx_id hdr) = 12"
  shows "length (attr_value hdr b) < 65536"
  using assms
  by (cases b) (auto simp: body_ok_def attr_value_def length_wire_addr length_be16s PJ_STUN_MAX_ATTR_def)

lemma string_pad_writes:
  "pos + 4 + align4 (length s) \<le> length buf \<Longrightarrow> length w = 4 \<Longrightarrow>
   (if length s mod 4 \<noteq> 0 then put_bytes (memcpy_at buf pos (w @ s)) (pos + 4 + length s) (replicate (4 - length s mod 4) pc)
    else Some (memcpy_at buf pos (w @ s))) = Some (memcpy_at buf pos (w @ s @ replicate (align4 (length s) - length s) pc))"
proof (cases "length s mod 4 = 0")
  case False
  assume a: "pos + 4 + align4 (length s) \<le> length buf" "length w = 4"
  have "pos + length (w @ s) + (4 - length s mod 4) \<le> length buf" using a False align4_pad(1) [of "length s"] align4_ge [of "length s"] by simp
  then show ?thesis using False a put_after [of "pos + 4 + length s" pos "w @ s" "replicate (4 - length s mod 4) pc" buf]
    by (simp add: align4_pad)
qed (simp add: align4_pad)

lemma encode_attr_wire:
  assumes ok: "body_ok (Some k) hdr (at_type a) (at_body a)" and tsx: "length (mh_tsx_id hdr) = 12"
    and fits: "pos + attr_size hdr a \<le> length buf" "attr_size hdr a \<le> len"
    and msgint: "k = MSGINT_ATTR \<Longrightarrow> at_length a = 20"
  shows "encode_attr pc k a buf pos len hdr =
    Some (Inr (attr_size hdr a, memcpy_at buf pos (attr_wire hdr a @ written_pad pc (at_body a))))"
proof (cases "at_body a")
  case (Sockaddr_body x sa)
  then have sa: "wf_sockaddr sa" "known_family sa" using ok by (auto simp: body_ok_def wf_sockaddr_def)
  have vl: "length (attr_value hdr (at_body a)) = (if sa_family sa = PJ_AF_INET then 8 else 20)"
    by (simp add: Sockaddr_body attr_value_def length_wire_addr [OF sa(1) tsx])
  have k: "k = SOCKADDR_ATTR \<or> k = XORED_SOCKADDR_ATTR" using ok Sockaddr_body by (auto simp: body_ok_def)
  have size: "attr_size hdr a = 4 + (if sa_family sa = PJ_AF_INET then 8 else 20)" unfolding attr_size_def vl by (simp add: align4_def)
  have "encode_sockaddr_attr (at_type a) x sa buf pos len hdr =
      Some (Inr (attr_size hdr a, memcpy_at buf pos (attr_wire hdr a)))"
    using fits sa unfolding encode_sockaddr_attr_def PUTVAL16H_bytes attr_wire_def size vl
    by (simp add: put_bytes_Some memcpy_append length_wire_addr [OF sa(1) tsx] Let_def ATTR_HDR_LEN_def STUN_GENERIC_IPV4_ADDR_LEN_def
        STUN_GENERIC_IPV6_ADDR_LEN_def Sockaddr_body attr_value_def split: if_splits)
  then show ?thesis using k Sockaddr_body by (auto simp: encode_attr_def written_pad_def)
next
  case Empty_body
  then have k: "k = EMPTY_ATTR" using ok by (auto simp: body_ok_def)
  have size: "attr_size hdr a = 4" by (simp add: attr_size_def Empty_body attr_value_def align4_def)
  show ?thesis using fits unfolding size
    by (simp add: k Empty_body encode_attr_def encode_empty_attr_def PUTVAL16H_bytes put_bytes_Some memcpy_append ATTR_HDR_LEN_def
        attr_wire_def attr_value_def written_pad_def)
next
  case (String_body s)
  then have k: "k = STRING_ATTR" "mh_magic hdr \<noteq> PJ_STUN_MAGIC \<or> at_type a = PJ_STUN_ATTR_SOFTWARE \<longrightarrow> align4 (length s) = length s"
    using ok by (auto simp: body_ok_def align4_exact)
  have size: "attr_size hdr a = 4 + align4 (length s)" by (simp add: attr_size_def String_body attr_value_def)
  have lenw: "(if mh_magic hdr \<noteq> PJ_STUN_MAGIC \<or> at_type a = PJ_STUN_ATTR_SOFTWARE then of_nat (align4 (length s)) else of_nat (length s)) =
      (of_nat (length s) :: 16 word)" using k(2) by simp
  have f: "pos + 4 + length s \<le> length buf" "align4 (length s + ATTR_HDR_LEN) = 4 + align4 (length s)"
    using fits(1) align4_ge [of "length s"] unfolding size by (linarith, simp add: ATTR_HDR_LEN_def align4_add_4)
  have "encode_string_attr pc (at_type a) s buf pos len hdr = Some (Inr (attr_size hdr a,
      memcpy_at buf pos ((be_bytes16 (at_type a) @ be_bytes16 (of_nat (length s))) @ s @ replicate (align4 (length s) - length s) pc)))"
    using fits f(1) string_pad_writes [of pos s buf "be_bytes16 (at_type a) @ be_bytes16 (of_nat (length s))" pc]
    unfolding encode_string_attr_def Let_def lenw f(2) PUTVAL16H_bytes size
    by (cases "length s mod 4 = 0") (simp_all add: put_bytes_Some memcpy_append ATTR_HDR_LEN_def)
  then show ?thesis by (simp add: k(1) String_body encode_attr_def attr_wire_def attr_value_def written_pad_def)
next
  case (Uint_body v)
  then have k: "k = UINT_ATTR" using ok by (auto simp: body_ok_def)
  have size: "attr_size hdr a = 8" by (simp add: attr_size_def Uint_body attr_value_def align4_def)
  show ?thesis using fits unfolding size
    by (simp add: k Uint_body encode_attr_def encode_uint_attr_def PUTVAL16H_bytes PUTVAL32H_bytes put_bytes_Some memcpy_append
        attr_wire_def attr_value_def written_pad_def)
next
  case (Uint64_body hi lo)
  then have k: "k = UINT64_ATTR" using ok by (auto simp: body_ok_def)
  have size: "attr_size hdr a = 12" by (simp add: attr_size_def Uint64_body attr_value_def align4_def)
  show ?thesis using fits unfolding size
    by (simp add: k Uint64_body encode_attr_def encode_uint64_attr_def PUTVAL64H_def PUTVAL16H_bytes PUTVAL32H_bytes put_bytes_Some memcpy_append
        attr_wire_def attr_value_def written_pad_def)
next
  case (Binary_body m d)
  then have k: "k = BINARY_ATTR" using ok by (auto simp: body_ok_def)
  have size: "attr_size hdr a = 4 + align4 (length d)" by (simp add: attr_size_def Binary_body attr_value_def)
  have f: "pos + 4 + length d \<le> length buf" using fits(1) align4_ge [of "length d"] unfolding size by linarith
  show ?thesis using fits f unfolding size
    by (simp add: k Binary_body encode_attr_def encode_binary_attr_def Let_def PUTVAL16H_bytes put_bytes_Some memcpy_append ATTR_HDR_LEN_def
        attr_wire_def attr_value_def written_pad_def align4_add_4)
next
  case (Msgint_body h)
  then have k: "k = MSGINT_ATTR" "length h = 20" using ok by (auto simp: body_ok_def)
  have size: "attr_size hdr a = 24" by (simp add: attr_size_def Msgint_body attr_value_def align4_def k)
  show ?thesis using fits msgint [OF k(1)] unfolding size
    by (simp add: k Msgint_body encode_attr_def encode_msgint_attr_def PUTVAL16H_bytes put_bytes_Some memcpy_append
        attr_wire_def attr_value_def written_pad_def)
next
  case (Errcode_body c r)
  then have k: "k = ERRCODE_ATTR" using ok by (auto simp: body_ok_def)
  have "length (attr_value hdr (at_body a)) = length r + 4" by (simp add: Errcode_body attr_value_def)
  then have size: "attr_size hdr a = 8 + align4 (length r)" by (simp only: attr_size_def align4_add_4)
  have f: "pos + 8 + length r \<le> length buf" "8 + length r \<le> len" using fits align4_ge [of "length r"] unfolding size by linarith+
  have "align4 (8 + length r) = 8 + align4 (length r)" using align4_add_4 [of "length r + 4"] align4_add_4 [of "length r"] by (simp add: add.commute)
  moreover have "be_bytes16 0 = [0, 0]" by (simp add: be_bytes16_def)
  ultimately show ?thesis using fits f unfolding size
    by (simp add: k Errcode_body encode_attr_def encode_errcode_attr_def PUTVAL16H_bytes put_bytes_Some memcpy_append ATTR_HDR_LEN_def
        attr_wire_def attr_value_def written_pad_def align4_add_4)
next
  case (Unknown_body us)
  then have k: "k = UNKNOWN_ATTR" using ok by (auto simp: body_ok_def)
  have size: "attr_size hdr a = 4 + align4 (2 * length us)" by (simp add: attr_size_def Unknown_body attr_value_def length_be16s)
  have f: "pos + 4 + 2 * length us \<le> length buf" "4 + 2 * length us \<le> len" using fits align4_ge [of "2 * length us"] unfolding size by linarith+
  show ?thesis using fits f unfolding size
    by (simp add: k Unknown_body encode_attr_def encode_unknown_attr_def Let_def PUTVAL16H_bytes put_bytes_Some memcpy_append ATTR_HDR_LEN_def
        attr_wire_def attr_value_def written_pad_def align4_add_4 length_be16s mult.commute)
qed

lemma encode_binary_wire:
  assumes "body_ok None hdr (at_type a) (at_body a)"
    and fits: "pos + attr_size hdr a \<le> length buf" "attr_size hdr a \<le> len"
  shows "\<exists>d. at_body a = Binary_body PJ_STUN_MAGIC d \<and>
    encode_binary_attr (at_type a) d buf pos len = Some (Inr (attr_size hdr a, memcpy_at buf pos (attr_wire hdr a @ written_pad pc (at_body a))))"
proof -
  obtain d where d: "at_body a = Binary_body PJ_STUN_MAGIC d" using assms(1) by (cases "at_body a") (auto simp: body_ok_def)
  have size: "attr_size hdr a = 4 + align4 (length d)" by (simp add: attr_size_def d attr_value_def)
  have f: "pos + 4 + length d \<le> length buf" using fits(1) align4_ge [of "length d"] unfolding size by linarith
  then show ?thesis using fits unfolding size
    by (simp add: d encode_binary_attr_def Let_def PUTVAL16H_bytes put_bytes_Some memcpy_append ATTR_HDR_LEN_def
        attr_wire_def attr_value_def written_pad_def align4_add_4)
qed

subsection \<open>Decoding the wire format\<close>

lemma xor_bytes_twice: "length xs \<le> length ys \<Longrightarrow> xor_bytes (xor_bytes xs ys) ys = xs"
proof (induction xs arbitrary: ys)
  case (Cons x xs)
  then obtain y ys' where "ys = y # ys'" by (cases ys) auto
  then show ?case using Cons by (simp add: xor_bytes_def xor.assoc)
qed (simp add: xor_bytes_def)

lemma be_words16_bytes: "be_words16 (concat (map be_bytes16 us)) = us"
  by (induction us) (simp_all add: be_bytes16_def get_put_16)

lemma unat_of_nat_16: "n < 65536 \<Longrightarrow> unat (of_nat n :: 16 word) = n"
  by (rule unat_of_nat_small) simp

lemma value_at:
  "get_bytes (be_bytes16 t @ be_bytes16 l @ v @ rest) 4 (length v) = Some v"
  using get_bytes_at [of "be_bytes16 t @ be_bytes16 l" v rest] by simp

lemma wire_rest:
  "attr_wire hdr a @ rest = be_bytes16 (at_type a) @ be_bytes16 (of_nat (length (attr_value hdr (at_body a)))) @ attr_value hdr (at_body a) @ rest"
  by (simp add: attr_wire_def)

lemma decode_sockaddr_wire:
  assumes "at_body a = Sockaddr_body x sa" "wf_sockaddr sa" "length (mh_tsx_id hdr) = 12"
  shows "decode_sockaddr_attr (attr_wire hdr a @ rest) hdr = Some (Inr (a\<lparr>at_length := of_nat (length (attr_value hdr (at_body a))),
    at_body := Sockaddr_body False \<lparr>sa_family = sa_family sa, sa_port = wire_port x sa, sa_addr = wire_addr x sa hdr\<rparr>\<rparr>))"
proof -
  let ?b = "if sa_family sa = PJ_AF_INET then 1 else 2 :: byte"
  have fam: "sa_family sa = PJ_AF_INET \<or> sa_family sa = PJ_AF_INET6" using assms(2) by (auto simp: wf_sockaddr_def)
  have vl: "length (attr_value hdr (at_body a)) = (if sa_family sa = PJ_AF_INET then 8 else 20)"
    by (simp add: assms(1) attr_value_def length_wire_addr [OF assms(2,3)])
  let ?buf = "be_bytes16 (at_type a) @ be_bytes16 (of_nat (if sa_family sa = PJ_AF_INET then 8 else 20)) @
      [0, ?b] @ be_bytes16 (wire_port x sa) @ wire_addr x sa hdr @ rest"
  have buf: "attr_wire hdr a @ rest = ?buf" unfolding wire_rest vl by (simp add: assms(1) attr_value_def)
  have "deref ?buf 5 = Some ?b"
    using deref_append [of "be_bytes16 (at_type a) @ be_bytes16 (of_nat (if sa_family sa = PJ_AF_INET then 8 else 20))"] by (simp add: deref_def be_bytes16_def)
  moreover have "GETVAL16H ?buf 6 = Some (wire_port x sa)"
    using GETVAL16H_at [of "be_bytes16 (at_type a) @ be_bytes16 (of_nat (if sa_family sa = PJ_AF_INET then 8 else 20)) @ [0, ?b]"] by simp
  moreover have "get_bytes ?buf 8 (if sa_family sa = PJ_AF_INET then 4 else 16) = Some (wire_addr x sa hdr)"
    using get_bytes_at [of "be_bytes16 (at_type a) @ be_bytes16 (of_nat (if sa_family sa = PJ_AF_INET then 8 else 20)) @ [0, ?b] @ be_bytes16 (wire_port x sa)" "wire_addr x sa hdr" rest]
    by (simp add: length_wire_addr [OF assms(2,3)])
  ultimately show ?thesis
    unfolding buf decode_sockaddr_attr_def vl using fam
    by (cases "sa_family sa = PJ_AF_INET") (simp_all add: GETATTRHDR_at [of _ _ "0 # _"] unat_of_nat_16
        STUN_GENERIC_IPV4_ADDR_LEN_def STUN_GENERIC_IPV6_ADDR_LEN_def ATTR_HDR_LEN_def)
qed

lemma decode_xored_wire:
  assumes "at_body a = Sockaddr_body True sa" "wf_sockaddr sa" "length (mh_tsx_id hdr) = 12"
  shows "decode_xored_sockaddr_attr (attr_wire hdr a @ rest) hdr =
    Some (Inr (a\<lparr>at_length := of_nat (length (attr_value hdr (at_body a))), at_body := Sockaddr_body True sa\<rparr>))"
proof -
  have len: "length (sa_addr sa) = (if sa_family sa = PJ_AF_INET then 4 else 16)" "sa_family sa = PJ_AF_INET \<or> sa_family sa = PJ_AF_INET6" "PJ_AF_INET \<noteq> PJ_AF_INET6"
    using assms(2) by (auto simp: wf_sockaddr_def pj_sockaddr_get_addr_len_def PJ_AF_INET_def PJ_AF_INET6_def)
  have "(sa_port sa XOR magic_port) XOR magic_port = sa_port sa" by (simp add: xor.assoc)
  moreover have "xor_bytes (xor_bytes (sa_addr sa) magic_bytes) magic_bytes = sa_addr sa" if "sa_family sa = PJ_AF_INET"
    using len that by (intro xor_bytes_twice) (simp add: magic_bytes_def)
  moreover have "xor_bytes (xor_bytes (sa_addr sa) (magic_bytes @ mh_tsx_id hdr)) (magic_bytes @ mh_tsx_id hdr) = sa_addr sa" if "sa_family sa = PJ_AF_INET6"
    using len that assms(3) by (intro xor_bytes_twice) (simp add: magic_bytes_def)
  ultimately show ?thesis
    unfolding decode_xored_sockaddr_attr_def decode_sockaddr_wire [OF assms] using len(2,3)
    by (auto simp: wire_port_def wire_addr_def)
qed

lemma decode_attr_wire:
  assumes k: "find_attr_desc (unat (at_type a)) = Some (name, k)" and ok: "body_ok (Some k) hdr (at_type a) (at_body a)"
    and tsx: "length (mh_tsx_id hdr) = 12"
  shows "decode_attr k (attr_wire hdr a @ rest) hdr = Some (Inr (canon_attr hdr a))"
proof -
  let ?v = "attr_value hdr (at_body a)"
  have n: "unat (of_nat (length ?v) :: 16 word) = length ?v" using length_attr_value [OF ok tsx] by (rule unat_of_nat_16)
  have hdr: "GETATTRHDR (attr_wire hdr a @ rest) = Some (at_type a, of_nat (length ?v))" unfolding wire_rest by (rule GETATTRHDR_at)
  have val: "get_bytes (attr_wire hdr a @ rest) 4 (length ?v) = Some ?v" unfolding wire_rest by (rule value_at)
  have ne: "of_nat (length ?v) = (of_nat m :: 16 word) \<longleftrightarrow> length ?v = m" if "m < 65536" for m
    using n unat_of_nat_16 [OF that] by metis
  show ?thesis
  proof (cases "at_body a")
    case (Sockaddr_body x sa)
    then consider "k = SOCKADDR_ATTR" "\<not> x" "wf_sockaddr sa" | "k = XORED_SOCKADDR_ATTR" x "wf_sockaddr sa"
      using ok by (auto simp: body_ok_def)
    then show ?thesis
    proof cases
      case 1
      then show ?thesis using decode_sockaddr_wire [OF Sockaddr_body 1(3) tsx, of rest] Sockaddr_body
        by (simp add: decode_attr_def canon_attr_def wire_port_def wire_addr_def k)
    next
      case 2
      then show ?thesis using decode_xored_wire [of a sa hdr rest] Sockaddr_body tsx
        by (simp add: decode_attr_def canon_attr_def k)
    qed
  next
    case Empty_body
    then show ?thesis using ok hdr by (simp add: body_ok_def decode_attr_def decode_empty_attr_def canon_attr_def k attr_value_def)
  next
    case (String_body s)
    then show ?thesis using ok hdr val n
      by (simp add: body_ok_def decode_attr_def decode_string_attr_def canon_attr_def k attr_value_def ATTR_HDR_LEN_def)
  next
    case (Uint_body v)
    have "GETVAL32H (attr_wire hdr a @ rest) 4 = Some v"
      using GETVAL32H_at [of "be_bytes16 (at_type a) @ be_bytes16 (of_nat (length ?v))" v rest] unfolding wire_rest by (simp add: Uint_body attr_value_def)
    then show ?thesis using Uint_body ok hdr by (simp add: body_ok_def decode_attr_def decode_uint_attr_def canon_attr_def k attr_value_def)
  next
    case (Uint64_body hi lo)
    have "GETVAL32H (attr_wire hdr a @ rest) 4 = Some hi"
      using GETVAL32H_at [of "be_bytes16 (at_type a) @ be_bytes16 (of_nat (length ?v))" hi "be_bytes32 lo @ rest"] unfolding wire_rest by (simp add: Uint64_body attr_value_def)
    moreover have "GETVAL32H (attr_wire hdr a @ rest) 8 = Some lo"
      using GETVAL32H_at [of "be_bytes16 (at_type a) @ be_bytes16 (of_nat (length ?v)) @ be_bytes32 hi" lo rest] unfolding wire_rest by (simp add: Uint64_body attr_value_def)
    ultimately show ?thesis using Uint64_body ok hdr
      by (simp add: body_ok_def decode_attr_def decode_uint64_attr_def GETVAL64H_def canon_attr_def k attr_value_def)
  next
    case (Binary_body m d)
    then show ?thesis using ok hdr val n
      by (auto simp: body_ok_def decode_attr_def decode_binary_attr_def canon_attr_def k attr_value_def ATTR_HDR_LEN_def)
  next
    case (Msgint_body h)
    then show ?thesis using ok hdr val n
      by (simp add: body_ok_def decode_attr_def decode_msgint_attr_def canon_attr_def k attr_value_def)
  next
    case (Errcode_body c r)
    have kc: "k = ERRCODE_ATTR" "c < 25600" "length r < 65532" using ok Errcode_body by (auto simp: body_ok_def)
    let ?p = "be_bytes16 (at_type a) @ be_bytes16 (of_nat (length ?v))"
    have w: "attr_wire hdr a @ rest = ?p @ [0, 0, of_nat (c div 100), of_nat (c mod 100)] @ r @ rest"
      unfolding wire_rest by (simp add: Errcode_body attr_value_def)
    have "deref (attr_wire hdr a @ rest) 6 = Some (of_nat (c div 100))" "deref (attr_wire hdr a @ rest) 7 = Some (of_nat (c mod 100))"
      unfolding w using deref_append [of ?p _ 2] deref_append [of ?p _ 3] by simp_all
    moreover have "unat (of_nat (c div 100) :: byte) = c div 100" "unat (of_nat (c mod 100) :: byte) = c mod 100"
      using kc(2) by (simp_all add: unat_of_nat)
    moreover have "get_bytes (attr_wire hdr a @ rest) 8 (length r) = Some r"
      unfolding w using get_bytes_at [of "?p @ [0, 0, of_nat (c div 100), of_nat (c mod 100)]" r rest] by simp
    moreover have "length ?v = 4 + length r" by (simp add: Errcode_body attr_value_def)
    ultimately show ?thesis using Errcode_body hdr n kc
      by (simp add: decode_attr_def decode_errcode_attr_def canon_attr_def k ATTR_HDR_LEN_def)
  next
    case (Unknown_body us)
    have u: "k = UNKNOWN_ATTR" "length us \<le> 16" "length ?v = 2 * length us"
      using ok Unknown_body by (auto simp: body_ok_def PJ_STUN_MAX_ATTR_def attr_value_def length_be16s)
    then show ?thesis using hdr val n Unknown_body be_words16_bytes [of us]
      by (simp add: decode_attr_def decode_unknown_attr_def canon_attr_def k ATTR_HDR_LEN_def PJ_STUN_MAX_ATTR_def attr_value_def mult.commute)
  qed
qed

end
