(* ===== verification/StunMsg.thy ===== *)
theory StunMsg
  imports StunWire Crc32
begin

text \<open>
  STUN messages (pjnath/src/pjnath/stun_msg.c): building a message, checking a packet, decoding a packet
  with the error responses it generates, and encoding a message with MESSAGE-INTEGRITY and FINGERPRINT. A read or
  write outside the packet or the buffer is the value \<open>None\<close>.
\<close>

subsection \<open>Building a message\<close>

text \<open>
  A null transaction identifier makes \<^verbatim>\<open>pj_stun_msg_init\<close> build one from the process identifier, two random numbers and a
  counter that starts as a random number; the bytes are those of three integers of a little-endian machine.
\<close>

definition new_tsx_id :: "32 word \<Rightarrow> 32 word \<Rightarrow> 32 word \<Rightarrow> 32 word \<Rightarrow> byte list \<times> 32 word" where
  "new_tsx_id pid rand1 rand2 counter =
     (let (counter, rnd) = (if counter = 0 then (rand1, rand2) else (counter, rand1)) in
      (le_bytes32 pid @ le_bytes32 rnd @ le_bytes32 counter, counter + 1))"

definition pj_stun_msg_init :: "16 word \<Rightarrow> 32 word \<Rightarrow> byte list \<Rightarrow> pj_status + pj_stun_msg" where
  "pj_stun_msg_init msg_type magic tsx_id =
     (if msg_type = 0 then Inl PJ_EINVAL
      else Inr \<lparr>msg_hdr = \<lparr>mh_type = msg_type, mh_length = 0, mh_magic = magic, mh_tsx_id = tsx_id\<rparr>, msg_attrs = []\<rparr>)"

definition pj_stun_msg_create :: "16 word \<Rightarrow> 32 word \<Rightarrow> byte list \<Rightarrow> pj_status + pj_stun_msg" where
  "pj_stun_msg_create msg_type magic tsx_id =
     (if msg_type = 0 then Inl PJ_EINVAL else pj_stun_msg_init msg_type magic tsx_id)"

definition pj_stun_msg_clone :: "pj_stun_msg \<Rightarrow> pj_stun_msg" where
  "pj_stun_msg_clone src = src\<lparr>msg_attrs := List.map_filter pj_stun_attr_clone (msg_attrs src)\<rparr>"

definition pj_stun_msg_add_attr :: "pj_stun_msg \<Rightarrow> pj_stun_attr \<Rightarrow> pj_status + pj_stun_msg" where
  "pj_stun_msg_add_attr msg attr =
     (if \<not> length (msg_attrs msg) < PJ_STUN_MAX_ATTR then Inl PJ_ETOOMANY
      else Inr (msg\<lparr>msg_attrs := msg_attrs msg @ [attr]\<rparr>))"

definition add_created :: "pj_stun_msg \<Rightarrow> pj_status + pj_stun_attr \<Rightarrow> pj_status + pj_stun_msg" where
  "add_created msg res = (case res of Inl status \<Rightarrow> Inl status | Inr attr \<Rightarrow> pj_stun_msg_add_attr msg attr)"

definition pj_stun_msg_add_sockaddr_attr :: "pj_stun_msg \<Rightarrow> 16 word \<Rightarrow> bool \<Rightarrow> pj_sockaddr \<Rightarrow> pj_status + pj_stun_msg" where
  "pj_stun_msg_add_sockaddr_attr msg attr_type xored addr = add_created msg (pj_stun_sockaddr_attr_create attr_type xored addr)"

definition pj_stun_msg_add_string_attr :: "pj_stun_msg \<Rightarrow> 16 word \<Rightarrow> byte list \<Rightarrow> pj_status + pj_stun_msg" where
  "pj_stun_msg_add_string_attr msg attr_type val = add_created msg (pj_stun_string_attr_create attr_type val)"

definition pj_stun_msg_add_empty_attr :: "pj_stun_msg \<Rightarrow> 16 word \<Rightarrow> pj_status + pj_stun_msg" where
  "pj_stun_msg_add_empty_attr msg attr_type = add_created msg (pj_stun_empty_attr_create attr_type)"

definition pj_stun_msg_add_uint_attr :: "pj_stun_msg \<Rightarrow> 16 word \<Rightarrow> 32 word \<Rightarrow> pj_status + pj_stun_msg" where
  "pj_stun_msg_add_uint_attr msg attr_type val = add_created msg (pj_stun_uint_attr_create attr_type val)"

definition pj_stun_msg_add_uint64_attr :: "pj_stun_msg \<Rightarrow> 16 word \<Rightarrow> (32 word \<times> 32 word) option \<Rightarrow> pj_status + pj_stun_msg" where
  "pj_stun_msg_add_uint64_attr msg attr_type val = add_created msg (pj_stun_uint64_attr_create attr_type val)"

definition pj_stun_msg_add_msgint_attr :: "pj_stun_msg \<Rightarrow> pj_status + pj_stun_msg" where
  "pj_stun_msg_add_msgint_attr msg = add_created msg pj_stun_msgint_attr_create"

definition pj_stun_msg_add_errcode_attr :: "pj_stun_msg \<Rightarrow> nat \<Rightarrow> byte list option \<Rightarrow> (pj_status + pj_stun_msg) option" where
  "pj_stun_msg_add_errcode_attr msg err_code err_reason =
     map_option (add_created msg) (pj_stun_errcode_attr_create err_code err_reason)"

definition pj_stun_msg_add_unknown_attr :: "pj_stun_msg \<Rightarrow> 16 word list \<Rightarrow> pj_status + pj_stun_msg" where
  "pj_stun_msg_add_unknown_attr msg attrs = add_created msg (pj_stun_unknown_attr_create attrs)"

definition pj_stun_msg_add_binary_attr :: "pj_stun_msg \<Rightarrow> 16 word \<Rightarrow> byte list \<Rightarrow> pj_status + pj_stun_msg" where
  "pj_stun_msg_add_binary_attr msg attr_type data = add_created msg (pj_stun_binary_attr_create attr_type data)"

definition pj_stun_msg_find_attr :: "pj_stun_msg \<Rightarrow> 16 word \<Rightarrow> nat \<Rightarrow> pj_stun_attr option" where
  "pj_stun_msg_find_attr msg attr_type index =
     List.find (\<lambda>a. at_type a = attr_type) (drop index (msg_attrs msg))"

definition pj_stun_msg_create_response :: "pj_stun_msg \<Rightarrow> nat \<Rightarrow> byte list option \<Rightarrow> (pj_status + pj_stun_msg) option" where
  "pj_stun_msg_create_response req_msg err_code err_msg =
     (let msg_type = mh_type (msg_hdr req_msg) in
      if \<not> STUN_IS_REQUEST msg_type then Some (Inl PJNATH_EINSTUNMSGTYPE)
      else
        let msg_type = msg_type OR (if err_code \<noteq> 0 then PJ_STUN_ERROR_RESPONSE_BIT else PJ_STUN_SUCCESS_RESPONSE_BIT) in
        case pj_stun_msg_create msg_type (mh_magic (msg_hdr req_msg)) (mh_tsx_id (msg_hdr req_msg)) of
          Inl status \<Rightarrow> Some (Inl status)
        | Inr response \<Rightarrow> if err_code \<noteq> 0 then pj_stun_msg_add_errcode_attr response err_code err_msg else Some (Inr response))"

subsection \<open>Checking a packet\<close>

definition PJ_STUN_IS_DATAGRAM :: "32 word" where "PJ_STUN_IS_DATAGRAM = 1"
definition PJ_STUN_CHECK_PACKET :: "32 word" where "PJ_STUN_CHECK_PACKET = 2"
definition PJ_STUN_NO_AUTHENTICATE :: "32 word" where "PJ_STUN_NO_AUTHENTICATE = 4"
definition PJ_STUN_NO_FINGERPRINT_CHECK :: "32 word" where "PJ_STUN_NO_FINGERPRINT_CHECK = 8"

definition STUN_XOR_FINGERPRINT :: "32 word" where "STUN_XOR_FINGERPRINT = 0x5354554e"

text \<open>The checksum of the data does not depend on its address, so that of an aligned packet is taken.\<close>

definition stun_fingerprint :: "byte list \<Rightarrow> 32 word" where
  "stun_fingerprint data = pj_crc32_calc 0 data XOR STUN_XOR_FINGERPRINT"

definition check_fingerprint :: "byte list \<Rightarrow> nat \<Rightarrow> pj_status option" where
  "check_fingerprint pdu msg_len = do {
     attr_len \<leftarrow> GETVAL16H pdu (msg_len + 20 - 8 + 2);
     fingerprint \<leftarrow> GETVAL32H pdu (msg_len + 20 - 8 + 4);
     Some (if attr_len \<noteq> 4 then PJNATH_ESTUNINATTRLEN
           else if stun_fingerprint (take (msg_len + 20 - 8) pdu) \<noteq> fingerprint then PJNATH_ESTUNFINGERPRINT
           else PJ_SUCCESS) }"

definition pj_stun_msg_check :: "byte list \<Rightarrow> 32 word \<Rightarrow> pj_status option" where
  "pj_stun_msg_check pdu options =
     (if length pdu < 20 then Some PJNATH_EINSTUNMSGLEN
      else do {
        b \<leftarrow> deref pdu 0;
        if b \<noteq> 0x00 \<and> b \<noteq> 0x01 then Some PJNATH_EINSTUNMSGTYPE
        else do {
          len \<leftarrow> GETVAL16H pdu 2;
          let msg_len = unat len;
          if msg_len + 20 > length pdu \<or> options AND PJ_STUN_IS_DATAGRAM \<noteq> 0 \<and> msg_len + 20 \<noteq> length pdu
          then Some PJNATH_EINSTUNMSGLEN
          else if msg_len mod 4 \<noteq> 0 then Some PJNATH_EINSTUNMSGLEN
          else do {
            magic \<leftarrow> GETVAL32H pdu 4;
            if magic = PJ_STUN_MAGIC \<and> options AND PJ_STUN_NO_FINGERPRINT_CHECK = 0 then do {
              t \<leftarrow> GETVAL16H pdu (msg_len + 20 - 8);
              if t = PJ_STUN_ATTR_FINGERPRINT then check_fingerprint pdu msg_len else Some PJ_SUCCESS }
            else Some PJ_SUCCESS } } })"

subsection \<open>Decoding a packet\<close>

text \<open>
  The outcome of decoding is a status with the response for the sender, if one was asked for and could be built, or the message.
  \<open>strerror\<close> is \<^verbatim>\<open>pj_strerror\<close>, whose texts depend on the handlers that are registered when it is called.
\<close>

type_synonym stun_failure = "pj_status \<times> pj_stun_msg option"

definition reply :: "bool \<Rightarrow> pj_stun_msg \<Rightarrow> nat \<Rightarrow> byte list option \<Rightarrow> pj_stun_msg option option" where
  "reply p_response msg err_code err_msg =
     (if p_response then do {
        res \<leftarrow> pj_stun_msg_create_response msg err_code err_msg;
        Some (case res of Inl _ \<Rightarrow> None | Inr r \<Rightarrow> Some r) }
      else Some None)"

definition fail_with :: "bool \<Rightarrow> pj_stun_msg \<Rightarrow> pj_status \<Rightarrow> nat \<Rightarrow> byte list option \<Rightarrow> (stun_failure + 'a) option" where
  "fail_with p_response msg status err_code err_msg = do {
     r \<leftarrow> reply p_response msg err_code err_msg;
     Some (Inl (status, r)) }"

definition PJ_ERR_MSG_SIZE :: nat where "PJ_ERR_MSG_SIZE = 80"

text \<open>An attribute of a type that the tables do not have.\<close>

definition decode_unrecognized :: "bool \<Rightarrow> byte list \<Rightarrow> pj_stun_msg \<Rightarrow> 16 word \<Rightarrow> (stun_failure + pj_stun_msg) option" where
  "decode_unrecognized p_response pdu msg attr_type =
     (if attr_type \<le> 0x7FFF then do {
        r \<leftarrow> reply p_response msg PJ_STUN_SC_UNKNOWN_ATTRIBUTE None;
        let r = map_option (\<lambda>m. case pj_stun_msg_add_unknown_attr m [attr_type] of Inl _ \<Rightarrow> m | Inr m' \<Rightarrow> m') r;
        Some (Inl (PJ_STATUS_FROM_STUN_CODE PJ_STUN_SC_UNKNOWN_ATTRIBUTE, r)) }
      else if length (msg_attrs msg) \<ge> PJ_STUN_MAX_ATTR then
        fail_with p_response msg PJNATH_ESTUNTOOMANYATTR PJ_STUN_SC_SERVER_ERROR None
      else do {
        len \<leftarrow> GETVAL16H pdu 2;
        data \<leftarrow> get_bytes pdu 4 (unat len);
        case pj_stun_binary_attr_create attr_type data of
          Inl status \<Rightarrow> fail_with p_response msg status PJ_STUN_SC_SERVER_ERROR None
        | Inr attr \<Rightarrow> Some (Inr (msg\<lparr>msg_attrs := msg_attrs msg @ [attr]\<rparr>)) })"

text \<open>An attribute of a known type; the flags say that MESSAGE-INTEGRITY and FINGERPRINT were seen before.\<close>

definition decode_recognized ::
  "(pj_status \<Rightarrow> byte list) \<Rightarrow> bool \<Rightarrow> byte list \<Rightarrow> pj_stun_msg \<Rightarrow> bool \<Rightarrow> bool \<Rightarrow> 16 word \<Rightarrow> attr_kind \<Rightarrow>
   (stun_failure + pj_stun_msg \<times> bool \<times> bool) option" where
  "decode_recognized strerror p_response pdu msg has_msg_int has_fingerprint attr_type k = do {
     res \<leftarrow> decode_attr k pdu (msg_hdr msg);
     case res of
       Inl status \<Rightarrow>
         fail_with p_response msg status PJ_STUN_SC_BAD_REQUEST
           (Some (take (PJ_ERR_MSG_SIZE - 1) (strerror status @ bytes_of '' in '' @ bytes_of (pj_stun_get_attr_name (unat attr_type)))))
     | Inr attr \<Rightarrow>
         let is_mi = (attr_type = PJ_STUN_ATTR_MESSAGE_INTEGRITY \<and> \<not> has_fingerprint);
             is_fp = (\<not> is_mi \<and> attr_type = PJ_STUN_ATTR_FINGERPRINT) in
         if is_mi \<and> has_msg_int then fail_with p_response msg PJNATH_ESTUNDUPATTR PJ_STUN_SC_BAD_REQUEST None
         else if is_fp \<and> has_fingerprint then fail_with p_response msg PJNATH_ESTUNDUPATTR PJ_STUN_SC_BAD_REQUEST None
         else if \<not> is_mi \<and> \<not> is_fp \<and> has_fingerprint then fail_with p_response msg PJNATH_ESTUNFINGERPOS PJ_STUN_SC_BAD_REQUEST None
         else if length (msg_attrs msg) \<ge> PJ_STUN_MAX_ATTR then
           fail_with p_response msg PJNATH_ESTUNTOOMANYATTR PJ_STUN_SC_SERVER_ERROR None
         else Some (Inr (msg\<lparr>msg_attrs := msg_attrs msg @ [attr]\<rparr>, has_msg_int \<or> is_mi, has_fingerprint \<or> is_fp)) }"

text \<open>
  One turn of the loop over the attributes, at the position \<open>pdu\<close> with \<open>pdu_len\<close> bytes of the message left. Its length check leaves out the
  four bytes of the attribute header.
\<close>

definition decode_one ::
  "(pj_status \<Rightarrow> byte list) \<Rightarrow> bool \<Rightarrow> byte list \<Rightarrow> nat \<Rightarrow> pj_stun_msg \<Rightarrow> bool \<Rightarrow> bool \<Rightarrow>
   (stun_failure + nat \<times> pj_stun_msg \<times> bool \<times> bool) option" where
  "decode_one strerror p_response pdu pdu_len msg has_msg_int has_fingerprint = do {
     attr_type \<leftarrow> GETVAL16H pdu 0;
     len \<leftarrow> GETVAL16H pdu 2;
     let attr_val_len = align4 (unat len);
     if pdu_len < attr_val_len then
       fail_with p_response msg PJNATH_ESTUNINATTRLEN PJ_STUN_SC_BAD_REQUEST
         (Some (bytes_of (''Attribute '' @ pj_stun_get_attr_name (unat attr_type) @ '' has invalid length'')))
     else case find_attr_desc (unat attr_type) of
       None \<Rightarrow> do {
         res \<leftarrow> decode_unrecognized p_response pdu msg attr_type;
         Some (map_sum id (\<lambda>m. (attr_val_len, m, has_msg_int, has_fingerprint)) res) }
     | Some (_, k) \<Rightarrow> do {
         res \<leftarrow> decode_recognized strerror p_response pdu msg has_msg_int has_fingerprint attr_type k;
         Some (map_sum id (\<lambda>r. (attr_val_len, r)) res) } }"

function decode_attrs ::
  "(pj_status \<Rightarrow> byte list) \<Rightarrow> bool \<Rightarrow> byte list \<Rightarrow> nat \<Rightarrow> nat \<Rightarrow> pj_stun_msg \<Rightarrow> bool \<Rightarrow> bool \<Rightarrow>
   (stun_failure + nat \<times> nat \<times> pj_stun_msg) option" where
  "decode_attrs strerror p_response start pos pdu_len msg has_msg_int has_fingerprint =
     (if pdu_len \<ge> 4 then
        (case decode_one strerror p_response (drop pos start) pdu_len msg has_msg_int has_fingerprint of
           None \<Rightarrow> None
         | Some (Inl e) \<Rightarrow> Some (Inl e)
         | Some (Inr (attr_val_len, msg, has_msg_int, has_fingerprint)) \<Rightarrow>
             if attr_val_len + 4 \<ge> pdu_len then decode_attrs strerror p_response start (pos + pdu_len) 0 msg has_msg_int has_fingerprint
             else decode_attrs strerror p_response start (pos + (attr_val_len + 4)) (pdu_len - (attr_val_len + 4)) msg has_msg_int has_fingerprint)
      else Some (Inr (pos, pdu_len, msg)))"
  by pat_completeness auto
termination by (relation "measure (\<lambda>(_, _, _, _, pdu_len, _). pdu_len)") auto

declare decode_attrs.simps [simp del]

definition decode_hdr :: "byte list \<Rightarrow> pj_stun_msg_hdr option" where
  "decode_hdr pdu = do {
     t \<leftarrow> GETVAL16H pdu 0; l \<leftarrow> GETVAL16H pdu 2; magic \<leftarrow> GETVAL32H pdu 4; tsx_id \<leftarrow> get_bytes pdu 8 12;
     Some \<lparr>mh_type = t, mh_length = l, mh_magic = magic, mh_tsx_id = tsx_id\<rparr> }"

definition pj_stun_msg_decode ::
  "(pj_status \<Rightarrow> byte list) \<Rightarrow> byte list \<Rightarrow> 32 word \<Rightarrow> bool \<Rightarrow> (stun_failure + pj_stun_msg \<times> nat) option" where
  "pj_stun_msg_decode strerror pdu options p_response =
     (if pdu = [] then Some (Inl (PJ_EINVAL, None))
      else do {
        status \<leftarrow> (if options AND PJ_STUN_CHECK_PACKET \<noteq> 0 then pj_stun_msg_check pdu options else Some PJ_SUCCESS);
        if status \<noteq> PJ_SUCCESS then Some (Inl (status, None))
        else do {
          hdr \<leftarrow> decode_hdr pdu;
          let p_response = (p_response \<and> STUN_IS_REQUEST (mh_type hdr));
          res \<leftarrow> decode_attrs strerror p_response pdu 20 (unat (mh_length hdr)) \<lparr>msg_hdr = hdr, msg_attrs = []\<rparr> False False;
          Some (case res of
              Inl e \<Rightarrow> Inl e
            | Inr (pos, pdu_len, msg) \<Rightarrow> if pdu_len > 0 then Inl (PJNATH_EINSTUNMSGLEN, None) else Inr (msg, pos)) } })"

subsection \<open>Encoding a message\<close>

text \<open>
  \<open>buf_size\<close> is a \<^verbatim>\<open>size_t\<close> of 64 bits, passed to the encoders as an \<^verbatim>\<open>unsigned\<close>. The loop stops at the
  first MESSAGE-INTEGRITY or FINGERPRINT; \<open>rest\<close> are the attributes from there on.
\<close>

primrec encode_attrs ::
  "byte \<Rightarrow> pj_stun_msg_hdr \<Rightarrow> byte list \<Rightarrow> nat \<Rightarrow> 64 word \<Rightarrow> pj_stun_attr list \<Rightarrow>
   (pj_status + byte list \<times> nat \<times> 64 word \<times> pj_stun_attr list) option" where
  "encode_attrs padding_char hdr buf pos buf_size [] = Some (Inr (buf, pos, buf_size, []))"
| "encode_attrs padding_char hdr buf pos buf_size (a # as) =
     (if at_type a = PJ_STUN_ATTR_MESSAGE_INTEGRITY \<or> at_type a = PJ_STUN_ATTR_FINGERPRINT then Some (Inr (buf, pos, buf_size, a # as))
      else do {
        res \<leftarrow> (case find_attr_desc (unat (at_type a)) of
            Some (_, k) \<Rightarrow> encode_attr padding_char k a buf pos (unat (ucast buf_size :: 32 word)) hdr
          | None \<Rightarrow> (case at_body a of
                Binary_body m d \<Rightarrow> if m \<noteq> PJ_STUN_MAGIC then Some (Inl PJ_EBUG)
                  else encode_binary_attr (at_type a) d buf pos (unat (ucast buf_size :: 32 word))
              | _ \<Rightarrow> None));
        case res of
          Inl status \<Rightarrow> Some (Inl status)
        | Inr (printed, buf) \<Rightarrow> encode_attrs padding_char hdr buf (pos + printed) (buf_size - of_nat printed) as })"

text \<open>The scan of the attributes after the stop; the indices are those of the last MESSAGE-INTEGRITY and FINGERPRINT found.\<close>

function scan_rest :: "pj_stun_attr list \<Rightarrow> nat \<Rightarrow> nat option \<Rightarrow> nat option \<Rightarrow> pj_status + nat option \<times> nat option" where
  "scan_rest attrs i amsgint afingerprint =
     (if i < length attrs then
        if afingerprint \<noteq> None then Inl PJNATH_ESTUNFINGERPOS
        else if at_type (attrs ! i) = PJ_STUN_ATTR_MESSAGE_INTEGRITY then
          if amsgint \<noteq> None then Inl PJNATH_ESTUNMSGINTPOS else scan_rest attrs (i + 1) (Some i) afingerprint
        else if at_type (attrs ! i) = PJ_STUN_ATTR_FINGERPRINT then scan_rest attrs (i + 1) amsgint (Some i)
        else scan_rest attrs (i + 1) amsgint afingerprint
      else Inr (amsgint, afingerprint))"
  by pat_completeness auto
termination by (relation "measure (\<lambda>(attrs, i, _). length attrs - i)") auto

declare scan_rest.simps [simp del]

text \<open>
  MESSAGE-INTEGRITY: the digest of what is written so far goes to the attribute and to the buffer. The check of its position in the source
  never fires, because the scan above leaves the index at the number of attributes or one above. \<open>stk\<close> are the two
  uninitialised contexts on the stack.
\<close>

type_synonym sha_stack = "pj_sha1_context \<times> pj_hmac_sha1_context"

definition stun_hmac :: "sha_stack \<Rightarrow> byte list \<Rightarrow> byte list \<Rightarrow> byte list" where
  "stun_hmac stk key data =
     fst (pj_hmac_sha1_final (pj_hmac_sha1_update (pj_hmac_sha1_init (fst stk) (snd stk) key) data))"

definition encode_msgint ::
  "sha_stack \<Rightarrow> byte list option \<Rightarrow> pj_stun_attr \<Rightarrow> byte list \<Rightarrow> nat \<Rightarrow> 64 word \<Rightarrow>
   (pj_status + pj_stun_attr \<times> byte list \<times> nat \<times> 64 word) option" where
  "encode_msgint stk key attr buf pos buf_size = (case key of
     None \<Rightarrow> Some (Inl PJ_EINVALIDOP)
   | Some k \<Rightarrow> (case at_body attr of
       Msgint_body _ \<Rightarrow> do {
         let hmac = stun_hmac stk k (take pos buf);
         res \<leftarrow> encode_msgint_attr (at_type attr) (at_length attr) hmac buf pos (unat (ucast buf_size :: 32 word));
         Some (map_sum id (\<lambda>(printed, buf). (attr\<lparr>at_body := Msgint_body hmac\<rparr>, buf, pos + printed, buf_size - of_nat printed)) res) }
     | _ \<Rightarrow> None))"

text \<open>FINGERPRINT: the length in the header first grows by the eight bytes of the attribute.\<close>

definition encode_fingerprint ::
  "pj_stun_attr \<Rightarrow> byte list \<Rightarrow> nat \<Rightarrow> 64 word \<Rightarrow> (pj_status + pj_stun_attr \<times> byte list \<times> nat) option" where
  "encode_fingerprint attr buf pos buf_size = (case at_body attr of
     Uint_body _ \<Rightarrow> do {
       l \<leftarrow> GETVAL16H buf 2;
       buf \<leftarrow> PUTVAL16H buf 2 (l + 8);
       let fp = stun_fingerprint (take pos buf);
       res \<leftarrow> encode_uint_attr (at_type attr) fp buf pos (unat (ucast buf_size :: 32 word));
       Some (map_sum id (\<lambda>(printed, buf). (attr\<lparr>at_body := Uint_body fp\<rparr>, buf, pos + printed)) res) }
   | _ \<Rightarrow> None)"

definition encode_hdr :: "pj_stun_msg_hdr \<Rightarrow> byte list \<Rightarrow> byte list option" where
  "encode_hdr hdr buf = do {
     buf \<leftarrow> PUTVAL16H buf 0 (mh_type hdr);
     buf \<leftarrow> PUTVAL16H buf 2 0;
     buf \<leftarrow> PUTVAL32H buf 4 (mh_magic hdr);
     put_bytes buf 8 (mh_tsx_id hdr) }"

text \<open>The part after the scan, with the attributes at the two indices.\<close>

definition encode_trailer ::
  "sha_stack \<Rightarrow> byte list option \<Rightarrow> pj_stun_msg \<Rightarrow> nat option \<Rightarrow> nat option \<Rightarrow> byte list \<Rightarrow> nat \<Rightarrow> 64 word \<Rightarrow>
   (pj_status + byte list \<times> pj_stun_msg \<times> nat) option" where
  "encode_trailer stk key msg amsgint afingerprint buf pos buf_size = do {
     let body_len = (if amsgint \<noteq> None then pos - 20 + 24 else pos - 20);
     buf \<leftarrow> PUTVAL16H buf 2 (of_nat body_len);
     r1 \<leftarrow> (case amsgint of
         None \<Rightarrow> Some (Inr (msg_attrs msg, buf, pos, buf_size))
       | Some i \<Rightarrow> do {
           r \<leftarrow> encode_msgint stk key (msg_attrs msg ! i) buf pos buf_size;
           Some (map_sum id (\<lambda>(attr, rest). ((msg_attrs msg)[i := attr], rest)) r) });
     case r1 of Inl status \<Rightarrow> Some (Inl status)
     | Inr (attrs, buf, pos, buf_size) \<Rightarrow> do {
         r2 \<leftarrow> (case afingerprint of
             None \<Rightarrow> Some (Inr (attrs, buf, pos))
           | Some i \<Rightarrow> do {
               r \<leftarrow> encode_fingerprint (attrs ! i) buf pos buf_size;
               Some (map_sum id (\<lambda>(attr, rest). (attrs[i := attr], rest)) r) });
         Some (map_sum id (\<lambda>(attrs, buf, pos).
           (buf, \<lparr>msg_hdr = (msg_hdr msg)\<lparr>mh_length := of_nat (pos - 20)\<rparr>, msg_attrs = attrs\<rparr>, pos)) r2) } }"

definition pj_stun_msg_encode ::
  "byte \<Rightarrow> sha_stack \<Rightarrow> pj_stun_msg \<Rightarrow> byte list \<Rightarrow> 32 word \<Rightarrow> byte list option \<Rightarrow>
   (pj_status + byte list \<times> pj_stun_msg \<times> nat) option" where
  "pj_stun_msg_encode padding_char stk msg buf options key =
     (if buf = [] then Some (Inl PJ_EINVAL)
      else if options \<noteq> 0 then Some (Inl PJ_EINVAL)
      else if length buf < 20 then Some (Inl PJ_ETOOSMALL)
      else do {
        buf \<leftarrow> encode_hdr (msg_hdr msg) buf;
        res \<leftarrow> encode_attrs padding_char (msg_hdr msg) buf 20 (of_nat (length buf) - 20) (msg_attrs msg);
        case res of Inl status \<Rightarrow> Some (Inl status)
        | Inr (buf, pos, buf_size, rest) \<Rightarrow>
            let i = length (msg_attrs msg) - length rest;
                amsgint = (if rest \<noteq> [] \<and> at_type (hd rest) = PJ_STUN_ATTR_MESSAGE_INTEGRITY then Some i else None);
                afingerprint = (if rest \<noteq> [] \<and> amsgint = None then Some i else None) in
            case scan_rest (msg_attrs msg) (i + 1) amsgint afingerprint of
              Inl status \<Rightarrow> Some (Inl status)
            | Inr (amsgint, afingerprint) \<Rightarrow> encode_trailer stk key msg amsgint afingerprint buf pos buf_size })"

end
