(* ===== verification/StunRoundtrip.thy ===== *)
theory StunRoundtrip
  imports StunMsg
begin

text \<open>
  Encoding and decoding of whole messages against the wire format: a message that is well formed is written as its
  header, the padded attributes and the two checked attributes, and is read back from there.
\<close>

subsection \<open>The wire format of a message\<close>

definition hdr_bytes :: "pj_stun_msg_hdr \<Rightarrow> 16 word \<Rightarrow> byte list" where
  "hdr_bytes hdr len = be_bytes16 (mh_type hdr) @ be_bytes16 len @ be_bytes32 (mh_magic hdr) @ mh_tsx_id hdr"

text \<open>The padding is not always written, so the format leaves it open.\<close>

primrec attrs_wire :: "pj_stun_msg_hdr \<Rightarrow> pj_stun_attr list \<Rightarrow> byte list \<Rightarrow> bool" where
  "attrs_wire hdr [] w \<longleftrightarrow> w = []"
| "attrs_wire hdr (a # as) w \<longleftrightarrow>
     attr_size hdr a \<le> length w \<and> take (length (attr_wire hdr a)) w = attr_wire hdr a \<and> attrs_wire hdr as (drop (attr_size hdr a) w)"

definition attrs_size :: "pj_stun_msg_hdr \<Rightarrow> pj_stun_attr list \<Rightarrow> nat" where
  "attrs_size hdr as = sum_list (map (attr_size hdr) as)"

definition attr_ok :: "pj_stun_msg_hdr \<Rightarrow> pj_stun_attr \<Rightarrow> bool" where
  "attr_ok hdr a \<longleftrightarrow> body_ok (map_option snd (find_attr_desc (unat (at_type a)))) hdr (at_type a) (at_body a) \<and>
     (find_attr_desc (unat (at_type a)) = None \<longrightarrow> 0x7FFF < at_type a)"

definition plain_attr :: "pj_stun_attr \<Rightarrow> bool" where
  "plain_attr a \<longleftrightarrow> at_type a \<noteq> PJ_STUN_ATTR_MESSAGE_INTEGRITY \<and> at_type a \<noteq> PJ_STUN_ATTR_FINGERPRINT"

text \<open>Nothing may follow FINGERPRINT, and MESSAGE-INTEGRITY occurs once; the flags say what was seen before.\<close>

primrec attrs_order :: "bool \<Rightarrow> bool \<Rightarrow> pj_stun_attr list \<Rightarrow> bool" where
  "attrs_order mi fp [] \<longleftrightarrow> True"
| "attrs_order mi fp (a # as) \<longleftrightarrow> \<not> fp \<and> (at_type a = PJ_STUN_ATTR_MESSAGE_INTEGRITY \<longrightarrow> \<not> mi) \<and>
     attrs_order (mi \<or> at_type a = PJ_STUN_ATTR_MESSAGE_INTEGRITY) (at_type a = PJ_STUN_ATTR_FINGERPRINT) as"

lemma length_hdr_bytes [simp]: "length (mh_tsx_id hdr) = 12 \<Longrightarrow> length (hdr_bytes hdr len) = 20"
  by (simp add: hdr_bytes_def)

lemma length_attr_wire: "length (attr_wire hdr a) = 4 + length (attr_value hdr (at_body a))"
  by (simp add: attr_wire_def)

lemma length_attr_wire_le: "length (attr_wire hdr a) \<le> attr_size hdr a"
  by (simp add: length_attr_wire attr_size_def)

lemma attrs_size_simps [simp]:
  "attrs_size hdr [] = 0" "attrs_size hdr (a # as) = attr_size hdr a + attrs_size hdr as"
  "attrs_size hdr (as @ bs) = attrs_size hdr as + attrs_size hdr bs"
  by (simp_all add: attrs_size_def)

lemma length_attrs_wire: "attrs_wire hdr as w \<Longrightarrow> length w = attrs_size hdr as"
  by (induction as arbitrary: w) (auto, metis le_add_diff_inverse length_drop)

lemma attr_size_mod_4: "attr_size hdr a mod 4 = 0"
  using align4_pad(2) [of "length (attr_value hdr (at_body a))"] by (simp add: attr_size_def mod_add_eq [symmetric])

lemma attrs_size_mod_4: "attrs_size hdr as mod 4 = 0"
  by (induction as) (simp_all add: attr_size_mod_4 mod_add_eq [symmetric])

text \<open>The length field of the header plays no role in the attributes.\<close>

lemma wire_of_length [simp]:
  "attr_value (hdr\<lparr>mh_length := l\<rparr>) b = attr_value hdr b"
  by (cases b) (simp_all add: attr_value_def wire_addr_def)

lemma attr_wire_of_length [simp]:
  "attr_wire (hdr\<lparr>mh_length := l\<rparr>) a = attr_wire hdr a" "attr_size (hdr\<lparr>mh_length := l\<rparr>) a = attr_size hdr a"
  "canon_attr (hdr\<lparr>mh_length := l\<rparr>) = canon_attr hdr" "attr_ok (hdr\<lparr>mh_length := l\<rparr>) = attr_ok hdr"
  by (auto simp: fun_eq_iff attr_wire_def attr_size_def canon_attr_def attr_ok_def body_ok_def split: attr_body.splits)

lemma attrs_wire_of_length [simp]: "attrs_wire (hdr\<lparr>mh_length := l\<rparr>) as w = attrs_wire hdr as w"
  by (induction as arbitrary: w) simp_all

lemma attrs_wire_Cons:
  assumes "attrs_wire hdr as v" "length p = attr_size hdr a - length (attr_wire hdr a)"
  shows "attrs_wire hdr (a # as) (attr_wire hdr a @ p @ v)"
  using assms length_attr_wire_le [of hdr a] by simp

lemma attrs_wire_append:
  "attrs_wire hdr as v \<Longrightarrow> attrs_wire hdr bs w \<Longrightarrow> attrs_wire hdr (as @ bs) (v @ w)"
proof (induction as arbitrary: v)
  case (Cons a as)
  then show ?case using length_attr_wire_le [of hdr a] by simp
qed simp

subsection \<open>Decoding\<close>

lemma GETVAL16H_wire:
  "GETVAL16H (attr_wire hdr a @ rest) 0 = Some (at_type a)"
  "GETVAL16H (attr_wire hdr a @ rest) 2 = Some (of_nat (length (attr_value hdr (at_body a))))"
  using GETVAL16H_at [of "[]"] GETVAL16H_at [of "be_bytes16 (at_type a)"] by (simp_all add: wire_rest)

lemma decode_one_wire:
  assumes ok: "attr_ok hdr a" and tsx: "length (mh_tsx_id hdr) = 12" and msg: "msg_hdr msg = hdr" "length (msg_attrs msg) < PJ_STUN_MAX_ATTR"
    and order: "attrs_order mi fp [a]" and size: "attr_size hdr a \<le> pdu_len"
  shows "decode_one strerror want (attr_wire hdr a @ rest) pdu_len msg mi fp =
    Some (Inr (align4 (length (attr_value hdr (at_body a))), msg\<lparr>msg_attrs := msg_attrs msg @ [canon_attr hdr a]\<rparr>,
      mi \<or> at_type a = PJ_STUN_ATTR_MESSAGE_INTEGRITY, at_type a = PJ_STUN_ATTR_FINGERPRINT))"
proof -
  let ?v = "attr_value hdr (at_body a)"
  have "length ?v < 65536" using ok tsx length_attr_value unfolding attr_ok_def by blast
  then have n: "unat (of_nat (length ?v) :: 16 word) = length ?v" by (rule unat_of_nat_16)
  have fits: "\<not> pdu_len < align4 (length ?v)" using size by (simp add: attr_size_def)
  have ne: "PJ_STUN_ATTR_MESSAGE_INTEGRITY \<noteq> PJ_STUN_ATTR_FINGERPRINT"
    by (simp add: PJ_STUN_ATTR_MESSAGE_INTEGRITY_def PJ_STUN_ATTR_FINGERPRINT_def)
  show ?thesis
  proof (cases "find_attr_desc (unat (at_type a))")
    case None
    then obtain d where d: "at_body a = Binary_body PJ_STUN_MAGIC d" and t: "0x7FFF < at_type a"
      using ok by (cases "at_body a") (auto simp: attr_ok_def body_ok_def)
    have "PJ_STUN_ATTR_MESSAGE_INTEGRITY \<noteq> at_type a" "PJ_STUN_ATTR_FINGERPRINT \<noteq> at_type a"
      using None by (auto simp: PJ_STUN_ATTR_MESSAGE_INTEGRITY_def PJ_STUN_ATTR_FINGERPRINT_def find_attr_desc_def mandatory_attr_desc_def
          extended_attr_desc_def PJ_STUN_ATTR_END_MANDATORY_ATTR_def PJ_STUN_ATTR_START_EXTENDED_ATTR_def PJ_STUN_ATTR_END_EXTENDED_ATTR_def)
    moreover have "get_bytes (attr_wire hdr a @ rest) 4 (length d) = Some d" using value_at [of _ _ d] by (simp add: wire_rest d attr_value_def)
    moreover have "length ?v = length d" by (simp add: d attr_value_def)
    moreover have "at_type a \<noteq> 0" "\<not> at_type a \<le> 0x7FFF" using t by auto
    ultimately show ?thesis using None fits msg n d order
      by (cases a) (simp add: decode_one_def GETVAL16H_wire decode_unrecognized_def pj_stun_binary_attr_create_def canon_attr_def INIT_ATTR_def)
  next
    case (Some nk)
    then obtain name k where k: "find_attr_desc (unat (at_type a)) = Some (name, k)" by (cases nk) simp
    have "decode_attr k (attr_wire hdr a @ rest) (msg_hdr msg) = Some (Inr (canon_attr hdr a))"
      unfolding msg using ok tsx k by (intro decode_attr_wire) (auto simp: attr_ok_def)
    then show ?thesis using k fits msg n order ne
      by (auto simp: decode_one_def GETVAL16H_wire decode_recognized_def Let_def)
  qed
qed

lemma decode_attrs_wire:
  assumes "list_all (attr_ok hdr) as" "length (mh_tsx_id hdr) = 12" "msg_hdr msg = hdr"
    and "length (msg_attrs msg) + length as \<le> PJ_STUN_MAX_ATTR" "attrs_order mi fp as" "attrs_wire hdr as w"
    and "drop pos start = w @ rest"
  shows "decode_attrs strerror want start pos (length w) msg mi fp =
    Some (Inr (pos + length w, 0, msg\<lparr>msg_attrs := msg_attrs msg @ map (canon_attr hdr) as\<rparr>))"
  using assms
proof (induction as arbitrary: msg mi fp w pos)
  case Nil
  then show ?case by (simp add: decode_attrs.simps)
next
  case (Cons a as)
  define v where "v = drop (attr_size hdr a) w"
  have w: "attr_size hdr a \<le> length w" "attrs_wire hdr as v" "attr_size hdr a \<ge> 4" "length w = attr_size hdr a + length v"
    using Cons.prems(6) by (simp_all add: v_def attr_size_def)
  have start: "drop pos start = attr_wire hdr a @ (drop (length (attr_wire hdr a)) w @ rest)"
    using Cons.prems(6,7) by simp (metis append_assoc append_take_drop_id)
  let ?msg = "msg\<lparr>msg_attrs := msg_attrs msg @ [canon_attr hdr a]\<rparr>"
  let ?mi = "mi \<or> at_type a = PJ_STUN_ATTR_MESSAGE_INTEGRITY" and ?fp = "at_type a = PJ_STUN_ATTR_FINGERPRINT"
  have step: "decode_one strerror want (drop pos start) (length w) msg mi fp =
      Some (Inr (align4 (length (attr_value hdr (at_body a))), ?msg, ?mi, ?fp))"
    unfolding start using Cons.prems w(1) by (intro decode_one_wire) auto
  have drop: "drop (pos + attr_size hdr a) start = v @ rest"
    using Cons.prems(7) w(1) by (metis add.commute drop_append drop_drop le_eq_less_or_eq diff_is_0_eq drop0 v_def)
  have IH: "decode_attrs strerror want start (pos + attr_size hdr a) (length v) ?msg ?mi ?fp =
      Some (Inr (pos + attr_size hdr a + length v, 0, msg\<lparr>msg_attrs := msg_attrs msg @ map (canon_attr hdr) (a # as)\<rparr>))"
    using Cons.IH [of ?msg ?mi ?fp v "pos + attr_size hdr a"] Cons.prems w(2) drop by simp
  have size: "align4 (length (attr_value hdr (at_body a))) + 4 = attr_size hdr a" by (simp add: attr_size_def)
  show ?case
  proof (cases "v = []")
    case True
    have "decode_attrs strerror want start pos (length w) msg mi fp = decode_attrs strerror want start (pos + length w) 0 ?msg ?mi ?fp"
      using step w True size by (subst decode_attrs.simps) simp
    then show ?thesis using IH True w by simp
  next
    case False
    then have "\<not> attr_size hdr a \<ge> length w" "length w - attr_size hdr a = length v" using w by simp_all
    then have "decode_attrs strerror want start pos (length w) msg mi fp =
        decode_attrs strerror want start (pos + attr_size hdr a) (length v) ?msg ?mi ?fp"
      using step w size by (subst decode_attrs.simps) simp
    then show ?thesis using IH w by simp
  qed
qed

lemma decode_hdr_bytes:
  assumes "length (mh_tsx_id hdr) = 12"
  shows "decode_hdr (hdr_bytes hdr l @ rest) = Some (hdr\<lparr>mh_length := l\<rparr>)"
proof -
  have "GETVAL16H (hdr_bytes hdr l @ rest) 0 = Some (mh_type hdr)" "GETVAL16H (hdr_bytes hdr l @ rest) 2 = Some l"
      "GETVAL32H (hdr_bytes hdr l @ rest) 4 = Some (mh_magic hdr)" "get_bytes (hdr_bytes hdr l @ rest) 8 12 = Some (mh_tsx_id hdr)"
    using GETVAL16H_at [of "[]"] GETVAL16H_at [of "be_bytes16 (mh_type hdr)" l] GETVAL32H_at [of "be_bytes16 (mh_type hdr) @ be_bytes16 l"]
      get_bytes_at [of "be_bytes16 (mh_type hdr) @ be_bytes16 l @ be_bytes32 (mh_magic hdr)" "mh_tsx_id hdr" rest] assms
    by (simp_all add: hdr_bytes_def)
  then show ?thesis by (simp add: decode_hdr_def)
qed

lemma decode_wire:
  assumes "list_all (attr_ok hdr) as" "length (mh_tsx_id hdr) = 12" "length as \<le> PJ_STUN_MAX_ATTR" "attrs_order False False as"
    and w: "attrs_wire hdr as w" "length w < 65536" and check: "options AND PJ_STUN_CHECK_PACKET = 0 \<or>
      pj_stun_msg_check (hdr_bytes hdr (of_nat (length w)) @ w) options = Some PJ_SUCCESS"
  shows "pj_stun_msg_decode strerror (hdr_bytes hdr (of_nat (length w)) @ w) options want =
    Some (Inr (\<lparr>msg_hdr = hdr\<lparr>mh_length := of_nat (length w)\<rparr>, msg_attrs = map (canon_attr hdr) as\<rparr>, 20 + length w))"
proof -
  let ?l = "of_nat (length w) :: 16 word"
  have "decode_attrs strerror want' (hdr_bytes hdr ?l @ w) 20 (length w) \<lparr>msg_hdr = hdr\<lparr>mh_length := ?l\<rparr>, msg_attrs = []\<rparr> False False =
      Some (Inr (20 + length w, 0, \<lparr>msg_hdr = hdr\<lparr>mh_length := ?l\<rparr>, msg_attrs = map (canon_attr hdr) as\<rparr>))" for want'
    using decode_attrs_wire [of "hdr\<lparr>mh_length := ?l\<rparr>" as "\<lparr>msg_hdr = hdr\<lparr>mh_length := ?l\<rparr>, msg_attrs = []\<rparr>" False False w 20
        "hdr_bytes hdr ?l @ w" "[]"] assms by simp
  moreover have "hdr_bytes hdr ?l \<noteq> []" using assms(2) length_hdr_bytes [of hdr ?l] by (metis list.size(3) zero_neq_numeral)
  ultimately show ?thesis using check w(2)
    by (auto simp: pj_stun_msg_decode_def decode_hdr_bytes [OF assms(2)] unat_of_nat_16)
qed

end
