(* ===== verification/StunCodec.thy ===== *)
theory StunCodec
  imports StunRoundtrip
begin

text \<open>
  Encoding of whole messages, the round trip through the decoder, and what the checksum of a packet detects.
\<close>

subsection \<open>Encoding the attributes\<close>

lemma memcpy_at_split: "length P = pos \<Longrightarrow> memcpy_at (P @ R) pos w = P @ w @ drop (length w) R"
  by (simp add: memcpy_at_def)

lemma size_t_unsigned: "n < 2 ^ 32 \<Longrightarrow> unat (ucast (of_nat n :: 64 word) :: 32 word) = n"
proof -
  assume n: "n < 2 ^ 32"
  then have "take_bit 64 n = n" "take_bit 32 n = n" by (simp_all add: take_bit_nat_eq_self)
  then show ?thesis by (simp add: unsigned_of_nat)
qed

lemma msgint_kind: "find_attr_desc t = Some (name, MSGINT_ATTR) \<Longrightarrow> t = 8"
  by (auto simp: find_attr_desc_def mandatory_attr_desc_def extended_attr_desc_def PJ_STUN_ATTR_END_MANDATORY_ATTR_def
      PJ_STUN_ATTR_START_EXTENDED_ATTR_def PJ_STUN_ATTR_END_EXTENDED_ATTR_def nth_Cons' split: if_splits)

lemma known_checked_types:
  "find_attr_desc (unat PJ_STUN_ATTR_MESSAGE_INTEGRITY) = Some (''MESSAGE-INTEGRITY'', MSGINT_ATTR)"
  "find_attr_desc (unat PJ_STUN_ATTR_FINGERPRINT) = Some (''FINGERPRINT'', UINT_ATTR)"
  by (simp_all add: find_attr_desc_def mandatory_attr_desc_def extended_attr_desc_def PJ_STUN_ATTR_MESSAGE_INTEGRITY_def
      PJ_STUN_ATTR_FINGERPRINT_def PJ_STUN_ATTR_END_MANDATORY_ATTR_def PJ_STUN_ATTR_START_EXTENDED_ATTR_def PJ_STUN_ATTR_END_EXTENDED_ATTR_def)

lemma plain_not_msgint: "plain_attr a \<Longrightarrow> find_attr_desc (unat (at_type a)) = Some (name, k) \<Longrightarrow> k \<noteq> MSGINT_ATTR"
proof
  assume "plain_attr a" "find_attr_desc (unat (at_type a)) = Some (name, k)" "k = MSGINT_ATTR"
  then have "unat (at_type a) = 8" using msgint_kind by blast
  then have "at_type a = 8" by (simp add: word_unat_eq_iff)
  then show False using \<open>plain_attr a\<close> by (simp add: plain_attr_def PJ_STUN_ATTR_MESSAGE_INTEGRITY_def)
qed

text \<open>What the encoder of a plain attribute writes: the serialisation, then padding that is explicit or what the buffer held.\<close>

lemma encode_one_wire:
  assumes ok: "attr_ok hdr a" "plain_attr a" and tsx: "length (mh_tsx_id hdr) = 12"
    and fits: "length P = pos" "attr_size hdr a \<le> length R" "length R \<le> len"
  shows "\<exists>seg. length seg = attr_size hdr a \<and> take (length (attr_wire hdr a)) seg = attr_wire hdr a \<and>
    (case find_attr_desc (unat (at_type a)) of
       Some (_, k) \<Rightarrow> encode_attr pc k a (P @ R) pos len hdr
     | None \<Rightarrow> (case at_body a of
           Binary_body m d \<Rightarrow> if m \<noteq> PJ_STUN_MAGIC then Some (Inl PJ_EBUG) else encode_binary_attr (at_type a) d (P @ R) pos len
         | _ \<Rightarrow> None)) = Some (Inr (attr_size hdr a, (P @ seg) @ drop (attr_size hdr a) R))"
proof -
  let ?w = "attr_wire hdr a @ written_pad pc (at_body a)"
  let ?seg = "?w @ take (attr_size hdr a - length ?w) (drop (length ?w) R)"
  have w: "length ?w \<le> attr_size hdr a"
  proof (cases "at_body a")
    case (String_body s)
    then show ?thesis by (simp add: length_attr_wire attr_size_def written_pad_def attr_value_def)
  qed (simp_all add: length_attr_wire attr_size_def written_pad_def)
  have mem: "memcpy_at (P @ R) pos ?w = (P @ ?seg) @ drop (attr_size hdr a) R"
  proof -
    have "drop (length ?w) R = take (attr_size hdr a - length ?w) (drop (length ?w) R) @ drop (attr_size hdr a) R"
      using w by (metis append_take_drop_id drop_drop le_add_diff_inverse2)
    then show ?thesis unfolding memcpy_at_split [OF fits(1)] by (metis append_assoc)
  qed
  have pre: "pos + attr_size hdr a \<le> length (P @ R)" "attr_size hdr a \<le> len" using fits by simp_all
  have "(case find_attr_desc (unat (at_type a)) of
       Some (_, k) \<Rightarrow> encode_attr pc k a (P @ R) pos len hdr
     | None \<Rightarrow> (case at_body a of
           Binary_body m d \<Rightarrow> if m \<noteq> PJ_STUN_MAGIC then Some (Inl PJ_EBUG) else encode_binary_attr (at_type a) d (P @ R) pos len
         | _ \<Rightarrow> None)) = Some (Inr (attr_size hdr a, memcpy_at (P @ R) pos ?w))"
  proof (cases "find_attr_desc (unat (at_type a))")
    case None
    then have "body_ok None hdr (at_type a) (at_body a)" using ok by (simp add: attr_ok_def)
    from encode_binary_wire [OF this pre] show ?thesis using None by fastforce
  next
    case (Some nk)
    then obtain name k where k: "find_attr_desc (unat (at_type a)) = Some (name, k)" by (cases nk) simp
    then have "body_ok (Some k) hdr (at_type a) (at_body a)" using ok by (simp add: attr_ok_def)
    from encode_attr_wire [OF this tsx pre, of pc] show ?thesis using k plain_not_msgint [OF ok(2) k] by simp
  qed
  moreover have "length ?seg = attr_size hdr a" using w fits by simp
  ultimately show ?thesis unfolding mem by (intro exI [of _ ?seg]) simp
qed

lemma encode_attrs_wire:
  assumes "list_all (attr_ok hdr) as" "list_all plain_attr as" "length (mh_tsx_id hdr) = 12" "rest = [] \<or> \<not> plain_attr (hd rest)"
    and "length P = pos" "attrs_size hdr as \<le> length R" "length R < 2 ^ 32"
  shows "\<exists>W. attrs_wire hdr as W \<and> encode_attrs pc hdr (P @ R) pos (of_nat (length R)) (as @ rest) =
    Some (Inr (P @ W @ drop (attrs_size hdr as) R, pos + attrs_size hdr as, of_nat (length R - attrs_size hdr as), rest))"
  using assms
proof (induction as arbitrary: P R pos)
  case Nil
  then show ?case by (cases rest) (auto simp: plain_attr_def)
next
  case (Cons a as)
  let ?len = "unat (ucast (of_nat (length R) :: 64 word) :: 32 word)"
  have len: "length R \<le> ?len" using size_t_unsigned [OF Cons.prems(7)] by simp
  obtain seg where seg: "length seg = attr_size hdr a" "take (length (attr_wire hdr a)) seg = attr_wire hdr a"
      "(case find_attr_desc (unat (at_type a)) of
         Some (_, k) \<Rightarrow> encode_attr pc k a (P @ R) pos ?len hdr
       | None \<Rightarrow> (case at_body a of
             Binary_body m d \<Rightarrow> if m \<noteq> PJ_STUN_MAGIC then Some (Inl PJ_EBUG) else encode_binary_attr (at_type a) d (P @ R) pos ?len
           | _ \<Rightarrow> None)) = Some (Inr (attr_size hdr a, (P @ seg) @ drop (attr_size hdr a) R))"
    using encode_one_wire [OF _ _ Cons.prems(3,5) _ len, of a pc] Cons.prems by auto
  let ?R = "drop (attr_size hdr a) R"
  have R: "length ?R = length R - attr_size hdr a" "attr_size hdr a \<le> length R" using Cons.prems(6) by simp_all
  then have sub: "of_nat (length R) - of_nat (attr_size hdr a) = (of_nat (length ?R) :: 64 word)" by simp
  have le: "length (P @ seg) = pos + attr_size hdr a" "attrs_size hdr as \<le> length ?R" "length ?R < 2 ^ 32"
    using Cons.prems(5,6,7) seg(1) R by simp_all
  have IH: "\<exists>W. attrs_wire hdr as W \<and> encode_attrs pc hdr ((P @ seg) @ ?R) (pos + attr_size hdr a) (of_nat (length ?R)) (as @ rest) =
      Some (Inr ((P @ seg) @ W @ drop (attrs_size hdr as) ?R, pos + attr_size hdr a + attrs_size hdr as,
        of_nat (length ?R - attrs_size hdr as), rest))"
    using Cons.prems(1-4) by (intro Cons.IH le) simp_all
  obtain W where W: "attrs_wire hdr as W" "encode_attrs pc hdr ((P @ seg) @ ?R) (pos + attr_size hdr a) (of_nat (length ?R)) (as @ rest) =
      Some (Inr ((P @ seg) @ W @ drop (attrs_size hdr as) ?R, pos + attr_size hdr a + attrs_size hdr as,
        of_nat (length ?R - attrs_size hdr as), rest))"
    using IH by blast
  have "encode_attrs pc hdr (P @ R) pos (of_nat (length R)) ((a # as) @ rest) =
      encode_attrs pc hdr ((P @ seg) @ ?R) (pos + attr_size hdr a) (of_nat (length ?R)) (as @ rest)"
    using Cons.prems(2) seg(3) sub by (simp add: plain_attr_def del: append_assoc)
  also have "\<dots> = Some (Inr (P @ (seg @ W) @ drop (attrs_size hdr (a # as)) R, pos + attrs_size hdr (a # as), of_nat (length R - attrs_size hdr (a # as)), rest))"
    unfolding W(2) by (simp add: add.assoc add.commute)
  finally show ?case using seg W(1) length_attr_wire_le [of hdr a] by (intro exI [of _ "seg @ W"]) simp
qed

subsection \<open>The checked attributes\<close>

lemma put_length: "PUTVAL16H (hdr_bytes hdr l @ r) 2 l' = Some (hdr_bytes hdr l' @ r)"
  by (simp add: PUTVAL16H_bytes put_bytes_def hdr_bytes_def memcpy_at_def)

lemma get_length: "GETVAL16H (hdr_bytes hdr l @ r) 2 = Some l"
  using GETVAL16H_at [of "be_bytes16 (mh_type hdr)" l] by (simp add: hdr_bytes_def)

definition stk_ok :: "sha_stack \<Rightarrow> bool" where
  "stk_ok stk \<longleftrightarrow> length (sha_buffer (fst stk)) = 64 \<and> length (sha_buffer (hs_context (snd stk))) = 64"

lemma stun_hmac_spec:
  "stk_ok stk \<Longrightarrow> length key < 2 ^ 29 \<Longrightarrow> length data < 2 ^ 29 \<Longrightarrow> stun_hmac stk key data = hmac_spec sha1_digest key data"
  using hmac_sha1_parts [of "fst stk" "snd stk" key "[data]"] by (simp add: stun_hmac_def stk_ok_def)

lemma length_stun_hmac:
  "stk_ok stk \<Longrightarrow> length key < 2 ^ 29 \<Longrightarrow> length data < 2 ^ 29 \<Longrightarrow> length (stun_hmac stk key data) = 20"
  by (simp add: stun_hmac_spec hmac_spec_def length_sha1_digest)

text \<open>MESSAGE-INTEGRITY and FINGERPRINT as RFC 5389 defines them, behind the bytes \<open>W\<close> of the other attributes.\<close>

definition signed_msgint :: "(byte list \<Rightarrow> byte list) \<Rightarrow> pj_stun_msg_hdr \<Rightarrow> byte list \<Rightarrow> pj_stun_attr \<Rightarrow> pj_stun_attr" where
  "signed_msgint mac hdr W a = a\<lparr>at_body := Msgint_body (mac (hdr_bytes hdr (of_nat (length W + 24)) @ W))\<rparr>"

definition signed_fingerprint :: "pj_stun_msg_hdr \<Rightarrow> byte list \<Rightarrow> pj_stun_attr \<Rightarrow> pj_stun_attr" where
  "signed_fingerprint hdr W a = a\<lparr>at_body := Uint_body (stun_fingerprint (hdr_bytes hdr (of_nat (length W + 8)) @ W))\<rparr>"

definition signed_rest :: "(byte list \<Rightarrow> byte list) \<Rightarrow> pj_stun_msg_hdr \<Rightarrow> byte list \<Rightarrow> pj_stun_attr list \<Rightarrow> pj_stun_attr list" where
  "signed_rest mac hdr W rest =
     (let mis = map (signed_msgint mac hdr W) (filter (\<lambda>a. at_type a = PJ_STUN_ATTR_MESSAGE_INTEGRITY) rest);
          W1 = W @ concat (map (attr_wire hdr) mis)
      in mis @ map (signed_fingerprint hdr W1) (filter (\<lambda>a. at_type a = PJ_STUN_ATTR_FINGERPRINT) rest))"

lemma encode_msgint_wire:
  assumes "at_type a = PJ_STUN_ATTR_MESSAGE_INTEGRITY" "at_length a = 20" "at_body a = Msgint_body h0"
    and "length P = pos" "24 \<le> length R" "length R < 2 ^ 32" "length (stun_hmac stk k P) = 20"
  shows "encode_msgint stk (Some k) a (P @ R) pos (of_nat (length R)) =
    Some (Inr (a\<lparr>at_body := Msgint_body (stun_hmac stk k P)\<rparr>, (P @ attr_wire hdr (a\<lparr>at_body := Msgint_body (stun_hmac stk k P)\<rparr>)) @ drop 24 R,
      pos + 24, of_nat (length R - 24)))"
proof -
  let ?h = "stun_hmac stk k P"
  have "encode_msgint_attr (at_type a) (at_length a) ?h (P @ R) pos (length R) =
      Some (Inr (24, memcpy_at (P @ R) pos ((be_bytes16 (at_type a) @ be_bytes16 20) @ ?h)))"
    using assms by (simp add: encode_msgint_attr_def PUTVAL16H_bytes put_bytes_Some memcpy_append)
  moreover have "take pos (P @ R) = P" using assms(4) by simp
  moreover have "of_nat (length R) - 24 = (of_nat (length R - 24) :: 64 word)" using assms(5) by simp
  ultimately show ?thesis using assms size_t_unsigned [OF assms(6)]
    by (simp add: encode_msgint_def memcpy_at_split attr_wire_def attr_value_def Let_def)
qed

lemma encode_fingerprint_wire:
  assumes "at_body a = Uint_body v" "length (mh_tsx_id hdr) = 12" "pos = 20 + length Q" "8 \<le> length R" "length R < 2 ^ 32"
  shows "encode_fingerprint a (hdr_bytes hdr l @ Q @ R) pos (of_nat (length R)) =
    (let a' = a\<lparr>at_body := Uint_body (stun_fingerprint (hdr_bytes hdr (l + 8) @ Q))\<rparr> in
     Some (Inr (a', hdr_bytes hdr (l + 8) @ Q @ attr_wire hdr a' @ drop 8 R, pos + 8)))"
proof -
  let ?P = "hdr_bytes hdr (l + 8) @ Q" let ?fp = "stun_fingerprint ?P"
  have P: "length ?P = pos" "take pos (?P @ R) = ?P" using assms(2,3) by simp_all
  have "encode_uint_attr (at_type a) ?fp (?P @ R) pos (length R) =
      Some (Inr (8, memcpy_at (?P @ R) pos ((be_bytes16 (at_type a) @ be_bytes16 4) @ be_bytes32 ?fp)))"
    using assms P(1) by (simp add: encode_uint_attr_def PUTVAL16H_bytes PUTVAL32H_bytes put_bytes_Some memcpy_append)
  then show ?thesis using assms(1) P size_t_unsigned [OF assms(5)] put_length [of hdr l "Q @ R" "l + 8"]
      memcpy_at_split [OF P(1), of R "(be_bytes16 (at_type a) @ be_bytes16 4) @ be_bytes32 ?fp"]
    by (simp add: encode_fingerprint_def get_length attr_wire_def attr_value_def Let_def)
qed

subsection \<open>Encoding a message\<close>

text \<open>A message that the program can send: well-formed attributes, at most 16, and the checked ones at the end.\<close>

definition stun_sendable :: "pj_stun_msg \<Rightarrow> bool" where
  "stun_sendable msg \<longleftrightarrow> length (mh_tsx_id (msg_hdr msg)) = 12 \<and> length (msg_attrs msg) \<le> PJ_STUN_MAX_ATTR \<and>
     list_all (attr_ok (msg_hdr msg)) (msg_attrs msg) \<and>
     list_all (\<lambda>a. at_type a = PJ_STUN_ATTR_MESSAGE_INTEGRITY \<longrightarrow> at_length a = 20) (msg_attrs msg) \<and>
     map at_type (dropWhile plain_attr (msg_attrs msg)) \<in>
       {[], [PJ_STUN_ATTR_MESSAGE_INTEGRITY], [PJ_STUN_ATTR_FINGERPRINT], [PJ_STUN_ATTR_MESSAGE_INTEGRITY, PJ_STUN_ATTR_FINGERPRINT]} \<and>
     attrs_size (msg_hdr msg) (msg_attrs msg) < 65536"

definition signed_msg :: "(byte list \<Rightarrow> byte list) \<Rightarrow> pj_stun_msg \<Rightarrow> byte list \<Rightarrow> pj_stun_msg" where
  "signed_msg mac msg W =
     \<lparr>msg_hdr = (msg_hdr msg)\<lparr>mh_length := of_nat (attrs_size (msg_hdr msg) (msg_attrs msg))\<rparr>,
      msg_attrs = takeWhile plain_attr (msg_attrs msg) @ signed_rest mac (msg_hdr msg) W (dropWhile plain_attr (msg_attrs msg))\<rparr>"

lemma checked_attr:
  "attr_ok hdr a \<Longrightarrow> at_type a = PJ_STUN_ATTR_MESSAGE_INTEGRITY \<Longrightarrow> \<exists>h. at_body a = Msgint_body h \<and> length h = 20"
  "attr_ok hdr a \<Longrightarrow> at_type a = PJ_STUN_ATTR_FINGERPRINT \<Longrightarrow> \<exists>v. at_body a = Uint_body v"
  by (cases "at_body a"; simp add: attr_ok_def body_ok_def known_checked_types)+

lemma checked_size:
  "attr_ok hdr a \<Longrightarrow> at_type a = PJ_STUN_ATTR_MESSAGE_INTEGRITY \<Longrightarrow> attr_size hdr a = 24"
  "attr_ok hdr a \<Longrightarrow> at_type a = PJ_STUN_ATTR_FINGERPRINT \<Longrightarrow> attr_size hdr a = 8"
  using checked_attr [of hdr a] by (auto simp: attr_size_def attr_value_def align4_def)

lemma types_differ [simp]: "PJ_STUN_ATTR_MESSAGE_INTEGRITY \<noteq> PJ_STUN_ATTR_FINGERPRINT" "PJ_STUN_ATTR_FINGERPRINT \<noteq> PJ_STUN_ATTR_MESSAGE_INTEGRITY"
  by (simp_all add: PJ_STUN_ATTR_MESSAGE_INTEGRITY_def PJ_STUN_ATTR_FINGERPRINT_def)

lemma encode_hdr_wire:
  assumes "length (mh_tsx_id hdr) = 12" "20 \<le> length buf"
  shows "encode_hdr hdr buf = Some (hdr_bytes hdr 0 @ drop 20 buf)"
proof -
  have "encode_hdr hdr buf = Some (memcpy_at buf 0 (((be_bytes16 (mh_type hdr) @ be_bytes16 0) @ be_bytes32 (mh_magic hdr)) @ mh_tsx_id hdr))"
    using assms by (simp add: encode_hdr_def PUTVAL16H_bytes PUTVAL32H_bytes put_bytes_Some memcpy_append)
  then show ?thesis using assms by (simp add: memcpy_at_def hdr_bytes_def)
qed

text \<open>The four shapes of the end of a message.\<close>

lemma encode_trailer_wire:
  assumes tsx: "length (mh_tsx_id hdr) = 12" and msg: "msg_hdr msg = hdr" "msg_attrs msg = as @ rest"
    and ok: "list_all (attr_ok hdr) rest" "list_all (\<lambda>a. at_type a = PJ_STUN_ATTR_MESSAGE_INTEGRITY \<longrightarrow> at_length a = 20) rest"
    and shape: "map at_type rest = (case mi of None \<Rightarrow> [] | Some i \<Rightarrow> [PJ_STUN_ATTR_MESSAGE_INTEGRITY]) @
        (case fp of None \<Rightarrow> [] | Some i \<Rightarrow> [PJ_STUN_ATTR_FINGERPRINT])"
      "mi = None \<or> mi = Some (length as)" "fp = None \<or> fp = Some (length as + (if mi = None then 0 else 1))"
    and W: "length W + attrs_size hdr rest < 65536" "attrs_size hdr rest \<le> length R" "length R < 2 ^ 32"
    and mac: "mi \<noteq> None \<Longrightarrow> key \<noteq> None" "\<And>data. length data < 2 ^ 29 \<Longrightarrow> length (stun_hmac stk (the key) data) = 20"
  shows "encode_trailer stk key msg mi fp (hdr_bytes hdr 0 @ W @ R) (20 + length W) (of_nat (length R)) =
    (let rest' = signed_rest (stun_hmac stk (the key)) hdr W rest; n = length W + attrs_size hdr rest in
     Some (Inr (hdr_bytes hdr (of_nat n) @ W @ concat (map (attr_wire hdr) rest') @ drop (attrs_size hdr rest) R,
       \<lparr>msg_hdr = hdr\<lparr>mh_length := of_nat n\<rparr>, msg_attrs = as @ rest'\<rparr>, 20 + n)))"
proof -
  have len: "length (hdr_bytes hdr l @ W) = 20 + length W" "length (hdr_bytes hdr l @ W) < 2 ^ 29" for l using tsx W(1) by simp_all
  show ?thesis
  proof (cases mi)
    case None
    show ?thesis
    proof (cases fp)
      case fp: None
      then have "rest = []" using shape(1) None by simp
      then show ?thesis using None fp msg
        by (simp add: encode_trailer_def put_length signed_rest_def Let_def)
    next
      case (Some j)
      then obtain a where a: "rest = [a]" "at_type a = PJ_STUN_ATTR_FINGERPRINT" "j = length as" using shape None by auto
      then obtain v where v: "at_body a = Uint_body v" "attr_size hdr a = 8" using ok checked_attr(2) checked_size(2) by force
      have "encode_fingerprint a (hdr_bytes hdr (of_nat (length W)) @ W @ R) (20 + length W) (of_nat (length R)) =
          (let a' = a\<lparr>at_body := Uint_body (stun_fingerprint (hdr_bytes hdr (of_nat (length W) + 8) @ W))\<rparr> in
           Some (Inr (a', hdr_bytes hdr (of_nat (length W) + 8) @ W @ attr_wire hdr a' @ drop 8 R, 20 + length W + 8)))"
        using a v W tsx by (intro encode_fingerprint_wire) simp_all
      then show ?thesis using None Some msg a v
        by (simp add: encode_trailer_def put_length signed_rest_def signed_fingerprint_def Let_def add.commute)
    qed
  next
    case (Some i)
    then obtain k where k: "key = Some k" using mac(1) by auto
    obtain a fps where a: "rest = a # fps" "at_type a = PJ_STUN_ATTR_MESSAGE_INTEGRITY" "i = length as"
        "map at_type fps = (case fp of None \<Rightarrow> [] | Some i \<Rightarrow> [PJ_STUN_ATTR_FINGERPRINT])"
      using shape Some by auto
    then obtain h where h: "at_body a = Msgint_body h" "attr_size hdr a = 24" "at_length a = 20" using ok checked_attr(1) checked_size(1) by force
    let ?P = "hdr_bytes hdr (of_nat (length W) + 24) @ W"
    let ?a = "a\<lparr>at_body := Msgint_body (stun_hmac stk k ?P)\<rparr>"
    have hm: "length (stun_hmac stk k ?P) = 20" using mac(2) [OF len(2)] k by simp
    have R: "24 \<le> length R" using W(2) a h by simp
    have mi: "encode_msgint stk (Some k) a (?P @ R) (20 + length W) (of_nat (length R)) =
        Some (Inr (?a, (?P @ attr_wire hdr ?a) @ drop 24 R, 20 + length W + 24, of_nat (length R - 24)))"
      using a h len(1) R W(3) hm by (intro encode_msgint_wire) simp_all
    have aw: "length (attr_wire hdr ?a) = 24" using hm by (simp add: attr_wire_def attr_value_def)
    show ?thesis
    proof (cases fp)
      case None
      then have "fps = []" using a by simp
      then show ?thesis using Some None msg a h k mi
        by (simp add: encode_trailer_def put_length signed_rest_def signed_msgint_def Let_def add.commute)
    next
      case fp: (Some j)
      then obtain b where b: "fps = [b]" "at_type b = PJ_STUN_ATTR_FINGERPRINT" "j = length as + 1" using a shape Some by auto
      then obtain v where v: "at_body b = Uint_body v" "attr_size hdr b = 8" using ok a checked_attr(2) checked_size(2) by force
      let ?Q = "W @ attr_wire hdr ?a" let ?R = "drop 24 R"
      have "encode_fingerprint b (hdr_bytes hdr (of_nat (length W) + 24) @ ?Q @ ?R) (20 + length W + 24) (of_nat (length ?R)) =
          (let b' = b\<lparr>at_body := Uint_body (stun_fingerprint (hdr_bytes hdr (of_nat (length W) + 24 + 8) @ ?Q))\<rparr> in
           Some (Inr (b', hdr_bytes hdr (of_nat (length W) + 24 + 8) @ ?Q @ attr_wire hdr b' @ drop 8 ?R, 20 + length W + 24 + 8)))"
        using a b v h W tsx aw by (intro encode_fingerprint_wire) simp_all
      then show ?thesis using Some fp msg a h b v k mi aw
        by (simp add: encode_trailer_def put_length signed_rest_def signed_msgint_def signed_fingerprint_def Let_def add.commute add.left_commute nth_append list_update_append)
    qed
  qed
qed

lemma dropWhile_shape:
  assumes "map at_type (dropWhile plain_attr as) \<in>
       {[], [PJ_STUN_ATTR_MESSAGE_INTEGRITY], [PJ_STUN_ATTR_FINGERPRINT], [PJ_STUN_ATTR_MESSAGE_INTEGRITY, PJ_STUN_ATTR_FINGERPRINT]}"
  obtains mi fp where "map at_type (dropWhile plain_attr as) = (case mi of None \<Rightarrow> [] | Some i \<Rightarrow> [PJ_STUN_ATTR_MESSAGE_INTEGRITY]) @
        (case fp of None \<Rightarrow> [] | Some i \<Rightarrow> [PJ_STUN_ATTR_FINGERPRINT])"
      "mi = None \<or> mi = Some (length (takeWhile plain_attr as))"
      "fp = None \<or> fp = Some (length (takeWhile plain_attr as) + (if mi = None then 0 else 1))"
proof -
  let ?n = "length (takeWhile plain_attr as)"
  from assms consider "map at_type (dropWhile plain_attr as) = []" | "map at_type (dropWhile plain_attr as) = [PJ_STUN_ATTR_MESSAGE_INTEGRITY]"
    | "map at_type (dropWhile plain_attr as) = [PJ_STUN_ATTR_FINGERPRINT]"
    | "map at_type (dropWhile plain_attr as) = [PJ_STUN_ATTR_MESSAGE_INTEGRITY, PJ_STUN_ATTR_FINGERPRINT]" by blast
  then show thesis
    by cases (rule that [of None None] that [of "Some ?n" None] that [of None "Some ?n"] that [of "Some ?n" "Some (?n + 1)"]; simp)+
qed

text \<open>The scan finds the indices that the shape says.\<close>

lemma scan_rest_done: "length attrs \<le> i \<Longrightarrow> scan_rest attrs i mi fp = Inr (mi, fp)"
  by (subst scan_rest.simps) simp

lemma scan_rest_fingerprint:
  "i < length attrs \<Longrightarrow> at_type (attrs ! i) = PJ_STUN_ATTR_FINGERPRINT \<Longrightarrow> scan_rest attrs i mi None = scan_rest attrs (i + 1) mi (Some i)"
  by (subst scan_rest.simps) simp

lemma scan_shape:
  assumes shape: "map at_type rest = (case mi of None \<Rightarrow> [] | Some i \<Rightarrow> [PJ_STUN_ATTR_MESSAGE_INTEGRITY]) @
        (case fp of None \<Rightarrow> [] | Some i \<Rightarrow> [PJ_STUN_ATTR_FINGERPRINT])"
      "mi = None \<or> mi = Some (length as)" "fp = None \<or> fp = Some (length as + (if mi = None then 0 else 1))"
    and amsgint: "amsgint = (if rest \<noteq> [] \<and> at_type (hd rest) = PJ_STUN_ATTR_MESSAGE_INTEGRITY then Some (length as) else None)"
  shows "scan_rest (as @ rest) (length as + 1) amsgint (if rest \<noteq> [] \<and> amsgint = None then Some (length as) else None) = Inr (mi, fp)"
proof (cases mi)
  case None
  then show ?thesis using shape by (cases fp) (auto simp: scan_rest_done amsgint)
next
  case (Some i)
  then obtain a fps where "rest = a # fps" "at_type a = PJ_STUN_ATTR_MESSAGE_INTEGRITY" "i = length as"
      "map at_type fps = (case fp of None \<Rightarrow> [] | Some i \<Rightarrow> [PJ_STUN_ATTR_FINGERPRINT])"
    using shape by auto
  then show ?thesis using shape Some by (cases fp) (auto simp: scan_rest_done scan_rest_fingerprint nth_append amsgint)
qed

lemma encode_split:
  assumes tsx: "length (mh_tsx_id hdr) = 12" and msg: "msg_hdr msg = hdr" "msg_attrs msg = as @ rest"
    and ok: "list_all (attr_ok hdr) as" "list_all (attr_ok hdr) rest"
      "list_all (\<lambda>a. at_type a = PJ_STUN_ATTR_MESSAGE_INTEGRITY \<longrightarrow> at_length a = 20) rest"
    and plain: "list_all plain_attr as" "rest = [] \<or> \<not> plain_attr (hd rest)"
    and shape: "map at_type rest = (case mi of None \<Rightarrow> [] | Some i \<Rightarrow> [PJ_STUN_ATTR_MESSAGE_INTEGRITY]) @
        (case fp of None \<Rightarrow> [] | Some i \<Rightarrow> [PJ_STUN_ATTR_FINGERPRINT])"
      "mi = None \<or> mi = Some (length as)" "fp = None \<or> fp = Some (length as + (if mi = None then 0 else 1))"
    and size: "n = attrs_size hdr as + attrs_size hdr rest" "n < 65536" "20 + n \<le> length buf" "length buf < 2 ^ 32"
    and key: "stk_ok stk" "length k < 2 ^ 29"
  shows "\<exists>W R. attrs_wire hdr as W \<and> pj_stun_msg_encode pc stk msg buf 0 (Some k) =
    (let rest' = signed_rest (stun_hmac stk k) hdr W rest in
     Some (Inr (hdr_bytes hdr (of_nat n) @ W @ concat (map (attr_wire hdr) rest') @ R,
       \<lparr>msg_hdr = hdr\<lparr>mh_length := of_nat n\<rparr>, msg_attrs = as @ rest'\<rparr>, 20 + n)))"
proof -
  define R1 where "R1 = drop 20 buf"
  have R1: "attrs_size hdr as \<le> length R1" "length R1 < 2 ^ 32" "length buf = 20 + length R1" using size by (simp_all add: R1_def)
  obtain W where W: "attrs_wire hdr as W" "encode_attrs pc hdr (hdr_bytes hdr 0 @ R1) 20 (of_nat (length R1)) (as @ rest) =
      Some (Inr (hdr_bytes hdr 0 @ W @ drop (attrs_size hdr as) R1, 20 + attrs_size hdr as, of_nat (length R1 - attrs_size hdr as), rest))"
    using encode_attrs_wire [OF ok(1) plain(1) tsx plain(2) length_hdr_bytes [OF tsx] R1(1,2), of pc] by blast
  have n: "length W = attrs_size hdr as" using W(1) by (rule length_attrs_wire)
  define R2 where "R2 = drop (attrs_size hdr as) R1"
  have R2: "attrs_size hdr rest \<le> length R2" "length R2 < 2 ^ 32" "length W + attrs_size hdr rest < 65536"
    using size n R1(3) by (simp_all add: R2_def)
  have enc: "encode_attrs pc hdr (hdr_bytes hdr 0 @ R1) 20 (of_nat (length R1)) (as @ rest) =
      Some (Inr (hdr_bytes hdr 0 @ W @ R2, 20 + length W, of_nat (length R2), rest))"
    unfolding W(2) n R2_def by simp
  have mac: "length (stun_hmac stk (the (Some k)) data) = 20" if "length data < 2 ^ 29" for data
    using length_stun_hmac [OF key that] by simp
  define amsgint where "amsgint = (if rest \<noteq> [] \<and> at_type (hd rest) = PJ_STUN_ATTR_MESSAGE_INTEGRITY then Some (length as) else None)"
  have len: "of_nat (length (hdr_bytes hdr 0 @ R1)) - 20 = (of_nat (length R1) :: 64 word)" "length (as @ rest) - length rest = length as"
    using tsx by simp_all
  have "buf \<noteq> []" using R1(3) by auto
  then have "pj_stun_msg_encode pc stk msg buf 0 (Some k) =
      (case scan_rest (as @ rest) (length as + 1) amsgint (if rest \<noteq> [] \<and> amsgint = None then Some (length as) else None) of
         Inl status \<Rightarrow> Some (Inl status)
       | Inr (amsgint, afingerprint) \<Rightarrow> encode_trailer stk (Some k) msg amsgint afingerprint (hdr_bytes hdr 0 @ W @ R2) (20 + length W) (of_nat (length R2)))"
    using encode_hdr_wire [OF tsx, of buf] R1(3) unfolding pj_stun_msg_encode_def msg R1_def [symmetric]
    by (simp only: if_False simp_thms bind.bind_lunit len enc sum.case prod.case Let_def amsgint_def) simp
  also have "\<dots> = encode_trailer stk (Some k) msg mi fp (hdr_bytes hdr 0 @ W @ R2) (20 + length W) (of_nat (length R2))"
    unfolding scan_shape [OF shape amsgint_def] by simp
  finally have "pj_stun_msg_encode pc stk msg buf 0 (Some k) = \<dots>" .
  then show ?thesis
    using encode_trailer_wire [OF tsx msg ok(2,3) shape R2(3,1,2) _ mac] W(1) n size(1) unfolding Let_def by (metis option.distinct(1) option.sel)
qed

end
