(* ===== verification/StunProps.thy ===== *)
theory StunProps
  imports StunCodec
begin

text \<open>
  The contract of the STUN codec: what is sent is read back, and FINGERPRINT and MESSAGE-INTEGRITY protect it.
\<close>

subsection \<open>Signed messages\<close>

lemma signed_rest_shape:
  assumes "map at_type rest \<in> {[], [PJ_STUN_ATTR_MESSAGE_INTEGRITY], [PJ_STUN_ATTR_FINGERPRINT], [PJ_STUN_ATTR_MESSAGE_INTEGRITY, PJ_STUN_ATTR_FINGERPRINT]}"
  shows "map at_type (signed_rest mac hdr W rest) = map at_type rest"
  using assms by (auto simp: signed_rest_def signed_msgint_def signed_fingerprint_def Let_def map_eq_Cons_conv)

lemma signed_rest_ok:
  assumes "\<And>data. length data = 20 + length W \<Longrightarrow> length (mac data) = 20" "length (mh_tsx_id hdr) = 12"
  shows "list_all (attr_ok hdr) (signed_rest mac hdr W rest)"
proof -
  have "length (hdr_bytes hdr l @ W) = 20 + length W" for l using assms(2) by simp
  then show ?thesis using assms(1)
    by (auto simp: list_all_iff signed_rest_def Let_def signed_msgint_def signed_fingerprint_def attr_ok_def body_ok_def known_checked_types)
qed

text \<open>The checked attributes need no padding, so their bytes are the wire format.\<close>

lemma checked_wire:
  assumes "list_all (\<lambda>a. length (attr_wire hdr a) = attr_size hdr a) as"
  shows "attrs_wire hdr as (concat (map (attr_wire hdr) as))"
  using assms
proof (induction as)
  case (Cons a as)
  then show ?case using attrs_wire_Cons [of hdr as "concat (map (attr_wire hdr) as)" "[]" a] by simp
qed simp

lemma signed_rest_exact:
  assumes "\<And>data. length data = 20 + length W \<Longrightarrow> length (mac data) = 20" "length (mh_tsx_id hdr) = 12"
  shows "list_all (\<lambda>a. length (attr_wire hdr a) = attr_size hdr a) (signed_rest mac hdr W rest)"
proof -
  have "length (hdr_bytes hdr l @ W) = 20 + length W" for l using assms(2) by simp
  then show ?thesis using assms(1)
    by (auto simp: list_all_iff signed_rest_def Let_def signed_msgint_def signed_fingerprint_def length_attr_wire attr_size_def attr_value_def align4_def)
qed

lemma signed_rest_cong:
  assumes "length (mh_tsx_id hdr) = 12" "\<And>data. length data = 20 + length W \<Longrightarrow> mac data = mac' data"
  shows "signed_rest mac hdr W rest = signed_rest mac' hdr W rest"
proof -
  have "signed_msgint mac hdr W = signed_msgint mac' hdr W" using assms by (simp add: fun_eq_iff signed_msgint_def)
  then show ?thesis by (simp add: signed_rest_def)
qed

lemma order_plain:
  assumes "list_all plain_attr as" "attrs_order False False rest"
  shows "attrs_order False False (as @ rest)"
  using assms by (induction as) (auto simp: plain_attr_def)

lemma order_shape:
  assumes "map at_type rest \<in> {[], [PJ_STUN_ATTR_MESSAGE_INTEGRITY], [PJ_STUN_ATTR_FINGERPRINT], [PJ_STUN_ATTR_MESSAGE_INTEGRITY, PJ_STUN_ATTR_FINGERPRINT]}"
  shows "attrs_order False False rest"
  using assms by (auto simp: map_eq_Cons_conv)

text \<open>What a sendable message consists of.\<close>

lemma stun_sendableE:
  assumes "stun_sendable msg"
  obtains as rest mi fp where "msg_attrs msg = as @ rest" "as = takeWhile plain_attr (msg_attrs msg)" "rest = dropWhile plain_attr (msg_attrs msg)"
    "length (mh_tsx_id (msg_hdr msg)) = 12" "list_all (attr_ok (msg_hdr msg)) as" "list_all (attr_ok (msg_hdr msg)) rest"
    "list_all (\<lambda>a. at_type a = PJ_STUN_ATTR_MESSAGE_INTEGRITY \<longrightarrow> at_length a = 20) rest"
    "list_all plain_attr as" "rest = [] \<or> \<not> plain_attr (hd rest)"
    "map at_type rest = (case mi of None \<Rightarrow> [] | Some i \<Rightarrow> [PJ_STUN_ATTR_MESSAGE_INTEGRITY]) @
        (case fp of None \<Rightarrow> [] | Some i \<Rightarrow> [PJ_STUN_ATTR_FINGERPRINT])"
    "mi = None \<or> mi = Some (length as)" "fp = None \<or> fp = Some (length as + (if mi = None then 0 else 1))"
    "attrs_size (msg_hdr msg) (msg_attrs msg) = attrs_size (msg_hdr msg) as + attrs_size (msg_hdr msg) rest"
proof -
  let ?as = "takeWhile plain_attr (msg_attrs msg)" and ?rest = "dropWhile plain_attr (msg_attrs msg)"
  have m: "map at_type ?rest \<in> {[], [PJ_STUN_ATTR_MESSAGE_INTEGRITY], [PJ_STUN_ATTR_FINGERPRINT], [PJ_STUN_ATTR_MESSAGE_INTEGRITY, PJ_STUN_ATTR_FINGERPRINT]}"
    using assms unfolding stun_sendable_def by blast
  obtain mi fp where shape: "map at_type ?rest = (case mi of None \<Rightarrow> [] | Some i \<Rightarrow> [PJ_STUN_ATTR_MESSAGE_INTEGRITY]) @
        (case fp of None \<Rightarrow> [] | Some i \<Rightarrow> [PJ_STUN_ATTR_FINGERPRINT])"
      "mi = None \<or> mi = Some (length ?as)" "fp = None \<or> fp = Some (length ?as + (if mi = None then 0 else 1))"
    by (rule dropWhile_shape [OF m])
  have split: "msg_attrs msg = ?as @ ?rest" by simp
  have all: "list_all P ?as" "list_all P ?rest" if "list_all P (msg_attrs msg)" for P
    using that by (auto simp: list_all_iff dest: set_takeWhileD set_dropWhileD)
  have size: "attrs_size (msg_hdr msg) (msg_attrs msg) = attrs_size (msg_hdr msg) ?as + attrs_size (msg_hdr msg) ?rest"
    using attrs_size_simps(3) [of "msg_hdr msg" ?as ?rest] by (simp only: split [symmetric])
  have plain: "list_all plain_attr ?as" "?rest = [] \<or> \<not> plain_attr (hd ?rest)"
    using hd_dropWhile [of plain_attr "msg_attrs msg"] by (auto simp only: list_all_iff dest: set_takeWhileD)
  have tsx: "length (mh_tsx_id (msg_hdr msg)) = 12" and ok: "list_all (attr_ok (msg_hdr msg)) (msg_attrs msg)"
    "list_all (\<lambda>a. at_type a = PJ_STUN_ATTR_MESSAGE_INTEGRITY \<longrightarrow> at_length a = 20) (msg_attrs msg)"
    using assms by (simp_all add: stun_sendable_def)
  show thesis by (rule that [OF split refl refl tsx all [OF ok(1)] all(2) [OF ok(2)] plain shape size])
qed

text \<open>The packet of a sendable message, as the codec writes it.\<close>

lemma encode_sendable:
  assumes send: "stun_sendable msg" and buf: "20 + attrs_size (msg_hdr msg) (msg_attrs msg) \<le> length buf" "length buf < 2 ^ 32"
    and key: "stk_ok stk" "length k < 2 ^ 29"
  obtains as rest rest' W out where "as = takeWhile plain_attr (msg_attrs msg)" "rest = dropWhile plain_attr (msg_attrs msg)"
    "rest' = signed_rest (hmac_spec sha1_digest k) (msg_hdr msg) W rest" "attrs_wire (msg_hdr msg) as W"
    "pj_stun_msg_encode pc stk msg buf 0 (Some k) =
      Some (Inr (out, \<lparr>msg_hdr = (msg_hdr msg)\<lparr>mh_length := of_nat (attrs_size (msg_hdr msg) (msg_attrs msg))\<rparr>, msg_attrs = as @ rest'\<rparr>,
        20 + attrs_size (msg_hdr msg) (msg_attrs msg)))"
    "attrs_wire (msg_hdr msg) (as @ rest') (W @ concat (map (attr_wire (msg_hdr msg)) rest'))"
    "list_all (attr_ok (msg_hdr msg)) (as @ rest')" "attrs_order False False (as @ rest')" "map at_type (as @ rest') = map at_type (msg_attrs msg)"
    "take (20 + attrs_size (msg_hdr msg) (msg_attrs msg)) out =
      hdr_bytes (msg_hdr msg) (of_nat (attrs_size (msg_hdr msg) (msg_attrs msg))) @ W @ concat (map (attr_wire (msg_hdr msg)) rest')"
    "length (W @ concat (map (attr_wire (msg_hdr msg)) rest')) = attrs_size (msg_hdr msg) (msg_attrs msg)"
proof -
  obtain as rest mi fp where m: "msg_attrs msg = as @ rest" "as = takeWhile plain_attr (msg_attrs msg)" "rest = dropWhile plain_attr (msg_attrs msg)"
    and tsx: "length (mh_tsx_id (msg_hdr msg)) = 12" and ok: "list_all (attr_ok (msg_hdr msg)) as" "list_all (attr_ok (msg_hdr msg)) rest"
      "list_all (\<lambda>a. at_type a = PJ_STUN_ATTR_MESSAGE_INTEGRITY \<longrightarrow> at_length a = 20) rest"
    and plain: "list_all plain_attr as" "rest = [] \<or> \<not> plain_attr (hd rest)"
    and shape: "map at_type rest = (case mi of None \<Rightarrow> [] | Some i \<Rightarrow> [PJ_STUN_ATTR_MESSAGE_INTEGRITY]) @
        (case fp of None \<Rightarrow> [] | Some i \<Rightarrow> [PJ_STUN_ATTR_FINGERPRINT])"
      "mi = None \<or> mi = Some (length as)" "fp = None \<or> fp = Some (length as + (if mi = None then 0 else 1))"
    and size: "attrs_size (msg_hdr msg) (msg_attrs msg) = attrs_size (msg_hdr msg) as + attrs_size (msg_hdr msg) rest"
    by (rule stun_sendableE [OF send])
  let ?hdr = "msg_hdr msg" and ?n = "attrs_size (msg_hdr msg) (msg_attrs msg)"
  have n: "?n < 65536" using send by (simp add: stun_sendable_def)
  obtain W R where W: "attrs_wire ?hdr as W" and enc: "pj_stun_msg_encode pc stk msg buf 0 (Some k) =
    (let rest' = signed_rest (stun_hmac stk k) ?hdr W rest in
     Some (Inr (hdr_bytes ?hdr (of_nat ?n) @ W @ concat (map (attr_wire ?hdr) rest') @ R,
       \<lparr>msg_hdr = ?hdr\<lparr>mh_length := of_nat ?n\<rparr>, msg_attrs = as @ rest'\<rparr>, 20 + ?n)))"
    using encode_split [OF tsx refl m(1) ok plain shape size n buf key, of pc] by blast
  have lW: "length W \<le> ?n" using length_attrs_wire [OF W] size by simp
  define rest' where "rest' = signed_rest (hmac_spec sha1_digest k) ?hdr W rest"
  have mac: "length (hmac_spec sha1_digest k data) = 20" for data by (simp add: hmac_spec_def length_sha1_digest)
  have r': "signed_rest (stun_hmac stk k) ?hdr W rest = rest'" unfolding rest'_def
    using key n lW by (intro signed_rest_cong [OF tsx] stun_hmac_spec) auto
  have sh: "map at_type rest \<in> {[], [PJ_STUN_ATTR_MESSAGE_INTEGRITY], [PJ_STUN_ATTR_FINGERPRINT], [PJ_STUN_ATTR_MESSAGE_INTEGRITY, PJ_STUN_ATTR_FINGERPRINT]}"
    using send m(3) by (simp add: stun_sendable_def)
  have t: "map at_type rest' = map at_type rest" unfolding rest'_def by (rule signed_rest_shape [OF sh])
  have ok': "list_all (attr_ok ?hdr) rest'" unfolding rest'_def by (rule signed_rest_ok [OF mac tsx])
  have ex: "list_all (\<lambda>a. length (attr_wire ?hdr a) = attr_size ?hdr a) rest'" unfolding rest'_def by (rule signed_rest_exact [OF mac tsx])
  have w: "attrs_wire ?hdr (as @ rest') (W @ concat (map (attr_wire ?hdr) rest'))" by (rule attrs_wire_append [OF W checked_wire [OF ex]])
  have sz: "attrs_size ?hdr rest' = attrs_size ?hdr rest"
  proof -
    have "map (attr_size ?hdr) rest' = map (attr_size ?hdr) rest"
      using t ok(2) ok' sh checked_size [of ?hdr] by (auto simp: map_eq_Cons_conv)
    then show ?thesis by (simp add: attrs_size_def)
  qed
  have len: "length W + length (concat (map (attr_wire ?hdr) rest')) = ?n"
    using length_attrs_wire [OF w] size sz by simp
  have ord: "attrs_order False False (as @ rest')" using order_plain [OF plain(1) order_shape] t sh by metis
  have tk: "take (20 + ?n) (hdr_bytes ?hdr (of_nat ?n) @ W @ concat (map (attr_wire ?hdr) rest') @ R) =
      hdr_bytes ?hdr (of_nat ?n) @ W @ concat (map (attr_wire ?hdr) rest')"
    using len length_hdr_bytes [OF tsx, of "of_nat ?n"] by (simp add: len [symmetric])
  have enc': "pj_stun_msg_encode pc stk msg buf 0 (Some k) =
      Some (Inr (hdr_bytes ?hdr (of_nat ?n) @ W @ concat (map (attr_wire ?hdr) rest') @ R,
        \<lparr>msg_hdr = ?hdr\<lparr>mh_length := of_nat ?n\<rparr>, msg_attrs = as @ rest'\<rparr>, 20 + ?n))"
    unfolding enc r' Let_def ..
  have types: "map at_type (as @ rest') = map at_type (msg_attrs msg)" unfolding m(1) by (simp add: t)
  have okk: "list_all (attr_ok ?hdr) (as @ rest')" using ok(1) ok' by simp
  show thesis by (rule that [OF m(2,3) rest'_def W enc' w okk ord types tk]) (simp only: len length_append)
qed

subsection \<open>Checking a signed packet\<close>

lemma small_type_byte: "t < 0x200 \<Longrightarrow> (ucast (drop_bit 8 t) :: byte) \<in> {0, 1}" for t :: "16 word"
proof -
  have small: "x = 0 \<or> x = 1" if "unat x < 2" for x :: "16 word" using that by (auto simp: word_unat_eq_iff less_2_cases_iff)
  assume "t < 0x200"
  then have "unat t < 512" by (simp add: word_less_nat_alt)
  moreover have "unat (drop_bit 8 t) = unat t div 2 ^ 8" by (metis drop_bit_eq_div unat_drop_bit_eq)
  ultimately have "unat (drop_bit 8 t) < 2" by simp
  then have "drop_bit 8 t = 0 \<or> drop_bit 8 t = 1" using small [of "drop_bit 8 t"] by blast
  then show ?thesis by auto
qed

lemma check_fingerprinted:
  assumes tsx: "length (mh_tsx_id hdr) = 12" and t: "mh_type hdr < 0x200" and len: "length V mod 4 = 0" "length V + 8 < 65536"
    and fp: "at_type a = PJ_STUN_ATTR_FINGERPRINT" "at_body a = Uint_body (stun_fingerprint (hdr_bytes hdr (of_nat (length V + 8)) @ V))"
  shows "pj_stun_msg_check (hdr_bytes hdr (of_nat (length V + 8)) @ V @ attr_wire hdr a) options = Some PJ_SUCCESS"
proof -
  let ?n = "length V + 8" let ?H = "hdr_bytes hdr (of_nat ?n)" let ?p = "?H @ V @ attr_wire hdr a"
  have n: "unat (of_nat ?n :: 16 word) = ?n" using len(2) by (rule unat_of_nat_16)
  have H: "length ?H = 20" using tsx by (rule length_hdr_bytes)
  have aw: "attr_wire hdr a = be_bytes16 PJ_STUN_ATTR_FINGERPRINT @ be_bytes16 4 @ be_bytes32 (stun_fingerprint (?H @ V))"
    using fp by (simp add: attr_wire_def attr_value_def)
  have lp: "length ?p = ?n + 20" unfolding aw using H by simp
  have "?p = ucast (drop_bit 8 (mh_type hdr)) # ucast (mh_type hdr) # be_bytes16 (of_nat ?n) @ be_bytes32 (mh_magic hdr) @ mh_tsx_id hdr @ V @ attr_wire hdr a"
    by (simp add: hdr_bytes_def be_bytes16_def)
  then have b0: "deref ?p 0 = Some (ucast (drop_bit 8 (mh_type hdr)))" by (simp add: deref_def)
  have pos: "?n + 20 - 8 = length (?H @ V)" using H by simp
  have get: "GETVAL16H ?p (?n + 20 - 8) = Some PJ_STUN_ATTR_FINGERPRINT" "GETVAL16H ?p (?n + 20 - 8 + 2) = Some 4"
      "GETVAL32H ?p (?n + 20 - 8 + 4) = Some (stun_fingerprint (?H @ V))" "take (?n + 20 - 8) ?p = ?H @ V"
    unfolding pos aw
    using GETVAL16H_at [of "?H @ V" PJ_STUN_ATTR_FINGERPRINT] GETVAL16H_at [of "(?H @ V) @ be_bytes16 PJ_STUN_ATTR_FINGERPRINT" 4]
      GETVAL32H_at [of "(?H @ V) @ be_bytes16 PJ_STUN_ATTR_FINGERPRINT @ be_bytes16 4" "stun_fingerprint (?H @ V)" "[]"]
    by (simp_all add: add.assoc)
  have fpc: "check_fingerprint ?p ?n = Some PJ_SUCCESS" unfolding check_fingerprint_def get by simp
  have magic: "GETVAL32H ?p 4 = Some (mh_magic hdr)"
    using GETVAL32H_at [of "be_bytes16 (mh_type hdr) @ be_bytes16 (of_nat ?n)" "mh_magic hdr"] by (simp add: hdr_bytes_def)
  have mod: "?n mod 4 = 0" using len(1) by (simp add: mod_add_eq [symmetric])
  show ?thesis
    using small_type_byte [OF t] n lp b0 magic get(1) fpc mod get_length [of hdr "of_nat ?n" "V @ attr_wire hdr a"]
    unfolding pj_stun_msg_check_def by (auto simp: Let_def)
qed

lemma signed_rest_fingerprint:
  assumes "map at_type rest \<in> {[PJ_STUN_ATTR_FINGERPRINT], [PJ_STUN_ATTR_MESSAGE_INTEGRITY, PJ_STUN_ATTR_FINGERPRINT]}"
  obtains mis f where "signed_rest mac hdr W rest = mis @ [signed_fingerprint hdr (W @ concat (map (attr_wire hdr) mis)) f]" "at_type f = PJ_STUN_ATTR_FINGERPRINT"
  using assms that [of "[]"] that [of "[_]"] by (fastforce simp: signed_rest_def Let_def map_eq_Cons_conv)

lemma dropWhile_last:
  assumes "as \<noteq> []" "\<not> P (last as)"
  shows "dropWhile P as \<noteq> [] \<and> last (dropWhile P as) = last as"
  using assms by (induction as) (auto split: if_splits)

subsection \<open>Corrupted packets\<close>

lemma GETVAL32H_bytes:
  assumes "GETVAL32H p n = Some v"
  shows "n + 4 \<le> length p" "take 4 (drop n p) = be_bytes32 v"
proof -
  obtain b0 b1 b2 b3 where d: "deref p n = Some b0" "deref p (n + 1) = Some b1" "deref p (n + 2) = Some b2" "deref p (n + 3) = Some b3"
    and v: "v = push_bit 24 (ucast b0) OR push_bit 16 (ucast b1) OR push_bit 8 (ucast b2) OR ucast b3"
    using assms by (auto simp: GETVAL32H_def bind_eq_Some_conv)
  then show l: "n + 4 \<le> length p" by (auto simp: deref_def split: if_splits)
  have hi: "\<not> bit b j" if "8 \<le> j" for b :: byte and j using that bit_imp_le_length [of b j] by auto
  have e: "ucast (drop_bit 24 v) = b0" "ucast (drop_bit 16 v) = b1" "ucast (drop_bit 8 v) = b2" "ucast v = b3"
    unfolding v by (rule bit_word_eqI; auto simp: bit_ucast_iff bit_drop_bit_eq bit_or_iff bit_push_bit_iff hi)+
  have "take 4 (drop n p) = [p ! n, p ! (n + 1), p ! (n + 2), p ! (n + 3)]"
    using l by (intro nth_equalityI) (auto simp: less_Suc_eq numeral_eq_Suc)
  then show "take 4 (drop n p) = be_bytes32 v" using d e by (auto simp: be_bytes32_def deref_def split: if_splits)
qed

lemma GETVAL_update:
  "i \<noteq> n \<Longrightarrow> i \<noteq> n + 1 \<Longrightarrow> GETVAL16H (p[i := b]) n = GETVAL16H p n"
  "i \<noteq> n \<Longrightarrow> i \<noteq> n + 1 \<Longrightarrow> i \<noteq> n + 2 \<Longrightarrow> i \<noteq> n + 3 \<Longrightarrow> GETVAL32H (p[i := b]) n = GETVAL32H p n"
  by (simp_all add: GETVAL16H_def GETVAL32H_def deref_def)

lemma stun_fingerprint_byte:
  "i < length data \<Longrightarrow> b \<noteq> data ! i \<Longrightarrow> stun_fingerprint (data[i := b]) \<noteq> stun_fingerprint data"
  using crc32_byte_change [of i data b 0 0] by (simp add: stun_fingerprint_def xor_cancel_right)

lemma check_with_fingerprint:
  assumes "20 \<le> length p" "GETVAL16H p 2 = Some len" "GETVAL32H p 4 = Some PJ_STUN_MAGIC"
    and "GETVAL16H p (unat len + 12) = Some PJ_STUN_ATTR_FINGERPRINT" "options AND PJ_STUN_NO_FINGERPRINT_CHECK = 0"
  shows "pj_stun_msg_check p options =
    (if p ! 0 \<noteq> 0 \<and> p ! 0 \<noteq> 1 then Some PJNATH_EINSTUNMSGTYPE
     else if unat len + 20 > length p \<or> options AND PJ_STUN_IS_DATAGRAM \<noteq> 0 \<and> unat len + 20 \<noteq> length p then Some PJNATH_EINSTUNMSGLEN
     else if unat len mod 4 \<noteq> 0 then Some PJNATH_EINSTUNMSGLEN else check_fingerprint p (unat len))"
proof -
  have "deref p 0 = Some (p ! 0)" "\<not> length p < 20" using assms(1) deref_in [of 0 p] by linarith+
  moreover have "GETVAL16H p (12 + unat len) = Some PJ_STUN_ATTR_FINGERPRINT" using assms(4) by (simp add: add.commute)
  ultimately show ?thesis using assms(2,3,5) unfolding pj_stun_msg_check_def by (simp add: Let_def)
qed

subsection \<open>Properties\<close>

definition demo_msg :: pj_stun_msg where
  "demo_msg = \<lparr>msg_hdr = \<lparr>mh_type = 1, mh_length = 0, mh_magic = PJ_STUN_MAGIC, mh_tsx_id = [1, 2, 3, 4, 5, 6, 7, 8, 9, 10, 11, 12]\<rparr>,
     msg_attrs = [\<lparr>at_type = PJ_STUN_ATTR_USERNAME, at_length = 5, at_body = String_body [0x61, 0x62, 0x3A, 0x63, 0x64]\<rparr>,
       \<lparr>at_type = 0x0020, at_length = 8, at_body = Sockaddr_body True \<lparr>sa_family = PJ_AF_INET, sa_port = 4000, sa_addr = [10, 0, 0, 1]\<rparr>\<rparr>,
       \<lparr>at_type = PJ_STUN_ATTR_MESSAGE_INTEGRITY, at_length = 20, at_body = Msgint_body (replicate 20 0)\<rparr>,
       \<lparr>at_type = PJ_STUN_ATTR_FINGERPRINT, at_length = 4, at_body = Uint_body 0\<rparr>]\<rparr>"

definition demo_stk :: sha_stack where
  "demo_stk = (demo_sha, \<lparr>hs_context = demo_sha, hs_k_opad = []\<rparr>)"

lemma demo_kinds:
  "find_attr_desc (unat PJ_STUN_ATTR_USERNAME) = Some (''USERNAME'', STRING_ATTR)" "find_attr_desc (unat (0x0020 :: 16 word)) = Some (''XOR-MAPPED-ADDRESS'', XORED_SOCKADDR_ATTR)"
  by (simp_all add: find_attr_desc_def mandatory_attr_desc_def PJ_STUN_ATTR_USERNAME_def PJ_STUN_ATTR_END_MANDATORY_ATTR_def)

lemma demo_msg_ok: "stun_sendable demo_msg" "attrs_size (msg_hdr demo_msg) (msg_attrs demo_msg) = 56" "stk_ok demo_stk"
proof -
  show size: "attrs_size (msg_hdr demo_msg) (msg_attrs demo_msg) = 56"
    by (simp add: demo_msg_def attrs_size_def attr_size_def attr_value_def wire_addr_def xor_bytes_def magic_bytes_def align4_def PJ_AF_INET_def)
  have "plain_attr a \<longleftrightarrow> at_type a \<noteq> 0x0008 \<and> at_type a \<noteq> 0x8028" for a
    by (simp add: plain_attr_def PJ_STUN_ATTR_MESSAGE_INTEGRITY_def PJ_STUN_ATTR_FINGERPRINT_def)
  moreover have "list_all (attr_ok (msg_hdr demo_msg)) (msg_attrs demo_msg)"
    using demo_kinds known_checked_types
    by (simp add: demo_msg_def attr_ok_def body_ok_def wf_sockaddr_def pj_sockaddr_get_addr_len_def PJ_AF_INET_def PJ_AF_INET6_def PJ_STUN_ATTR_USERNAME_def PJ_STUN_ATTR_SOFTWARE_def)
  ultimately show "stun_sendable demo_msg" using size
    by (simp add: stun_sendable_def) (simp add: demo_msg_def PJ_STUN_MAX_ATTR_def PJ_STUN_ATTR_MESSAGE_INTEGRITY_def PJ_STUN_ATTR_FINGERPRINT_def PJ_STUN_ATTR_USERNAME_def)
  show "stk_ok demo_stk" by (simp add: stk_ok_def demo_stk_def demo_sha_def)
qed



text \<open>
  C15. A well-formed message survives the wire: encoding it and decoding the bytes returns the header with the right length, the same
  plain attributes with canonical length fields, and the checked attributes that the encoder computed, and consumes the whole packet.
\<close>

theorem stun_msg_roundtrip:
  assumes "stun_sendable msg" "20 + attrs_size (msg_hdr msg) (msg_attrs msg) \<le> length buf" "length buf < 2 ^ 32"
    and "stk_ok stk" "length k < 2 ^ 29" and "options AND PJ_STUN_CHECK_PACKET = 0"
  shows "\<exists>out msg' n. pj_stun_msg_encode pc stk msg buf 0 (Some k) = Some (Inr (out, msg', n)) \<and>
    pj_stun_msg_decode strerror (take n out) options want =
      Some (Inr (msg'\<lparr>msg_attrs := map (canon_attr (msg_hdr msg)) (msg_attrs msg')\<rparr>, n)) \<and>
    msg_hdr msg' = (msg_hdr msg)\<lparr>mh_length := of_nat (n - 20)\<rparr> \<and> map at_type (msg_attrs msg') = map at_type (msg_attrs msg) \<and>
    (\<forall>a \<in> set (msg_attrs msg). plain_attr a \<longrightarrow> a \<in> set (msg_attrs msg'))"
proof -
  let ?hdr = "msg_hdr msg" and ?n = "attrs_size (msg_hdr msg) (msg_attrs msg)"
  obtain as rest rest' W out where m: "as = takeWhile plain_attr (msg_attrs msg)" "rest = dropWhile plain_attr (msg_attrs msg)"
    and e: "pj_stun_msg_encode pc stk msg buf 0 (Some k) =
      Some (Inr (out, \<lparr>msg_hdr = ?hdr\<lparr>mh_length := of_nat ?n\<rparr>, msg_attrs = as @ rest'\<rparr>, 20 + ?n))"
      "attrs_wire ?hdr (as @ rest') (W @ concat (map (attr_wire ?hdr) rest'))"
      "list_all (attr_ok ?hdr) (as @ rest')" "attrs_order False False (as @ rest')" "map at_type (as @ rest') = map at_type (msg_attrs msg)"
      "take (20 + ?n) out = hdr_bytes ?hdr (of_nat ?n) @ W @ concat (map (attr_wire ?hdr) rest')"
      "length (W @ concat (map (attr_wire ?hdr) rest')) = ?n"
    by (rule encode_sendable [OF assms(1-5), of pc])
  have s: "length (mh_tsx_id ?hdr) = 12" "length (as @ rest') \<le> PJ_STUN_MAX_ATTR" "?n < 65536"
    using assms(1) map_eq_imp_length_eq [OF e(5)] by (simp_all add: stun_sendable_def)
  have "pj_stun_msg_decode strerror (take (20 + ?n) out) options want =
      Some (Inr (\<lparr>msg_hdr = ?hdr\<lparr>mh_length := of_nat ?n\<rparr>, msg_attrs = map (canon_attr ?hdr) (as @ rest')\<rparr>, 20 + ?n))"
    using decode_wire [OF e(3) s(1,2) e(4,2), of options strerror want] assms(6) s(3) unfolding e(6,7) by simp
  moreover have "a \<in> set as" if "a \<in> set (msg_attrs msg)" "plain_attr a" for a
  proof (rule ccontr)
    assume "a \<notin> set as"
    then have "a \<in> set rest" using that(1) m by (metis UnE set_append takeWhile_dropWhile_id)
    moreover have "map at_type rest \<in> {[], [PJ_STUN_ATTR_MESSAGE_INTEGRITY], [PJ_STUN_ATTR_FINGERPRINT], [PJ_STUN_ATTR_MESSAGE_INTEGRITY, PJ_STUN_ATTR_FINGERPRINT]}"
      using assms(1) m by (simp add: stun_sendable_def)
    ultimately show False using that(2) by (auto simp: map_eq_Cons_conv plain_attr_def)
  qed
  ultimately show ?thesis using e(1,5) by (intro exI [of _ out] exI [of _ "\<lparr>msg_hdr = ?hdr\<lparr>mh_length := of_nat ?n\<rparr>, msg_attrs = as @ rest'\<rparr>"] exI [of _ "20 + ?n"]) auto
qed

theorem stun_msg_roundtrip_witness:
  "\<exists>out msg' n. pj_stun_msg_encode 0 demo_stk demo_msg (replicate 100 0xFF) 0 (Some [1, 2, 3]) = Some (Inr (out, msg', n)) \<and>
    pj_stun_msg_decode (\<lambda>_. []) (take n out) 1 True =
      Some (Inr (msg'\<lparr>msg_attrs := map (canon_attr (msg_hdr demo_msg)) (msg_attrs msg')\<rparr>, n))"
proof -
  have "(1 :: 32 word) AND PJ_STUN_CHECK_PACKET = 0" by (simp add: PJ_STUN_CHECK_PACKET_def)
  from stun_msg_roundtrip [OF demo_msg_ok(1) _ _ demo_msg_ok(3) _ this, of "replicate 100 0xFF" "[1, 2, 3]" 0 "\<lambda>_. []" True] demo_msg_ok(2)
  show ?thesis by auto
qed

text \<open>
  A message of a valid type that ends with FINGERPRINT passes the check of the receiver whatever its options, and is then
  decoded with the check switched on.
\<close>

theorem stun_fingerprint_accepted:
  assumes "stun_sendable msg" "20 + attrs_size (msg_hdr msg) (msg_attrs msg) \<le> length buf" "length buf < 2 ^ 32"
    and "stk_ok stk" "length k < 2 ^ 29"
    and "mh_type (msg_hdr msg) < 0x200" "msg_attrs msg \<noteq> []" "at_type (last (msg_attrs msg)) = PJ_STUN_ATTR_FINGERPRINT"
  shows "\<exists>out msg' n. pj_stun_msg_encode pc stk msg buf 0 (Some k) = Some (Inr (out, msg', n)) \<and>
    pj_stun_msg_check (take n out) options = Some PJ_SUCCESS \<and>
    pj_stun_msg_decode strerror (take n out) options want =
      Some (Inr (msg'\<lparr>msg_attrs := map (canon_attr (msg_hdr msg)) (msg_attrs msg')\<rparr>, n))"
proof -
  let ?hdr = "msg_hdr msg" and ?n = "attrs_size (msg_hdr msg) (msg_attrs msg)"
  obtain as rest rest' W out where m: "as = takeWhile plain_attr (msg_attrs msg)" "rest = dropWhile plain_attr (msg_attrs msg)"
    and r': "rest' = signed_rest (hmac_spec sha1_digest k) ?hdr W rest" and W: "attrs_wire ?hdr as W"
    and e: "pj_stun_msg_encode pc stk msg buf 0 (Some k) =
      Some (Inr (out, \<lparr>msg_hdr = ?hdr\<lparr>mh_length := of_nat ?n\<rparr>, msg_attrs = as @ rest'\<rparr>, 20 + ?n))"
      "attrs_wire ?hdr (as @ rest') (W @ concat (map (attr_wire ?hdr) rest'))"
      "list_all (attr_ok ?hdr) (as @ rest')" "attrs_order False False (as @ rest')" "map at_type (as @ rest') = map at_type (msg_attrs msg)"
      "take (20 + ?n) out = hdr_bytes ?hdr (of_nat ?n) @ W @ concat (map (attr_wire ?hdr) rest')"
      "length (W @ concat (map (attr_wire ?hdr) rest')) = ?n"
    by (rule encode_sendable [OF assms(1-5), of pc])
  have s: "length (mh_tsx_id ?hdr) = 12" "length (as @ rest') \<le> PJ_STUN_MAX_ATTR" "?n < 65536"
      "map at_type rest \<in> {[], [PJ_STUN_ATTR_MESSAGE_INTEGRITY], [PJ_STUN_ATTR_FINGERPRINT], [PJ_STUN_ATTR_MESSAGE_INTEGRITY, PJ_STUN_ATTR_FINGERPRINT]}"
    using assms(1) map_eq_imp_length_eq [OF e(5)] m by (simp_all add: stun_sendable_def)
  have "rest \<noteq> [] \<and> last rest = last (msg_attrs msg)"
    using dropWhile_last [OF assms(7), of plain_attr] assms(8) m by (simp add: plain_attr_def)
  then have "map at_type rest \<in> {[PJ_STUN_ATTR_FINGERPRINT], [PJ_STUN_ATTR_MESSAGE_INTEGRITY, PJ_STUN_ATTR_FINGERPRINT]}"
    using s(4) assms(8) by (auto simp: map_eq_Cons_conv)
  then obtain mis f where f: "rest' = mis @ [signed_fingerprint ?hdr (W @ concat (map (attr_wire ?hdr) mis)) f]" "at_type f = PJ_STUN_ATTR_FINGERPRINT"
    using signed_rest_fingerprint r' by metis
  let ?V = "W @ concat (map (attr_wire ?hdr) mis)" and ?f = "signed_fingerprint ?hdr (W @ concat (map (attr_wire ?hdr) mis)) f"
  have "length (attr_wire ?hdr ?f) = 8" by (simp add: length_attr_wire signed_fingerprint_def attr_value_def)
  then have V: "?n = length ?V + 8" using e(7) f(1) by simp
  have mod: "m mod 4 = 0" if "(m + 8) mod 4 = (0 :: nat)" for m using that by presburger
  have "length ?V mod 4 = 0" by (rule mod) (use attrs_size_mod_4 [of ?hdr "msg_attrs msg"] in \<open>simp only: V\<close>)
  then have "pj_stun_msg_check (hdr_bytes ?hdr (of_nat (length ?V + 8)) @ ?V @ attr_wire ?hdr ?f) options = Some PJ_SUCCESS"
    using s(1,3) assms(6) f(2) V by (intro check_fingerprinted) (simp_all add: signed_fingerprint_def)
  then have c: "pj_stun_msg_check (hdr_bytes ?hdr (of_nat ?n) @ W @ concat (map (attr_wire ?hdr) rest')) options = Some PJ_SUCCESS"
    unfolding V f(1) by simp
  have "pj_stun_msg_decode strerror (take (20 + ?n) out) options want =
      Some (Inr (\<lparr>msg_hdr = ?hdr\<lparr>mh_length := of_nat ?n\<rparr>, msg_attrs = map (canon_attr ?hdr) (as @ rest')\<rparr>, 20 + ?n))"
    using decode_wire [OF e(3) s(1,2) e(4,2), of options strerror want] c s(3) unfolding e(6,7) by simp
  moreover have "pj_stun_msg_check (take (20 + ?n) out) options = Some PJ_SUCCESS" unfolding e(6) by (rule c)
  ultimately show ?thesis using e(1) by auto
qed

theorem stun_fingerprint_accepted_witness:
  "\<exists>out msg' n. pj_stun_msg_encode 0 demo_stk demo_msg (replicate 100 0xFF) 0 (Some [1, 2, 3]) = Some (Inr (out, msg', n)) \<and>
    pj_stun_msg_check (take n out) 3 = Some PJ_SUCCESS"
proof -
  have "mh_type (msg_hdr demo_msg) < 0x200" "msg_attrs demo_msg \<noteq> []" "at_type (last (msg_attrs demo_msg)) = PJ_STUN_ATTR_FINGERPRINT"
    by (simp_all add: demo_msg_def)
  from stun_fingerprint_accepted [OF demo_msg_ok(1) _ _ demo_msg_ok(3) _ this, of "replicate 100 0xFF" "[1, 2, 3]" 0 3 "\<lambda>_. []" True] demo_msg_ok(2)
  show ?thesis by fastforce
qed

text \<open>
  C19. In a packet that the receiver accepts with its FINGERPRINT, changing any one byte outside the length field, the magic cookie and the
  header of the FINGERPRINT attribute makes the check fail with a wrong message type or a wrong fingerprint.
\<close>

theorem stun_fingerprint_detects:
  assumes "pj_stun_msg_check p options = Some PJ_SUCCESS" "options AND PJ_STUN_NO_FINGERPRINT_CHECK = 0"
    and "GETVAL32H p 4 = Some PJ_STUN_MAGIC" "GETVAL16H p 2 = Some len" "GETVAL16H p (unat len + 12) = Some PJ_STUN_ATTR_FINGERPRINT"
    and "i < 2 \<or> 8 \<le> i \<and> i < unat len + 12 \<or> unat len + 16 \<le> i \<and> i < unat len + 20" "b \<noteq> p ! i"
  shows "pj_stun_msg_check (p[i := b]) options \<in> {Some PJNATH_EINSTUNMSGTYPE, Some PJNATH_ESTUNFINGERPRINT}"
proof -
  let ?n = "unat len + 12"
  have ok: "20 \<le> length p" "p ! 0 = 0 \<or> p ! 0 = 1" "unat len + 20 \<le> length p" "options AND PJ_STUN_IS_DATAGRAM \<noteq> 0 \<longrightarrow> unat len + 20 = length p"
      "unat len mod 4 = 0" "check_fingerprint p (unat len) = Some PJ_SUCCESS"
  proof -
    show l: "20 \<le> length p" using assms(1) by (auto simp: pj_stun_msg_check_def not_le split: if_splits)
    show "p ! 0 = 0 \<or> p ! 0 = 1" "unat len + 20 \<le> length p" "options AND PJ_STUN_IS_DATAGRAM \<noteq> 0 \<longrightarrow> unat len + 20 = length p"
      "unat len mod 4 = 0" "check_fingerprint p (unat len) = Some PJ_SUCCESS"
      using assms(1) unfolding check_with_fingerprint [OF l assms(4,3,5,2)] by (auto split: if_splits)
  qed
  then obtain fp where fp: "GETVAL16H p (?n + 2) = Some 4" "GETVAL32H p (?n + 4) = Some fp" "stun_fingerprint (take ?n p) = fp"
    by (auto simp: check_fingerprint_def bind_eq_Some_conv add.commute split: if_splits)
  have i: "i < length p" "i \<noteq> 2" "i \<noteq> 3" "i \<noteq> 4" "i \<noteq> 5" "i \<noteq> 6" "i \<noteq> 7" "i \<noteq> ?n" "i \<noteq> ?n + 1" "i \<noteq> ?n + 2" "i \<noteq> ?n + 3"
    using assms(6) ok(1,3) by auto
  have get: "GETVAL16H (p[i := b]) 2 = Some len" "GETVAL32H (p[i := b]) 4 = Some PJ_STUN_MAGIC" "GETVAL16H (p[i := b]) ?n = Some PJ_STUN_ATTR_FINGERPRINT"
      "GETVAL16H (p[i := b]) (?n + 2) = Some 4"
    using i assms(3-5) fp(1) by (simp_all add: GETVAL_update)
  obtain fp' where fp': "GETVAL32H (p[i := b]) (?n + 4) = Some fp'" using ok(3) by (auto simp: GETVAL32H_def deref_def)
  have "stun_fingerprint (take ?n (p[i := b])) \<noteq> fp'"
  proof (cases "i < ?n")
    case True
    then have "fp' = fp" using fp(2) fp' by (simp add: GETVAL_update)
    then show ?thesis using stun_fingerprint_byte [of i "take ?n p" b] True i(1) assms(7) fp(3) by (simp add: take_update_swap)
  next
    case False
    then have j: "?n + 4 \<le> i" "i < ?n + 8" using assms(6) by auto
    have "take 4 (drop (?n + 4) (p[i := b])) = (take 4 (drop (?n + 4) p))[i - (?n + 4) := b]"
      using j(1) by (simp add: drop_update_swap take_update_swap)
    moreover have "take 4 (drop (?n + 4) p) ! (i - (?n + 4)) \<noteq> b" "i - (?n + 4) < length (take 4 (drop (?n + 4) p))" using j assms(7) ok(3) by auto
    ultimately have "take 4 (drop (?n + 4) (p[i := b])) \<noteq> take 4 (drop (?n + 4) p)" by (metis nth_list_update_eq)
    then have "fp' \<noteq> fp" using GETVAL32H_bytes(2) [OF fp'] GETVAL32H_bytes(2) [OF fp(2)] by auto
    then show ?thesis using False fp(3) by simp
  qed
  then have "check_fingerprint (p[i := b]) (unat len) = Some PJNATH_ESTUNFINGERPRINT" using get(4) fp' by (simp add: check_fingerprint_def add.commute)
  then show ?thesis using ok check_with_fingerprint [of "p[i := b]" len options] get assms(2) by (cases "i = 0") auto
qed

definition demo_packet :: "byte list" where
  "demo_packet = hdr_bytes (msg_hdr demo_msg) (of_nat (length ([] :: byte list) + 8)) @ [] @
     attr_wire (msg_hdr demo_msg) \<lparr>at_type = PJ_STUN_ATTR_FINGERPRINT, at_length = 4,
       at_body = Uint_body (stun_fingerprint (hdr_bytes (msg_hdr demo_msg) (of_nat (length ([] :: byte list) + 8)) @ []))\<rparr>"

theorem stun_fingerprint_detects_witness:
  "pj_stun_msg_check demo_packet 0 = Some PJ_SUCCESS \<and>
   pj_stun_msg_check (demo_packet[9 := 77]) 0 \<in> {Some PJNATH_EINSTUNMSGTYPE, Some PJNATH_ESTUNFINGERPRINT}"
proof -
  have c: "pj_stun_msg_check demo_packet 0 = Some PJ_SUCCESS"
    unfolding demo_packet_def by (rule check_fingerprinted) (simp_all add: demo_msg_def)
  have g: "GETVAL32H demo_packet 4 = Some PJ_STUN_MAGIC" "GETVAL16H demo_packet 2 = Some 8" "GETVAL16H demo_packet (unat (8 :: 16 word) + 12) = Some PJ_STUN_ATTR_FINGERPRINT"
    using GETVAL32H_at [of "be_bytes16 1 @ be_bytes16 8" PJ_STUN_MAGIC] GETVAL16H_at [of "be_bytes16 1" 8]
      GETVAL16H_at [of "hdr_bytes (msg_hdr demo_msg) 8" PJ_STUN_ATTR_FINGERPRINT]
    by (simp_all add: demo_packet_def hdr_bytes_def attr_wire_def demo_msg_def)
  have "demo_packet ! 9 = 2" by (simp add: demo_packet_def hdr_bytes_def demo_msg_def be_bytes16_def be_bytes32_def)
  then show ?thesis using c stun_fingerprint_detects [OF c _ g, of 9 77] by simp
qed

end
