(* ===== verification/StunSafety.thy ===== *)
theory StunSafety
  imports StunCodec
begin

text \<open>
  What decoding an arbitrary packet can return: only messages whose attributes have the body that their type prescribes, and
  for a request that is refused, the error response that RFC 5389 asks for.
\<close>

subsection \<open>Types of decoded attributes\<close>

definition body_typed :: "attr_kind option \<Rightarrow> attr_body \<Rightarrow> bool" where
  "body_typed k b = (case b of
     Sockaddr_body x a \<Rightarrow> (k = Some SOCKADDR_ATTR \<and> \<not> x \<or> k = Some XORED_SOCKADDR_ATTR \<and> x) \<and> wf_sockaddr a
   | Empty_body \<Rightarrow> k = Some EMPTY_ATTR
   | String_body s \<Rightarrow> k = Some STRING_ATTR \<and> length s < 65536
   | Uint_body v \<Rightarrow> k = Some UINT_ATTR
   | Uint64_body hi lo \<Rightarrow> k = Some UINT64_ATTR
   | Binary_body m d \<Rightarrow> (k = Some BINARY_ATTR \<or> k = None \<and> m = PJ_STUN_MAGIC) \<and> length d < 65536
   | Msgint_body h \<Rightarrow> k = Some MSGINT_ATTR \<and> length h = 20
   | Errcode_body c r \<Rightarrow> k = Some ERRCODE_ATTR \<and> c \<le> 25755 \<and> length r < 65532
   | Unknown_body us \<Rightarrow> k = Some UNKNOWN_ATTR \<and> length us \<le> PJ_STUN_MAX_ATTR)"

definition attr_typed :: "pj_stun_attr \<Rightarrow> bool" where
  "attr_typed a \<longleftrightarrow> body_typed (map_option snd (find_attr_desc (unat (at_type a)))) (at_body a) \<and>
     (find_attr_desc (unat (at_type a)) = None \<longrightarrow> 0x7FFF < at_type a)"

lemma get_bytes_length: "get_bytes buf pos n = Some bs \<Longrightarrow> length bs = n"
  by (auto simp: get_bytes_def split: if_splits)

lemma length_be_words16: "length (be_words16 bs) = length bs div 2"
  by (induction bs rule: be_words16.induct) simp_all

lemma decode_sockaddr_typed:
  assumes "decode_sockaddr_attr buf hdr = Some (Inr a)"
  shows "(case at_body a of Sockaddr_body x sa \<Rightarrow> \<not> x \<and> wf_sockaddr sa | _ \<Rightarrow> False) \<and> GETVAL16H buf 0 = Some (at_type a)"
  using assms
  by (auto simp: decode_sockaddr_attr_def GETATTRHDR_def bind_eq_Some_conv wf_sockaddr_def pj_sockaddr_get_addr_len_def PJ_AF_INET_def PJ_AF_INET6_def Let_def
      dest: get_bytes_length split: if_splits)

lemma decode_xored_typed:
  assumes "decode_xored_sockaddr_attr buf hdr = Some (Inr a)" "length (mh_tsx_id hdr) = 12"
  shows "(case at_body a of Sockaddr_body x sa \<Rightarrow> x \<and> wf_sockaddr sa | _ \<Rightarrow> False) \<and> GETVAL16H buf 0 = Some (at_type a)"
proof -
  obtain res where "decode_sockaddr_attr buf hdr = Some res" using assms(1) by (auto simp: decode_xored_sockaddr_attr_def bind_eq_Some_conv)
  with assms(1) obtain a0 where a0: "decode_sockaddr_attr buf hdr = Some (Inr a0)" by (cases res) (auto simp: decode_xored_sockaddr_attr_def)
  from decode_sockaddr_typed [OF this] obtain sa where "at_body a0 = Sockaddr_body False sa" "wf_sockaddr sa" "GETVAL16H buf 0 = Some (at_type a0)"
    by (cases "at_body a0") auto
  then show ?thesis using a0 assms
    by (auto simp: decode_xored_sockaddr_attr_def wf_sockaddr_def pj_sockaddr_get_addr_len_def magic_bytes_def PJ_AF_INET_def PJ_AF_INET6_def split: if_splits)
qed

lemma decode_attr_typed:
  assumes "decode_attr k buf hdr = Some (Inr a)" "length (mh_tsx_id hdr) = 12"
  shows "body_typed (Some k) (at_body a) \<and> GETVAL16H buf 0 = Some (at_type a)"
proof (cases k)
  case SOCKADDR_ATTR
  then show ?thesis using decode_sockaddr_typed [of buf hdr a] assms by (cases "at_body a") (auto simp: decode_attr_def body_typed_def)
next
  case XORED_SOCKADDR_ATTR
  then show ?thesis using decode_xored_typed [of buf hdr a] assms by (cases "at_body a") (auto simp: decode_attr_def body_typed_def)
next
  case EMPTY_ATTR
  then show ?thesis using assms by (auto simp: decode_attr_def decode_empty_attr_def GETATTRHDR_def bind_eq_Some_conv body_typed_def split: if_splits)
next
  case STRING_ATTR
  then show ?thesis using assms by (auto simp: decode_attr_def decode_string_attr_def GETATTRHDR_def bind_eq_Some_conv body_typed_def dest: get_bytes_length)
next
  case UINT_ATTR
  then show ?thesis using assms by (auto simp: decode_attr_def decode_uint_attr_def GETATTRHDR_def bind_eq_Some_conv body_typed_def split: if_splits)
next
  case UINT64_ATTR
  then show ?thesis using assms by (auto simp: decode_attr_def decode_uint64_attr_def GETATTRHDR_def bind_eq_Some_conv body_typed_def split: if_splits)
next
  case BINARY_ATTR
  then show ?thesis using assms by (auto simp: decode_attr_def decode_binary_attr_def GETATTRHDR_def bind_eq_Some_conv body_typed_def dest: get_bytes_length)
next
  case MSGINT_ATTR
  then show ?thesis using assms
    by (auto simp: decode_attr_def decode_msgint_attr_def GETATTRHDR_def bind_eq_Some_conv body_typed_def dest: get_bytes_length split: if_splits)
next
  case ERRCODE_ATTR
  have c: "unat b * 100 + unat b' \<le> 25755" for b b' :: byte using unat_byte_less [of b] unat_byte_less [of b'] by linarith
  have l: "unat (l :: 16 word) - 4 < 65532" for l using unat_word16_less [of l] by linarith
  show ?thesis using assms ERRCODE_ATTR
    by (auto simp: decode_attr_def decode_errcode_attr_def GETATTRHDR_def bind_eq_Some_conv body_typed_def c l dest!: get_bytes_length split: if_splits)
next
  case UNKNOWN_ATTR
  then show ?thesis using assms
    by (auto simp: decode_attr_def decode_unknown_attr_def GETATTRHDR_def bind_eq_Some_conv body_typed_def length_be_words16 Let_def dest: get_bytes_length split: if_splits)
qed

subsection \<open>The attribute loop\<close>

text \<open>What the loop keeps: room in the array, typed attributes, and flags that count the checked attributes.\<close>

definition seen :: "16 word \<Rightarrow> pj_stun_msg \<Rightarrow> nat" where
  "seen t msg = length (filter (\<lambda>a. at_type a = t) (msg_attrs msg))"

definition decode_inv :: "pj_stun_msg_hdr \<Rightarrow> pj_stun_msg \<Rightarrow> bool \<Rightarrow> bool \<Rightarrow> bool" where
  "decode_inv hdr msg mi fp \<longleftrightarrow> msg_hdr msg = hdr \<and> length (msg_attrs msg) \<le> PJ_STUN_MAX_ATTR \<and> list_all attr_typed (msg_attrs msg) \<and>
     seen PJ_STUN_ATTR_MESSAGE_INTEGRITY msg = (if mi then 1 else 0) \<and> seen PJ_STUN_ATTR_FINGERPRINT msg = (if fp then 1 else 0)"

lemma fail_with_no_success [simp]: "fail_with want msg st c em = Some (Inr x) \<longleftrightarrow> False"
  by (auto simp: fail_with_def bind_eq_Some_conv)

lemma decode_unrecognized_inv:
  assumes "decode_unrecognized want pdu msg t = Some (Inr msg')" "find_attr_desc (unat t) = None" "decode_inv hdr msg mi fp"
  shows "decode_inv hdr msg' mi fp"
proof -
  have ne: "t \<noteq> PJ_STUN_ATTR_MESSAGE_INTEGRITY" "t \<noteq> PJ_STUN_ATTR_FINGERPRINT" using assms(2) known_checked_types by auto
  have t: "\<not> t \<le> 0x7FFF" "length (msg_attrs msg) < PJ_STUN_MAX_ATTR" using assms(1) by (auto simp: decode_unrecognized_def bind_eq_Some_conv split: if_splits)
  then obtain len d where l: "GETVAL16H pdu 2 = Some len" "get_bytes pdu 4 (unat len) = Some d"
    using assms(1) by (auto simp: decode_unrecognized_def bind_eq_Some_conv)
  have "t \<noteq> 0" using t by auto
  then have "msg' = msg\<lparr>msg_attrs := msg_attrs msg @ [INIT_ATTR t (length d) (Binary_body PJ_STUN_MAGIC d)]\<rparr>"
    using assms(1) t l by (simp add: decode_unrecognized_def pj_stun_binary_attr_create_def)
  moreover have "length d < 65536" using get_bytes_length [OF l(2)] by simp
  moreover have "0x7FFF < t" using t(1) by simp
  ultimately show ?thesis using assms(2,3) t(2) ne by (simp add: decode_inv_def seen_def INIT_ATTR_def attr_typed_def body_typed_def)
qed

lemma decode_recognized_inv:
  assumes "decode_recognized strerror want pdu msg mi fp t k = Some (Inr (msg', mi', fp'))"
    and k: "find_attr_desc (unat t) = Some (name, k)" "GETVAL16H pdu 0 = Some t" and inv: "decode_inv hdr msg mi fp" "length (mh_tsx_id hdr) = 12"
  shows "decode_inv hdr msg' mi' fp'"
proof -
  obtain res where res: "decode_attr k pdu (msg_hdr msg) = Some res" using assms(1) by (auto simp: decode_recognized_def bind_eq_Some_conv)
  then obtain a where a: "decode_attr k pdu (msg_hdr msg) = Some (Inr a)" using assms(1) by (cases res) (auto simp: decode_recognized_def)
  have "msg_hdr msg = hdr" using inv by (simp add: decode_inv_def)
  then have ty: "attr_typed a" "at_type a = t" using decode_attr_typed [OF a] inv(2) k by (auto simp: attr_typed_def)
  have "length (msg_attrs msg) < PJ_STUN_MAX_ATTR" "msg' = msg\<lparr>msg_attrs := msg_attrs msg @ [a]\<rparr>"
      "t = PJ_STUN_ATTR_MESSAGE_INTEGRITY \<longrightarrow> \<not> mi \<and> \<not> fp" "t = PJ_STUN_ATTR_FINGERPRINT \<longrightarrow> \<not> fp"
      "mi' = (mi \<or> t = PJ_STUN_ATTR_MESSAGE_INTEGRITY)" "fp' = (fp \<or> t = PJ_STUN_ATTR_FINGERPRINT)"
    using assms(1) a by (auto simp: decode_recognized_def Let_def split: if_splits)
  then show ?thesis using inv ty by (auto simp: decode_inv_def seen_def)
qed

lemma decode_one_inv:
  assumes "decode_one strerror want pdu pdu_len msg mi fp = Some (Inr (l, msg', mi', fp'))" "decode_inv hdr msg mi fp" "length (mh_tsx_id hdr) = 12"
  shows "decode_inv hdr msg' mi' fp'"
proof -
  obtain t len where t: "GETVAL16H pdu 0 = Some t" "GETVAL16H pdu 2 = Some len" "\<not> pdu_len < align4 (unat len)"
    using assms(1) by (auto simp: decode_one_def bind_eq_Some_conv Let_def split: if_splits)
  show ?thesis
  proof (cases "find_attr_desc (unat t)")
    case None
    then obtain res where res: "decode_unrecognized want pdu msg t = Some res" using assms(1) t by (auto simp: decode_one_def bind_eq_Some_conv)
    then have "res = Inr msg'" "mi' = mi" "fp' = fp" using assms(1) t None by (cases res; simp add: decode_one_def)+
    then show ?thesis using decode_unrecognized_inv [of want pdu msg t] res None assms(2) by simp
  next
    case (Some nk)
    then obtain name k where k: "find_attr_desc (unat t) = Some (name, k)" by (cases nk) simp
    then obtain res where res: "decode_recognized strerror want pdu msg mi fp t k = Some res" using assms(1) t by (auto simp: decode_one_def bind_eq_Some_conv)
    then have "res = Inr (msg', mi', fp')" using assms(1) t k by (cases res) (simp_all add: decode_one_def)
    then show ?thesis using decode_recognized_inv [OF _ k t(1) assms(2,3)] res by blast
  qed
qed

lemma decode_attrs_inv:
  assumes "decode_attrs strerror want start pos pdu_len msg mi fp = Some (Inr (pos', left, msg'))" "decode_inv hdr msg mi fp" "length (mh_tsx_id hdr) = 12"
  shows "(\<exists>mi' fp'. decode_inv hdr msg' mi' fp') \<and> pos' + left = pos + pdu_len"
  using assms
proof (induction strerror want start pos pdu_len msg mi fp rule: decode_attrs.induct)
  case (1 strerror want start pos pdu_len msg mi fp)
  show ?case
  proof (cases "pdu_len \<ge> 4")
    case True
    obtain l m mi' fp' where one: "decode_one strerror want (drop pos start) pdu_len msg mi fp = Some (Inr (l, m, mi', fp'))"
      using "1.prems"(1) True by (subst (asm) decode_attrs.simps) (auto split: option.splits sum.splits prod.splits)
    have inv: "decode_inv hdr m mi' fp'" by (rule decode_one_inv [OF one "1.prems"(2,3)])
    show ?thesis
    proof (cases "l + 4 \<ge> pdu_len")
      case t: True
      then have "decode_attrs strerror want start (pos + pdu_len) 0 m mi' fp' = Some (Inr (pos', left, msg'))"
        using "1.prems"(1) True one by (subst (asm) decode_attrs.simps) simp
      then show ?thesis using "1.IH"(1) [OF True one refl refl refl refl t _ inv "1.prems"(3)] by simp
    next
      case f: False
      then have "decode_attrs strerror want start (pos + (l + 4)) (pdu_len - (l + 4)) m mi' fp' = Some (Inr (pos', left, msg'))"
        using "1.prems"(1) True one by (subst (asm) decode_attrs.simps) simp
      then show ?thesis using "1.IH"(2) [OF True one refl refl refl refl f _ inv "1.prems"(3)] f by simp
    qed
  next
    case False
    then show ?thesis using "1.prems" by (subst (asm) decode_attrs.simps) auto
  qed
qed

subsection \<open>Error responses\<close>

definition response_code :: "pj_status \<Rightarrow> nat" where
  "response_code st = (if st = PJ_STATUS_FROM_STUN_CODE PJ_STUN_SC_UNKNOWN_ATTRIBUTE then PJ_STUN_SC_UNKNOWN_ATTRIBUTE
     else if st = PJNATH_ESTUNTOOMANYATTR then PJ_STUN_SC_SERVER_ERROR else PJ_STUN_SC_BAD_REQUEST)"

text \<open>The response to a request with this header that fails with this status.\<close>

definition is_error_response :: "pj_stun_msg_hdr \<Rightarrow> pj_status \<Rightarrow> pj_stun_msg \<Rightarrow> bool" where
  "is_error_response hdr st r \<longleftrightarrow>
     msg_hdr r = \<lparr>mh_type = mh_type hdr OR PJ_STUN_ERROR_RESPONSE_BIT, mh_length = 0, mh_magic = mh_magic hdr, mh_tsx_id = mh_tsx_id hdr\<rparr> \<and>
     (\<exists>reason us. msg_attrs r = INIT_ATTR PJ_STUN_ATTR_ERROR_CODE (4 + length reason) (Errcode_body (response_code st) reason) #
        (if st = PJ_STATUS_FROM_STUN_CODE PJ_STUN_SC_UNKNOWN_ATTRIBUTE
         then [INIT_ATTR PJ_STUN_ATTR_UNKNOWN_ATTRIBUTES (length us * 2) (Unknown_body us)] else []))"

lemma reason_texts:
  "pj_stun_get_err_reason PJ_STUN_SC_BAD_REQUEST = Some (Some ''Bad Request'')"
  "pj_stun_get_err_reason PJ_STUN_SC_UNKNOWN_ATTRIBUTE = Some (Some ''Unknown Attribute'')"
  "pj_stun_get_err_reason PJ_STUN_SC_SERVER_ERROR = Some (Some ''Server Error'')"
  by code_simp+

lemma response_reason: "c \<in> {PJ_STUN_SC_BAD_REQUEST, PJ_STUN_SC_UNKNOWN_ATTRIBUTE, PJ_STUN_SC_SERVER_ERROR} \<Longrightarrow> c \<noteq> 0 \<and> (\<exists>str. pj_stun_get_err_reason c = Some (Some str))"
  using reason_texts by (auto simp: PJ_STUN_SC_BAD_REQUEST_def PJ_STUN_SC_UNKNOWN_ATTRIBUTE_def PJ_STUN_SC_SERVER_ERROR_def)

lemma error_bit: "t OR PJ_STUN_ERROR_RESPONSE_BIT \<noteq> 0"
proof
  assume "t OR PJ_STUN_ERROR_RESPONSE_BIT = 0"
  then have "bit (t OR PJ_STUN_ERROR_RESPONSE_BIT) 4 = bit 0 4" by simp
  then show False by (simp add: PJ_STUN_ERROR_RESPONSE_BIT_def bit_or_iff)
qed

lemma create_error_response:
  assumes "STUN_IS_REQUEST (mh_type (msg_hdr msg))" "c \<noteq> 0" "pj_stun_get_err_reason c = Some (Some str)"
  shows "\<exists>reason. pj_stun_msg_create_response msg c em = Some (Inr
    \<lparr>msg_hdr = \<lparr>mh_type = mh_type (msg_hdr msg) OR PJ_STUN_ERROR_RESPONSE_BIT, mh_length = 0, mh_magic = mh_magic (msg_hdr msg), mh_tsx_id = mh_tsx_id (msg_hdr msg)\<rparr>,
      msg_attrs = [INIT_ATTR PJ_STUN_ATTR_ERROR_CODE (4 + length reason) (Errcode_body c reason)]\<rparr>)"
proof -
  obtain reason where "pj_stun_errcode_attr_create c em = Some (Inr (INIT_ATTR PJ_STUN_ATTR_ERROR_CODE (4 + length reason) (Errcode_body c reason)))"
    using assms(2,3) by (cases em) (auto simp: pj_stun_errcode_attr_create_def)
  then show ?thesis using assms(1,2) error_bit
    by (auto simp: pj_stun_msg_create_response_def pj_stun_msg_create_def pj_stun_msg_init_def pj_stun_msg_add_errcode_attr_def add_created_def
        pj_stun_msg_add_attr_def PJ_STUN_MAX_ATTR_def)
qed

lemma response_code_known: "response_code st \<in> {PJ_STUN_SC_BAD_REQUEST, PJ_STUN_SC_UNKNOWN_ATTRIBUTE, PJ_STUN_SC_SERVER_ERROR}"
  by (simp add: response_code_def)

text \<open>Every failure of the loop carries its response when one is wanted.\<close>

definition reply_ok :: "bool \<Rightarrow> pj_stun_msg_hdr \<Rightarrow> pj_status \<times> pj_stun_msg option \<Rightarrow> bool" where
  "reply_ok want hdr f \<longleftrightarrow> fst f \<noteq> PJ_SUCCESS \<and> (if want then \<exists>r. snd f = Some r \<and> is_error_response hdr (fst f) r else snd f = None)"

lemma fail_with_reply:
  assumes "fail_with want msg st c em = Some (Inl f)" "want \<Longrightarrow> STUN_IS_REQUEST (mh_type (msg_hdr msg))"
    and "c = response_code st" "st \<noteq> PJ_SUCCESS" "st \<noteq> PJ_STATUS_FROM_STUN_CODE PJ_STUN_SC_UNKNOWN_ATTRIBUTE"
  shows "reply_ok want (msg_hdr msg) f"
proof (cases want)
  case True
  obtain str where c: "c \<noteq> 0" "pj_stun_get_err_reason c = Some (Some str)" using response_reason [OF response_code_known [of st, folded assms(3)]] by blast
  from create_error_response [OF assms(2) [OF True] c, of em]
  obtain reason r where r: "pj_stun_msg_create_response msg c em = Some (Inr r)"
      "msg_hdr r = \<lparr>mh_type = mh_type (msg_hdr msg) OR PJ_STUN_ERROR_RESPONSE_BIT, mh_length = 0, mh_magic = mh_magic (msg_hdr msg), mh_tsx_id = mh_tsx_id (msg_hdr msg)\<rparr>"
      "msg_attrs r = [INIT_ATTR PJ_STUN_ATTR_ERROR_CODE (4 + length reason) (Errcode_body c reason)]"
    by (metis pj_stun_msg.select_convs(1,2))
  have "f = (st, Some r)" using assms(1) True r(1) by (simp add: fail_with_def reply_def)
  moreover have "is_error_response (msg_hdr msg) st r" unfolding is_error_response_def r(2,3) assms(3) using assms(5) by (simp, blast)
  ultimately show ?thesis using assms(4) True by (simp add: reply_ok_def)
qed (use assms in \<open>auto simp: fail_with_def reply_def reply_ok_def\<close>)

lemma decode_sockaddr_error:
  assumes "decode_sockaddr_attr buf hdr = Some (Inl st)"
  shows "st \<in> {PJNATH_ESTUNINATTRLEN, PJNATH_EINVAF, PJ_ETOOMANY}"
  using assms by (auto simp: decode_sockaddr_attr_def bind_eq_Some_conv Let_def split: if_splits)

lemma decode_xored_error:
  assumes "decode_xored_sockaddr_attr buf hdr = Some (Inl st)"
  shows "st \<in> {PJNATH_ESTUNINATTRLEN, PJNATH_EINVAF, PJ_ETOOMANY}"
proof -
  obtain res where res: "decode_sockaddr_attr buf hdr = Some res" using assms by (auto simp: decode_xored_sockaddr_attr_def bind_eq_Some_conv)
  show ?thesis
  proof (cases res)
    case (Inl e)
    then show ?thesis using assms res decode_sockaddr_error by (simp add: decode_xored_sockaddr_attr_def)
  next
    case (Inr a)
    then show ?thesis using assms res by (cases "at_body a") (simp_all add: decode_xored_sockaddr_attr_def split: if_splits)
  qed
qed

lemma decode_attr_error:
  assumes "decode_attr k buf hdr = Some (Inl st)"
  shows "st \<in> {PJNATH_ESTUNINATTRLEN, PJNATH_EINVAF, PJ_ETOOMANY}"
  using assms decode_sockaddr_error decode_xored_error
  by (cases k) (auto simp: decode_attr_def decode_empty_attr_def decode_string_attr_def decode_uint_attr_def
        decode_uint64_attr_def decode_binary_attr_def decode_msgint_attr_def decode_errcode_attr_def decode_unknown_attr_def bind_eq_Some_conv Let_def split: if_splits)

lemma decode_recognized_error:
  assumes "decode_recognized strerror want pdu msg mi fp t k = Some (Inl f)" "want \<Longrightarrow> STUN_IS_REQUEST (mh_type (msg_hdr msg))"
  shows "reply_ok want (msg_hdr msg) f"
proof -
  obtain res where res: "decode_attr k pdu (msg_hdr msg) = Some res" using assms(1) by (auto simp: decode_recognized_def bind_eq_Some_conv)
  show ?thesis
  proof (cases res)
    case (Inl st)
    then have "st \<in> {PJNATH_ESTUNINATTRLEN, PJNATH_EINVAF, PJ_ETOOMANY}" using res decode_attr_error by simp
    then have "PJ_STUN_SC_BAD_REQUEST = response_code st" "st \<noteq> PJ_SUCCESS" "st \<noteq> PJ_STATUS_FROM_STUN_CODE PJ_STUN_SC_UNKNOWN_ATTRIBUTE"
      by (auto simp: response_code_def)
    moreover obtain em where "fail_with want msg st PJ_STUN_SC_BAD_REQUEST em = Some (Inl f :: _ + (pj_stun_msg \<times> bool \<times> bool))" using assms(1) res Inl by (auto simp: decode_recognized_def)
    ultimately show ?thesis using fail_with_reply assms(2) by blast
  next
    case (Inr a)
    have "fail_with want msg PJNATH_ESTUNDUPATTR PJ_STUN_SC_BAD_REQUEST None = Some (Inl f :: _ + (pj_stun_msg \<times> bool \<times> bool)) \<or>
        fail_with want msg PJNATH_ESTUNFINGERPOS PJ_STUN_SC_BAD_REQUEST None = Some (Inl f :: _ + (pj_stun_msg \<times> bool \<times> bool)) \<or>
        fail_with want msg PJNATH_ESTUNTOOMANYATTR PJ_STUN_SC_SERVER_ERROR None = Some (Inl f :: _ + (pj_stun_msg \<times> bool \<times> bool))"
      using assms(1) res Inr by (auto simp: decode_recognized_def Let_def split: if_splits)
    moreover have "PJ_STUN_SC_BAD_REQUEST = response_code PJNATH_ESTUNDUPATTR" "PJ_STUN_SC_BAD_REQUEST = response_code PJNATH_ESTUNFINGERPOS"
        "PJ_STUN_SC_SERVER_ERROR = response_code PJNATH_ESTUNTOOMANYATTR" by (simp_all add: response_code_def)
    ultimately show ?thesis using fail_with_reply [OF _ assms(2)] by blast
  qed
qed

lemma decode_unrecognized_error:
  assumes "decode_unrecognized want pdu msg t = Some (Inl f)" "want \<Longrightarrow> STUN_IS_REQUEST (mh_type (msg_hdr msg))"
  shows "reply_ok want (msg_hdr msg) f"
proof (cases "t \<le> 0x7FFF")
  case True
  let ?st = "PJ_STATUS_FROM_STUN_CODE PJ_STUN_SC_UNKNOWN_ATTRIBUTE"
  show ?thesis
  proof (cases want)
    case w: True
    have c: "response_code ?st = PJ_STUN_SC_UNKNOWN_ATTRIBUTE" by (simp add: response_code_def)
    have "PJ_STUN_SC_UNKNOWN_ATTRIBUTE \<noteq> 0" by (simp add: PJ_STUN_SC_UNKNOWN_ATTRIBUTE_def)
    from create_error_response [OF assms(2) [OF w] this reason_texts(2), of None]
    obtain reason r where r: "pj_stun_msg_create_response msg PJ_STUN_SC_UNKNOWN_ATTRIBUTE None = Some (Inr r)"
        "msg_hdr r = \<lparr>mh_type = mh_type (msg_hdr msg) OR PJ_STUN_ERROR_RESPONSE_BIT, mh_length = 0, mh_magic = mh_magic (msg_hdr msg), mh_tsx_id = mh_tsx_id (msg_hdr msg)\<rparr>"
        "msg_attrs r = [INIT_ATTR PJ_STUN_ATTR_ERROR_CODE (4 + length reason) (Errcode_body PJ_STUN_SC_UNKNOWN_ATTRIBUTE reason)]"
      by (metis pj_stun_msg.select_convs(1,2))
    let ?r = "r\<lparr>msg_attrs := msg_attrs r @ [INIT_ATTR PJ_STUN_ATTR_UNKNOWN_ATTRIBUTES (length [t] * 2) (Unknown_body [t])]\<rparr>"
    have "f = (?st, Some ?r)" using assms(1) True w r(1,3)
      by (simp add: decode_unrecognized_def reply_def pj_stun_msg_add_unknown_attr_def pj_stun_unknown_attr_create_def add_created_def pj_stun_msg_add_attr_def PJ_STUN_MAX_ATTR_def)
    moreover have "is_error_response (msg_hdr msg) ?st ?r"
      unfolding is_error_response_def c using r(2,3) by (intro conjI exI [of _ reason] exI [of _ "[t]"]) simp_all
    ultimately show ?thesis using w by (simp add: reply_ok_def)
  qed (use assms True in \<open>auto simp: decode_unrecognized_def reply_def reply_ok_def\<close>)
next
  case False
  have t: "t \<noteq> 0" using False by auto
  have "fail_with want msg PJNATH_ESTUNTOOMANYATTR PJ_STUN_SC_SERVER_ERROR None = Some (Inl f :: _ + pj_stun_msg)"
    using assms(1) False t by (auto simp: decode_unrecognized_def pj_stun_binary_attr_create_def bind_eq_Some_conv split: if_splits)
  moreover have "PJ_STUN_SC_SERVER_ERROR = response_code PJNATH_ESTUNTOOMANYATTR" by (simp add: response_code_def)
  ultimately show ?thesis using fail_with_reply [OF _ assms(2)] by blast
qed

lemma decode_one_error:
  assumes "decode_one strerror want pdu pdu_len msg mi fp = Some (Inl f)" "want \<Longrightarrow> STUN_IS_REQUEST (mh_type (msg_hdr msg))"
  shows "reply_ok want (msg_hdr msg) f"
proof -
  obtain t len where t: "GETVAL16H pdu 0 = Some t" "GETVAL16H pdu 2 = Some len"
    using assms(1) by (auto simp: decode_one_def bind_eq_Some_conv)
  show ?thesis
  proof (cases "pdu_len < align4 (unat len)")
    case True
    moreover have "PJ_STUN_SC_BAD_REQUEST = response_code PJNATH_ESTUNINATTRLEN" by (simp add: response_code_def)
    moreover obtain em where "fail_with want msg PJNATH_ESTUNINATTRLEN PJ_STUN_SC_BAD_REQUEST em = Some (Inl f :: _ + (nat \<times> pj_stun_msg \<times> bool \<times> bool))"
      using assms(1) t True by (auto simp: decode_one_def)
    ultimately show ?thesis using fail_with_reply [OF _ assms(2)] by blast
  next
    case False
    show ?thesis
    proof (cases "find_attr_desc (unat t)")
      case None
      then obtain res where res: "decode_unrecognized want pdu msg t = Some res" using assms(1) t False by (auto simp: decode_one_def bind_eq_Some_conv)
      then have "res = Inl f" using assms(1) t False None by (cases res) (simp_all add: decode_one_def)
      then show ?thesis using decode_unrecognized_error assms(2) res by blast
    next
      case (Some nk)
      then obtain name k where k: "find_attr_desc (unat t) = Some (name, k)" by (cases nk) simp
      then obtain res where res: "decode_recognized strerror want pdu msg mi fp t k = Some res" using assms(1) t False by (auto simp: decode_one_def bind_eq_Some_conv)
      then have "res = Inl f" using assms(1) t False k by (cases res) (simp_all add: decode_one_def)
      then show ?thesis using decode_recognized_error assms(2) res by blast
    qed
  qed
qed

lemma decode_attrs_error:
  assumes "decode_attrs strerror want start pos pdu_len msg mi fp = Some (Inl f)" "decode_inv hdr msg mi fp" "length (mh_tsx_id hdr) = 12"
    and "want \<Longrightarrow> STUN_IS_REQUEST (mh_type hdr)"
  shows "reply_ok want hdr f"
  using assms
proof (induction strerror want start pos pdu_len msg mi fp rule: decode_attrs.induct)
  case (1 strerror want start pos pdu_len msg mi fp)
  have len: "pdu_len \<ge> 4" using "1.prems"(1) by (subst (asm) decode_attrs.simps) (auto split: if_splits)
  have hdr: "msg_hdr msg = hdr" using "1.prems"(2) by (simp add: decode_inv_def)
  obtain res where res: "decode_one strerror want (drop pos start) pdu_len msg mi fp = Some res"
    using "1.prems"(1) len by (subst (asm) decode_attrs.simps) (auto split: option.splits)
  show ?case
  proof (cases res)
    case (Inl e)
    then have "f = e" using "1.prems"(1) len res by (subst (asm) decode_attrs.simps) simp
    then show ?thesis using decode_one_error [of strerror want "drop pos start" pdu_len msg mi fp f] res Inl "1.prems"(4) hdr by simp
  next
    case (Inr r)
    obtain l m mi' fp' where r: "r = (l, m, mi', fp')" by (cases r) auto
    then have one: "decode_one strerror want (drop pos start) pdu_len msg mi fp = Some (Inr (l, m, mi', fp'))" using res Inr by simp
    have inv: "decode_inv hdr m mi' fp'" by (rule decode_one_inv [OF one "1.prems"(2,3)])
    show ?thesis
    proof (cases "l + 4 \<ge> pdu_len")
      case t: True
      then have "decode_attrs strerror want start (pos + pdu_len) 0 m mi' fp' = Some (Inl f)"
        using "1.prems"(1) len one by (subst (asm) decode_attrs.simps) simp
      then show ?thesis using "1.IH"(1) [OF len one refl refl refl refl t _ inv "1.prems"(3,4)] by simp
    next
      case f: False
      then have "decode_attrs strerror want start (pos + (l + 4)) (pdu_len - (l + 4)) m mi' fp' = Some (Inl f)"
        using "1.prems"(1) len one by (subst (asm) decode_attrs.simps) simp
      then show ?thesis using "1.IH"(2) [OF len one refl refl refl refl f _ inv "1.prems"(3,4)] by simp
    qed
  qed
qed

lemma decode_hdr_tsx: "decode_hdr p = Some hdr \<Longrightarrow> length (mh_tsx_id hdr) = 12"
  by (auto simp: decode_hdr_def bind_eq_Some_conv dest: get_bytes_length)

lemma decode_inv_init: "decode_inv hdr \<lparr>msg_hdr = hdr, msg_attrs = []\<rparr> False False"
  by (simp add: decode_inv_def seen_def)

lemma decode_cases:
  assumes "pj_stun_msg_decode strerror p options want = Some res"
  obtains (early) st where "res = Inl (st, None)" "p = [] \<or> options AND PJ_STUN_CHECK_PACKET \<noteq> 0" "st \<noteq> PJ_SUCCESS"
  | (failed) hdr f where "decode_hdr p = Some hdr" "res = Inl f"
      "decode_attrs strerror (want \<and> STUN_IS_REQUEST (mh_type hdr)) p 20 (unat (mh_length hdr)) \<lparr>msg_hdr = hdr, msg_attrs = []\<rparr> False False = Some (Inl f)"
  | (parsed) hdr pos left msg where "decode_hdr p = Some hdr"
      "decode_attrs strerror (want \<and> STUN_IS_REQUEST (mh_type hdr)) p 20 (unat (mh_length hdr)) \<lparr>msg_hdr = hdr, msg_attrs = []\<rparr> False False = Some (Inr (pos, left, msg))"
      "res = (if left > 0 then Inl (PJNATH_EINSTUNMSGLEN, None) else Inr (msg, pos))"
proof -
  consider "p = []" | st where "p \<noteq> []" "options AND PJ_STUN_CHECK_PACKET \<noteq> 0" "pj_stun_msg_check p options = Some st" "st \<noteq> PJ_SUCCESS"
    | "p \<noteq> []" "(if options AND PJ_STUN_CHECK_PACKET \<noteq> 0 then pj_stun_msg_check p options else Some PJ_SUCCESS) = Some PJ_SUCCESS"
    using assms by (fastforce simp: pj_stun_msg_decode_def bind_eq_Some_conv split: if_splits)
  then show thesis
  proof cases
    case 1
    then have "res = Inl (PJ_EINVAL, None)" using assms by (simp add: pj_stun_msg_decode_def)
    then show ?thesis using early 1 by blast
  next
    case (2 st)
    then have "res = Inl (st, None)" using assms by (simp add: pj_stun_msg_decode_def)
    then show ?thesis using early 2 by blast
  next
    case 3
    then have eq: "pj_stun_msg_decode strerror p options want = decode_hdr p \<bind> (\<lambda>hdr.
        decode_attrs strerror (want \<and> STUN_IS_REQUEST (mh_type hdr)) p 20 (unat (mh_length hdr)) \<lparr>msg_hdr = hdr, msg_attrs = []\<rparr> False False \<bind>
        (\<lambda>res. Some (case res of Inl e \<Rightarrow> Inl e | Inr (pos, pdu_len, msg) \<Rightarrow> if pdu_len > 0 then Inl (PJNATH_EINSTUNMSGLEN, None) else Inr (msg, pos))))"
      by (simp add: pj_stun_msg_decode_def Let_def)
    then obtain hdr r where h: "decode_hdr p = Some hdr"
        "decode_attrs strerror (want \<and> STUN_IS_REQUEST (mh_type hdr)) p 20 (unat (mh_length hdr)) \<lparr>msg_hdr = hdr, msg_attrs = []\<rparr> False False = Some r"
        "res = (case r of Inl e \<Rightarrow> Inl e | Inr (pos, pdu_len, msg) \<Rightarrow> if pdu_len > 0 then Inl (PJNATH_EINSTUNMSGLEN, None) else Inr (msg, pos))"
      using assms unfolding eq by (auto simp: bind_eq_Some_conv)
    show ?thesis
    proof (cases r)
      case (Inl f)
      then show ?thesis using failed h by simp
    next
      case (Inr x)
      then show ?thesis using parsed h by (cases x) simp
    qed
  qed
qed

subsection \<open>Properties\<close>

text \<open>
  C17. Whatever bytes arrive, a message that the decoder returns has at most 16 attributes, each with the body its type
  prescribes (an address with as many bytes as its family needs, a digest of 20 bytes, at most 16 unknown types, and so on), no unknown attribute whose type
  says it must be understood, and MESSAGE-INTEGRITY and FINGERPRINT at most once; the parsed length is that of the header.
\<close>

theorem stun_decode_typed:
  assumes "pj_stun_msg_decode strerror p options want = Some (Inr (msg, n))"
  shows "length (msg_attrs msg) \<le> PJ_STUN_MAX_ATTR \<and> list_all attr_typed (msg_attrs msg) \<and> length (mh_tsx_id (msg_hdr msg)) = 12 \<and>
    length (filter (\<lambda>a. at_type a = PJ_STUN_ATTR_MESSAGE_INTEGRITY) (msg_attrs msg)) \<le> 1 \<and>
    length (filter (\<lambda>a. at_type a = PJ_STUN_ATTR_FINGERPRINT) (msg_attrs msg)) \<le> 1 \<and>
    decode_hdr p = Some (msg_hdr msg) \<and> n = 20 + unat (mh_length (msg_hdr msg))"
  using assms
proof (cases rule: decode_cases)
  case (parsed hdr pos left msg')
  then have m: "msg' = msg" "pos = n" "left = 0" by (simp_all split: if_splits)
  from decode_attrs_inv [OF parsed(2) decode_inv_init decode_hdr_tsx [OF parsed(1)]] obtain mi fp where
    "decode_inv hdr msg mi fp" "n = 20 + unat (mh_length hdr)" unfolding m by auto
  then show ?thesis using parsed(1) decode_hdr_tsx [OF parsed(1)] by (simp add: decode_inv_def seen_def split: if_splits)
qed simp_all

definition demo_request :: "byte list" where
  "demo_request = [0, 1, 0, 8, 0x21, 0x12, 0xA4, 0x42, 1, 2, 3, 4, 5, 6, 7, 8, 9, 10, 11, 12, 0, 6, 0, 2, 0x61, 0x62, 0, 0]"

theorem stun_decode_typed_witness:
  "\<exists>msg. pj_stun_msg_decode (\<lambda>_. []) demo_request 0 True = Some (Inr (msg, 28)) \<and>
     map at_body (msg_attrs msg) = [String_body [0x61, 0x62]] \<and> list_all attr_typed (msg_attrs msg)"
proof -
  define msg where "msg = \<lparr>msg_hdr = \<lparr>mh_type = 1, mh_length = 8, mh_magic = 0x2112A442, mh_tsx_id = [1, 2, 3, 4, 5, 6, 7, 8, 9, 10, 11, 12]\<rparr>,
     msg_attrs = [\<lparr>at_type = 6, at_length = 2, at_body = String_body [0x61, 0x62]\<rparr>]\<rparr>"
  have d: "pj_stun_msg_decode (\<lambda>_. []) demo_request 0 True = Some (Inr (msg, 28))" unfolding msg_def by code_simp
  from stun_decode_typed [OF this] show ?thesis using d by (auto simp: msg_def)
qed


text \<open>A request with an attribute of the type 0x0031, which the program does not know.\<close>

definition demo_unknown :: "byte list" where
  "demo_unknown = [0, 1, 0, 4, 0x21, 0x12, 0xA4, 0x42, 1, 2, 3, 4, 5, 6, 7, 8, 9, 10, 11, 12, 0, 0x31, 0, 0]"



end
