(* ===== verification/Md5.thy ===== *)
theory Md5
  imports Sha1
begin

text \<open>
  MD5 and HMAC-MD5 (pjlib-util/src/pjlib-util/md5.c, hmac_md5.c) on a little-endian machine, where
  \<^verbatim>\<open>byteReverse\<close> is empty. The unrolled steps rotate the names of the four working variables, so a step takes
  \<open>(w, x, y, z)\<close> and returns the tuple in the order in which the next step reads it. The lemmas show
  that the code computes MD5 as RFC 1321 defines it, however the message is cut into updates.
\<close>

subsection \<open>The transform\<close>

definition F1 :: "32 word \<Rightarrow> 32 word \<Rightarrow> 32 word \<Rightarrow> 32 word" where "F1 x y z = z XOR (x AND (y XOR z))"
definition F2 :: "32 word \<Rightarrow> 32 word \<Rightarrow> 32 word \<Rightarrow> 32 word" where "F2 x y z = F1 z x y"
definition F3 :: "32 word \<Rightarrow> 32 word \<Rightarrow> 32 word \<Rightarrow> 32 word" where "F3 x y z = x XOR y XOR z"
definition F4 :: "32 word \<Rightarrow> 32 word \<Rightarrow> 32 word \<Rightarrow> 32 word" where "F4 x y z = y XOR (x OR NOT z)"

type_synonym md5_vars = "32 word \<times> 32 word \<times> 32 word \<times> 32 word"

definition MD5STEP :: "(32 word \<Rightarrow> 32 word \<Rightarrow> 32 word \<Rightarrow> 32 word) \<Rightarrow> 32 word \<Rightarrow> nat \<Rightarrow> md5_vars \<Rightarrow> md5_vars" where
  "MD5STEP f data s = (\<lambda>(w, x, y, z).
     let w = w + (f x y z + data); w = push_bit s w OR drop_bit (32 - s) w; w = w + x in (z, w, x, y))"

text \<open>The arguments of the 64 steps: the function, the index of the input word, the constant, the shift.\<close>

definition md5_steps :: "((32 word \<Rightarrow> 32 word \<Rightarrow> 32 word \<Rightarrow> 32 word) \<times> nat \<times> 32 word \<times> nat) list" where
  "md5_steps = [
    (F1, 0, 0xd76aa478, 7), (F1, 1, 0xe8c7b756, 12), (F1, 2, 0x242070db, 17), (F1, 3, 0xc1bdceee, 22),
    (F1, 4, 0xf57c0faf, 7), (F1, 5, 0x4787c62a, 12), (F1, 6, 0xa8304613, 17), (F1, 7, 0xfd469501, 22),
    (F1, 8, 0x698098d8, 7), (F1, 9, 0x8b44f7af, 12), (F1, 10, 0xffff5bb1, 17), (F1, 11, 0x895cd7be, 22),
    (F1, 12, 0x6b901122, 7), (F1, 13, 0xfd987193, 12), (F1, 14, 0xa679438e, 17), (F1, 15, 0x49b40821, 22),
    (F2, 1, 0xf61e2562, 5), (F2, 6, 0xc040b340, 9), (F2, 11, 0x265e5a51, 14), (F2, 0, 0xe9b6c7aa, 20),
    (F2, 5, 0xd62f105d, 5), (F2, 10, 0x02441453, 9), (F2, 15, 0xd8a1e681, 14), (F2, 4, 0xe7d3fbc8, 20),
    (F2, 9, 0x21e1cde6, 5), (F2, 14, 0xc33707d6, 9), (F2, 3, 0xf4d50d87, 14), (F2, 8, 0x455a14ed, 20),
    (F2, 13, 0xa9e3e905, 5), (F2, 2, 0xfcefa3f8, 9), (F2, 7, 0x676f02d9, 14), (F2, 12, 0x8d2a4c8a, 20),
    (F3, 5, 0xfffa3942, 4), (F3, 8, 0x8771f681, 11), (F3, 11, 0x6d9d6122, 16), (F3, 14, 0xfde5380c, 23),
    (F3, 1, 0xa4beea44, 4), (F3, 4, 0x4bdecfa9, 11), (F3, 7, 0xf6bb4b60, 16), (F3, 10, 0xbebfbc70, 23),
    (F3, 13, 0x289b7ec6, 4), (F3, 0, 0xeaa127fa, 11), (F3, 3, 0xd4ef3085, 16), (F3, 6, 0x04881d05, 23),
    (F3, 9, 0xd9d4d039, 4), (F3, 12, 0xe6db99e5, 11), (F3, 15, 0x1fa27cf8, 16), (F3, 2, 0xc4ac5665, 23),
    (F4, 0, 0xf4292244, 6), (F4, 7, 0x432aff97, 10), (F4, 14, 0xab9423a7, 15), (F4, 5, 0xfc93a039, 21),
    (F4, 12, 0x655b59c3, 6), (F4, 3, 0x8f0ccc92, 10), (F4, 10, 0xffeff47d, 15), (F4, 1, 0x85845dd1, 21),
    (F4, 8, 0x6fa87e4f, 6), (F4, 15, 0xfe2ce6e0, 10), (F4, 6, 0xa3014314, 15), (F4, 13, 0x4e0811a1, 21),
    (F4, 4, 0xf7537e82, 6), (F4, 11, 0xbd3af235, 10), (F4, 2, 0x2ad7d2bb, 15), (F4, 9, 0xeb86d391, 21)]"

definition MD5Transform :: "32 word list \<Rightarrow> 32 word list \<Rightarrow> 32 word list" where
  "MD5Transform buf inp =
     (let (a, b, c, d) = fold (\<lambda>(f, k, T, s). MD5STEP f (inp ! k + T) s) md5_steps (buf ! 0, buf ! 1, buf ! 2, buf ! 3)
      in [buf ! 0 + a, buf ! 1 + b, buf ! 2 + c, buf ! 3 + d])"

subsection \<open>The context\<close>

record pj_md5_context =
  md_buf :: "32 word list"
  md_bits0 :: "32 word"
  md_bits1 :: "32 word"
  md_in :: "byte list"

definition pj_md5_init :: "pj_md5_context \<Rightarrow> pj_md5_context" where
  "pj_md5_init ctx = ctx\<lparr>md_buf := [0x67452301, 0xefcdab89, 0x98badcfe, 0x10325476], md_bits0 := 0, md_bits1 := 0\<rparr>"

function md5_chunks :: "pj_md5_context \<Rightarrow> byte list \<Rightarrow> pj_md5_context \<times> byte list" where
  "md5_chunks ctx buf =
     (if 64 \<le> length buf
      then (let ctx = ctx\<lparr>md_in := memcpy_at (md_in ctx) 0 (take 64 buf)\<rparr>;
                ctx = ctx\<lparr>md_buf := MD5Transform (md_buf ctx) (le_words (md_in ctx))\<rparr>
            in md5_chunks ctx (drop 64 buf))
      else (ctx, buf))"
  by pat_completeness auto
termination by (relation "measure (\<lambda>(_, buf). length buf)") auto

declare md5_chunks.simps [simp del]

definition pj_md5_update :: "pj_md5_context \<Rightarrow> byte list \<Rightarrow> pj_md5_context" where
  "pj_md5_update ctx buf =
     (let len = length buf;
          t = md_bits0 ctx;
          bits0 = t + push_bit 3 (of_nat len);
          bits1 = (if bits0 < t then md_bits1 ctx + 1 else md_bits1 ctx) + drop_bit 29 (of_nat len);
          ctx = ctx\<lparr>md_bits0 := bits0, md_bits1 := bits1\<rparr>;
          t = unat (drop_bit 3 t AND 0x3f)
      in if t \<noteq> 0 \<and> len < 64 - t then ctx\<lparr>md_in := memcpy_at (md_in ctx) t buf\<rparr>
         else (let (ctx, buf) =
                 (if t \<noteq> 0
                  then (let ctx = ctx\<lparr>md_in := memcpy_at (md_in ctx) t (take (64 - t) buf)\<rparr>
                        in (ctx\<lparr>md_buf := MD5Transform (md_buf ctx) (le_words (md_in ctx))\<rparr>, drop (64 - t) buf))
                  else (ctx, buf));
                (ctx, buf) = md5_chunks ctx buf
               in ctx\<lparr>md_in := memcpy_at (md_in ctx) 0 buf\<rparr>))"

text \<open>The words 14 and 15 of the input are written through a word pointer, so as four bytes each, the lowest first.\<close>

definition pj_md5_final :: "pj_md5_context \<Rightarrow> byte list \<times> pj_md5_context" where
  "pj_md5_final ctx =
     (let cnt = unat (drop_bit 3 (md_bits0 ctx) AND 0x3F);
          ctx = ctx\<lparr>md_in := (md_in ctx)[cnt := 0x80]\<rparr>;
          p = cnt + 1;
          cnt = 64 - 1 - cnt;
          ctx = (if cnt < 8
                 then (let ctx = ctx\<lparr>md_in := memcpy_at (md_in ctx) p (replicate cnt 0)\<rparr>;
                           ctx = ctx\<lparr>md_buf := MD5Transform (md_buf ctx) (le_words (md_in ctx))\<rparr>
                       in ctx\<lparr>md_in := memcpy_at (md_in ctx) 0 (replicate 56 0)\<rparr>)
                 else ctx\<lparr>md_in := memcpy_at (md_in ctx) p (replicate (cnt - 8) 0)\<rparr>);
          ctx = ctx\<lparr>md_in := memcpy_at (md_in ctx) 56 (le_bytes32 (md_bits0 ctx))\<rparr>;
          ctx = ctx\<lparr>md_in := memcpy_at (md_in ctx) 60 (le_bytes32 (md_bits1 ctx))\<rparr>;
          ctx = ctx\<lparr>md_buf := MD5Transform (md_buf ctx) (le_words (md_in ctx))\<rparr>
      in (concat (map le_bytes32 (md_buf ctx)),
          \<lparr>md_buf = replicate 4 0, md_bits0 = 0, md_bits1 = 0, md_in = replicate 64 0\<rparr>))"

subsection \<open>HMAC-MD5\<close>

record pj_hmac_md5_context =
  hm_context :: pj_md5_context
  hm_k_opad :: "byte list"

definition pj_hmac_md5_init :: "pj_md5_context \<Rightarrow> pj_hmac_md5_context \<Rightarrow> byte list \<Rightarrow> pj_hmac_md5_context" where
  "pj_hmac_md5_init tctx hctx key =
     (let key = (if length key > 64 then fst (pj_md5_final (pj_md5_update (pj_md5_init tctx) key)) else key);
          k_ipad = memcpy_at (replicate 64 0) 0 key;
          k_opad = memcpy_at (replicate 64 0) 0 key;
          k_ipad = map (\<lambda>b. b XOR 0x36) k_ipad;
          k_opad = map (\<lambda>b. b XOR 0x5c) k_opad
      in hctx\<lparr>hm_context := pj_md5_update (pj_md5_init (hm_context hctx)) k_ipad, hm_k_opad := k_opad\<rparr>)"

definition pj_hmac_md5_update :: "pj_hmac_md5_context \<Rightarrow> byte list \<Rightarrow> pj_hmac_md5_context" where
  "pj_hmac_md5_update hctx input = hctx\<lparr>hm_context := pj_md5_update (hm_context hctx) input\<rparr>"

definition pj_hmac_md5_final :: "pj_hmac_md5_context \<Rightarrow> byte list \<times> pj_hmac_md5_context" where
  "pj_hmac_md5_final hctx =
     (let (digest, ctx) = pj_md5_final (hm_context hctx);
          ctx = pj_md5_init ctx;
          ctx = pj_md5_update ctx (hm_k_opad hctx);
          ctx = pj_md5_update ctx digest;
          (digest, ctx) = pj_md5_final ctx
      in (digest, hctx\<lparr>hm_context := ctx\<rparr>))"

definition pj_hmac_md5 :: "pj_md5_context \<Rightarrow> pj_hmac_md5_context \<Rightarrow> byte list \<Rightarrow> byte list \<Rightarrow> byte list" where
  "pj_hmac_md5 tctx ctx input key =
     fst (pj_hmac_md5_final (pj_hmac_md5_update (pj_hmac_md5_init tctx ctx key) input))"

subsection \<open>MD5 as RFC 1321 defines it\<close>

text \<open>The table of constants, \<open>T i\<close> being the integer part of 4294967296 times the absolute value of the sine of \<open>i\<close>.\<close>

definition rfc_T :: "32 word list" where
  "rfc_T = [
    0xd76aa478, 0xe8c7b756, 0x242070db, 0xc1bdceee, 0xf57c0faf, 0x4787c62a, 0xa8304613, 0xfd469501,
    0x698098d8, 0x8b44f7af, 0xffff5bb1, 0x895cd7be, 0x6b901122, 0xfd987193, 0xa679438e, 0x49b40821,
    0xf61e2562, 0xc040b340, 0x265e5a51, 0xe9b6c7aa, 0xd62f105d, 0x02441453, 0xd8a1e681, 0xe7d3fbc8,
    0x21e1cde6, 0xc33707d6, 0xf4d50d87, 0x455a14ed, 0xa9e3e905, 0xfcefa3f8, 0x676f02d9, 0x8d2a4c8a,
    0xfffa3942, 0x8771f681, 0x6d9d6122, 0xfde5380c, 0xa4beea44, 0x4bdecfa9, 0xf6bb4b60, 0xbebfbc70,
    0x289b7ec6, 0xeaa127fa, 0xd4ef3085, 0x04881d05, 0xd9d4d039, 0xe6db99e5, 0x1fa27cf8, 0xc4ac5665,
    0xf4292244, 0x432aff97, 0xab9423a7, 0xfc93a039, 0x655b59c3, 0x8f0ccc92, 0xffeff47d, 0x85845dd1,
    0x6fa87e4f, 0xfe2ce6e0, 0xa3014314, 0x4e0811a1, 0xf7537e82, 0xbd3af235, 0x2ad7d2bb, 0xeb86d391]"

definition rfc_F :: "32 word \<Rightarrow> 32 word \<Rightarrow> 32 word \<Rightarrow> 32 word" where "rfc_F X Y Z = (X AND Y) OR (NOT X AND Z)"
definition rfc_G :: "32 word \<Rightarrow> 32 word \<Rightarrow> 32 word \<Rightarrow> 32 word" where "rfc_G X Y Z = (X AND Z) OR (Y AND NOT Z)"
definition rfc_H :: "32 word \<Rightarrow> 32 word \<Rightarrow> 32 word \<Rightarrow> 32 word" where "rfc_H X Y Z = X XOR Y XOR Z"
definition rfc_I :: "32 word \<Rightarrow> 32 word \<Rightarrow> 32 word \<Rightarrow> 32 word" where "rfc_I X Y Z = Y XOR (X OR NOT Z)"

text \<open>Operation \<open>i\<close> of the four rounds: \<open>a = b + ((a + f(b, c, d) + X[k] + T[i]) <<< s)\<close>.\<close>

definition rfc_k :: "nat \<Rightarrow> nat" where
  "rfc_k i = (if i < 16 then i else if i < 32 then (5 * i + 1) mod 16 else if i < 48 then (3 * i + 5) mod 16 else 7 * i mod 16)"

definition rfc_s :: "nat \<Rightarrow> nat" where
  "rfc_s i = (if i < 16 then [7, 12, 17, 22] else if i < 32 then [5, 9, 14, 20]
     else if i < 48 then [4, 11, 16, 23] else [6, 10, 15, 21]) ! (i mod 4)"

definition rfc_step :: "byte list \<Rightarrow> nat \<Rightarrow> md5_vars \<Rightarrow> md5_vars" where
  "rfc_step M i = (\<lambda>(a, b, c, d).
     let f = (if i < 16 then rfc_F else if i < 32 then rfc_G else if i < 48 then rfc_H else rfc_I);
         k = rfc_k i;
         X = le_word32 (M ! (4 * k)) (M ! (4 * k + 1)) (M ! (4 * k + 2)) (M ! (4 * k + 3))
     in (d, b + rol (a + f b c d + X + rfc_T ! i) (rfc_s i), b, c))"

definition rfc_compress :: "32 word list \<Rightarrow> byte list \<Rightarrow> 32 word list" where
  "rfc_compress H M =
     (let (a, b, c, d) = fold (rfc_step M) [0..<64] (H ! 0, H ! 1, H ! 2, H ! 3)
      in [H ! 0 + a, H ! 1 + b, H ! 2 + c, H ! 3 + d])"

definition rfc_IV :: "32 word list" where
  "rfc_IV = [0x67452301, 0xefcdab89, 0x98badcfe, 0x10325476]"

definition md5_pad :: "byte list \<Rightarrow> byte list" where
  "md5_pad M = M @ [0x80] @ replicate ((119 - length M mod 64) mod 64) 0 @
     le_bytes32 (of_nat (8 * length M)) @ le_bytes32 (of_nat (8 * length M div 2 ^ 32))"

definition md5_digest :: "byte list \<Rightarrow> byte list" where
  "md5_digest M = concat (map le_bytes32 (absorb rfc_compress rfc_IV (md5_pad M)))"

subsection \<open>The transform is the compression function\<close>

lemma F_rfc: "F1 = rfc_F" "F2 = rfc_G" "F3 = rfc_H" "F4 = rfc_I"
proof -
  have "F1 x y z = rfc_F x y z" "F2 x y z = rfc_G x y z" for x y z
    by (rule bit_word_eqI; auto simp: F1_def F2_def rfc_F_def rfc_G_def bit_xor_iff bit_and_iff bit_or_iff bit_not_iff)+
  then show "F1 = rfc_F" "F2 = rfc_G" "F3 = rfc_H" "F4 = rfc_I"
    by (simp_all add: fun_eq_iff F3_def rfc_H_def F4_def rfc_I_def)
qed

lemma upt_64: "[0..<64] = [0, 1, 2, 3, 4, 5, 6, 7, 8, 9, 10, 11, 12, 13, 14, 15, 16, 17, 18, 19, 20, 21, 22, 23, 24, 25, 26, 27, 28,
  29, 30, 31, 32, 33, 34, 35, 36, 37, 38, 39, 40, 41, 42, 43, 44, 45, 46, 47, 48, 49, 50, 51, 52, 53, 54, 55, 56, 57, 58, 59, 60, 61, 62, 63 :: nat]"
  by (simp add: upt_rec)

lemma md5_steps_rfc:
  "md5_steps = map (\<lambda>i. (if i < 16 then rfc_F else if i < 32 then rfc_G else if i < 48 then rfc_H else rfc_I,
     rfc_k i, rfc_T ! i, rfc_s i)) [0..<64]"
  unfolding upt_64 list.map by (simp add: md5_steps_def F_rfc rfc_k_def rfc_s_def rfc_T_def)

lemma MD5Transform_rfc: "length M = 64 \<Longrightarrow> MD5Transform H (le_words M) = rfc_compress H M"
proof -
  assume M: "length M = 64"
  have "fold (\<lambda>(f, k, T, s). MD5STEP f (le_words M ! k + T) s) md5_steps v = fold (rfc_step M) [0..<64] v" for v
    unfolding md5_steps_rfc fold_map
  proof (rule fold_cong [OF refl refl])
    fix i assume "i \<in> set [0..<64]"
    moreover have "rfc_k i < 16" if "i < 64" using that by (auto simp: rfc_k_def)
    ultimately have "le_words M ! rfc_k i = le_word32 (M ! (4 * rfc_k i)) (M ! (4 * rfc_k i + 1)) (M ! (4 * rfc_k i + 2)) (M ! (4 * rfc_k i + 3))"
      using le_words_nth [of "rfc_k i" M] M by simp
    then show "((\<lambda>(f, k, T, s). MD5STEP f (le_words M ! k + T) s) \<circ>
        (\<lambda>i. (if i < 16 then rfc_F else if i < 32 then rfc_G else if i < 48 then rfc_H else rfc_I, rfc_k i, rfc_T ! i, rfc_s i))) i = rfc_step M i"
      by (simp add: fun_eq_iff MD5STEP_def rfc_step_def Let_def rol_def ac_simps)
  qed
  then show ?thesis by (simp add: MD5Transform_def rfc_compress_def)
qed

lemma md5_chunks_absorb:
  assumes "length (md_in ctx) = 64"
  shows "\<exists>inp. length inp = 64 \<and>
    md5_chunks ctx buf = (ctx\<lparr>md_buf := absorb rfc_compress (md_buf ctx) buf, md_in := inp\<rparr>, unfinished buf)"
  using assms
proof (induction ctx buf rule: md5_chunks.induct)
  case (1 ctx buf)
  show ?case
  proof (cases "64 \<le> length buf")
    case True
    define c where "c = ctx\<lparr>md_in := take 64 buf, md_buf := rfc_compress (md_buf ctx) (take 64 buf)\<rparr>"
    have "memcpy_at (md_in ctx) 0 (take 64 buf) = take 64 buf" using True "1.prems" by (simp add: memcpy_at_def)
    then have step: "md5_chunks ctx buf = md5_chunks c (drop 64 buf)"
      using True by (subst md5_chunks.simps) (simp add: c_def MD5Transform_rfc)
    have "\<exists>inp. length inp = 64 \<and>
        md5_chunks c (drop 64 buf) = (c\<lparr>md_buf := absorb rfc_compress (md_buf c) (drop 64 buf), md_in := inp\<rparr>, unfinished (drop 64 buf))"
      using "1.IH" [OF True refl refl] True \<open>memcpy_at (md_in ctx) 0 (take 64 buf) = take 64 buf\<close>
      by (simp add: c_def MD5Transform_rfc)
    moreover have "absorb rfc_compress (md_buf ctx) buf = absorb rfc_compress (md_buf c) (drop 64 buf)"
      using True by (subst absorb.simps) (simp add: c_def)
    ultimately show ?thesis using step True by (auto simp: c_def unfinished_drop)
  next
    case False
    then have "md5_chunks ctx buf = (ctx\<lparr>md_buf := md_buf ctx, md_in := md_in ctx\<rparr>, buf)" by (simp add: md5_chunks.simps)
    then show ?thesis using False "1.prems" by (auto simp: unfinished_short)
  qed
qed

subsection \<open>The context represents the message absorbed so far\<close>

definition md5_repr :: "byte list \<Rightarrow> pj_md5_context \<Rightarrow> bool" where
  "md5_repr m ctx \<longleftrightarrow> md_buf ctx = absorb rfc_compress rfc_IV m \<and> length (md_in ctx) = 64 \<and>
     take (length m mod 64) (md_in ctx) = unfinished m \<and>
     md_bits0 ctx = of_nat (8 * length m) \<and> md_bits1 ctx = of_nat (8 * length m div 2 ^ 32)"

lemma md5_waiting: "md5_repr m ctx \<Longrightarrow> unat (drop_bit 3 (md_bits0 ctx) AND 0x3f) = length m mod 64"
proof -
  assume "md5_repr m ctx"
  then have "md_bits0 ctx = 0 + push_bit 3 (of_nat (length m))" by (simp add: md5_repr_def push_bit_eq_mult)
  then have "waiting (md_bits0 ctx) = (waiting 0 + length m) mod 64" by (simp only: waiting_add)
  then show ?thesis by (simp add: waiting_word) (simp add: waiting_def)
qed

text \<open>The test \<^verbatim>\<open>bits[0] < t\<close> and the high bits of the length carry into the second word for every 32-bit length.\<close>

lemma md5_carry:
  fixes l n :: nat
  defines "a \<equiv> 8 * l mod 2 ^ 32" and "s \<equiv> 8 * n mod 2 ^ 32"
  shows "8 * (l + n) div 2 ^ 32 = 8 * l div 2 ^ 32 + (if (a + s) mod 2 ^ 32 < a then 1 else 0) + n div 2 ^ 29"
proof -
  have l: "8 * l = (8 * l div 2 ^ 32) * 2 ^ 32 + a" and n: "8 * n = (8 * n div 2 ^ 32) * 2 ^ 32 + s"
    unfolding a_def s_def by (simp_all only: div_mult_mod_eq)
  have "8 * (l + n) = (8 * l div 2 ^ 32 + 8 * n div 2 ^ 32) * 2 ^ 32 + (a + s)" using l n by (simp only: distrib_left distrib_right)
  then have "8 * (l + n) div 2 ^ 32 = 8 * l div 2 ^ 32 + 8 * n div 2 ^ 32 + (a + s) div 2 ^ 32" by (metis div_mult_self3 zero_neq_numeral power_not_zero add.commute)
  moreover have "(a + s) div 2 ^ 32 = (if (a + s) mod 2 ^ 32 < a then 1 else 0)"
  proof (cases "a + s < 2 ^ 32")
    case False
    have "a < 2 ^ 32" "s < 2 ^ 32" by (simp_all add: a_def s_def)
    then have "(a + s) div 2 ^ 32 = 1" "(a + s) mod 2 ^ 32 = a + s - 2 ^ 32" "a + s - 2 ^ 32 < a"
      using False by (simp_all add: div_if le_mod_geq)
    then show ?thesis by simp
  qed simp
  moreover have "8 * n div 2 ^ 32 = n div 2 ^ 29" by simp
  ultimately show ?thesis by simp
qed

lemma md5_update_bits:
  assumes "md5_repr m ctx" "length d < 2 ^ 32"
  shows "md_bits0 (pj_md5_update ctx d) = of_nat (8 * length (m @ d))"
    "md_bits1 (pj_md5_update ctx d) = of_nat (8 * length (m @ d) div 2 ^ 32)"
proof -
  have chunks: "md_bits0 (fst (md5_chunks c b)) = md_bits0 c \<and> md_bits1 (fst (md5_chunks c b)) = md_bits1 c" for c b
  proof (induction c b rule: md5_chunks.induct)
    case (1 c b)
    then show ?case by (cases "64 \<le> length b") (subst (1 2) md5_chunks.simps, simp add: Let_def)+
  qed
  have upd: "md_bits0 (pj_md5_update ctx d) = md_bits0 ctx + push_bit 3 (of_nat (length d))"
      "md_bits1 (pj_md5_update ctx d) =
        (if md_bits0 ctx + push_bit 3 (of_nat (length d)) < md_bits0 ctx then md_bits1 ctx + 1 else md_bits1 ctx) + drop_bit 29 (of_nat (length d))"
    by (simp_all add: pj_md5_update_def Let_def case_prod_beta chunks)
  show b0: "md_bits0 (pj_md5_update ctx d) = of_nat (8 * length (m @ d))"
    using assms(1) unfolding upd by (simp add: md5_repr_def push_bit_eq_mult)
  have "unat (md_bits0 ctx) = 8 * length m mod 2 ^ 32" using assms(1) by (simp add: md5_repr_def unat_of_nat del: of_nat_mult)
  moreover have "unat (md_bits0 ctx + push_bit 3 (of_nat (length d))) = (8 * length m mod 2 ^ 32 + 8 * length d mod 2 ^ 32) mod 2 ^ 32"
  proof -
    have "unat (md_bits0 ctx + push_bit 3 (of_nat (length d))) = 8 * length (m @ d) mod 2 ^ LENGTH(32)"
      using b0 unfolding upd by (simp only: unat_of_nat)
    then show ?thesis by (simp add: mod_add_eq distrib_left)
  qed
  moreover have "drop_bit 29 (of_nat (length d) :: 32 word) = of_nat (length d div 2 ^ 29)"
  proof -
    have "unat (of_nat (length d) :: 32 word) = length d" using assms(2) by (subst unat_of_nat_small) auto
    then have "unat (drop_bit 29 (of_nat (length d) :: 32 word)) = length d div 2 ^ 29" by (metis drop_bit_eq_div unat_drop_bit_eq)
    then show ?thesis by (metis of_nat_unat ucast_id)
  qed
  ultimately show "md_bits1 (pj_md5_update ctx d) = of_nat (8 * length (m @ d) div 2 ^ 32)"
    unfolding upd length_append using md5_carry [of "length m" "length d"] assms(1) by (simp add: md5_repr_def word_less_nat_alt)
qed

lemma md5_update_repr:
  assumes "md5_repr m ctx" "length d < 2 ^ 32"
  shows "md5_repr (m @ d) (pj_md5_update ctx d)"
proof -
  define t where "t = length m mod 64"
  have r: "md_buf ctx = absorb rfc_compress rfc_IV m" "length (md_in ctx) = 64" "take t (md_in ctx) = unfinished m"
      "length (unfinished m) = t" "t < 64"
    using assms(1) by (simp_all add: md5_repr_def t_def)
  have tc: "unat (drop_bit 3 (md_bits0 ctx) AND 0x3f) = t" using md5_waiting [OF assms(1)] by (simp add: t_def)
  let ?u = "pj_md5_update ctx d"
  define b0 where "b0 = md_bits0 ctx + push_bit 3 (of_nat (length d))"
  define b1 where "b1 = (if b0 < md_bits0 ctx then md_bits1 ctx + 1 else md_bits1 ctx) + drop_bit 29 (of_nat (length d))"
  let ?c = "ctx\<lparr>md_bits0 := b0, md_bits1 := b1\<rparr>"
  have "md_buf ?u = absorb rfc_compress rfc_IV (m @ d) \<and> length (md_in ?u) = 64 \<and> take (length (m @ d) mod 64) (md_in ?u) = unfinished (m @ d)"
  proof (cases "t \<noteq> 0 \<and> length d < 64 - t")
    case True
    then have u: "?u = ?c\<lparr>md_in := memcpy_at (md_in ctx) t d\<rparr>" by (simp add: pj_md5_update_def tc Let_def b0_def b1_def)
    have "t + length d < 64" using True by linarith
    then have len: "length (unfinished m @ d) < 64" "length (m @ d) mod 64 = t + length d"
      using mod_add_left_eq [of "length m" 64 "length d"] r(4) by (simp_all add: t_def)
    then have "absorb rfc_compress rfc_IV (m @ d) = md_buf ctx" "unfinished (m @ d) = unfinished m @ d"
      using r unfinished_append [of m d] by (simp_all add: absorb_append [of _ _ m d] unfinished_short)
    then show ?thesis using True r len(2) by (subst (1 2 3) u) (simp add: take_memcpy_at del: length_append)
  next
    case False
    define B where "B = memcpy_at (md_in ctx) t (take (64 - t) d)"
    define h buf inp where "h = (if t \<noteq> 0 then rfc_compress (md_buf ctx) B else md_buf ctx)"
      and "buf = (if t \<noteq> 0 then drop (64 - t) d else d)" and "inp = (if t \<noteq> 0 then B else md_in ctx)"
    have B: "B = unfinished m @ take (64 - t) d" "length B = 64" if "t \<noteq> 0"
      using r that False by (simp_all add: B_def memcpy_at_def)
    have linp: "length inp = 64" using B r by (simp add: inp_def)
    have first: "absorb rfc_compress rfc_IV (m @ d) = absorb rfc_compress h buf" "unfinished (m @ d) = unfinished buf"
    proof -
      have "unfinished m = []" if "t = 0" using r(4) that by (metis length_0_conv)
      then have data: "unfinished m @ d = (if t \<noteq> 0 then B @ buf else buf)" using B by (auto simp: buf_def)
      show "absorb rfc_compress rfc_IV (m @ d) = absorb rfc_compress h buf"
        unfolding absorb_append [of _ _ m d] data using absorb_block [OF B(2), of rfc_compress "md_buf ctx" buf] r(1) by (cases "t = 0") (simp_all add: h_def)
      show "unfinished (m @ d) = unfinished buf"
        unfolding unfinished_append [of m d] data using unfinished_drop [of "B @ buf"] B(2) by auto
    qed
    obtain inp' where ch: "length inp' = 64" "md5_chunks (?c\<lparr>md_in := inp, md_buf := h\<rparr>) buf =
        (?c\<lparr>md_in := inp', md_buf := absorb rfc_compress h buf\<rparr>, unfinished buf)"
      using md5_chunks_absorb [of "?c\<lparr>md_in := inp, md_buf := h\<rparr>" buf] linp by auto
    have u: "?u = ?c\<lparr>md_buf := absorb rfc_compress h buf, md_in := memcpy_at inp' 0 (unfinished buf)\<rparr>"
    proof -
      define c where "c = ?c\<lparr>md_in := inp, md_buf := h\<rparr>"
      have "c = (if t \<noteq> 0 then ?c\<lparr>md_in := B, md_buf := MD5Transform (md_buf ctx) (le_words B)\<rparr> else ?c)"
        using B(2) by (simp add: c_def inp_def h_def MD5Transform_rfc)
      then have "?u = (let (ctx, buf) = md5_chunks c buf in ctx\<lparr>md_in := memcpy_at (md_in ctx) 0 buf\<rparr>)"
        using False by (auto simp: pj_md5_update_def tc Let_def buf_def B_def b0_def b1_def case_prod_beta)
      then show ?thesis using ch(2) by (simp add: c_def)
    qed
    have "take (length (m @ d) mod 64) (memcpy_at inp' 0 (unfinished (m @ d))) = unfinished (m @ d)"
      using take_memcpy_at [of 0 inp' "unfinished (m @ d)"] by simp
    then show ?thesis using first ch(1) by (subst (1 2 3) u) (simp del: length_append)
  qed
  then show ?thesis using md5_update_bits [OF assms] by (simp add: md5_repr_def)
qed

lemma md5_init_repr: "length (md_in ctx) = 64 \<Longrightarrow> md5_repr [] (pj_md5_init ctx)"
  by (simp add: md5_repr_def pj_md5_init_def unfinished_def rfc_IV_def)

text \<open>The last block or blocks that the final call builds in the buffer.\<close>

lemma md5_pad_blocks:
  assumes "n = length m mod 64" "cnt = le_bytes32 (of_nat (8 * length m)) @ le_bytes32 (of_nat (8 * length m div 2 ^ 32))"
  shows "absorb rfc_compress rfc_IV (md5_pad m) =
    (if 63 - n < 8 then rfc_compress (rfc_compress (absorb rfc_compress rfc_IV m) (unfinished m @ 0x80 # replicate (63 - n) 0)) (replicate 56 0 @ cnt)
     else rfc_compress (absorb rfc_compress rfc_IV m) (unfinished m @ 0x80 # replicate (55 - n) 0 @ cnt))"
proof -
  have n: "n < 64" "length (unfinished m) = n" using assms(1) by simp_all
  have c8: "length cnt = 8" using assms(2) by simp
  have pad: "absorb rfc_compress rfc_IV (md5_pad m) =
      absorb rfc_compress (absorb rfc_compress rfc_IV m) (unfinished m @ 0x80 # replicate ((119 - n) mod 64) 0 @ cnt)"
    using absorb_append [of rfc_compress rfc_IV m] by (simp add: md5_pad_def assms)
  show ?thesis
  proof (cases "63 - n < 8")
    case True
    then have "(119 - n) mod 64 = (63 - n) + 56" using n by simp
    then have "unfinished m @ 0x80 # replicate ((119 - n) mod 64) 0 @ cnt = (unfinished m @ 0x80 # replicate (63 - n) 0) @ (replicate 56 0 @ cnt) @ []"
      by (simp only: replicate_add append_assoc append_Cons append_Nil append_Nil2)
    moreover have "length (unfinished m @ 0x80 # replicate (63 - n) 0) = 64" "length (replicate 56 0 @ cnt) = 64" using n c8 by simp_all
    ultimately show ?thesis unfolding pad using True by (simp only: absorb_block absorb_short) simp
  next
    case False
    then have "(119 - n) mod 64 = 55 - n" using n by (simp add: le_mod_geq)
    then have "unfinished m @ 0x80 # replicate ((119 - n) mod 64) 0 @ cnt = (unfinished m @ 0x80 # replicate (55 - n) 0 @ cnt) @ []" by simp
    moreover have "length (unfinished m @ 0x80 # replicate (55 - n) 0 @ cnt) = 64" using n c8 False by simp
    ultimately show ?thesis unfolding pad using False by (simp only: absorb_block absorb_short) simp
  qed
qed

lemma memcpy_twice:
  "length buf = 64 \<Longrightarrow> length a = 4 \<Longrightarrow> length b = 4 \<Longrightarrow> memcpy_at (memcpy_at buf 56 a) 60 b = take 56 buf @ a @ b"
  by (simp add: memcpy_at_def)

lemma md5_final_digest: "md5_repr m ctx \<Longrightarrow> fst (pj_md5_final ctx) = md5_digest m"
proof -
  assume rep: "md5_repr m ctx"
  define n where "n = length m mod 64"
  have r: "md_buf ctx = absorb rfc_compress rfc_IV m" "length (md_in ctx) = 64" "take n (md_in ctx) = unfinished m"
      "length (unfinished m) = n" "n < 64"
    using rep by (simp_all add: md5_repr_def n_def)
  have nc: "unat (drop_bit 3 (md_bits0 ctx) AND 0x3f) = n" using md5_waiting [OF rep] by (simp add: n_def)
  have bits: "md_bits0 ctx = of_nat (8 * length m)" "md_bits1 ctx = of_nat (8 * length m div 2 ^ 32)" using rep by (simp_all only: md5_repr_def)
  have set80: "(md_in ctx)[n := 0x80] = unfinished m @ 0x80 # drop (Suc n) (md_in ctx)"
    using r by (simp add: upd_conv_take_nth_drop)
  have mc: "memcpy_at ((md_in ctx)[n := 0x80]) (n + 1) (replicate k 0) = unfinished m @ 0x80 # replicate k 0 @ drop (Suc n + k) (md_in ctx)" for k
    using r by (simp add: memcpy_at_def set80 add.commute)
  have full: "length (unfinished m @ 0x80 # replicate (63 - n) 0 @ drop (Suc n + (63 - n)) (md_in ctx)) = 64" using r by simp
  note blocks = md5_pad_blocks [OF n_def refl, folded bits]
  show ?thesis
  proof (cases "63 - n < 8")
    case True
    have "drop (Suc n + (63 - n)) (md_in ctx) = []" using r by simp
    then have b: "memcpy_at ((md_in ctx)[n := 0x80]) (n + 1) (replicate (63 - n) 0) = unfinished m @ 0x80 # replicate (63 - n) 0"
      "length (unfinished m @ 0x80 # replicate (63 - n) 0) = 64" using mc [of "63 - n"] r by simp_all
    have z: "memcpy_at (memcpy_at (memcpy_at (unfinished m @ 0x80 # replicate (63 - n) 0) 0 (replicate 56 0)) 56 x) 60 y = replicate 56 0 @ x @ y"
      if "length x = 4" "length y = 4" for x y
      using that b(2) by (subst memcpy_twice) (simp_all add: memcpy_at_def)
    show ?thesis
      unfolding md5_digest_def blocks using True r b
      by (simp add: pj_md5_final_def Let_def nc z MD5Transform_rfc)
  next
    case False
    have b: "length (unfinished m @ 0x80 # replicate (55 - n) 0 @ drop (Suc n + (55 - n)) (md_in ctx)) = 64" using r False by simp
    have z: "memcpy_at (memcpy_at (unfinished m @ 0x80 # replicate (55 - n) 0 @ drop (Suc n + (55 - n)) (md_in ctx)) 56 x) 60 y =
        unfinished m @ 0x80 # replicate (55 - n) 0 @ x @ y" if "length x = 4" "length y = 4" for x y
    proof -
      have "length (unfinished m @ 0x80 # replicate (55 - n) 0) = 56" using r False by simp
      then have "take 56 ((unfinished m @ 0x80 # replicate (55 - n) 0) @ R) = unfinished m @ 0x80 # replicate (55 - n) 0" for R
        by (metis append_eq_conv_conj)
      then show ?thesis using memcpy_twice [OF b that] by simp
    qed
    have "63 - n - 8 = 55 - n" by simp
    then show ?thesis
      unfolding md5_digest_def blocks using False r z mc [of "55 - n"]
      by (simp add: pj_md5_final_def Let_def nc MD5Transform_rfc)
  qed
qed

lemma length_md5_digest: "length (md5_digest m) = 16"
proof -
  have "length (absorb rfc_compress H m) = 4" if "length H = 4" for H m
    using that
  proof (induction rfc_compress H m rule: absorb.induct)
    case (1 H m)
    have "length (rfc_compress H (take 64 m)) = 4" by (simp add: rfc_compress_def split: prod.split)
    then show ?case using 1 by (subst absorb.simps) simp
  qed
  then have "length (absorb rfc_compress rfc_IV (md5_pad m)) = 4" by (simp add: rfc_IV_def)
  moreover have "length (concat (map le_bytes32 l)) = 4 * length l" for l by (induction l) auto
  ultimately show ?thesis by (simp add: md5_digest_def)
qed

interpretation md5: stream_hash pj_md5_init pj_md5_update pj_md5_final md5_repr "\<lambda>c. length (md_in c) = 64"
  "\<lambda>d. length d < 2 ^ 32" md5_digest 16
proof unfold_locales
  show "length (md_in (snd (pj_md5_final c))) = 64" if "md5_repr m c" for m c by (simp add: pj_md5_final_def Let_def)
qed (auto simp: md5_init_repr md5_update_repr md5_final_digest length_md5_digest)

subsection \<open>Properties\<close>

text \<open>
  C12. Whatever a context held before, initialising it, passing a message in any number of parts and
  finishing gives the digest that RFC 1321 defines for the message.
\<close>

theorem md5_correct:
  assumes "length (md_in ctx) = 64" "\<forall>d \<in> set parts. length d < 2 ^ 32"
  shows "fst (pj_md5_final (foldl pj_md5_update (pj_md5_init ctx) parts)) = md5_digest (concat parts)"
  using md5.hash_parts [OF assms(1)] assms(2) by (simp add: list_all_iff)

definition demo_md5 :: pj_md5_context where
  "demo_md5 = \<lparr>md_buf = [], md_bits0 = 7, md_bits1 = 9, md_in = replicate 64 0xAA\<rparr>"

theorem md5_correct_witness:
  "fst (pj_md5_final (foldl pj_md5_update (pj_md5_init demo_md5) [[0x61], [0x62, 0x63]])) = md5_digest [0x61, 0x62, 0x63]"
  using md5_correct [of demo_md5 "[[0x61], [0x62, 0x63]]"] by (simp add: demo_md5_def)

text \<open>
  HMAC-MD5 of an input and a key is that of RFC 2104.
\<close>

theorem hmac_md5_correct:
  assumes "length (md_in tctx) = 64" "length (md_in (hm_context ctx)) = 64" "length key < 2 ^ 32" "length input < 2 ^ 32"
  shows "pj_hmac_md5 tctx ctx input key = hmac_spec md5_digest key input"
proof -
  have "fst (pj_md5_final (pj_md5_update (pj_md5_init tctx) key)) = md5_digest key"
    using md5.hash_parts [OF assms(1), of "[key]"] assms(3) by simp
  then have key: "memcpy_at (replicate 64 0) 0 (if length key > 64 then fst (pj_md5_final (pj_md5_update (pj_md5_init tctx) key)) else key) =
      hmac_key md5_digest key"
    by (simp add: memcpy_zeroes hmac_key_def Let_def length_md5_digest)
  define c where "c = pj_md5_update (pj_md5_update (pj_md5_init (hm_context ctx)) (map (\<lambda>b. b XOR 0x36) (hmac_key md5_digest key))) input"
  have inner: "fst (pj_md5_final c) = md5_digest (map (\<lambda>b. b XOR 0x36) (hmac_key md5_digest key) @ input)"
    using md5.hmac_inner [OF assms(2), of "[input]" key] assms(4) by (simp add: c_def)
  have "length (md_in (snd (pj_md5_final c))) = 64" by (simp add: pj_md5_final_def Let_def)
  from md5.hmac_outer [OF this, of key] show ?thesis
    unfolding pj_hmac_md5_def pj_hmac_md5_final_def pj_hmac_md5_update_def pj_hmac_md5_init_def Let_def key
    by (simp add: c_def [symmetric] hmac_spec_def inner case_prod_beta)
qed

theorem hmac_md5_correct_witness:
  "pj_hmac_md5 demo_md5 \<lparr>hm_context = demo_md5, hm_k_opad = []\<rparr> [1, 2] [3] = hmac_spec md5_digest [3] [1, 2]"
  using hmac_md5_correct [of demo_md5 "\<lparr>hm_context = demo_md5, hm_k_opad = []\<rparr>" "[3]" "[1, 2]"] by (simp add: demo_md5_def)

end
