(* ===== verification/StunAuth.thy ===== *)
theory StunAuth
  imports StunProps StunSafety Md5
begin

text \<open>
  Authentication of STUN messages (pjnath/src/pjnath/stun_auth.c): the key of a credential, the verification of a request
  with the challenge that answers a failure, and the verification of a response. \<^verbatim>\<open>pj_strcmp\<close> returns zero exactly for identical
  strings; \<^verbatim>\<open>pj_stricmp\<close> is the parameter \<open>stricmp\<close>, true for strings that it calls equal. The callbacks of a
  dynamic credential are functions; their user data is part of them.
\<close>

subsection \<open>Credentials\<close>

datatype pj_stun_passwd_type = PJ_STUN_PASSWD_PLAIN | PJ_STUN_PASSWD_HASHED

record static_cred =
  sc_realm :: "byte list"
  sc_username :: "byte list"
  sc_data_type :: pj_stun_passwd_type
  sc_data :: "byte list"
  sc_nonce :: "byte list"

record dyn_cred =
  get_auth :: "pj_status + byte list \<times> byte list"
  get_cred :: "pj_stun_msg \<Rightarrow> pj_status + byte list \<times> byte list \<times> byte list \<times> pj_stun_passwd_type \<times> byte list"
  get_password :: "pj_stun_msg \<Rightarrow> byte list option \<Rightarrow> byte list \<Rightarrow> pj_status + pj_stun_passwd_type \<times> byte list"
  verify_nonce :: "(pj_stun_msg \<Rightarrow> byte list option \<Rightarrow> byte list \<Rightarrow> byte list \<Rightarrow> bool) option"

datatype pj_stun_auth_cred = PJ_STUN_AUTH_CRED_STATIC static_cred | PJ_STUN_AUTH_CRED_DYNAMIC dyn_cred

record pj_stun_req_cred_info =
  ci_realm :: "byte list"
  ci_username :: "byte list"
  ci_nonce :: "byte list"
  ci_auth_key :: "byte list"

text \<open>The copies hold the same strings and the same callbacks.\<close>

definition pj_stun_auth_cred_dup :: "pj_stun_auth_cred \<Rightarrow> pj_stun_auth_cred" where
  "pj_stun_auth_cred_dup src = (case src of
     PJ_STUN_AUTH_CRED_STATIC c \<Rightarrow> PJ_STUN_AUTH_CRED_STATIC \<lparr>sc_realm = sc_realm c, sc_username = sc_username c, sc_data_type = sc_data_type c, sc_data = sc_data c, sc_nonce = sc_nonce c\<rparr>
   | PJ_STUN_AUTH_CRED_DYNAMIC d \<Rightarrow> PJ_STUN_AUTH_CRED_DYNAMIC d)"

definition pj_stun_req_cred_info_dup :: "pj_stun_req_cred_info \<Rightarrow> pj_stun_req_cred_info" where
  "pj_stun_req_cred_info_dup src = \<lparr>ci_realm = ci_realm src, ci_username = ci_username src, ci_nonce = ci_nonce src, ci_auth_key = ci_auth_key src\<rparr>"

subsection \<open>Keys\<close>

definition REMOVE_QUOTE :: "byte list \<Rightarrow> byte list" where
  "REMOVE_QUOTE s =
     (let s = (if s \<noteq> [] \<and> hd s = 0x22 then tl s else s)
      in if s \<noteq> [] \<and> last s = 0x22 then butlast s else s)"

definition calc_md5_key :: "pj_md5_context \<Rightarrow> byte list \<Rightarrow> byte list \<Rightarrow> byte list \<Rightarrow> byte list" where
  "calc_md5_key ctx realm username passwd =
     (let ctx = pj_md5_init ctx;
          ctx = pj_md5_update ctx (REMOVE_QUOTE username);
          ctx = pj_md5_update ctx [0x3A];
          ctx = pj_md5_update ctx (REMOVE_QUOTE realm);
          ctx = pj_md5_update ctx [0x3A];
          ctx = pj_md5_update ctx passwd
      in fst (pj_md5_final ctx))"

definition pj_stun_create_key ::
  "pj_md5_context \<Rightarrow> byte list option \<Rightarrow> byte list \<Rightarrow> pj_stun_passwd_type \<Rightarrow> byte list \<Rightarrow> byte list" where
  "pj_stun_create_key ctx realm username data_type data = (case realm of
     Some r \<Rightarrow> if r \<noteq> [] then (if data_type = PJ_STUN_PASSWD_PLAIN then calc_md5_key ctx r username data else data) else data
   | None \<Rightarrow> data)"

subsection \<open>The challenge\<close>

definition pjstun_nonce :: "byte list" where "pjstun_nonce = bytes_of ''pjstun''"

definition create_challenge ::
  "pj_stun_msg \<Rightarrow> nat \<Rightarrow> string option \<Rightarrow> byte list \<Rightarrow> byte list \<Rightarrow> (pj_status + pj_stun_msg) option" where
  "create_challenge msg err_code errstr realm nonce = do {
     rc \<leftarrow> pj_stun_msg_create_response msg err_code (map_option bytes_of errstr);
     case rc of Inl status \<Rightarrow> Some (Inl status)
     | Inr response \<Rightarrow>
         let long = (err_code \<noteq> 400 \<and> realm \<noteq> []) in
         case (if long then pj_stun_msg_add_string_attr response PJ_STUN_ATTR_REALM realm else Inr response) of
           Inl status \<Rightarrow> Some (Inl status)
         | Inr response \<Rightarrow>
             let nonce = (if long \<and> nonce = [] then pjstun_nonce else nonce) in
             Some (if err_code \<noteq> 400 \<and> nonce \<noteq> [] then pj_stun_msg_add_string_attr response PJ_STUN_ATTR_NONCE nonce else Inr response) }"

subsection \<open>MESSAGE-INTEGRITY\<close>

text \<open>The search for the attribute, counting its position; the flag says that another attribute follows.\<close>

fun scan_msgint :: "pj_stun_attr list \<Rightarrow> pj_stun_attr option \<Rightarrow> nat \<Rightarrow> pj_stun_attr option \<times> nat \<times> bool" where
  "scan_msgint [] amsgi amsgi_pos = (amsgi, amsgi_pos, False)"
| "scan_msgint (a # as) amsgi amsgi_pos =
     (if at_type a = PJ_STUN_ATTR_MESSAGE_INTEGRITY then scan_msgint as (Some a) amsgi_pos
      else if amsgi \<noteq> None then (amsgi, amsgi_pos, True)
      else scan_msgint as None (amsgi_pos + (align4 (unat (at_length a)) + 4)))"

definition msg_digest :: "sha_stack \<Rightarrow> byte list \<Rightarrow> byte list \<Rightarrow> nat \<Rightarrow> bool \<Rightarrow> byte list option" where
  "msg_digest stk key pkt amsgi_pos has_attr_beyond_mi = do {
     hdr \<leftarrow> get_bytes pkt 0 20;
     hdr \<leftarrow> (if has_attr_beyond_mi then PUTVAL16H hdr 2 (of_nat (amsgi_pos + 24)) else Some hdr);
     body \<leftarrow> get_bytes pkt 20 amsgi_pos;
     Some (fst (pj_hmac_sha1_final (pj_hmac_sha1_update (pj_hmac_sha1_update (pj_hmac_sha1_init (fst stk) (snd stk) key) hdr) body))) }"

text \<open>The comparison of the two digests, \<open>None\<close> when the attribute is not of the structure its type says.\<close>

definition hmac_matches :: "pj_stun_attr \<Rightarrow> byte list \<Rightarrow> bool option" where
  "hmac_matches amsgi digest = (case at_body amsgi of Msgint_body h \<Rightarrow> Some (memcmp h digest 20 = 0) | _ \<Rightarrow> None)"

definition string_value :: "pj_stun_attr option \<Rightarrow> byte list option option" where
  "string_value a = (case a of None \<Rightarrow> Some None
     | Some a \<Rightarrow> (case at_body a of String_body s \<Rightarrow> Some (Some s) | _ \<Rightarrow> None))"

subsection \<open>Verifying a request\<close>

definition cred_auth :: "pj_stun_auth_cred \<Rightarrow> pj_status + byte list \<times> byte list" where
  "cred_auth cred = (case cred of
     PJ_STUN_AUTH_CRED_STATIC c \<Rightarrow> Inr (sc_realm c, sc_nonce c)
   | PJ_STUN_AUTH_CRED_DYNAMIC d \<Rightarrow> get_auth d)"

definition auth_user ::
  "pj_md5_context \<Rightarrow> pj_stun_msg \<Rightarrow> pj_stun_auth_cred \<Rightarrow> byte list \<Rightarrow> byte list option \<Rightarrow> byte list \<Rightarrow> (byte list \<times> byte list) option" where
  "auth_user md msg cred realm arealm user = (case cred of
     PJ_STUN_AUTH_CRED_STATIC c \<Rightarrow>
       if user = sc_username c then Some (sc_username c, pj_stun_create_key md (Some realm) user (sc_data_type c) (sc_data c)) else None
   | PJ_STUN_AUTH_CRED_DYNAMIC d \<Rightarrow> (case get_password d msg arealm user of
         Inl _ \<Rightarrow> None
       | Inr (data_type, password) \<Rightarrow> Some (user, pj_stun_create_key md arealm user data_type password)))"

text \<open>The requirements on NONCE of a request that carries one: the error code and its text, if one fails.\<close>

definition nonce_policy ::
  "pj_stun_msg \<Rightarrow> pj_stun_auth_cred \<Rightarrow> byte list \<Rightarrow> byte list option \<Rightarrow> byte list \<Rightarrow> byte list option \<Rightarrow> (nat \<times> string option) option" where
  "nonce_policy msg cred nonce arealm user anonce = (case anonce of
     None \<Rightarrow> None
   | Some n \<Rightarrow>
       let ok = (case cred of
           PJ_STUN_AUTH_CRED_DYNAMIC d \<Rightarrow> (case verify_nonce d of Some f \<Rightarrow> f msg arealm user n | None \<Rightarrow> True)
         | PJ_STUN_AUTH_CRED_STATIC c \<Rightarrow> if nonce \<noteq> [] then n = nonce else True)
       in if \<not> ok then Some (PJ_STUN_SC_STALE_NONCE, None) else None)"

text \<open>The requirements on REALM and NONCE.\<close>

definition auth_policy ::
  "(byte list \<Rightarrow> byte list \<Rightarrow> bool) \<Rightarrow> pj_stun_msg \<Rightarrow> pj_stun_auth_cred \<Rightarrow> byte list \<Rightarrow> byte list \<Rightarrow> byte list option \<Rightarrow> byte list \<Rightarrow>
   byte list option \<Rightarrow> (nat \<times> string option) option" where
  "auth_policy stricmp msg cred realm nonce arealm user anonce =
     (case arealm of
        None \<Rightarrow>
          if realm \<noteq> [] then Some (PJ_STUN_SC_BAD_REQUEST, Some ''Missing REALM'')
          else if nonce \<noteq> [] then Some (PJ_STUN_SC_UNAUTHORIZED, Some ''NONCE required'')
          else nonce_policy msg cred nonce arealm user anonce
      | Some r \<Rightarrow>
          if realm \<noteq> [] \<and> anonce = None \<and> nonce \<noteq> [] then Some (PJ_STUN_SC_BAD_REQUEST, Some ''Missing NONCE'')
          else if realm \<noteq> [] \<and> \<not> stricmp r realm then Some (PJ_STUN_SC_UNAUTHORIZED, Some ''Invalid REALM'')
          else nonce_policy msg cred nonce arealm user anonce)"

text \<open>The checks of a request once the realm and the nonce of the credential are known: the failure, if any, and the credential that was found.\<close>

definition auth_checks ::
  "pj_md5_context \<Rightarrow> sha_stack \<Rightarrow> (byte list \<Rightarrow> byte list \<Rightarrow> bool) \<Rightarrow> byte list \<Rightarrow> pj_stun_msg \<Rightarrow> pj_stun_auth_cred \<Rightarrow> pj_stun_req_cred_info \<Rightarrow>
   ((nat \<times> string option) option \<times> pj_stun_req_cred_info) option" where
  "auth_checks md stk stricmp pkt msg cred info =
     (case scan_msgint (msg_attrs msg) None 0 of
        (None, _, _) \<Rightarrow> Some (Some (if ci_realm info \<noteq> [] then PJ_STUN_SC_UNAUTHORIZED else PJ_STUN_SC_BAD_REQUEST, None), info)
      | (Some amsgi, amsgi_pos, has_attr_beyond_mi) \<Rightarrow> do {
          auser \<leftarrow> string_value (pj_stun_msg_find_attr msg PJ_STUN_ATTR_USERNAME 0);
          case auser of
            None \<Rightarrow> Some (Some (PJ_STUN_SC_BAD_REQUEST, Some ''Missing USERNAME''), info)
          | Some user \<Rightarrow> do {
              arealm \<leftarrow> string_value (pj_stun_msg_find_attr msg PJ_STUN_ATTR_REALM 0);
              if ci_realm info \<noteq> [] \<and> arealm = None then Some (Some (PJ_STUN_SC_BAD_REQUEST, Some ''Missing REALM''), info)
              else case auth_user md msg cred (ci_realm info) arealm user of
                None \<Rightarrow> Some (Some (PJ_STUN_SC_UNAUTHORIZED, None), info)
              | Some (username, auth_key) \<Rightarrow> do {
                  let info = info\<lparr>ci_username := username, ci_auth_key := auth_key\<rparr>;
                  anonce \<leftarrow> string_value (pj_stun_msg_find_attr msg PJ_STUN_ATTR_NONCE 0);
                  case auth_policy stricmp msg cred (ci_realm info) (ci_nonce info) arealm user anonce of
                    Some failure \<Rightarrow> Some (Some failure, info)
                  | None \<Rightarrow> do {
                      digest \<leftarrow> msg_digest stk auth_key pkt amsgi_pos has_attr_beyond_mi;
                      same \<leftarrow> hmac_matches amsgi digest;
                      Some (if \<not> same then Some (PJ_STUN_SC_UNAUTHORIZED, Some ''MESSAGE-INTEGRITY mismatch'') else None, info) } } } })"

text \<open>
  The status, the response that answers a failure (when the caller wants one and the message is a request) and the credential
  that the request used. The failing response of \<open>create_challenge\<close> leaves the caller's pointer NULL.
\<close>

definition pj_stun_authenticate_request ::
  "pj_md5_context \<Rightarrow> sha_stack \<Rightarrow> (byte list \<Rightarrow> byte list \<Rightarrow> bool) \<Rightarrow> byte list \<Rightarrow> pj_stun_msg \<Rightarrow> pj_stun_auth_cred \<Rightarrow> bool \<Rightarrow>
   (pj_status \<times> pj_stun_msg option \<times> pj_stun_req_cred_info) option" where
  "pj_stun_authenticate_request md stk stricmp pkt msg cred want =
     (let info = \<lparr>ci_realm = [], ci_username = [], ci_nonce = [], ci_auth_key = []\<rparr> in
      if pkt = [] then Some (PJ_EINVAL, None, info)
      else
        let want = (want \<and> STUN_IS_REQUEST (mh_type (msg_hdr msg))) in
        case cred_auth cred of
          Inl status \<Rightarrow> Some (status, None, info)
        | Inr (realm, nonce) \<Rightarrow> do {
            (failure, info) \<leftarrow> auth_checks md stk stricmp pkt msg cred (info\<lparr>ci_realm := realm, ci_nonce := nonce\<rparr>);
            case failure of
              None \<Rightarrow> Some (PJ_SUCCESS, None, info)
            | Some (err_code, err_text) \<Rightarrow>
                if want then do {
                  r \<leftarrow> create_challenge msg err_code err_text realm nonce;
                  Some (PJ_STATUS_FROM_STUN_CODE err_code, case r of Inl _ \<Rightarrow> None | Inr response \<Rightarrow> Some response, info) }
                else Some (PJ_STATUS_FROM_STUN_CODE err_code, None, info) })"

subsection \<open>Verifying a response\<close>

definition pj_stun_auth_valid_for_msg :: "pj_stun_msg \<Rightarrow> bool option" where
  "pj_stun_auth_valid_for_msg msg =
     (let msg_type = mh_type (msg_hdr msg) in
      if \<not> STUN_IS_ERROR_RESPONSE msg_type \<and> \<not> STUN_IS_INDICATION msg_type then Some True
      else if STUN_IS_INDICATION msg_type then Some False
      else case pj_stun_msg_find_attr msg PJ_STUN_ATTR_ERROR_CODE 0 of
        None \<Rightarrow> Some True
      | Some err_attr \<Rightarrow> (case at_body err_attr of
            Errcode_body err_code _ \<Rightarrow>
              Some (err_code \<notin> {PJ_STUN_SC_BAD_REQUEST, PJ_STUN_SC_UNAUTHORIZED, PJ_STUN_SC_STALE_NONCE, PJ_STUN_SC_UNKNOWN_ATTRIBUTE})
          | _ \<Rightarrow> None))"

definition pj_stun_authenticate_response :: "sha_stack \<Rightarrow> byte list \<Rightarrow> pj_stun_msg \<Rightarrow> byte list \<Rightarrow> pj_status option" where
  "pj_stun_authenticate_response stk pkt msg key =
     (if pkt = [] then Some PJ_EINVAL
      else if pj_stun_msg_find_attr msg PJ_STUN_ATTR_MESSAGE_INTEGRITY 0 = None then Some (PJ_STATUS_FROM_STUN_CODE PJ_STUN_SC_UNAUTHORIZED)
      else if unat (mh_length (msg_hdr msg)) < 24 then Some PJNATH_EINSTUNMSGLEN
      else case scan_msgint (msg_attrs msg) None 0 of
        (None, _, _) \<Rightarrow> Some (PJ_STATUS_FROM_STUN_CODE PJ_STUN_SC_BAD_REQUEST)
      | (Some amsgi, amsgi_pos, has_attr_beyond_mi) \<Rightarrow> do {
          digest \<leftarrow> msg_digest stk key pkt amsgi_pos has_attr_beyond_mi;
          same \<leftarrow> hmac_matches amsgi digest;
          Some (if \<not> same then PJ_STATUS_FROM_STUN_CODE PJ_STUN_SC_UNAUTHORIZED else PJ_SUCCESS) })"

end
