(* ===== verification/TimeVal.thy ===== *)
theory TimeVal
  imports Prelude
begin

text \<open>
  Time values (pjlib/include/pj/types.h, pjlib/src/pj/types.c): seconds and milliseconds, the
  comparison macros, and addition and subtraction with normalisation. The comparison is a linear
  order, so the type is an instance of the library's class; on normalised values it is the order of
  the represented number of milliseconds.
\<close>

datatype pj_time_val = PJ_TIME_VAL (tv_sec: int) (tv_msec: int)

definition PJ_TIME_VAL_MSEC :: "pj_time_val \<Rightarrow> int" where
  "PJ_TIME_VAL_MSEC t = tv_sec t * 1000 + tv_msec t"

definition PJ_TIME_VAL_EQ :: "pj_time_val \<Rightarrow> pj_time_val \<Rightarrow> bool" where
  "PJ_TIME_VAL_EQ t1 t2 \<longleftrightarrow> tv_sec t1 = tv_sec t2 \<and> tv_msec t1 = tv_msec t2"

definition PJ_TIME_VAL_GT :: "pj_time_val \<Rightarrow> pj_time_val \<Rightarrow> bool" where
  "PJ_TIME_VAL_GT t1 t2 \<longleftrightarrow>
     tv_sec t1 > tv_sec t2 \<or> (tv_sec t1 = tv_sec t2 \<and> tv_msec t1 > tv_msec t2)"

definition PJ_TIME_VAL_GTE :: "pj_time_val \<Rightarrow> pj_time_val \<Rightarrow> bool" where
  "PJ_TIME_VAL_GTE t1 t2 \<longleftrightarrow> PJ_TIME_VAL_GT t1 t2 \<or> PJ_TIME_VAL_EQ t1 t2"

definition PJ_TIME_VAL_LT :: "pj_time_val \<Rightarrow> pj_time_val \<Rightarrow> bool" where
  "PJ_TIME_VAL_LT t1 t2 \<longleftrightarrow> \<not> PJ_TIME_VAL_GTE t1 t2"

definition PJ_TIME_VAL_LTE :: "pj_time_val \<Rightarrow> pj_time_val \<Rightarrow> bool" where
  "PJ_TIME_VAL_LTE t1 t2 \<longleftrightarrow> \<not> PJ_TIME_VAL_GT t1 t2"

instantiation pj_time_val :: linorder
begin

definition less_eq_pj_time_val :: "pj_time_val \<Rightarrow> pj_time_val \<Rightarrow> bool" where
  "less_eq_pj_time_val = PJ_TIME_VAL_LTE"

definition less_pj_time_val :: "pj_time_val \<Rightarrow> pj_time_val \<Rightarrow> bool" where
  "less_pj_time_val = PJ_TIME_VAL_LT"

instance
proof
  fix x y z :: pj_time_val
  have le: "a \<le> b \<longleftrightarrow> tv_sec a < tv_sec b \<or> (tv_sec a = tv_sec b \<and> tv_msec a \<le> tv_msec b)" for a b :: pj_time_val
    unfolding less_eq_pj_time_val_def PJ_TIME_VAL_LTE_def PJ_TIME_VAL_GT_def by linarith
  show "x < y \<longleftrightarrow> x \<le> y \<and> \<not> y \<le> x"
    unfolding le less_pj_time_val_def PJ_TIME_VAL_LT_def PJ_TIME_VAL_GTE_def PJ_TIME_VAL_GT_def PJ_TIME_VAL_EQ_def
    by linarith
  show "x \<le> y \<Longrightarrow> y \<le> z \<Longrightarrow> x \<le> z" "x \<le> y \<or> y \<le> x" "x \<le> x" unfolding le by linarith+
  show "x \<le> y \<Longrightarrow> y \<le> x \<Longrightarrow> x = y" unfolding le by (intro pj_time_val.expand) linarith
qed

end

lemma time_val_macros [simp]:
  "PJ_TIME_VAL_LT t1 t2 = (t1 < t2)" "PJ_TIME_VAL_LTE t1 t2 = (t1 \<le> t2)"
  "PJ_TIME_VAL_GT t1 t2 = (t2 < t1)" "PJ_TIME_VAL_GTE t1 t2 = (t2 \<le> t1)" "PJ_TIME_VAL_EQ t1 t2 = (t1 = t2)"
proof -
  show a: "PJ_TIME_VAL_LT t1 t2 = (t1 < t2)" and b: "PJ_TIME_VAL_LTE t1 t2 = (t1 \<le> t2)"
    by (simp_all add: less_pj_time_val_def less_eq_pj_time_val_def)
  show "PJ_TIME_VAL_GT t1 t2 = (t2 < t1)" using b by (auto simp: PJ_TIME_VAL_LTE_def not_le [symmetric])
  show "PJ_TIME_VAL_GTE t1 t2 = (t2 \<le> t1)" using a by (auto simp: PJ_TIME_VAL_LT_def not_less [symmetric])
  show "PJ_TIME_VAL_EQ t1 t2 = (t1 = t2)" by (cases t1; cases t2) (simp add: PJ_TIME_VAL_EQ_def)
qed

text \<open>
  \<^verbatim>\<open>pj_time_val_normalize\<close>. C division truncates towards zero; both quotients are of a non-negative
  number here. The two \<^verbatim>\<open>do\<close> loops borrow and carry one second at a time.
\<close>

function borrow_secs :: "pj_time_val \<Rightarrow> pj_time_val" where
  "borrow_secs t =
     (let t' = PJ_TIME_VAL (tv_sec t - 1) (tv_msec t + 1000)
      in if tv_msec t' \<le> -1000 then borrow_secs t' else t')"
  by pat_completeness auto
termination by (relation "measure (\<lambda>t. nat (- tv_msec t))") auto


declare borrow_secs.simps [simp del]

definition carry_msecs :: "pj_time_val \<Rightarrow> pj_time_val" where
  "carry_msecs t =
     (if tv_msec t \<ge> 1000 then PJ_TIME_VAL (tv_sec t + tv_msec t div 1000) (tv_msec t mod 1000)
      else if tv_msec t \<le> -1000 then borrow_secs t
      else t)"

definition pj_time_val_normalize :: "pj_time_val \<Rightarrow> pj_time_val" where
  "pj_time_val_normalize t0 =
     (let t = carry_msecs t0
      in if tv_sec t \<ge> 1 \<and> tv_msec t < 0 then PJ_TIME_VAL (tv_sec t - 1) (tv_msec t + 1000)
         else if tv_sec t < 0 \<and> tv_msec t > 0 then PJ_TIME_VAL (tv_sec t + 1) (tv_msec t - 1000)
         else t)"

definition PJ_TIME_VAL_ADD :: "pj_time_val \<Rightarrow> pj_time_val \<Rightarrow> pj_time_val" where
  "PJ_TIME_VAL_ADD t1 t2 = pj_time_val_normalize (PJ_TIME_VAL (tv_sec t1 + tv_sec t2) (tv_msec t1 + tv_msec t2))"

definition PJ_TIME_VAL_SUB :: "pj_time_val \<Rightarrow> pj_time_val \<Rightarrow> pj_time_val" where
  "PJ_TIME_VAL_SUB t1 t2 = pj_time_val_normalize (PJ_TIME_VAL (tv_sec t1 - tv_sec t2) (tv_msec t1 - tv_msec t2))"

subsection \<open>Normalised values\<close>

text \<open>Less than a second of milliseconds, and no mixed signs.\<close>

definition tv_normal :: "pj_time_val \<Rightarrow> bool" where
  "tv_normal t \<longleftrightarrow> \<bar>tv_msec t\<bar> < 1000 \<and> \<not> (tv_sec t \<ge> 1 \<and> tv_msec t < 0) \<and> \<not> (tv_sec t < 0 \<and> tv_msec t > 0)"

lemma borrow_secs_spec:
  "tv_msec t \<le> -1000 \<Longrightarrow>
   PJ_TIME_VAL_MSEC (borrow_secs t) = PJ_TIME_VAL_MSEC t \<and> -1000 < tv_msec (borrow_secs t) \<and> tv_msec (borrow_secs t) \<le> 0"
proof (induction t rule: borrow_secs.induct)
  case (1 t)
  define t' where "t' = PJ_TIME_VAL (tv_sec t - 1) (tv_msec t + 1000)"
  have b: "borrow_secs t = (if tv_msec t' \<le> -1000 then borrow_secs t' else t')"
    by (subst borrow_secs.simps) (simp add: Let_def t'_def)
  have m: "PJ_TIME_VAL_MSEC t' = PJ_TIME_VAL_MSEC t" "tv_msec t' = tv_msec t + 1000"
    by (simp_all add: t'_def PJ_TIME_VAL_MSEC_def)
  show ?case
  proof (cases "tv_msec t' \<le> -1000")
    case True
    then show ?thesis using "1.IH" [OF t'_def True] b m by simp
  next
    case False
    then show ?thesis using "1.prems" b m by simp
  qed
qed

lemma carry_msecs_spec: "PJ_TIME_VAL_MSEC (carry_msecs t) = PJ_TIME_VAL_MSEC t \<and> \<bar>tv_msec (carry_msecs t)\<bar> < 1000"
proof (cases "tv_msec t \<ge> 1000")
  case True
  have "tv_msec t = tv_msec t div 1000 * 1000 + tv_msec t mod 1000" by simp
  then show ?thesis
    using True pos_mod_bound [of 1000 "tv_msec t"] pos_mod_sign [of 1000 "tv_msec t"]
    by (simp add: carry_msecs_def PJ_TIME_VAL_MSEC_def algebra_simps)
next
  case False
  then show ?thesis using borrow_secs_spec [of t] by (auto simp: carry_msecs_def)
qed

lemma normalize_spec:
  "PJ_TIME_VAL_MSEC (pj_time_val_normalize t) = PJ_TIME_VAL_MSEC t \<and> tv_normal (pj_time_val_normalize t)"
  using carry_msecs_spec [of t]
  by (auto simp: pj_time_val_normalize_def Let_def PJ_TIME_VAL_MSEC_def tv_normal_def)

lemma tv_normal_order: "tv_normal t1 \<Longrightarrow> tv_normal t2 \<Longrightarrow> t1 < t2 \<longleftrightarrow> PJ_TIME_VAL_MSEC t1 < PJ_TIME_VAL_MSEC t2"
proof -
  have lt: "t1 < t2 \<longleftrightarrow> tv_sec t1 < tv_sec t2 \<or> (tv_sec t1 = tv_sec t2 \<and> tv_msec t1 < tv_msec t2)"
    unfolding less_pj_time_val_def PJ_TIME_VAL_LT_def PJ_TIME_VAL_GTE_def PJ_TIME_VAL_GT_def PJ_TIME_VAL_EQ_def by linarith
  show "tv_normal t1 \<Longrightarrow> tv_normal t2 \<Longrightarrow> ?thesis"
    unfolding lt tv_normal_def PJ_TIME_VAL_MSEC_def by linarith
qed

text \<open>
  Time arithmetic. Addition and subtraction terminate and compute the sum and the difference in
  milliseconds; their results are normalised; and on normalised values the comparison macros, which
  compare seconds first, agree with the comparison of milliseconds.
\<close>

theorem time_val_arith:
  "PJ_TIME_VAL_MSEC (PJ_TIME_VAL_ADD t1 t2) = PJ_TIME_VAL_MSEC t1 + PJ_TIME_VAL_MSEC t2 \<and>
   PJ_TIME_VAL_MSEC (PJ_TIME_VAL_SUB t1 t2) = PJ_TIME_VAL_MSEC t1 - PJ_TIME_VAL_MSEC t2 \<and>
   tv_normal (PJ_TIME_VAL_ADD t1 t2) \<and> tv_normal (PJ_TIME_VAL_SUB t1 t2) \<and>
   (tv_normal t1 \<and> tv_normal t2 \<longrightarrow> PJ_TIME_VAL_LT t1 t2 = (PJ_TIME_VAL_MSEC t1 < PJ_TIME_VAL_MSEC t2))"
  using tv_normal_order
  by (simp add: PJ_TIME_VAL_ADD_def PJ_TIME_VAL_SUB_def normalize_spec) (simp add: PJ_TIME_VAL_MSEC_def)

theorem time_val_arith_witness:
  "tv_normal (PJ_TIME_VAL 1 500) \<and> tv_normal (PJ_TIME_VAL 2 100) \<and> PJ_TIME_VAL_LT (PJ_TIME_VAL 1 500) (PJ_TIME_VAL 2 100) \<and>
   PJ_TIME_VAL_MSEC (PJ_TIME_VAL_ADD (PJ_TIME_VAL 1 500) (PJ_TIME_VAL 2 700)) = 4200"
  using time_val_arith [of "PJ_TIME_VAL 1 500" "PJ_TIME_VAL 2 100"] time_val_arith [of "PJ_TIME_VAL 1 500" "PJ_TIME_VAL 2 700"]
  by (simp add: tv_normal_def PJ_TIME_VAL_MSEC_def)

end
