(* ===== verification/TimerSlot.thy ===== *)
theory TimerSlot
  imports Prelude
begin

text \<open>
  A timer entry as its owner sees it: the user id, and the delay it was scheduled with while it is
  in the heap. \<open>TimerHeap\<close> models the heap itself.
\<close>

record 'id timer_slot =
  tm_id :: 'id
  tm_delay :: "int option"

definition slot_cancel_if_active :: "'id timer_slot \<Rightarrow> 'id \<Rightarrow> 'id timer_slot" where
  "slot_cancel_if_active t i = t\<lparr>tm_id := i, tm_delay := None\<rparr>"

definition slot_schedule_w_grp_lock ::
  "'id timer_slot \<Rightarrow> int \<Rightarrow> 'id \<Rightarrow> pj_status \<times> 'id timer_slot" where
  "slot_schedule_w_grp_lock t delay i =
     (if tm_delay t \<noteq> None then (PJ_EINVALIDOP, t)
      else (PJ_SUCCESS, t\<lparr>tm_id := i, tm_delay := Some delay\<rparr>))"

lemma slot_cancel_simps [simp]:
  "tm_id (slot_cancel_if_active t i) = i" "tm_delay (slot_cancel_if_active t i) = None"
  by (simp_all add: slot_cancel_if_active_def)

lemma slot_schedule_simps:
  "tm_delay t = None \<Longrightarrow> slot_schedule_w_grp_lock t d i = (PJ_SUCCESS, t\<lparr>tm_id := i, tm_delay := Some d\<rparr>)"
  "tm_delay t \<noteq> None \<Longrightarrow> slot_schedule_w_grp_lock t d i = (PJ_EINVALIDOP, t)"
  by (simp_all add: slot_schedule_w_grp_lock_def)

end
