(* ===== verification/StunTsx.thy ===== *)
theory StunTsx
  imports StunMsg TimeVal TimerSlot
begin

text \<open>
  The STUN client transaction (pjnath/src/pjnath/stun_transaction.c): the request is sent again with a doubling
  delay until a response arrives or the count of transmissions is used up.

  The two timers are slots of the timer heap. The calls to the application are recorded in order in \<open>ts_out\<close>; what
  \<^verbatim>\<open>on_send_msg\<close> returns is the argument \<open>send\<close>. An operation of the transaction that a callback makes is a later step:
  after \<^verbatim>\<open>on_complete\<close> and \<^verbatim>\<open>on_destroy\<close> the code does not use the transaction again, and \<^verbatim>\<open>on_send_msg\<close> is
  only documented to send.
\<close>

subsection \<open>State\<close>

definition TIMER_INACTIVE :: nat where "TIMER_INACTIVE = 0"
definition TIMER_ACTIVE :: nat where "TIMER_ACTIVE = 1"

definition PJ_STUN_RTO_VALUE :: nat where "PJ_STUN_RTO_VALUE = 100"
definition PJ_STUN_TIMEOUT_VALUE :: nat where "PJ_STUN_TIMEOUT_VALUE = 16 * PJ_STUN_RTO_VALUE"
definition PJ_STUN_MAX_TRANSMIT_COUNT :: "32 word" where "PJ_STUN_MAX_TRANSMIT_COUNT = 7"

datatype tsx_action = On_send_msg "byte list" | On_complete pj_status "pj_stun_msg option" | On_destroy

record pj_stun_client_tsx =
  has_on_complete :: bool
  has_on_destroy :: bool
  user_data :: nat
  complete :: bool
  require_retransmit :: bool
  rto_msec :: "32 word"
  retransmit_timer :: "nat timer_slot"
  transmit_count :: "32 word"
  retransmit_time :: pj_time_val
  destroy_timer :: "nat timer_slot"
  last_pkt :: "byte list"
  ts_out :: "tsx_action list"

definition tsx_emit :: "tsx_action \<Rightarrow> pj_stun_client_tsx \<Rightarrow> pj_stun_client_tsx" where
  "tsx_emit a tsx = tsx\<lparr>ts_out := ts_out tsx @ [a]\<rparr>"

subsection \<open>Creation and destruction\<close>

text \<open>The arguments say which callbacks the caller set.\<close>

definition pj_stun_client_tsx_create :: "32 word \<Rightarrow> bool \<Rightarrow> bool \<Rightarrow> bool \<Rightarrow> pj_status + pj_stun_client_tsx" where
  "pj_stun_client_tsx_create cfg_rto_msec on_send_msg on_complete on_destroy =
     (if \<not> on_send_msg then Inl PJ_EINVAL
      else Inr \<lparr>has_on_complete = on_complete, has_on_destroy = on_destroy, user_data = 0, complete = False, require_retransmit = False, rto_msec = cfg_rto_msec,
        retransmit_timer = \<lparr>tm_id = TIMER_INACTIVE, tm_delay = None\<rparr>, transmit_count = 0, retransmit_time = PJ_TIME_VAL 0 0,
        destroy_timer = \<lparr>tm_id = TIMER_INACTIVE, tm_delay = None\<rparr>, last_pkt = [], ts_out = []\<rparr>)"

definition pj_stun_client_tsx_schedule_destroy :: "pj_stun_client_tsx \<Rightarrow> pj_time_val \<Rightarrow> pj_status \<times> pj_stun_client_tsx" where
  "pj_stun_client_tsx_schedule_destroy tsx delay =
     (if \<not> has_on_destroy tsx then (PJ_EINVAL, tsx)
      else
        let tsx = tsx\<lparr>destroy_timer := slot_cancel_if_active (destroy_timer tsx) TIMER_INACTIVE\<rparr>;
            tsx = tsx\<lparr>retransmit_timer := slot_cancel_if_active (retransmit_timer tsx) TIMER_INACTIVE\<rparr>;
            (status, t) = slot_schedule_w_grp_lock (destroy_timer tsx) (PJ_TIME_VAL_MSEC delay) TIMER_ACTIVE;
            tsx = tsx\<lparr>destroy_timer := t\<rparr>
        in if status \<noteq> PJ_SUCCESS then (status, tsx) else (PJ_SUCCESS, tsx\<lparr>has_on_complete := False\<rparr>))"

definition pj_stun_client_tsx_destroy :: "pj_stun_client_tsx \<Rightarrow> pj_status" where
  "pj_stun_client_tsx_destroy tsx = PJ_SUCCESS"

definition pj_stun_client_tsx_stop :: "pj_stun_client_tsx \<Rightarrow> pj_status \<times> pj_stun_client_tsx" where
  "pj_stun_client_tsx_stop tsx =
     (PJ_SUCCESS, tsx\<lparr>retransmit_timer := slot_cancel_if_active (retransmit_timer tsx) TIMER_INACTIVE,
        destroy_timer := slot_cancel_if_active (destroy_timer tsx) TIMER_INACTIVE\<rparr>)"

definition pj_stun_client_tsx_is_complete :: "pj_stun_client_tsx \<Rightarrow> bool" where
  "pj_stun_client_tsx_is_complete tsx = complete tsx"

text \<open>The pointer that the application attaches.\<close>

definition pj_stun_client_tsx_set_data :: "pj_stun_client_tsx \<Rightarrow> nat \<Rightarrow> pj_status \<times> pj_stun_client_tsx" where
  "pj_stun_client_tsx_set_data tsx data = (PJ_SUCCESS, tsx\<lparr>user_data := data\<rparr>)"

definition pj_stun_client_tsx_get_data :: "pj_stun_client_tsx \<Rightarrow> nat" where
  "pj_stun_client_tsx_get_data tsx = user_data tsx"

subsection \<open>Sending\<close>

text \<open>The delay until the next retransmission; the milliseconds are an \<^verbatim>\<open>unsigned\<close>, doubled with wrap-around.\<close>

definition next_delay :: "pj_stun_client_tsx \<Rightarrow> pj_time_val" where
  "next_delay tsx =
     (if transmit_count tsx = 0 then PJ_TIME_VAL 0 (uint (rto_msec tsx))
      else if transmit_count tsx < PJ_STUN_MAX_TRANSMIT_COUNT - 1 then
        let msec = push_bit 1 (of_int (PJ_TIME_VAL_MSEC (retransmit_time tsx)) :: 32 word)
        in PJ_TIME_VAL (uint (msec div 1000)) (uint (msec mod 1000))
      else PJ_TIME_VAL (int (PJ_STUN_TIMEOUT_VALUE div 1000)) (int (PJ_STUN_TIMEOUT_VALUE mod 1000)))"

definition tsx_transmit_msg :: "pj_status \<Rightarrow> pj_stun_client_tsx \<Rightarrow> bool \<Rightarrow> pj_status \<times> pj_stun_client_tsx" where
  "tsx_transmit_msg send tsx mod_count =
     (if \<not> (tm_id (retransmit_timer tsx) = TIMER_INACTIVE \<or> \<not> require_retransmit tsx \<or> \<not> mod_count) then (PJ_EBUSY, tsx)
      else
        let (status, tsx) =
          (if require_retransmit tsx \<and> mod_count then
             let tsx = tsx\<lparr>retransmit_time := next_delay tsx\<rparr>;
                 (status, t) = slot_schedule_w_grp_lock (retransmit_timer tsx) (PJ_TIME_VAL_MSEC (retransmit_time tsx)) TIMER_ACTIVE
             in if status \<noteq> PJ_SUCCESS then (status, tsx\<lparr>retransmit_timer := t\<lparr>tm_id := TIMER_INACTIVE\<rparr>\<rparr>) else (PJ_SUCCESS, tsx\<lparr>retransmit_timer := t\<rparr>)
           else (PJ_SUCCESS, tsx))
        in if status \<noteq> PJ_SUCCESS then (status, tsx)
           else
             let tsx = (if mod_count then tsx\<lparr>transmit_count := transmit_count tsx + 1\<rparr> else tsx);
                 tsx = tsx_emit (On_send_msg (last_pkt tsx)) tsx
             in if send = PJNATH_ESTUNDESTROYED \<or> send = PJ_SUCCESS then (send, tsx)
                else if mod_count \<or> send = PJ_EINVALIDOP
                  then (send, tsx\<lparr>retransmit_timer := slot_cancel_if_active (retransmit_timer tsx) TIMER_INACTIVE\<rparr>)
                else (send, tsx))"

definition pj_stun_client_tsx_send_msg :: "pj_status \<Rightarrow> pj_stun_client_tsx \<Rightarrow> bool \<Rightarrow> byte list \<Rightarrow> pj_status \<times> pj_stun_client_tsx" where
  "pj_stun_client_tsx_send_msg send tsx retransmit pkt =
     (if pkt = [] then (PJ_EINVAL, tsx)
      else if tm_id (retransmit_timer tsx) \<noteq> 0 then (PJ_EBUSY, tsx)
      else
        let tsx = tsx\<lparr>last_pkt := pkt, require_retransmit := retransmit\<rparr>;
            (status, tsx) =
              (if \<not> retransmit then
                 let tsx = tsx\<lparr>transmit_count := PJ_STUN_MAX_TRANSMIT_COUNT\<rparr>;
                     timeout = rto_msec tsx * 16;
                     tsx = tsx\<lparr>retransmit_time := PJ_TIME_VAL (uint (timeout div 1000)) (uint (timeout mod 1000))\<rparr>;
                     (status, t) = slot_schedule_w_grp_lock (retransmit_timer tsx) (PJ_TIME_VAL_MSEC (retransmit_time tsx)) TIMER_ACTIVE
                 in if status \<noteq> PJ_SUCCESS then (status, tsx\<lparr>retransmit_timer := t\<lparr>tm_id := TIMER_INACTIVE\<rparr>\<rparr>) else (PJ_SUCCESS, tsx\<lparr>retransmit_timer := t\<rparr>)
               else (PJ_SUCCESS, tsx))
        in if status \<noteq> PJ_SUCCESS then (status, tsx)
           else
             let (status, tsx) = tsx_transmit_msg send tsx True
             in if status \<noteq> PJ_SUCCESS
                then (status, tsx\<lparr>retransmit_timer := slot_cancel_if_active (retransmit_timer tsx) TIMER_INACTIVE\<rparr>)
                else (PJ_SUCCESS, tsx))"

subsection \<open>Completion\<close>

definition tsx_complete :: "pj_status \<Rightarrow> pj_stun_msg option \<Rightarrow> pj_stun_client_tsx \<Rightarrow> pj_stun_client_tsx" where
  "tsx_complete status msg tsx =
     (if \<not> complete tsx then
        let tsx = tsx\<lparr>complete := True\<rparr>
        in if has_on_complete tsx then tsx_emit (On_complete status msg) tsx else tsx
      else tsx)"

text \<open>The timer heap takes the entry out before it calls back.\<close>

definition timer_expired :: "nat timer_slot \<Rightarrow> nat timer_slot" where
  "timer_expired t = t\<lparr>tm_delay := None\<rparr>"

definition retransmit_timer_callback :: "pj_status \<Rightarrow> pj_stun_client_tsx \<Rightarrow> pj_stun_client_tsx" where
  "retransmit_timer_callback send tsx =
     (let tsx = tsx\<lparr>retransmit_timer := (retransmit_timer tsx)\<lparr>tm_id := 0\<rparr>\<rparr> in
      if transmit_count tsx \<ge> PJ_STUN_MAX_TRANSMIT_COUNT then tsx_complete PJNATH_ESTUNTIMEDOUT None tsx
      else
        let (status, tsx) = tsx_transmit_msg send tsx True
        in if status \<noteq> PJ_SUCCESS
           then tsx_complete status None (tsx\<lparr>retransmit_timer := (retransmit_timer tsx)\<lparr>tm_id := 0\<rparr>\<rparr>)
           else tsx)"

definition pj_stun_client_tsx_retransmit :: "pj_status \<Rightarrow> pj_stun_client_tsx \<Rightarrow> bool \<Rightarrow> pj_status \<times> pj_stun_client_tsx" where
  "pj_stun_client_tsx_retransmit send tsx mod_count =
     (if tm_id (destroy_timer tsx) \<noteq> 0 then (PJ_SUCCESS, tsx)
      else
        let tsx = (if mod_count then tsx\<lparr>retransmit_timer := slot_cancel_if_active (retransmit_timer tsx) TIMER_INACTIVE\<rparr> else tsx)
        in tsx_transmit_msg send tsx mod_count)"

text \<open>\<open>None\<close>: the call goes through the pointer of a callback that is not set.\<close>

definition destroy_timer_callback :: "pj_stun_client_tsx \<Rightarrow> pj_stun_client_tsx option" where
  "destroy_timer_callback tsx =
     (let tsx = tsx\<lparr>destroy_timer := (destroy_timer tsx)\<lparr>tm_id := 0\<rparr>\<rparr>
      in if has_on_destroy tsx then Some (tsx_emit On_destroy tsx) else None)"

text \<open>A response; \<open>None\<close> when its ERROR-CODE attribute is not of the structure its type says.\<close>

definition pj_stun_client_tsx_on_rx_msg :: "pj_stun_client_tsx \<Rightarrow> pj_stun_msg \<Rightarrow> (pj_status \<times> pj_stun_client_tsx) option" where
  "pj_stun_client_tsx_on_rx_msg tsx msg =
     (if \<not> STUN_IS_SUCCESS_RESPONSE (mh_type (msg_hdr msg)) \<and> \<not> STUN_IS_ERROR_RESPONSE (mh_type (msg_hdr msg)) then Some (PJNATH_EINSTUNMSGTYPE, tsx)
      else
        let tsx = tsx\<lparr>retransmit_timer := slot_cancel_if_active (retransmit_timer tsx) TIMER_INACTIVE\<rparr> in
        case pj_stun_msg_find_attr msg PJ_STUN_ATTR_ERROR_CODE 0 of
          None \<Rightarrow> Some (PJ_SUCCESS, tsx_complete PJ_SUCCESS (Some msg) tsx)
        | Some err_attr \<Rightarrow> (case at_body err_attr of
              Errcode_body err_code _ \<Rightarrow>
                if err_code \<le> 200 then Some (PJ_SUCCESS, tsx)
                else Some (PJ_SUCCESS, tsx_complete (PJ_STATUS_FROM_STUN_CODE err_code) (Some msg) tsx)
            | _ \<Rightarrow> None))"

end
