(* ===== verification/StunSession.thy ===== *)
theory StunSession
  imports StunAuth StunTsx
begin

text \<open>
  The STUN session (pjnath/src/pjnath/stun_session.c): it signs and sends messages, keeps the transactions of its requests and the responses it may
  have to send again, authenticates what it receives, and repeats a request that the server challenges.

  The transmit data objects live in the store \<open>ss_tdata\<close>; releasing the pool of one takes it out. A timer that is still in the heap when its memory is released
  would call back into freed memory: the model records that in \<open>ss_dangling\<close>. The lists hold the keys of the objects, and \<^verbatim>\<open>pj_list_erase\<close> of an object that is
  in no list changes nothing. Calls to the application are recorded in \<open>ss_out\<close>; their results, the generated transaction identifier and what uninitialised memory
  holds are in \<open>sess_env\<close>. The destination of a request, a pointer in the source, is the address it points to when the request is sent. Operations that the application calls from a callback are later steps; the group lock serialises all operations.
\<close>

subsection \<open>State\<close>

datatype pj_stun_auth_type = PJ_STUN_AUTH_NONE | PJ_STUN_AUTH_SHORT_TERM | PJ_STUN_AUTH_LONG_TERM

record pj_stun_tx_data =
  td_msg :: pj_stun_msg
  td_token :: nat
  td_client_tsx :: "pj_stun_client_tsx option"
  td_retransmit :: bool
  td_msg_magic :: "32 word"
  td_msg_key :: "byte list"
  td_auth_info :: pj_stun_req_cred_info
  td_pkt :: "byte list"
  td_dst_addr :: "pj_sockaddr option"
  td_res_timer :: "bool timer_slot"

record pj_stun_rx_data =
  rd_msg :: pj_stun_msg
  rd_info :: pj_stun_req_cred_info

datatype sess_action =
    Sess_send_msg nat "byte list" pj_sockaddr
  | Sess_request_complete pj_status nat nat "pj_stun_msg option"
  | Sess_rx_request "byte list" pj_stun_rx_data nat pj_sockaddr
  | Sess_rx_indication "byte list" pj_stun_msg nat pj_sockaddr

record pj_stun_session =
  cfg_rto_msec :: "32 word"
  cfg_res_cache_msec :: "32 word"
  cb_on_rx_request :: bool
  cb_on_request_complete :: bool
  cb_on_rx_indication :: bool
  ss_user_data :: nat
  ss_is_destroying :: bool
  ss_use_fingerprint :: bool
  ss_log_flag :: "32 word"
  ss_auth_type :: pj_stun_auth_type
  ss_cred :: pj_stun_auth_cred
  ss_auth_retry :: int
  ss_next_nonce :: "byte list"
  ss_server_realm :: "byte list"
  ss_srv_name :: "byte list"
  ss_pending_request_list :: "nat list"
  ss_cached_response_list :: "nat list"
  ss_tdata :: "nat \<Rightarrow> pj_stun_tx_data option"
  ss_next_tdata :: nat
  ss_dangling :: bool
  ss_out :: "sess_action list"

record sess_env =
  ev_send :: pj_status
  ev_rx :: pj_status
  ev_tsx_id :: "byte list"
  ev_buf :: "byte list"
  ev_pad :: byte
  ev_stk :: sha_stack
  ev_md5 :: pj_md5_context
  ev_stricmp :: "byte list \<Rightarrow> byte list \<Rightarrow> bool"
  ev_strerror :: "pj_status \<Rightarrow> byte list"

definition no_info :: pj_stun_req_cred_info where
  "no_info = \<lparr>ci_realm = [], ci_username = [], ci_nonce = [], ci_auth_key = []\<rparr>"

definition zero_cred :: pj_stun_auth_cred where
  "zero_cred = PJ_STUN_AUTH_CRED_STATIC \<lparr>sc_realm = [], sc_username = [], sc_data_type = PJ_STUN_PASSWD_PLAIN, sc_data = [], sc_nonce = []\<rparr>"

definition sess_emit :: "sess_action \<Rightarrow> pj_stun_session \<Rightarrow> pj_stun_session" where
  "sess_emit a sess = sess\<lparr>ss_out := ss_out sess @ [a]\<rparr>"

definition put_tdata :: "nat \<Rightarrow> pj_stun_tx_data \<Rightarrow> pj_stun_session \<Rightarrow> pj_stun_session" where
  "put_tdata i tdata sess = sess\<lparr>ss_tdata := (ss_tdata sess)(i := Some tdata)\<rparr>"

definition list_erase :: "nat \<Rightarrow> pj_stun_session \<Rightarrow> pj_stun_session" where
  "list_erase i sess = sess\<lparr>ss_pending_request_list := filter (\<lambda>j. j \<noteq> i) (ss_pending_request_list sess),
     ss_cached_response_list := filter (\<lambda>j. j \<noteq> i) (ss_cached_response_list sess)\<rparr>"

subsection \<open>The list of pending requests\<close>

definition tsx_add :: "nat \<Rightarrow> pj_stun_session \<Rightarrow> pj_stun_session" where
  "tsx_add i sess = sess\<lparr>ss_pending_request_list := i # ss_pending_request_list sess\<rparr>"

definition tsx_erase :: "nat \<Rightarrow> pj_stun_session \<Rightarrow> pj_stun_session" where
  "tsx_erase i sess = list_erase i sess"

text \<open>\<open>None\<close>: the list holds an object that was released.\<close>

fun tsx_lookup_from :: "(nat \<Rightarrow> pj_stun_tx_data option) \<Rightarrow> pj_stun_msg \<Rightarrow> nat list \<Rightarrow> nat option option" where
  "tsx_lookup_from store msg [] = Some None"
| "tsx_lookup_from store msg (i # is) = do {
     tdata \<leftarrow> store i;
     if td_msg_magic tdata = mh_magic (msg_hdr msg) \<and> memcmp (td_msg_key tdata) (mh_tsx_id (msg_hdr msg)) 12 = 0 then Some (Some i)
     else tsx_lookup_from store msg is }"

definition tsx_lookup :: "pj_stun_session \<Rightarrow> pj_stun_msg \<Rightarrow> nat option option" where
  "tsx_lookup sess msg = tsx_lookup_from (ss_tdata sess) msg (ss_pending_request_list sess)"

subsection \<open>Releasing transmit data\<close>

definition tsx_timers :: "pj_stun_client_tsx option \<Rightarrow> bool" where
  "tsx_timers t = (case t of None \<Rightarrow> False | Some tsx \<Rightarrow> tm_delay (retransmit_timer tsx) \<noteq> None \<or> tm_delay (destroy_timer tsx) \<noteq> None)"

definition pool_release :: "nat \<Rightarrow> pj_stun_session \<Rightarrow> pj_stun_session option" where
  "pool_release i sess = do {
     tdata \<leftarrow> ss_tdata sess i;
     Some (sess\<lparr>ss_tdata := (ss_tdata sess)(i := None),
       ss_dangling := (ss_dangling sess \<or> tsx_timers (td_client_tsx tdata) \<or> tm_delay (td_res_timer tdata) \<noteq> None \<or>
         i \<in> set (ss_pending_request_list sess) \<or> i \<in> set (ss_cached_response_list sess))\<rparr>) }"

text \<open>\<open>user_data\<close> of a transaction is the key of its transmit data plus one, and 0 is NULL.\<close>

definition stun_tsx_on_destroy :: "nat \<Rightarrow> pj_stun_session \<Rightarrow> pj_stun_session option" where
  "stun_tsx_on_destroy i sess = do {
     tdata \<leftarrow> ss_tdata sess i;
     tsx \<leftarrow> td_client_tsx tdata;
     let data = pj_stun_client_tsx_get_data tsx;
     let sess = put_tdata i (tdata\<lparr>td_client_tsx := Some (snd (pj_stun_client_tsx_stop tsx))\<rparr>) sess;
     if data \<noteq> 0 then pool_release (data - 1) (tsx_erase (data - 1) sess) else Some sess }"

definition destroy_tdata :: "nat \<Rightarrow> bool \<Rightarrow> pj_stun_session \<Rightarrow> pj_stun_session option" where
  "destroy_tdata i force sess = do {
     tdata \<leftarrow> ss_tdata sess i;
     let (tdata, sess) = (if tm_id (td_res_timer tdata) \<noteq> False
       then let tdata = tdata\<lparr>td_res_timer := slot_cancel_if_active (td_res_timer tdata) False\<rparr> in (tdata, list_erase i (put_tdata i tdata sess))
       else (tdata, sess));
     if force then
       let sess = list_erase i sess;
           tdata = (case td_client_tsx tdata of None \<Rightarrow> tdata
             | Some tsx \<Rightarrow> tdata\<lparr>td_client_tsx := Some (snd (pj_stun_client_tsx_set_data (snd (pj_stun_client_tsx_stop tsx)) 0))\<rparr>)
       in pool_release i (put_tdata i tdata sess)
     else (case td_client_tsx tdata of
         Some tsx \<Rightarrow> Some (put_tdata i (tdata\<lparr>td_client_tsx := Some (snd (pj_stun_client_tsx_schedule_destroy tsx (PJ_TIME_VAL 0 300)))\<rparr>) sess)
       | None \<Rightarrow> pool_release i sess) }"

definition pj_stun_msg_destroy_tdata :: "nat \<Rightarrow> pj_stun_session \<Rightarrow> pj_stun_session option" where
  "pj_stun_msg_destroy_tdata i sess = destroy_tdata i False sess"

definition on_cache_timeout :: "nat \<Rightarrow> pj_stun_session \<Rightarrow> pj_stun_session option" where
  "on_cache_timeout i sess = do {
     tdata \<leftarrow> ss_tdata sess i;
     let sess = put_tdata i (tdata\<lparr>td_res_timer := (td_res_timer tdata)\<lparr>tm_id := False\<rparr>\<rparr>) sess;
     if ss_is_destroying sess then Some sess
     else destroy_tdata i False (list_erase i sess) }"

subsection \<open>Building messages\<close>

text \<open>Adding an attribute only when a condition holds: the status and the message, which stays as it is on failure.\<close>

definition add_if :: "bool \<Rightarrow> (pj_stun_msg \<Rightarrow> pj_status + pj_stun_msg) \<Rightarrow> pj_stun_msg \<Rightarrow> pj_status \<times> pj_stun_msg" where
  "add_if c add msg = (if c then (case add msg of Inl status \<Rightarrow> (status, msg) | Inr msg' \<Rightarrow> (PJ_SUCCESS, msg')) else (PJ_SUCCESS, msg))"

definition apply_msg_options :: "pj_stun_session \<Rightarrow> pj_stun_req_cred_info option \<Rightarrow> pj_stun_msg \<Rightarrow> (pj_status \<times> pj_stun_msg) option" where
  "apply_msg_options sess auth_info msg = do {
     let t = mh_type (msg_hdr msg);
     let msg = snd (add_if (ss_srv_name sess \<noteq> [] \<and> pj_stun_msg_find_attr msg PJ_STUN_ATTR_SOFTWARE 0 = None \<and>
         (STUN_IS_RESPONSE t \<or> STUN_IS_REQUEST t \<and> mh_magic (msg_hdr msg) = PJ_STUN_MAGIC))
       (\<lambda>m. pj_stun_msg_add_string_attr m PJ_STUN_ATTR_SOFTWARE (ss_srv_name sess)) msg);
     valid \<leftarrow> pj_stun_auth_valid_for_msg msg;
     let info = (case auth_info of Some info \<Rightarrow> if valid then info else no_info | None \<Rightarrow> no_info);
     let (status, msg) = add_if (ci_username info \<noteq> [] \<and> STUN_IS_REQUEST t) (\<lambda>m. pj_stun_msg_add_string_attr m PJ_STUN_ATTR_USERNAME (ci_username info)) msg;
     if status \<noteq> PJ_SUCCESS then Some (status, msg) else do {
     let (status, msg) = add_if (ci_realm info \<noteq> [] \<and> STUN_IS_REQUEST t) (\<lambda>m. pj_stun_msg_add_string_attr m PJ_STUN_ATTR_REALM (ci_realm info)) msg;
     if status \<noteq> PJ_SUCCESS then Some (status, msg) else do {
     let msg = snd (add_if (ci_nonce info \<noteq> [] \<and> (STUN_IS_REQUEST t \<or> STUN_IS_ERROR_RESPONSE t)) (\<lambda>m. pj_stun_msg_add_string_attr m PJ_STUN_ATTR_NONCE (ci_nonce info)) msg);
     let (status, msg) = add_if (ci_username info \<noteq> [] \<and> ci_auth_key info \<noteq> []) pj_stun_msg_add_msgint_attr msg;
     if status \<noteq> PJ_SUCCESS then Some (status, msg) else
     Some (add_if (ss_use_fingerprint sess) (\<lambda>m. pj_stun_msg_add_uint_attr m PJ_STUN_ATTR_FINGERPRINT 0) msg) } } }"

text \<open>The function \<^verbatim>\<open>get_auth\<close> of the session, which fills in the credential of an outgoing request.\<close>

definition get_auth_info :: "sess_env \<Rightarrow> pj_stun_session \<Rightarrow> pj_stun_msg \<Rightarrow> pj_status + pj_stun_req_cred_info" where
  "get_auth_info env sess msg = (case ss_cred sess of
     PJ_STUN_AUTH_CRED_STATIC c \<Rightarrow>
       Inr \<lparr>ci_realm = ss_server_realm sess, ci_username = sc_username c, ci_nonce = sc_nonce c,
         ci_auth_key = pj_stun_create_key (ev_md5 env) (Some (ss_server_realm sess)) (sc_username c) (sc_data_type c) (sc_data c)\<rparr>
   | PJ_STUN_AUTH_CRED_DYNAMIC d \<Rightarrow> (case get_cred d msg of
         Inl rc \<Rightarrow> Inl rc
       | Inr (realm, username, nonce, data_type, password) \<Rightarrow>
           Inr \<lparr>ci_realm = realm, ci_username = username, ci_nonce = nonce,
             ci_auth_key = pj_stun_create_key (ev_md5 env) (Some realm) username data_type password\<rparr>))"

definition zero_tdata :: "pj_stun_msg \<Rightarrow> pj_stun_tx_data" where
  "zero_tdata msg = \<lparr>td_msg = msg, td_token = 0, td_client_tsx = None, td_retransmit = False, td_msg_magic = 0, td_msg_key = replicate 12 0, td_auth_info = no_info,
     td_pkt = [], td_dst_addr = None, td_res_timer = \<lparr>tm_id = False, tm_delay = None\<rparr>\<rparr>"

text \<open>The object exists once its creation succeeded; a failure releases it before anyone has seen it.\<close>

definition create_tdata :: "pj_stun_tx_data \<Rightarrow> pj_stun_session \<Rightarrow> nat \<times> pj_stun_session" where
  "create_tdata tdata sess = (ss_next_tdata sess, put_tdata (ss_next_tdata sess) tdata (sess\<lparr>ss_next_tdata := Suc (ss_next_tdata sess)\<rparr>))"

definition pj_stun_session_create_req ::
  "sess_env \<Rightarrow> pj_stun_session \<Rightarrow> 16 word \<Rightarrow> 32 word \<Rightarrow> byte list option \<Rightarrow> pj_status + nat \<times> pj_stun_session" where
  "pj_stun_session_create_req env sess method magic tsx_id =
     (if ss_is_destroying sess then Inl PJ_EINVALIDOP
      else case pj_stun_msg_create method magic (case tsx_id of Some i \<Rightarrow> i | None \<Rightarrow> ev_tsx_id env) of
        Inl status \<Rightarrow> Inl status
      | Inr msg \<Rightarrow>
          let tdata = (zero_tdata msg)\<lparr>td_msg_magic := mh_magic (msg_hdr msg), td_msg_key := mh_tsx_id (msg_hdr msg)\<rparr> in
          case (case ss_auth_type sess of
              PJ_STUN_AUTH_NONE \<Rightarrow> Inr no_info
            | PJ_STUN_AUTH_SHORT_TERM \<Rightarrow> get_auth_info env sess msg
            | PJ_STUN_AUTH_LONG_TERM \<Rightarrow>
                if ss_next_nonce sess \<noteq> [] then
                  map_sum id (\<lambda>info. info\<lparr>ci_nonce := ss_next_nonce sess, ci_realm := ss_server_realm sess\<rparr>) (get_auth_info env sess msg)
                else Inr no_info) of
            Inl status \<Rightarrow> Inl status
          | Inr info \<Rightarrow> Inr (create_tdata (tdata\<lparr>td_auth_info := info\<rparr>) sess))"

definition pj_stun_session_create_ind :: "sess_env \<Rightarrow> pj_stun_session \<Rightarrow> 16 word \<Rightarrow> pj_status + nat \<times> pj_stun_session" where
  "pj_stun_session_create_ind env sess msg_type =
     (if ss_is_destroying sess then Inl PJ_EINVALIDOP
      else case pj_stun_msg_create (msg_type OR PJ_STUN_INDICATION_BIT) PJ_STUN_MAGIC (ev_tsx_id env) of
        Inl status \<Rightarrow> Inl status
      | Inr msg \<Rightarrow> Inr (create_tdata (zero_tdata msg) sess))"

definition pj_stun_session_create_res ::
  "pj_stun_session \<Rightarrow> pj_stun_rx_data \<Rightarrow> nat \<Rightarrow> byte list option \<Rightarrow> (pj_status + nat \<times> pj_stun_session) option" where
  "pj_stun_session_create_res sess rdata err_code err_msg =
     (if ss_is_destroying sess then Some (Inl PJ_EINVALIDOP)
      else do {
        r \<leftarrow> pj_stun_msg_create_response (rd_msg rdata) err_code err_msg;
        case r of Inl status \<Rightarrow> Some (Inl status)
        | Inr msg \<Rightarrow>
            let hdr = msg_hdr (rd_msg rdata) in
            Some (Inr (create_tdata ((zero_tdata msg)\<lparr>td_msg_magic := mh_magic hdr, td_msg_key := mh_tsx_id hdr,
              td_auth_info := pj_stun_req_cred_info_dup (rd_info rdata)\<rparr>) sess)) })"

subsection \<open>Sending\<close>

definition PJ_STUN_MAX_PKT_LEN :: nat where "PJ_STUN_MAX_PKT_LEN = 800"

text \<open>
  A call into the transaction of an object. Its callback \<^verbatim>\<open>stun_tsx_on_send_msg\<close> refuses to send once the session is being destroyed and else passes the packet
  to the application. The result, what the transaction reported, and the session.
\<close>

definition stun_tsx_on_send_msg :: "sess_env \<Rightarrow> pj_stun_session \<Rightarrow> pj_status" where
  "stun_tsx_on_send_msg env sess = (if ss_is_destroying sess then PJ_EINVALIDOP else ev_send env)"

definition sends_of :: "pj_stun_session \<Rightarrow> pj_stun_tx_data \<Rightarrow> tsx_action list \<Rightarrow> sess_action list option" where
  "sends_of sess tdata acts = (if ss_is_destroying sess then Some []
     else those [case td_dst_addr tdata of Some a \<Rightarrow> Some (Sess_send_msg (td_token tdata) pkt a) | None \<Rightarrow> None. On_send_msg pkt \<leftarrow> acts])"

definition tsx_call ::
  "sess_env \<Rightarrow> nat \<Rightarrow> (pj_status \<Rightarrow> pj_stun_client_tsx \<Rightarrow> pj_status \<times> pj_stun_client_tsx) \<Rightarrow> pj_stun_session \<Rightarrow>
   (pj_status \<times> tsx_action list \<times> pj_stun_session) option" where
  "tsx_call env i f sess = do {
     tdata \<leftarrow> ss_tdata sess i;
     tsx \<leftarrow> td_client_tsx tdata;
     let (r, tsx) = f (stun_tsx_on_send_msg env sess) (tsx\<lparr>ts_out := []\<rparr>);
     sent \<leftarrow> sends_of sess tdata (ts_out tsx);
     Some (r, ts_out tsx, (put_tdata i (tdata\<lparr>td_client_tsx := Some (tsx\<lparr>ts_out := []\<rparr>)\<rparr>) sess)\<lparr>ss_out := ss_out sess @ sent\<rparr>) }"

text \<open>A failure of sending destroys the object.\<close>

definition send_failed :: "nat \<Rightarrow> pj_status \<Rightarrow> pj_stun_session \<Rightarrow> (pj_status \<times> pj_stun_session) option" where
  "send_failed i status sess = do { sess \<leftarrow> pj_stun_msg_destroy_tdata i sess; Some (status, sess) }"

definition send_request :: "sess_env \<Rightarrow> nat \<Rightarrow> bool \<Rightarrow> pj_sockaddr \<Rightarrow> pj_stun_session \<Rightarrow> (pj_status \<times> pj_stun_session) option" where
  "send_request env i retransmit server sess = do {
     tdata \<leftarrow> ss_tdata sess i;
     case pj_stun_client_tsx_create (cfg_rto_msec sess) True True True of
       Inl status \<Rightarrow> Some (status, sess)
     | Inr tsx \<Rightarrow> do {
         let tsx = snd (pj_stun_client_tsx_set_data tsx (Suc i));
         let sess = put_tdata i (tdata\<lparr>td_client_tsx := Some tsx, td_dst_addr := Some server\<rparr>) sess;
         (status, _, sess) \<leftarrow> tsx_call env i (\<lambda>st tsx. pj_stun_client_tsx_send_msg st tsx retransmit (td_pkt tdata)) sess;
         if status \<noteq> PJ_SUCCESS \<and> status \<noteq> PJ_EPENDING then send_failed i status sess
         else Some (status, tsx_add i sess) } }"

definition send_other :: "sess_env \<Rightarrow> nat \<Rightarrow> nat \<Rightarrow> bool \<Rightarrow> pj_sockaddr \<Rightarrow> pj_stun_session \<Rightarrow> (pj_status \<times> pj_stun_session) option" where
  "send_other env i token cache_res server sess = do {
     tdata \<leftarrow> ss_tdata sess i;
     let t = mh_type (msg_hdr (td_msg tdata));
     let (status, tdata, cached) =
       (if cache_res \<and> (STUN_IS_SUCCESS_RESPONSE t \<or> STUN_IS_ERROR_RESPONSE t) then
          let (status, timer) = slot_schedule_w_grp_lock \<lparr>tm_id = False, tm_delay = None\<rparr>
                (PJ_TIME_VAL_MSEC (PJ_TIME_VAL (uint (cfg_res_cache_msec sess div 1000)) (uint (cfg_res_cache_msec sess mod 1000)))) True
          in (status, tdata\<lparr>td_res_timer := timer\<rparr>, status = PJ_SUCCESS)
        else (PJ_SUCCESS, tdata, False));
     let sess = put_tdata i tdata sess;
     if status \<noteq> PJ_SUCCESS then send_failed i status sess
     else do {
       let sess = (if cached then sess\<lparr>ss_cached_response_list := ss_cached_response_list sess @ [i]\<rparr> else sess);
       let sess = sess_emit (Sess_send_msg token (td_pkt tdata) server) sess;
       let status = ev_send env;
       if status \<noteq> PJ_SUCCESS \<and> status \<noteq> PJ_EPENDING then send_failed i status sess
       else if tm_id (td_res_timer tdata) = False then send_failed i status sess
       else Some (status, sess) } }"

definition pj_stun_session_send_msg ::
  "sess_env \<Rightarrow> pj_stun_session \<Rightarrow> nat \<Rightarrow> bool \<Rightarrow> bool \<Rightarrow> pj_sockaddr \<Rightarrow> nat \<Rightarrow> (pj_status \<times> pj_stun_session) option" where
  "pj_stun_session_send_msg env sess token cache_res retransmit server i =
     (if ss_is_destroying sess then Some (PJ_EINVALIDOP, sess)
      else do {
        tdata \<leftarrow> ss_tdata sess i;
        let tdata = tdata\<lparr>td_token := token, td_retransmit := retransmit\<rparr>;
        (status, msg) \<leftarrow> apply_msg_options sess (Some (td_auth_info tdata)) (td_msg tdata);
        let tdata = tdata\<lparr>td_msg := msg\<rparr>;
        if status \<noteq> PJ_SUCCESS then send_failed i status (put_tdata i tdata sess)
        else do {
          r \<leftarrow> pj_stun_msg_encode (ev_pad env) (ev_stk env) msg (take PJ_STUN_MAX_PKT_LEN (ev_buf env)) 0 (Some (ci_auth_key (td_auth_info tdata)));
          case r of
            Inl status \<Rightarrow> send_failed i status (put_tdata i tdata sess)
          | Inr (pkt, msg, pkt_size) \<Rightarrow>
              let sess = put_tdata i (tdata\<lparr>td_msg := msg, td_pkt := take pkt_size pkt\<rparr>) sess in
              if STUN_IS_REQUEST (mh_type (msg_hdr msg)) then send_request env i retransmit server sess
              else send_other env i token cache_res server sess } })"

definition pj_stun_session_respond ::
  "sess_env \<Rightarrow> pj_stun_session \<Rightarrow> pj_stun_rx_data \<Rightarrow> nat \<Rightarrow> byte list option \<Rightarrow> nat \<Rightarrow> bool \<Rightarrow> pj_sockaddr \<Rightarrow> (pj_status \<times> pj_stun_session) option" where
  "pj_stun_session_respond env sess rdata code errmsg token cache dst_addr =
     (if ss_is_destroying sess then Some (PJ_EINVALIDOP, sess)
      else do {
        r \<leftarrow> pj_stun_session_create_res sess rdata code errmsg;
        case r of
          Inl status \<Rightarrow> Some (status, sess)
        | Inr (i, sess) \<Rightarrow> pj_stun_session_send_msg env sess token cache False dst_addr i })"

subsection \<open>Completion of requests\<close>

fun strip_nulls :: "byte list \<Rightarrow> byte list" where
  "strip_nulls [] = []"
| "strip_nulls (x # xs) = (let ys = strip_nulls xs in if ys = [] \<and> x = 0 then [] else x # ys)"

text \<open>
  The cases where the challenge does not lead to another request come first; the flag says whether the application is told. \<open>request\<close> is the transmit data of the
  request that was answered.
\<close>

definition retry_request ::
  "sess_env \<Rightarrow> pj_stun_tx_data \<Rightarrow> pj_sockaddr \<Rightarrow> pj_stun_session \<Rightarrow> (bool \<times> pj_stun_session) option" where
  "retry_request env request src_addr sess =
     (case pj_stun_session_create_req env sess (mh_type (msg_hdr (td_msg request))) (mh_magic (msg_hdr (td_msg request))) None of
        Inl status \<Rightarrow> Some (True, sess)
      | Inr (i, sess) \<Rightarrow> do {
          tdata \<leftarrow> ss_tdata sess i;
          copies \<leftarrow> those (map pj_stun_attr_clone (filter (\<lambda>a. at_type a \<notin>
            {PJ_STUN_ATTR_USERNAME, PJ_STUN_ATTR_REALM, PJ_STUN_ATTR_MESSAGE_INTEGRITY, PJ_STUN_ATTR_NONCE}) (msg_attrs (td_msg request))));
          let msg = (td_msg tdata)\<lparr>msg_attrs := msg_attrs (td_msg tdata) @ copies\<rparr>;
          (_, sess) \<leftarrow> pj_stun_session_send_msg env (put_tdata i (tdata\<lparr>td_msg := msg\<rparr>) sess) (td_token request) True (td_retransmit request) src_addr i;
          Some (False, sess) })"

definition handle_auth_challenge ::
  "sess_env \<Rightarrow> pj_stun_tx_data \<Rightarrow> pj_stun_msg option \<Rightarrow> pj_sockaddr \<Rightarrow> pj_stun_session \<Rightarrow> (bool \<times> pj_stun_session) option" where
  "handle_auth_challenge env request response src_addr sess = (case response of
     None \<Rightarrow> Some (True, sess)
   | Some response \<Rightarrow>
       if ss_auth_type sess \<noteq> PJ_STUN_AUTH_LONG_TERM then Some (True, sess)
       else if \<not> STUN_IS_ERROR_RESPONSE (mh_type (msg_hdr response)) then Some (True, sess\<lparr>ss_auth_retry := 0\<rparr>)
       else case pj_stun_msg_find_attr response PJ_STUN_ATTR_ERROR_CODE 0 of
         None \<Rightarrow> Some (False, sess)
       | Some ea \<Rightarrow> (case at_body ea of
           Errcode_body err_code _ \<Rightarrow>
             if err_code = PJ_STUN_SC_UNAUTHORIZED \<or> err_code = PJ_STUN_SC_STALE_NONCE then do {
               anonce \<leftarrow> string_value (pj_stun_msg_find_attr response PJ_STUN_ATTR_NONCE 0);
               case anonce of
                 None \<Rightarrow> Some (False, sess)
               | Some nonce \<Rightarrow>
                   if nonce = ss_next_nonce sess then Some (True, sess)
                   else do {
                     let sess = sess\<lparr>ss_auth_retry := ss_auth_retry sess + 1\<rparr>;
                     if ss_auth_retry sess > 3 then Some (True, sess)
                     else do {
                       arealm \<leftarrow> string_value (pj_stun_msg_find_attr response PJ_STUN_ATTR_REALM 0);
                       let sess = sess\<lparr>ss_next_nonce := nonce\<rparr>;
                       let sess = (case arealm of Some r \<Rightarrow> sess\<lparr>ss_server_realm := strip_nulls r\<rparr> | None \<Rightarrow> sess);
                       retry_request env request src_addr sess } } }
             else Some (True, sess\<lparr>ss_auth_retry := 0\<rparr>)
         | _ \<Rightarrow> None))"

definition stun_tsx_on_complete ::
  "sess_env \<Rightarrow> nat \<Rightarrow> pj_status \<Rightarrow> pj_stun_msg option \<Rightarrow> pj_sockaddr \<Rightarrow> pj_stun_session \<Rightarrow> pj_stun_session option" where
  "stun_tsx_on_complete env i status response src_addr sess = do {
     tdata \<leftarrow> ss_tdata sess i;
     if ss_is_destroying sess then pj_stun_msg_destroy_tdata i sess
     else do {
       (notify_user, sess) \<leftarrow> handle_auth_challenge env tdata response src_addr sess;
       let sess = (if notify_user \<and> cb_on_request_complete sess then sess_emit (Sess_request_complete status (td_token tdata) i response) sess else sess);
       destroy_tdata i (status = PJNATH_ESTUNTIMEDOUT) sess } }"

text \<open>What the transaction reported to the session.\<close>

definition tsx_reported :: "sess_env \<Rightarrow> nat \<Rightarrow> tsx_action list \<Rightarrow> pj_sockaddr \<Rightarrow> pj_stun_session \<Rightarrow> pj_stun_session option" where
  "tsx_reported env i acts src_addr sess = (case [(st, m). On_complete st m \<leftarrow> acts] of
     [] \<Rightarrow> Some sess
   | (st, m) # _ \<Rightarrow> stun_tsx_on_complete env i st m src_addr sess)"

subsection \<open>Timers\<close>

text \<open>The source address of a completion by the timer is NULL; no response comes with it, so it is not used.\<close>

definition no_addr :: pj_sockaddr where
  "no_addr = \<lparr>sa_family = 0, sa_port = 0, sa_addr = []\<rparr>"

definition on_retransmit_timer :: "sess_env \<Rightarrow> nat \<Rightarrow> pj_stun_session \<Rightarrow> pj_stun_session option" where
  "on_retransmit_timer env i sess = do {
     (_, acts, sess) \<leftarrow> tsx_call env i (\<lambda>st tsx. (PJ_SUCCESS, retransmit_timer_callback st (tsx\<lparr>retransmit_timer := timer_expired (retransmit_timer tsx)\<rparr>))) sess;
     tsx_reported env i acts no_addr sess }"

definition on_destroy_timer :: "nat \<Rightarrow> pj_stun_session \<Rightarrow> pj_stun_session option" where
  "on_destroy_timer i sess = do {
     tdata \<leftarrow> ss_tdata sess i;
     tsx \<leftarrow> td_client_tsx tdata;
     tsx \<leftarrow> destroy_timer_callback (tsx\<lparr>destroy_timer := timer_expired (destroy_timer tsx)\<rparr>);
     stun_tsx_on_destroy i (put_tdata i (tdata\<lparr>td_client_tsx := Some (tsx\<lparr>ts_out := []\<rparr>)\<rparr>) sess) }"

definition on_res_timer :: "nat \<Rightarrow> pj_stun_session \<Rightarrow> pj_stun_session option" where
  "on_res_timer i sess = do {
     tdata \<leftarrow> ss_tdata sess i;
     on_cache_timeout i (put_tdata i (tdata\<lparr>td_res_timer := (td_res_timer tdata)\<lparr>tm_delay := None\<rparr>\<rparr>) sess) }"

subsection \<open>Creation, destruction and settings\<close>

definition pj_stun_session_set_software_name :: "pj_stun_session \<Rightarrow> byte list option \<Rightarrow> pj_status \<times> pj_stun_session" where
  "pj_stun_session_set_software_name sess sw = (PJ_SUCCESS, sess\<lparr>ss_srv_name := (case sw of Some s \<Rightarrow> s | None \<Rightarrow> [])\<rparr>)"

definition pj_stun_session_create :: "32 word \<Rightarrow> 32 word \<Rightarrow> byte list \<Rightarrow> bool \<Rightarrow> bool \<Rightarrow> bool \<Rightarrow> bool \<Rightarrow> pj_stun_session" where
  "pj_stun_session_create rto res_cache software_name on_rx_request on_request_complete on_rx_indication fingerprint =
     snd (pj_stun_session_set_software_name \<lparr>cfg_rto_msec = rto, cfg_res_cache_msec = res_cache, cb_on_rx_request = on_rx_request, cb_on_request_complete = on_request_complete,
       cb_on_rx_indication = on_rx_indication, ss_user_data = 0, ss_is_destroying = False, ss_use_fingerprint = fingerprint, ss_log_flag = 0xFFFF, ss_auth_type = PJ_STUN_AUTH_NONE,
       ss_cred = zero_cred, ss_auth_retry = 0, ss_next_nonce = [], ss_server_realm = [], ss_srv_name = [], ss_pending_request_list = [], ss_cached_response_list = [],
       ss_tdata = (\<lambda>_. None), ss_next_tdata = 0, ss_dangling = False, ss_out = []\<rparr> (Some software_name))"

text \<open>The handler of the group lock, called when nothing refers to the session any more.\<close>

fun destroy_all :: "nat list \<Rightarrow> pj_stun_session \<Rightarrow> pj_stun_session option" where
  "destroy_all [] sess = Some sess"
| "destroy_all (i # is) sess = do { sess \<leftarrow> destroy_tdata i True sess; destroy_all is sess }"

definition stun_sess_on_destroy :: "pj_stun_session \<Rightarrow> pj_stun_session option" where
  "stun_sess_on_destroy sess = do {
     sess \<leftarrow> destroy_all (ss_pending_request_list sess) sess;
     destroy_all (ss_cached_response_list sess) sess }"

fun stop_all :: "nat list \<Rightarrow> pj_stun_session \<Rightarrow> pj_stun_session option" where
  "stop_all [] sess = Some sess"
| "stop_all (i # is) sess = do {
     tdata \<leftarrow> ss_tdata sess i;
     stop_all is (case td_client_tsx tdata of Some tsx \<Rightarrow> put_tdata i (tdata\<lparr>td_client_tsx := Some (snd (pj_stun_client_tsx_stop tsx))\<rparr>) sess | None \<Rightarrow> sess) }"

fun cancel_all :: "nat list \<Rightarrow> pj_stun_session \<Rightarrow> pj_stun_session option" where
  "cancel_all [] sess = Some sess"
| "cancel_all (i # is) sess = do {
     tdata \<leftarrow> ss_tdata sess i;
     cancel_all is (put_tdata i (tdata\<lparr>td_res_timer := slot_cancel_if_active (td_res_timer tdata) False\<rparr>) sess) }"

definition pj_stun_session_destroy :: "pj_stun_session \<Rightarrow> (pj_status \<times> pj_stun_session) option" where
  "pj_stun_session_destroy sess =
     (if ss_is_destroying sess then Some (PJ_EINVALIDOP, sess)
      else do {
        let sess = sess\<lparr>ss_is_destroying := True\<rparr>;
        sess \<leftarrow> stop_all (ss_pending_request_list sess) sess;
        sess \<leftarrow> cancel_all (ss_cached_response_list sess) sess;
        Some (PJ_SUCCESS, sess) })"

definition pj_stun_session_set_user_data :: "pj_stun_session \<Rightarrow> nat \<Rightarrow> pj_status \<times> pj_stun_session" where
  "pj_stun_session_set_user_data sess data = (PJ_SUCCESS, sess\<lparr>ss_user_data := data\<rparr>)"

definition pj_stun_session_get_user_data :: "pj_stun_session \<Rightarrow> nat" where
  "pj_stun_session_get_user_data sess = ss_user_data sess"

definition pj_stun_session_set_credential :: "pj_stun_session \<Rightarrow> pj_stun_auth_type \<Rightarrow> pj_stun_auth_cred option \<Rightarrow> pj_status \<times> pj_stun_session" where
  "pj_stun_session_set_credential sess auth_type cred = (PJ_SUCCESS, (case cred of
     Some c \<Rightarrow> sess\<lparr>ss_auth_type := auth_type, ss_cred := pj_stun_auth_cred_dup c\<rparr>
   | None \<Rightarrow> sess\<lparr>ss_auth_type := PJ_STUN_AUTH_NONE, ss_cred := zero_cred\<rparr>))"

definition pj_stun_session_set_log :: "pj_stun_session \<Rightarrow> 32 word \<Rightarrow> pj_stun_session" where
  "pj_stun_session_set_log sess flags = sess\<lparr>ss_log_flag := flags\<rparr>"

definition pj_stun_session_use_fingerprint :: "pj_stun_session \<Rightarrow> bool \<Rightarrow> bool \<times> pj_stun_session" where
  "pj_stun_session_use_fingerprint sess use = (ss_use_fingerprint sess, sess\<lparr>ss_use_fingerprint := use\<rparr>)"

definition pj_stun_session_cancel_req :: "pj_stun_session \<Rightarrow> nat \<Rightarrow> bool \<Rightarrow> pj_status \<Rightarrow> (pj_status \<times> pj_stun_session) option" where
  "pj_stun_session_cancel_req sess i notify notify_status = do {
     tdata \<leftarrow> ss_tdata sess i;
     if notify \<and> notify_status = PJ_SUCCESS then Some (PJ_EINVAL, sess)
     else if \<not> STUN_IS_REQUEST (mh_type (msg_hdr (td_msg tdata))) then Some (PJ_EINVAL, sess)
     else if ss_is_destroying sess then Some (PJ_EINVALIDOP, sess)
     else if notify \<and> \<not> cb_on_request_complete sess then None
     else do {
       let sess = (if notify then sess_emit (Sess_request_complete notify_status (td_token tdata) i None) sess else sess);
       sess \<leftarrow> pj_stun_msg_destroy_tdata i sess;
       Some (PJ_SUCCESS, sess) } }"

definition pj_stun_session_retransmit_req :: "sess_env \<Rightarrow> pj_stun_session \<Rightarrow> nat \<Rightarrow> bool \<Rightarrow> (pj_status \<times> pj_stun_session) option" where
  "pj_stun_session_retransmit_req env sess i mod_count = do {
     tdata \<leftarrow> ss_tdata sess i;
     if \<not> STUN_IS_REQUEST (mh_type (msg_hdr (td_msg tdata))) then Some (PJ_EINVAL, sess)
     else if ss_is_destroying sess then Some (PJ_EINVALIDOP, sess)
     else do {
       (status, _, sess) \<leftarrow> tsx_call env i (\<lambda>st tsx. pj_stun_client_tsx_retransmit st tsx mod_count) sess;
       Some (status, sess) } }"

subsection \<open>Receiving\<close>

text \<open>
  The status, the message as the encoder leaves it, and the session. Without \<open>auth_info\<close> the address passed as key is that of a member of NULL; the encoder looks at
  it only for a message with MESSAGE-INTEGRITY, which such a response does not have.
\<close>

definition send_response ::
  "sess_env \<Rightarrow> pj_stun_session \<Rightarrow> nat \<Rightarrow> pj_stun_msg \<Rightarrow> pj_stun_req_cred_info option \<Rightarrow> bool \<Rightarrow> pj_sockaddr \<Rightarrow>
   (pj_status \<times> pj_stun_msg \<times> pj_stun_session) option" where
  "send_response env sess token response auth_info retransmission addr = do {
     (status, response) \<leftarrow> (if \<not> retransmission then apply_msg_options sess auth_info response else Some (PJ_SUCCESS, response));
     if status \<noteq> PJ_SUCCESS then Some (status, response, sess)
     else do {
       r \<leftarrow> pj_stun_msg_encode (ev_pad env) (ev_stk env) response (take PJ_STUN_MAX_PKT_LEN (ev_buf env)) 0 (map_option ci_auth_key auth_info);
       case r of
         Inl status \<Rightarrow> Some (status, response, sess)
       | Inr (out_pkt, response, out_len) \<Rightarrow> Some (ev_send env, response, sess_emit (Sess_send_msg token (take out_len out_pkt) addr) sess) } }"

definition authenticate_req ::
  "sess_env \<Rightarrow> pj_stun_session \<Rightarrow> nat \<Rightarrow> byte list \<Rightarrow> pj_stun_rx_data \<Rightarrow> pj_sockaddr \<Rightarrow> (pj_status \<times> pj_stun_rx_data \<times> pj_stun_session) option" where
  "authenticate_req env sess token pkt rdata src_addr =
     (if STUN_IS_ERROR_RESPONSE (mh_type (msg_hdr (rd_msg rdata))) \<or> ss_auth_type sess = PJ_STUN_AUTH_NONE then Some (PJ_SUCCESS, rdata, sess)
      else do {
        (status, response, info) \<leftarrow> pj_stun_authenticate_request (ev_md5 env) (ev_stk env) (ev_stricmp env) pkt (rd_msg rdata) (ss_cred sess) True;
        let rdata = rdata\<lparr>rd_info := info\<rparr>;
        case response of
          Some r \<Rightarrow> if status \<noteq> PJ_SUCCESS then do {
              (_, _, sess) \<leftarrow> send_response env sess token r (Some info) False src_addr;
              Some (status, rdata, sess) }
            else Some (status, rdata, sess)
        | None \<Rightarrow> Some (status, rdata, sess) })"

text \<open>The \<open>options\<close> of both handlers, once the session's own lack of credentials is taken in.\<close>

definition authenticates :: "pj_stun_session \<Rightarrow> 32 word \<Rightarrow> bool" where
  "authenticates sess options =
     (let options = (if ss_auth_type sess = PJ_STUN_AUTH_NONE then options OR PJ_STUN_NO_AUTHENTICATE else options) in options AND PJ_STUN_NO_AUTHENTICATE = 0)"

definition on_incoming_response ::
  "sess_env \<Rightarrow> pj_stun_session \<Rightarrow> 32 word \<Rightarrow> byte list \<Rightarrow> pj_stun_msg \<Rightarrow> pj_sockaddr \<Rightarrow> (pj_status \<times> pj_stun_session) option" where
  "on_incoming_response env sess options pkt msg src_addr = do {
     found \<leftarrow> tsx_lookup sess msg;
     case found of
       None \<Rightarrow> Some (PJ_SUCCESS, sess)
     | Some i \<Rightarrow> do {
         tdata \<leftarrow> ss_tdata sess i;
         valid \<leftarrow> (if authenticates sess options \<and> ci_auth_key (td_auth_info tdata) \<noteq> [] then pj_stun_auth_valid_for_msg msg else Some False);
         status \<leftarrow> (if valid then pj_stun_authenticate_response (ev_stk env) pkt msg (ci_auth_key (td_auth_info tdata)) else Some PJ_SUCCESS);
         if status \<noteq> PJ_SUCCESS then Some (status, sess)
         else do {
           tsx \<leftarrow> td_client_tsx tdata;
           (status, tsx) \<leftarrow> pj_stun_client_tsx_on_rx_msg (tsx\<lparr>ts_out := []\<rparr>) msg;
           sess \<leftarrow> tsx_reported env i (ts_out tsx) src_addr (put_tdata i (tdata\<lparr>td_client_tsx := Some (tsx\<lparr>ts_out := []\<rparr>)\<rparr>) sess);
           Some (status, sess) } } }"

fun cached_lookup :: "(nat \<Rightarrow> pj_stun_tx_data option) \<Rightarrow> pj_stun_msg \<Rightarrow> nat list \<Rightarrow> nat option option" where
  "cached_lookup store msg [] = Some None"
| "cached_lookup store msg (i # is) = do {
     t \<leftarrow> store i;
     if td_msg_magic t = mh_magic (msg_hdr msg) \<and> mh_type (msg_hdr (td_msg t)) = mh_type (msg_hdr msg) \<and>
        memcmp (td_msg_key t) (mh_tsx_id (msg_hdr msg)) 12 = 0 then Some (Some i)
     else cached_lookup store msg is }"

definition check_cached_response :: "sess_env \<Rightarrow> pj_stun_session \<Rightarrow> pj_stun_msg \<Rightarrow> pj_sockaddr \<Rightarrow> (pj_status \<times> pj_stun_session) option" where
  "check_cached_response env sess msg src_addr = do {
     found \<leftarrow> cached_lookup (ss_tdata sess) msg (ss_cached_response_list sess);
     case found of
       None \<Rightarrow> Some (PJ_ENOTFOUND, sess)
     | Some i \<Rightarrow> do {
         t \<leftarrow> ss_tdata sess i;
         (_, msg, sess) \<leftarrow> send_response env sess (td_token t) (td_msg t) (Some (td_auth_info t)) True src_addr;
         Some (PJ_SUCCESS, put_tdata i (t\<lparr>td_msg := msg\<rparr>) sess) } }"

definition on_incoming_request ::
  "sess_env \<Rightarrow> pj_stun_session \<Rightarrow> 32 word \<Rightarrow> nat \<Rightarrow> byte list \<Rightarrow> pj_stun_msg \<Rightarrow> pj_sockaddr \<Rightarrow> (pj_status \<times> pj_stun_session) option" where
  "on_incoming_request env sess options token in_pkt msg src_addr = do {
     let rdata = \<lparr>rd_msg = msg, rd_info = no_info\<rparr>;
     (status, rdata, sess) \<leftarrow> (if authenticates sess options then authenticate_req env sess token in_pkt rdata src_addr else Some (PJ_SUCCESS, rdata, sess));
     if status \<noteq> PJ_SUCCESS then Some (status, sess)
     else if cb_on_rx_request sess then Some (ev_rx env, sess_emit (Sess_rx_request in_pkt rdata token src_addr) sess)
     else do {
       r \<leftarrow> pj_stun_msg_create_response msg PJ_STUN_SC_BAD_REQUEST (Some (bytes_of ''Callback is not set to handle request''));
       case r of
         Inl status \<Rightarrow> Some (status, sess)
       | Inr response \<Rightarrow> do {
           (status, _, sess) \<leftarrow> send_response env sess token response None False src_addr;
           Some (status, sess) } } }"

definition on_incoming_indication ::
  "sess_env \<Rightarrow> pj_stun_session \<Rightarrow> nat \<Rightarrow> byte list \<Rightarrow> pj_stun_msg \<Rightarrow> pj_sockaddr \<Rightarrow> pj_status \<times> pj_stun_session" where
  "on_incoming_indication env sess token in_pkt msg src_addr =
     (if cb_on_rx_indication sess then (ev_rx env, sess_emit (Sess_rx_indication in_pkt msg token src_addr) sess) else (PJ_SUCCESS, sess))"

text \<open>The handling of a message that was decoded.\<close>

definition handle_msg ::
  "sess_env \<Rightarrow> pj_stun_session \<Rightarrow> 32 word \<Rightarrow> nat \<Rightarrow> byte list \<Rightarrow> pj_stun_msg \<Rightarrow> pj_sockaddr \<Rightarrow> (pj_status \<times> pj_stun_session) option" where
  "handle_msg env sess options token packet msg src_addr =
     (let t = mh_type (msg_hdr msg) in
      if STUN_IS_SUCCESS_RESPONSE t \<or> STUN_IS_ERROR_RESPONSE t then on_incoming_response env sess options packet msg src_addr
      else if STUN_IS_REQUEST t then on_incoming_request env sess options token packet msg src_addr
      else if STUN_IS_INDICATION t then Some (on_incoming_indication env sess token packet msg src_addr)
      else Some (PJ_EBUG, sess))"

text \<open>The status, the number of bytes parsed, and the session.\<close>

definition pj_stun_session_on_rx_pkt ::
  "sess_env \<Rightarrow> pj_stun_session \<Rightarrow> byte list \<Rightarrow> 32 word \<Rightarrow> nat \<Rightarrow> pj_sockaddr \<Rightarrow> (pj_status \<times> nat \<times> pj_stun_session) option" where
  "pj_stun_session_on_rx_pkt env sess packet options token src_addr =
     (if packet = [] then Some (PJ_EINVAL, 0, sess)
      else if ss_is_destroying sess then Some (PJ_EINVALIDOP, 0, sess)
      else do {
        r \<leftarrow> pj_stun_msg_decode (ev_strerror env) packet options True;
        case r of
          Inl (status, None) \<Rightarrow> Some (status, 0, sess)
        | Inl (status, Some response) \<Rightarrow> do {
            (_, _, sess) \<leftarrow> send_response env sess token response None False src_addr;
            Some (status, 0, sess) }
        | Inr (msg, parsed_len) \<Rightarrow> do {
            (status, sess) \<leftarrow> check_cached_response env sess msg src_addr;
            if status = PJ_SUCCESS then Some (status, parsed_len, sess)
            else do {
              (status, sess) \<leftarrow> handle_msg env sess options token packet msg src_addr;
              Some (status, parsed_len, sess) } } })"

end
