(* ===== verification/StunTsxProps.thy ===== *)
theory StunTsxProps
  imports StunTsx StunSafety
begin

text \<open>
  What a STUN client transaction guarantees: it reports its outcome at most once, and without a response it times out
  after seven transmissions on the schedule of the retransmission timer, whatever the sends return.
\<close>

subsection \<open>Steps\<close>

datatype tsx_event =
    Ev_send pj_status bool "byte list" | Ev_retransmit pj_status bool | Ev_retransmit_timer pj_status | Ev_destroy_timer
  | Ev_rx_msg pj_stun_msg | Ev_schedule_destroy pj_time_val | Ev_stop | Ev_set_data nat

definition armed :: "pj_stun_client_tsx \<Rightarrow> bool" where
  "armed tsx \<longleftrightarrow> tm_delay (retransmit_timer tsx) \<noteq> None"

definition fire :: "pj_status \<Rightarrow> pj_stun_client_tsx \<Rightarrow> pj_stun_client_tsx" where
  "fire send tsx = retransmit_timer_callback send (tsx\<lparr>retransmit_timer := timer_expired (retransmit_timer tsx)\<rparr>)"

inductive tsx_step :: "pj_stun_client_tsx \<Rightarrow> tsx_event \<Rightarrow> pj_stun_client_tsx \<Rightarrow> bool" where
  send: "tsx_step tsx (Ev_send st re pkt) (snd (pj_stun_client_tsx_send_msg st tsx re pkt))"
| retransmit: "tsx_step tsx (Ev_retransmit st mc) (snd (pj_stun_client_tsx_retransmit st tsx mc))"
| retransmit_timer: "armed tsx \<Longrightarrow> tsx_step tsx (Ev_retransmit_timer st) (fire st tsx)"
| destroy_timer: "tm_delay (destroy_timer tsx) \<noteq> None \<Longrightarrow>
    destroy_timer_callback (tsx\<lparr>destroy_timer := timer_expired (destroy_timer tsx)\<rparr>) = Some tsx' \<Longrightarrow> tsx_step tsx Ev_destroy_timer tsx'"
| rx_msg: "pj_stun_client_tsx_on_rx_msg tsx msg = Some (st, tsx') \<Longrightarrow> tsx_step tsx (Ev_rx_msg msg) tsx'"
| schedule_destroy: "tsx_step tsx (Ev_schedule_destroy d) (snd (pj_stun_client_tsx_schedule_destroy tsx d))"
| stop: "tsx_step tsx Ev_stop (snd (pj_stun_client_tsx_stop tsx))"
| set_data: "tsx_step tsx (Ev_set_data d) (snd (pj_stun_client_tsx_set_data tsx d))"

inductive tsx_reachable :: "pj_stun_client_tsx \<Rightarrow> bool" where
  init: "pj_stun_client_tsx_create rto os oc od = Inr tsx \<Longrightarrow> tsx_reachable tsx"
| step: "tsx_reachable tsx \<Longrightarrow> tsx_step tsx e tsx' \<Longrightarrow> tsx_reachable tsx'"

inductive_cases tsx_timerE: "tsx_step tsx (Ev_retransmit_timer st) tsx'"

subsection \<open>The invariant\<close>

definition completions :: "tsx_action list \<Rightarrow> nat" where
  "completions out = length (filter (\<lambda>a. case a of On_complete _ _ \<Rightarrow> True | _ \<Rightarrow> False) out)"

definition tsx_inv :: "pj_stun_client_tsx \<Rightarrow> bool" where
  "tsx_inv tsx \<longleftrightarrow> completions (ts_out tsx) \<le> 1 \<and> (\<not> complete tsx \<longrightarrow> completions (ts_out tsx) = 0) \<and>
     (armed tsx \<longrightarrow> require_retransmit tsx \<or> transmit_count tsx \<ge> PJ_STUN_MAX_TRANSMIT_COUNT) \<and>
     (tm_delay (destroy_timer tsx) \<noteq> None \<longrightarrow> has_on_destroy tsx \<and> \<not> has_on_complete tsx)"

lemma completions_simps [simp]:
  "completions [] = 0" "completions (out @ [On_send_msg p]) = completions out" "completions (out @ [On_destroy]) = completions out"
  "completions (out @ [On_complete st m]) = Suc (completions out)"
  by (simp_all add: completions_def)

lemma tsx_complete_inv:
  assumes "tsx_inv tsx"
  shows "tsx_inv (tsx_complete st m tsx)" "complete (tsx_complete st m tsx)" "retransmit_timer (tsx_complete st m tsx) = retransmit_timer tsx"
  using assms by (auto simp: tsx_complete_def tsx_inv_def tsx_emit_def armed_def Let_def split: if_splits)

text \<open>The outcomes of sending: the transaction that was sent, after the cancellation that a failed send asks for.\<close>

definition after_send :: "pj_status \<Rightarrow> bool \<Rightarrow> pj_stun_client_tsx \<Rightarrow> pj_stun_client_tsx" where
  "after_send send mc tsx =
     (let tsx = tsx_emit (On_send_msg (last_pkt tsx)) tsx
      in if send \<noteq> PJNATH_ESTUNDESTROYED \<and> send \<noteq> PJ_SUCCESS \<and> (mc \<or> send = PJ_EINVALIDOP)
         then tsx\<lparr>retransmit_timer := slot_cancel_if_active (retransmit_timer tsx) TIMER_INACTIVE\<rparr> else tsx)"

lemma transmit_plain:
  "\<not> (require_retransmit tsx \<and> mc) \<Longrightarrow>
    tsx_transmit_msg send tsx mc = (send, after_send send mc (if mc then tsx\<lparr>transmit_count := transmit_count tsx + 1\<rparr> else tsx))"
  by (auto simp: tsx_transmit_msg_def after_send_def Let_def)

lemma transmit_timed:
  assumes "require_retransmit tsx" "tm_id (retransmit_timer tsx) = TIMER_INACTIVE" "\<not> armed tsx"
  shows "tsx_transmit_msg send tsx True = (send, after_send send True (tsx\<lparr>retransmit_time := next_delay tsx,
    retransmit_timer := \<lparr>tm_id = TIMER_ACTIVE, tm_delay = Some (PJ_TIME_VAL_MSEC (next_delay tsx))\<rparr>, transmit_count := transmit_count tsx + 1\<rparr>))"
  using assms by (cases "retransmit_timer tsx") (auto simp: tsx_transmit_msg_def after_send_def slot_schedule_w_grp_lock_def armed_def Let_def)

lemma transmit_refused:
  assumes "require_retransmit tsx" "tm_id (retransmit_timer tsx) \<noteq> TIMER_INACTIVE \<or> armed tsx" "tsx_transmit_msg send tsx True = (st, tsx')"
  shows "st \<noteq> PJ_SUCCESS \<and> (tsx' = tsx \<or> tsx' = tsx\<lparr>retransmit_time := next_delay tsx, retransmit_timer := (retransmit_timer tsx)\<lparr>tm_id := TIMER_INACTIVE\<rparr>\<rparr>)"
  using assms by (auto simp: tsx_transmit_msg_def slot_schedule_w_grp_lock_def armed_def Let_def split: if_splits)

lemma after_send_inv:
  assumes "tsx_inv tsx"
  shows "tsx_inv (after_send send mc tsx)"
  using assms by (simp add: after_send_def tsx_inv_def tsx_emit_def armed_def Let_def)

lemma transmit_inv:
  assumes inv: "tsx_inv tsx" and tr: "tsx_transmit_msg send tsx mc = (st, tsx')"
    and mc: "mc \<Longrightarrow> require_retransmit tsx \<or> transmit_count tsx = PJ_STUN_MAX_TRANSMIT_COUNT \<or> \<not> armed tsx"
  shows "tsx_inv tsx'"
proof (cases "require_retransmit tsx \<and> mc")
  case False
  have "tsx_inv (if mc then tsx\<lparr>transmit_count := transmit_count tsx + 1\<rparr> else tsx)"
    using inv mc False by (auto simp: tsx_inv_def armed_def PJ_STUN_MAX_TRANSMIT_COUNT_def)
  then show ?thesis using tr transmit_plain [OF False] after_send_inv by auto
next
  case True
  then have mc: mc and req: "require_retransmit tsx" by auto
  show ?thesis
  proof (cases "tm_id (retransmit_timer tsx) = TIMER_INACTIVE \<and> \<not> armed tsx")
    case True
    then have "tsx' = after_send send True (tsx\<lparr>retransmit_time := next_delay tsx,
        retransmit_timer := \<lparr>tm_id = TIMER_ACTIVE, tm_delay = Some (PJ_TIME_VAL_MSEC (next_delay tsx))\<rparr>, transmit_count := transmit_count tsx + 1\<rparr>)"
      using tr transmit_timed [OF req, of send] mc by auto
    moreover have "tsx_inv (tsx\<lparr>retransmit_time := next_delay tsx,
        retransmit_timer := \<lparr>tm_id = TIMER_ACTIVE, tm_delay = Some (PJ_TIME_VAL_MSEC (next_delay tsx))\<rparr>, transmit_count := transmit_count tsx + 1\<rparr>)"
      using inv req by (simp add: tsx_inv_def)
    ultimately show ?thesis using after_send_inv by simp
  next
    case False
    then have "tsx' = tsx \<or> tsx' = tsx\<lparr>retransmit_time := next_delay tsx, retransmit_timer := (retransmit_timer tsx)\<lparr>tm_id := TIMER_INACTIVE\<rparr>\<rparr>"
      using transmit_refused [OF req _ tr [unfolded eqTrueI [OF mc]]] by auto
    then show ?thesis using inv by (auto simp: tsx_inv_def armed_def)
  qed
qed

lemma send_inv:
  assumes "tsx_inv tsx"
  shows "tsx_inv (snd (pj_stun_client_tsx_send_msg send tsx re pkt))"
proof -
  have cancel: "tsx_inv (t\<lparr>retransmit_timer := slot_cancel_if_active (retransmit_timer t) TIMER_INACTIVE\<rparr>)" if "tsx_inv t" for t
    using that by (simp add: tsx_inv_def armed_def)
  define t0 where "t0 = (if re then tsx\<lparr>last_pkt := pkt, require_retransmit := re\<rparr> else tsx\<lparr>last_pkt := pkt, require_retransmit := re,
      transmit_count := PJ_STUN_MAX_TRANSMIT_COUNT, retransmit_time := PJ_TIME_VAL (uint (rto_msec tsx * 16 div 1000)) (uint (rto_msec tsx * 16 mod 1000))\<rparr>)"
  have t0: "tsx_inv (t0\<lparr>retransmit_timer := t\<rparr>)" "re \<or> transmit_count (t0\<lparr>retransmit_timer := t\<rparr>) = PJ_STUN_MAX_TRANSMIT_COUNT" for t
    using assms by (auto simp: t0_def tsx_inv_def armed_def)
  have tr: "tsx_inv (snd (let (status, tsx) = tsx_transmit_msg send (t0\<lparr>retransmit_timer := t\<rparr>) True
      in if status \<noteq> PJ_SUCCESS then (status, tsx\<lparr>retransmit_timer := slot_cancel_if_active (retransmit_timer tsx) TIMER_INACTIVE\<rparr>) else (PJ_SUCCESS, tsx)))" for t
  proof -
    obtain st t' where x: "tsx_transmit_msg send (t0\<lparr>retransmit_timer := t\<rparr>) True = (st, t')" by fastforce
    have "tsx_inv t'" using transmit_inv [OF t0(1) x] t0(2) [of t] by (auto simp: t0_def split: if_splits)
    then show ?thesis using x cancel by simp
  qed
  have same: "t0\<lparr>retransmit_timer := retransmit_timer tsx\<rparr> = t0" by (simp add: t0_def)
  have eq: "pj_stun_client_tsx_send_msg send tsx re pkt =
    (if pkt = [] then (PJ_EINVAL, tsx) else if tm_id (retransmit_timer tsx) \<noteq> 0 then (PJ_EBUSY, tsx)
     else if \<not> re \<and> tm_delay (retransmit_timer tsx) \<noteq> None then (PJ_EINVALIDOP, t0\<lparr>retransmit_timer := (retransmit_timer tsx)\<lparr>tm_id := TIMER_INACTIVE\<rparr>\<rparr>)
     else let (status, tsx) = tsx_transmit_msg send (t0\<lparr>retransmit_timer := (if re then retransmit_timer tsx
            else \<lparr>tm_id = TIMER_ACTIVE, tm_delay = Some (PJ_TIME_VAL_MSEC (retransmit_time t0))\<rparr>)\<rparr>) True
      in if status \<noteq> PJ_SUCCESS then (status, tsx\<lparr>retransmit_timer := slot_cancel_if_active (retransmit_timer tsx) TIMER_INACTIVE\<rparr>) else (PJ_SUCCESS, tsx))"
  proof (cases re)
    case True
    then show ?thesis using same by (simp add: pj_stun_client_tsx_send_msg_def t0_def Let_def)
  next
    case False
    then show ?thesis by (cases "retransmit_timer tsx") (auto simp: pj_stun_client_tsx_send_msg_def t0_def Let_def slot_schedule_w_grp_lock_def)
  qed
  consider "pkt = []" | "pkt \<noteq> []" "tm_id (retransmit_timer tsx) \<noteq> 0" | "pkt \<noteq> []" "tm_id (retransmit_timer tsx) = 0" by blast
  then show ?thesis
  proof cases
    case 3
    then show ?thesis unfolding eq
    proof (cases "\<not> re \<and> tm_delay (retransmit_timer tsx) \<noteq> None")
      case False
      then show "tsx_inv (snd (if pkt = [] then (PJ_EINVAL, tsx) else if tm_id (retransmit_timer tsx) \<noteq> 0 then (PJ_EBUSY, tsx)
       else if \<not> re \<and> tm_delay (retransmit_timer tsx) \<noteq> None then (PJ_EINVALIDOP, t0\<lparr>retransmit_timer := (retransmit_timer tsx)\<lparr>tm_id := TIMER_INACTIVE\<rparr>\<rparr>)
       else let (status, tsx) = tsx_transmit_msg send (t0\<lparr>retransmit_timer := (if re then retransmit_timer tsx
            else \<lparr>tm_id = TIMER_ACTIVE, tm_delay = Some (PJ_TIME_VAL_MSEC (retransmit_time t0))\<rparr>)\<rparr>) True
        in if status \<noteq> PJ_SUCCESS then (status, tsx\<lparr>retransmit_timer := slot_cancel_if_active (retransmit_timer tsx) TIMER_INACTIVE\<rparr>) else (PJ_SUCCESS, tsx)))"
        using 3 tr [of "if re then retransmit_timer tsx else \<lparr>tm_id = TIMER_ACTIVE, tm_delay = Some (PJ_TIME_VAL_MSEC (retransmit_time t0))\<rparr>"] by (simp only: if_False simp_thms)
    qed (use 3 t0(1) in simp)
  qed (use assms eq in simp_all)
qed

lemma fire_inv:
  assumes "tsx_inv tsx"
  shows "tsx_inv (fire send tsx)"
proof -
  define t where "t = tsx\<lparr>retransmit_timer := (timer_expired (retransmit_timer tsx))\<lparr>tm_id := 0\<rparr>\<rparr>"
  have t: "tsx_inv t" "\<not> armed t" using assms by (simp_all add: t_def tsx_inv_def armed_def timer_expired_def)
  obtain st t' where x: "tsx_transmit_msg send t True = (st, t')" by fastforce
  have t': "tsx_inv t'" using transmit_inv [OF t(1) x] t(2) by simp
  then have "tsx_inv (t'\<lparr>retransmit_timer := (retransmit_timer t')\<lparr>tm_id := 0\<rparr>\<rparr>)" by (simp add: tsx_inv_def armed_def)
  moreover have "fire send tsx = (if transmit_count t \<ge> PJ_STUN_MAX_TRANSMIT_COUNT then tsx_complete PJNATH_ESTUNTIMEDOUT None t
      else if st \<noteq> PJ_SUCCESS then tsx_complete st None (t'\<lparr>retransmit_timer := (retransmit_timer t')\<lparr>tm_id := 0\<rparr>\<rparr>) else t')"
    using x by (simp add: fire_def retransmit_timer_callback_def t_def Let_def)
  ultimately show ?thesis using t(1) t' tsx_complete_inv(1) by auto
qed

lemma step_inv:
  assumes "tsx_step tsx e tsx'" "tsx_inv tsx"
  shows "tsx_inv tsx'"
  using assms
proof (induction rule: tsx_step.induct)
  case (send tsx st re pkt)
  then show ?case by (rule send_inv)
next
  case (retransmit tsx st mc)
  let ?t = "if mc then tsx\<lparr>retransmit_timer := slot_cancel_if_active (retransmit_timer tsx) TIMER_INACTIVE\<rparr> else tsx"
  have t: "tsx_inv ?t" using retransmit by (simp add: tsx_inv_def armed_def)
  obtain s t' where x: "tsx_transmit_msg st ?t mc = (s, t')" by fastforce
  have "tsx_inv t'" by (rule transmit_inv [OF t x]) (simp add: armed_def)
  then show ?case using retransmit x by (simp add: pj_stun_client_tsx_retransmit_def Let_def)
next
  case (retransmit_timer tsx st)
  then show ?case by (intro fire_inv)
next
  case (destroy_timer tsx tsx')
  then show ?case by (auto simp: destroy_timer_callback_def timer_expired_def tsx_inv_def tsx_emit_def armed_def Let_def split: if_splits)
next
  case (rx_msg tsx msg st tsx')
  let ?t = "tsx\<lparr>retransmit_timer := slot_cancel_if_active (retransmit_timer tsx) TIMER_INACTIVE\<rparr>"
  have "tsx_inv ?t" using rx_msg by (simp add: tsx_inv_def armed_def)
  then show ?case using rx_msg tsx_complete_inv(1)
    by (auto simp: pj_stun_client_tsx_on_rx_msg_def Let_def split: if_splits option.splits attr_body.splits)
next
  case (schedule_destroy tsx d)
  then show ?case by (auto simp: pj_stun_client_tsx_schedule_destroy_def tsx_inv_def armed_def slot_schedule_w_grp_lock_def Let_def)
next
  case (stop tsx)
  then show ?case by (simp add: pj_stun_client_tsx_stop_def tsx_inv_def armed_def)
next
  case (set_data tsx d)
  then show ?case by (simp add: pj_stun_client_tsx_set_data_def tsx_inv_def armed_def)
qed

lemma reachable_inv: "tsx_reachable tsx \<Longrightarrow> tsx_inv tsx"
proof (induction rule: tsx_reachable.induct)
  case (init rto os oc od tsx)
  then show ?case by (auto simp: pj_stun_client_tsx_create_def tsx_inv_def armed_def split: if_splits)
next
  case (step tsx e tsx')
  then show ?case using step_inv by blast
qed

subsection \<open>Expiry without a response\<close>

text \<open>What one expiry of the timer leads to.\<close>

lemma fire_outcome:
  assumes "tsx_inv tsx" "armed tsx"
  shows "complete (fire send tsx) \<or>
    (armed (fire send tsx) \<and> transmit_count tsx < PJ_STUN_MAX_TRANSMIT_COUNT \<and> transmit_count (fire send tsx) = transmit_count tsx + 1)"
proof -
  define t where "t = tsx\<lparr>retransmit_timer := (timer_expired (retransmit_timer tsx))\<lparr>tm_id := 0\<rparr>\<rparr>"
  have t: "tsx_inv t" "\<not> armed t" "transmit_count t = transmit_count tsx" "tm_id (retransmit_timer t) = TIMER_INACTIVE"
    using assms by (simp_all add: t_def tsx_inv_def armed_def timer_expired_def TIMER_INACTIVE_def)
  obtain st t' where x: "tsx_transmit_msg send t True = (st, t')" by fastforce
  have "tsx_inv t'" using transmit_inv [OF t(1) x] t(2) by simp
  then have i: "tsx_inv (t'\<lparr>retransmit_timer := (retransmit_timer t')\<lparr>tm_id := 0\<rparr>\<rparr>)" by (simp add: tsx_inv_def armed_def)
  have f: "fire send tsx = (if transmit_count t \<ge> PJ_STUN_MAX_TRANSMIT_COUNT then tsx_complete PJNATH_ESTUNTIMEDOUT None t
      else if st \<noteq> PJ_SUCCESS then tsx_complete st None (t'\<lparr>retransmit_timer := (retransmit_timer t')\<lparr>tm_id := 0\<rparr>\<rparr>) else t')"
    using x by (simp add: fire_def retransmit_timer_callback_def t_def Let_def)
  show ?thesis
  proof (cases "transmit_count t \<ge> PJ_STUN_MAX_TRANSMIT_COUNT \<or> st \<noteq> PJ_SUCCESS")
    case True
    then show ?thesis using f tsx_complete_inv(2) [OF t(1)] tsx_complete_inv(2) [OF i] by auto
  next
    case False
    then have "require_retransmit t" using assms t(3) by (auto simp: tsx_inv_def t_def)
    then have "st = send \<and> t' = after_send send True (t\<lparr>retransmit_time := next_delay t,
        retransmit_timer := \<lparr>tm_id = TIMER_ACTIVE, tm_delay = Some (PJ_TIME_VAL_MSEC (next_delay t))\<rparr>, transmit_count := transmit_count t + 1\<rparr>)"
      using x transmit_timed [of t send] t(2,4) by auto
    then have "armed t' \<and> transmit_count t' = transmit_count t + 1" using False by (simp add: after_send_def tsx_emit_def armed_def)
    then show ?thesis using False f t(3) by auto
  qed
qed

text \<open>The timer expires as long as it is armed; the list is what the sends return.\<close>

fun tsx_fires :: "pj_status list \<Rightarrow> pj_stun_client_tsx \<Rightarrow> pj_stun_client_tsx" where
  "tsx_fires [] tsx = tsx"
| "tsx_fires (s # ss) tsx = (if armed tsx then tsx_fires ss (fire s tsx) else tsx)"

lemma fires_keep_complete: "complete tsx \<Longrightarrow> complete (fire s tsx)"
proof -
  assume c: "complete tsx"
  have k: "complete (snd (tsx_transmit_msg s t True)) = complete t" for t
    by (auto simp: tsx_transmit_msg_def tsx_emit_def Let_def slot_schedule_w_grp_lock_def)
  show ?thesis using c k [of "tsx\<lparr>retransmit_timer := (timer_expired (retransmit_timer tsx))\<lparr>tm_id := 0\<rparr>\<rparr>"]
    by (auto simp: fire_def retransmit_timer_callback_def tsx_complete_def tsx_emit_def Let_def split: prod.splits)
qed

lemma tsx_fires_complete: "complete tsx \<Longrightarrow> complete (tsx_fires ss tsx)"
  by (induction ss arbitrary: tsx) (simp_all add: fires_keep_complete)

lemma tsx_fires_ends:
  assumes "tsx_inv tsx" "armed tsx" "8 - min 7 (unat (transmit_count tsx)) \<le> length ss"
  shows "complete (tsx_fires ss tsx)"
  using assms
proof (induction ss arbitrary: tsx)
  case Nil
  then show ?case by simp
next
  case (Cons s ss)
  from fire_outcome [OF Cons.prems(1,2), of s] show ?case
  proof
    assume "complete (fire s tsx)"
    then show ?thesis using Cons.prems(2) tsx_fires_complete by simp
  next
    assume n: "armed (fire s tsx) \<and> transmit_count tsx < PJ_STUN_MAX_TRANSMIT_COUNT \<and> transmit_count (fire s tsx) = transmit_count tsx + 1"
    then have lt: "unat (transmit_count tsx) < 7" by (simp add: word_less_nat_alt PJ_STUN_MAX_TRANSMIT_COUNT_def)
    then have "unat (transmit_count tsx + 1) = unat (transmit_count tsx) + 1" by (simp add: unat_word_ariths)
    then show ?thesis using n lt Cons.prems by (simp add: Cons.IH fire_inv)
  qed
qed

subsection \<open>The schedule\<close>

text \<open>The transaction after \<open>k + 1\<close> transmissions.\<close>

definition waits :: "32 word \<Rightarrow> nat \<Rightarrow> pj_time_val" where
  "waits rto k = (if k = 0 then PJ_TIME_VAL 0 (uint rto)
     else if k < 6 then PJ_TIME_VAL (uint rto * 2 ^ k div 1000) (uint rto * 2 ^ k mod 1000) else PJ_TIME_VAL 1 600)"

definition sent_times :: "pj_stun_client_tsx \<Rightarrow> byte list \<Rightarrow> nat \<Rightarrow> pj_stun_client_tsx" where
  "sent_times tsx pkt k = tsx\<lparr>require_retransmit := True, retransmit_timer := \<lparr>tm_id = TIMER_ACTIVE, tm_delay = Some (PJ_TIME_VAL_MSEC (waits (rto_msec tsx) k))\<rparr>,
     transmit_count := of_nat (k + 1), retransmit_time := waits (rto_msec tsx) k, last_pkt := pkt, ts_out := ts_out tsx @ replicate (k + 1) (On_send_msg pkt)\<rparr>"

lemma uint_of_int_small: "0 \<le> x \<Longrightarrow> x < 2 ^ 32 \<Longrightarrow> uint (of_int x :: 32 word) = x"
  by (simp add: unsigned_of_int take_bit_int_eq_self)

lemma waits_msec: "PJ_TIME_VAL_MSEC (waits rto k) = (if k < 6 then uint rto * 2 ^ k else 1600)"
  by (simp add: waits_def PJ_TIME_VAL_MSEC_def)

lemma next_delay_waits:
  assumes "unat (rto_msec tsx) * 32 < 2 ^ 32" "k < 6"
  shows "next_delay (sent_times tsx pkt k) = waits (rto_msec tsx) (k + 1)"
proof -
  let ?r = "rto_msec tsx"
  have c: "transmit_count (sent_times tsx pkt k) = of_nat (k + 1)" "retransmit_time (sent_times tsx pkt k) = waits ?r k" by (simp_all add: sent_times_def)
  have k: "unat (of_nat (k + 1) :: 32 word) = k + 1" by (rule unat_of_nat_small) (use assms(2) in simp)
  then have nz: "(of_nat (k + 1) :: 32 word) \<noteq> 0" by (metis Suc_eq_plus1 nat.distinct(1) unat_0)
  show ?thesis
  proof (cases "k = 5")
    case True
    then show ?thesis using nz by (simp add: next_delay_def sent_times_def waits_def PJ_STUN_MAX_TRANSMIT_COUNT_def PJ_STUN_TIMEOUT_VALUE_def PJ_STUN_RTO_VALUE_def)
  next
    case False
    then have lt: "(of_nat (k + 1) :: 32 word) < PJ_STUN_MAX_TRANSMIT_COUNT - 1" using assms(2) k by (simp add: word_less_nat_alt PJ_STUN_MAX_TRANSMIT_COUNT_def)
    have "uint ?r * 2 ^ (k + 1) \<le> uint ?r * 2 ^ 5" using False assms(2) by (intro mult_left_mono power_increasing) auto
    moreover have "uint ?r * 32 < 2 ^ 32" using assms(1) by (metis of_nat_less_iff of_nat_mult of_nat_numeral of_nat_power uint_nat)
    ultimately have b: "uint ?r * 2 ^ (k + 1) < 2 ^ 32" by simp
    have pb: "push_bit 1 (of_int (uint ?r * 2 ^ k) :: 32 word) = of_int (uint ?r * 2 ^ (k + 1))" by (simp add: push_bit_eq_mult)
    have m: "uint (push_bit 1 (of_int (uint ?r * 2 ^ k) :: 32 word)) = uint ?r * 2 ^ (k + 1)"
      unfolding pb using b by (intro uint_of_int_small) simp_all
    have "next_delay (sent_times tsx pkt k) = PJ_TIME_VAL (uint (push_bit 1 (of_int (uint ?r * 2 ^ k) :: 32 word) div 1000)) (uint (push_bit 1 (of_int (uint ?r * 2 ^ k) :: 32 word) mod 1000))"
      unfolding next_delay_def c using nz lt waits_msec [of ?r k] assms(2) by (simp add: Let_def)
    then show ?thesis using False assms(2) unfolding uint_div uint_mod m by (simp add: waits_def)
  qed
qed

lemma fire_sent_times:
  assumes "unat (rto_msec tsx) * 32 < 2 ^ 32" "k < 6"
  shows "fire PJ_SUCCESS (sent_times tsx pkt k) = sent_times tsx pkt (k + 1)"
proof -
  define t where "t = (sent_times tsx pkt k)\<lparr>retransmit_timer := \<lparr>tm_id = 0, tm_delay = None\<rparr>\<rparr>"
  have "unat (of_nat (k + 1) :: 32 word) = k + 1" by (rule unat_of_nat_small) (use assms(2) in simp)
  then have lt: "\<not> PJ_STUN_MAX_TRANSMIT_COUNT \<le> transmit_count t" using assms(2)
    by (simp add: t_def sent_times_def PJ_STUN_MAX_TRANSMIT_COUNT_def word_le_nat_alt)
  have nd: "next_delay t = waits (rto_msec tsx) (k + 1)"
  proof -
    have "next_delay t = next_delay (sent_times tsx pkt k)" by (simp add: t_def next_delay_def)
    then show ?thesis using next_delay_waits [OF assms] by simp
  qed
  have "tsx_transmit_msg PJ_SUCCESS t True = (PJ_SUCCESS, after_send PJ_SUCCESS True (t\<lparr>retransmit_time := next_delay t,
      retransmit_timer := \<lparr>tm_id = TIMER_ACTIVE, tm_delay = Some (PJ_TIME_VAL_MSEC (next_delay t))\<rparr>, transmit_count := transmit_count t + 1\<rparr>))"
    by (rule transmit_timed) (simp_all add: t_def sent_times_def armed_def TIMER_INACTIVE_def)
  moreover have "after_send PJ_SUCCESS True (t\<lparr>retransmit_time := next_delay t,
      retransmit_timer := \<lparr>tm_id = TIMER_ACTIVE, tm_delay = Some (PJ_TIME_VAL_MSEC (next_delay t))\<rparr>, transmit_count := transmit_count t + 1\<rparr>) = sent_times tsx pkt (k + 1)"
    unfolding nd by (simp add: after_send_def tsx_emit_def t_def sent_times_def replicate_append_same)
  ultimately have "tsx_transmit_msg PJ_SUCCESS t True = (PJ_SUCCESS, sent_times tsx pkt (k + 1))" by simp
  moreover have "fire PJ_SUCCESS (sent_times tsx pkt k) = retransmit_timer_callback PJ_SUCCESS (t\<lparr>retransmit_timer := \<lparr>tm_id = TIMER_ACTIVE, tm_delay = None\<rparr>\<rparr>)"
    by (simp add: fire_def timer_expired_def t_def sent_times_def)
  moreover have "t\<lparr>retransmit_timer := \<lparr>tm_id = 0, tm_delay = None\<rparr>\<rparr> = t" by (simp add: t_def)
  ultimately show ?thesis using lt by (simp add: retransmit_timer_callback_def Let_def)
qed

lemma send_sent_times:
  assumes "tm_id (retransmit_timer tsx) = 0" "\<not> armed tsx" "transmit_count tsx = 0" "pkt \<noteq> []"
  shows "pj_stun_client_tsx_send_msg PJ_SUCCESS tsx True pkt = (PJ_SUCCESS, sent_times tsx pkt 0)"
proof -
  let ?t = "tsx\<lparr>last_pkt := pkt, require_retransmit := True\<rparr>"
  have "tsx_transmit_msg PJ_SUCCESS ?t True = (PJ_SUCCESS, sent_times tsx pkt 0)"
    using transmit_timed [of ?t PJ_SUCCESS] assms
    by (simp add: armed_def TIMER_INACTIVE_def next_delay_def after_send_def tsx_emit_def sent_times_def waits_def)
  then show ?thesis using assms by (simp add: pj_stun_client_tsx_send_msg_def)
qed

lemma fires_sent_times:
  assumes "unat (rto_msec tsx) * 32 < 2 ^ 32" "k \<le> 6"
  shows "tsx_fires (replicate k PJ_SUCCESS) (sent_times tsx pkt 0) = sent_times tsx pkt k"
proof -
  have "tsx_fires (replicate n PJ_SUCCESS) (sent_times tsx pkt j) = sent_times tsx pkt (j + n)" if "j + n \<le> 6" for n j
    using that
  proof (induction n arbitrary: j)
    case (Suc n)
    have "armed (sent_times tsx pkt j)" by (simp add: armed_def sent_times_def)
    then show ?case using Suc.IH [of "j + 1"] Suc.prems fire_sent_times [OF assms(1), of j pkt] by simp
  qed simp
  from this [of 0 k] show ?thesis using assms(2) by simp
qed

subsection \<open>Properties\<close>

definition demo_tsx :: pj_stun_client_tsx where
  "demo_tsx = \<lparr>has_on_complete = True, has_on_destroy = True, user_data = 0, complete = False, require_retransmit = False, rto_msec = 100,
     retransmit_timer = \<lparr>tm_id = 0, tm_delay = None\<rparr>, transmit_count = 0, retransmit_time = PJ_TIME_VAL 0 0,
     destroy_timer = \<lparr>tm_id = 0, tm_delay = None\<rparr>, last_pkt = [], ts_out = []\<rparr>"

lemma demo_tsx_reachable: "tsx_reachable demo_tsx" "tsx_reachable (snd (pj_stun_client_tsx_send_msg PJ_SUCCESS demo_tsx True [1]))"
proof -
  show i: "tsx_reachable demo_tsx"
    by (rule tsx_reachable.init [of 100 True True True]) (simp add: pj_stun_client_tsx_create_def demo_tsx_def TIMER_INACTIVE_def)
  show "tsx_reachable (snd (pj_stun_client_tsx_send_msg PJ_SUCCESS demo_tsx True [1]))" by (rule tsx_reachable.step [OF i tsx_step.send])
qed

text \<open>
  C27. A request that is never answered: with retransmissions and successful sends the packet goes out seven times, the timer waits RTO, 2 RTO, 4 RTO up to 32 RTO between them and
  1600 ms after the last, and then the transaction completes with a timeout, reported once; the timer is idle.
\<close>

theorem stun_tsx_timeout_schedule:
  assumes "tm_id (retransmit_timer tsx) = 0" "tm_delay (retransmit_timer tsx) = None" "transmit_count tsx = 0" "\<not> complete tsx" "has_on_complete tsx" "pkt \<noteq> []"
    and "unat (rto_msec tsx) * 32 < 2 ^ 32"
  shows "\<exists>tsx0. pj_stun_client_tsx_send_msg PJ_SUCCESS tsx True pkt = (PJ_SUCCESS, tsx0) \<and>
    (\<forall>k < 7. let t = tsx_fires (replicate k PJ_SUCCESS) tsx0 in
       tm_delay (retransmit_timer t) = Some (if k < 6 then uint (rto_msec tsx) * 2 ^ k else 1600) \<and> \<not> complete t \<and>
       ts_out t = ts_out tsx @ replicate (k + 1) (On_send_msg pkt)) \<and>
    (let t = tsx_fires (replicate 7 PJ_SUCCESS) tsx0 in
       tm_delay (retransmit_timer t) = None \<and> complete t \<and> ts_out t = ts_out tsx @ replicate 7 (On_send_msg pkt) @ [On_complete PJNATH_ESTUNTIMEDOUT None])"
proof (intro exI conjI allI impI)
  show "pj_stun_client_tsx_send_msg PJ_SUCCESS tsx True pkt = (PJ_SUCCESS, sent_times tsx pkt 0)"
    using assms by (intro send_sent_times) (simp_all add: armed_def)
  show "let t = tsx_fires (replicate k PJ_SUCCESS) (sent_times tsx pkt 0) in
       tm_delay (retransmit_timer t) = Some (if k < 6 then uint (rto_msec tsx) * 2 ^ k else 1600) \<and> \<not> complete t \<and>
       ts_out t = ts_out tsx @ replicate (k + 1) (On_send_msg pkt)" if "k < 7" for k
    using fires_sent_times [OF assms(7), of k pkt] that assms(4) by (simp add: sent_times_def waits_msec)
  have app: "tsx_fires (xs @ [s]) t = (if armed (tsx_fires xs t) then fire s (tsx_fires xs t) else tsx_fires xs t)" for xs s t
    by (induction xs arbitrary: t) auto
  have "armed (sent_times tsx pkt 6)" by (simp add: sent_times_def armed_def)
  then have "tsx_fires (replicate 6 PJ_SUCCESS @ [PJ_SUCCESS]) (sent_times tsx pkt 0) = fire PJ_SUCCESS (sent_times tsx pkt 6)"
    unfolding app using fires_sent_times [OF assms(7), of 6 pkt] by simp
  moreover have "replicate 7 PJ_SUCCESS = replicate 6 PJ_SUCCESS @ [PJ_SUCCESS]" by (simp add: numeral_eq_Suc)
  ultimately show "let t = tsx_fires (replicate 7 PJ_SUCCESS) (sent_times tsx pkt 0) in
       tm_delay (retransmit_timer t) = None \<and> complete t \<and> ts_out t = ts_out tsx @ replicate 7 (On_send_msg pkt) @ [On_complete PJNATH_ESTUNTIMEDOUT None]"
    using assms(4,5) by (simp add: fire_def retransmit_timer_callback_def timer_expired_def sent_times_def tsx_complete_def tsx_emit_def PJ_STUN_MAX_TRANSMIT_COUNT_def Let_def)
qed

theorem stun_tsx_timeout_schedule_witness:
  "\<exists>tsx0. pj_stun_client_tsx_send_msg PJ_SUCCESS demo_tsx True [1] = (PJ_SUCCESS, tsx0) \<and>
    ts_out (tsx_fires (replicate 7 PJ_SUCCESS) tsx0) = replicate 7 (On_send_msg [1]) @ [On_complete PJNATH_ESTUNTIMEDOUT None]"
  using stun_tsx_timeout_schedule [of demo_tsx "[1]"] by (auto simp: demo_tsx_def Let_def)

text \<open>
  C26. The retransmission timer cannot run for ever: in every state that the operations can reach and whatever the sends return, a transaction whose timer is armed is
  complete after at most eight expiries of the timer without a response.
\<close>

theorem stun_tsx_terminates:
  assumes "tsx_reachable tsx" "armed tsx" "8 \<le> length sends"
  shows "complete (tsx_fires sends tsx)"
  using tsx_fires_ends [OF reachable_inv [OF assms(1)] assms(2)] assms(3) by simp

theorem stun_tsx_terminates_witness:
  "armed (snd (pj_stun_client_tsx_send_msg PJ_SUCCESS demo_tsx True [1])) \<and>
   complete (tsx_fires (replicate 8 (PJ_STATUS 1)) (snd (pj_stun_client_tsx_send_msg PJ_SUCCESS demo_tsx True [1])))"
proof -
  have "armed (snd (pj_stun_client_tsx_send_msg PJ_SUCCESS demo_tsx True [1]))"
    using send_sent_times [of demo_tsx "[1]"] by (simp add: demo_tsx_def armed_def sent_times_def)
  then show ?thesis using stun_tsx_terminates [OF demo_tsx_reachable(2)] by simp
qed

text \<open>
  C28. In every state that the operations can reach in any order, the outcome was reported at most once, and only if the transaction is complete; while the destruction is
  pending the application wants it, nothing will be reported any more, and the callback of the destroy timer finds its function pointer set.
\<close>

theorem stun_tsx_reports_once:
  assumes "tsx_reachable tsx"
  shows "completions (ts_out tsx) \<le> 1 \<and> (completions (ts_out tsx) = 1 \<longrightarrow> complete tsx) \<and>
    (tm_delay (destroy_timer tsx) \<noteq> None \<longrightarrow> \<not> has_on_complete tsx \<and>
      (\<exists>tsx'. destroy_timer_callback (tsx\<lparr>destroy_timer := timer_expired (destroy_timer tsx)\<rparr>) = Some tsx'))"
  using reachable_inv [OF assms] by (auto simp: tsx_inv_def destroy_timer_callback_def Let_def)

theorem stun_tsx_reports_once_witness:
  "completions (ts_out demo_tsx) \<le> 1 \<and> completions (ts_out (snd (pj_stun_client_tsx_send_msg PJ_SUCCESS demo_tsx True [1]))) \<le> 1"
  using stun_tsx_reports_once [OF demo_tsx_reachable(1)] stun_tsx_reports_once [OF demo_tsx_reachable(2)] by blast

text \<open>
  C29. A response with attributes as the decoder returns them stops the retransmissions of an open transaction. Without ERROR-CODE it completes the transaction with success, with
  a code above 200 it completes it with that code, and the application gets the message; with a code up to 200 it is dropped, and then
  no timer is left that could complete the transaction.
\<close>

theorem stun_tsx_response:
  assumes "list_all attr_typed (msg_attrs msg)" "STUN_IS_SUCCESS_RESPONSE (mh_type (msg_hdr msg)) \<or> STUN_IS_ERROR_RESPONSE (mh_type (msg_hdr msg))"
    and "\<not> complete tsx" "has_on_complete tsx"
  shows "\<exists>tsx'. pj_stun_client_tsx_on_rx_msg tsx msg = Some (PJ_SUCCESS, tsx') \<and> (\<forall>sends. tsx_fires sends tsx' = tsx') \<and>
    (case pj_stun_msg_find_attr msg PJ_STUN_ATTR_ERROR_CODE 0 of
       None \<Rightarrow> complete tsx' \<and> ts_out tsx' = ts_out tsx @ [On_complete PJ_SUCCESS (Some msg)]
     | Some a \<Rightarrow> \<exists>c reason. at_body a = Errcode_body c reason \<and>
         (if c \<le> 200 then \<not> complete tsx' \<and> ts_out tsx' = ts_out tsx
          else complete tsx' \<and> ts_out tsx' = ts_out tsx @ [On_complete (PJ_STATUS_FROM_STUN_CODE c) (Some msg)]))"
proof -
  let ?t = "tsx\<lparr>retransmit_timer := slot_cancel_if_active (retransmit_timer tsx) TIMER_INACTIVE\<rparr>"
  have idle: "tsx_fires sends t = t" if "retransmit_timer t = retransmit_timer ?t" for sends t using that by (cases sends) (simp_all add: armed_def)
  have c: "retransmit_timer (tsx_complete st m ?t) = retransmit_timer ?t" "complete (tsx_complete st m ?t)"
      "ts_out (tsx_complete st m ?t) = ts_out tsx @ [On_complete st m]" for st m
    using assms(3,4) by (simp_all add: tsx_complete_def tsx_emit_def)
  show ?thesis
  proof (cases "pj_stun_msg_find_attr msg PJ_STUN_ATTR_ERROR_CODE 0")
    case None
    then show ?thesis using assms(2) c idle by (auto simp: pj_stun_client_tsx_on_rx_msg_def Let_def)
  next
    case (Some a)
    then have "attr_typed a" "at_type a = PJ_STUN_ATTR_ERROR_CODE" using assms(1) by (auto simp: pj_stun_msg_find_attr_def find_Some_iff list_all_iff)
    moreover have "map_option snd (find_attr_desc (unat PJ_STUN_ATTR_ERROR_CODE)) = Some ERRCODE_ATTR"
      by (simp add: find_attr_desc_def mandatory_attr_desc_def PJ_STUN_ATTR_ERROR_CODE_def PJ_STUN_ATTR_END_MANDATORY_ATTR_def)
    ultimately obtain code reason where b: "at_body a = Errcode_body code reason" by (cases "at_body a") (auto simp: attr_typed_def body_typed_def)
    then show ?thesis using Some assms(2,3) c [of "PJ_STATUS_FROM_STUN_CODE code" "Some msg"] idle
      by (auto simp: pj_stun_client_tsx_on_rx_msg_def Let_def)
  qed
qed

definition demo_error_msg :: pj_stun_msg where
  "demo_error_msg = \<lparr>msg_hdr = \<lparr>mh_type = 0x0111, mh_length = 0, mh_magic = PJ_STUN_MAGIC, mh_tsx_id = []\<rparr>,
     msg_attrs = [\<lparr>at_type = PJ_STUN_ATTR_ERROR_CODE, at_length = 4, at_body = Errcode_body 401 []\<rparr>]\<rparr>"

theorem stun_tsx_response_witness:
  "\<exists>tsx'. pj_stun_client_tsx_on_rx_msg demo_tsx demo_error_msg = Some (PJ_SUCCESS, tsx') \<and> complete tsx' \<and>
    ts_out tsx' = [On_complete (PJ_STATUS_FROM_STUN_CODE 401) (Some demo_error_msg)]"
proof -
  have "list_all attr_typed (msg_attrs demo_error_msg)" "STUN_IS_ERROR_RESPONSE (mh_type (msg_hdr demo_error_msg))"
    "pj_stun_msg_find_attr demo_error_msg PJ_STUN_ATTR_ERROR_CODE 0 = Some \<lparr>at_type = PJ_STUN_ATTR_ERROR_CODE, at_length = 4, at_body = Errcode_body 401 []\<rparr>"
    by (simp_all add: demo_error_msg_def attr_typed_def body_typed_def STUN_IS_ERROR_RESPONSE_def pj_stun_msg_find_attr_def find_attr_desc_def mandatory_attr_desc_def
        PJ_STUN_ATTR_ERROR_CODE_def PJ_STUN_ATTR_END_MANDATORY_ATTR_def)
  then show ?thesis using stun_tsx_response [of demo_error_msg demo_tsx] by (auto simp: demo_tsx_def)
qed

end
