(* ===== verification/StunSessionInv.thy ===== *)
theory StunSessionInv
  imports StunSession StunTsxProps
begin

text \<open>
  What the STUN session guarantees to the code around it: no timer and no list of it ever refers to memory that was released, a request is reported at most once, and
  what it does with the packets that arrive.
\<close>

subsection \<open>What the operations of a transaction change\<close>

definition completes :: "tsx_action list \<Rightarrow> (pj_status \<times> pj_stun_msg option) list" where
  "completes acts = [(st, m). On_complete st m \<leftarrow> acts]"

lemma completes_simps [simp]:
  "completes [] = []" "completes (xs @ ys) = completes xs @ completes ys" "completes [On_send_msg p] = []" "completes [On_destroy] = []"
  "completes [On_complete st m] = [(st, m)]"
  by (simp_all add: completes_def)

definition will_report :: "pj_stun_client_tsx \<Rightarrow> bool" where
  "will_report tsx \<longleftrightarrow> \<not> complete tsx \<and> has_on_complete tsx"

text \<open>The two transactions agree on what the session put there; \<open>quiet\<close> operations report nothing, the others report at most once and only what was not reported.\<close>

definition same_owner :: "pj_stun_client_tsx \<Rightarrow> pj_stun_client_tsx \<Rightarrow> bool" where
  "same_owner tsx tsx' \<longleftrightarrow> user_data tsx' = user_data tsx \<and> has_on_destroy tsx' = has_on_destroy tsx"

definition quiet :: "pj_stun_client_tsx \<Rightarrow> pj_stun_client_tsx \<Rightarrow> bool" where
  "quiet tsx tsx' \<longleftrightarrow> same_owner tsx tsx' \<and> completes (ts_out tsx') = completes (ts_out tsx) \<and> will_report tsx' = will_report tsx"

definition reports :: "pj_stun_client_tsx \<Rightarrow> pj_stun_client_tsx \<Rightarrow> bool" where
  "reports tsx tsx' \<longleftrightarrow> same_owner tsx tsx' \<and>
     (completes (ts_out tsx') = completes (ts_out tsx) \<and> (will_report tsx' \<longrightarrow> will_report tsx) \<or>
      (\<exists>x. completes (ts_out tsx') = completes (ts_out tsx) @ [x]) \<and> will_report tsx \<and> \<not> will_report tsx')"

lemmas tsx_frame_defs = same_owner_def quiet_def reports_def will_report_def

lemma quiet_trans: "quiet a b \<Longrightarrow> quiet b c \<Longrightarrow> quiet a c"
  by (simp add: tsx_frame_defs)

lemma quiet_reports: "quiet a b \<Longrightarrow> reports b c \<Longrightarrow> reports a c"
  by (auto simp: tsx_frame_defs)

lemma transmit_quiet: "tsx_transmit_msg send tsx mc = (st, tsx') \<Longrightarrow> quiet tsx tsx'"
  by (auto simp: tsx_transmit_msg_def tsx_frame_defs tsx_emit_def Let_def split: prod.splits if_splits)

lemma complete_reports: "reports tsx (tsx_complete st m tsx)"
  by (auto simp: tsx_complete_def tsx_frame_defs tsx_emit_def Let_def)

lemma send_msg_quiet:
  assumes "pj_stun_client_tsx_send_msg send tsx re pkt = (st, tsx')"
  shows "quiet tsx tsx'"
  using assms unfolding pj_stun_client_tsx_send_msg_def Let_def
  by (auto simp: tsx_frame_defs split: if_splits prod.splits dest!: transmit_quiet)

lemma retransmit_quiet: "pj_stun_client_tsx_retransmit send tsx mc = (st, tsx') \<Longrightarrow> quiet tsx tsx'"
  by (auto simp: pj_stun_client_tsx_retransmit_def Let_def tsx_frame_defs split: if_splits dest!: transmit_quiet)

lemma retransmit_timer_reports: "reports tsx (retransmit_timer_callback send tsx)"
proof -
  define t where "t = tsx\<lparr>retransmit_timer := (retransmit_timer tsx)\<lparr>tm_id := 0\<rparr>\<rparr>"
  obtain st t' where x: "tsx_transmit_msg send t True = (st, t')" by fastforce
  have q: "quiet tsx t" "quiet t t'" "quiet t' (t'\<lparr>retransmit_timer := (retransmit_timer t')\<lparr>tm_id := 0\<rparr>\<rparr>)" "reports t' t'"
    using transmit_quiet [OF x] by (auto simp: t_def tsx_frame_defs)
  have "retransmit_timer_callback send tsx = (if transmit_count t \<ge> PJ_STUN_MAX_TRANSMIT_COUNT then tsx_complete PJNATH_ESTUNTIMEDOUT None t
      else if st \<noteq> PJ_SUCCESS then tsx_complete st None (t'\<lparr>retransmit_timer := (retransmit_timer t')\<lparr>tm_id := 0\<rparr>\<rparr>) else t')"
    using x by (simp add: retransmit_timer_callback_def t_def Let_def)
  then show ?thesis using q complete_reports quiet_reports by (metis quiet_trans)
qed

lemma on_rx_msg_reports: "pj_stun_client_tsx_on_rx_msg tsx msg = Some (st, tsx') \<Longrightarrow> reports tsx tsx'"
  by (auto simp: pj_stun_client_tsx_on_rx_msg_def Let_def tsx_frame_defs tsx_complete_def tsx_emit_def split: if_splits option.splits attr_body.splits)

lemma schedule_destroy_owner:
  "same_owner tsx (snd (pj_stun_client_tsx_schedule_destroy tsx d))"
  "has_on_destroy tsx \<Longrightarrow> \<not> will_report (snd (pj_stun_client_tsx_schedule_destroy tsx d))"
  by (simp_all add: pj_stun_client_tsx_schedule_destroy_def tsx_frame_defs slot_schedule_w_grp_lock_def Let_def)

subsection \<open>The invariant of the session\<close>

definition reported :: "pj_stun_session \<Rightarrow> nat \<Rightarrow> nat" where
  "reported sess i = length (filter (\<lambda>a. case a of Sess_request_complete _ _ j _ \<Rightarrow> j = i | _ \<Rightarrow> False) (ss_out sess))"

definition timer_idle :: "bool timer_slot \<Rightarrow> bool" where
  "timer_idle t \<longleftrightarrow> \<not> tm_id t \<and> tm_delay t = None"

text \<open>
  An object with a transaction is a request that was sent: it may be pending, its transaction leads back to it, and it was reported only if the transaction is done with
  reporting. One without a transaction is not pending; it is in the cache exactly while its timer runs, unless the session is being destroyed.
\<close>

definition tdata_shape :: "pj_stun_session \<Rightarrow> nat \<Rightarrow> pj_stun_tx_data \<Rightarrow> bool" where
  "tdata_shape sess i td = (case td_client_tsx td of
     None \<Rightarrow> i \<notin> set (ss_pending_request_list sess) \<and>
       (if i \<in> set (ss_cached_response_list sess)
        then STUN_IS_RESPONSE (mh_type (msg_hdr (td_msg td))) \<and> (tm_id (td_res_timer td) \<longleftrightarrow> tm_delay (td_res_timer td) \<noteq> None) \<and>
          (tm_id (td_res_timer td) \<or> ss_is_destroying sess)
        else timer_idle (td_res_timer td))
   | Some tsx \<Rightarrow> i \<notin> set (ss_cached_response_list sess) \<and> timer_idle (td_res_timer td) \<and> td_dst_addr td \<noteq> None \<and> user_data tsx = Suc i \<and> has_on_destroy tsx)"

definition tdata_ok :: "pj_stun_session \<Rightarrow> nat \<Rightarrow> pj_stun_tx_data \<Rightarrow> bool" where
  "tdata_ok sess i td \<longleftrightarrow> tdata_shape sess i td \<and>
     reported sess i \<le> (case td_client_tsx td of None \<Rightarrow> 0 | Some tsx \<Rightarrow> if will_report tsx then 0 else 1)"

lemmas tdata_defs = tdata_ok_def tdata_shape_def

lemma tdata_ok_cong:
  assumes "j \<in> set (ss_pending_request_list sess') \<longleftrightarrow> j \<in> set (ss_pending_request_list sess)" "j \<in> set (ss_cached_response_list sess') \<longleftrightarrow> j \<in> set (ss_cached_response_list sess)"
    "reported sess' j = reported sess j" "ss_is_destroying sess' = ss_is_destroying sess"
  shows "tdata_ok sess' j td = tdata_ok sess j td"
  unfolding tdata_defs by (simp only: assms)

text \<open>Everything but what concerns the object \<open>i\<close>, which an operation has in its hands.\<close>

definition inv_except :: "nat \<Rightarrow> pj_stun_session \<Rightarrow> bool" where
  "inv_except i sess \<longleftrightarrow> \<not> ss_dangling sess \<and> distinct (ss_pending_request_list sess) \<and> distinct (ss_cached_response_list sess) \<and> i < ss_next_tdata sess \<and>
     (\<forall>j \<in> set (ss_pending_request_list sess) \<union> set (ss_cached_response_list sess). j \<noteq> i \<longrightarrow> ss_tdata sess j \<noteq> None) \<and>
     (\<forall>j. ss_next_tdata sess \<le> j \<longrightarrow> ss_tdata sess j = None \<and> reported sess j = 0) \<and>
     (\<forall>j td. j \<noteq> i \<longrightarrow> ss_tdata sess j = Some td \<longrightarrow> tdata_ok sess j td) \<and> (\<forall>j. j \<noteq> i \<longrightarrow> reported sess j \<le> 1)"

definition sess_inv :: "pj_stun_session \<Rightarrow> bool" where
  "sess_inv sess \<longleftrightarrow> \<not> ss_dangling sess \<and> distinct (ss_pending_request_list sess) \<and> distinct (ss_cached_response_list sess) \<and>
     (\<forall>j \<in> set (ss_pending_request_list sess) \<union> set (ss_cached_response_list sess). ss_tdata sess j \<noteq> None) \<and>
     (\<forall>j. ss_next_tdata sess \<le> j \<longrightarrow> ss_tdata sess j = None \<and> reported sess j = 0) \<and>
     (\<forall>j td. ss_tdata sess j = Some td \<longrightarrow> tdata_ok sess j td) \<and> (\<forall>j. reported sess j \<le> 1)"

lemma sess_inv_ok: "sess_inv sess \<Longrightarrow> ss_tdata sess i = Some td \<Longrightarrow> tdata_ok sess i td"
  by (simp add: sess_inv_def)

lemma sess_inv_open: "sess_inv sess \<Longrightarrow> ss_tdata sess i = Some td \<Longrightarrow> inv_except i sess"
  unfolding sess_inv_def inv_except_def by (metis not_le option.distinct(1))

lemma tdata_ok_reported: "tdata_ok sess i td \<Longrightarrow> reported sess i \<le> 1"
  by (auto simp: tdata_defs split: option.splits if_splits)

lemma sess_inv_close:
  assumes inv: "inv_except i sess"
    and own: "case ss_tdata sess i of Some td \<Rightarrow> tdata_ok sess i td
      | None \<Rightarrow> i \<notin> set (ss_pending_request_list sess) \<and> i \<notin> set (ss_cached_response_list sess) \<and> reported sess i \<le> 1"
  shows "sess_inv sess"
proof -
  have "reported sess i \<le> 1" using own tdata_ok_reported by (auto split: option.splits)
  then have "reported sess j \<le> 1" for j using inv unfolding inv_except_def by (cases "j = i") blast+
  moreover have "tdata_ok sess j td" if "ss_tdata sess j = Some td" for j td
    using inv own that unfolding inv_except_def by (cases "j = i") auto
  moreover have "ss_tdata sess j \<noteq> None" if "j \<in> set (ss_pending_request_list sess) \<union> set (ss_cached_response_list sess)" for j
    using inv own that unfolding inv_except_def by (cases "j = i") (auto split: option.splits)
  ultimately show ?thesis using inv unfolding sess_inv_def inv_except_def by blast
qed

text \<open>The frame: a change that is only about \<open>i\<close>.\<close>

lemma inv_except_frame:
  assumes "inv_except i sess" "ss_next_tdata sess' = ss_next_tdata sess" "ss_is_destroying sess' = ss_is_destroying sess" "\<not> ss_dangling sess'"
    and "distinct (ss_pending_request_list sess')" "distinct (ss_cached_response_list sess')"
    and "\<And>j. j \<noteq> i \<Longrightarrow> ss_tdata sess' j = ss_tdata sess j \<and> reported sess' j = reported sess j \<and>
      (j \<in> set (ss_pending_request_list sess') \<longleftrightarrow> j \<in> set (ss_pending_request_list sess)) \<and>
      (j \<in> set (ss_cached_response_list sess') \<longleftrightarrow> j \<in> set (ss_cached_response_list sess))"
  shows "inv_except i sess'"
proof -
  have "tdata_ok sess' j td" if "j \<noteq> i" "ss_tdata sess' j = Some td" for j td
  proof -
    have "tdata_ok sess j td" using assms(1) that assms(7) [OF that(1)] unfolding inv_except_def by simp
    then show ?thesis using tdata_ok_cong [of j sess' sess td] assms(3) assms(7) [OF that(1)] by simp
  qed
  moreover have "j \<noteq> i" if "ss_next_tdata sess \<le> j" for j using assms(1) that by (auto simp: inv_except_def)
  ultimately show ?thesis using assms unfolding inv_except_def by (metis Un_iff)
qed

lemmas sess_updates = put_tdata_def list_erase_def tsx_add_def tsx_erase_def sess_emit_def

lemma reported_simps [simp]:
  "reported (sess_emit (Sess_send_msg t p a) sess) j = reported sess j"
  "reported (sess_emit (Sess_rx_request p r t a) sess) j = reported sess j"
  "reported (sess_emit (Sess_rx_indication p im t a) sess) j = reported sess j"
  "reported (sess_emit (Sess_request_complete st t i m) sess) j = (if j = i then Suc (reported sess j) else reported sess j)"
  "reported (put_tdata i td sess) j = reported sess j" "reported (list_erase i sess) j = reported sess j" "reported (tsx_add i sess) j = reported sess j"
  by (simp_all add: reported_def sess_updates)

lemma inv_except_simps [simp]:
  "inv_except i sess \<Longrightarrow> inv_except i (put_tdata i td sess)"
  "inv_except i sess \<Longrightarrow> inv_except i (list_erase i sess)"
  "inv_except i sess \<Longrightarrow> i \<notin> set (ss_pending_request_list sess) \<Longrightarrow> inv_except i (tsx_add i sess)"
  "inv_except i sess \<Longrightarrow> inv_except i (sess_emit (Sess_send_msg t p a) sess)"
  "inv_except i sess \<Longrightarrow> inv_except i (sess_emit (Sess_request_complete st t i m) sess)"
proof -
  assume inv: "inv_except i sess"
  then have d: "\<not> ss_dangling sess" "distinct (ss_pending_request_list sess)" "distinct (ss_cached_response_list sess)" by (simp_all add: inv_except_def)
  show "inv_except i (put_tdata i td sess)" by (rule inv_except_frame [OF inv]) (use d in \<open>simp_all add: put_tdata_def reported_def\<close>)
  show "inv_except i (list_erase i sess)" by (rule inv_except_frame [OF inv]) (use d in \<open>simp_all add: list_erase_def reported_def\<close>)
  show "inv_except i (tsx_add i sess)" if "i \<notin> set (ss_pending_request_list sess)"
    by (rule inv_except_frame [OF inv]) (use d that in \<open>simp_all add: tsx_add_def reported_def\<close>)
  show "inv_except i (sess_emit (Sess_send_msg t p a) sess)" by (rule inv_except_frame [OF inv]) (use d in \<open>simp_all add: sess_emit_def reported_def\<close>)
  show "inv_except i (sess_emit (Sess_request_complete st t i m) sess)"
    by (rule inv_except_frame [OF inv]) (use d in \<open>simp_all add: sess_emit_def reported_def\<close>)
qed

lemma sess_fields [simp]:
  "ss_pending_request_list (put_tdata i td sess) = ss_pending_request_list sess" "ss_cached_response_list (put_tdata i td sess) = ss_cached_response_list sess"
  "ss_tdata (put_tdata i td sess) j = (if j = i then Some td else ss_tdata sess j)" "ss_is_destroying (put_tdata i td sess) = ss_is_destroying sess"
  "ss_next_tdata (put_tdata i td sess) = ss_next_tdata sess" "ss_out (put_tdata i td sess) = ss_out sess"
  "ss_tdata (list_erase i sess) = ss_tdata sess" "ss_is_destroying (list_erase i sess) = ss_is_destroying sess" "ss_out (list_erase i sess) = ss_out sess"
  "j \<in> set (ss_pending_request_list (list_erase i sess)) \<longleftrightarrow> j \<in> set (ss_pending_request_list sess) \<and> j \<noteq> i"
  "j \<in> set (ss_cached_response_list (list_erase i sess)) \<longleftrightarrow> j \<in> set (ss_cached_response_list sess) \<and> j \<noteq> i"
  "ss_pending_request_list (tsx_add i sess) = i # ss_pending_request_list sess" "ss_cached_response_list (tsx_add i sess) = ss_cached_response_list sess"
  "ss_tdata (tsx_add i sess) = ss_tdata sess" "ss_is_destroying (tsx_add i sess) = ss_is_destroying sess" "ss_out (tsx_add i sess) = ss_out sess"
  "ss_pending_request_list (sess_emit a sess) = ss_pending_request_list sess" "ss_cached_response_list (sess_emit a sess) = ss_cached_response_list sess"
  "ss_tdata (sess_emit a sess) = ss_tdata sess" "ss_is_destroying (sess_emit a sess) = ss_is_destroying sess" "ss_out (sess_emit a sess) = ss_out sess @ [a]"
  by (auto simp: sess_updates)

text \<open>A change to nothing but the object \<open>i\<close> and its place in the lists, which reports nothing.\<close>

definition told :: "pj_stun_session \<Rightarrow> sess_action list" where
  "told sess = filter (\<lambda>a. case a of Sess_request_complete _ _ _ _ \<Rightarrow> True | _ \<Rightarrow> False) (ss_out sess)"

definition only :: "nat \<Rightarrow> pj_stun_session \<Rightarrow> pj_stun_session \<Rightarrow> bool" where
  "only i sess sess' \<longleftrightarrow> (\<forall>j. j \<noteq> i \<longrightarrow> ss_tdata sess' j = ss_tdata sess j) \<and> (\<forall>j. reported sess' j = reported sess j) \<and> told sess' = told sess \<and>
     ss_is_destroying sess' = ss_is_destroying sess \<and> cb_on_request_complete sess' = cb_on_request_complete sess"

lemma only_trans: "only i a b \<Longrightarrow> only i b c \<Longrightarrow> only i a c"
  by (simp add: only_def)

lemma only_simps [simp]:
  "only i sess sess" "only i sess (put_tdata i td sess)" "only i sess (list_erase i sess)" "only i sess (tsx_add i sess)"
  "only i sess (sess_emit (Sess_send_msg t p a) sess)"
  by (simp_all add: only_def told_def) (simp_all add: sess_updates)

text \<open>What an operation on the object \<open>i\<close> has to achieve.\<close>

definition achieves :: "nat \<Rightarrow> pj_stun_session \<Rightarrow> pj_stun_session option \<Rightarrow> bool" where
  "achieves i sess r \<longleftrightarrow> (\<exists>sess'. r = Some sess' \<and> sess_inv sess' \<and> only i sess sess')"

lemma achieves_only: "achieves i b r \<Longrightarrow> only i a b \<Longrightarrow> achieves i a r"
  unfolding achieves_def using only_trans by blast

text \<open>Releasing an object that no timer and no list refers to.\<close>

lemma release_inv:
  assumes inv: "inv_except i sess" and td: "ss_tdata sess i = Some td" and idle: "\<not> tsx_timers (td_client_tsx td)" "timer_idle (td_res_timer td)"
    and lists: "i \<notin> set (ss_pending_request_list sess)" "i \<notin> set (ss_cached_response_list sess)" and rep: "reported sess i \<le> 1"
  shows "achieves i sess (pool_release i sess)"
proof -
  define s where "s = sess\<lparr>ss_tdata := (ss_tdata sess)(i := None)\<rparr>"
  have d: "\<not> ss_dangling sess" "distinct (ss_pending_request_list sess)" "distinct (ss_cached_response_list sess)" using inv by (simp_all add: inv_except_def)
  have "inv_except i s" by (rule inv_except_frame [OF inv]) (use d in \<open>simp_all add: s_def reported_def\<close>)
  then have "sess_inv s" by (rule sess_inv_close) (use lists rep in \<open>simp_all add: s_def reported_def\<close>)
  moreover have "pool_release i sess = Some s"
    using td idle lists d by (simp add: pool_release_def s_def timer_idle_def)
  ultimately show ?thesis by (simp add: s_def only_def told_def reported_def achieves_def)
qed

lemma only_chain:
  "only i a b \<Longrightarrow> only i a (put_tdata i td b)" "only i a b \<Longrightarrow> only i a (list_erase i b)" "only i a b \<Longrightarrow> only i a (tsx_add i b)"
  "only i a b \<Longrightarrow> only i a (sess_emit (Sess_send_msg t p x) b)"
  using only_simps only_trans by blast+

subsection \<open>Releasing transmit data\<close>

lemma stop_simps [simp]:
  "\<not> tsx_timers (Some (snd (pj_stun_client_tsx_stop tsx)))" "user_data (snd (pj_stun_client_tsx_stop tsx)) = user_data tsx"
  "has_on_destroy (snd (pj_stun_client_tsx_stop tsx)) = has_on_destroy tsx" "will_report (snd (pj_stun_client_tsx_stop tsx)) = will_report tsx"
  "\<not> tsx_timers (Some (snd (pj_stun_client_tsx_set_data (snd (pj_stun_client_tsx_stop tsx)) d)))"
  by (simp_all add: tsx_timers_def pj_stun_client_tsx_stop_def pj_stun_client_tsx_set_data_def will_report_def)

lemma destroy_tdata_shape:
  assumes ex: "inv_except i sess" and td: "ss_tdata sess i = Some td" and ok: "tdata_shape sess i td" and once: "reported sess i \<le> 1"
    and cached: "force \<or> (i \<in> set (ss_cached_response_list sess) \<longrightarrow> tm_id (td_res_timer td))"
  shows "achieves i sess (destroy_tdata i force sess)"
proof -
  define td1 where "td1 = (if tm_id (td_res_timer td) then td\<lparr>td_res_timer := slot_cancel_if_active (td_res_timer td) False\<rparr> else td)"
  define s1 where "s1 = (if tm_id (td_res_timer td) then list_erase i (put_tdata i td1 sess) else sess)"
  have td1: "ss_tdata s1 i = Some td1" "td_client_tsx td1 = td_client_tsx td" "td_dst_addr td1 = td_dst_addr td" using td by (simp_all add: s1_def td1_def)
  have idle: "timer_idle (td_res_timer td1)"
    using ok by (auto simp: td1_def tdata_defs timer_idle_def split: option.splits if_splits)
  have s1: "inv_except i s1" "reported s1 i \<le> 1" "only i sess s1" "reported s1 i = reported sess i"
    using ex once by (auto simp: s1_def intro!: only_chain)
  have unfold: "destroy_tdata i force sess =
     (if force then
       let s = list_erase i s1;
           t = (case td_client_tsx td1 of None \<Rightarrow> td1
             | Some tsx \<Rightarrow> td1\<lparr>td_client_tsx := Some (snd (pj_stun_client_tsx_set_data (snd (pj_stun_client_tsx_stop tsx)) 0))\<rparr>)
       in pool_release i (put_tdata i t s)
     else (case td_client_tsx td1 of
         Some tsx \<Rightarrow> Some (put_tdata i (td1\<lparr>td_client_tsx := Some (snd (pj_stun_client_tsx_schedule_destroy tsx (PJ_TIME_VAL 0 300)))\<rparr>) s1)
       | None \<Rightarrow> pool_release i s1))"
    using td by (cases "td_client_tsx td"; cases "tm_id (td_res_timer td)") (simp_all add: destroy_tdata_def s1_def td1_def Let_def)
  consider "force" | "\<not> force" "td_client_tsx td = None" | tsx where "\<not> force" "td_client_tsx td = Some tsx" by (cases "td_client_tsx td") auto
  then show ?thesis
  proof cases
    case 1
    define t where "t = (case td_client_tsx td1 of None \<Rightarrow> td1
             | Some tsx \<Rightarrow> td1\<lparr>td_client_tsx := Some (snd (pj_stun_client_tsx_set_data (snd (pj_stun_client_tsx_stop tsx)) 0))\<rparr>)"
    have "achieves i (put_tdata i t (list_erase i s1)) (pool_release i (put_tdata i t (list_erase i s1)))"
      by (rule release_inv [where td = t]) (use s1 idle in \<open>auto simp: t_def tsx_timers_def [of None] split: option.splits\<close>)
    moreover have "only i sess (put_tdata i t (list_erase i s1))" using s1(3) by (intro only_chain)
    ultimately have "achieves i sess (pool_release i (put_tdata i t (list_erase i s1)))" by (rule achieves_only)
    then show ?thesis unfolding unfold using 1 by (simp add: Let_def t_def)
  next
    case 2
    have "achieves i s1 (pool_release i s1)"
    proof (rule release_inv [where td = td1])
      show "i \<notin> set (ss_pending_request_list s1)" "i \<notin> set (ss_cached_response_list s1)"
        using ok 2 cached by (auto simp: s1_def tdata_defs)
    qed (use s1 idle td1 2 in \<open>auto simp: tsx_timers_def\<close>)
    then have "achieves i sess (pool_release i s1)" using s1(3) by (rule achieves_only)
    then show ?thesis unfolding unfold using 2 td1(2) by simp
  next
    case 3
    let ?t = "td1\<lparr>td_client_tsx := Some (snd (pj_stun_client_tsx_schedule_destroy tsx (PJ_TIME_VAL 0 300)))\<rparr>"
    have "sess_inv (put_tdata i ?t s1)"
    proof (rule sess_inv_close [of i])
      have "i \<notin> set (ss_cached_response_list s1)" using ok 3 by (auto simp: s1_def tdata_defs)
      then show "case ss_tdata (put_tdata i ?t s1) i of Some td \<Rightarrow> tdata_ok (put_tdata i ?t s1) i td
        | None \<Rightarrow> i \<notin> set (ss_pending_request_list (put_tdata i ?t s1)) \<and> i \<notin> set (ss_cached_response_list (put_tdata i ?t s1)) \<and> reported (put_tdata i ?t s1) i \<le> 1"
        using ok 3 idle td1 s1(2) schedule_destroy_owner [of tsx "PJ_TIME_VAL 0 300"] by (simp add: tdata_defs same_owner_def)
    qed (use s1 in simp)
    then show ?thesis unfolding unfold using 3 td1(2) s1(3) only_chain(1) by (auto simp: achieves_def)
  qed
qed

lemma destroy_tdata_inv:
  assumes inv: "sess_inv sess" and td: "ss_tdata sess i = Some td"
    and cached: "force \<or> (i \<in> set (ss_cached_response_list sess) \<longrightarrow> tm_id (td_res_timer td))"
  shows "achieves i sess (destroy_tdata i force sess)"
  using destroy_tdata_shape [OF sess_inv_open [OF inv td] td _ _ cached] sess_inv_ok [OF inv td] tdata_ok_reported by (auto simp: tdata_ok_def)

lemma on_destroy_inv:
  assumes inv: "sess_inv sess" and td: "ss_tdata sess i = Some td" "td_client_tsx td = Some tsx"
  shows "achieves i sess (stun_tsx_on_destroy i sess)"
proof -
  note ok = sess_inv_ok [OF inv td(1)]
  let ?t = "td\<lparr>td_client_tsx := Some (snd (pj_stun_client_tsx_stop tsx))\<rparr>"
  have "achieves i (tsx_erase i (put_tdata i ?t sess)) (pool_release i (tsx_erase i (put_tdata i ?t sess)))"
    by (rule release_inv [where td = ?t])
      (use sess_inv_open [OF inv td(1)] ok td tdata_ok_reported [OF ok] in \<open>auto simp: tsx_erase_def tdata_defs\<close>)
  moreover have "only i sess (tsx_erase i (put_tdata i ?t sess))" unfolding tsx_erase_def by (intro only_chain only_simps)
  ultimately have "achieves i sess (pool_release i (tsx_erase i (put_tdata i ?t sess)))" by (rule achieves_only)
  moreover have "user_data tsx = Suc i" using ok td by (simp add: tdata_defs)
  ultimately show ?thesis using td by (simp add: stun_tsx_on_destroy_def pj_stun_client_tsx_get_data_def Let_def)
qed

subsection \<open>Sending\<close>

lemma sends_of_dst:
  assumes "td_dst_addr td = Some a"
  shows "sends_of sess td acts = Some (if ss_is_destroying sess then [] else [Sess_send_msg (td_token td) p a. On_send_msg p \<leftarrow> acts])"
proof -
  have "those [case td_dst_addr td of Some a \<Rightarrow> Some (Sess_send_msg (td_token td) p a) | None \<Rightarrow> None. On_send_msg p \<leftarrow> acts] =
      Some [Sess_send_msg (td_token td) p a. On_send_msg p \<leftarrow> acts]"
    by (induction acts) (use assms in \<open>auto split: tsx_action.split\<close>)
  then show ?thesis unfolding sends_of_def by simp
qed

lemma reported_sends:
  "reported (sess\<lparr>ss_out := ss_out sess @ [Sess_send_msg t p a. On_send_msg p \<leftarrow> acts]\<rparr>) j = reported sess j"
proof -
  have "filter (\<lambda>a. case a of Sess_request_complete _ _ k _ \<Rightarrow> k = j | _ \<Rightarrow> False) [Sess_send_msg t p a. On_send_msg p \<leftarrow> acts] = []"
    by (induction acts) (auto split: tsx_action.split)
  then show ?thesis by (simp add: reported_def)
qed

lemma told_sends:
  "told (sess\<lparr>ss_out := ss_out sess @ [Sess_send_msg t p a. On_send_msg p \<leftarrow> acts]\<rparr>) = told sess"
proof -
  have "filter (\<lambda>a. case a of Sess_request_complete _ _ _ _ \<Rightarrow> True | _ \<Rightarrow> False) [Sess_send_msg t p a. On_send_msg p \<leftarrow> acts] = []"
    by (induction acts) (auto split: tsx_action.split)
  then show ?thesis by (simp add: told_def)
qed

lemma tsx_call_inv:
  assumes inv: "sess_inv sess" and td: "ss_tdata sess i = Some td" "td_client_tsx td = Some tsx"
    and f: "f (stun_tsx_on_send_msg env sess) (tsx\<lparr>ts_out := []\<rparr>) = (r, tsx')" and rep: "reports (tsx\<lparr>ts_out := []\<rparr>) tsx'"
  shows "\<exists>sess'. tsx_call env i f sess = Some (r, ts_out tsx', sess') \<and> sess_inv sess' \<and> only i sess sess' \<and>
    ss_tdata sess' i = Some (td\<lparr>td_client_tsx := Some (tsx'\<lparr>ts_out := []\<rparr>)\<rparr>) \<and> ss_pending_request_list sess' = ss_pending_request_list sess \<and>
    ss_cached_response_list sess' = ss_cached_response_list sess"
proof -
  note ok = sess_inv_ok [OF inv td(1)]
  then obtain a where a: "td_dst_addr td = Some a" using td(2) by (auto simp: tdata_defs)
  let ?t = "td\<lparr>td_client_tsx := Some (tsx'\<lparr>ts_out := []\<rparr>)\<rparr>"
  define sent where "sent = (if ss_is_destroying sess then [] else [Sess_send_msg (td_token td) p a. On_send_msg p \<leftarrow> ts_out tsx'])"
  define s where "s = (put_tdata i ?t sess)\<lparr>ss_out := ss_out sess @ sent\<rparr>"
  have r: "reported s j = reported sess j" for j
    using reported_sends [of "put_tdata i ?t sess" "td_token td" a "ts_out tsx'" j] by (auto simp: s_def sent_def put_tdata_def reported_def)
  have d: "\<not> ss_dangling sess" "distinct (ss_pending_request_list sess)" "distinct (ss_cached_response_list sess)" using inv by (simp_all add: sess_inv_def)
  have "inv_except i s"
    by (rule inv_except_frame [OF sess_inv_open [OF inv td(1)]]) (use d r in \<open>simp_all add: s_def put_tdata_def\<close>)
  moreover have "tdata_ok s i ?t"
  proof -
    have "reported sess i \<le> (if will_report (tsx'\<lparr>ts_out := []\<rparr>) then 0 else 1)"
      using ok td(2) rep by (auto simp: tdata_defs tsx_frame_defs split: if_splits)
    then show ?thesis using ok td(2) rep r by (simp add: tdata_defs s_def tsx_frame_defs)
  qed
  ultimately have "sess_inv s" by (intro sess_inv_close [of i]) (simp_all add: s_def)
  moreover have "tsx_call env i f sess = Some (r, ts_out tsx', s)"
    using td f sends_of_dst [OF a] by (simp add: tsx_call_def s_def sent_def)
  moreover have "only i sess s" using r told_sends [of "put_tdata i ?t sess" "td_token td" a "ts_out tsx'"] by (auto simp: only_def s_def sent_def put_tdata_def told_def)
  ultimately show ?thesis by (auto simp: s_def)
qed

lemma send_failed_inv:
  assumes "sess_inv sess" "ss_tdata sess i = Some td" "i \<in> set (ss_cached_response_list sess) \<longrightarrow> tm_id (td_res_timer td)"
  shows "\<exists>sess'. send_failed i st sess = Some (st, sess') \<and> sess_inv sess' \<and> only i sess sess'"
  using destroy_tdata_inv [OF assms(1,2), of False] assms(3) by (auto simp: achieves_def send_failed_def pj_stun_msg_destroy_tdata_def)

lemma send_request_inv:
  assumes inv: "sess_inv sess" and td: "ss_tdata sess i = Some td" "td_client_tsx td = None" "i \<notin> set (ss_cached_response_list sess)"
  shows "\<exists>st sess'. send_request env i re server sess = Some (st, sess') \<and> sess_inv sess' \<and> only i sess sess'"
proof -
  note ok = sess_inv_ok [OF inv td(1)] and ex = sess_inv_open [OF inv td(1)]
  obtain tsx where tsx: "pj_stun_client_tsx_create (cfg_rto_msec sess) True True True = Inr tsx" "has_on_destroy tsx"
    by (simp add: pj_stun_client_tsx_create_def)
  define t where "t = snd (pj_stun_client_tsx_set_data tsx (Suc i))"
  define td1 where "td1 = td\<lparr>td_client_tsx := Some t, td_dst_addr := Some server\<rparr>"
  have "sess_inv (put_tdata i td1 sess)"
    by (rule sess_inv_close [of i])
      (use ok ex td tsx in \<open>simp_all add: td1_def t_def pj_stun_client_tsx_set_data_def tdata_defs\<close>)
  moreover obtain r t' where f: "pj_stun_client_tsx_send_msg (stun_tsx_on_send_msg env (put_tdata i td1 sess)) (t\<lparr>ts_out := []\<rparr>) re (td_pkt td) = (r, t')" by fastforce
  moreover have "reports (t\<lparr>ts_out := []\<rparr>) t'" using send_msg_quiet [OF f] by (auto simp: tsx_frame_defs)
  ultimately obtain s where s: "tsx_call env i (\<lambda>st tsx. pj_stun_client_tsx_send_msg st tsx re (td_pkt td)) (put_tdata i td1 sess) = Some (r, ts_out t', s)"
      "sess_inv s" "only i (put_tdata i td1 sess) s" "ss_tdata s i = Some (td1\<lparr>td_client_tsx := Some (t'\<lparr>ts_out := []\<rparr>)\<rparr>)"
      "ss_pending_request_list s = ss_pending_request_list sess" "ss_cached_response_list s = ss_cached_response_list sess"
    using tsx_call_inv [of "put_tdata i td1 sess" i td1 t "\<lambda>st tsx. pj_stun_client_tsx_send_msg st tsx re (td_pkt td)" env r t'] by (auto simp: td1_def)
  have o: "only i sess s" using only_trans [OF only_simps(2) s(3)] .
  have eq: "send_request env i re server sess = (if r \<noteq> PJ_SUCCESS \<and> r \<noteq> PJ_EPENDING then send_failed i r s else Some (r, tsx_add i s))"
    using td(1) tsx(1) s(1) by (simp add: send_request_def t_def td1_def Let_def)
  show ?thesis
  proof (cases "r \<noteq> PJ_SUCCESS \<and> r \<noteq> PJ_EPENDING")
    case True
    then show ?thesis using eq send_failed_inv [OF s(2,4), of r] s(6) td(3) only_trans [OF o] by auto
  next
    case False
    have "i \<notin> set (ss_pending_request_list s)" using ok td(2) s(5) by (simp add: tdata_defs)
    then have "sess_inv (tsx_add i s)"
      using sess_inv_open [OF s(2,4)] sess_inv_ok [OF s(2,4)] s(4) by (intro sess_inv_close [of i]) (simp_all add: tdata_defs)
    then show ?thesis using False eq only_chain(3) [OF o] by auto
  qed
qed

text \<open>An object that was created and not sent.\<close>

definition unsent :: "pj_stun_session \<Rightarrow> nat \<Rightarrow> bool" where
  "unsent sess i \<longleftrightarrow> (\<exists>td. ss_tdata sess i = Some td \<and> td_client_tsx td = None) \<and> i \<notin> set (ss_cached_response_list sess)"

lemma unsent_put:
  assumes "sess_inv sess" "unsent sess i" "ss_tdata sess i = Some td" "td_client_tsx td' = None" "td_res_timer td' = td_res_timer td"
  shows "sess_inv (put_tdata i td' sess)" "unsent (put_tdata i td' sess) i"
proof -
  note ok = sess_inv_ok [OF assms(1,3)]
  show "sess_inv (put_tdata i td' sess)"
    by (rule sess_inv_close [of i]) (use ok sess_inv_open [OF assms(1,3)] assms in \<open>auto simp: tdata_defs unsent_def\<close>)
  show "unsent (put_tdata i td' sess) i" using assms by (simp add: unsent_def)
qed

lemma response_types:
  "STUN_IS_SUCCESS_RESPONSE t \<Longrightarrow> STUN_IS_RESPONSE t" "STUN_IS_ERROR_RESPONSE t \<Longrightarrow> STUN_IS_RESPONSE t" "STUN_IS_REQUEST t \<Longrightarrow> \<not> STUN_IS_RESPONSE t"
proof -
  have "t AND 0x100 = (t AND 0x110) AND 0x100" by (simp add: and.assoc)
  then show "STUN_IS_SUCCESS_RESPONSE t \<Longrightarrow> STUN_IS_RESPONSE t" "STUN_IS_ERROR_RESPONSE t \<Longrightarrow> STUN_IS_RESPONSE t" "STUN_IS_REQUEST t \<Longrightarrow> \<not> STUN_IS_RESPONSE t"
    by (simp_all add: STUN_IS_RESPONSE_def STUN_IS_SUCCESS_RESPONSE_def STUN_IS_ERROR_RESPONSE_def STUN_IS_REQUEST_def)
qed

lemma emit_inv:
  assumes "sess_inv sess" "\<And>st t j m. a \<noteq> Sess_request_complete st t j m"
  shows "sess_inv (sess_emit a sess)"
proof -
  have r: "reported (sess_emit a sess) j = reported sess j" for j using assms(2) by (cases a) auto
  have "tdata_ok (sess_emit a sess) j td = tdata_ok sess j td" for j td by (rule tdata_ok_cong) (simp_all add: r)
  then show ?thesis using assms(1) r by (simp add: sess_inv_def sess_emit_def)
qed

lemma send_other_inv:
  assumes inv: "sess_inv sess" and un: "unsent sess i"
  shows "\<exists>st sess'. send_other env i token cache server sess = Some (st, sess') \<and> sess_inv sess' \<and> only i sess sess'"
proof -
  obtain td where td: "ss_tdata sess i = Some td" "td_client_tsx td = None" and nc: "i \<notin> set (ss_cached_response_list sess)" using un by (auto simp: unsent_def)
  note ok = sess_inv_ok [OF inv td(1)] and ex = sess_inv_open [OF inv td(1)]
  define c where "c \<longleftrightarrow> cache \<and> (STUN_IS_SUCCESS_RESPONSE (mh_type (msg_hdr (td_msg td))) \<or> STUN_IS_ERROR_RESPONSE (mh_type (msg_hdr (td_msg td))))"
  define d where "d = PJ_TIME_VAL_MSEC (PJ_TIME_VAL (uint (cfg_res_cache_msec sess div 1000)) (uint (cfg_res_cache_msec sess mod 1000)))"
  define td1 where "td1 = (if c then td\<lparr>td_res_timer := \<lparr>tm_id = True, tm_delay = Some d\<rparr>\<rparr> else td)"
  define s where "s = (if c then (put_tdata i td1 sess)\<lparr>ss_cached_response_list := ss_cached_response_list sess @ [i]\<rparr> else put_tdata i td1 sess)"
  have td1: "ss_tdata s i = Some td1" "td_client_tsx td1 = None" "tm_id (td_res_timer td1) \<longleftrightarrow> c" "i \<in> set (ss_cached_response_list s) \<longleftrightarrow> c"
    using td nc ok by (auto simp: s_def td1_def tdata_defs timer_idle_def put_tdata_def)
  have "inv_except i s"
    by (rule inv_except_frame [OF ex]) (use inv nc in \<open>auto simp: s_def put_tdata_def reported_def sess_inv_def\<close>)
  moreover have "tdata_ok s i td1"
    using ok td nc response_types by (auto simp: tdata_defs s_def td1_def reported_def put_tdata_def c_def)
  ultimately have s: "sess_inv s" using td1(1) by (intro sess_inv_close [of i]) simp_all
  define s' where "s' = sess_emit (Sess_send_msg token (td_pkt td1) server) s"
  have s': "sess_inv s'" "ss_tdata s' i = Some td1" using emit_inv [OF s] td1(1) by (simp_all add: s'_def)
  have o: "only i sess s'" unfolding s'_def by (rule only_chain(4)) (simp add: s_def only_def told_def put_tdata_def reported_def)
  have eq: "send_other env i token cache server sess =
     (if ev_send env \<noteq> PJ_SUCCESS \<and> ev_send env \<noteq> PJ_EPENDING then send_failed i (ev_send env) s'
      else if \<not> c then send_failed i (ev_send env) s' else Some (ev_send env, s'))"
    using td(1) td1(3) by (cases c) (simp_all add: send_other_def Let_def slot_schedule_w_grp_lock_def s'_def s_def td1_def d_def c_def [symmetric])
  have "\<exists>s''. send_failed i (ev_send env) s' = Some (ev_send env, s'') \<and> sess_inv s'' \<and> only i s' s''"
    by (rule send_failed_inv [OF s']) (use td1 in \<open>simp add: s'_def\<close>)
  then show ?thesis using eq s'(1) o only_trans [OF o] by auto
qed

lemma send_msg_inv:
  assumes inv: "sess_inv sess" and un: "unsent sess i" and res: "pj_stun_session_send_msg env sess token cache re server i = Some (st, sess')"
  shows "sess_inv sess' \<and> only i sess sess'"
proof (cases "ss_is_destroying sess")
  case True
  then show ?thesis using inv res by (simp add: pj_stun_session_send_msg_def)
next
  case False
  obtain td where td: "ss_tdata sess i = Some td" "td_client_tsx td = None" using un by (auto simp: unsent_def)
  have put: "sess_inv (put_tdata i td' sess)" "unsent (put_tdata i td' sess) i"
    if "td_client_tsx td' = td_client_tsx td" "td_res_timer td' = td_res_timer td" for td'
    using unsent_put [OF inv un td(1)] that td(2) by simp_all
  have fail: "sess_inv s' \<and> only i sess s'" if "send_failed i st (put_tdata i td' sess) = Some (st', s')"
      "td_client_tsx td' = td_client_tsx td" "td_res_timer td' = td_res_timer td" for st td' st' s'
    using send_failed_inv [OF put(1) [OF that(2,3)], of i td' st] that(1) put(2) [OF that(2,3)] only_trans [OF only_simps(2)] by (auto simp: unsent_def)
  have req: "sess_inv s' \<and> only i sess s'" if "send_request env i re server (put_tdata i td' sess) = Some (st', s')"
      "td_client_tsx td' = td_client_tsx td" "td_res_timer td' = td_res_timer td" for td' st' s'
    using send_request_inv [OF put(1) [OF that(2,3)], of i td' env re server] that put(2) [OF that(2,3)] td(2) only_trans [OF only_simps(2)] by (auto simp: unsent_def)
  have oth: "sess_inv s' \<and> only i sess s'" if "send_other env i token cache server (put_tdata i td' sess) = Some (st', s')"
      "td_client_tsx td' = td_client_tsx td" "td_res_timer td' = td_res_timer td" for td' st' s'
    using send_other_inv [OF put(1,2) [OF that(2,3)], of env token cache server] that only_trans [OF only_simps(2)] by auto
  show ?thesis using res False td(1) unfolding pj_stun_session_send_msg_def Let_def
    by (auto split: Option.bind_splits if_splits sum.splits prod.splits elim!: fail req oth)
qed

subsection \<open>Creating\<close>

lemma sess_inv_cong:
  assumes "ss_pending_request_list sess' = ss_pending_request_list sess" "ss_cached_response_list sess' = ss_cached_response_list sess" "ss_tdata sess' = ss_tdata sess"
    "ss_next_tdata sess' = ss_next_tdata sess" "ss_dangling sess' = ss_dangling sess" "ss_out sess' = ss_out sess" "ss_is_destroying sess' = ss_is_destroying sess"
  shows "sess_inv sess' = sess_inv sess"
  unfolding sess_inv_def tdata_defs reported_def by (simp only: assms)

lemma sess_inv_settings [simp]:
  "sess_inv (sess\<lparr>ss_auth_retry := n\<rparr>) = sess_inv sess" "sess_inv (sess\<lparr>ss_next_nonce := b\<rparr>) = sess_inv sess" "sess_inv (sess\<lparr>ss_server_realm := b\<rparr>) = sess_inv sess"
  "sess_inv (sess\<lparr>ss_srv_name := b\<rparr>) = sess_inv sess" "sess_inv (sess\<lparr>ss_user_data := k\<rparr>) = sess_inv sess" "sess_inv (sess\<lparr>ss_log_flag := w\<rparr>) = sess_inv sess"
  "sess_inv (sess\<lparr>ss_use_fingerprint := f\<rparr>) = sess_inv sess" "sess_inv (sess\<lparr>ss_auth_type := ty, ss_cred := c\<rparr>) = sess_inv sess"
  by (rule sess_inv_cong, simp_all)+

lemma create_tdata_inv:
  assumes inv: "sess_inv sess" and td: "td_client_tsx td = None" "timer_idle (td_res_timer td)" and res: "create_tdata td sess = (i, sess')"
  shows "sess_inv sess'" "unsent sess' i" "only i sess sess'" "ss_tdata sess i = None"
proof -
  have i: "i = ss_next_tdata sess" "sess' = put_tdata i td (sess\<lparr>ss_next_tdata := Suc i\<rparr>)" using res by (auto simp: create_tdata_def)
  have new: "ss_tdata sess i = None" "reported sess i = 0" using inv i(1) by (simp_all add: sess_inv_def)
  then have nl: "i \<notin> set (ss_pending_request_list sess)" "i \<notin> set (ss_cached_response_list sess)" using inv unfolding sess_inv_def by blast+
  have r: "reported sess' j = reported sess j" for j using i by (simp add: reported_def put_tdata_def)
  have ok: "tdata_ok sess' j t = tdata_ok sess j t" for j t by (rule tdata_ok_cong) (simp_all add: i(2) reported_def put_tdata_def)
  have "tdata_ok sess' j t" if "ss_tdata sess' j = Some t" for j t
  proof (cases "j = i")
    case True
    then have "t = td" using that i(2) by simp
    then show ?thesis unfolding ok using True td new nl by (simp add: tdata_defs)
  next
    case False
    then have "ss_tdata sess j = Some t" using that i(2) by (simp add: put_tdata_def)
    then show ?thesis using inv ok by (simp add: sess_inv_def)
  qed
  then show "sess_inv sess'" using inv i r unfolding sess_inv_def by (auto simp: put_tdata_def)
  show "unsent sess' i" using nl i td by (simp add: unsent_def put_tdata_def)
  show "only i sess sess'" using i r by (simp add: only_def told_def put_tdata_def)
  show "ss_tdata sess i = None" by (fact new)
qed

lemma zero_tdata_simps [simp]: "td_client_tsx (zero_tdata m) = None" "timer_idle (td_res_timer (zero_tdata m))"
  by (simp_all add: zero_tdata_def timer_idle_def)

lemma create_req_tdata:
  "pj_stun_session_create_req env sess t m x = Inr (i, sess') \<Longrightarrow> \<exists>td. create_tdata td sess = (i, sess') \<and> td_client_tsx td = None \<and> timer_idle (td_res_timer td)"
  by (auto simp: pj_stun_session_create_req_def Let_def split: if_splits sum.splits intro!: exI elim: back_subst)

lemma create_ind_tdata:
  "pj_stun_session_create_ind env sess t = Inr (i, sess') \<Longrightarrow> \<exists>td. create_tdata td sess = (i, sess') \<and> td_client_tsx td = None \<and> timer_idle (td_res_timer td)"
  by (auto simp: pj_stun_session_create_ind_def Let_def split: if_splits sum.splits intro!: exI elim: back_subst)

lemma create_res_tdata:
  "pj_stun_session_create_res sess r c m = Some (Inr (i, sess')) \<Longrightarrow> \<exists>td. create_tdata td sess = (i, sess') \<and> td_client_tsx td = None \<and> timer_idle (td_res_timer td)"
  by (auto simp: pj_stun_session_create_res_def Let_def split: if_splits sum.splits Option.bind_splits intro!: exI elim: back_subst)

lemma created_inv:
  assumes "sess_inv sess" "\<exists>td. create_tdata td sess = (i, sess') \<and> td_client_tsx td = None \<and> timer_idle (td_res_timer td)"
  shows "sess_inv sess'" "unsent sess' i" "only i sess sess'" "ss_tdata sess i = None"
  using assms create_tdata_inv by blast+

lemmas create_req_inv = created_inv [OF _ create_req_tdata]
lemmas create_ind_inv = created_inv [OF _ create_ind_tdata]
lemmas create_res_inv = created_inv [OF _ create_res_tdata]

lemma respond_inv:
  assumes inv: "sess_inv sess" and res: "pj_stun_session_respond env sess r c m t ca dst = Some (st, sess')"
  shows "sess_inv sess'"
proof -
  consider "sess' = sess" | i s where "pj_stun_session_create_res sess r c m = Some (Inr (i, s))" "pj_stun_session_send_msg env s t ca False dst i = Some (st, sess')"
    using res by (auto simp: pj_stun_session_respond_def split: if_splits sum.splits Option.bind_splits)
  then show ?thesis
  proof cases
    case 2
    then show ?thesis using send_msg_inv [OF create_res_inv(1,2) [OF inv 2(1)] 2(2)] by blast
  qed (use inv in simp)
qed

subsection \<open>Completion\<close>

text \<open>The object \<open>i\<close> and what was reported of it stay as they are.\<close>

definition keeps :: "nat \<Rightarrow> pj_stun_session \<Rightarrow> pj_stun_session \<Rightarrow> bool" where
  "keeps i sess sess' \<longleftrightarrow> ss_tdata sess' i = ss_tdata sess i \<and> reported sess' i = reported sess i \<and> told sess' = told sess \<and> ss_is_destroying sess' = ss_is_destroying sess"

lemma only_keeps: "only j sess sess' \<Longrightarrow> j \<noteq> i \<Longrightarrow> keeps i sess sess'"
  by (simp add: only_def keeps_def)

lemma keeps_trans: "keeps i a b \<Longrightarrow> keeps i b c \<Longrightarrow> keeps i a c"
  by (simp add: keeps_def)

lemma retry_request_inv:
  assumes inv: "sess_inv sess" and i: "ss_tdata sess i = Some td" and res: "retry_request env req src sess = Some (n, sess')"
  shows "sess_inv sess' \<and> keeps i sess sess'"
proof -
  consider "sess' = sess" | j s tj m st where "pj_stun_session_create_req env sess (mh_type (msg_hdr (td_msg req))) (mh_magic (msg_hdr (td_msg req))) None = Inr (j, s)"
      "ss_tdata s j = Some tj" "pj_stun_session_send_msg env (put_tdata j (tj\<lparr>td_msg := m\<rparr>) s) (td_token req) True (td_retransmit req) src j = Some (st, sess')"
    using res by (auto simp: retry_request_def Let_def split: sum.splits Option.bind_splits prod.splits)
  then show ?thesis
  proof cases
    case 2
    note c = create_req_inv [OF inv 2(1)]
    have "j \<noteq> i" using c(4) i by auto
    have t: "td_client_tsx (tj\<lparr>td_msg := m\<rparr>) = None" "td_res_timer (tj\<lparr>td_msg := m\<rparr>) = td_res_timer tj" using c(2) 2(2) by (auto simp: unsent_def)
    note p = unsent_put [OF c(1,2) 2(2) t]
    have "sess_inv sess' \<and> only j (put_tdata j (tj\<lparr>td_msg := m\<rparr>) s) sess'" by (rule send_msg_inv [OF p 2(3)])
    then have "sess_inv sess' \<and> only j sess sess'" using only_trans [OF only_trans [OF c(3) only_simps(2)]] by blast
    then show ?thesis using only_keeps [OF _ \<open>j \<noteq> i\<close>] by blast
  qed (use inv in \<open>simp add: keeps_def\<close>)
qed

lemma challenge_cases:
  assumes "handle_auth_challenge env req response src sess = Some (n, sess')"
  obtains r where "sess' = sess\<lparr>ss_auth_retry := r\<rparr>"
  | r nonce realm where "retry_request env req src (sess\<lparr>ss_auth_retry := r, ss_next_nonce := nonce, ss_server_realm := realm\<rparr>) = Some (n, sess')"
proof -
  define R where "R \<longleftrightarrow> (\<exists>r nonce realm. retry_request env req src (sess\<lparr>ss_auth_retry := r, ss_next_nonce := nonce, ss_server_realm := realm\<rparr>) = Some (n, sess'))"
  define Q where "Q \<longleftrightarrow> (\<exists>r. sess' = sess\<lparr>ss_auth_retry := r\<rparr>)"
  have retry: R if "retry_request env req src (sess\<lparr>ss_auth_retry := k, ss_next_nonce := nonce, ss_server_realm := r\<rparr>) = Some (n, sess')" for k nonce r
    unfolding R_def using that by blast
  have retry': R if "retry_request env req src (sess\<lparr>ss_auth_retry := k, ss_next_nonce := nonce\<rparr>) = Some (n, sess')" for k nonce
    by (rule retry [where k = k and nonce = nonce and r = "ss_server_realm sess"]) (simp add: that)
  have same: Q if "sess = sess'" unfolding Q_def by (rule exI [of _ "ss_auth_retry sess"]) (simp add: that)
  have upd: Q if "sess' = sess\<lparr>ss_auth_retry := r\<rparr>" for r unfolding Q_def using that by blast
  have "Q \<or> R" using assms unfolding handle_auth_challenge_def Let_def
    by (auto split: option.splits if_splits attr_body.splits Option.bind_splits dest: same upd retry retry')
  then show ?thesis using that unfolding Q_def R_def by blast
qed

lemma challenge_inv:
  assumes inv: "sess_inv sess" and i: "ss_tdata sess i = Some td" and res: "handle_auth_challenge env req response src sess = Some (n, sess')"
  shows "sess_inv sess' \<and> keeps i sess sess'"
  using res
proof (cases rule: challenge_cases)
  case (1 r)
  then show ?thesis using inv by (simp add: keeps_def reported_def told_def)
next
  case (2 r nonce realm)
  then show ?thesis using retry_request_inv [OF _ _ 2] inv i by (simp add: keeps_def reported_def told_def)
qed

lemma on_complete_inv:
  assumes inv: "sess_inv sess" and td: "ss_tdata sess i = Some td" "td_client_tsx td = Some tsx" "\<not> will_report tsx" and rep: "reported sess i = 0"
    and res: "stun_tsx_on_complete env i st m src sess = Some sess'"
  shows "sess_inv sess' \<and> (told sess' = told sess \<or> told sess' = told sess @ [Sess_request_complete st (td_token td) i m])"
proof (cases "ss_is_destroying sess")
  case True
  have "i \<notin> set (ss_cached_response_list sess)" using sess_inv_ok [OF inv td(1)] td(2) by (simp add: tdata_defs)
  then show ?thesis using destroy_tdata_inv [OF inv td(1), of False] res td(1) True by (auto simp: stun_tsx_on_complete_def pj_stun_msg_destroy_tdata_def achieves_def only_def)
next
  case False
  obtain n s where h: "handle_auth_challenge env td m src sess = Some (n, s)"
    and d: "destroy_tdata i (st = PJNATH_ESTUNTIMEDOUT) (if n \<and> cb_on_request_complete s then sess_emit (Sess_request_complete st (td_token td) i m) s else s) = Some sess'"
    using res td(1) False by (auto simp: stun_tsx_on_complete_def Let_def split: Option.bind_splits prod.splits)
  define s1 where "s1 = (if n \<and> cb_on_request_complete s then sess_emit (Sess_request_complete st (td_token td) i m) s else s)"
  have s: "sess_inv s" "ss_tdata s i = Some td" "reported s i = 0" "told s = told sess" using challenge_inv [OF inv td(1) h] td(1) rep by (auto simp: keeps_def)
  note ok = sess_inv_ok [OF s(1,2)]
  have "sess_inv s1" by (rule sess_inv_close [of i]) (use s ok td(2,3) sess_inv_open [OF s(1,2)] in \<open>auto simp: s1_def tdata_defs\<close>)
  moreover have "ss_tdata s1 i = Some td" "i \<notin> set (ss_cached_response_list s1)" using s(2) ok td(2) by (auto simp: s1_def tdata_defs)
  ultimately have "achieves i s1 (destroy_tdata i (st = PJNATH_ESTUNTIMEDOUT) s1)" using destroy_tdata_inv by blast
  then have "sess_inv sess'" "told sess' = told s1" using d [folded s1_def] by (simp_all add: achieves_def only_def)
  then show ?thesis using s(4) by (simp add: s1_def told_def)
qed

lemma tsx_reported_eq:
  "tsx_reported env i acts src sess = (case completes acts of [] \<Rightarrow> Some sess | (st, m) # _ \<Rightarrow> stun_tsx_on_complete env i st m src sess)"
  by (simp only: tsx_reported_def completes_def)

lemma tsx_reported_inv:
  assumes inv: "sess_inv sess" and td: "ss_tdata sess i = Some td" "td_client_tsx td = Some tsx'"
    and rep: "completes acts = [] \<or> (\<exists>x. completes acts = [x]) \<and> reported sess i = 0 \<and> \<not> will_report tsx'"
    and res: "tsx_reported env i acts src sess = Some sess'"
  shows "sess_inv sess' \<and> (told sess' = told sess \<or> (\<exists>st m. completes acts = [(st, m)] \<and> told sess' = told sess @ [Sess_request_complete st (td_token td) i m]))"
  using rep
proof
  assume "completes acts = []"
  then show ?thesis using res inv by (simp add: tsx_reported_eq)
next
  assume a: "(\<exists>x. completes acts = [x]) \<and> reported sess i = 0 \<and> \<not> will_report tsx'"
  then obtain st m where c: "completes acts = [(st, m)]" by fastforce
  then have "stun_tsx_on_complete env i st m src sess = Some sess'" using res by (simp add: tsx_reported_eq)
  then show ?thesis using on_complete_inv [OF inv td] a c by blast
qed

text \<open>A transaction that did something on its own.\<close>

lemma put_tsx_inv:
  assumes inv: "sess_inv sess" and td: "ss_tdata sess i = Some td" "td_client_tsx td = Some tsx" and rep: "reports (tsx\<lparr>ts_out := []\<rparr>) tsx'"
  shows "sess_inv (put_tdata i (td\<lparr>td_client_tsx := Some (tsx'\<lparr>ts_out := []\<rparr>)\<rparr>) sess)" (is "sess_inv ?s")
    and "completes (ts_out tsx') = [] \<or> (\<exists>x. completes (ts_out tsx') = [x]) \<and> reported sess i = 0 \<and> \<not> will_report (tsx'\<lparr>ts_out := []\<rparr>)"
proof -
  note ok = sess_inv_ok [OF inv td(1)]
  have r: "reported sess i \<le> (if will_report (tsx'\<lparr>ts_out := []\<rparr>) then 0 else 1)"
    using ok td(2) rep by (auto simp: tdata_defs tsx_frame_defs split: if_splits)
  show "sess_inv ?s" by (rule sess_inv_close [of i])
      (use ok td rep r sess_inv_open [OF inv td(1)] in \<open>simp_all add: tdata_defs same_owner_def reports_def\<close>)
  show "completes (ts_out tsx') = [] \<or> (\<exists>x. completes (ts_out tsx') = [x]) \<and> reported sess i = 0 \<and> \<not> will_report (tsx'\<lparr>ts_out := []\<rparr>)"
    using ok td(2) rep by (auto simp: tdata_defs tsx_frame_defs)
qed

subsection \<open>Receiving\<close>

lemma encode_type:
  assumes "pj_stun_msg_encode pad stk msg buf opt key = Some (Inr (pkt, msg', n))"
  shows "mh_type (msg_hdr msg') = mh_type (msg_hdr msg)"
proof -
  have tr: "mh_type (msg_hdr m) = mh_type (msg_hdr msg)" if "encode_trailer stk key msg a f b pos sz = Some (Inr (pkt, m, n))" for a f b pos sz m
    using that unfolding encode_trailer_def Let_def by (auto split: Option.bind_splits sum.splits simp: map_sum_def)
  show ?thesis using assms tr unfolding pj_stun_msg_encode_def Let_def by (auto split: Option.bind_splits sum.splits if_splits)
qed

lemma send_response_cases:
  assumes "send_response env sess token r info re addr = Some (st, r', sess')"
  obtains "sess' = sess" | pkt where "sess' = sess_emit (Sess_send_msg token pkt addr) sess"
  using assms unfolding send_response_def by (auto split: Option.bind_splits sum.splits if_splits prod.splits)

lemma send_response_inv:
  assumes "sess_inv sess" "send_response env sess token r info re addr = Some (st, r', sess')"
  shows "sess_inv sess'" "ss_tdata sess' = ss_tdata sess" "ss_cached_response_list sess' = ss_cached_response_list sess"
  using assms(2) by (cases rule: send_response_cases; use assms(1) emit_inv in force)+

lemma send_response_again:
  assumes "send_response env sess token r info True addr = Some (st, r', sess')"
  shows "mh_type (msg_hdr r') = mh_type (msg_hdr r)"
  using assms unfolding send_response_def by (auto split: Option.bind_splits sum.splits if_splits dest: encode_type)

lemma cached_lookup_in: "cached_lookup store msg is = Some (Some i) \<Longrightarrow> i \<in> set is"
  by (induction "is") (auto split: Option.bind_splits if_splits)

lemma check_cached_inv:
  assumes inv: "sess_inv sess" and res: "check_cached_response env sess msg src = Some (st, sess')"
  shows "sess_inv sess'"
proof -
  consider "sess' = sess" | i t a m s where "cached_lookup (ss_tdata sess) msg (ss_cached_response_list sess) = Some (Some i)" "ss_tdata sess i = Some t"
      "send_response env sess (td_token t) (td_msg t) (Some (td_auth_info t)) True src = Some (a, m, s)" "sess' = put_tdata i (t\<lparr>td_msg := m\<rparr>) s"
    using res unfolding check_cached_response_def by (auto split: Option.bind_splits option.splits prod.splits)
  then show ?thesis
  proof cases
    case 2
    note s = send_response_inv [OF inv 2(3)]
    have c: "i \<in> set (ss_cached_response_list s)" using cached_lookup_in [OF 2(1)] s(3) by simp
    have t: "ss_tdata s i = Some t" using 2(2) s(2) by simp
    note ok = sess_inv_ok [OF s(1) t]
    show ?thesis unfolding 2(4) by (rule sess_inv_close [of i])
        (use ok c sess_inv_open [OF s(1) t] send_response_again [OF 2(3)] in \<open>auto simp: tdata_defs split: option.splits\<close>)
  qed (use inv in simp)
qed

lemma tsx_lookup_in: "tsx_lookup_from store msg is = Some (Some i) \<Longrightarrow> i \<in> set is"
  by (induction "is") (auto split: Option.bind_splits if_splits)

lemma on_rx_msg_completes:
  "pj_stun_client_tsx_on_rx_msg (tsx\<lparr>ts_out := []\<rparr>) msg = Some (a, tsx') \<Longrightarrow> completes (ts_out tsx') = [(st, m)] \<Longrightarrow> m = Some msg"
  by (auto simp: pj_stun_client_tsx_on_rx_msg_def tsx_complete_def tsx_emit_def Let_def split: if_splits option.splits attr_body.splits)

text \<open>A response changes what was reported only if it matches a pending request and, where that is asked for, carries its digest.\<close>

lemma incoming_response_told:
  assumes inv: "sess_inv sess" and res: "on_incoming_response env sess options pkt msg src = Some (st, sess')"
  shows "sess_inv sess' \<and> (told sess' = told sess \<or> (\<exists>i td cst. tsx_lookup sess msg = Some (Some i) \<and> ss_tdata sess i = Some td \<and>
    (authenticates sess options \<and> ci_auth_key (td_auth_info td) \<noteq> [] \<and> pj_stun_auth_valid_for_msg msg = Some True \<longrightarrow>
      pj_stun_authenticate_response (ev_stk env) pkt msg (ci_auth_key (td_auth_info td)) = Some PJ_SUCCESS) \<and>
    told sess' = told sess @ [Sess_request_complete cst (td_token td) i (Some msg)]))"
proof -
  consider "sess' = sess" | i td tsx a tsx' where "ss_tdata sess i = Some td" "td_client_tsx td = Some tsx" "pj_stun_client_tsx_on_rx_msg (tsx\<lparr>ts_out := []\<rparr>) msg = Some (a, tsx')"
      "tsx_reported env i (ts_out tsx') src (put_tdata i (td\<lparr>td_client_tsx := Some (tsx'\<lparr>ts_out := []\<rparr>)\<rparr>) sess) = Some sess'" "tsx_lookup sess msg = Some (Some i)"
      "authenticates sess options \<and> ci_auth_key (td_auth_info td) \<noteq> [] \<and> pj_stun_auth_valid_for_msg msg = Some True \<longrightarrow>
        pj_stun_authenticate_response (ev_stk env) pkt msg (ci_auth_key (td_auth_info td)) = Some PJ_SUCCESS"
    using res unfolding on_incoming_response_def by (auto split: Option.bind_splits option.splits if_splits prod.splits)
  then show ?thesis
  proof cases
    case 2
    note p = put_tsx_inv [OF inv 2(1,2) on_rx_msg_reports [OF 2(3)]]
    let ?td = "td\<lparr>td_client_tsx := Some (tsx'\<lparr>ts_out := []\<rparr>)\<rparr>"
    have t: "told (put_tdata i ?td sess) = told sess" by (simp add: told_def)
    have "sess_inv sess' \<and> (told sess' = told (put_tdata i ?td sess) \<or>
        (\<exists>st m. completes (ts_out tsx') = [(st, m)] \<and> told sess' = told (put_tdata i ?td sess) @ [Sess_request_complete st (td_token ?td) i m]))"
      by (rule tsx_reported_inv [OF p(1) _ _ _ 2(4)]) (use p(2) in simp_all)
    then show ?thesis unfolding t using 2(1,5,6) on_rx_msg_completes [OF 2(3)] by auto
  qed (use inv in simp)
qed

lemmas incoming_response_inv = incoming_response_told [THEN conjunct1]

lemma authenticate_req_inv:
  assumes "sess_inv sess" "authenticate_req env sess token pkt rdata src = Some (st, rdata', sess')"
  shows "sess_inv sess'"
  using assms send_response_inv(1) unfolding authenticate_req_def Let_def
  by (auto split: Option.bind_splits option.splits if_splits prod.splits)

lemma incoming_request_inv:
  assumes inv: "sess_inv sess" and res: "on_incoming_request env sess options token pkt msg src = Some (st, sess')"
  shows "sess_inv sess'"
proof -
  obtain a rd s where a: "(if authenticates sess options then authenticate_req env sess token pkt \<lparr>rd_msg = msg, rd_info = no_info\<rparr> src else Some (PJ_SUCCESS, \<lparr>rd_msg = msg, rd_info = no_info\<rparr>, sess)) = Some (a, rd, s)"
    using res unfolding on_incoming_request_def Let_def by (auto split: Option.bind_splits prod.splits)
  have s: "sess_inv s" using a inv authenticate_req_inv [of sess env token pkt _ src a rd s] by (auto split: if_splits)
  have "sess' = s \<or> sess' = sess_emit (Sess_rx_request pkt rd token src) s \<or> (\<exists>b r r' info. send_response env s token r info False src = Some (b, r', sess'))"
    using res a unfolding on_incoming_request_def Let_def by (auto split: Option.bind_splits sum.splits if_splits prod.splits)
  then show ?thesis using s emit_inv send_response_inv(1) by blast
qed

lemma rx_pkt_inv:
  assumes inv: "sess_inv sess" and res: "pj_stun_session_on_rx_pkt env sess pkt options token src = Some (st, n, sess')"
  shows "sess_inv sess'"
proof -
  consider "sess' = sess" | r r' b where "send_response env sess token r None False src = Some (b, r', sess')"
    | msg b s where "check_cached_response env sess msg src = Some (b, s)" "sess' = s \<or> (\<exists>c. handle_msg env s options token pkt msg src = Some (c, sess'))"
    using res unfolding pj_stun_session_on_rx_pkt_def by (auto split: Option.bind_splits sum.splits if_splits prod.splits option.splits)
  then show ?thesis
  proof cases
    case (3 msg b s)
    have s: "sess_inv s" by (rule check_cached_inv [OF inv 3(1)])
    have "sess_inv sess'" if "handle_msg env s options token pkt msg src = Some (c, sess')" for c
      using that s emit_inv [OF s] unfolding handle_msg_def Let_def on_incoming_indication_def
      by (auto split: if_splits dest: incoming_response_inv [OF s] incoming_request_inv [OF s])
    then show ?thesis using 3(2) s by blast
  qed (use inv send_response_inv(1) [OF inv] in blast)+
qed

subsection \<open>Timers and the other entry points\<close>

lemma retransmit_timer_inv:
  assumes inv: "sess_inv sess" and res: "on_retransmit_timer env i sess = Some sess'"
  shows "sess_inv sess'"
proof -
  let ?f = "\<lambda>st tsx. (PJ_SUCCESS, retransmit_timer_callback st (tsx\<lparr>retransmit_timer := timer_expired (retransmit_timer tsx)\<rparr>))"
  obtain td tsx where td: "ss_tdata sess i = Some td" "td_client_tsx td = Some tsx"
    using res by (auto simp: on_retransmit_timer_def tsx_call_def split: Option.bind_splits)
  let ?t = "tsx\<lparr>ts_out := []\<rparr>"
  define tsx' where "tsx' = retransmit_timer_callback (stun_tsx_on_send_msg env sess) (?t\<lparr>retransmit_timer := timer_expired (retransmit_timer ?t)\<rparr>)"
  have q: "reports ?t tsx'" unfolding tsx'_def by (rule quiet_reports [OF _ retransmit_timer_reports]) (simp add: tsx_frame_defs)
  obtain s where s: "tsx_call env i ?f sess = Some (PJ_SUCCESS, ts_out tsx', s)" "sess_inv s" "only i sess s"
      "ss_tdata s i = Some (td\<lparr>td_client_tsx := Some (tsx'\<lparr>ts_out := []\<rparr>)\<rparr>)"
    using tsx_call_inv [OF inv td, of ?f env PJ_SUCCESS tsx'] q by (auto simp: tsx'_def)
  have "tsx_reported env i (ts_out tsx') no_addr s = Some sess'" using res s(1) by (simp add: on_retransmit_timer_def)
  moreover have "completes (ts_out tsx') = [] \<or> (\<exists>x. completes (ts_out tsx') = [x]) \<and> reported s i = 0 \<and> \<not> will_report (tsx'\<lparr>ts_out := []\<rparr>)"
    using put_tsx_inv(2) [OF inv td q] s(3) by (simp add: only_def)
  ultimately show ?thesis using tsx_reported_inv [OF s(2,4), of "tsx'\<lparr>ts_out := []\<rparr>"] by auto
qed

lemma destroy_timer_inv:
  assumes inv: "sess_inv sess" and res: "on_destroy_timer i sess = Some sess'"
  shows "sess_inv sess'"
proof -
  obtain td tsx tsx' where td: "ss_tdata sess i = Some td" "td_client_tsx td = Some tsx"
    and t: "destroy_timer_callback (tsx\<lparr>destroy_timer := timer_expired (destroy_timer tsx)\<rparr>) = Some tsx'"
    and d: "stun_tsx_on_destroy i (put_tdata i (td\<lparr>td_client_tsx := Some (tsx'\<lparr>ts_out := []\<rparr>)\<rparr>) sess) = Some sess'"
    using res by (auto simp: on_destroy_timer_def split: Option.bind_splits)
  let ?t = "td\<lparr>td_client_tsx := Some (tsx'\<lparr>ts_out := []\<rparr>)\<rparr>"
  have "user_data tsx' = user_data tsx \<and> has_on_destroy tsx' = has_on_destroy tsx \<and> will_report tsx' = will_report tsx"
    using t by (auto simp: destroy_timer_callback_def Let_def tsx_emit_def will_report_def split: if_splits)
  then have "sess_inv (put_tdata i ?t sess)"
    by (intro sess_inv_close [of i]) (use sess_inv_ok [OF inv td(1)] td(2) sess_inv_open [OF inv td(1)] in \<open>auto simp: tdata_defs will_report_def\<close>)
  then show ?thesis using on_destroy_inv [of "put_tdata i ?t sess" i ?t] d by (auto simp: achieves_def)
qed

lemma res_timer_inv:
  assumes inv: "sess_inv sess" and td: "ss_tdata sess i = Some td" "tm_delay (td_res_timer td) \<noteq> None"
  shows "\<exists>sess'. on_res_timer i sess = Some sess' \<and> sess_inv sess'"
proof -
  note ok = sess_inv_ok [OF inv td(1)] and ex = sess_inv_open [OF inv td(1)]
  have c: "td_client_tsx td = None" "i \<in> set (ss_cached_response_list sess)" "STUN_IS_RESPONSE (mh_type (msg_hdr (td_msg td)))"
    using ok td(2) by (auto simp: tdata_defs timer_idle_def split: option.splits if_splits)
  define t where "t = td\<lparr>td_res_timer := (td_res_timer td)\<lparr>tm_delay := None, tm_id := False\<rparr>\<rparr>"
  have idle: "timer_idle (td_res_timer t)" "td_client_tsx t = None" using c by (simp_all add: t_def timer_idle_def)
  define s0 where "s0 = put_tdata i (td\<lparr>td_res_timer := (td_res_timer td)\<lparr>tm_delay := None\<rparr>\<rparr>) sess"
  define s where "s = put_tdata i t s0"
  have s: "inv_except i s" "ss_tdata s i = Some t" "reported s i = 0" using ex ok c(1) by (simp_all add: s_def s0_def tdata_ok_def)
  have eq: "on_res_timer i sess = (if ss_is_destroying sess then Some s else destroy_tdata i False (list_erase i s))"
    using td(1) by (simp add: on_res_timer_def on_cache_timeout_def Let_def s_def s0_def t_def)
  show ?thesis
  proof (cases "ss_is_destroying sess")
    case True
    have "sess_inv s" by (rule sess_inv_close [OF s(1)]) (use s ok c idle True in \<open>simp_all add: tdata_defs s_def s0_def timer_idle_def t_def\<close>)
    then show ?thesis using eq True by simp
  next
    case False
    have "sess_inv (list_erase i s)" by (rule sess_inv_close [of i]) (use s ok c idle in \<open>simp_all add: tdata_defs s_def s0_def\<close>)
    then show ?thesis using destroy_tdata_inv [of "list_erase i s" i t False] s(2) eq False by (auto simp: achieves_def)
  qed
qed

lemma cancel_req_inv:
  assumes inv: "sess_inv sess" and td: "ss_tdata sess i = Some td" "td_client_tsx td = Some tsx" "will_report tsx"
    and res: "pj_stun_session_cancel_req sess i notify nst = Some (st, sess')"
  shows "sess_inv sess'"
proof -
  note ok = sess_inv_ok [OF inv td(1)]
  have "achieves i s (destroy_tdata i False s)" if "s = (if notify then sess_emit (Sess_request_complete nst (td_token td) i None) sess else sess)" for s
    by (rule destroy_tdata_shape [where td = td]) (use that ok td sess_inv_open [OF inv td(1)] in \<open>auto simp: tdata_defs\<close>)
  then show ?thesis using res inv td(1) unfolding pj_stun_session_cancel_req_def pj_stun_msg_destroy_tdata_def Let_def achieves_def
    by (auto split: if_splits Option.bind_splits)
qed

lemma retransmit_req_inv:
  assumes inv: "sess_inv sess" and res: "pj_stun_session_retransmit_req env sess i mc = Some (st, sess')"
  shows "sess_inv sess'"
proof -
  let ?f = "\<lambda>st tsx. pj_stun_client_tsx_retransmit st tsx mc"
  consider "sess' = sess" | acts where "tsx_call env i ?f sess = Some (st, acts, sess')"
    using res by (auto simp: pj_stun_session_retransmit_req_def split: if_splits Option.bind_splits)
  then show ?thesis
  proof cases
    case 2
    obtain td tsx where td: "ss_tdata sess i = Some td" "td_client_tsx td = Some tsx" using 2 by (auto simp: tsx_call_def split: Option.bind_splits)
    obtain r t where f: "pj_stun_client_tsx_retransmit (stun_tsx_on_send_msg env sess) (tsx\<lparr>ts_out := []\<rparr>) mc = (r, t)" by fastforce
    have "reports (tsx\<lparr>ts_out := []\<rparr>) t" using retransmit_quiet [OF f] by (auto simp: tsx_frame_defs)
    then show ?thesis using tsx_call_inv [OF inv td, of ?f env r t] f 2 by auto
  qed (use inv in simp)
qed

subsection \<open>Destruction of the session\<close>

lemma destroying_inv:
  assumes "sess_inv sess"
  shows "sess_inv (sess\<lparr>ss_is_destroying := True\<rparr>)"
proof -
  have "tdata_ok (sess\<lparr>ss_is_destroying := True\<rparr>) j td" if "tdata_ok sess j td" for j td
    using that by (auto simp: tdata_defs reported_def split: option.splits if_splits)
  then show ?thesis using assms unfolding sess_inv_def by (simp add: reported_def)
qed

lemma stop_all_inv:
  assumes "sess_inv sess" "\<forall>i \<in> set is. ss_tdata sess i \<noteq> None"
  shows "\<exists>sess'. stop_all is sess = Some sess' \<and> sess_inv sess' \<and> ss_is_destroying sess' = ss_is_destroying sess \<and>
    ss_cached_response_list sess' = ss_cached_response_list sess"
  using assms
proof (induction "is" arbitrary: sess)
  case (Cons i "is")
  then obtain td where td: "ss_tdata sess i = Some td" by auto
  define s where "s = (case td_client_tsx td of Some tsx \<Rightarrow> put_tdata i (td\<lparr>td_client_tsx := Some (snd (pj_stun_client_tsx_stop tsx))\<rparr>) sess | None \<Rightarrow> sess)"
  have "sess_inv s"
  proof (cases "td_client_tsx td")
    case (Some tsx)
    then show ?thesis unfolding s_def option.case
      by (intro sess_inv_close [of i]) (use sess_inv_ok [OF Cons.prems(1) td] sess_inv_open [OF Cons.prems(1) td] in \<open>simp_all add: tdata_defs\<close>)
  qed (use Cons.prems(1) in \<open>simp add: s_def\<close>)
  moreover have "\<forall>j \<in> set is. ss_tdata s j \<noteq> None" using Cons.prems(2) by (auto simp: s_def split: option.splits)
  ultimately obtain s' where "stop_all is s = Some s'" "sess_inv s'" "ss_is_destroying s' = ss_is_destroying s" "ss_cached_response_list s' = ss_cached_response_list s"
    using Cons.IH [of s] by auto
  then show ?case using td by (auto simp: s_def split: option.splits)
qed simp

lemma cancel_all_inv:
  assumes "sess_inv sess" "ss_is_destroying sess" "set is \<subseteq> set (ss_cached_response_list sess)"
  shows "\<exists>sess'. cancel_all is sess = Some sess' \<and> sess_inv sess'"
  using assms
proof (induction "is" arbitrary: sess)
  case (Cons i "is")
  then have "ss_tdata sess i \<noteq> None" unfolding sess_inv_def by auto
  then obtain td where td: "ss_tdata sess i = Some td" by auto
  define s where "s = put_tdata i (td\<lparr>td_res_timer := slot_cancel_if_active (td_res_timer td) False\<rparr>) sess"
  have "sess_inv s" unfolding s_def
    by (rule sess_inv_close [of i]) (use Cons.prems sess_inv_ok [OF Cons.prems(1) td] sess_inv_open [OF Cons.prems(1) td] in \<open>auto simp: tdata_defs split: option.splits\<close>)
  then have "\<exists>s'. cancel_all is s = Some s' \<and> sess_inv s'" using Cons.IH [of s] Cons.prems by (simp add: s_def)
  then show ?case using td by (simp add: s_def)
qed simp

lemma sess_destroy_inv:
  assumes inv: "sess_inv sess"
  shows "\<exists>st sess'. pj_stun_session_destroy sess = Some (st, sess') \<and> sess_inv sess'"
proof (cases "ss_is_destroying sess")
  case False
  define s where "s = sess\<lparr>ss_is_destroying := True\<rparr>"
  have s: "sess_inv s" unfolding s_def by (rule destroying_inv [OF inv])
  moreover have "\<forall>i \<in> set (ss_pending_request_list s). ss_tdata s i \<noteq> None" using s by (simp add: sess_inv_def)
  ultimately obtain s1 where s1: "stop_all (ss_pending_request_list s) s = Some s1" "sess_inv s1" "ss_is_destroying s1 = ss_is_destroying s"
      "ss_cached_response_list s1 = ss_cached_response_list s"
    using stop_all_inv by blast
  then obtain s2 where "cancel_all (ss_cached_response_list s1) s1 = Some s2" "sess_inv s2" using cancel_all_inv [OF s1(2)] by (auto simp: s_def)
  then show ?thesis using False s1(1) by (simp add: pj_stun_session_destroy_def Let_def s_def)
qed (use inv in \<open>simp add: pj_stun_session_destroy_def\<close>)

lemma force_lists:
  assumes "destroy_tdata i True sess = Some sess'"
  shows "ss_pending_request_list sess' = filter (\<lambda>j. j \<noteq> i) (ss_pending_request_list sess)"
    "ss_cached_response_list sess' = filter (\<lambda>j. j \<noteq> i) (ss_cached_response_list sess)"
  using assms by (auto simp: destroy_tdata_def pool_release_def list_erase_def put_tdata_def Let_def split: Option.bind_splits if_splits)

lemma destroy_all_inv:
  assumes "sess_inv sess" "distinct is" "\<forall>i \<in> set is. ss_tdata sess i \<noteq> None"
  shows "\<exists>sess'. destroy_all is sess = Some sess' \<and> sess_inv sess' \<and> ss_pending_request_list sess' = filter (\<lambda>j. j \<notin> set is) (ss_pending_request_list sess) \<and>
    ss_cached_response_list sess' = filter (\<lambda>j. j \<notin> set is) (ss_cached_response_list sess)"
  using assms
proof (induction "is" arbitrary: sess)
  case (Cons i "is")
  then obtain td where td: "ss_tdata sess i = Some td" by auto
  obtain s where s: "destroy_tdata i True sess = Some s" "sess_inv s" "only i sess s"
    using destroy_tdata_inv [OF Cons.prems(1) td, of True] by (auto simp: achieves_def)
  have "\<forall>j \<in> set is. ss_tdata s j \<noteq> None" using Cons.prems s(3) by (auto simp: only_def)
  then show ?case using Cons.IH [OF s(2)] Cons.prems(2) s(1) force_lists [OF s(1)] by (auto simp: conj_commute)
qed simp

lemma on_sess_destroy_inv:
  assumes inv: "sess_inv sess"
  shows "\<exists>sess'. stun_sess_on_destroy sess = Some sess' \<and> sess_inv sess' \<and> ss_pending_request_list sess' = [] \<and> ss_cached_response_list sess' = []"
proof -
  have l: "distinct (ss_pending_request_list sess)" "\<forall>i \<in> set (ss_pending_request_list sess). ss_tdata sess i \<noteq> None" using inv by (simp_all add: sess_inv_def)
  then obtain s where s: "destroy_all (ss_pending_request_list sess) sess = Some s" "sess_inv s" "ss_pending_request_list s = []"
    using destroy_all_inv [OF inv l] by auto
  have l: "distinct (ss_cached_response_list s)" "\<forall>i \<in> set (ss_cached_response_list s). ss_tdata s i \<noteq> None" using s(2) by (simp_all add: sess_inv_def)
  then show ?thesis using destroy_all_inv [OF s(2) l] s by (auto simp: stun_sess_on_destroy_def)
qed

end
