(* ===== verification/StunTokens.thy ===== *)
theory StunTokens
  imports StunSessionInv
begin

text \<open>
  What the STUN session does with the tokens of its users: a request keeps its message type and its token from the moment it is sent until it is reported, the repetition of a
  challenged request has those of the request it repeats, and what is reported is the token of a request that was sent. A user can therefore keep in the token a pointer that
  goes with the message type.
\<close>

subsection \<open>A condition on the requests that were sent\<close>

definition td_type :: "pj_stun_tx_data \<Rightarrow> 16 word" where
  "td_type td = mh_type (msg_hdr (td_msg td))"

definition sent_ok :: "(16 word \<Rightarrow> nat \<Rightarrow> bool) \<Rightarrow> pj_stun_tx_data \<Rightarrow> bool" where
  "sent_ok R td \<longleftrightarrow> (td_client_tsx td \<noteq> None \<longrightarrow> R (td_type td) (td_token td))"

definition all_sent :: "(16 word \<Rightarrow> nat \<Rightarrow> bool) \<Rightarrow> pj_stun_session \<Rightarrow> bool" where
  "all_sent R sess \<longleftrightarrow> (\<forall>i td. ss_tdata sess i = Some td \<longrightarrow> sent_ok R td)"

lemma all_sentD: "all_sent R sess \<Longrightarrow> ss_tdata sess i = Some td \<Longrightarrow> sent_ok R td"
  by (simp add: all_sent_def)

lemma all_sent_cong: "ss_tdata sess' = ss_tdata sess \<Longrightarrow> all_sent R sess' = all_sent R sess"
  by (simp add: all_sent_def)

lemma all_sent_mono: "all_sent R sess \<Longrightarrow> (\<And>t k. R t k \<Longrightarrow> R' t k) \<Longrightarrow> all_sent R' sess"
  unfolding all_sent_def sent_ok_def by blast

lemma all_sent_put: "all_sent R sess \<Longrightarrow> sent_ok R td \<Longrightarrow> all_sent R (put_tdata i td sess)"
  by (simp add: all_sent_def)

lemma all_sent_fields [simp]:
  "all_sent R (list_erase i sess) = all_sent R sess" "all_sent R (tsx_add i sess) = all_sent R sess" "all_sent R (tsx_erase i sess) = all_sent R sess"
  "all_sent R (sess_emit a sess) = all_sent R sess" "all_sent R (sess\<lparr>ss_out := acts\<rparr>) = all_sent R sess" "all_sent R (sess\<lparr>ss_auth_retry := n\<rparr>) = all_sent R sess"
  "all_sent R (sess\<lparr>ss_next_nonce := b\<rparr>) = all_sent R sess" "all_sent R (sess\<lparr>ss_server_realm := b\<rparr>) = all_sent R sess" "all_sent R (sess\<lparr>ss_is_destroying := d\<rparr>) = all_sent R sess"
  "all_sent R (sess\<lparr>ss_cached_response_list := ks\<rparr>) = all_sent R sess"
  by (rule all_sent_cong; simp add: sess_updates)+

text \<open>Updates of an object that keep the condition.\<close>

lemma sent_ok_upd [simp]:
  "sent_ok R (td\<lparr>td_res_timer := t\<rparr>) = sent_ok R td" "sent_ok R (td\<lparr>td_pkt := p\<rparr>) = sent_ok R td" "sent_ok R (td\<lparr>td_auth_info := f\<rparr>) = sent_ok R td"
  "td_client_tsx td = Some tsx \<Longrightarrow> sent_ok R (td\<lparr>td_client_tsx := Some tsx'\<rparr>) = sent_ok R td"
  "mh_type (msg_hdr m) = td_type td \<Longrightarrow> sent_ok R (td\<lparr>td_msg := m\<rparr>) = sent_ok R td"
  "td_client_tsx td = None \<Longrightarrow> sent_ok R td"
  by (simp_all add: sent_ok_def td_type_def)

subsection \<open>Releasing\<close>

lemma release_sent: "pool_release i sess = Some sess' \<Longrightarrow> all_sent R sess \<Longrightarrow> all_sent R sess'"
  by (auto simp: pool_release_def all_sent_def split: Option.bind_splits if_splits)

lemma destroy_sent:
  assumes "destroy_tdata i force sess = Some sess'" "all_sent R sess"
  shows "all_sent R sess'"
proof -
  obtain td where td: "ss_tdata sess i = Some td" using assms(1) by (auto simp: destroy_tdata_def split: Option.bind_splits)
  note ok = all_sentD [OF assms(2) td]
  show ?thesis
    using assms ok td release_sent
    by (auto simp: destroy_tdata_def Let_def all_sent_put split: if_splits option.splits)
qed

lemma tsx_destroy_sent:
  assumes "stun_tsx_on_destroy i sess = Some sess'" "all_sent R sess"
  shows "all_sent R sess'"
proof -
  obtain td tsx where td: "ss_tdata sess i = Some td" "td_client_tsx td = Some tsx" using assms(1) by (auto simp: stun_tsx_on_destroy_def split: Option.bind_splits)
  have "all_sent R (put_tdata i (td\<lparr>td_client_tsx := Some tsx'\<rparr>) sess)" for tsx' using all_sentD [OF assms(2) td(1)] td(2) assms(2) by (simp add: all_sent_put)
  then show ?thesis using assms(1) td by (auto simp: stun_tsx_on_destroy_def Let_def split: if_splits elim!: release_sent)
qed

subsection \<open>Sending\<close>

text \<open>What an operation adds to the reports, relative to the objects before it: completions of requests that were sent, with their tokens.\<close>

definition report_ok :: "(nat \<Rightarrow> pj_stun_tx_data option) \<Rightarrow> sess_action \<Rightarrow> bool" where
  "report_ok store a = (case a of
     Sess_request_complete st token i m \<Rightarrow> (\<exists>td. store i = Some td \<and> td_token td = token \<and> td_client_tsx td \<noteq> None)
   | _ \<Rightarrow> True)"

definition silent :: "sess_action \<Rightarrow> bool" where
  "silent a = (case a of Sess_request_complete st token i m \<Rightarrow> False | _ \<Rightarrow> True)"

lemma silent_report_ok: "silent a \<Longrightarrow> report_ok store a"
  by (cases a) (simp_all add: silent_def report_ok_def)

definition quietly :: "pj_stun_session \<Rightarrow> pj_stun_session \<Rightarrow> bool" where
  "quietly sess sess' \<longleftrightarrow> (\<exists>acts. ss_out sess' = ss_out sess @ acts \<and> list_all silent acts)"

lemma quietly_refl: "ss_out sess' = ss_out sess \<Longrightarrow> quietly sess sess'"
  by (simp add: quietly_def)

lemma quietly_trans: "quietly a b \<Longrightarrow> quietly b c \<Longrightarrow> quietly a c"
  by (auto simp: quietly_def)

lemma quietly_cong: "quietly sess sess' \<Longrightarrow> ss_out s = ss_out sess \<Longrightarrow> quietly s sess'"
  by (simp add: quietly_def)

lemma destroy_quietly: "destroy_tdata i force sess = Some sess' \<Longrightarrow> quietly sess sess'"
  by (auto simp: destroy_tdata_def pool_release_def Let_def sess_updates quietly_def split: if_splits option.splits Option.bind_splits)

lemma tsx_destroy_quietly: "stun_tsx_on_destroy i sess = Some sess' \<Longrightarrow> quietly sess sess'"
  by (auto simp: stun_tsx_on_destroy_def pool_release_def Let_def sess_updates quietly_def split: if_splits Option.bind_splits)

lemma send_failed_sent:
  assumes "send_failed i st sess = Some (st', sess')" "all_sent R sess"
  shows "all_sent R sess' \<and> quietly sess sess'"
  using assms by (auto simp: send_failed_def pj_stun_msg_destroy_tdata_def split: Option.bind_splits elim: destroy_sent dest: destroy_quietly)

lemma sends_silent:
  assumes "sends_of sess td acts = Some sent"
  shows "list_all silent sent"
proof -
  have "those [case td_dst_addr td of Some a \<Rightarrow> Some (Sess_send_msg (td_token td) pkt a) | None \<Rightarrow> None. On_send_msg pkt \<leftarrow> acts] = Some sent \<Longrightarrow> list_all silent sent"
  proof (induction acts arbitrary: sent)
    case (Cons a acts)
    then show ?case by (cases a) (auto simp: silent_def split: option.splits)
  qed simp
  then show ?thesis using assms by (auto simp: sends_of_def split: if_splits)
qed

lemma tsx_call_sent:
  assumes "tsx_call env i f sess = Some (r, acts, sess')" "all_sent R sess"
  shows "all_sent R sess' \<and> quietly sess sess' \<and> (\<exists>td td'. ss_tdata sess i = Some td \<and> ss_tdata sess' i = Some td' \<and> td_client_tsx td \<noteq> None \<and> td_client_tsx td' \<noteq> None \<and>
    td_type td' = td_type td \<and> td_token td' = td_token td)"
proof -
  obtain td tsx sent where td: "ss_tdata sess i = Some td" "td_client_tsx td = Some tsx" and sent: "sends_of sess td (ts_out (snd (f (stun_tsx_on_send_msg env sess) (tsx\<lparr>ts_out := []\<rparr>)))) = Some sent"
    and sess': "sess' = (put_tdata i (td\<lparr>td_client_tsx := Some ((snd (f (stun_tsx_on_send_msg env sess) (tsx\<lparr>ts_out := []\<rparr>)))\<lparr>ts_out := []\<rparr>)\<rparr>) sess)\<lparr>ss_out := ss_out sess @ sent\<rparr>"
    using assms(1) by (auto simp: tsx_call_def Let_def split: Option.bind_splits prod.splits)
  have "list_all silent sent" using sent by (rule sends_silent)
  then show ?thesis using td all_sentD [OF assms(2) td(1)] assms(2) by (simp add: sess' all_sent_put quietly_def td_type_def)
qed

lemma send_request_sent:
  assumes "send_request env i re server sess = Some (st, sess')" "all_sent R sess" "ss_tdata sess i = Some td" "R (td_type td) (td_token td)"
  shows "all_sent R sess' \<and> quietly sess sess'"
proof -
  have put: "all_sent R (put_tdata i (td\<lparr>td_client_tsx := t, td_dst_addr := d\<rparr>) sess)" for t d using assms(2,4) by (intro all_sent_put) (simp_all add: sent_ok_def td_type_def)
  have q: "quietly (put_tdata i td' sess) s \<Longrightarrow> quietly sess s" for td' s by (simp add: quietly_def)
  show ?thesis
    using assms(1,2,3) unfolding send_request_def Let_def
    by (auto split: Option.bind_splits sum.splits if_splits prod.splits dest!: tsx_call_sent [OF _ put] send_failed_sent q intro: quietly_trans quietly_refl)
       (auto simp: quietly_def tsx_add_def)
qed

lemma send_other_sent:
  assumes "send_other env i token cache server sess = Some (st, sess')" "all_sent R sess"
  shows "all_sent R sess' \<and> quietly sess sess'"
proof -
  obtain td where td: "ss_tdata sess i = Some td" using assms(1) by (auto simp: send_other_def split: Option.bind_splits)
  define t where "t = mh_type (msg_hdr (td_msg td))"
  define step where "step = (if cache \<and> (STUN_IS_SUCCESS_RESPONSE t \<or> STUN_IS_ERROR_RESPONSE t) then
    let (status, timer) = slot_schedule_w_grp_lock \<lparr>tm_id = False, tm_delay = None\<rparr>
      (PJ_TIME_VAL_MSEC (PJ_TIME_VAL (uint (cfg_res_cache_msec sess div 1000)) (uint (cfg_res_cache_msec sess mod 1000)))) True
    in (status, td\<lparr>td_res_timer := timer\<rparr>, status = PJ_SUCCESS) else (PJ_SUCCESS, td, False))"
  obtain status td' cached where step: "step = (status, td', cached)" by (cases step)
  have put: "all_sent R (put_tdata i td' sess)"
    using step all_sentD [OF assms(2) td] assms(2) by (intro all_sent_put) (auto simp: step_def split: if_splits prod.splits)
  define s1 where "s1 = (if cached then (put_tdata i td' sess)\<lparr>ss_cached_response_list := ss_cached_response_list sess @ [i]\<rparr> else put_tdata i td' sess)"
  define s2 where "s2 = sess_emit (Sess_send_msg token (td_pkt td') server) s1"
  have s2: "all_sent R s2" "quietly sess s2" using put by (simp_all add: s2_def s1_def quietly_def sess_emit_def silent_def split: if_splits)
  have q: "quietly sess (put_tdata i td' sess)" by (simp add: quietly_refl)
  have "(if status \<noteq> PJ_SUCCESS then send_failed i status (put_tdata i td' sess)
    else if ev_send env \<noteq> PJ_SUCCESS \<and> ev_send env \<noteq> PJ_EPENDING then send_failed i (ev_send env) s2
    else if tm_id (td_res_timer td') = False then send_failed i (ev_send env) s2 else Some (ev_send env, s2)) = Some (st, sess')"
    using assms(1) td by (simp add: send_other_def Let_def step [unfolded step_def t_def Let_def] s2_def s1_def cong: if_cong)
  then show ?thesis
    using send_failed_sent [OF _ put] send_failed_sent [OF _ s2(1)] quietly_trans [OF q] quietly_trans [OF s2(2)] s2 by (auto split: if_splits)
qed

lemma add_created_hdr: "add_created msg r = Inr m \<Longrightarrow> msg_hdr m = msg_hdr msg"
  by (auto simp: add_created_def pj_stun_msg_add_attr_def split: sum.splits if_splits)

lemma add_if_hdr:
  assumes "add_if c (\<lambda>m. add_created m (f m)) msg = (st, msg')"
  shows "msg_hdr msg' = msg_hdr msg"
  using assms by (auto simp: add_if_def split: if_splits sum.splits dest: add_created_hdr)

lemma snd_add_if_hdr: "msg_hdr (snd (add_if c (\<lambda>m. add_created m (f m)) msg)) = msg_hdr msg"
  by (rule add_if_hdr [where st = "fst (add_if c (\<lambda>m. add_created m (f m)) msg)"]) simp

lemma apply_options_type:
  assumes "apply_msg_options sess info msg = Some (st, msg')"
  shows "msg_hdr msg' = msg_hdr msg"
  using assms
  unfolding apply_msg_options_def Let_def pj_stun_msg_add_string_attr_def pj_stun_msg_add_msgint_attr_def pj_stun_msg_add_uint_attr_def
  unfolding case_prod_beta by (auto simp: snd_add_if_hdr split: Option.bind_splits if_splits dest!: add_if_hdr)

lemma send_msg_sent:
  assumes res: "pj_stun_session_send_msg env sess token cache re server i = Some (st, sess')" and ok: "all_sent R sess"
    and i: "\<And>td. ss_tdata sess i = Some td \<Longrightarrow> td_client_tsx td = None \<and> R (td_type td) token"
  shows "all_sent R sess' \<and> quietly sess sess'"
proof (cases "ss_is_destroying sess")
  case True
  then show ?thesis using res ok by (simp add: pj_stun_session_send_msg_def quietly_refl)
next
  case False
  obtain td where td: "ss_tdata sess i = Some td" using res False by (auto simp: pj_stun_session_send_msg_def split: Option.bind_splits)
  note own = i [OF td]
  have put: "all_sent R (put_tdata i td' sess)" if "td_client_tsx td' = None" for td' using ok that by (simp add: all_sent_put)
  have q: "quietly (put_tdata i td' sess) s \<Longrightarrow> quietly sess s" for td' s by (simp add: quietly_def)
  have fail: "all_sent R s' \<and> quietly sess s'" if "send_failed i st (put_tdata i td' sess) = Some (st', s')" "td_client_tsx td' = None" for st td' st' s'
    using send_failed_sent [OF that(1) put [OF that(2)]] q by blast
  have req: "all_sent R s' \<and> quietly sess s'" if "send_request env i re server (put_tdata i td' sess) = Some (st', s')" "td_client_tsx td' = None" "R (td_type td') (td_token td')" for td' st' s'
    using send_request_sent [OF that(1) put [OF that(2)], of td'] that(3) q by auto
  have oth: "all_sent R s' \<and> quietly sess s'" if "send_other env i token cache server (put_tdata i td' sess) = Some (st', s')" "td_client_tsx td' = None" for td' st' s'
    using send_other_sent [OF that(1) put [OF that(2)]] q by blast
  show ?thesis using res False td own unfolding pj_stun_session_send_msg_def Let_def
    by (auto split: Option.bind_splits if_splits sum.splits prod.splits elim!: fail req oth dest!: encode_type apply_options_type simp: td_type_def)
qed

subsection \<open>Creating and repeating requests\<close>

lemma create_tdata_sent:
  assumes "create_tdata td sess = (i, sess')" "td_client_tsx td = None" "all_sent R sess"
  shows "all_sent R sess' \<and> quietly sess sess' \<and> ss_tdata sess' i = Some td"
  using assms by (auto simp: create_tdata_def quietly_refl intro!: all_sent_put) (auto simp: all_sent_def)

lemma msg_create_type: "pj_stun_msg_create t magic x = Inr msg \<Longrightarrow> mh_type (msg_hdr msg) = t"
  by (auto simp: pj_stun_msg_create_def pj_stun_msg_init_def split: if_splits)

lemma create_req_sent:
  assumes "pj_stun_session_create_req env sess t magic x = Inr (i, sess')" "all_sent R sess"
  shows "all_sent R sess' \<and> quietly sess sess' \<and> (\<exists>td. ss_tdata sess' i = Some td \<and> td_client_tsx td = None \<and> td_type td = t)"
proof -
  obtain td where "create_tdata td sess = (i, sess')" "td_client_tsx td = None" "td_type td = t"
    using assms(1) by (auto simp: pj_stun_session_create_req_def Let_def td_type_def zero_tdata_def split: if_splits sum.splits dest: msg_create_type intro!: that)
  then show ?thesis using create_tdata_sent assms(2) by blast
qed

lemma create_ind_sent:
  assumes "pj_stun_session_create_ind env sess t = Inr (i, sess')" "all_sent R sess"
  shows "all_sent R sess' \<and> quietly sess sess' \<and> (\<exists>td. ss_tdata sess' i = Some td \<and> td_client_tsx td = None \<and> td_type td = t OR PJ_STUN_INDICATION_BIT)"
proof -
  obtain td where "create_tdata td sess = (i, sess')" "td_client_tsx td = None" "td_type td = t OR PJ_STUN_INDICATION_BIT"
    using assms(1) by (auto simp: pj_stun_session_create_ind_def Let_def td_type_def zero_tdata_def split: if_splits sum.splits dest: msg_create_type intro!: that)
  then show ?thesis using create_tdata_sent assms(2) by blast
qed

lemma retry_sent:
  assumes res: "retry_request env request src sess = Some (n, sess')" and ok: "all_sent R sess" and R: "R (td_type request) (td_token request)"
  shows "all_sent R sess' \<and> quietly sess sess'"
proof (cases "pj_stun_session_create_req env sess (mh_type (msg_hdr (td_msg request))) (mh_magic (msg_hdr (td_msg request))) None")
  case (Inl st)
  then show ?thesis using res ok by (simp add: retry_request_def quietly_refl)
next
  case (Inr x)
  obtain i s where c: "x = (i, s)" by (cases x)
  obtain td where s: "all_sent R s" "quietly sess s" and td: "ss_tdata s i = Some td" "td_client_tsx td = None" "td_type td = td_type request"
    using create_req_sent [OF Inr [unfolded c] ok] by (auto simp: td_type_def)
  obtain msg st where send: "pj_stun_session_send_msg env (put_tdata i (td\<lparr>td_msg := (td_msg td)\<lparr>msg_attrs := msg\<rparr>\<rparr>) s) (td_token request) True (td_retransmit request) src i = Some (st, sess')"
    using res td(1) by (auto simp: retry_request_def Inr c Let_def split: Option.bind_splits)
  have "all_sent R sess' \<and> quietly (put_tdata i (td\<lparr>td_msg := (td_msg td)\<lparr>msg_attrs := msg\<rparr>\<rparr>) s) sess'"
    by (rule send_msg_sent [OF send]) (use s(1) td R in \<open>auto simp: td_type_def intro!: all_sent_put\<close>)
  then show ?thesis using quietly_trans [OF s(2)] by (simp add: quietly_def)
qed

lemma challenge_sent:
  assumes res: "handle_auth_challenge env request response src sess = Some (n, sess')" and ok: "all_sent R sess" and R: "R (td_type request) (td_token request)"
  shows "all_sent R sess' \<and> quietly sess sess'"
  using res
proof (cases rule: challenge_cases)
  case (1 r)
  then show ?thesis using ok by (simp add: quietly_refl)
next
  case (2 r nonce realm)
  then show ?thesis using retry_sent [where R = R, OF 2 _ R] ok by (simp add: quietly_def)
qed

subsection \<open>Reports\<close>

definition reports_ok :: "(nat \<Rightarrow> pj_stun_tx_data option) \<Rightarrow> pj_stun_session \<Rightarrow> pj_stun_session \<Rightarrow> bool" where
  "reports_ok store sess sess' \<longleftrightarrow> (\<exists>acts. ss_out sess' = ss_out sess @ acts \<and> list_all (report_ok store) acts)"

lemma quietly_reports: "quietly sess sess' \<Longrightarrow> reports_ok store sess sess'"
  using silent_report_ok by (auto simp: quietly_def reports_ok_def list_all_iff)

lemma reports_trans: "reports_ok store a b \<Longrightarrow> reports_ok store b c \<Longrightarrow> reports_ok store a c"
  by (auto simp: reports_ok_def)

lemma on_complete_sent:
  assumes res: "stun_tsx_on_complete env i st m src sess = Some sess'" and ok: "all_sent R sess"
    and i: "ss_tdata sess i = Some td" "td_client_tsx td \<noteq> None" and store: "store i = Some td0" "td_token td0 = td_token td" "td_client_tsx td0 \<noteq> None"
  shows "all_sent R sess' \<and> reports_ok store sess sess'"
proof (cases "ss_is_destroying sess")
  case True
  then show ?thesis using res i(1) ok by (auto simp: stun_tsx_on_complete_def pj_stun_msg_destroy_tdata_def elim: destroy_sent dest: destroy_quietly intro: quietly_reports)
next
  case False
  have R: "R (td_type td) (td_token td)" using all_sentD [OF ok i(1)] i(2) by (simp add: sent_ok_def)
  obtain n s where ch: "handle_auth_challenge env td m src sess = Some (n, s)"
    and d: "destroy_tdata i (st = PJNATH_ESTUNTIMEDOUT) (if n \<and> cb_on_request_complete s then sess_emit (Sess_request_complete st (td_token td) i m) s else s) = Some sess'"
    using res i(1) False by (auto simp: stun_tsx_on_complete_def Let_def split: Option.bind_splits prod.splits)
  note s = challenge_sent [OF ch ok R]
  have e: "reports_ok store s (if n \<and> cb_on_request_complete s then sess_emit (Sess_request_complete st (td_token td) i m) s else s)"
    using store by (auto simp: reports_ok_def sess_emit_def report_ok_def)
  show ?thesis
    using destroy_sent [OF d] s destroy_quietly [OF d] reports_trans [OF quietly_reports reports_trans [OF e quietly_reports]] by (simp split: if_splits)
qed

lemma tsx_reported_sent:
  assumes "tsx_reported env i acts src sess = Some sess'" "all_sent R sess"
    and "ss_tdata sess i = Some td" "td_client_tsx td \<noteq> None" "store i = Some td0" "td_token td0 = td_token td" "td_client_tsx td0 \<noteq> None"
  shows "all_sent R sess' \<and> reports_ok store sess sess'"
  using assms on_complete_sent by (auto simp: tsx_reported_eq quietly_reports quietly_refl split: list.splits)

lemma response_sent:
  assumes res: "on_incoming_response env sess options pkt msg src = Some (st, sess')" and ok: "all_sent R sess"
  shows "all_sent R sess' \<and> reports_ok (ss_tdata sess) sess sess'"
proof -
  consider "sess' = sess"
    | i td tsx tsx' where "ss_tdata sess i = Some td" "td_client_tsx td = Some tsx"
        "tsx_reported env i (ts_out tsx') src (put_tdata i (td\<lparr>td_client_tsx := Some (tsx'\<lparr>ts_out := []\<rparr>)\<rparr>) sess) = Some sess'"
    using res unfolding on_incoming_response_def Let_def by (auto split: Option.bind_splits option.splits if_splits prod.splits)
  then show ?thesis
  proof cases
    case 1
    then show ?thesis using ok by (simp add: quietly_reports quietly_refl)
  next
    case 2
    let ?td = "td\<lparr>td_client_tsx := Some (tsx'\<lparr>ts_out := []\<rparr>)\<rparr>"
    have "all_sent R (put_tdata i ?td sess)" using ok all_sentD [OF ok 2(1)] 2(2) by (simp add: all_sent_put)
    then have "all_sent R sess' \<and> reports_ok (ss_tdata sess) (put_tdata i ?td sess) sess'"
      by (rule tsx_reported_sent [OF 2(3), where td = ?td and td0 = td]) (use 2 in auto)
    then show ?thesis by (simp add: reports_ok_def)
  qed
qed

lemma send_response_sent:
  assumes "send_response env sess token r info re addr = Some (st, r', sess')" "all_sent R sess"
  shows "all_sent R sess' \<and> quietly sess sess'"
  using assms(1) by (cases rule: send_response_cases) (use assms(2) in \<open>auto simp: quietly_refl quietly_def sess_emit_def silent_def\<close>)

lemma check_cached_sent:
  assumes res: "check_cached_response env sess msg src = Some (st, sess')" and ok: "all_sent R sess"
  shows "all_sent R sess' \<and> quietly sess sess'"
proof -
  consider "sess' = sess" | i t st' m s where "ss_tdata sess i = Some t" "send_response env sess (td_token t) (td_msg t) (Some (td_auth_info t)) True src = Some (st', m, s)"
      "sess' = put_tdata i (t\<lparr>td_msg := m\<rparr>) s"
    using res unfolding check_cached_response_def by (auto split: Option.bind_splits option.splits prod.splits)
  then show ?thesis
  proof cases
    case 1
    then show ?thesis using ok by (simp add: quietly_refl)
  next
    case 2
    note s = send_response_sent [OF 2(2) ok]
    have "sent_ok R (t\<lparr>td_msg := m\<rparr>)" using all_sentD [OF ok 2(1)] send_response_again [OF 2(2)] by (simp add: td_type_def)
    then show ?thesis using s by (simp add: 2(3) all_sent_put quietly_def)
  qed
qed

lemma request_sent:
  assumes res: "on_incoming_request env sess options token pkt msg src = Some (st, sess')" and ok: "all_sent R sess"
  shows "all_sent R sess' \<and> quietly sess sess'"
proof -
  have auth: "all_sent R s \<and> quietly sess s" if "authenticate_req env sess token pkt rdata src = Some (st, rd, s)" for rdata st rd s
    using that ok unfolding authenticate_req_def Let_def
    by (auto split: if_splits Option.bind_splits option.splits prod.splits dest: send_response_sent simp: quietly_refl)
  obtain st0 rd s where a: "(if authenticates sess options then authenticate_req env sess token pkt \<lparr>rd_msg = msg, rd_info = no_info\<rparr> src
      else Some (PJ_SUCCESS, \<lparr>rd_msg = msg, rd_info = no_info\<rparr>, sess)) = Some (st0, rd, s)"
    and r: "(if st0 \<noteq> PJ_SUCCESS then Some (st0, s)
      else if cb_on_rx_request s then Some (ev_rx env, sess_emit (Sess_rx_request pkt rd token src) s)
      else do {
        r \<leftarrow> pj_stun_msg_create_response msg PJ_STUN_SC_BAD_REQUEST (Some (bytes_of ''Callback is not set to handle request''));
        case r of
          Inl status \<Rightarrow> Some (status, s)
        | Inr response \<Rightarrow> do { (status, _, sess) \<leftarrow> send_response env s token response None False src; Some (status, sess) } }) = Some (st, sess')"
    using res unfolding on_incoming_request_def Let_def by (auto split: Option.bind_split_asm)
  have s: "all_sent R s \<and> quietly sess s" using a auth ok by (auto simp: quietly_refl split: if_splits)
  have "all_sent R sess' \<and> quietly s sess'"
    using r s by (auto simp: quietly_def sess_emit_def silent_def split: if_splits Option.bind_splits sum.splits dest!: send_response_sent)
  then show ?thesis using s quietly_trans by blast
qed

lemma handle_msg_sent:
  assumes "handle_msg env sess options token pkt msg src = Some (st, sess')" "all_sent R sess"
  shows "all_sent R sess' \<and> reports_ok (ss_tdata sess) sess sess'"
  using assms response_sent [of env sess options pkt msg src st sess' R] request_sent [of env sess options token pkt msg src st sess' R]
  by (auto simp: handle_msg_def Let_def on_incoming_indication_def sess_emit_def reports_ok_def report_ok_def split: if_splits dest: quietly_reports)

lemma check_cached_failed: "check_cached_response env sess msg src = Some (st, sess') \<Longrightarrow> st \<noteq> PJ_SUCCESS \<Longrightarrow> sess' = sess"
  by (auto simp: check_cached_response_def split: Option.bind_splits option.splits)

lemma rx_pkt_sent:
  assumes res: "pj_stun_session_on_rx_pkt env sess pkt options token src = Some (st, n, sess')" and ok: "all_sent R sess"
  shows "all_sent R sess' \<and> reports_ok (ss_tdata sess) sess sess'"
proof -
  have self: "all_sent R sess \<and> reports_ok store sess sess" for store using ok by (simp add: quietly_reports quietly_refl)
  have resp: "all_sent R s \<and> reports_ok store sess s" if "send_response env sess token r None False src = Some (st, r', s)" for r st r' s store
    using send_response_sent [OF that ok] quietly_reports by blast
  have cached: "all_sent R s \<and> reports_ok store sess s" if "check_cached_response env sess msg src = Some (st, s)" for msg st s store
    using check_cached_sent [OF that ok] quietly_reports by blast
  have handle: "all_sent R s' \<and> reports_ok (ss_tdata sess) sess s'"
    if "check_cached_response env sess msg src = Some (st, s)" "st \<noteq> PJ_SUCCESS" "handle_msg env s options token pkt msg src = Some (st', s')" for msg st s st' s'
    using handle_msg_sent [OF that(3)] check_cached_failed [OF that(1,2)] ok by simp
  show ?thesis
    using res self unfolding pj_stun_session_on_rx_pkt_def
    by (auto split: if_splits Option.bind_splits sum.splits option.splits prod.splits elim: resp [THEN conjunct1] resp [THEN conjunct2] cached [THEN conjunct1] cached [THEN conjunct2]
        handle [THEN conjunct1] handle [THEN conjunct2])
qed

subsection \<open>Timers and destruction\<close>

lemma retransmit_timer_sent:
  assumes res: "on_retransmit_timer env i sess = Some sess'" and ok: "all_sent R sess"
  shows "all_sent R sess' \<and> reports_ok (ss_tdata sess) sess sess'"
proof -
  obtain r acts s where c: "tsx_call env i (\<lambda>st tsx. (PJ_SUCCESS, retransmit_timer_callback st (tsx\<lparr>retransmit_timer := timer_expired (retransmit_timer tsx)\<rparr>))) sess = Some (r, acts, s)"
    and t: "tsx_reported env i acts no_addr s = Some sess'" using res by (auto simp: on_retransmit_timer_def split: Option.bind_splits prod.splits)
  obtain td td' where s: "all_sent R s" "quietly sess s" "ss_tdata sess i = Some td" "ss_tdata s i = Some td'" "td_client_tsx td \<noteq> None" "td_client_tsx td' \<noteq> None" "td_token td' = td_token td"
    using tsx_call_sent [OF c ok] by blast
  show ?thesis
    using tsx_reported_sent [OF t s(1,4,6), of "ss_tdata sess" td] s reports_trans [OF quietly_reports [OF s(2)]] by auto
qed

lemma destroy_timer_sent:
  assumes res: "on_destroy_timer i sess = Some sess'" and ok: "all_sent R sess"
  shows "all_sent R sess' \<and> quietly sess sess'"
proof -
  obtain td tsx tsx' where td: "ss_tdata sess i = Some td" "td_client_tsx td = Some tsx"
    and d: "stun_tsx_on_destroy i (put_tdata i (td\<lparr>td_client_tsx := Some tsx'\<rparr>) sess) = Some sess'"
    using res by (auto simp: on_destroy_timer_def split: Option.bind_splits)
  have "all_sent R (put_tdata i (td\<lparr>td_client_tsx := Some tsx'\<rparr>) sess)" using all_sentD [OF ok td(1)] ok td(2) by (simp add: all_sent_put)
  then show ?thesis using tsx_destroy_sent [OF d] tsx_destroy_quietly [OF d] by (simp add: quietly_def)
qed

lemma stop_all_sent: "stop_all ks sess = Some sess' \<Longrightarrow> all_sent R sess \<Longrightarrow> all_sent R sess' \<and> quietly sess sess'"
proof (induction ks arbitrary: sess)
  case (Cons i ks)
  then obtain td where td: "ss_tdata sess i = Some td" by (auto split: Option.bind_splits)
  note ok = all_sentD [OF Cons.prems(2) td]
  show ?case
  proof (cases "td_client_tsx td")
    case None
    then show ?thesis using Cons td by simp
  next
    case (Some tsx)
    let ?s = "put_tdata i (td\<lparr>td_client_tsx := Some (snd (pj_stun_client_tsx_stop tsx))\<rparr>) sess"
    have "all_sent R ?s" using Cons.prems(2) ok Some by (simp add: all_sent_put)
    then show ?thesis using Cons.IH [of ?s] Cons.prems(1) td Some by (simp add: quietly_def)
  qed
qed (simp add: quietly_refl)

lemma cancel_all_sent: "cancel_all ks sess = Some sess' \<Longrightarrow> all_sent R sess \<Longrightarrow> all_sent R sess' \<and> quietly sess sess'"
proof (induction ks arbitrary: sess)
  case (Cons i ks)
  then obtain td where td: "ss_tdata sess i = Some td" by (auto split: Option.bind_splits)
  let ?s = "put_tdata i (td\<lparr>td_res_timer := slot_cancel_if_active (td_res_timer td) False\<rparr>) sess"
  have "all_sent R ?s" using Cons.prems(2) all_sentD [OF Cons.prems(2) td] by (simp add: all_sent_put)
  then show ?case using Cons.IH [of ?s] Cons.prems(1) td by (simp add: quietly_def)
qed (simp add: quietly_refl)

lemma session_destroy_sent:
  assumes "pj_stun_session_destroy sess = Some (st, sess')" "all_sent R sess"
  shows "all_sent R sess' \<and> quietly sess sess'"
  using assms by (auto simp: pj_stun_session_destroy_def Let_def quietly_refl split: if_splits Option.bind_splits dest!: stop_all_sent cancel_all_sent) (auto simp: quietly_def)

end
