(* ===== verification/HashTable.thy ===== *)
theory HashTable
  imports Prelude
begin

text \<open>
  The hash table, pjlib/src/pj/hash.c: a vector of chains. A key is the list of its bytes (a key given as a C string is the bytes before its terminator), and
  an absent value is \<open>None\<close>, the NULL of the source. A pointer to a link of a chain is the row and the position in the chain. A hash value of 0 given by the caller means
  that it is not known. \<open>PJ_HASH_USE_OWN_TOLOWER\<close> is off, as in the default configuration, and \<^verbatim>\<open>char\<close> is signed.
\<close>

definition PJ_HASH_MULTIPLIER :: "32 word" where "PJ_HASH_MULTIPLIER = 33"

definition pj_hash_calc :: "32 word \<Rightarrow> byte list \<Rightarrow> 32 word" where
  "pj_hash_calc hash key = fold (\<lambda>p h. h * PJ_HASH_MULTIPLIER + ucast p) key hash"

lemma pj_hash_calc_append:
  "pj_hash_calc h (xs @ ys) = pj_hash_calc (pj_hash_calc h xs) ys"
  by (simp add: pj_hash_calc_def)

definition pj_tolower :: "byte \<Rightarrow> byte" where
  "pj_tolower c = (if 0x41 \<le> c \<and> c \<le> 0x5A then c + 0x20 else c)"

text \<open>The lower-case key and the hash value, to which each character is added as a signed \<^verbatim>\<open>char\<close>.\<close>

definition pj_hash_calc_tolower :: "32 word \<Rightarrow> byte list \<Rightarrow> byte list \<times> 32 word" where
  "pj_hash_calc_tolower hval key = (map pj_tolower key, fold (\<lambda>p h. h * PJ_HASH_MULTIPLIER + scast (pj_tolower p)) key hval)"

record 'v pj_hash_entry =
  he_key :: "byte list"
  he_hash :: "32 word"
  he_value :: 'v

record 'v pj_hash_table_t =
  ht_table :: "'v pj_hash_entry list list"
  ht_count :: "32 word"
  ht_rows :: "32 word"

subsection \<open>Creation\<close>

partial_function (option) table_size_loop :: "32 word \<Rightarrow> 32 word \<Rightarrow> 32 word option" where
  "table_size_loop sz table_size = (let table_size = push_bit 1 table_size in if table_size < sz then table_size_loop sz table_size else Some table_size)"

definition pj_hash_create :: "32 word \<Rightarrow> 'v pj_hash_table_t option" where
  "pj_hash_create sz = do {
     table_size \<leftarrow> table_size_loop sz 8;
     let table_size = table_size - 1;
     Some \<lparr>ht_table = replicate (unat (table_size + 1)) [], ht_count = 0, ht_rows = table_size\<rparr> }"

subsection \<open>Looking up and changing entries\<close>

text \<open>\<^verbatim>\<open>strncasecmp\<close> of keys of the same length: it stops at a NUL.\<close>

fun strnicmp_eq :: "byte list \<Rightarrow> byte list \<Rightarrow> bool" where
  "strnicmp_eq (x # xs) (y # ys) \<longleftrightarrow> pj_tolower x = pj_tolower y \<and> (x = 0 \<or> strnicmp_eq xs ys)"
| "strnicmp_eq _ _ \<longleftrightarrow> True"

definition find_hash :: "bool \<Rightarrow> byte list \<Rightarrow> 32 word \<Rightarrow> 32 word" where
  "find_hash lower key hval = (if hval \<noteq> 0 then hval else if lower then fold (\<lambda>p h. h * PJ_HASH_MULTIPLIER + ucast (pj_tolower p)) key 0 else pj_hash_calc 0 key)"

definition entry_matches :: "bool \<Rightarrow> 32 word \<Rightarrow> byte list \<Rightarrow> 'v pj_hash_entry \<Rightarrow> bool" where
  "entry_matches lower hash key e \<longleftrightarrow> he_hash e = hash \<and> length (he_key e) = length key \<and>
     (if lower then strnicmp_eq (he_key e) key else memcmp (he_key e) key (length key) = 0)"

definition ht_row :: "'v pj_hash_table_t \<Rightarrow> 32 word \<Rightarrow> nat" where
  "ht_row ht hash = unat (hash AND ht_rows ht)"

text \<open>
  \<open>pool\<close> and \<open>entry_buf\<close> say whether the caller gave one. The result is the row and position of the link, the hash value, and the table; \<open>None\<close> is the NULL that is
  returned when a new entry has no memory.
\<close>

definition find_entry ::
  "bool \<Rightarrow> 'v pj_hash_table_t \<Rightarrow> byte list \<Rightarrow> 'v option \<Rightarrow> 32 word \<Rightarrow> bool \<Rightarrow> bool \<Rightarrow> ((nat \<times> nat) \<times> 32 word \<times> 'v pj_hash_table_t) option" where
  "find_entry pool ht key val hval entry_buf lower =
     (let hash = find_hash lower key hval; r = ht_row ht hash; chain = ht_table ht ! r; p = find_idx (entry_matches lower hash key) chain in
      case val of
        None \<Rightarrow> Some ((r, p), hash, ht)
      | Some v \<Rightarrow>
          if p \<noteq> length chain then Some ((r, p), hash, ht)
          else if \<not> entry_buf \<and> \<not> pool then None
          else Some ((r, p), hash, ht\<lparr>ht_table := (ht_table ht)[r := chain @ [\<lparr>he_key = key, he_hash = hash, he_value = v\<rparr>]], ht_count := ht_count ht + 1\<rparr>))"

definition ht_link :: "'v pj_hash_table_t \<Rightarrow> nat \<times> nat \<Rightarrow> 'v pj_hash_entry option" where
  "ht_link ht = (\<lambda>(r, p). if p < length (ht_table ht ! r) then Some (ht_table ht ! r ! p) else None)"

text \<open>The value and the hash value reported to the caller.\<close>

definition hash_get :: "bool \<Rightarrow> 'v pj_hash_table_t \<Rightarrow> byte list \<Rightarrow> 32 word \<Rightarrow> 'v option \<times> 32 word" where
  "hash_get lower ht key hval = (case find_entry False ht key None hval False lower of
     Some (p_entry, hval, ht) \<Rightarrow> (map_option he_value (ht_link ht p_entry), hval) | None \<Rightarrow> (None, hval))"

definition pj_hash_get :: "'v pj_hash_table_t \<Rightarrow> byte list \<Rightarrow> 32 word \<Rightarrow> 'v option \<times> 32 word" where
  "pj_hash_get ht key hval = hash_get False ht key hval"

definition pj_hash_get_lower :: "'v pj_hash_table_t \<Rightarrow> byte list \<Rightarrow> 32 word \<Rightarrow> 'v option \<times> 32 word" where
  "pj_hash_get_lower ht key hval = hash_get True ht key hval"

text \<open>\<open>None\<close>: the link is read through the NULL that \<^verbatim>\<open>find_entry\<close> returned.\<close>

definition hash_set :: "bool \<Rightarrow> 'v pj_hash_table_t \<Rightarrow> byte list \<Rightarrow> 32 word \<Rightarrow> 'v option \<Rightarrow> bool \<Rightarrow> bool \<Rightarrow> 'v pj_hash_table_t option" where
  "hash_set pool ht key hval value entry_buf lower = do {
     ((r, p), _, ht) \<leftarrow> find_entry pool ht key value hval entry_buf lower;
     let chain = ht_table ht ! r;
     Some (if p < length chain then
        (case value of
           None \<Rightarrow> ht\<lparr>ht_table := (ht_table ht)[r := take p chain @ drop (Suc p) chain], ht_count := ht_count ht - 1\<rparr>
         | Some v \<Rightarrow> ht\<lparr>ht_table := (ht_table ht)[r := chain[p := (chain ! p)\<lparr>he_value := v\<rparr>]]\<rparr>)
      else ht) }"

definition pj_hash_set :: "bool \<Rightarrow> 'v pj_hash_table_t \<Rightarrow> byte list \<Rightarrow> 32 word \<Rightarrow> 'v option \<Rightarrow> 'v pj_hash_table_t option" where
  "pj_hash_set pool ht key hval value = hash_set pool ht key hval value False False"

definition pj_hash_set_lower :: "bool \<Rightarrow> 'v pj_hash_table_t \<Rightarrow> byte list \<Rightarrow> 32 word \<Rightarrow> 'v option \<Rightarrow> 'v pj_hash_table_t option" where
  "pj_hash_set_lower pool ht key hval value = hash_set pool ht key hval value False True"

definition pj_hash_set_np :: "'v pj_hash_table_t \<Rightarrow> byte list \<Rightarrow> 32 word \<Rightarrow> 'v option \<Rightarrow> 'v pj_hash_table_t option" where
  "pj_hash_set_np ht key hval value = hash_set False ht key hval value True False"

definition pj_hash_set_np_lower :: "'v pj_hash_table_t \<Rightarrow> byte list \<Rightarrow> 32 word \<Rightarrow> 'v option \<Rightarrow> 'v pj_hash_table_t option" where
  "pj_hash_set_np_lower ht key hval value = hash_set False ht key hval value True True"

definition pj_hash_count :: "'v pj_hash_table_t \<Rightarrow> 32 word" where
  "pj_hash_count ht = ht_count ht"

subsection \<open>Iteration\<close>

text \<open>The entry of an iterator, a pointer, is the rest of its chain that starts there.\<close>

record 'v pj_hash_iterator_t =
  it_index :: nat
  it_entry :: "'v pj_hash_entry list"

fun scan_rows :: "'v pj_hash_entry list list \<Rightarrow> nat \<Rightarrow> 'v pj_hash_iterator_t option" where
  "scan_rows [] i = None"
| "scan_rows (chain # rows) i = (if chain \<noteq> [] then Some \<lparr>it_index = i, it_entry = chain\<rparr> else scan_rows rows (Suc i))"

definition pj_hash_first :: "'v pj_hash_table_t \<Rightarrow> 'v pj_hash_iterator_t option" where
  "pj_hash_first ht = scan_rows (take (Suc (unat (ht_rows ht))) (ht_table ht)) 0"

definition pj_hash_next :: "'v pj_hash_table_t \<Rightarrow> 'v pj_hash_iterator_t \<Rightarrow> 'v pj_hash_iterator_t option" where
  "pj_hash_next ht it = (case tl (it_entry it) of
     e # es \<Rightarrow> Some (it\<lparr>it_entry := e # es\<rparr>)
   | [] \<Rightarrow> scan_rows (drop (Suc (it_index it)) (take (Suc (unat (ht_rows ht))) (ht_table ht))) (Suc (it_index it)))"

definition pj_hash_this :: "'v pj_hash_iterator_t \<Rightarrow> 'v" where
  "pj_hash_this it = he_value (hd (it_entry it))"

text \<open>The loop of the clients, bounded by the number of iterations: \<^verbatim>\<open>for (it = first; it; it = next) visit(this)\<close>.\<close>

fun hash_walk :: "nat \<Rightarrow> 'v pj_hash_table_t \<Rightarrow> 'v pj_hash_iterator_t option \<Rightarrow> 'v list" where
  "hash_walk (Suc n) ht (Some it) = pj_hash_this it # hash_walk n ht (pj_hash_next ht it)"
| "hash_walk _ ht _ = []"

definition hash_values :: "'v pj_hash_table_t \<Rightarrow> 'v list" where
  "hash_values ht = hash_walk (length (concat (ht_table ht))) ht (pj_hash_first ht)"

subsection \<open>The table as a map\<close>

definition entry_id :: "'v pj_hash_entry \<Rightarrow> 32 word \<times> byte list" where
  "entry_id e = (he_hash e, he_key e)"

definition chain_map :: "'v pj_hash_entry list \<Rightarrow> 32 word \<times> byte list \<Rightarrow> 'v option" where
  "chain_map es = map_of (map (\<lambda>e. (entry_id e, he_value e)) es)"

text \<open>What the table holds under a hash value and a key.\<close>

definition ht_map :: "'v pj_hash_table_t \<Rightarrow> 32 word \<times> byte list \<Rightarrow> 'v option" where
  "ht_map ht i = chain_map (ht_table ht ! ht_row ht (fst i)) i"

definition hash_inv :: "'v pj_hash_table_t \<Rightarrow> bool" where
  "hash_inv ht \<longleftrightarrow> length (ht_table ht) = Suc (unat (ht_rows ht)) \<and>
     (\<forall>r < length (ht_table ht). distinct (map entry_id (ht_table ht ! r)) \<and> (\<forall>e \<in> set (ht_table ht ! r). ht_row ht (he_hash e) = r)) \<and>
     ht_count ht = of_nat (length (concat (ht_table ht)))"

lemma ht_row_le: "ht_row ht h \<le> unat (ht_rows ht)"
  unfolding ht_row_def by (metis and.commute word_and_le1 word_le_nat_alt)

lemma ht_row_less: "hash_inv ht \<Longrightarrow> ht_row ht h < length (ht_table ht)"
  using ht_row_le [of ht h] by (simp add: hash_inv_def)

lemma ht_row_cong [simp]: "ht_row (ht\<lparr>ht_table := t\<rparr>) h = ht_row ht h" "ht_row (ht\<lparr>ht_count := n\<rparr>) h = ht_row ht h"
  by (simp_all add: ht_row_def)

lemma entry_matches_iff: "entry_matches False h k e \<longleftrightarrow> entry_id e = (h, k)"
  by (auto simp: entry_matches_def entry_id_def memcmp_eq_0_iff)

lemma entry_matches_eq: "entry_matches False h k = (\<lambda>e. entry_id e = (h, k))"
  by (rule ext) (rule entry_matches_iff)

lemma find_idx_chain:
  "chain_map es (h, k) = (if find_idx (entry_matches False h k) es < length es then Some (he_value (es ! find_idx (entry_matches False h k) es)) else None)"
  by (induction es) (auto simp: chain_map_def entry_matches_eq)

lemma chain_map_append: "chain_map (xs @ ys) i = (case chain_map xs i of Some v \<Rightarrow> Some v | None \<Rightarrow> chain_map ys i)"
  by (simp add: chain_map_def map_add_def split: option.splits)

lemma chain_map_None_iff: "chain_map es i = None \<longleftrightarrow> i \<notin> entry_id ` set es"
  by (force simp: chain_map_def map_of_eq_None_iff)

lemma chain_map_delete:
  assumes "distinct (map entry_id es)" "p < length es" "entry_id (es ! p) = i"
  shows "chain_map (take p es @ drop (Suc p) es) j = (if j = i then None else chain_map es j)"
proof -
  have es: "es = take p es @ es ! p # drop (Suc p) es" using assms(2) by (simp add: id_take_nth_drop)
  then have "distinct (map entry_id (take p es @ es ! p # drop (Suc p) es))" using assms(1) by simp
  then have "i \<notin> entry_id ` set (take p es)" "i \<notin> entry_id ` set (drop (Suc p) es)" using assms(3) by (auto simp: image_iff)
  then have none: "chain_map (take p es) i = None" "chain_map (drop (Suc p) es) i = None" by (simp_all add: chain_map_None_iff)
  have cons: "chain_map (es ! p # drop (Suc p) es) j = (if j = i then Some (he_value (es ! p)) else chain_map (drop (Suc p) es) j)"
    using assms(3) by (auto simp: chain_map_def)
  have "chain_map es j = chain_map (take p es @ es ! p # drop (Suc p) es) j" using es by simp
  then show ?thesis using none cons by (auto simp: chain_map_append split: option.splits)
qed

lemma chain_map_update:
  assumes "distinct (map entry_id es)" "p < length es" "entry_id (es ! p) = i"
  shows "chain_map (es[p := (es ! p)\<lparr>he_value := v\<rparr>]) j = (if j = i then Some v else chain_map es j)"
proof -
  let ?e = "(es ! p)\<lparr>he_value := v\<rparr>"
  have es: "es = take p es @ es ! p # drop (Suc p) es" using assms(2) by (simp add: id_take_nth_drop)
  then have "distinct (map entry_id (take p es @ es ! p # drop (Suc p) es))" using assms(1) by simp
  then have none: "chain_map (take p es) i = None" using assms(3) by (auto simp: chain_map_None_iff image_iff)
  have ids: "entry_id ?e = i" "he_value ?e = v" using assms(3) by (simp_all add: entry_id_def)
  have "chain_map es j = chain_map (take p es @ es ! p # drop (Suc p) es) j" using es by simp
  moreover have "chain_map (es[p := ?e]) j = chain_map (take p es @ ?e # drop (Suc p) es) j" using assms(2) by (simp add: upd_conv_take_nth_drop)
  ultimately show ?thesis using none ids assms(3) by (auto simp: chain_map_append split: option.splits) (auto simp: chain_map_def)
qed

text \<open>Replacing one chain.\<close>

lemma length_concat_update:
  "r < length xss \<Longrightarrow> length (concat (xss[r := xs])) + length (xss ! r) = length (concat xss) + length xs"
  by (simp add: length_concat map_update sum_list_update)
     (metis elem_le_sum_list length_map nth_map le_add1 le_add_diff_inverse2 add.commute add.left_commute diff_add_assoc)

lemma replace_chain:
  assumes inv: "hash_inv ht" and r: "r < length (ht_table ht)" and d: "distinct (map entry_id es)" and row: "\<forall>e \<in> set es. ht_row ht (he_hash e) = r"
    and n: "n + of_nat (length (ht_table ht ! r)) = ht_count ht + of_nat (length es)"
  shows "hash_inv (ht\<lparr>ht_table := (ht_table ht)[r := es], ht_count := n\<rparr>)"
    and "ht_map (ht\<lparr>ht_table := (ht_table ht)[r := es], ht_count := n\<rparr>) i = (if ht_row ht (fst i) = r then chain_map es i else ht_map ht i)"
proof -
  have "of_nat (length (concat ((ht_table ht)[r := es]))) + of_nat (length (ht_table ht ! r)) = (ht_count ht + of_nat (length es) :: 32 word)"
    using arg_cong [OF length_concat_update [OF r, of es], of "of_nat :: nat \<Rightarrow> 32 word"] inv by (simp add: hash_inv_def)
  then have "n = of_nat (length (concat ((ht_table ht)[r := es])))" using n by (metis add_right_imp_eq)
  then show "hash_inv (ht\<lparr>ht_table := (ht_table ht)[r := es], ht_count := n\<rparr>)"
    using inv d row r by (auto simp: hash_inv_def nth_list_update)
  show "ht_map (ht\<lparr>ht_table := (ht_table ht)[r := es], ht_count := n\<rparr>) i = (if ht_row ht (fst i) = r then chain_map es i else ht_map ht i)"
    using r by (auto simp: ht_map_def nth_list_update)
qed


subsection \<open>The operations refine the map\<close>

lemma hash_get_map: "fst (pj_hash_get ht k h) = ht_map ht (find_hash False k h, k)"
  by (simp add: pj_hash_get_def hash_get_def find_entry_def ht_link_def ht_map_def find_idx_chain Let_def)

lemma hash_get_hash: "snd (pj_hash_get ht k h) = find_hash False k h"
  by (simp add: pj_hash_get_def hash_get_def find_entry_def Let_def)

lemma hash_set_Some: "pool \<or> buf \<or> v = None \<Longrightarrow> \<exists>ht'. hash_set pool ht k h v buf lower = Some ht'"
  by (auto simp: hash_set_def find_entry_def Let_def split: option.splits)

text \<open>What an update makes of the chain of the key, whose entry, if it has one, is at position \<open>p\<close>.\<close>

definition set_chain :: "32 word \<Rightarrow> byte list \<Rightarrow> 'v option \<Rightarrow> 'v pj_hash_entry list \<Rightarrow> nat \<Rightarrow> 'v pj_hash_entry list" where
  "set_chain hash k v es p = (case v of
     None \<Rightarrow> take p es @ drop (Suc p) es
   | Some x \<Rightarrow> if p < length es then es[p := (es ! p)\<lparr>he_value := x\<rparr>] else es @ [\<lparr>he_key = k, he_hash = hash, he_value = x\<rparr>])"

lemma distinct_delete_at: "distinct xs \<Longrightarrow> distinct (take p xs @ drop (Suc p) xs)"
  by (auto dest: set_take_disj_set_drop_if_distinct [of xs p "Suc p"])

lemma set_delete_at: "x \<in> set (take p xs @ drop (Suc p) xs) \<Longrightarrow> x \<in> set xs"
  by (auto dest: in_set_takeD in_set_dropD)

lemma map_update_same: "f (g (xs ! p)) = f (xs ! p) \<Longrightarrow> map f (xs[p := g (xs ! p)]) = map f xs"
  by (cases "p < length xs") (auto simp: map_update list_update_same_conv list_update_beyond)

lemma entry_id_upd [simp]: "entry_id (e\<lparr>he_value := x\<rparr>) = entry_id e"
  by (simp add: entry_id_def)

lemma set_chain_ids:
  assumes "distinct (map entry_id es)" "p = find_idx (entry_matches False h k) es"
  shows "distinct (map entry_id (set_chain h k v es p))"
proof (cases v)
  case None
  then show ?thesis using distinct_delete_at [OF assms(1)] by (simp add: set_chain_def take_map drop_map)
next
  case (Some x)
  then show ?thesis
    using assms find_idx_eq_length_iff [of "entry_matches False h k" es]
    by (auto simp: set_chain_def map_update_same entry_matches_eq entry_id_def find_idx_neq_length [symmetric])
qed

lemma set_chain_hash:
  assumes "e \<in> set (set_chain h k v es p)"
  shows "he_hash e = h \<or> he_hash e \<in> he_hash ` set es"
  using assms set_delete_at [of e p es] by (auto simp: set_chain_def split: option.splits if_splits dest!: set_update_subset_insert [THEN subsetD])

lemma set_chain_map:
  assumes "distinct (map entry_id es)" "p = find_idx (entry_matches False h k) es"
  shows "chain_map (set_chain h k v es p) i = (if i = (h, k) then v else chain_map es i)"
proof (cases "p < length es")
  case True
  then have "entry_id (es ! p) = (h, k)" using find_idx_nth [of "entry_matches False h k" es] assms(2) by (simp add: entry_matches_iff)
  then show ?thesis
    using chain_map_delete [OF assms(1) True, of "(h, k)" i] chain_map_update [OF assms(1) True, of "(h, k)" _ i] True by (auto simp: set_chain_def split: option.splits)
next
  case False
  then have none: "chain_map es (h, k) = None" using assms(2) by (simp add: find_idx_chain)
  have "chain_map [\<lparr>he_key = k, he_hash = h, he_value = x\<rparr>] i = (if i = (h, k) then Some x else None)" for x :: 'a
    by (auto simp: chain_map_def entry_id_def)
  then show ?thesis using False none by (auto simp: set_chain_def chain_map_append split: option.splits)
qed

lemma hash_set_eq:
  assumes "hash_set pool ht k h v buf False = Some ht'" and inv: "hash_inv ht" and hash: "hash = find_hash False k h" and r: "r = ht_row ht hash"
    and es: "es = ht_table ht ! r" and p: "p = find_idx (entry_matches False hash k) es"
  shows "ht' = ht\<lparr>ht_table := (ht_table ht)[r := set_chain hash k v es p], ht_count := ht_count ht + of_nat (length (set_chain hash k v es p)) - of_nat (length es)\<rparr>"
proof -
  have r': "r < length (ht_table ht)" using ht_row_less [OF inv] by (simp add: r)
  have ple: "p \<le> length es" by (simp add: p)
  note set = assms(1) [unfolded hash_set_def find_entry_def Let_def hash [symmetric] r [symmetric] es [symmetric] p [symmetric]]
  show ?thesis
  proof (cases v)
    case None
    have len: "length (set_chain hash k v es p) = (if p < length es then length es - 1 else length es)" using ple by (simp add: set_chain_def None)
    have "of_nat (length es - 1) = (of_nat (length es) - 1 :: 32 word)" if "p < length es" using that by (simp add: of_nat_diff)
    then show ?thesis using set len ple es by (auto simp: None set_chain_def list_update_id split: if_splits)
  next
    case (Some x)
    then show ?thesis using set ple r' es by (auto simp: set_chain_def nth_append split: if_splits)
  qed
qed

lemma hash_set_map:
  assumes inv: "hash_inv ht" and set: "hash_set pool ht k h v buf False = Some ht'"
  shows "hash_inv ht'" "ht_map ht' i = (if i = (find_hash False k h, k) then v else ht_map ht i)"
proof -
  define hash where "hash = find_hash False k h"
  define r where "r = ht_row ht hash"
  define es where "es = ht_table ht ! r"
  define p where "p = find_idx (entry_matches False hash k) es"
  have r: "r < length (ht_table ht)" using ht_row_less [OF inv] by (simp add: r_def)
  have d: "distinct (map entry_id es)" and rows: "\<forall>e \<in> set es. ht_row ht (he_hash e) = r" using inv r by (auto simp: hash_inv_def es_def)
  have rows': "\<forall>e \<in> set (set_chain hash k v es p). ht_row ht (he_hash e) = r" using set_chain_hash [of _ hash k v es p] rows by (force simp: r_def)
  note ht' = hash_set_eq [OF set inv hash_def r_def es_def p_def]
  note chain = replace_chain [OF inv r set_chain_ids [OF d p_def] rows', of "ht_count ht + of_nat (length (set_chain hash k v es p)) - of_nat (length es)", folded ht', simplified es_def [symmetric], simplified]
  show "hash_inv ht'" by (rule chain)
  show "ht_map ht' i = (if i = (find_hash False k h, k) then v else ht_map ht i)"
    unfolding chain set_chain_map [OF d p_def] using r_def hash_def es_def by (auto simp: ht_map_def)
qed

subsection \<open>Iteration\<close>

lemma scan_rows_spec:
  "(scan_rows T i = None \<and> concat T = []) \<or>
   (\<exists>j < length T. scan_rows T i = Some \<lparr>it_index = i + j, it_entry = T ! j\<rparr> \<and> T ! j \<noteq> [] \<and> concat T = T ! j @ concat (drop (Suc j) T))"
proof (induction T arbitrary: i)
  case (Cons c T)
  show ?case
  proof (cases "c = []")
    case True
    then show ?thesis using Cons [of "Suc i"] by (auto intro: exI [of _ "Suc j" for j])
  next
    case False
    then show ?thesis by (auto intro!: exI [of _ 0])
  qed
qed simp

lemma hash_walk_rest:
  assumes T: "T = take (Suc (unat (ht_rows ht))) (ht_table ht)" and "es \<noteq> []"
  shows "hash_walk n ht (Some \<lparr>it_index = i, it_entry = es\<rparr>) = take n (map he_value (es @ concat (drop (Suc i) T)))"
  using assms(2)
proof (induction n arbitrary: i es)
  case (Suc n)
  then obtain e es' where es: "es = e # es'" by (cases es) auto
  show ?case
  proof (cases es')
    case Nil
    consider "scan_rows (drop (Suc i) T) (Suc i) = None" "concat (drop (Suc i) T) = []"
      | j where "scan_rows (drop (Suc i) T) (Suc i) = Some \<lparr>it_index = Suc i + j, it_entry = drop (Suc i) T ! j\<rparr>" "drop (Suc i) T ! j \<noteq> []"
          "concat (drop (Suc i) T) = drop (Suc i) T ! j @ concat (drop (Suc (Suc i + j)) T)"
      using scan_rows_spec [of "drop (Suc i) T" "Suc i"] by (auto simp: add.commute)
    then show ?thesis
    proof cases
      case 1
      then show ?thesis by (cases n) (simp_all add: es Nil pj_hash_this_def pj_hash_next_def T [symmetric])
    next
      case 2
      then show ?thesis using Suc.IH [of "drop (Suc i) T ! j" "Suc i + j"] by (simp add: es Nil pj_hash_this_def pj_hash_next_def T [symmetric])
    qed
  next
    case (Cons e' es'')
    then show ?thesis using Suc.IH [of es' i] by (simp add: es pj_hash_this_def pj_hash_next_def)
  qed
qed simp

lemma hash_values_concat:
  assumes "hash_inv ht"
  shows "hash_values ht = map he_value (concat (ht_table ht))"
proof -
  let ?T = "ht_table ht"
  have T: "?T = take (Suc (unat (ht_rows ht))) ?T" using assms by (simp add: hash_inv_def)
  consider "scan_rows ?T 0 = None" "concat ?T = []"
    | j where "scan_rows ?T 0 = Some \<lparr>it_index = j, it_entry = ?T ! j\<rparr>" "?T ! j \<noteq> []" "concat ?T = ?T ! j @ concat (drop (Suc j) ?T)"
    using scan_rows_spec [of ?T 0] by auto
  then show ?thesis
  proof cases
    case 1
    then show ?thesis unfolding hash_values_def 1(2) by simp
  next
    case 2
    then show ?thesis using hash_walk_rest [OF T, of "?T ! j" "length (concat ?T)" j] T by (simp add: hash_values_def pj_hash_first_def)
  qed
qed

subsection \<open>Creation\<close>

lemma two_power_le: "(2 :: 32 word) ^ k \<le> 2 ^ 31"
proof (cases "k < 32")
  case True
  then have "k \<in> set [0..<32]" by simp
  then show ?thesis by (auto simp: upt_rec)
next
  case False
  have "(2 :: 32 word) ^ 32 = 0" by simp
  then have "(2 :: 32 word) ^ (32 + (k - 32)) = 0" by (simp only: power_add mult_zero_left)
  then have "(2 :: 32 word) ^ k = 0" using False by (metis le_add_diff_inverse not_less)
  then show ?thesis by (simp only: word_zero_le)
qed

lemma unat_two_power: "k < 32 \<Longrightarrow> unat ((2 :: 32 word) ^ k) = 2 ^ k"
proof -
  assume "k < 32"
  then have "k \<in> set [0..<32]" by simp
  then show ?thesis by (auto simp: upt_rec)
qed

lemma push_two_power: "push_bit 1 ((2 :: 32 word) ^ k) = 2 ^ Suc k"
  by (simp add: push_bit_eq_mult)

lemma table_size_loop_diverges:
  assumes "2 ^ 31 < sz"
  shows "table_size_loop sz (2 ^ k) = None"
proof -
  have "s = sz \<longrightarrow> (\<forall>k. t \<noteq> 2 ^ k)" if "table_size_loop s t = Some r" for s t r
  proof (rule table_size_loop.raw_induct [where P = "\<lambda>s t r. s = sz \<longrightarrow> (\<forall>k. t \<noteq> 2 ^ k)", OF _ that], intro impI allI notI)
    fix loop s t r k
    assume IH: "\<And>s t r. loop s t = Some r \<Longrightarrow> s = sz \<longrightarrow> (\<forall>k. t \<noteq> 2 ^ k)" and s: "s = sz" and t: "t = 2 ^ k"
      and body: "(let table_size = push_bit 1 t in if table_size < s then loop s table_size else Some table_size) = Some r"
    have less: "(2 :: 32 word) ^ Suc k < s" unfolding s by (rule order.strict_trans1 [OF two_power_le assms])
    have "loop s (2 ^ Suc k) = Some r" using body less unfolding t push_two_power Let_def by (simp only: if_True)
    then show False using IH s by blast
  qed
  then show ?thesis by (cases "table_size_loop sz (2 ^ k)") blast+
qed

lemma table_size_loop_returns:
  assumes "sz \<le> 2 ^ 31" "k < 31"
  shows "\<exists>n. k < n \<and> n \<le> 31 \<and> table_size_loop sz (2 ^ k) = Some (2 ^ n) \<and> sz \<le> 2 ^ n \<and> (Suc k < n \<longrightarrow> 2 ^ (n - 1) < sz)"
  using assms(2)
proof (induction "31 - k" arbitrary: k)
  case (Suc d)
  have step: "table_size_loop sz (2 ^ k) = (if 2 ^ Suc k < sz then table_size_loop sz (2 ^ Suc k) else Some (2 ^ Suc k))"
    by (simp only: table_size_loop.simps [of sz "2 ^ k"] push_two_power Let_def)
  show ?case
  proof (cases "2 ^ Suc k < sz")
    case True
    then have "Suc k < 31" using assms(1) Suc.prems by (metis Suc_lessI not_less)
    then obtain n where "Suc k < n" "n \<le> 31" "table_size_loop sz (2 ^ Suc k) = Some (2 ^ n)" "sz \<le> 2 ^ n" "Suc (Suc k) < n \<longrightarrow> 2 ^ (n - 1) < sz"
      using Suc(1) [of "Suc k"] Suc(2) by (fastforce simp del: power_Suc)
    moreover have "2 ^ (n - 1) < sz" if "n = Suc (Suc k)" using True that by simp
    moreover have "Suc (Suc k) < n \<or> n = Suc (Suc k)" using \<open>Suc k < n\<close> by auto
    ultimately have "2 ^ (n - 1) < sz" by blast
    then show ?thesis using True step \<open>Suc k < n\<close> \<open>n \<le> 31\<close> \<open>sz \<le> 2 ^ n\<close> \<open>table_size_loop sz (2 ^ Suc k) = Some (2 ^ n)\<close>
      by (intro exI [of _ n]) (simp only: if_True Suc_lessD simp_thms)
  next
    case False
    then show ?thesis using Suc.prems step by (intro exI [of _ "Suc k"]) auto
  qed
qed simp

lemma hash_create_iff: "pj_hash_create sz = None \<longleftrightarrow> 2 ^ 31 < sz"
proof (cases "2 ^ 31 < sz")
  case True
  then show ?thesis using table_size_loop_diverges [of sz 3] by (simp add: pj_hash_create_def)
next
  case False
  then show ?thesis using table_size_loop_returns [of sz 3] by (auto simp: pj_hash_create_def not_less)
qed

lemma hash_create_inv:
  assumes "pj_hash_create sz = Some ht"
  shows "hash_inv ht" "concat (ht_table ht) = []"
proof -
  obtain t where ht: "ht = \<lparr>ht_table = replicate (unat t) [], ht_count = 0, ht_rows = t - 1\<rparr>" and t: "table_size_loop sz 8 = Some t"
    using assms by (auto simp: pj_hash_create_def Let_def split: Option.bind_splits)
  have "\<not> 2 ^ 31 < sz" using assms by (metis hash_create_iff option.distinct(1))
  then obtain n where n: "n \<le> 31" "t = 2 ^ n" using table_size_loop_returns [of sz 3] t by (auto simp: not_less)
  then have "t \<noteq> 0" using unat_two_power [of n] by auto
  then have "unat t = Suc (unat (t - 1))" using unat_minus_one [of t] by (simp add: unat_gt_0)
  then show "hash_inv ht" "concat (ht_table ht) = []" by (auto simp: ht hash_inv_def nth_Cons split: nat.splits)
qed

subsection \<open>The table as a dictionary\<close>

text \<open>
  What the users of the table rely on: a dictionary \<open>get\<close>s what was \<open>put\<close> last under a key, absence included.
\<close>

locale dictionary =
  fixes ok :: "'d \<Rightarrow> bool" and get :: "'d \<Rightarrow> 'k \<Rightarrow> 'v option" and put :: "'d \<Rightarrow> 'k \<Rightarrow> 'v option \<Rightarrow> 'd"
  assumes put_ok: "ok d \<Longrightarrow> ok (put d k v)"
    and get_put: "ok d \<Longrightarrow> get (put d k v) j = (if j = k then v else get d j)"
begin

lemma get_fold_delete:
  "ok d \<Longrightarrow> ok (fold (\<lambda>k d. put d k None) ks d) \<and> get (fold (\<lambda>k d. put d k None) ks d) j = (if j \<in> set ks then None else get d j)"
  by (induction ks arbitrary: d) (auto simp: put_ok get_put)

lemma dom_put: "ok d \<Longrightarrow> dom (get (put d k (Some v))) = insert k (dom (get d))"
  by (auto simp: get_put dom_def)

end

text \<open>Every entry is stored under the hash value of its key.\<close>

definition hash_keyed :: "'v pj_hash_table_t \<Rightarrow> bool" where
  "hash_keyed ht \<longleftrightarrow> hash_inv ht \<and> (\<forall>e \<in> set (concat (ht_table ht)). he_hash e = pj_hash_calc 0 (he_key e))"

definition ht_abs :: "'v pj_hash_table_t \<Rightarrow> byte list \<Rightarrow> 'v option" where
  "ht_abs ht key = ht_map ht (pj_hash_calc 0 key, key)"

definition known_hash :: "byte list \<Rightarrow> 32 word \<Rightarrow> bool" where
  "known_hash key hval \<longleftrightarrow> hval = 0 \<or> hval = pj_hash_calc 0 key"

lemma find_hash_known: "known_hash key hval \<Longrightarrow> find_hash False key hval = pj_hash_calc 0 key"
  by (auto simp: known_hash_def find_hash_def)

lemma hash_get_abs: "known_hash key hval \<Longrightarrow> pj_hash_get ht key hval = (ht_abs ht key, pj_hash_calc 0 key)"
  using hash_get_map [of ht key hval] hash_get_hash [of ht key hval] by (simp add: ht_abs_def find_hash_known prod_eq_iff)

lemma set_concat_update: "x \<in> set (concat (T[r := es])) \<Longrightarrow> x \<in> set es \<or> x \<in> set (concat T)"
  by (auto dest!: set_update_subset_insert [THEN subsetD])

lemma set_chain_entry:
  assumes "e \<in> set (set_chain h k v es p)"
  shows "he_hash e = h \<and> he_key e = k \<or> (\<exists>e' \<in> set es. he_hash e' = he_hash e \<and> he_key e' = he_key e)"
  using assms set_delete_at [of e p es] by (fastforce simp: set_chain_def split: option.splits if_splits dest!: set_update_subset_insert [THEN subsetD])

lemma hash_set_abs:
  assumes ok: "hash_keyed ht" and h: "known_hash key hval" and set: "hash_set pool ht key hval val entry_buf False = Some ht'"
  shows "hash_keyed ht'" "ht_abs ht' = (ht_abs ht)(key := val)"
proof -
  have inv: "hash_inv ht" using ok by (simp add: hash_keyed_def)
  note ht' = hash_set_map [OF inv set, unfolded find_hash_known [OF h]]
  show "ht_abs ht' = (ht_abs ht)(key := val)" by (rule ext) (auto simp: ht_abs_def ht'(2))
  have "he_hash e = pj_hash_calc 0 (he_key e)" if e: "e \<in> set (concat (ht_table ht'))" for e
  proof -
    define r where "r = ht_row ht (find_hash False key hval)"
    have r: "r < length (ht_table ht)" using ht_row_less [OF inv] by (simp add: r_def)
    obtain p where "ht_table ht' = (ht_table ht)[r := set_chain (pj_hash_calc 0 key) key val (ht_table ht ! r) p]"
      using hash_set_eq [OF set inv refl r_def refl refl] by (simp add: find_hash_known [OF h])
    then have "e \<in> set (set_chain (pj_hash_calc 0 key) key val (ht_table ht ! r) p) \<or> e \<in> set (concat (ht_table ht))"
      using e set_concat_update by metis
    then show ?thesis using set_chain_entry [of e "pj_hash_calc 0 key" key val "ht_table ht ! r" p] ok nth_mem [OF r] by (auto simp: hash_keyed_def)
  qed
  then show "hash_keyed ht'" using ht'(1) by (simp add: hash_keyed_def)
qed

interpretation hash_dict: dictionary hash_keyed ht_abs "\<lambda>ht key val. the (pj_hash_set True ht key 0 val)"
proof
  fix d :: "'a pj_hash_table_t" and k v
  assume ok: "hash_keyed d"
  obtain d' where d': "pj_hash_set True d k 0 v = Some d'" using hash_set_Some [of True] by (metis pj_hash_set_def)
  note abs = hash_set_abs [OF ok _ d' [unfolded pj_hash_set_def]]
  show "hash_keyed (the (pj_hash_set True d k 0 v))" using abs(1) d' by (simp add: known_hash_def)
  show "ht_abs (the (pj_hash_set True d k 0 v)) j = (if j = k then v else ht_abs d j)" for j using abs(2) d' by (simp add: known_hash_def)
qed

subsection \<open>Tables reached by the operations\<close>

inductive hash_reachable :: "'v pj_hash_table_t \<Rightarrow> bool" where
  create: "pj_hash_create sz = Some ht \<Longrightarrow> hash_reachable ht"
| set: "hash_reachable ht \<Longrightarrow> known_hash key hval \<Longrightarrow> hash_set pool ht key hval val entry_buf False = Some ht' \<Longrightarrow> hash_reachable ht'"

lemma hash_create_keyed: "pj_hash_create sz = Some ht \<Longrightarrow> hash_keyed ht \<and> ht_abs ht = Map.empty"
proof -
  assume c: "pj_hash_create sz = Some ht"
  note inv = hash_create_inv [OF c]
  have "ht_table ht ! ht_row ht h = []" for h using inv(2) nth_mem [OF ht_row_less [OF inv(1), of h]] by simp
  then show ?thesis using inv by (auto simp: hash_keyed_def ht_abs_def ht_map_def chain_map_def)
qed

lemma hash_reachable_keyed: "hash_reachable ht \<Longrightarrow> hash_keyed ht"
  by (induction rule: hash_reachable.induct) (auto dest: hash_create_keyed hash_set_abs(1))

lemma option_eq_by_Some: "(\<And>v. x = Some v \<longleftrightarrow> y = Some v) \<Longrightarrow> x = y"
  by (metis not_Some_eq)

text \<open>The entries in the order of iteration: no key twice, and together the map.\<close>

lemma distinct_concat_rows:
  assumes "\<forall>r < length T. distinct (map f (T ! r)) \<and> (\<forall>e \<in> set (T ! r). g (f e) = r)"
  shows "distinct (map f (concat T))"
proof -
  have "distinct (map f (concat (take n T)))" if "n \<le> length T" for n
    using that
  proof (induction n)
    case (Suc n)
    have "f e \<noteq> f e'" if e: "e \<in> set (concat (take n T))" and e': "e' \<in> set (T ! n)" for e e'
    proof -
      obtain x where x: "x \<in> set (take n T)" "e \<in> set x" using e by auto
      obtain r where "r < n" "x = T ! r" using x(1) Suc.prems by (auto simp: in_set_conv_nth)
      then have "r < n" "e \<in> set (T ! r)" using x(2) by simp_all
      then show ?thesis using assms e' Suc.prems by (metis Suc_le_lessD less_trans order_less_irrefl)
    qed
    then show ?case using Suc assms by (auto simp: take_Suc_conv_app_nth)
  qed simp
  then show ?thesis by (metis order_refl take_all)
qed

lemma hash_entries:
  assumes ok: "hash_keyed ht"
  shows "distinct (map he_key (concat (ht_table ht)))" "ht_abs ht = map_of (map (\<lambda>e. (he_key e, he_value e)) (concat (ht_table ht)))"
proof -
  let ?T = "ht_table ht"
  have inv: "hash_inv ht" and calc: "\<forall>e \<in> set (concat ?T). he_hash e = pj_hash_calc 0 (he_key e)" using ok by (auto simp: hash_keyed_def)
  have "distinct (map entry_id (concat ?T))"
    by (rule distinct_concat_rows [where g = "\<lambda>i. ht_row ht (fst i)"]) (use inv in \<open>auto simp: hash_inv_def entry_id_def\<close>)
  moreover have "map entry_id (concat ?T) = map (\<lambda>e. (pj_hash_calc 0 (he_key e), he_key e)) (concat ?T)" using calc by (auto simp: entry_id_def)
  ultimately have "distinct (map (\<lambda>e. (pj_hash_calc 0 (he_key e), he_key e)) (concat ?T))" by simp
  then show "distinct (map he_key (concat ?T))"
    by (simp add: distinct_map inj_on_def)
  then have fst: "distinct (map fst (map (\<lambda>e. (he_key e, he_value e)) (concat ?T)))" by (simp add: comp_def)
  show "ht_abs ht = map_of (map (\<lambda>e. (he_key e, he_value e)) (concat ?T))"
  proof
    fix k
    let ?row = "?T ! ht_row ht (pj_hash_calc 0 k)"
    have row: "?row \<in> set ?T" using nth_mem [OF ht_row_less [OF inv]] .
    have "distinct (map entry_id ?row)" using inv ht_row_less [OF inv] by (simp add: hash_inv_def)
    then have *: "distinct (map fst (map (\<lambda>e. (entry_id e, he_value e)) ?row))" by (simp add: comp_def)
    have sub: "e \<in> set ?row \<Longrightarrow> e \<in> set (concat ?T)" for e using row by auto
    have in_row: "e \<in> set ?row" if e: "e \<in> set (concat ?T)" "he_key e = k" for e
    proof -
      obtain x where "x \<in> set ?T" "e \<in> set x" using e(1) by auto
      then obtain r where r: "r < length ?T" "e \<in> set (?T ! r)" by (metis in_set_conv_nth)
      then have "ht_row ht (he_hash e) = r" using inv unfolding hash_inv_def by blast
      then show ?thesis using r calc e by auto
    qed
    have id: "entry_id e = (pj_hash_calc 0 k, k) \<longleftrightarrow> he_key e = k" if "e \<in> set (concat ?T)" for e using that calc by (auto simp: entry_id_def)
    have "ht_abs ht k = Some v \<longleftrightarrow> (\<exists>e \<in> set ?row. entry_id e = (pj_hash_calc 0 k, k) \<and> he_value e = v)" for v
      unfolding ht_abs_def ht_map_def chain_map_def fst_conv map_of_eq_Some_iff [OF *] by (simp only: set_map image_iff prod.inject) metis
    moreover have "(\<exists>e \<in> set ?row. entry_id e = (pj_hash_calc 0 k, k) \<and> he_value e = v) \<longleftrightarrow> (\<exists>e \<in> set (concat ?T). he_key e = k \<and> he_value e = v)" for v using sub in_row id by metis
    moreover have "(\<exists>e \<in> set (concat ?T). he_key e = k \<and> he_value e = v) \<longleftrightarrow> map_of (map (\<lambda>e. (he_key e, he_value e)) (concat ?T)) k = Some v" for v
      unfolding map_of_eq_Some_iff [OF fst] by (simp only: set_map image_iff prod.inject) metis
    ultimately have "ht_abs ht k = Some v \<longleftrightarrow> map_of (map (\<lambda>e. (he_key e, he_value e)) (concat ?T)) k = Some v" for v by (simp only:)
    then show "ht_abs ht k = map_of (map (\<lambda>e. (he_key e, he_value e)) (concat ?T)) k" by (rule option_eq_by_Some)
  qed
qed

lemma hash_values_dom:
  assumes ok: "hash_keyed ht"
  shows "finite (dom (ht_abs ht))" "pj_hash_count ht = of_nat (card (dom (ht_abs ht)))"
    "mset (hash_values ht) = image_mset (\<lambda>k. the (ht_abs ht k)) (mset_set (dom (ht_abs ht)))"
proof -
  let ?es = "concat (ht_table ht)"
  note es = hash_entries [OF ok]
  have inv: "hash_inv ht" using ok by (simp add: hash_keyed_def)
  have dom: "dom (ht_abs ht) = set (map he_key ?es)" by (simp add: es(2) dom_map_of_conv_image_fst image_image)
  then show "finite (dom (ht_abs ht))" by simp
  have "card (dom (ht_abs ht)) = length ?es" using distinct_card [OF es(1)] dom by simp
  then show "pj_hash_count ht = of_nat (card (dom (ht_abs ht)))" using inv by (simp add: pj_hash_count_def hash_inv_def)
  have fst: "distinct (map fst (map (\<lambda>e. (he_key e, he_value e)) ?es))" using es(1) by (simp add: comp_def)
  have "the (ht_abs ht (he_key e)) = he_value e" if "e \<in> set ?es" for e
    using map_of_is_SomeI [OF fst, of "he_key e" "he_value e"] that by (force simp: es(2))
  then have "map he_value ?es = map (\<lambda>k. the (ht_abs ht k)) (map he_key ?es)" by simp
  moreover have "mset_set (dom (ht_abs ht)) = mset (map he_key ?es)" unfolding dom by (rule mset_set_set [OF es(1)])
  ultimately show "mset (hash_values ht) = image_mset (\<lambda>k. the (ht_abs ht k)) (mset_set (dom (ht_abs ht)))"
    unfolding hash_values_concat [OF inv] by (metis mset_map)
qed

subsection \<open>Properties\<close>



text \<open>
  The loop that rounds the requested size up to a power of two shifts its variable to 0 and never ends when more than \<open>2\<^sup>3\<^sup>1\<close> rows are requested.
\<close>

lemma hash_create_table:
  assumes "sz \<le> 2 ^ 31"
  shows "\<exists>n (ht :: 'v pj_hash_table_t). 4 \<le> n \<and> n \<le> 31 \<and> pj_hash_create sz = Some ht \<and> length (ht_table ht) = 2 ^ n \<and> sz \<le> 2 ^ n \<and> ht_abs ht = Map.empty"
proof -
  obtain n where n: "3 < n" "n \<le> 31" "table_size_loop sz 8 = Some (2 ^ n)" "sz \<le> 2 ^ n" using table_size_loop_returns [OF assms, of 3] by auto
  obtain ht :: "'v pj_hash_table_t" where ht: "pj_hash_create sz = Some ht" "length (ht_table ht) = 2 ^ n" using n unat_two_power [of n] by (simp add: pj_hash_create_def)
  show ?thesis using n ht hash_create_keyed [OF ht(1)] by (intro exI [of _ n] exI [of _ ht]) simp
qed

text \<open>The hash value that \<^verbatim>\<open>pj_hash_calc_tolower\<close> gives is not the one under which \<^verbatim>\<open>find_entry\<close> searches, once the key has a byte beyond ASCII.\<close>

lemma hash_tolower_ascii:
  assumes "\<forall>c \<in> set key. c < 0x80"
  shows "snd (pj_hash_calc_tolower 0 key) = find_hash True key 0"
proof -
  have "scast (pj_tolower c) = (ucast (pj_tolower c) :: 32 word)" if c: "c < 0x80" for c :: byte
  proof -
    have "pj_tolower c < 0x80" using c by (auto simp: pj_tolower_def word_less_nat_alt word_le_nat_alt unat_word_ariths)
    then have "uint (pj_tolower c) < 128" by (simp add: word_less_def)
    then have "sint (pj_tolower c) = uint (pj_tolower c)" using signed_take_bit_int_eq_self [of 7 "uint (pj_tolower c)"] uint_ge_0 [of "pj_tolower c"] by (simp add: sint_uint del: uint_ge_0)
    then show ?thesis by (simp only: scast_eq ucast_eq)
  qed
  then show ?thesis using assms by (simp add: pj_hash_calc_tolower_def find_hash_def cong: fold_cong)
qed

lemma hash_tolower_differs: "snd (pj_hash_calc_tolower 0 [0xE9]) \<noteq> find_hash True [0xE9] 0"
  by (simp add: pj_hash_calc_tolower_def find_hash_def pj_tolower_def PJ_HASH_MULTIPLIER_def)

end
