(* ===== verification/TurnSession.thy ===== *)
theory TurnSession
  imports StunSession HashTable
begin

text \<open>
  The TURN client session (pjnath/src/pjnath/turn_session.c): it resolves a server, allocates a relayed address, keeps the allocation, its permissions and its channels
  alive, and carries data to and from peers, as Send and Data indications or as ChannelData.

  Channels and permissions are allocated from the pool of the session and never freed before it: they are the elements of two lists, and a pointer to one is its index. Both
  hash tables hold these indices. The port and the padding of an address are part of the key it has in the tables. Calls to the application are recorded in \<open>tu_out\<close>.
  What the environment returns (the time, random numbers, the results of sending, the transaction identifiers) is in \<open>turn_env\<close>; what the STUN session gets is indexed by the
  number of messages created so far. \<open>tu_lock\<close> counts how often the calling thread holds the group lock. Callbacks of the STUN session run once the STUN session has returned, and operations that the
  application calls from a callback are later steps, except in \<^verbatim>\<open>pj_turn_session_set_server\<close>, which looks at their effect. \<open>None\<close> is a read or a write outside an object.
\<close>

subsection \<open>Constants\<close>

definition PJ_TURN_CHANNEL_MIN :: "16 word" where "PJ_TURN_CHANNEL_MIN = 0x4000"
definition PJ_TURN_CHANNEL_MAX :: "16 word" where "PJ_TURN_CHANNEL_MAX = 0x7FFF"
definition PJ_TURN_CHANNEL_HTABLE_SIZE :: "32 word" where "PJ_TURN_CHANNEL_HTABLE_SIZE = 8"
definition PJ_TURN_PERM_HTABLE_SIZE :: "32 word" where "PJ_TURN_PERM_HTABLE_SIZE = 8"
definition PJ_TURN_INVALID_CHANNEL :: "16 word" where "PJ_TURN_INVALID_CHANNEL = 0xFFFF"
definition PJ_TURN_MAX_DNS_SRV_CNT :: nat where "PJ_TURN_MAX_DNS_SRV_CNT = 4"
definition PJ_TURN_MAX_PKT_LEN :: nat where "PJ_TURN_MAX_PKT_LEN = 3000"
definition PJ_TURN_PERM_TIMEOUT :: int where "PJ_TURN_PERM_TIMEOUT = 300"
definition PJ_TURN_REFRESH_SEC_BEFORE :: "32 word" where "PJ_TURN_REFRESH_SEC_BEFORE = 60"
definition PJ_TURN_KEEP_ALIVE_SEC :: int where "PJ_TURN_KEEP_ALIVE_SEC = 15"

definition PJ_STUN_ALLOCATE_METHOD :: "16 word" where "PJ_STUN_ALLOCATE_METHOD = 3"
definition PJ_STUN_REFRESH_METHOD :: "16 word" where "PJ_STUN_REFRESH_METHOD = 4"
definition PJ_STUN_CREATE_PERM_METHOD :: "16 word" where "PJ_STUN_CREATE_PERM_METHOD = 8"
definition PJ_STUN_CHANNEL_BIND_METHOD :: "16 word" where "PJ_STUN_CHANNEL_BIND_METHOD = 9"
definition PJ_STUN_ALLOCATE_REQUEST :: "16 word" where "PJ_STUN_ALLOCATE_REQUEST = 0x0003"
definition PJ_STUN_REFRESH_REQUEST :: "16 word" where "PJ_STUN_REFRESH_REQUEST = 0x0004"
definition PJ_STUN_SEND_INDICATION :: "16 word" where "PJ_STUN_SEND_INDICATION = 0x0016"
definition PJ_STUN_DATA_INDICATION :: "16 word" where "PJ_STUN_DATA_INDICATION = 0x0017"
definition PJ_STUN_CREATE_PERM_REQUEST :: "16 word" where "PJ_STUN_CREATE_PERM_REQUEST = 0x0008"
definition PJ_STUN_CHANNEL_BIND_REQUEST :: "16 word" where "PJ_STUN_CHANNEL_BIND_REQUEST = 0x0009"
definition PJ_STUN_ATTR_CHANNEL_NUMBER :: "16 word" where "PJ_STUN_ATTR_CHANNEL_NUMBER = 0x000C"
definition PJ_STUN_ATTR_LIFETIME :: "16 word" where "PJ_STUN_ATTR_LIFETIME = 0x000D"
definition PJ_STUN_ATTR_BANDWIDTH :: "16 word" where "PJ_STUN_ATTR_BANDWIDTH = 0x0010"
definition PJ_STUN_ATTR_XOR_PEER_ADDR :: "16 word" where "PJ_STUN_ATTR_XOR_PEER_ADDR = 0x0012"
definition PJ_STUN_ATTR_DATA :: "16 word" where "PJ_STUN_ATTR_DATA = 0x0013"
definition PJ_STUN_ATTR_XOR_RELAYED_ADDR :: "16 word" where "PJ_STUN_ATTR_XOR_RELAYED_ADDR = 0x0016"
definition PJ_STUN_ATTR_REQ_TRANSPORT :: "16 word" where "PJ_STUN_ATTR_REQ_TRANSPORT = 0x0019"
definition PJ_STUN_ATTR_XOR_MAPPED_ADDR :: "16 word" where "PJ_STUN_ATTR_XOR_MAPPED_ADDR = 0x0020"
definition PJ_STUN_ATTR_ICMP :: "16 word" where "PJ_STUN_ATTR_ICMP = 0x0030"

definition PJ_STUN_SET_CH_NB :: "16 word \<Rightarrow> 32 word" where "PJ_STUN_SET_CH_NB chnum = push_bit 16 (ucast chnum)"
definition PJ_STUN_SET_RT_PROTO :: "32 word \<Rightarrow> 32 word" where "PJ_STUN_SET_RT_PROTO proto = push_bit 24 proto"

subsection \<open>State\<close>

datatype pj_turn_state = PJ_TURN_STATE_NULL | PJ_TURN_STATE_RESOLVING | PJ_TURN_STATE_RESOLVED | PJ_TURN_STATE_ALLOCATING | PJ_TURN_STATE_READY
  | PJ_TURN_STATE_DEALLOCATING | PJ_TURN_STATE_DEALLOCATED | PJ_TURN_STATE_DESTROYING

fun turn_state_num :: "pj_turn_state \<Rightarrow> nat" where
  "turn_state_num PJ_TURN_STATE_NULL = 0"
| "turn_state_num PJ_TURN_STATE_RESOLVING = 1"
| "turn_state_num PJ_TURN_STATE_RESOLVED = 2"
| "turn_state_num PJ_TURN_STATE_ALLOCATING = 3"
| "turn_state_num PJ_TURN_STATE_READY = 4"
| "turn_state_num PJ_TURN_STATE_DEALLOCATING = 5"
| "turn_state_num PJ_TURN_STATE_DEALLOCATED = 6"
| "turn_state_num PJ_TURN_STATE_DESTROYING = 7"

lemma turn_state_num_inject: "turn_state_num s = turn_state_num t \<longleftrightarrow> s = t"
  by (cases s; cases t) simp_all

text \<open>The comparisons of the source are those of the numbers.\<close>

instantiation pj_turn_state :: linorder
begin

definition less_eq_pj_turn_state :: "pj_turn_state \<Rightarrow> pj_turn_state \<Rightarrow> bool" where
  "less_eq_pj_turn_state s t \<longleftrightarrow> turn_state_num s \<le> turn_state_num t"

definition less_pj_turn_state :: "pj_turn_state \<Rightarrow> pj_turn_state \<Rightarrow> bool" where
  "less_pj_turn_state s t \<longleftrightarrow> turn_state_num s < turn_state_num t"

instance
  by standard (auto simp: less_eq_pj_turn_state_def less_pj_turn_state_def turn_state_num_inject)

end

definition pj_turn_state_name :: "pj_turn_state \<Rightarrow> string" where
  "pj_turn_state_name state = [''Null'', ''Resolving'', ''Resolved'', ''Allocating'', ''Ready'', ''Deallocating'', ''Deallocated'', ''Destroying''] ! turn_state_num state"

datatype pj_turn_tp_type = PJ_TURN_TP_UDP | PJ_TURN_TP_TCP | PJ_TURN_TP_TLS | PJ_TURN_TP_OTHER

datatype turn_timer_id = TIMER_NONE | TIMER_KEEP_ALIVE | TIMER_DESTROY

record ch_t =
  ch_num :: "16 word"
  ch_bound :: bool
  ch_addr :: pj_sockaddr
  ch_expiry :: pj_time_val

record perm_t =
  pm_hval :: "32 word"
  pm_addr :: pj_sockaddr
  pm_renew :: bool
  pm_expiry :: pj_time_val
  pm_req_token :: nat

record pj_turn_alloc_param =
  ap_bandwidth :: int
  ap_lifetime :: int
  ap_ka_interval :: int

definition pj_turn_alloc_param_default :: pj_turn_alloc_param where
  "pj_turn_alloc_param_default = \<lparr>ap_bandwidth = 0, ap_lifetime = 0, ap_ka_interval = 0\<rparr>"

definition pj_turn_alloc_param_copy :: "pj_turn_alloc_param \<Rightarrow> pj_turn_alloc_param" where
  "pj_turn_alloc_param_copy src = src"

datatype turn_action =
    Turn_send_pkt "byte list" pj_sockaddr
  | Turn_rx_data "byte list" pj_sockaddr
  | Turn_state pj_turn_state pj_turn_state

record pj_turn_session =
  tu_cb_on_rx_data :: bool
  tu_cb_on_state :: bool
  tu_user_data :: nat
  tu_is_destroying :: bool
  tu_lock :: int
  tu_state :: pj_turn_state
  tu_last_status :: pj_status
  tu_pending_destroy :: bool
  tu_stun :: pj_stun_session
  tu_lifetime :: "32 word"
  tu_ka_interval :: int
  tu_expiry :: pj_time_val
  tu_timer :: "turn_timer_id timer_slot"
  tu_default_port :: "16 word"
  tu_af :: nat
  tu_conn_type :: pj_turn_tp_type
  tu_srv_addr_list :: "pj_sockaddr list"
  tu_srv_addr :: "nat option"
  tu_pending_alloc :: bool
  tu_alloc_param :: pj_turn_alloc_param
  tu_mapped_addr :: pj_sockaddr
  tu_relay_addr :: pj_sockaddr
  tu_ch_table :: "nat pj_hash_table_t"
  tu_perm_table :: "nat pj_hash_table_t"
  tu_chs :: "ch_t list"
  tu_perms :: "perm_t list"
  tu_send_ind_tsx_id :: "32 word"
  tu_tx_pkt :: "byte list"
  tu_next_ch :: "16 word"
  tu_out :: "turn_action list"

record turn_env =
  te_now :: pj_time_val
  te_rand :: nat
  te_send :: pj_status
  te_stun :: "nat \<Rightarrow> sess_env"

definition grp_lock_acquire :: "pj_turn_session \<Rightarrow> pj_turn_session" where
  "grp_lock_acquire sess = sess\<lparr>tu_lock := tu_lock sess + 1\<rparr>"

definition grp_lock_release :: "pj_turn_session \<Rightarrow> pj_turn_session" where
  "grp_lock_release sess = sess\<lparr>tu_lock := tu_lock sess - 1\<rparr>"

definition turn_emit :: "turn_action list \<Rightarrow> pj_turn_session \<Rightarrow> pj_turn_session" where
  "turn_emit acts sess = sess\<lparr>tu_out := tu_out sess @ acts\<rparr>"

text \<open>The address of the current server.\<close>

definition server_addr :: "pj_turn_session \<Rightarrow> pj_sockaddr option" where
  "server_addr sess = do { i \<leftarrow> tu_srv_addr sess; deref (tu_srv_addr_list sess) i }"

definition perm_expiry :: "pj_time_val \<Rightarrow> pj_turn_session \<Rightarrow> pj_time_val" where
  "perm_expiry now sess = PJ_TIME_VAL (tv_sec now + PJ_TURN_PERM_TIMEOUT - tu_ka_interval sess - 1) (tv_msec now)"

subsection \<open>Calls into the STUN session\<close>

text \<open>The environment of the next message, and the callback \<^verbatim>\<open>stun_on_send_msg\<close>, which passes each packet on.\<close>

definition stun_env :: "turn_env \<Rightarrow> pj_turn_session \<Rightarrow> sess_env" where
  "stun_env env sess = te_stun env (ss_next_tdata (tu_stun sess))"

definition stun_on_send_msg :: "sess_action \<Rightarrow> turn_action list" where
  "stun_on_send_msg a = (case a of Sess_send_msg token pkt dst_addr \<Rightarrow> [Turn_send_pkt pkt dst_addr] | _ \<Rightarrow> [])"

definition set_stun :: "pj_stun_session \<Rightarrow> pj_turn_session \<Rightarrow> pj_turn_session" where
  "set_stun stun sess = turn_emit (concat (map stun_on_send_msg (ss_out stun))) (sess\<lparr>tu_stun := stun\<lparr>ss_out := []\<rparr>\<rparr>)"

definition create_req :: "turn_env \<Rightarrow> 16 word \<Rightarrow> pj_turn_session \<Rightarrow> pj_status + nat \<times> pj_turn_session" where
  "create_req env msg_type sess = map_sum id (\<lambda>(i, stun). (i, set_stun stun sess)) (pj_stun_session_create_req (stun_env env sess) (tu_stun sess) msg_type PJ_STUN_MAGIC None)"

text \<open>Adding an attribute to a message: the status, and the session with the message changed on success.\<close>

definition tdata_add :: "nat \<Rightarrow> (pj_stun_msg \<Rightarrow> pj_status + pj_stun_msg) \<Rightarrow> pj_turn_session \<Rightarrow> (pj_status \<times> pj_turn_session) option" where
  "tdata_add i add sess = do {
     tdata \<leftarrow> ss_tdata (tu_stun sess) i;
     Some (case add (td_msg tdata) of Inl status \<Rightarrow> (status, sess)
       | Inr msg \<Rightarrow> (PJ_SUCCESS, sess\<lparr>tu_stun := put_tdata i (tdata\<lparr>td_msg := msg\<rparr>) (tu_stun sess)\<rparr>)) }"

definition send_msg :: "turn_env \<Rightarrow> nat \<Rightarrow> bool \<Rightarrow> nat \<Rightarrow> pj_turn_session \<Rightarrow> (pj_status \<times> pj_turn_session) option" where
  "send_msg env token retransmit i sess = do {
     server \<leftarrow> server_addr sess;
     (status, stun) \<leftarrow> pj_stun_session_send_msg (stun_env env sess) (tu_stun sess) token False retransmit server i;
     Some (status, set_stun stun sess) }"

definition is_udp :: "pj_turn_session \<Rightarrow> bool" where
  "is_udp sess \<longleftrightarrow> tu_conn_type sess = PJ_TURN_TP_UDP"

subsection \<open>State changes and shutting down\<close>

definition set_state :: "pj_turn_state \<Rightarrow> pj_turn_session \<Rightarrow> pj_turn_session" where
  "set_state state sess =
     (if state = tu_state sess then sess
      else turn_emit (if tu_cb_on_state sess then [Turn_state (tu_state sess) state] else []) (sess\<lparr>tu_state := state\<rparr>))"

text \<open>The end of \<^verbatim>\<open>sess_shutdown\<close>: the destruction is left to the timer.\<close>

definition schedule_destroy :: "pj_turn_session \<Rightarrow> pj_turn_session" where
  "schedule_destroy sess =
     (let sess = set_state PJ_TURN_STATE_DESTROYING sess in
      sess\<lparr>tu_timer := snd (slot_schedule_w_grp_lock (slot_cancel_if_active (tu_timer sess) TIMER_NONE) 0 TIMER_DESTROY)\<rparr>)"

definition note_status :: "pj_status \<Rightarrow> pj_turn_session \<Rightarrow> pj_turn_session" where
  "note_status status sess = (if tu_last_status sess = PJ_SUCCESS \<and> status \<noteq> PJ_SUCCESS then sess\<lparr>tu_last_status := status\<rparr> else sess)"

text \<open>
  \<^verbatim>\<open>sess_shutdown\<close> and \<^verbatim>\<open>send_refresh\<close> call each other, once: shutting down in the state READY sends a refresh, and a refresh that fails shuts down in the state
  DEALLOCATED. The function below is \<^verbatim>\<open>sess_shutdown\<close> in the states other than READY.
\<close>

definition shutdown_unless_ready :: "pj_status \<Rightarrow> pj_turn_session \<Rightarrow> pj_turn_session" where
  "shutdown_unless_ready status sess =
     (let sess = note_status status sess in
      case tu_state sess of
        PJ_TURN_STATE_RESOLVING \<Rightarrow> sess\<lparr>tu_pending_destroy := True\<rparr>
      | PJ_TURN_STATE_ALLOCATING \<Rightarrow> sess\<lparr>tu_pending_destroy := True\<rparr>
      | PJ_TURN_STATE_READY \<Rightarrow> sess
      | PJ_TURN_STATE_DEALLOCATING \<Rightarrow> sess
      | _ \<Rightarrow> schedule_destroy sess)"

definition send_refresh :: "turn_env \<Rightarrow> int \<Rightarrow> pj_turn_session \<Rightarrow> pj_turn_session option" where
  "send_refresh env lifetime sess =
     (let on_error = (\<lambda>status sess. if lifetime = 0 then shutdown_unless_ready status (set_state PJ_TURN_STATE_DEALLOCATED sess) else sess) in
      if tu_state sess \<noteq> PJ_TURN_STATE_READY then Some sess
      else case create_req env PJ_STUN_REFRESH_REQUEST sess of
        Inl status \<Rightarrow> Some (on_error status sess)
      | Inr (i, sess) \<Rightarrow> do {
          (_, sess) \<leftarrow> (if lifetime \<ge> 0 then tdata_add i (\<lambda>m. pj_stun_msg_add_uint_attr m PJ_STUN_ATTR_LIFETIME (of_int lifetime)) sess else Some (PJ_SUCCESS, sess));
          let sess = (if lifetime = 0 then set_state PJ_TURN_STATE_DEALLOCATING sess else sess);
          (status, sess) \<leftarrow> send_msg env 0 (is_udp sess) i sess;
          Some (if status \<noteq> PJ_SUCCESS then on_error status sess else sess) })"

definition sess_shutdown :: "turn_env \<Rightarrow> pj_status \<Rightarrow> pj_turn_session \<Rightarrow> pj_turn_session option" where
  "sess_shutdown env status sess =
     (if tu_state sess = PJ_TURN_STATE_READY then send_refresh env 0 (note_status status sess) else Some (shutdown_unless_ready status sess))"

definition do_destroy :: "pj_turn_session \<Rightarrow> pj_turn_session option" where
  "do_destroy sess =
     (let sess = grp_lock_acquire sess in
      if tu_is_destroying sess then Some (grp_lock_release sess)
      else do {
        let sess = sess\<lparr>tu_is_destroying := True, tu_timer := slot_cancel_if_active (tu_timer sess) TIMER_NONE\<rparr>;
        (_, stun) \<leftarrow> pj_stun_session_destroy (tu_stun sess);
        Some (grp_lock_release (set_stun stun sess)) })"

definition pj_turn_session_shutdown :: "turn_env \<Rightarrow> pj_turn_session \<Rightarrow> (pj_status \<times> pj_turn_session) option" where
  "pj_turn_session_shutdown env sess = do {
     sess \<leftarrow> sess_shutdown env PJ_SUCCESS (grp_lock_acquire sess);
     Some (PJ_SUCCESS, grp_lock_release sess) }"

definition pj_turn_session_destroy :: "turn_env \<Rightarrow> pj_status \<Rightarrow> pj_turn_session \<Rightarrow> (pj_status \<times> pj_turn_session) option" where
  "pj_turn_session_destroy env last_err sess = do {
     let sess = (if last_err \<noteq> PJ_SUCCESS \<and> tu_last_status sess = PJ_SUCCESS then sess\<lparr>tu_last_status := last_err\<rparr> else sess);
     sess \<leftarrow> sess_shutdown env PJ_SUCCESS (set_state PJ_TURN_STATE_DEALLOCATED sess);
     Some (PJ_SUCCESS, sess) }"

subsection \<open>Channels and permissions\<close>

definition le_bytes16 :: "16 word \<Rightarrow> byte list" where
  "le_bytes16 w = [ucast w, ucast (drop_bit 8 w)]"

text \<open>The bytes of \<^verbatim>\<open>pj_sockaddr_in\<close> and \<^verbatim>\<open>pj_sockaddr_in6\<close>, with the padding, the flow information and the scope cleared.\<close>

definition sockaddr_bytes :: "pj_sockaddr \<Rightarrow> byte list" where
  "sockaddr_bytes a =
     (if sa_family a = PJ_AF_INET then le_bytes16 (of_nat (sa_family a)) @ be_bytes16 (sa_port a) @ sa_addr a @ replicate 8 0
      else if sa_family a = PJ_AF_INET6 then le_bytes16 (of_nat (sa_family a)) @ be_bytes16 (sa_port a) @ replicate 4 0 @ sa_addr a @ replicate 4 0
      else [])"

definition lookup_perm :: "turn_env \<Rightarrow> pj_sockaddr \<Rightarrow> bool \<Rightarrow> pj_turn_session \<Rightarrow> (nat option \<times> pj_turn_session) option" where
  "lookup_perm env addr update sess = do {
     let addr = (if pj_sockaddr_get_port addr \<noteq> 0 then snd (pj_sockaddr_set_port addr 0) else addr);
     let (perm, hval) = pj_hash_get (tu_perm_table sess) (sockaddr_bytes addr) 0;
     (perm, sess) \<leftarrow> (if perm = None \<and> update then do {
         let perm = length (tu_perms sess);
         let p = \<lparr>pm_hval = hval, pm_addr = addr, pm_renew = False, pm_expiry = PJ_TIME_VAL 0 0, pm_req_token = 0\<rparr>;
         table \<leftarrow> pj_hash_set True (tu_perm_table sess) (sockaddr_bytes addr) hval (Some perm);
         Some (Some perm, sess\<lparr>tu_perms := tu_perms sess @ [p], tu_perm_table := table\<rparr>) }
       else Some (perm, sess));
     case perm of
       Some k \<Rightarrow> do {
         p \<leftarrow> deref (tu_perms sess) k;
         Some (perm, if update then sess\<lparr>tu_perms := (tu_perms sess)[k := p\<lparr>pm_expiry := perm_expiry (te_now env) sess\<rparr>]\<rparr> else sess) }
     | None \<Rightarrow> Some (None, sess) }"

definition invalidate_perm :: "nat \<Rightarrow> pj_turn_session \<Rightarrow> pj_turn_session option" where
  "invalidate_perm k sess = do {
     p \<leftarrow> deref (tu_perms sess) k;
     table \<leftarrow> pj_hash_set False (tu_perm_table sess) (sockaddr_bytes (pm_addr p)) (pm_hval p) None;
     Some (sess\<lparr>tu_perm_table := table\<rparr>) }"

text \<open>The loop that invalidates the permissions of a request; the iterator moves on before the entry is removed.\<close>

fun invalidate_all :: "nat \<Rightarrow> nat list \<Rightarrow> pj_turn_session \<Rightarrow> pj_turn_session option" where
  "invalidate_all token [] sess = Some sess"
| "invalidate_all token (k # ks) sess = do {
     p \<leftarrow> deref (tu_perms sess) k;
     sess \<leftarrow> (if pm_req_token p = token then invalidate_perm k sess else Some sess);
     invalidate_all token ks sess }"

definition invalidate_perms :: "nat \<Rightarrow> pj_turn_session \<Rightarrow> pj_turn_session option" where
  "invalidate_perms token sess = invalidate_all token (hash_values (tu_perm_table sess)) sess"

text \<open>The two keys of a channel in the table are the address of the peer and, once it is bound, its number.\<close>

definition register_ch :: "nat \<Rightarrow> ch_t \<Rightarrow> pj_turn_session \<Rightarrow> pj_turn_session option" where
  "register_ch k ch sess =
     (let (found, hval2) = pj_hash_get (tu_ch_table sess) (le_bytes16 (ch_num ch)) 0 in
      if found = None then do {
        table \<leftarrow> pj_hash_set True (tu_ch_table sess) (le_bytes16 (ch_num ch)) hval2 (Some k);
        Some (sess\<lparr>tu_ch_table := table\<rparr>) }
      else Some sess)"

definition lookup_ch_by_addr :: "turn_env \<Rightarrow> pj_sockaddr \<Rightarrow> bool \<Rightarrow> bool \<Rightarrow> pj_turn_session \<Rightarrow> (nat option \<times> pj_turn_session) option" where
  "lookup_ch_by_addr env addr update bind_channel sess = do {
     let (ch, hval) = pj_hash_get (tu_ch_table sess) (sockaddr_bytes addr) 0;
     (ch, sess) \<leftarrow> (if ch = None \<and> update then do {
         let k = length (tu_chs sess);
         let c = \<lparr>ch_num = PJ_TURN_INVALID_CHANNEL, ch_bound = False, ch_addr = addr, ch_expiry = PJ_TIME_VAL 0 0\<rparr>;
         table \<leftarrow> pj_hash_set True (tu_ch_table sess) (sockaddr_bytes addr) hval (Some k);
         Some (Some k, sess\<lparr>tu_chs := tu_chs sess @ [c], tu_ch_table := table\<rparr>) }
       else Some (ch, sess));
     case ch of
       Some k \<Rightarrow> do {
         c \<leftarrow> deref (tu_chs sess) k;
         if update then do {
           let c = c\<lparr>ch_expiry := perm_expiry (te_now env) sess\<rparr>;
           let sess = sess\<lparr>tu_chs := (tu_chs sess)[k := c]\<rparr>;
           sess \<leftarrow> (if bind_channel then register_ch k c sess else Some sess);
           (_, sess) \<leftarrow> lookup_perm env (ch_addr c) True sess;
           Some (ch, sess) }
         else Some (ch, sess) }
     | None \<Rightarrow> Some (None, sess) }"

definition lookup_ch_by_chnum :: "pj_turn_session \<Rightarrow> 16 word \<Rightarrow> nat option" where
  "lookup_ch_by_chnum sess chnum = fst (pj_hash_get (tu_ch_table sess) (le_bytes16 chnum) 0)"

subsection \<open>Permissions requested by the application\<close>

definition destroy_tdata_of :: "nat \<Rightarrow> pj_turn_session \<Rightarrow> pj_turn_session option" where
  "destroy_tdata_of i sess = do { stun \<leftarrow> pj_stun_msg_destroy_tdata i (tu_stun sess); Some (set_stun stun sess) }"

definition add_peer_addr :: "nat \<Rightarrow> pj_sockaddr \<Rightarrow> pj_turn_session \<Rightarrow> (pj_status \<times> pj_turn_session) option" where
  "add_peer_addr i addr sess = tdata_add i (\<lambda>m. pj_stun_msg_add_sockaddr_attr m PJ_STUN_ATTR_XOR_PEER_ADDR True addr) sess"

text \<open>The loop over the addresses of \<^verbatim>\<open>pj_turn_session_set_perm\<close>, which stops at the first failure.\<close>

fun add_perms :: "turn_env \<Rightarrow> nat \<Rightarrow> bool \<Rightarrow> nat \<Rightarrow> pj_sockaddr list \<Rightarrow> pj_turn_session \<Rightarrow> (pj_status \<times> pj_turn_session) option" where
  "add_perms env req_token renew i [] sess = Some (PJ_SUCCESS, sess)"
| "add_perms env req_token renew i (addr # addrs) sess = do {
     (perm, sess) \<leftarrow> lookup_perm env addr True sess;
     k \<leftarrow> perm;
     p \<leftarrow> deref (tu_perms sess) k;
     let p' = p\<lparr>pm_renew := renew, pm_req_token := req_token\<rparr>;
     let sess = sess\<lparr>tu_perms := (tu_perms sess)[k := p']\<rparr>;
     (status, sess) \<leftarrow> (if pm_req_token p \<noteq> req_token then add_peer_addr i addr sess else Some (PJ_SUCCESS, sess));
     if status \<noteq> PJ_SUCCESS then Some (status, sess) else add_perms env req_token renew i addrs sess }"

definition pj_turn_session_set_perm :: "turn_env \<Rightarrow> pj_sockaddr list \<Rightarrow> nat \<Rightarrow> pj_turn_session \<Rightarrow> (pj_status \<times> pj_turn_session) option" where
  "pj_turn_session_set_perm env addrs options sess =
     (if addrs = [] then Some (PJ_EINVAL, sess)
      else let sess = grp_lock_acquire sess in
        case create_req env PJ_STUN_CREATE_PERM_REQUEST sess of
          Inl status \<Rightarrow> Some (status, grp_lock_release sess)
        | Inr (i, sess) \<Rightarrow> do {
            (status, sess) \<leftarrow> add_perms env (te_rand env) (odd options) i addrs sess;
            if status \<noteq> PJ_SUCCESS then do {
              sess \<leftarrow> destroy_tdata_of i sess;
              sess \<leftarrow> invalidate_perms (te_rand env) sess;
              Some (status, grp_lock_release sess) }
            else do {
              (status, sess) \<leftarrow> send_msg env (te_rand env) (is_udp sess) i sess;
              sess \<leftarrow> (if status \<noteq> PJ_SUCCESS then invalidate_perms (te_rand env) sess else Some sess);
              Some (status, grp_lock_release sess) } })"

subsection \<open>Sending data\<close>

definition pj_turn_channel_data :: "16 word \<Rightarrow> 16 word \<Rightarrow> byte list" where
  "pj_turn_channel_data num len = be_bytes16 num @ be_bytes16 len"

text \<open>The length of a ChannelData message with its padding, in the 32 bits of \<^verbatim>\<open>unsigned\<close>.\<close>

definition channel_total_len :: "32 word \<Rightarrow> 32 word" where
  "channel_total_len pkt_len = (pkt_len + 4 + 3) AND NOT 3"

definition send_channel_data :: "turn_env \<Rightarrow> byte list \<Rightarrow> 16 word \<Rightarrow> pj_turn_session \<Rightarrow> (pj_status \<times> pj_turn_session) option" where
  "send_channel_data env pkt num sess =
     (let total_len = unat (channel_total_len (of_nat (length pkt))) in
      if total_len > length (tu_tx_pkt sess) then Some (PJ_ETOOBIG, sess)
      else do {
        tx \<leftarrow> put_bytes (tu_tx_pkt sess) 0 (pj_turn_channel_data num (of_nat (length pkt)) @ pkt);
        server \<leftarrow> server_addr sess;
        Some (te_send env, turn_emit [Turn_send_pkt (take total_len tx) server] (sess\<lparr>tu_tx_pkt := tx\<rparr>)) })"

text \<open>
  The attributes of the indication are local variables. An address of an unknown family leaves its attribute uninitialised: \<open>None\<close>.
\<close>

definition send_indication :: "turn_env \<Rightarrow> byte list \<Rightarrow> pj_sockaddr \<Rightarrow> pj_turn_session \<Rightarrow> (pj_status \<times> pj_turn_session) option" where
  "send_indication env pkt addr sess =
     (let sess = sess\<lparr>tu_send_ind_tsx_id := tu_send_ind_tsx_id sess + 1\<rparr>;
          tsx_id = le_bytes32 0 @ le_bytes32 0 @ le_bytes32 (tu_send_ind_tsx_id sess) in
      case pj_stun_msg_init PJ_STUN_SEND_INDICATION PJ_STUN_MAGIC tsx_id of
        Inl status \<Rightarrow> Some (status, sess)
      | Inr send_ind \<Rightarrow> (case pj_stun_sockaddr_attr_create PJ_STUN_ATTR_XOR_PEER_ADDR True addr of
          Inl _ \<Rightarrow> None
        | Inr peer_attr \<Rightarrow> do {
            let data_attr = INIT_ATTR PJ_STUN_ATTR_DATA 0 (Binary_body PJ_STUN_MAGIC pkt);
            r \<leftarrow> pj_stun_msg_encode (ev_pad (stun_env env sess)) (ev_stk (stun_env env sess)) (send_ind\<lparr>msg_attrs := [peer_attr, data_attr]\<rparr>) (tu_tx_pkt sess) 0 None;
            case r of
              Inl status \<Rightarrow> Some (status, sess)
            | Inr (tx, _, send_ind_len) \<Rightarrow> do {
                server \<leftarrow> server_addr sess;
                Some (te_send env, turn_emit [Turn_send_pkt (take send_ind_len tx) server] (sess\<lparr>tu_tx_pkt := tx\<rparr>)) } }))"

definition pj_turn_session_sendto :: "turn_env \<Rightarrow> byte list \<Rightarrow> pj_sockaddr \<Rightarrow> pj_turn_session \<Rightarrow> (pj_status \<times> pj_turn_session) option" where
  "pj_turn_session_sendto env pkt addr sess =
     (if pkt = [] then Some (PJ_EINVAL, sess)
      else if tu_state sess \<noteq> PJ_TURN_STATE_READY then Some (PJ_EIGNORED, sess)
      else do {
        (perm, sess) \<leftarrow> lookup_perm env addr False (grp_lock_acquire sess);
        (status, sess) \<leftarrow> (if perm = None then pj_turn_session_set_perm env [addr] 0 sess else Some (PJ_SUCCESS, sess));
        if status \<noteq> PJ_SUCCESS then Some (status, grp_lock_release sess)
        else do {
          (ch, sess) \<leftarrow> lookup_ch_by_addr env addr False False sess;
          (status, sess) \<leftarrow> (case ch of
              None \<Rightarrow> send_indication env pkt addr sess
            | Some k \<Rightarrow> do {
                c \<leftarrow> deref (tu_chs sess) k;
                if ch_num c \<noteq> PJ_TURN_INVALID_CHANNEL \<and> ch_bound c then send_channel_data env pkt (ch_num c) sess else send_indication env pkt addr sess });
          Some (status, grp_lock_release sess) } })"

subsection \<open>Binding channels\<close>

definition pj_turn_session_bind_channel :: "turn_env \<Rightarrow> pj_sockaddr \<Rightarrow> pj_turn_session \<Rightarrow> (pj_status \<times> pj_turn_session) option" where
  "pj_turn_session_bind_channel env peer_adr sess =
     (if tu_state sess \<noteq> PJ_TURN_STATE_READY then Some (PJ_EINVALIDOP, sess)
      else let sess = grp_lock_acquire sess in
        case create_req env PJ_STUN_CHANNEL_BIND_REQUEST sess of
          Inl status \<Rightarrow> Some (status, grp_lock_release sess)
        | Inr (i, sess) \<Rightarrow> do {
            (ch, sess) \<leftarrow> lookup_ch_by_addr env peer_adr True False sess;
            k \<leftarrow> ch;
            c \<leftarrow> deref (tu_chs sess) k;
            if ch_num c = PJ_TURN_INVALID_CHANNEL \<and> \<not> tu_next_ch sess \<le> PJ_TURN_CHANNEL_MAX then Some (PJ_ETOOMANY, grp_lock_release sess)
            else do {
              let (num, sess) = (if ch_num c \<noteq> PJ_TURN_INVALID_CHANNEL then (ch_num c, sess)
                else (tu_next_ch sess, sess\<lparr>tu_chs := (tu_chs sess)[k := c\<lparr>ch_num := tu_next_ch sess\<rparr>], tu_next_ch := tu_next_ch sess + 1\<rparr>));
              (_, sess) \<leftarrow> tdata_add i (\<lambda>m. pj_stun_msg_add_uint_attr m PJ_STUN_ATTR_CHANNEL_NUMBER (PJ_STUN_SET_CH_NB num)) sess;
              (_, sess) \<leftarrow> add_peer_addr i peer_adr sess;
              (status, sess) \<leftarrow> send_msg env (Suc k) (is_udp sess) i sess;
              Some (status, grp_lock_release sess) } })"

subsection \<open>Allocation\<close>

definition pj_turn_session_alloc :: "turn_env \<Rightarrow> pj_turn_alloc_param option \<Rightarrow> pj_turn_session \<Rightarrow> (pj_status \<times> pj_turn_session) option" where
  "pj_turn_session_alloc env param sess =
     (if \<not> (tu_state sess > PJ_TURN_STATE_NULL \<and> tu_state sess \<le> PJ_TURN_STATE_RESOLVED) then Some (PJ_EINVALIDOP, sess)
      else
        let sess = grp_lock_acquire sess;
            sess = (case param of Some p \<Rightarrow> sess\<lparr>tu_alloc_param := pj_turn_alloc_param_copy p\<rparr> | None \<Rightarrow> sess) in
        if tu_state sess < PJ_TURN_STATE_RESOLVED then Some (PJ_SUCCESS, grp_lock_release (sess\<lparr>tu_pending_alloc := True\<rparr>))
        else case create_req env PJ_STUN_ALLOCATE_REQUEST sess of
          Inl status \<Rightarrow> Some (status, grp_lock_release sess)
        | Inr (i, sess) \<Rightarrow> do {
            (_, sess) \<leftarrow> tdata_add i (\<lambda>m. pj_stun_msg_add_uint_attr m PJ_STUN_ATTR_REQ_TRANSPORT (PJ_STUN_SET_RT_PROTO 17)) sess;
            (_, sess) \<leftarrow> (if ap_bandwidth (tu_alloc_param sess) > 0
              then tdata_add i (\<lambda>m. pj_stun_msg_add_uint_attr m PJ_STUN_ATTR_BANDWIDTH (of_int (ap_bandwidth (tu_alloc_param sess)))) sess else Some (PJ_SUCCESS, sess));
            (_, sess) \<leftarrow> (if ap_lifetime (tu_alloc_param sess) > 0
              then tdata_add i (\<lambda>m. pj_stun_msg_add_uint_attr m PJ_STUN_ATTR_LIFETIME (of_int (ap_lifetime (tu_alloc_param sess)))) sess else Some (PJ_SUCCESS, sess));
            let sess = set_state PJ_TURN_STATE_ALLOCATING sess;
            (status, sess) \<leftarrow> send_msg env 0 (is_udp sess) i sess;
            Some (status, grp_lock_release (if status \<noteq> PJ_SUCCESS then set_state PJ_TURN_STATE_RESOLVED sess else sess)) })"

text \<open>A failed allocation moves on to the next server as long as there is one.\<close>

definition on_session_fail :: "turn_env \<Rightarrow> 16 word \<Rightarrow> pj_status \<Rightarrow> pj_turn_session \<Rightarrow> pj_turn_session option" where
  "on_session_fail env mth status sess =
     (let sess = sess\<lparr>tu_last_status := status\<rparr> in
      if mth = PJ_STUN_ALLOCATE_METHOD \<and> map_option int (tu_srv_addr sess) = Some (int (length (tu_srv_addr_list sess)) - 1) \<or> mth \<noteq> PJ_STUN_ALLOCATE_METHOD
      then sess_shutdown env status (set_state PJ_TURN_STATE_DEALLOCATED sess)
      else Some (set_state PJ_TURN_STATE_RESOLVED (sess\<lparr>tu_srv_addr := map_option Suc (tu_srv_addr sess)\<rparr>)))"

definition uint_value :: "pj_stun_attr \<Rightarrow> 32 word option" where
  "uint_value a = (case at_body a of Uint_body v \<Rightarrow> Some v | _ \<Rightarrow> None)"

definition sockaddr_value :: "pj_stun_attr \<Rightarrow> pj_sockaddr option" where
  "sockaddr_value a = (case at_body a of Sockaddr_body _ addr \<Rightarrow> Some addr | _ \<Rightarrow> None)"

definition find_sockaddr :: "pj_stun_msg \<Rightarrow> 16 word \<Rightarrow> pj_sockaddr option option" where
  "find_sockaddr msg t = (case pj_stun_msg_find_attr msg t 0 of None \<Rightarrow> Some None | Some a \<Rightarrow> map_option Some (sockaddr_value a))"

text \<open>The keep-alive interval and the time until the next refresh, for a lifetime above two seconds; the difference is taken in 32 bits and read as a signed number.\<close>

definition refresh_times :: "32 word \<Rightarrow> int \<times> int" where
  "refresh_times lifetime =
     (if uint lifetime < PJ_TURN_KEEP_ALIVE_SEC then (uint lifetime - 2, uint lifetime - 3)
      else let timeout = sint (lifetime - PJ_TURN_REFRESH_SEC_BEFORE) in
        (PJ_TURN_KEEP_ALIVE_SEC, if timeout < PJ_TURN_KEEP_ALIVE_SEC then PJ_TURN_KEEP_ALIVE_SEC - 1 else timeout))"

text \<open>The last part of \<^verbatim>\<open>on_allocate_success\<close>.\<close>

definition keep_alive :: "pj_turn_session \<Rightarrow> pj_turn_session" where
  "keep_alive sess =
     (let sess = (if tm_id (tu_timer sess) = TIMER_KEEP_ALIVE then sess\<lparr>tu_timer := slot_cancel_if_active (tu_timer sess) TIMER_NONE\<rparr> else sess) in
      if tu_state sess < PJ_TURN_STATE_DEALLOCATING
      then set_state PJ_TURN_STATE_READY (sess\<lparr>tu_timer := snd (slot_schedule_w_grp_lock (tu_timer sess) (tu_ka_interval sess * 1000) TIMER_KEEP_ALIVE)\<rparr>)
      else sess)"

definition set_lifetime :: "turn_env \<Rightarrow> 32 word \<Rightarrow> pj_turn_session \<Rightarrow> pj_turn_session" where
  "set_lifetime env lifetime sess =
     (let (ka, timeout) = refresh_times lifetime in
      sess\<lparr>tu_lifetime := lifetime, tu_ka_interval := ka, tu_expiry := PJ_TIME_VAL (tv_sec (te_now env) + timeout) (tv_msec (te_now env))\<rparr>)"

definition on_allocate_success :: "turn_env \<Rightarrow> 16 word \<Rightarrow> pj_stun_msg \<Rightarrow> pj_turn_session \<Rightarrow> pj_turn_session option" where
  "on_allocate_success env mth msg sess = (case pj_stun_msg_find_attr msg PJ_STUN_ATTR_LIFETIME 0 of
     None \<Rightarrow> on_session_fail env mth PJNATH_EINSTUNMSG sess
   | Some lf_attr \<Rightarrow> do {
       lifetime \<leftarrow> uint_value lf_attr;
       if lifetime = 0 then sess_shutdown env PJ_SUCCESS (set_state PJ_TURN_STATE_DEALLOCATED sess)
       else if lifetime \<le> 2 then on_session_fail env mth PJ_ETOOSMALL (sess\<lparr>tu_lifetime := lifetime, tu_expiry := te_now env\<rparr>)
       else do {
         let sess = set_lifetime env lifetime sess;
         raddr \<leftarrow> find_sockaddr msg PJ_STUN_ATTR_XOR_RELAYED_ADDR;
         if (case raddr of
               None \<Rightarrow> mth = PJ_STUN_ALLOCATE_METHOD
             | Some a \<Rightarrow> sa_family a \<noteq> tu_af sess \<or> \<not> pj_sockaddr_has_addr a \<or>
                 pj_sockaddr_has_addr (tu_relay_addr sess) \<and> pj_sockaddr_cmp (tu_relay_addr sess) a \<noteq> 0)
         then on_session_fail env mth PJNATH_EINSTUNMSG sess
         else do {
           let sess = (case raddr of Some a \<Rightarrow> if pj_sockaddr_has_addr (tu_relay_addr sess) then sess else sess\<lparr>tu_relay_addr := a\<rparr> | None \<Rightarrow> sess);
           mapped \<leftarrow> find_sockaddr msg PJ_STUN_ATTR_XOR_MAPPED_ADDR;
           let sess = (case mapped of Some a \<Rightarrow> sess\<lparr>tu_mapped_addr := a\<rparr> | None \<Rightarrow> sess);
           Some (keep_alive sess) } } })"

subsection \<open>Callbacks of the STUN session\<close>

definition is_success :: "pj_status \<Rightarrow> pj_stun_msg option \<Rightarrow> bool option" where
  "is_success status response =
     (if status \<noteq> PJ_SUCCESS then Some False else map_option (\<lambda>r. STUN_IS_SUCCESS_RESPONSE (mh_type (msg_hdr r))) response)"

text \<open>The code of the ERROR-CODE of a response; the outer \<open>None\<close> is an attribute of another kind.\<close>

definition find_errcode :: "pj_stun_msg option \<Rightarrow> nat option option" where
  "find_errcode response = (case response of None \<Rightarrow> Some None
   | Some r \<Rightarrow> (case pj_stun_msg_find_attr r PJ_STUN_ATTR_ERROR_CODE 0 of None \<Rightarrow> Some None
     | Some a \<Rightarrow> (case at_body a of Errcode_body code _ \<Rightarrow> Some (Some code) | _ \<Rightarrow> None)))"

definition on_allocate_complete :: "turn_env \<Rightarrow> pj_status \<Rightarrow> pj_stun_msg option \<Rightarrow> pj_turn_session \<Rightarrow> pj_turn_session option" where
  "on_allocate_complete env status response sess =
     (if tu_pending_destroy sess
      then sess_shutdown env PJ_SUCCESS (sess\<lparr>tu_state := (if status = PJ_SUCCESS then PJ_TURN_STATE_READY else PJ_TURN_STATE_DEALLOCATED)\<rparr>)
      else do {
        ok \<leftarrow> is_success status response;
        if ok then do { r \<leftarrow> response; on_allocate_success env PJ_STUN_ALLOCATE_METHOD r sess }
        else do {
          status \<leftarrow> (if status = PJ_SUCCESS then do {
              code \<leftarrow> find_errcode response;
              Some (case code of Some c \<Rightarrow> PJ_STATUS_FROM_STUN_CODE c | None \<Rightarrow> PJNATH_EINSTUNMSG) }
            else Some status);
          on_session_fail env PJ_STUN_ALLOCATE_METHOD status sess } })"

definition on_refresh_complete :: "turn_env \<Rightarrow> pj_status \<Rightarrow> pj_stun_msg option \<Rightarrow> pj_turn_session \<Rightarrow> pj_turn_session option" where
  "on_refresh_complete env status response sess = do {
     ok \<leftarrow> is_success status response;
     if ok then do { r \<leftarrow> response; on_allocate_success env PJ_STUN_REFRESH_METHOD r sess }
     else do {
       code \<leftarrow> find_errcode response;
       on_session_fail env PJ_STUN_REFRESH_METHOD (case code of Some c \<Rightarrow> PJ_STATUS_FROM_STUN_CODE c | None \<Rightarrow> status) sess } }"

text \<open>The token of a ChannelBind request is the pointer to the channel.\<close>

definition on_channel_bind_complete :: "turn_env \<Rightarrow> pj_status \<Rightarrow> nat \<Rightarrow> pj_stun_msg option \<Rightarrow> pj_turn_session \<Rightarrow> pj_turn_session option" where
  "on_channel_bind_complete env status token response sess = do {
     ok \<leftarrow> is_success status response;
     if ok then do {
       k \<leftarrow> (case token of 0 \<Rightarrow> None | Suc k \<Rightarrow> Some k);
       c \<leftarrow> deref (tu_chs sess) k;
       (_, sess) \<leftarrow> lookup_ch_by_addr env (ch_addr c) True True (sess\<lparr>tu_chs := (tu_chs sess)[k := c\<lparr>ch_bound := True\<rparr>]\<rparr>);
       Some sess }
     else do {
       code \<leftarrow> find_errcode response;
       let status' = (case code of Some c \<Rightarrow> PJ_STATUS_FROM_STUN_CODE c | None \<Rightarrow> status);
       if code = Some PJ_STUN_SC_ALLOCATION_MISMATCH \<or> response = None \<and> status = PJ_STATUS (int PJ_STUN_SC_ALLOCATION_MISMATCH)
       then on_session_fail env PJ_STUN_CHANNEL_BIND_METHOD status' sess
       else Some sess } }"

definition on_create_perm_complete :: "turn_env \<Rightarrow> pj_status \<Rightarrow> nat \<Rightarrow> pj_stun_msg option \<Rightarrow> pj_turn_session \<Rightarrow> pj_turn_session option" where
  "on_create_perm_complete env status token response sess = do {
     ok \<leftarrow> is_success status response;
     if ok then Some sess
     else do {
       code \<leftarrow> find_errcode response;
       sess \<leftarrow> invalidate_perms token sess;
       if code = Some PJ_STUN_SC_ALLOCATION_MISMATCH \<or> response = None \<and> status = PJ_STATUS (int PJ_STUN_SC_ALLOCATION_MISMATCH)
       then on_session_fail env PJ_STUN_CREATE_PERM_METHOD status sess
       else Some sess } }"

text \<open>The message about an unexpected response reads its header.\<close>

definition stun_on_request_complete ::
  "turn_env \<Rightarrow> pj_status \<Rightarrow> nat \<Rightarrow> pj_stun_tx_data \<Rightarrow> pj_stun_msg option \<Rightarrow> pj_turn_session \<Rightarrow> pj_turn_session option" where
  "stun_on_request_complete env status token tdata response sess =
     (let mth = PJ_STUN_GET_METHOD (mh_type (msg_hdr (td_msg tdata))) in
      if mth = PJ_STUN_ALLOCATE_METHOD then on_allocate_complete env status response sess
      else if mth = PJ_STUN_REFRESH_METHOD then on_refresh_complete env status response sess
      else if mth = PJ_STUN_CHANNEL_BIND_METHOD then on_channel_bind_complete env status token response sess
      else if mth = PJ_STUN_CREATE_PERM_METHOD then on_create_perm_complete env status token response sess
      else map_option (\<lambda>_. sess) response)"

definition stun_on_rx_indication :: "pj_stun_msg \<Rightarrow> pj_turn_session \<Rightarrow> (pj_status \<times> pj_turn_session) option" where
  "stun_on_rx_indication msg sess =
     (if mh_type (msg_hdr msg) \<noteq> PJ_STUN_DATA_INDICATION then Some (PJ_EINVALIDOP, sess)
      else if pj_stun_msg_find_attr msg PJ_STUN_ATTR_ICMP 0 \<noteq> None then Some (PJ_SUCCESS, sess)
      else case (pj_stun_msg_find_attr msg PJ_STUN_ATTR_XOR_PEER_ADDR 0, pj_stun_msg_find_attr msg PJ_STUN_ATTR_DATA 0) of
        (Some peer_attr, Some data_attr) \<Rightarrow>
          if tu_cb_on_rx_data sess then do {
            addr \<leftarrow> sockaddr_value peer_attr;
            data \<leftarrow> (case at_body data_attr of Binary_body _ d \<Rightarrow> Some d | _ \<Rightarrow> None);
            Some (PJ_SUCCESS, turn_emit [Turn_rx_data data addr] sess) }
          else Some (PJ_SUCCESS, sess)
      | _ \<Rightarrow> Some (PJ_EINVALIDOP, sess))"

text \<open>
  What the STUN session reported, in order. \<open>store\<close> holds its messages from before the call, among them those of the requests that completed. The session does not register
  a callback for requests. The first component is what the callback for an indication returned, which is what the STUN session returns then.
\<close>

fun stun_callbacks ::
  "turn_env \<Rightarrow> (nat \<Rightarrow> pj_stun_tx_data option) \<Rightarrow> sess_action list \<Rightarrow> pj_status \<Rightarrow> pj_turn_session \<Rightarrow> (pj_status \<times> pj_turn_session) option" where
  "stun_callbacks env store [] status sess = Some (status, sess)"
| "stun_callbacks env store (Sess_send_msg token pkt a # acts) status sess = stun_callbacks env store acts status (turn_emit [Turn_send_pkt pkt a] sess)"
| "stun_callbacks env store (Sess_request_complete st token i response # acts) status sess = do {
     tdata \<leftarrow> store i;
     sess \<leftarrow> stun_on_request_complete env st token tdata response sess;
     stun_callbacks env store acts status sess }"
| "stun_callbacks env store (Sess_rx_indication pkt msg token a # acts) status sess = do {
     (status, sess) \<leftarrow> stun_on_rx_indication msg sess;
     stun_callbacks env store acts status sess }"
| "stun_callbacks env store (Sess_rx_request pkt rdata token a # acts) status sess = stun_callbacks env store acts status sess"

definition stun_returned ::
  "turn_env \<Rightarrow> pj_status \<Rightarrow> pj_stun_session \<Rightarrow> pj_turn_session \<Rightarrow> (pj_status \<times> pj_turn_session) option" where
  "stun_returned env status stun sess = stun_callbacks env (ss_tdata (tu_stun sess)) (ss_out stun) status (sess\<lparr>tu_stun := stun\<lparr>ss_out := []\<rparr>\<rparr>)"

subsection \<open>Receiving\<close>

text \<open>The handling of a ChannelData message; the result includes the number of bytes it takes.\<close>

definition on_channel_data :: "byte list \<Rightarrow> pj_turn_session \<Rightarrow> (pj_status \<times> nat \<times> pj_turn_session) option" where
  "on_channel_data pkt sess = do {
     ch_number \<leftarrow> GETVAL16H pkt 0;
     len \<leftarrow> GETVAL16H pkt 2;
     if length pkt < unat len + 4 then Some (PJ_ETOOSMALL, if is_udp sess then length pkt else 0, sess)
     else do {
       let parsed_len = align4 (unat len) + 4;
       case lookup_ch_by_chnum sess ch_number of
         None \<Rightarrow> Some (PJ_ENOTFOUND, parsed_len, sess)
       | Some k \<Rightarrow> do {
           c \<leftarrow> deref (tu_chs sess) k;
           if \<not> ch_bound c then Some (PJ_ENOTFOUND, parsed_len, sess)
           else Some (PJ_SUCCESS, parsed_len, if tu_cb_on_rx_data sess then turn_emit [Turn_rx_data (take (unat len) (drop 4 pkt)) (ch_addr c)] sess else sess) } } }"

definition pj_turn_session_on_rx_pkt :: "turn_env \<Rightarrow> byte list \<Rightarrow> pj_turn_session \<Rightarrow> (pj_status \<times> nat \<times> pj_turn_session) option" where
  "pj_turn_session_on_rx_pkt env pkt sess = do {
     let sess = grp_lock_acquire sess;
     b \<leftarrow> deref pkt 0;
     if b AND 0xC0 = 0 then do {
       server \<leftarrow> server_addr sess;
       (status, parsed_len, stun) \<leftarrow> pj_stun_session_on_rx_pkt (stun_env env sess) (tu_stun sess) pkt
         (PJ_STUN_CHECK_PACKET OR PJ_STUN_NO_FINGERPRINT_CHECK OR (if is_udp sess then PJ_STUN_IS_DATAGRAM else 0)) 0 server;
       (status, sess) \<leftarrow> stun_returned env status stun sess;
       Some (status, parsed_len, grp_lock_release sess) }
     else if length pkt < 4 then Some (PJ_ETOOSMALL, 0, sess)
     else do {
       (status, parsed_len, sess) \<leftarrow> on_channel_data pkt sess;
       Some (status, parsed_len, grp_lock_release sess) } }"

text \<open>The timers of the STUN session.\<close>

definition stun_retransmit_timer :: "turn_env \<Rightarrow> nat \<Rightarrow> pj_turn_session \<Rightarrow> pj_turn_session option" where
  "stun_retransmit_timer env i sess = do {
     stun \<leftarrow> on_retransmit_timer (stun_env env sess) i (tu_stun sess);
     (_, sess) \<leftarrow> stun_returned env PJ_SUCCESS stun sess;
     Some sess }"

definition stun_destroy_timer :: "turn_env \<Rightarrow> nat \<Rightarrow> pj_turn_session \<Rightarrow> pj_turn_session option" where
  "stun_destroy_timer env i sess = do {
     stun \<leftarrow> on_destroy_timer i (tu_stun sess);
     (_, sess) \<leftarrow> stun_returned env PJ_SUCCESS stun sess;
     Some sess }"

subsection \<open>The timer of the session\<close>

text \<open>
  The loop that renews permissions, with the request it fills, if there is one, and the number of permissions in it. \<open>Inl\<close>: the loop gave up.
\<close>

definition renew_perm :: "turn_env \<Rightarrow> nat \<Rightarrow> perm_t \<Rightarrow> nat option \<Rightarrow> pj_turn_session \<Rightarrow> (pj_turn_session + nat \<times> pj_turn_session) option" where
  "renew_perm env k p tdata sess = (case (case tdata of Some i \<Rightarrow> Inr (i, sess) | None \<Rightarrow> create_req env PJ_STUN_CREATE_PERM_REQUEST sess) of
     Inl status \<Rightarrow> Some (Inl sess)
   | Inr (i, sess) \<Rightarrow> do {
       (status, sess) \<leftarrow> add_peer_addr i (pm_addr p) sess;
       if status \<noteq> PJ_SUCCESS then map_option Inl (destroy_tdata_of i sess)
       else Some (Inr (i, sess\<lparr>tu_perms := (tu_perms sess)[k := p\<lparr>pm_expiry := perm_expiry (te_now env) sess, pm_req_token := te_rand env\<rparr>]\<rparr>)) })"

fun refresh_perms :: "turn_env \<Rightarrow> nat list \<Rightarrow> nat option \<Rightarrow> nat \<Rightarrow> pj_turn_session \<Rightarrow> (pj_turn_session + nat option \<times> nat \<times> pj_turn_session) option" where
  "refresh_perms env [] tdata cnt sess = Some (Inr (tdata, cnt, sess))"
| "refresh_perms env (k # ks) tdata cnt sess = do {
     p \<leftarrow> deref (tu_perms sess) k;
     if tv_sec (pm_expiry p) - 1 \<le> tv_sec (te_now env) then
       if pm_renew p then do {
         r \<leftarrow> renew_perm env k p tdata sess;
         case r of Inl sess \<Rightarrow> Some (Inl sess) | Inr (i, sess) \<Rightarrow> refresh_perms env ks (Some i) (Suc cnt) sess }
       else do { sess \<leftarrow> invalidate_perm k sess; refresh_perms env ks tdata cnt sess }
     else refresh_perms env ks tdata cnt sess }"

definition refresh_permissions :: "turn_env \<Rightarrow> pj_turn_session \<Rightarrow> (nat \<times> pj_turn_session) option" where
  "refresh_permissions env sess = do {
     r \<leftarrow> refresh_perms env (hash_values (tu_perm_table sess)) None 0 sess;
     case r of
       Inl sess \<Rightarrow> Some (0, sess)
     | Inr (None, cnt, sess) \<Rightarrow> Some (cnt, sess)
     | Inr (Some i, cnt, sess) \<Rightarrow> do {
         (status, sess) \<leftarrow> send_msg env (te_rand env) (is_udp sess) i sess;
         Some (if status \<noteq> PJ_SUCCESS then 0 else cnt, sess) } }"

fun refresh_channels :: "turn_env \<Rightarrow> nat list \<Rightarrow> bool \<Rightarrow> pj_turn_session \<Rightarrow> (bool \<times> pj_turn_session) option" where
  "refresh_channels env [] pkt_sent sess = Some (pkt_sent, sess)"
| "refresh_channels env (k # ks) pkt_sent sess = do {
     c \<leftarrow> deref (tu_chs sess) k;
     if ch_bound c \<and> PJ_TIME_VAL_LTE (ch_expiry c) (te_now env) then do {
       (_, sess) \<leftarrow> pj_turn_session_bind_channel env (ch_addr c) sess;
       refresh_channels env ks True sess }
     else refresh_channels env ks pkt_sent sess }"

definition send_blank_ind :: "turn_env \<Rightarrow> pj_turn_session \<Rightarrow> pj_turn_session option" where
  "send_blank_ind env sess = (case pj_stun_session_create_ind (stun_env env sess) (tu_stun sess) PJ_STUN_SEND_INDICATION of
     Inl rc \<Rightarrow> Some sess
   | Inr (i, stun) \<Rightarrow> do {
       (_, sess) \<leftarrow> tdata_add i (\<lambda>m. pj_stun_msg_add_binary_attr m PJ_STUN_ATTR_DATA []) (set_stun stun sess);
       (_, sess) \<leftarrow> send_msg env 0 False i sess;
       Some sess })"

definition on_keep_alive :: "turn_env \<Rightarrow> pj_turn_session \<Rightarrow> pj_turn_session option" where
  "on_keep_alive env sess =
     (if tu_state sess \<ge> PJ_TURN_STATE_DEALLOCATING then Some sess
      else do {
        let due = PJ_TIME_VAL_LTE (tu_expiry sess) (te_now env);
        sess \<leftarrow> (if due then send_refresh env (if ap_lifetime (tu_alloc_param sess) = 0 then -1 else ap_lifetime (tu_alloc_param sess)) sess else Some sess);
        (pkt_sent, sess) \<leftarrow> refresh_channels env (hash_values (tu_ch_table sess)) due sess;
        (cnt, sess) \<leftarrow> refresh_permissions env sess;
        sess \<leftarrow> (if \<not> (pkt_sent \<or> cnt \<noteq> 0) \<and> ap_ka_interval (tu_alloc_param sess) > 0 then send_blank_ind env sess else Some sess);
        Some (if \<not> due then sess\<lparr>tu_timer := snd (slot_schedule_w_grp_lock (tu_timer sess) (tu_ka_interval sess * 1000) TIMER_KEEP_ALIVE)\<rparr> else sess) })"

text \<open>The heap has taken the entry out when it calls back.\<close>

definition on_timer_event :: "turn_env \<Rightarrow> pj_turn_session \<Rightarrow> pj_turn_session option" where
  "on_timer_event env sess = do {
     let sess = grp_lock_acquire sess;
     let eid = tm_id (tu_timer sess);
     let sess = sess\<lparr>tu_timer := \<lparr>tm_id = TIMER_NONE, tm_delay = None\<rparr>\<rparr>;
     sess \<leftarrow> (case eid of TIMER_KEEP_ALIVE \<Rightarrow> on_keep_alive env sess | TIMER_DESTROY \<Rightarrow> do_destroy sess | TIMER_NONE \<Rightarrow> Some sess);
     Some (grp_lock_release sess) }"

subsection \<open>Resolving the server\<close>

text \<open>
  The DNS resolver calls back with the ports and IPv4 addresses of the servers. The callback writes them through \<^verbatim>\<open>pj_sockaddr_in\<close>, so that in an IPv6 session the address
  lands in the flow information.
\<close>

definition srv_entry :: "nat \<Rightarrow> 16 word \<Rightarrow> byte list \<Rightarrow> pj_sockaddr" where
  "srv_entry af port a = \<lparr>sa_family = af, sa_port = port, sa_addr = (if af = PJ_AF_INET6 then replicate 16 0 else a)\<rparr>"

definition dns_srv_resolver_cb :: "turn_env \<Rightarrow> pj_status \<Rightarrow> (16 word \<times> byte list list) list \<Rightarrow> pj_turn_session \<Rightarrow> pj_turn_session option" where
  "dns_srv_resolver_cb env status recs sess =
     (if status \<noteq> PJ_SUCCESS \<or> tu_pending_destroy sess then sess_shutdown env status (set_state PJ_TURN_STATE_DESTROYING sess)
      else
        let addrs = take PJ_TURN_MAX_DNS_SRV_CNT (concat (map (\<lambda>(port, as). map (srv_entry (tu_af sess) port) as) recs));
            sess = set_state PJ_TURN_STATE_RESOLVED (sess\<lparr>tu_srv_addr_list := addrs, tu_srv_addr := Some 0\<rparr>) in
        if tu_pending_alloc sess then map_option snd (pj_turn_session_alloc env None sess) else Some sess)"

text \<open>
  \<open>is_ip_addr\<close>: the name is the text of an address. \<open>resolver\<close>: what \<^verbatim>\<open>pj_dns_srv_resolve\<close> returns, if there is a resolver. \<open>ai\<close>: what \<^verbatim>\<open>pj_getaddrinfo\<close> returns.
  \<open>user\<close>: what the application does when it is told that the session is resolving.
\<close>

definition set_server_addrs ::
  "(pj_turn_session \<Rightarrow> pj_turn_session) \<Rightarrow> pj_status + pj_sockaddr list \<Rightarrow> bool \<Rightarrow> int \<Rightarrow> pj_turn_session \<Rightarrow> pj_status \<times> pj_turn_session" where
  "set_server_addrs user ai port_ok default_port sess =
     (if \<not> port_ok then (PJ_EINVAL, sess)
      else
        let sess = user (set_state PJ_TURN_STATE_RESOLVING (sess\<lparr>tu_default_port := of_int default_port\<rparr>)) in
        if tu_state sess \<noteq> PJ_TURN_STATE_RESOLVING then (PJ_ECANCELLED, grp_lock_release sess)
        else case ai of
          Inl status \<Rightarrow> (status, grp_lock_release sess)
        | Inr addrs \<Rightarrow>
            let addrs = map (\<lambda>a. a\<lparr>sa_family := tu_af sess, sa_port := tu_default_port sess\<rparr>) (take PJ_TURN_MAX_DNS_SRV_CNT addrs) in
            (PJ_SUCCESS, grp_lock_release (set_state PJ_TURN_STATE_RESOLVED (sess\<lparr>tu_srv_addr_list := addrs, tu_srv_addr := Some 0\<rparr>))))"

definition pj_turn_session_set_server ::
  "(pj_turn_session \<Rightarrow> pj_turn_session) \<Rightarrow> bool \<Rightarrow> pj_status option \<Rightarrow> pj_status + pj_sockaddr list \<Rightarrow> int \<Rightarrow> pj_turn_session \<Rightarrow> pj_status \<times> pj_turn_session" where
  "pj_turn_session_set_server user is_ip_addr resolver ai default_port sess =
     (let port_ok = (default_port > 0 \<and> default_port < 65536) in
      if tu_state sess \<noteq> PJ_TURN_STATE_NULL then (PJ_EINVALIDOP, sess)
      else let sess = grp_lock_acquire sess in
        case resolver of
          Some st \<Rightarrow>
            if is_ip_addr then set_server_addrs user ai port_ok default_port sess
            else if tu_conn_type sess = PJ_TURN_TP_OTHER then (PJNATH_ETURNINTP, grp_lock_release sess)
            else
              let sess = (if port_ok then sess\<lparr>tu_default_port := of_int default_port\<rparr> else sess);
                  sess = user (set_state PJ_TURN_STATE_RESOLVING sess) in
              if tu_state sess \<noteq> PJ_TURN_STATE_RESOLVING then (PJ_ECANCELLED, grp_lock_release sess)
              else if st \<noteq> PJ_SUCCESS then (st, grp_lock_release (set_state PJ_TURN_STATE_NULL sess))
              else (st, grp_lock_release sess)
        | None \<Rightarrow> set_server_addrs user ai port_ok default_port sess)"

subsection \<open>Creation and settings\<close>

text \<open>
  \<open>lock_status\<close>: what creating the group lock returns; creating the STUN session does not fail. The session copies the configuration of the STUN session and registers
  the callbacks for completed requests and for indications.
\<close>

definition pj_turn_session_create ::
  "32 word \<Rightarrow> 32 word \<Rightarrow> byte list \<Rightarrow> nat \<Rightarrow> pj_turn_tp_type \<Rightarrow> pj_status \<Rightarrow> bool \<Rightarrow> bool \<Rightarrow> nat \<Rightarrow> (pj_status + pj_turn_session) option" where
  "pj_turn_session_create rto res_cache software_name af conn_type lock_status on_rx_data on_state data = do {
     ch_table \<leftarrow> pj_hash_create PJ_TURN_CHANNEL_HTABLE_SIZE;
     perm_table \<leftarrow> pj_hash_create PJ_TURN_PERM_HTABLE_SIZE;
     Some (if lock_status \<noteq> PJ_SUCCESS then Inl lock_status
       else Inr \<lparr>tu_cb_on_rx_data = on_rx_data, tu_cb_on_state = on_state, tu_user_data = data, tu_is_destroying = False, tu_lock = 0,
         tu_state = PJ_TURN_STATE_NULL, tu_last_status = PJ_SUCCESS, tu_pending_destroy = False,
         tu_stun = pj_stun_session_create rto res_cache software_name False True True False,
         tu_lifetime = 0, tu_ka_interval = PJ_TURN_KEEP_ALIVE_SEC, tu_expiry = PJ_TIME_VAL 0 0, tu_timer = \<lparr>tm_id = TIMER_NONE, tm_delay = None\<rparr>,
         tu_default_port = 0, tu_af = af, tu_conn_type = conn_type, tu_srv_addr_list = [], tu_srv_addr = None, tu_pending_alloc = False,
         tu_alloc_param = pj_turn_alloc_param_default, tu_mapped_addr = no_addr, tu_relay_addr = no_addr, tu_ch_table = ch_table, tu_perm_table = perm_table,
         tu_chs = [], tu_perms = [], tu_send_ind_tsx_id = 0, tu_tx_pkt = replicate PJ_TURN_MAX_PKT_LEN 0, tu_next_ch = PJ_TURN_CHANNEL_MIN, tu_out = []\<rparr>) }"

text \<open>The handler of the group lock: the STUN session releases its messages, and the pool with the channels and permissions goes away.\<close>

definition turn_sess_on_destroy :: "pj_turn_session \<Rightarrow> pj_turn_session option" where
  "turn_sess_on_destroy sess = do {
     stun \<leftarrow> stun_sess_on_destroy (tu_stun sess);
     Some (sess\<lparr>tu_stun := stun, tu_chs := [], tu_perms := []\<rparr>) }"

record pj_turn_session_info =
  inf_state :: pj_turn_state
  inf_last_status :: pj_status
  inf_conn_type :: pj_turn_tp_type
  inf_server :: pj_sockaddr
  inf_mapped_addr :: pj_sockaddr
  inf_relay_addr :: pj_sockaddr
  inf_lifetime :: int

definition pj_turn_session_get_info :: "turn_env \<Rightarrow> pj_turn_session \<Rightarrow> (pj_status \<times> pj_turn_session_info) option" where
  "pj_turn_session_get_info env sess = do {
     server \<leftarrow> (if tu_srv_addr sess = None then Some no_addr else server_addr sess);
     Some (PJ_SUCCESS, \<lparr>inf_state = tu_state sess, inf_last_status = tu_last_status sess, inf_conn_type = tu_conn_type sess, inf_server = server,
       inf_mapped_addr = tu_mapped_addr sess, inf_relay_addr = tu_relay_addr sess, inf_lifetime = tv_sec (tu_expiry sess) - tv_sec (te_now env)\<rparr>) }"

definition pj_turn_session_set_user_data :: "pj_turn_session \<Rightarrow> nat \<Rightarrow> pj_status \<times> pj_turn_session" where
  "pj_turn_session_set_user_data sess data = (PJ_SUCCESS, sess\<lparr>tu_user_data := data\<rparr>)"

definition pj_turn_session_get_user_data :: "pj_turn_session \<Rightarrow> nat" where
  "pj_turn_session_get_user_data sess = tu_user_data sess"

definition pj_turn_session_set_log :: "pj_turn_session \<Rightarrow> 32 word \<Rightarrow> pj_turn_session" where
  "pj_turn_session_set_log sess flags = sess\<lparr>tu_stun := pj_stun_session_set_log (tu_stun sess) flags\<rparr>"

definition pj_turn_session_set_software_name :: "pj_turn_session \<Rightarrow> byte list option \<Rightarrow> pj_status \<times> pj_turn_session" where
  "pj_turn_session_set_software_name sess sw =
     (let sess = grp_lock_acquire sess; (status, stun) = pj_stun_session_set_software_name (tu_stun sess) sw in (status, grp_lock_release (sess\<lparr>tu_stun := stun\<rparr>)))"

definition pj_turn_session_set_credential :: "pj_turn_session \<Rightarrow> pj_stun_auth_cred \<Rightarrow> pj_status \<times> pj_turn_session" where
  "pj_turn_session_set_credential sess cred =
     (let sess = grp_lock_acquire sess in
      (PJ_SUCCESS, grp_lock_release (sess\<lparr>tu_stun := snd (pj_stun_session_set_credential (tu_stun sess) PJ_STUN_AUTH_LONG_TERM (Some cred))\<rparr>)))"

end
