(* ===== verification/TurnInv.thy ===== *)
theory TurnInv
  imports StunTokens TurnSession
begin

text \<open>
  The operations of the TURN session that leave its channels, their table and the lock as they are, and that send no ChannelBind request. They are \<open>steady\<close>: whatever a
  condition on the tokens of requests says of ChannelBind requests, they keep it. The invariant of the channels then only has to look at the other operations.
\<close>

subsection \<open>Operations that leave the channels alone\<close>

definition base :: "pj_turn_session \<Rightarrow> int \<times> ch_t list \<times> nat pj_hash_table_t \<times> 16 word" where
  "base sess = (tu_lock sess, tu_chs sess, tu_ch_table sess, tu_next_ch sess)"

text \<open>A condition on message types and tokens that only concerns ChannelBind requests.\<close>

definition lax :: "(16 word \<Rightarrow> nat \<Rightarrow> bool) \<Rightarrow> bool" where
  "lax R \<longleftrightarrow> (\<forall>t k. PJ_STUN_GET_METHOD t \<noteq> PJ_STUN_CHANNEL_BIND_METHOD \<longrightarrow> R t k)"

definition stun_steady :: "pj_stun_session \<Rightarrow> pj_stun_session \<Rightarrow> bool" where
  "stun_steady stun stun' \<longleftrightarrow> (\<forall>R. lax R \<longrightarrow> all_sent R stun \<longrightarrow> all_sent R stun') \<and> (ss_out stun = [] \<longrightarrow> ss_out stun' = [])"

definition steady :: "pj_turn_session \<Rightarrow> pj_turn_session \<Rightarrow> bool" where
  "steady sess sess' \<longleftrightarrow> base sess' = base sess \<and> stun_steady (tu_stun sess) (tu_stun sess')"

lemma stun_steady_refl: "stun_steady stun stun"
  by (simp add: stun_steady_def)

lemma steady_trans: "steady a b \<Longrightarrow> steady b c \<Longrightarrow> steady a c"
  by (simp add: steady_def stun_steady_def)

lemma steady_upd:
  assumes "base sess' = base sess" "tu_stun sess' = tu_stun sess"
  shows "steady sess sess'"
  using assms by (simp add: steady_def stun_steady_refl)

lemma steady_refl: "steady sess sess"
  by (simp add: steady_upd)

lemma steady_cong: "steady sess sess' \<Longrightarrow> base s = base sess' \<Longrightarrow> tu_stun s = tu_stun sess' \<Longrightarrow> steady sess s"
  by (simp add: steady_def)

lemma base_upds [simp]:
  "base (turn_emit acts sess) = base sess" "base (sess\<lparr>tu_state := st\<rparr>) = base sess" "base (sess\<lparr>tu_last_status := r\<rparr>) = base sess"
  "base (sess\<lparr>tu_pending_destroy := b\<rparr>) = base sess" "base (sess\<lparr>tu_timer := tm\<rparr>) = base sess" "base (sess\<lparr>tu_stun := stun\<rparr>) = base sess"
  "base (sess\<lparr>tu_perms := ps\<rparr>) = base sess" "base (sess\<lparr>tu_perm_table := pt\<rparr>) = base sess" "base (sess\<lparr>tu_tx_pkt := tx\<rparr>) = base sess"
  "base (sess\<lparr>tu_send_ind_tsx_id := w\<rparr>) = base sess" "base (sess\<lparr>tu_relay_addr := a\<rparr>) = base sess" "base (sess\<lparr>tu_mapped_addr := a\<rparr>) = base sess"
  "base (sess\<lparr>tu_srv_addr := sa\<rparr>) = base sess" "base (sess\<lparr>tu_srv_addr_list := sl\<rparr>) = base sess" "base (sess\<lparr>tu_alloc_param := ap\<rparr>) = base sess"
  "base (sess\<lparr>tu_pending_alloc := b\<rparr>) = base sess" "base (sess\<lparr>tu_default_port := dp\<rparr>) = base sess" "base (sess\<lparr>tu_is_destroying := b\<rparr>) = base sess"
  "base (sess\<lparr>tu_lifetime := lt\<rparr>) = base sess" "base (sess\<lparr>tu_expiry := e\<rparr>) = base sess" "base (sess\<lparr>tu_ka_interval := ka\<rparr>) = base sess"
  "base (sess\<lparr>tu_user_data := ud\<rparr>) = base sess"
  by (simp_all add: base_def turn_emit_def)

lemma stun_upds [simp]:
  "tu_stun (turn_emit acts sess) = tu_stun sess" "tu_stun (set_stun stun sess) = stun\<lparr>ss_out := []\<rparr>" "base (set_stun stun sess) = base sess"
  by (simp_all add: turn_emit_def set_stun_def base_def)

lemma steady_emit: "steady sess (turn_emit acts sess)"
  by (rule steady_upd) simp_all

lemma set_state_steady: "steady sess (set_state st sess)"
  by (rule steady_upd) (simp_all add: set_state_def)

lemma schedule_destroy_steady: "steady sess (schedule_destroy sess)"
  by (rule steady_upd) (simp_all add: schedule_destroy_def set_state_def Let_def)

lemma note_status_steady: "steady sess (note_status st sess)"
  by (rule steady_upd) (simp_all add: note_status_def)

lemma shutdown_unless_ready_steady: "steady sess (shutdown_unless_ready st sess)"
  by (rule steady_upd) (simp_all add: shutdown_unless_ready_def schedule_destroy_def note_status_def set_state_def Let_def split: pj_turn_state.split)

lemma set_stun_steady:
  assumes "\<And>R. lax R \<Longrightarrow> all_sent R (tu_stun sess) \<Longrightarrow> all_sent R stun"
  shows "steady sess (set_stun stun sess)"
  using assms by (simp add: steady_def stun_steady_def)

subsection \<open>Messages\<close>

text \<open>The object of a message that is being built.\<close>

definition drafted :: "nat \<Rightarrow> 16 word \<Rightarrow> pj_turn_session \<Rightarrow> bool" where
  "drafted i t sess \<longleftrightarrow> (\<exists>td. ss_tdata (tu_stun sess) i = Some td \<and> td_client_tsx td = None \<and> td_type td = t)"

lemma drafted_cong: "tu_stun sess' = tu_stun sess \<Longrightarrow> drafted i t sess' = drafted i t sess"
  by (simp add: drafted_def)

lemma drafted_upds [simp]:
  "drafted i t (turn_emit acts sess) = drafted i t sess" "drafted i t (sess\<lparr>tu_perms := ps\<rparr>) = drafted i t sess" "drafted i t (sess\<lparr>tu_perm_table := pt\<rparr>) = drafted i t sess"
  "drafted i t (sess\<lparr>tu_chs := cs\<rparr>) = drafted i t sess" "drafted i t (sess\<lparr>tu_ch_table := ct\<rparr>) = drafted i t sess" "drafted i t (sess\<lparr>tu_next_ch := nc\<rparr>) = drafted i t sess"
  "drafted i t (set_state st sess) = drafted i t sess"
  by (rule drafted_cong; simp add: set_state_def)+

lemma create_req_steady:
  assumes "create_req env t sess = Inr (i, sess')"
  shows "steady sess sess'" "drafted i t sess'"
proof -
  obtain stun where c: "pj_stun_session_create_req (stun_env env sess) (tu_stun sess) t PJ_STUN_MAGIC None = Inr (i, stun)" and s: "sess' = set_stun stun sess"
    using assms by (auto simp: create_req_def map_sum_def split: sum.splits)
  show "steady sess sess'" unfolding s by (rule set_stun_steady) (use create_req_sent [OF c] in blast)
  have "all_sent (\<lambda>_ _. True) (tu_stun sess)" by (simp add: all_sent_def sent_ok_def)
  then show "drafted i t sess'" unfolding s drafted_def using create_req_sent [OF c, of "\<lambda>_ _. True"] by simp
qed

lemma tdata_add_steady:
  assumes "tdata_add i (\<lambda>m. add_created m (f m)) sess = Some (st, sess')" "drafted i t sess"
  shows "steady sess sess'" "drafted i t sess'"
proof -
  obtain td where td: "ss_tdata (tu_stun sess) i = Some td" "td_client_tsx td = None" "td_type td = t" using assms(2) by (auto simp: drafted_def)
  consider "sess' = sess" | m where "add_created (td_msg td) (f (td_msg td)) = Inr m" "sess' = sess\<lparr>tu_stun := put_tdata i (td\<lparr>td_msg := m\<rparr>) (tu_stun sess)\<rparr>"
    using assms(1) td(1) by (auto simp: tdata_add_def split: sum.splits)
  then have "steady sess sess' \<and> drafted i t sess'"
  proof cases
    case 1
    then show ?thesis using assms(2) by (simp add: steady_refl)
  next
    case 2
    have "td_type (td\<lparr>td_msg := m\<rparr>) = t" using add_created_hdr [OF 2(1)] td(3) by (simp add: td_type_def)
    then show ?thesis using 2(2) td by (auto simp: steady_def stun_steady_def drafted_def intro!: all_sent_put)
  qed
  then show "steady sess sess'" "drafted i t sess'" by auto
qed

lemmas attr_adders = pj_stun_msg_add_uint_attr_def pj_stun_msg_add_sockaddr_attr_def pj_stun_msg_add_binary_attr_def

lemma tdata_adds:
  assumes "drafted i t sess"
  shows "tdata_add i (\<lambda>m. pj_stun_msg_add_uint_attr m a v) sess = Some (st, sess') \<Longrightarrow> steady sess sess' \<and> drafted i t sess'"
    and "add_peer_addr i addr sess = Some (st, sess') \<Longrightarrow> steady sess sess' \<and> drafted i t sess'"
    and "tdata_add i (\<lambda>m. pj_stun_msg_add_binary_attr m a d) sess = Some (st, sess') \<Longrightarrow> steady sess sess' \<and> drafted i t sess'"
  unfolding add_peer_addr_def attr_adders
  using tdata_add_steady(1) [where f = "\<lambda>_. x" for x, OF _ assms] tdata_add_steady(2) [where f = "\<lambda>_. x" for x, OF _ assms] by blast+

text \<open>Sending a message. The condition on tokens has to hold for the message that is sent.\<close>

lemma send_msg_all_sent:
  assumes res: "send_msg env token re i sess = Some (st, sess')" and i: "drafted i t sess" and R: "R t token" and ok: "all_sent R (tu_stun sess)"
  shows "all_sent R (tu_stun sess') \<and> base sess' = base sess \<and> ss_out (tu_stun sess') = []"
proof -
  obtain server stun where s: "pj_stun_session_send_msg (stun_env env sess) (tu_stun sess) token False re server i = Some (st, stun)" and sess': "sess' = set_stun stun sess"
    using res by (auto simp: send_msg_def split: Option.bind_splits prod.splits)
  have "all_sent R stun" using send_msg_sent [OF s ok] i R by (auto simp: drafted_def)
  then show ?thesis by (simp add: sess')
qed

lemma send_msg_steady:
  assumes "send_msg env token re i sess = Some (st, sess')" "drafted i t sess" "PJ_STUN_GET_METHOD t \<noteq> PJ_STUN_CHANNEL_BIND_METHOD"
  shows "steady sess sess'"
proof -
  have "all_sent R (tu_stun sess') \<and> base sess' = base sess \<and> ss_out (tu_stun sess') = []" if "lax R" "all_sent R (tu_stun sess)" for R
    using send_msg_all_sent [OF assms(1,2) _ that(2)] that(1) assms(3) by (simp add: lax_def)
  moreover have "lax (\<lambda>_ _. True)" "all_sent (\<lambda>_ _. True) (tu_stun sess)" by (simp_all add: lax_def all_sent_def sent_ok_def)
  ultimately show ?thesis unfolding steady_def stun_steady_def by blast
qed

subsection \<open>Shutting down and failing\<close>

lemma req_methods:
  "PJ_STUN_GET_METHOD PJ_STUN_REFRESH_REQUEST \<noteq> PJ_STUN_CHANNEL_BIND_METHOD" "PJ_STUN_GET_METHOD PJ_STUN_ALLOCATE_REQUEST \<noteq> PJ_STUN_CHANNEL_BIND_METHOD"
  "PJ_STUN_GET_METHOD PJ_STUN_CREATE_PERM_REQUEST \<noteq> PJ_STUN_CHANNEL_BIND_METHOD" "PJ_STUN_GET_METHOD (PJ_STUN_SEND_INDICATION OR PJ_STUN_INDICATION_BIT) \<noteq> PJ_STUN_CHANNEL_BIND_METHOD"
  "PJ_STUN_GET_METHOD PJ_STUN_CHANNEL_BIND_REQUEST = PJ_STUN_CHANNEL_BIND_METHOD"
  by (simp_all add: PJ_STUN_GET_METHOD_def PJ_STUN_REFRESH_REQUEST_def PJ_STUN_ALLOCATE_REQUEST_def PJ_STUN_CREATE_PERM_REQUEST_def PJ_STUN_SEND_INDICATION_def
      PJ_STUN_INDICATION_BIT_def PJ_STUN_CHANNEL_BIND_METHOD_def PJ_STUN_CHANNEL_BIND_REQUEST_def)

text \<open>A session in the middle of an operation: what was done so far is steady, and the message \<open>i\<close> is still a draft.\<close>

definition drafting :: "nat \<Rightarrow> 16 word \<Rightarrow> pj_turn_session \<Rightarrow> pj_turn_session \<Rightarrow> bool" where
  "drafting i t sess sess' \<longleftrightarrow> steady sess sess' \<and> drafted i t sess'"

lemma drafting_create: "create_req env t sess = Inr (i, sess') \<Longrightarrow> drafting i t sess sess'"
  using create_req_steady by (simp add: drafting_def)

lemma drafting_add:
  assumes "drafting i t sess s"
  shows "tdata_add i (\<lambda>m. pj_stun_msg_add_uint_attr m a v) s = Some (st, s') \<Longrightarrow> drafting i t sess s'"
    and "add_peer_addr i addr s = Some (st, s') \<Longrightarrow> drafting i t sess s'"
    and "tdata_add i (\<lambda>m. pj_stun_msg_add_binary_attr m a d) s = Some (st, s') \<Longrightarrow> drafting i t sess s'"
proof -
  have d: "drafted i t s" and s: "steady sess s" using assms by (auto simp: drafting_def)
  show "tdata_add i (\<lambda>m. pj_stun_msg_add_uint_attr m a v) s = Some (st, s') \<Longrightarrow> drafting i t sess s'"
    and "add_peer_addr i addr s = Some (st, s') \<Longrightarrow> drafting i t sess s'"
    and "tdata_add i (\<lambda>m. pj_stun_msg_add_binary_attr m a d) s = Some (st, s') \<Longrightarrow> drafting i t sess s'"
    unfolding drafting_def by (drule tdata_adds [OF d], use steady_trans [OF s] in blast)+
qed

lemma drafting_state: "drafting i t sess s \<Longrightarrow> drafting i t sess (set_state st s)"
  using set_state_steady steady_trans by (auto simp: drafting_def)

lemma drafting_send:
  assumes "drafting i t sess s" "send_msg env token re i s = Some (st, s')" "PJ_STUN_GET_METHOD t \<noteq> PJ_STUN_CHANNEL_BIND_METHOD"
  shows "steady sess s'"
  using assms send_msg_steady steady_trans unfolding drafting_def by blast

lemma send_refresh_steady:
  assumes "send_refresh env lifetime sess = Some sess'"
  shows "steady sess sess'"
proof (cases "tu_state sess = PJ_TURN_STATE_READY")
  case False
  then show ?thesis using assms by (simp add: send_refresh_def Let_def steady_refl)
next
  case True
  have err: "steady sess (if lifetime = 0 then shutdown_unless_ready st (set_state PJ_TURN_STATE_DEALLOCATED s) else s)" if "steady sess s" for st s
    using that steady_trans [OF steady_trans [OF that set_state_steady] shutdown_unless_ready_steady] by simp
  show ?thesis
  proof (cases "create_req env PJ_STUN_REFRESH_REQUEST sess")
    case (Inl st)
    then show ?thesis using assms True err [OF steady_refl, of st] by (simp only: send_refresh_def Let_def) simp
  next
    case (Inr x)
    obtain i s where x: "x = (i, s)" by (cases x)
    note d = drafting_create [OF Inr [unfolded x]]
    obtain st1 s1 st2 s2
      where a: "(if lifetime \<ge> 0 then tdata_add i (\<lambda>m. pj_stun_msg_add_uint_attr m PJ_STUN_ATTR_LIFETIME (of_int lifetime)) s else Some (PJ_SUCCESS, s)) = Some (st1, s1)"
        and b: "send_msg env 0 (is_udp (if lifetime = 0 then set_state PJ_TURN_STATE_DEALLOCATING s1 else s1)) i (if lifetime = 0 then set_state PJ_TURN_STATE_DEALLOCATING s1 else s1) = Some (st2, s2)"
        and c: "sess' = (if st2 \<noteq> PJ_SUCCESS then (if lifetime = 0 then shutdown_unless_ready st2 (set_state PJ_TURN_STATE_DEALLOCATED s2) else s2) else s2)"
      using assms True Inr x by (auto simp: send_refresh_def Let_def bind_eq_Some_conv)
    have "drafting i PJ_STUN_REFRESH_REQUEST sess s1" using a d drafting_add(1) [OF d] by (auto split: if_splits)
    then have "drafting i PJ_STUN_REFRESH_REQUEST sess (if lifetime = 0 then set_state PJ_TURN_STATE_DEALLOCATING s1 else s1)" using drafting_state by simp
    then have "steady sess s2" using drafting_send [OF _ b req_methods(1)] by blast
    then show ?thesis using c err by simp
  qed
qed

lemma sess_shutdown_steady: "sess_shutdown env st sess = Some sess' \<Longrightarrow> steady sess sess'"
  using steady_trans [OF note_status_steady send_refresh_steady] shutdown_unless_ready_steady by (auto simp: sess_shutdown_def split: if_splits)

lemma fail_with_steady: "sess_shutdown env st (set_state s0 sess) = Some sess' \<Longrightarrow> steady sess sess'"
  using steady_trans [OF set_state_steady sess_shutdown_steady] by blast

lemma steady_from: "steady s sess' \<Longrightarrow> base s = base sess \<Longrightarrow> tu_stun s = tu_stun sess \<Longrightarrow> steady sess sess'"
  by (simp add: steady_def)

lemma on_session_fail_steady:
  assumes "on_session_fail env mth st sess = Some sess'"
  shows "steady sess sess'"
proof -
  have 1: "steady sess s'" if "sess_shutdown env st (set_state s0 (sess\<lparr>tu_last_status := st\<rparr>)) = Some s'" for s0 s'
    by (rule steady_from [OF fail_with_steady [OF that]]) simp_all
  have 2: "steady sess (set_state s0 (sess\<lparr>tu_last_status := st, tu_srv_addr := a\<rparr>))" for s0 a
    by (rule steady_from [OF set_state_steady]) simp_all
  show ?thesis using assms 2 by (auto simp: on_session_fail_def Let_def split: if_splits elim: 1)
qed

lemma keep_alive_steady: "steady sess (keep_alive sess)"
  by (rule steady_upd) (simp_all add: keep_alive_def set_state_def Let_def)

lemma set_lifetime_steady: "steady sess (set_lifetime env lt sess)"
  by (rule steady_upd) (simp_all add: set_lifetime_def split: prod.split)

lemma on_allocate_success_steady:
  assumes "on_allocate_success env mth msg sess = Some sess'"
  shows "steady sess sess'"
proof -
  have fail: "steady sess s'" if "on_session_fail env m st s = Some s'" "base s = base sess" "tu_stun s = tu_stun sess" for m st s s'
    using steady_from [OF on_session_fail_steady [OF that(1)] that(2,3)] .
  have keep: "steady sess (keep_alive s)" if "base s = base sess" "tu_stun s = tu_stun sess" for s
    using steady_from [OF keep_alive_steady that] .
  have life: "base (set_lifetime env lt sess) = base sess" "tu_stun (set_lifetime env lt sess) = tu_stun sess" for lt
    by (simp_all add: set_lifetime_def split: prod.split)
  show ?thesis
    using assms unfolding on_allocate_success_def Let_def
    by (auto simp: life split: option.splits if_splits Option.bind_splits elim: fail_with_steady fail intro: keep)
qed

subsection \<open>Permissions\<close>

lemma lookup_perm_same: "lookup_perm env addr update sess = Some (k, sess') \<Longrightarrow> base sess' = base sess \<and> tu_stun sess' = tu_stun sess"
  by (auto simp: lookup_perm_def Let_def split: Option.bind_splits prod.splits option.splits if_splits)

lemma invalidate_perm_same: "invalidate_perm k sess = Some sess' \<Longrightarrow> base sess' = base sess \<and> tu_stun sess' = tu_stun sess"
  by (auto simp: invalidate_perm_def split: Option.bind_splits)

lemma invalidate_all_same: "invalidate_all token ks sess = Some sess' \<Longrightarrow> base sess' = base sess \<and> tu_stun sess' = tu_stun sess"
proof (induction ks arbitrary: sess)
  case (Cons k ks)
  then show ?case using invalidate_perm_same by (fastforce split: Option.bind_splits if_splits)
qed simp

lemma invalidate_perms_same: "invalidate_perms token sess = Some sess' \<Longrightarrow> base sess' = base sess \<and> tu_stun sess' = tu_stun sess"
  unfolding invalidate_perms_def by (rule invalidate_all_same)

lemma steady_perms: "steady sess s \<Longrightarrow> invalidate_perms token s = Some s' \<Longrightarrow> steady sess s'"
  using invalidate_perms_same steady_cong by blast

lemma drafting_cong: "drafting i t sess s \<Longrightarrow> base s' = base s \<Longrightarrow> tu_stun s' = tu_stun s \<Longrightarrow> drafting i t sess s'"
  by (simp add: drafting_def steady_def drafted_def)

lemma destroy_tdata_steady: "destroy_tdata_of i sess = Some sess' \<Longrightarrow> steady sess sess'"
  by (auto simp: destroy_tdata_of_def pj_stun_msg_destroy_tdata_def split: Option.bind_splits intro!: set_stun_steady elim: destroy_sent)

lemma add_perms_drafting:
  assumes "add_perms env token renew i addrs s = Some (st, s')" "drafting i t sess s"
  shows "drafting i t sess s'"
  using assms
proof (induction addrs arbitrary: s)
  case (Cons a as)
  obtain k s1 p where l: "lookup_perm env a True s = Some (Some k, s1)" "deref (tu_perms s1) k = Some p"
    using Cons.prems(1) by (auto simp: bind_eq_Some_conv)
  define s2 where "s2 = s1\<lparr>tu_perms := (tu_perms s1)[k := p\<lparr>pm_renew := renew, pm_req_token := token\<rparr>]\<rparr>"
  have s2: "drafting i t sess s2" by (rule drafting_cong [OF Cons.prems(2)]) (use lookup_perm_same [OF l(1)] in \<open>simp_all add: s2_def\<close>)
  obtain st1 s3 where a: "(if pm_req_token p \<noteq> token then add_peer_addr i a s2 else Some (PJ_SUCCESS, s2)) = Some (st1, s3)"
    and r: "(if st1 \<noteq> PJ_SUCCESS then Some (st1, s3) else add_perms env token renew i as s3) = Some (st, s')"
    using Cons.prems(1) l unfolding s2_def by (auto simp: bind_eq_Some_conv Let_def)
  have "drafting i t sess s3" using a s2 drafting_add(2) [OF s2] by (auto split: if_splits)
  then show ?case using r Cons.IH by (auto split: if_splits)
qed auto

text \<open>The lock.\<close>

lemma lock_steady: "steady (grp_lock_acquire sess) s \<Longrightarrow> steady sess (grp_lock_release s)"
  by (auto simp: steady_def base_def grp_lock_acquire_def grp_lock_release_def)

lemma lock_same: "steady sess (grp_lock_release (grp_lock_acquire sess))"
  by (rule lock_steady) (rule steady_refl)

lemma set_perm_steady:
  assumes "pj_turn_session_set_perm env addrs options sess = Some (st, sess')"
  shows "steady sess sess'"
proof (cases "addrs = []")
  case True
  then show ?thesis using assms by (simp add: pj_turn_session_set_perm_def steady_refl)
next
  case False
  show ?thesis
  proof (cases "create_req env PJ_STUN_CREATE_PERM_REQUEST (grp_lock_acquire sess)")
    case (Inl e)
    then show ?thesis using assms False lock_same by (simp add: pj_turn_session_set_perm_def Let_def) blast
  next
    case (Inr x)
    obtain i s where x: "x = (i, s)" by (cases x)
    obtain st1 s1 where a: "add_perms env (te_rand env) (odd options) i addrs s = Some (st1, s1)"
      and r: "(if st1 \<noteq> PJ_SUCCESS then do {
          sess \<leftarrow> destroy_tdata_of i s1; sess \<leftarrow> invalidate_perms (te_rand env) sess; Some (st1, grp_lock_release sess) }
        else do {
          (status, sess) \<leftarrow> send_msg env (te_rand env) (is_udp s1) i s1;
          sess \<leftarrow> (if status \<noteq> PJ_SUCCESS then invalidate_perms (te_rand env) sess else Some sess);
          Some (status, grp_lock_release sess) }) = Some (st, sess')"
      using assms False Inr x by (auto simp: pj_turn_session_set_perm_def Let_def bind_eq_Some_conv)
    note d = add_perms_drafting [OF a drafting_create [OF Inr [unfolded x]]]
    then have s1: "steady (grp_lock_acquire sess) s1" by (simp add: drafting_def)
    show ?thesis
    proof (cases "st1 = PJ_SUCCESS")
      case True
      then obtain st2 s2 where "send_msg env (te_rand env) (is_udp s1) i s1 = Some (st2, s2)"
        and r2: "(if st2 \<noteq> PJ_SUCCESS then invalidate_perms (te_rand env) s2 else Some s2) \<bind> (\<lambda>s. Some (st2, grp_lock_release s)) = Some (st, sess')"
        using r by (auto simp: bind_eq_Some_conv)
      then have "steady (grp_lock_acquire sess) s2" using drafting_send [OF d _ req_methods(3)] by blast
      then show ?thesis using r2 by (auto split: if_splits Option.bind_splits intro: lock_steady steady_perms)
    next
      case False
      then show ?thesis using r steady_trans [OF s1 destroy_tdata_steady] by (auto split: Option.bind_splits intro!: lock_steady intro: steady_perms)
    qed
  qed
qed

subsection \<open>Data, indications and the timer\<close>

lemma send_data_same:
  "send_channel_data env pkt num sess = Some (st, sess') \<Longrightarrow> base sess' = base sess \<and> tu_stun sess' = tu_stun sess"
  "send_indication env pkt addr sess = Some (st, sess') \<Longrightarrow> base sess' = base sess \<and> tu_stun sess' = tu_stun sess"
  by (auto simp: send_channel_data_def send_indication_def Let_def split: if_splits Option.bind_splits sum.splits prod.splits)

lemma lookup_ch_find_same: "lookup_ch_by_addr env addr False b sess = Some (k, sess') \<Longrightarrow> sess' = sess"
  by (auto simp: lookup_ch_by_addr_def Let_def split: prod.splits option.splits Option.bind_splits)

lemma sendto_steady:
  assumes "pj_turn_session_sendto env pkt addr sess = Some (st, sess')"
  shows "steady sess sess'"
proof (cases "pkt = [] \<or> tu_state sess \<noteq> PJ_TURN_STATE_READY")
  case True
  then show ?thesis using assms by (auto simp: pj_turn_session_sendto_def steady_refl split: if_splits)
next
  case False
  let ?a = "grp_lock_acquire sess"
  obtain perm s1 st2 s2 where p: "lookup_perm env addr False ?a = Some (perm, s1)"
    and q: "(if perm = None then pj_turn_session_set_perm env [addr] 0 s1 else Some (PJ_SUCCESS, s1)) = Some (st2, s2)"
    and r: "(if st2 \<noteq> PJ_SUCCESS then Some (st2, grp_lock_release s2)
        else do {
          (ch, sess) \<leftarrow> lookup_ch_by_addr env addr False False s2;
          (status, sess) \<leftarrow> (case ch of
              None \<Rightarrow> send_indication env pkt addr sess
            | Some k \<Rightarrow> do {
                c \<leftarrow> deref (tu_chs sess) k;
                if ch_num c \<noteq> PJ_TURN_INVALID_CHANNEL \<and> ch_bound c then send_channel_data env pkt (ch_num c) sess else send_indication env pkt addr sess });
          Some (status, grp_lock_release sess) }) = Some (st, sess')"
    using assms False by (auto simp: pj_turn_session_sendto_def bind_eq_Some_conv)
  have "steady ?a s1" by (rule steady_upd) (use lookup_perm_same [OF p] in simp_all)
  then have s2: "steady ?a s2" using q set_perm_steady steady_trans by (auto split: if_splits)
  have data: "steady ?a s" if "send_channel_data env pkt num s2 = Some (st, s) \<or> send_indication env pkt addr s2 = Some (st, s)" for num st s
    using that send_data_same steady_cong [OF s2] by blast
  show ?thesis
    using r s2 by (auto split: if_splits Option.bind_splits prod.splits option.splits dest!: lookup_ch_find_same intro!: lock_steady intro: data)
qed

lemma do_destroy_steady:
  assumes "do_destroy sess = Some sess'"
  shows "steady sess sess'"
proof -
  let ?a = "grp_lock_acquire sess"
  have "steady ?a (set_stun stun (?a\<lparr>tu_is_destroying := True, tu_timer := t\<rparr>))" if "pj_stun_session_destroy (tu_stun ?a) = Some (st, stun)" for st stun t
    using session_destroy_sent [OF that] by (simp add: steady_def stun_steady_def)
  then show ?thesis
    using assms by (auto simp: do_destroy_def Let_def split: if_splits Option.bind_splits prod.splits intro!: lock_steady steady_refl)
qed

lemma rx_indication_steady: "stun_on_rx_indication msg sess = Some (st, sess') \<Longrightarrow> steady sess sess'"
  by (rule steady_upd) (auto simp: stun_on_rx_indication_def split: if_splits option.splits Option.bind_splits)

lemma channel_data_steady: "on_channel_data pkt sess = Some (st, n, sess') \<Longrightarrow> steady sess sess'"
  by (rule steady_upd) (auto simp: on_channel_data_def Let_def split: if_splits option.splits Option.bind_splits)

lemma create_perm_complete_steady: "on_create_perm_complete env st token response sess = Some sess' \<Longrightarrow> steady sess sess'"
  unfolding on_create_perm_complete_def
  by (auto split: Option.bind_splits if_splits simp: steady_refl intro: steady_perms [OF steady_refl] steady_trans [OF steady_perms [OF steady_refl] on_session_fail_steady])

lemma allocate_complete_steady:
  assumes "on_allocate_complete env st response sess = Some sess'"
  shows "steady sess sess'"
proof -
  have "steady sess s'" if "sess_shutdown env r (sess\<lparr>tu_state := x\<rparr>) = Some s'" for r x s'
    by (rule steady_from [OF sess_shutdown_steady [OF that]]) simp_all
  then show ?thesis
    using assms unfolding on_allocate_complete_def
    by (auto split: Option.bind_splits if_splits intro: on_allocate_success_steady on_session_fail_steady)
qed

lemma refresh_complete_steady: "on_refresh_complete env st response sess = Some sess' \<Longrightarrow> steady sess sess'"
  unfolding on_refresh_complete_def by (auto split: Option.bind_splits if_splits intro: on_allocate_success_steady on_session_fail_steady)

text \<open>The renewal of permissions: \<open>Inl\<close> after giving up, and otherwise the request that is being filled.\<close>

definition renewing :: "pj_turn_session \<Rightarrow> nat option \<Rightarrow> pj_turn_session \<Rightarrow> bool" where
  "renewing sess tdata s \<longleftrightarrow> steady sess s \<and> (case tdata of None \<Rightarrow> True | Some i \<Rightarrow> drafted i PJ_STUN_CREATE_PERM_REQUEST s)"

lemma renew_perm_steady:
  assumes "renew_perm env k p tdata s = Some r" "renewing sess tdata s"
  shows "case r of Inl s' \<Rightarrow> steady sess s' | Inr (i, s') \<Rightarrow> renewing sess (Some i) s'"
proof (cases "case tdata of Some i \<Rightarrow> Inr (i, s) | None \<Rightarrow> create_req env PJ_STUN_CREATE_PERM_REQUEST s")
  case (Inl st)
  then show ?thesis using assms by (auto simp: renew_perm_def renewing_def)
next
  case (Inr x)
  obtain i s1 where x: "x = (i, s1)" by (cases x)
  have d: "drafting i PJ_STUN_CREATE_PERM_REQUEST sess s1"
    using Inr x assms(2) create_req_steady [of env PJ_STUN_CREATE_PERM_REQUEST s i s1] steady_trans by (auto simp: drafting_def renewing_def split: option.splits)
  obtain st s2 where a: "add_peer_addr i (pm_addr p) s1 = Some (st, s2)"
    and r: "(if st \<noteq> PJ_SUCCESS then map_option Inl (destroy_tdata_of i s2)
       else Some (Inr (i, s2\<lparr>tu_perms := (tu_perms s2)[k := p\<lparr>pm_expiry := perm_expiry (te_now env) s2, pm_req_token := te_rand env\<rparr>]\<rparr>))) = Some r"
    using assms(1) Inr x by (auto simp: renew_perm_def bind_eq_Some_conv)
  note d2 = drafting_add(2) [OF d a]
  then have s2: "steady sess s2" by (simp add: drafting_def)
  have "renewing sess (Some i) (s2\<lparr>tu_perms := ps\<rparr>)" for ps using drafting_cong [OF d2, of "s2\<lparr>tu_perms := ps\<rparr>"] by (simp add: renewing_def drafting_def)
  then show ?thesis using r steady_trans [OF s2 destroy_tdata_steady] by (auto split: if_splits)
qed

lemma refresh_perms_steady:
  assumes "refresh_perms env ks tdata n s = Some r" "renewing sess tdata s"
  shows "case r of Inl s' \<Rightarrow> steady sess s' | Inr (tdata', n', s') \<Rightarrow> renewing sess tdata' s'"
  using assms
proof (induction ks arbitrary: tdata n s)
  case (Cons k ks)
  obtain p where p: "deref (tu_perms s) k = Some p" using Cons.prems(1) by (auto simp: bind_eq_Some_conv)
  consider (skip) "refresh_perms env ks tdata n s = Some r"
    | (drop) s1 where "invalidate_perm k s = Some s1" "refresh_perms env ks tdata n s1 = Some r"
    | (renew) r1 where "renew_perm env k p tdata s = Some r1" "(case r1 of Inl s' \<Rightarrow> Some (Inl s') | Inr (i, s') \<Rightarrow> refresh_perms env ks (Some i) (Suc n) s') = Some r"
    using Cons.prems(1) p by (auto simp: bind_eq_Some_conv split: if_split_asm)
  then show ?case
  proof cases
    case skip
    then show ?thesis using Cons by blast
  next
    case (drop s1)
    have "renewing sess tdata s1" using Cons.prems(2) invalidate_perm_same [OF drop(1)] by (auto simp: renewing_def steady_def drafted_def split: option.splits)
    then show ?thesis using Cons.IH [OF drop(2)] by blast
  next
    case (renew r1)
    note r1 = renew_perm_steady [OF renew(1) Cons.prems(2)]
    show ?thesis
    proof (cases r1)
      case (Inl s1)
      then show ?thesis using renew(2) r1 by auto
    next
      case (Inr x)
      then show ?thesis using renew(2) r1 Cons.IH by (cases x) auto
    qed
  qed
qed auto

lemma refresh_permissions_steady:
  assumes "refresh_permissions env sess = Some (n, sess')"
  shows "steady sess sess'"
proof -
  obtain r where r: "refresh_perms env (hash_values (tu_perm_table sess)) None 0 sess = Some r"
    and c: "(case r of Inl sess \<Rightarrow> Some (0, sess) | Inr (None, cnt, sess) \<Rightarrow> Some (cnt, sess)
     | Inr (Some i, cnt, sess) \<Rightarrow> do {
         (status, sess) \<leftarrow> send_msg env (te_rand env) (is_udp sess) i sess;
         Some (if status \<noteq> PJ_SUCCESS then 0 else cnt, sess) }) = Some (n, sess')"
    using assms by (auto simp: refresh_permissions_def bind_eq_Some_conv)
  have "renewing sess None sess" by (simp add: renewing_def steady_refl)
  note s = refresh_perms_steady [OF r this]
  have "steady sess s'" if "send_msg env token re i s = Some (st, s')" "renewing sess (Some i) s" for token re i s st s'
    using drafting_send [OF _ that(1) req_methods(3), of sess] that(2) by (simp add: renewing_def drafting_def)
  then show ?thesis using c s by (auto simp: renewing_def split: sum.splits option.splits Option.bind_splits prod.splits)
qed

lemma send_blank_ind_steady:
  assumes "send_blank_ind env sess = Some sess'"
  shows "steady sess sess'"
proof (cases "pj_stun_session_create_ind (stun_env env sess) (tu_stun sess) PJ_STUN_SEND_INDICATION")
  case (Inl rc)
  then show ?thesis using assms by (simp add: send_blank_ind_def steady_refl)
next
  case (Inr x)
  obtain i stun where x: "x = (i, stun)" by (cases x)
  note c = create_ind_sent [OF Inr [unfolded x]]
  have "all_sent (\<lambda>_ _. True) (tu_stun sess)" by (simp add: all_sent_def sent_ok_def)
  then have d: "drafting i (PJ_STUN_SEND_INDICATION OR PJ_STUN_INDICATION_BIT) sess (set_stun stun sess)"
    using c [of "\<lambda>_ _. True"] set_stun_steady [of sess stun] c by (auto simp: drafting_def drafted_def)
  obtain st1 s1 st2 where a: "tdata_add i (\<lambda>m. pj_stun_msg_add_binary_attr m PJ_STUN_ATTR_DATA []) (set_stun stun sess) = Some (st1, s1)"
    and b: "send_msg env 0 False i s1 = Some (st2, sess')"
    using assms Inr x by (auto simp: send_blank_ind_def bind_eq_Some_conv)
  show ?thesis by (rule drafting_send [OF drafting_add(3) [OF d a] b req_methods(4)])
qed

end
