(* ===== verification/TurnChannels.thy ===== *)
theory TurnChannels
  imports TurnInv
begin

text \<open>
  The channels of the TURN session: their invariant, and that every operation keeps it and gives the lock back.
\<close>

subsection \<open>The invariant\<close>

definition has_number :: "ch_t \<Rightarrow> bool" where
  "has_number c \<longleftrightarrow> ch_num c \<noteq> PJ_TURN_INVALID_CHANNEL"

text \<open>\<open>X\<close>: channels that are bound but not yet registered under their number.\<close>

definition chan_inv :: "nat set \<Rightarrow> ch_t list \<Rightarrow> nat pj_hash_table_t \<Rightarrow> 16 word \<Rightarrow> bool" where
  "chan_inv X chs tbl nx \<longleftrightarrow> hash_keyed tbl \<and>
     (\<forall>key k. ht_abs tbl key = Some k \<longrightarrow> k < length chs \<and> (key = sockaddr_bytes (ch_addr (chs ! k)) \<or> ch_bound (chs ! k) \<and> key = le_bytes16 (ch_num (chs ! k)))) \<and>
     (\<forall>k < length chs. ht_abs tbl (sockaddr_bytes (ch_addr (chs ! k))) = Some k \<and>
        (ch_bound (chs ! k) \<longrightarrow> has_number (chs ! k) \<and> (k \<notin> X \<longrightarrow> ht_abs tbl (le_bytes16 (ch_num (chs ! k))) = Some k)) \<and>
        (has_number (chs ! k) \<longrightarrow> PJ_TURN_CHANNEL_MIN \<le> ch_num (chs ! k) \<and> ch_num (chs ! k) < nx)) \<and>
     (\<forall>j < length chs. \<forall>k < length chs. has_number (chs ! j) \<longrightarrow> ch_num (chs ! j) = ch_num (chs ! k) \<longrightarrow> j = k) \<and>
     PJ_TURN_CHANNEL_MIN \<le> nx \<and> nx \<le> PJ_TURN_CHANNEL_MAX + 1"

definition ch_token :: "ch_t list \<Rightarrow> 16 word \<Rightarrow> nat \<Rightarrow> bool" where
  "ch_token chs t token \<longleftrightarrow> (PJ_STUN_GET_METHOD t = PJ_STUN_CHANNEL_BIND_METHOD \<longrightarrow> (\<exists>k. token = Suc k \<and> k < length chs \<and> has_number (chs ! k)))"

definition turn_inv :: "pj_turn_session \<Rightarrow> bool" where
  "turn_inv sess \<longleftrightarrow> chan_inv {} (tu_chs sess) (tu_ch_table sess) (tu_next_ch sess) \<and> all_sent (ch_token (tu_chs sess)) (tu_stun sess) \<and> ss_out (tu_stun sess) = []"

lemma ch_token_lax: "lax (ch_token chs)"
  by (simp add: lax_def ch_token_def)

text \<open>Channels are never removed, and a channel keeps its number.\<close>

definition numbered :: "ch_t list \<Rightarrow> ch_t list \<Rightarrow> bool" where
  "numbered chs chs' \<longleftrightarrow> length chs \<le> length chs' \<and> (\<forall>k < length chs. has_number (chs ! k) \<longrightarrow> has_number (chs' ! k))"

lemma numbered_refl: "numbered chs chs"
  by (simp add: numbered_def)

lemma numbered_trans: "numbered a b \<Longrightarrow> numbered b c \<Longrightarrow> numbered a c"
  unfolding numbered_def by (meson le_trans less_le_trans)

lemma ch_token_numbered: "ch_token chs t token \<Longrightarrow> numbered chs chs' \<Longrightarrow> ch_token chs' t token"
  by (auto simp: ch_token_def numbered_def)

text \<open>What an operation keeps.\<close>

definition kept_if :: "bool \<Rightarrow> pj_turn_session \<Rightarrow> pj_turn_session \<Rightarrow> bool" where
  "kept_if Q sess sess' \<longleftrightarrow> tu_lock sess' = tu_lock sess \<and> (turn_inv sess \<longrightarrow> Q \<longrightarrow> turn_inv sess' \<and> numbered (tu_chs sess) (tu_chs sess'))"

definition kept :: "pj_turn_session \<Rightarrow> pj_turn_session \<Rightarrow> bool" where
  "kept sess sess' \<longleftrightarrow> kept_if True sess sess'"

lemmas kept_defs = kept_def kept_if_def

lemma kept_kept_if: "kept sess sess' \<Longrightarrow> kept_if Q sess sess'"
  by (simp add: kept_defs)

lemma kept_refl: "kept sess sess"
  by (simp add: kept_defs numbered_refl)

lemma kept_trans: "kept a b \<Longrightarrow> kept b c \<Longrightarrow> kept a c"
  unfolding kept_defs using numbered_trans by auto

lemma steady_kept: "steady sess sess' \<Longrightarrow> kept sess sess'"
  using ch_token_lax [of "tu_chs sess"] by (auto simp: steady_def stun_steady_def kept_defs turn_inv_def base_def numbered_refl)

lemma turn_inv_lock [simp]: "turn_inv (grp_lock_acquire sess) = turn_inv sess" "turn_inv (grp_lock_release sess) = turn_inv sess"
  "tu_chs (grp_lock_acquire sess) = tu_chs sess" "tu_chs (grp_lock_release sess) = tu_chs sess"
  by (simp_all add: turn_inv_def grp_lock_acquire_def grp_lock_release_def)

lemma lock_kept: "kept (grp_lock_acquire sess) s \<Longrightarrow> kept sess (grp_lock_release s)"
  by (simp add: kept_defs) (simp add: grp_lock_acquire_def grp_lock_release_def)

subsection \<open>Keys\<close>

lemma le_bytes16_inj: "le_bytes16 a = le_bytes16 b \<longleftrightarrow> a = b"
proof
  assume eq: "le_bytes16 a = le_bytes16 b"
  show "a = b"
  proof (rule bit_word_eqI)
    fix n assume n: "n < LENGTH(16)"
    have "bit (ucast a :: byte) n = bit (ucast b :: byte) n" "bit (ucast (drop_bit 8 a) :: byte) (n - 8) = bit (ucast (drop_bit 8 b) :: byte) (n - 8)"
      using eq by (simp_all add: le_bytes16_def)
    then show "bit a n = bit b n" using n by (cases "n < 8") (auto simp: bit_simps)
  qed
qed simp

lemma sockaddr_key_length: "length (sockaddr_bytes a) \<noteq> length (le_bytes16 n)"
  by (auto simp: sockaddr_bytes_def le_bytes16_def be_bytes16_def)

lemma sockaddr_key_neq [simp]: "sockaddr_bytes a \<noteq> le_bytes16 n" "le_bytes16 n \<noteq> sockaddr_bytes a"
  using sockaddr_key_length by metis+

subsection \<open>Changes of the channels\<close>

lemma chan_invD:
  assumes "chan_inv X chs tbl nx"
  shows "hash_keyed tbl"
    and "ht_abs tbl key = Some k \<Longrightarrow> k < length chs"
    and "ht_abs tbl key = Some k \<Longrightarrow> key = sockaddr_bytes (ch_addr (chs ! k)) \<or> ch_bound (chs ! k) \<and> key = le_bytes16 (ch_num (chs ! k))"
    and "k < length chs \<Longrightarrow> ht_abs tbl (sockaddr_bytes (ch_addr (chs ! k))) = Some k"
    and "k < length chs \<Longrightarrow> ch_bound (chs ! k) \<Longrightarrow> has_number (chs ! k)"
    and "k < length chs \<Longrightarrow> ch_bound (chs ! k) \<Longrightarrow> k \<notin> X \<Longrightarrow> ht_abs tbl (le_bytes16 (ch_num (chs ! k))) = Some k"
    and "k < length chs \<Longrightarrow> has_number (chs ! k) \<Longrightarrow> PJ_TURN_CHANNEL_MIN \<le> ch_num (chs ! k) \<and> ch_num (chs ! k) < nx"
    and "j < length chs \<Longrightarrow> k < length chs \<Longrightarrow> has_number (chs ! j) \<Longrightarrow> ch_num (chs ! j) = ch_num (chs ! k) \<Longrightarrow> j = k"
    and "PJ_TURN_CHANNEL_MIN \<le> nx" "nx \<le> PJ_TURN_CHANNEL_MAX + 1"
  using assms unfolding chan_inv_def by blast+

lemma chan_invI:
  assumes "hash_keyed tbl"
    and "\<And>key k. ht_abs tbl key = Some k \<Longrightarrow> k < length chs \<and> (key = sockaddr_bytes (ch_addr (chs ! k)) \<or> ch_bound (chs ! k) \<and> key = le_bytes16 (ch_num (chs ! k)))"
    and "\<And>k. k < length chs \<Longrightarrow> ht_abs tbl (sockaddr_bytes (ch_addr (chs ! k))) = Some k"
    and "\<And>k. k < length chs \<Longrightarrow> ch_bound (chs ! k) \<Longrightarrow> has_number (chs ! k) \<and> (k \<notin> X \<longrightarrow> ht_abs tbl (le_bytes16 (ch_num (chs ! k))) = Some k)"
    and "\<And>k. k < length chs \<Longrightarrow> has_number (chs ! k) \<Longrightarrow> PJ_TURN_CHANNEL_MIN \<le> ch_num (chs ! k) \<and> ch_num (chs ! k) < nx"
    and "\<And>j k. j < length chs \<Longrightarrow> k < length chs \<Longrightarrow> has_number (chs ! j) \<Longrightarrow> ch_num (chs ! j) = ch_num (chs ! k) \<Longrightarrow> j = k"
    and "PJ_TURN_CHANNEL_MIN \<le> nx" "nx \<le> PJ_TURN_CHANNEL_MAX + 1"
  shows "chan_inv X chs tbl nx"
  unfolding chan_inv_def using assms by (intro conjI allI impI; simp)

text \<open>The invariant does not look at the time of expiry.\<close>

lemma chan_inv_expiry:
  assumes inv: "chan_inv X chs tbl nx"
  shows "chan_inv X (chs[k := (chs ! k)\<lparr>ch_expiry := e\<rparr>]) tbl nx"
proof -
  let ?chs = "chs[k := (chs ! k)\<lparr>ch_expiry := e\<rparr>]"
  have same: "ch_num (?chs ! j) = ch_num (chs ! j)" "ch_addr (?chs ! j) = ch_addr (chs ! j)" "ch_bound (?chs ! j) = ch_bound (chs ! j)" "has_number (?chs ! j) = has_number (chs ! j)" for j
    by (cases "k < length chs"; cases "j = k"; simp add: has_number_def list_update_beyond nth_list_update)+
  show ?thesis
  proof (rule chan_invI)
    fix key j assume "ht_abs tbl key = Some j"
    then show "j < length ?chs \<and> (key = sockaddr_bytes (ch_addr (?chs ! j)) \<or> ch_bound (?chs ! j) \<and> key = le_bytes16 (ch_num (?chs ! j)))"
      using chan_invD(2,3) [OF inv, of key j] by (simp add: same)
  next
    fix i j assume "i < length ?chs" "j < length ?chs" "has_number (?chs ! i)" "ch_num (?chs ! i) = ch_num (?chs ! j)"
    then show "i = j" using chan_invD(8) [OF inv, of i j] by (simp add: same)
  qed (use chan_invD(1,4,5,6,7,9,10) [OF inv] in \<open>simp_all add: same\<close>)
qed

lemma numbered_expiry: "numbered chs (chs[k := (chs ! k)\<lparr>ch_expiry := e\<rparr>])"
  by (cases "k < length chs") (auto simp: numbered_def nth_list_update has_number_def)

text \<open>A channel for a new peer.\<close>

lemma chan_inv_new:
  assumes inv: "chan_inv X chs tbl nx" and none: "ht_abs tbl (sockaddr_bytes addr) = None" and tbl': "hash_keyed tbl'" "ht_abs tbl' = (ht_abs tbl)(sockaddr_bytes addr \<mapsto> length chs)"
    and c: "\<not> has_number c" "\<not> ch_bound c" "ch_addr c = addr"
  shows "chan_inv X (chs @ [c]) tbl' nx"
proof (rule chan_invI)
  fix key k assume k: "ht_abs tbl' key = Some k"
  show "k < length (chs @ [c]) \<and> (key = sockaddr_bytes (ch_addr ((chs @ [c]) ! k)) \<or> ch_bound ((chs @ [c]) ! k) \<and> key = le_bytes16 (ch_num ((chs @ [c]) ! k)))"
  proof (cases "key = sockaddr_bytes addr")
    case True
    then show ?thesis using k tbl'(2) c(3) by (auto simp: nth_append)
  next
    case False
    then have "ht_abs tbl key = Some k" using k tbl'(2) by simp
    then show ?thesis using chan_invD(2,3) [OF inv, of key k] by (auto simp: nth_append)
  qed
next
  fix k assume "k < length (chs @ [c])"
  then show "ht_abs tbl' (sockaddr_bytes (ch_addr ((chs @ [c]) ! k))) = Some k"
    using chan_invD(4) [OF inv, of k] tbl'(2) c(3) none by (auto simp: nth_append less_Suc_eq)
next
  fix k assume "k < length (chs @ [c])" "ch_bound ((chs @ [c]) ! k)"
  then show "has_number ((chs @ [c]) ! k) \<and> (k \<notin> X \<longrightarrow> ht_abs tbl' (le_bytes16 (ch_num ((chs @ [c]) ! k))) = Some k)"
    using chan_invD(5,6) [OF inv, of k] tbl'(2) c(2) by (auto simp: nth_append less_Suc_eq)
next
  fix k assume "k < length (chs @ [c])" "has_number ((chs @ [c]) ! k)"
  then show "PJ_TURN_CHANNEL_MIN \<le> ch_num ((chs @ [c]) ! k) \<and> ch_num ((chs @ [c]) ! k) < nx" using chan_invD(7) [OF inv, of k] c(1) by (auto simp: nth_append less_Suc_eq)
next
  fix j k assume "j < length (chs @ [c])" "k < length (chs @ [c])" "has_number ((chs @ [c]) ! j)" "ch_num ((chs @ [c]) ! j) = ch_num ((chs @ [c]) ! k)"
  moreover from this have "has_number ((chs @ [c]) ! k)" by (simp add: has_number_def)
  ultimately show "j = k" using chan_invD(8) [OF inv, of j k] c(1) by (auto simp: nth_append less_Suc_eq)
qed (use chan_invD(9,10) [OF inv] tbl' in auto)

text \<open>The next number for a channel that has none.\<close>

lemma next_number:
  assumes "PJ_TURN_CHANNEL_MIN \<le> nx" "nx \<le> PJ_TURN_CHANNEL_MAX"
  shows "nx < nx + 1" "nx \<noteq> PJ_TURN_INVALID_CHANNEL" "nx + 1 \<le> PJ_TURN_CHANNEL_MAX + 1" "PJ_TURN_CHANNEL_MIN \<le> nx + 1"
proof -
  have n: "unat nx \<le> 0x7FFF" "0x4000 \<le> unat nx"
    using assms by (simp_all add: PJ_TURN_CHANNEL_MIN_def PJ_TURN_CHANNEL_MAX_def word_le_nat_alt)
  then have "unat (nx + 1) = unat nx + 1" by (simp add: unat_word_ariths)
  then show "nx < nx + 1" "nx \<noteq> PJ_TURN_INVALID_CHANNEL" "nx + 1 \<le> PJ_TURN_CHANNEL_MAX + 1" "PJ_TURN_CHANNEL_MIN \<le> nx + 1"
    using n by (auto simp: PJ_TURN_CHANNEL_MIN_def PJ_TURN_CHANNEL_MAX_def PJ_TURN_INVALID_CHANNEL_def word_le_nat_alt word_less_nat_alt)
qed

lemma chan_inv_number:
  assumes inv: "chan_inv X chs tbl nx" and k: "k < length chs" "\<not> has_number (chs ! k)" and le: "nx \<le> PJ_TURN_CHANNEL_MAX"
  shows "chan_inv X (chs[k := (chs ! k)\<lparr>ch_num := nx\<rparr>]) tbl (nx + 1)" "has_number (chs[k := (chs ! k)\<lparr>ch_num := nx\<rparr>] ! k)" "numbered chs (chs[k := (chs ! k)\<lparr>ch_num := nx\<rparr>])"
proof -
  let ?c = "(chs ! k)\<lparr>ch_num := nx\<rparr>"
  let ?chs = "chs[k := ?c]"
  note lt = next_number [OF chan_invD(9) [OF inv] le]
  have unbound: "\<not> ch_bound (chs ! k)" using chan_invD(5) [OF inv k(1)] k(2) by blast
  have num: "has_number ?c" using lt(2) by (simp add: has_number_def)
  show "has_number (?chs ! k)" using num k(1) by simp
  show "numbered chs ?chs" using num k(1) by (simp add: numbered_def nth_list_update)
  have old: "ch_num (chs ! j) < nx" if "j < length chs" "has_number (chs ! j)" for j using chan_invD(7) [OF inv that] by simp
  have addr: "ch_addr (?chs ! j) = ch_addr (chs ! j)" "ch_bound (?chs ! j) = ch_bound (chs ! j)" if "j < length chs" for j
    using that k(1) by (simp_all add: nth_list_update)
  show "chan_inv X ?chs tbl (nx + 1)"
  proof (rule chan_invI)
    fix key j assume j: "ht_abs tbl key = Some j"
    show "j < length ?chs \<and> (key = sockaddr_bytes (ch_addr (?chs ! j)) \<or> ch_bound (?chs ! j) \<and> key = le_bytes16 (ch_num (?chs ! j)))"
      using chan_invD(2,3) [OF inv j] unbound addr [of j] by (cases "j = k") auto
  next
    fix j assume "j < length ?chs" "ch_bound (?chs ! j)"
    then show "has_number (?chs ! j) \<and> (j \<notin> X \<longrightarrow> ht_abs tbl (le_bytes16 (ch_num (?chs ! j))) = Some j)"
      using chan_invD(5,6) [OF inv, of j] unbound by (cases "j = k") auto
  next
    fix j assume j: "j < length ?chs" "has_number (?chs ! j)"
    show "PJ_TURN_CHANNEL_MIN \<le> ch_num (?chs ! j) \<and> ch_num (?chs ! j) < nx + 1"
    proof (cases "j = k")
      case True
      then show ?thesis using k(1) lt(1) chan_invD(9) [OF inv] by simp
    next
      case False
      then show ?thesis using j chan_invD(7) [OF inv, of j] lt(1) by auto
    qed
  next
    fix i j assume ij: "i < length ?chs" "j < length ?chs" "has_number (?chs ! i)" "ch_num (?chs ! i) = ch_num (?chs ! j)"
    then have "has_number (?chs ! j)" by (simp add: has_number_def)
    then show "i = j" using ij old [of i] old [of j] chan_invD(8) [OF inv, of i j] by (cases "i = k"; cases "j = k") (auto simp: has_number_def)
  qed (use chan_invD [OF inv] lt addr in auto)
qed

text \<open>A successful response marks the channel as bound, and it is registered under its number.\<close>

lemma chan_inv_bind:
  assumes inv: "chan_inv {} chs tbl nx" and k: "k < length chs" "has_number (chs ! k)" and c: "ch_num c = ch_num (chs ! k)" "ch_addr c = ch_addr (chs ! k)" "ch_bound c"
  shows "chan_inv {k} (chs[k := c]) tbl nx"
proof -
  have same: "ch_num (chs[k := c] ! j) = ch_num (chs ! j)" "ch_addr (chs[k := c] ! j) = ch_addr (chs ! j)" "has_number (chs[k := c] ! j) = has_number (chs ! j)" if "j < length chs" for j
    using that c k(1) by (auto simp: nth_list_update has_number_def)
  have bound: "ch_bound (chs[k := c] ! j) \<longleftrightarrow> j = k \<or> ch_bound (chs ! j)" if "j < length chs" for j
    using that c(3) k(1) by (auto simp: nth_list_update)
  show ?thesis
  proof (rule chan_invI)
    fix key j assume j: "ht_abs tbl key = Some j"
    show "j < length (chs[k := c]) \<and> (key = sockaddr_bytes (ch_addr (chs[k := c] ! j)) \<or> ch_bound (chs[k := c] ! j) \<and> key = le_bytes16 (ch_num (chs[k := c] ! j)))"
      using chan_invD(2,3) [OF inv j] by (auto simp: same bound)
  next
    fix j assume "j < length (chs[k := c])" "ch_bound (chs[k := c] ! j)"
    then show "has_number (chs[k := c] ! j) \<and> (j \<notin> {k} \<longrightarrow> ht_abs tbl (le_bytes16 (ch_num (chs[k := c] ! j))) = Some j)"
      using chan_invD(5,6) [OF inv, of j] k by (auto simp: same bound)
  qed (use chan_invD [OF inv] same in auto)
qed

lemma chan_inv_registered:
  assumes inv: "chan_inv {k} chs tbl nx" and k: "k < length chs" "ch_bound (chs ! k)"
    and tbl': "hash_keyed tbl'" "ht_abs tbl' = (ht_abs tbl)(le_bytes16 (ch_num (chs ! k)) \<mapsto> k)"
  shows "chan_inv {} chs tbl' nx"
proof (rule chan_invI)
  fix key j assume "ht_abs tbl' key = Some j"
  then show "j < length chs \<and> (key = sockaddr_bytes (ch_addr (chs ! j)) \<or> ch_bound (chs ! j) \<and> key = le_bytes16 (ch_num (chs ! j)))"
    using chan_invD(2,3) [OF inv, of key j] k tbl'(2) by (auto split: if_splits)
next
  fix j assume j: "j < length chs" "ch_bound (chs ! j)"
  note num = chan_invD(5) [OF inv j]
  have "ht_abs tbl' (le_bytes16 (ch_num (chs ! j))) = Some j"
    using chan_invD(6) [OF inv j] chan_invD(8) [OF inv j(1) k(1) num] by (auto simp: tbl' le_bytes16_inj)
  then show "has_number (chs ! j) \<and> (j \<notin> {} \<longrightarrow> ht_abs tbl' (le_bytes16 (ch_num (chs ! j))) = Some j)" using num by simp
qed (use chan_invD [OF inv] tbl' in auto)

subsection \<open>Looking up channels\<close>

abbreviation new_ch :: "pj_sockaddr \<Rightarrow> ch_t" where
  "new_ch addr \<equiv> \<lparr>ch_num = PJ_TURN_INVALID_CHANNEL, ch_bound = False, ch_addr = addr, ch_expiry = PJ_TIME_VAL 0 0\<rparr>"

text \<open>The channel of a peer, in the table or new.\<close>

definition ch_for :: "pj_sockaddr \<Rightarrow> nat \<Rightarrow> pj_turn_session \<Rightarrow> pj_turn_session \<Rightarrow> bool" where
  "ch_for addr k sess s \<longleftrightarrow> (case ht_abs (tu_ch_table sess) (sockaddr_bytes addr) of
     Some j \<Rightarrow> j = k \<and> s = sess
   | None \<Rightarrow> k = length (tu_chs sess) \<and> (\<exists>table. hash_set True (tu_ch_table sess) (sockaddr_bytes addr) (pj_hash_calc 0 (sockaddr_bytes addr)) (Some k) False False = Some table \<and>
       s = sess\<lparr>tu_chs := tu_chs sess @ [new_ch addr], tu_ch_table := table\<rparr>))"

lemma lookup_ch_steps:
  assumes "lookup_ch_by_addr env addr True b sess = Some (ch, sess')"
  obtains k s1 s2 p where "ch = Some k" "ch_for addr k sess s1" "k < length (tu_chs s1)"
    "(let c = (tu_chs s1 ! k)\<lparr>ch_expiry := perm_expiry (te_now env) s1\<rparr>; s = s1\<lparr>tu_chs := (tu_chs s1)[k := c]\<rparr> in if b then register_ch k c s else Some s) = Some s2"
    "lookup_perm env (ch_addr (tu_chs s1 ! k)) True s2 = Some (p, sess')"
proof -
  let ?rest = "\<lambda>k s1. do {
     c \<leftarrow> deref (tu_chs s1) k;
     let c = c\<lparr>ch_expiry := perm_expiry (te_now env) s1\<rparr>;
     let s = s1\<lparr>tu_chs := (tu_chs s1)[k := c]\<rparr>;
     s \<leftarrow> (if b then register_ch k c s else Some s);
     (p, s) \<leftarrow> lookup_perm env (ch_addr c) True s;
     Some (Some k, s) }"
  have get: "pj_hash_get (tu_ch_table sess) (sockaddr_bytes addr) 0 = (ht_abs (tu_ch_table sess) (sockaddr_bytes addr), pj_hash_calc 0 (sockaddr_bytes addr))"
    by (simp add: hash_get_abs known_hash_def)
  have "\<exists>k s1. ch_for addr k sess s1 \<and> ?rest k s1 = Some (ch, sess')"
  proof (cases "ht_abs (tu_ch_table sess) (sockaddr_bytes addr)")
    case None
    let ?k = "length (tu_chs sess)"
    obtain table where t: "hash_set True (tu_ch_table sess) (sockaddr_bytes addr) (pj_hash_calc 0 (sockaddr_bytes addr)) (Some ?k) False False = Some table"
      using hash_set_Some [of True] by blast
    let ?s = "sess\<lparr>tu_chs := tu_chs sess @ [new_ch addr], tu_ch_table := table\<rparr>"
    have "ch_for addr ?k sess ?s" using None t by (simp add: ch_for_def)
    moreover have "?rest ?k ?s = Some (ch, sess')" using assms None t unfolding lookup_ch_by_addr_def get pj_hash_set_def by (cases b) (simp_all add: Let_def)
    ultimately show ?thesis by blast
  next
    case (Some k)
    then show ?thesis using assms unfolding lookup_ch_by_addr_def get by (simp add: ch_for_def Let_def)
  qed
  then obtain k s1 where c: "ch_for addr k sess s1" and r: "?rest k s1 = Some (ch, sess')" by blast
  then have "k < length (tu_chs s1)" by (auto simp: bind_eq_Some_conv deref_Some_iff)
  then show ?thesis using that [OF _ c] r by (auto simp: bind_eq_Some_conv Let_def)
qed

lemma ch_for_same: "ch_for addr k sess s \<Longrightarrow> tu_lock s = tu_lock sess \<and> tu_stun s = tu_stun sess \<and> tu_next_ch s = tu_next_ch sess"
  by (auto simp: ch_for_def split: option.splits)

lemma register_same: "register_ch k c sess = Some s \<Longrightarrow> tu_lock s = tu_lock sess \<and> tu_stun s = tu_stun sess \<and> tu_next_ch s = tu_next_ch sess \<and> tu_chs s = tu_chs sess"
  by (auto simp: register_ch_def Let_def split: prod.splits if_splits Option.bind_splits)

lemma lookup_ch_same:
  assumes "lookup_ch_by_addr env addr True b sess = Some (ch, sess')"
  shows "tu_lock sess' = tu_lock sess \<and> tu_stun sess' = tu_stun sess \<and> tu_next_ch sess' = tu_next_ch sess"
proof (rule lookup_ch_steps [OF assms])
  fix k s1 s2 p
  assume "ch_for addr k sess s1" and s2: "(let c = (tu_chs s1 ! k)\<lparr>ch_expiry := perm_expiry (te_now env) s1\<rparr>; s = s1\<lparr>tu_chs := (tu_chs s1)[k := c]\<rparr> in if b then register_ch k c s else Some s) = Some s2"
    and p: "lookup_perm env (ch_addr (tu_chs s1 ! k)) True s2 = Some (p, sess')"
  then show ?thesis using ch_for_same lookup_perm_same [OF p] by (auto simp: Let_def base_def split: if_splits dest!: register_same)
qed

lemma ch_for_inv:
  assumes ch: "ch_for addr k sess s" and inv: "chan_inv X (tu_chs sess) (tu_ch_table sess) (tu_next_ch sess)"
  shows "k < length (tu_chs s)" "chan_inv X (tu_chs s) (tu_ch_table s) (tu_next_ch s)" "numbered (tu_chs sess) (tu_chs s)"
proof -
  have "k < length (tu_chs s) \<and> chan_inv X (tu_chs s) (tu_ch_table s) (tu_next_ch s) \<and> numbered (tu_chs sess) (tu_chs s)"
  proof (cases "ht_abs (tu_ch_table sess) (sockaddr_bytes addr)")
    case None
    then obtain table where k: "k = length (tu_chs sess)"
      and t: "hash_set True (tu_ch_table sess) (sockaddr_bytes addr) (pj_hash_calc 0 (sockaddr_bytes addr)) (Some k) False False = Some table"
      and s: "s = sess\<lparr>tu_chs := tu_chs sess @ [new_ch addr], tu_ch_table := table\<rparr>" using ch by (auto simp: ch_for_def)
    note t' = hash_set_abs [OF chan_invD(1) [OF inv] _ t]
    have "chan_inv X (tu_chs sess @ [new_ch addr]) table (tu_next_ch sess)"
      by (rule chan_inv_new [OF inv None]) (use t' k in \<open>simp_all add: known_hash_def has_number_def\<close>)
    then show ?thesis by (simp add: s k numbered_def nth_append)
  next
    case (Some j)
    then show ?thesis using ch inv chan_invD(2) [OF inv Some] by (simp add: ch_for_def numbered_refl)
  qed
  then show "k < length (tu_chs s)" "chan_inv X (tu_chs s) (tu_ch_table s) (tu_next_ch s)" "numbered (tu_chs sess) (tu_chs s)" by auto
qed

lemma lookup_ch_inv:
  assumes res: "lookup_ch_by_addr env addr True False sess = Some (ch, sess')" and inv: "chan_inv X (tu_chs sess) (tu_ch_table sess) (tu_next_ch sess)"
  shows "\<exists>k. ch = Some k \<and> k < length (tu_chs sess') \<and> chan_inv X (tu_chs sess') (tu_ch_table sess') (tu_next_ch sess') \<and> numbered (tu_chs sess) (tu_chs sess')"
proof (rule lookup_ch_steps [OF res])
  fix k s1 s2 p
  assume ch: "ch = Some k" and c: "ch_for addr k sess s1"
    and s2: "(let c = (tu_chs s1 ! k)\<lparr>ch_expiry := perm_expiry (te_now env) s1\<rparr>; s = s1\<lparr>tu_chs := (tu_chs s1)[k := c]\<rparr> in if False then register_ch k c s else Some s) = Some s2"
    and p: "lookup_perm env (ch_addr (tu_chs s1 ! k)) True s2 = Some (p, sess')"
  note i = ch_for_inv [OF c inv]
  have eq: "tu_chs sess' = (tu_chs s1)[k := (tu_chs s1 ! k)\<lparr>ch_expiry := perm_expiry (te_now env) s1\<rparr>]" "tu_ch_table sess' = tu_ch_table s1" "tu_next_ch sess' = tu_next_ch s1"
    using s2 lookup_perm_same [OF p] by (auto simp: Let_def base_def)
  show ?thesis using i chan_inv_expiry [OF i(2)] numbered_trans [OF i(3) numbered_expiry] by (simp add: ch eq)
qed

text \<open>Registering a bound channel.\<close>

lemma register_inv:
  assumes res: "register_ch k (tu_chs sess ! k) sess = Some sess'" and inv: "chan_inv {k} (tu_chs sess) (tu_ch_table sess) (tu_next_ch sess)"
    and k: "k < length (tu_chs sess)" "ch_bound (tu_chs sess ! k)"
  shows "chan_inv {} (tu_chs sess') (tu_ch_table sess') (tu_next_ch sess')"
proof -
  let ?key = "le_bytes16 (ch_num (tu_chs sess ! k))"
  have get: "pj_hash_get (tu_ch_table sess) ?key 0 = (ht_abs (tu_ch_table sess) ?key, pj_hash_calc 0 ?key)" by (simp add: hash_get_abs known_hash_def)
  show ?thesis
  proof (cases "ht_abs (tu_ch_table sess) ?key")
    case None
    then obtain table where t: "hash_set True (tu_ch_table sess) ?key (pj_hash_calc 0 ?key) (Some k) False False = Some table" and s: "sess' = sess\<lparr>tu_ch_table := table\<rparr>"
      using res unfolding register_ch_def get by (auto simp: Let_def pj_hash_set_def bind_eq_Some_conv)
    show ?thesis
      using chan_inv_registered [OF inv k] hash_set_abs [OF chan_invD(1) [OF inv] _ t] by (simp add: s known_hash_def)
  next
    case (Some j)
    note j = chan_invD(2,3) [OF inv Some]
    then have "ch_num (tu_chs sess ! k) = ch_num (tu_chs sess ! j)" by (simp add: le_bytes16_inj)
    then have "k = j" using chan_invD(8) [OF inv k(1) j(1) chan_invD(5) [OF inv k]] by simp
    then have "ht_abs (tu_ch_table sess) = (ht_abs (tu_ch_table sess))(?key \<mapsto> k)" using Some by (simp add: fun_upd_idem)
    then show ?thesis
      using chan_inv_registered [OF inv k chan_invD(1) [OF inv]] res Some unfolding register_ch_def get by simp
  qed
qed

lemma bound_lookup_inv:
  assumes res: "lookup_ch_by_addr env (ch_addr (tu_chs sess ! k)) True True sess = Some (ch, sess')" and inv: "chan_inv {k} (tu_chs sess) (tu_ch_table sess) (tu_next_ch sess)"
    and k: "k < length (tu_chs sess)" "ch_bound (tu_chs sess ! k)"
  shows "chan_inv {} (tu_chs sess') (tu_ch_table sess') (tu_next_ch sess') \<and> numbered (tu_chs sess) (tu_chs sess')"
proof (rule lookup_ch_steps [OF res])
  fix j s1 s2 p
  assume "ch_for (ch_addr (tu_chs sess ! k)) j sess s1"
    and s2: "(let c = (tu_chs s1 ! j)\<lparr>ch_expiry := perm_expiry (te_now env) s1\<rparr>; s = s1\<lparr>tu_chs := (tu_chs s1)[j := c]\<rparr> in if True then register_ch j c s else Some s) = Some s2"
    and p: "lookup_perm env (ch_addr (tu_chs s1 ! j)) True s2 = Some (p, sess')"
  then have j: "j = k" "s1 = sess" using chan_invD(4) [OF inv k(1)] by (simp_all add: ch_for_def)
  let ?c = "(tu_chs sess ! k)\<lparr>ch_expiry := perm_expiry (te_now env) sess\<rparr>"
  let ?s = "sess\<lparr>tu_chs := (tu_chs sess)[k := ?c]\<rparr>"
  have r: "register_ch k (tu_chs ?s ! k) ?s = Some s2" using s2 k(1) by (simp add: j Let_def)
  have "chan_inv {} (tu_chs s2) (tu_ch_table s2) (tu_next_ch s2)"
    by (rule register_inv [OF r]) (use chan_inv_expiry [OF inv] k in simp_all)
  then show ?thesis using register_same [OF r] lookup_perm_same [OF p] numbered_expiry by (simp add: base_def)
qed

subsection \<open>Binding channels\<close>

lemma turn_inv_chs:
  assumes inv: "turn_inv sess" and c: "chan_inv {} (tu_chs s) (tu_ch_table s) (tu_next_ch s)" and n: "numbered (tu_chs sess) (tu_chs s)" and st: "tu_stun s = tu_stun sess"
  shows "turn_inv s"
proof -
  have "all_sent (ch_token (tu_chs s)) (tu_stun sess)"
    by (rule all_sent_mono [of "ch_token (tu_chs sess)"]) (use inv ch_token_numbered [OF _ n] in \<open>auto simp: turn_inv_def\<close>)
  then show ?thesis using inv c st by (simp add: turn_inv_def)
qed

lemma channel_bind_complete_kept:
  assumes res: "on_channel_bind_complete env st token response sess = Some sess'"
  shows "kept_if (ch_token (tu_chs sess) PJ_STUN_CHANNEL_BIND_REQUEST token) sess sess'"
proof (cases "is_success st response = Some True")
  case True
  then obtain k c ch where k: "token = Suc k" "k < length (tu_chs sess)" "c = tu_chs sess ! k"
    and l: "lookup_ch_by_addr env (ch_addr c) True True (sess\<lparr>tu_chs := (tu_chs sess)[k := c\<lparr>ch_bound := True\<rparr>]\<rparr>) = Some (ch, sess')"
    using res by (auto simp: on_channel_bind_complete_def bind_eq_Some_conv deref_Some_iff split: nat.splits)
  let ?s = "sess\<lparr>tu_chs := (tu_chs sess)[k := c\<lparr>ch_bound := True\<rparr>]\<rparr>"
  have same: "tu_lock sess' = tu_lock sess" "tu_stun sess' = tu_stun sess" using lookup_ch_same [OF l] by simp_all
  have "turn_inv sess' \<and> numbered (tu_chs sess) (tu_chs sess')" if inv: "turn_inv sess" and t: "ch_token (tu_chs sess) PJ_STUN_CHANNEL_BIND_REQUEST token"
  proof -
    have num: "has_number (tu_chs sess ! k)" using t k(1) by (simp add: ch_token_def req_methods(5))
    have "chan_inv {k} (tu_chs ?s) (tu_ch_table ?s) (tu_next_ch ?s)"
      using chan_inv_bind [of "tu_chs sess" "tu_ch_table sess" "tu_next_ch sess" k "c\<lparr>ch_bound := True\<rparr>"] inv k num by (simp add: turn_inv_def)
    then have b: "chan_inv {} (tu_chs sess') (tu_ch_table sess') (tu_next_ch sess') \<and> numbered (tu_chs ?s) (tu_chs sess')"
      using bound_lookup_inv [of env ?s k ch sess'] l k by simp
    have "numbered (tu_chs sess) (tu_chs ?s)" using k by (auto simp: numbered_def nth_list_update has_number_def)
    then have "numbered (tu_chs sess) (tu_chs sess')" using b numbered_trans by blast
    then show ?thesis using turn_inv_chs [OF inv] b same by blast
  qed
  then show ?thesis using same by (simp add: kept_defs)
next
  case False
  then have "steady sess sess'"
    using res by (auto simp: on_channel_bind_complete_def bind_eq_Some_conv Let_def split: if_splits intro: steady_refl on_session_fail_steady)
  then show ?thesis by (intro kept_kept_if steady_kept)
qed

text \<open>Sending a ChannelBind request for a channel with a number.\<close>

lemma drafted_steady:
  assumes "drafted i t s"
  shows "tdata_add i (\<lambda>m. pj_stun_msg_add_uint_attr m a v) s = Some (st, s') \<Longrightarrow> steady s s' \<and> drafted i t s'"
    and "add_peer_addr i addr s = Some (st, s') \<Longrightarrow> steady s s' \<and> drafted i t s'"
  using tdata_adds [OF assms] by blast+

lemma send_bind_kept:
  assumes a: "tdata_add i (\<lambda>m. pj_stun_msg_add_uint_attr m PJ_STUN_ATTR_CHANNEL_NUMBER v) s = Some (st1, s1)" and b: "add_peer_addr i addr s1 = Some (st2, s2)"
    and c: "send_msg env (Suc k) re i s2 = Some (st3, s3)" and d: "drafted i PJ_STUN_CHANNEL_BIND_REQUEST s"
  shows "kept_if (k < length (tu_chs s) \<and> has_number (tu_chs s ! k)) s s3"
proof -
  have s2: "steady s s2" "drafted i PJ_STUN_CHANNEL_BIND_REQUEST s2"
    using drafted_steady(1) [OF d a] drafted_steady(2) [OF _ b] steady_trans by blast+
  have any: "base s3 = base s2 \<and> ss_out (tu_stun s3) = []"
    using send_msg_all_sent [OF c s2(2), of "\<lambda>_ _. True"] by (simp add: all_sent_def sent_ok_def)
  have "turn_inv s3" if inv: "turn_inv s" and k: "k < length (tu_chs s)" "has_number (tu_chs s ! k)"
  proof -
    have inv2: "turn_inv s2" and chs: "tu_chs s2 = tu_chs s" using steady_kept [OF s2(1)] inv s2(1) by (auto simp: kept_defs steady_def base_def)
    have "ch_token (tu_chs s2) PJ_STUN_CHANNEL_BIND_REQUEST (Suc k)" using k by (simp add: ch_token_def chs)
    then have "all_sent (ch_token (tu_chs s2)) (tu_stun s3)" using send_msg_all_sent [OF c s2(2)] inv2 by (simp add: turn_inv_def)
    then show ?thesis using inv2 any by (simp add: turn_inv_def base_def)
  qed
  then show ?thesis using any s2(1) by (auto simp: kept_defs steady_def base_def numbered_refl)
qed

text \<open>The session with a number for the channel \<open>k\<close>, its own or the next one.\<close>

definition assign_number :: "nat \<Rightarrow> pj_turn_session \<Rightarrow> pj_turn_session" where
  "assign_number k s = (if ch_num (tu_chs s ! k) \<noteq> PJ_TURN_INVALID_CHANNEL then s
     else s\<lparr>tu_chs := (tu_chs s)[k := (tu_chs s ! k)\<lparr>ch_num := tu_next_ch s\<rparr>], tu_next_ch := tu_next_ch s + 1\<rparr>)"

lemma assign_number_kept:
  assumes k: "k < length (tu_chs s)" and n: "\<not> (ch_num (tu_chs s ! k) = PJ_TURN_INVALID_CHANNEL \<and> \<not> tu_next_ch s \<le> PJ_TURN_CHANNEL_MAX)"
  shows "kept s (assign_number k s)" "turn_inv s \<Longrightarrow> has_number (tu_chs (assign_number k s) ! k)"
proof -
  have "turn_inv (assign_number k s) \<and> numbered (tu_chs s) (tu_chs (assign_number k s)) \<and> has_number (tu_chs (assign_number k s) ! k)" if inv: "turn_inv s"
  proof (cases "has_number (tu_chs s ! k)")
    case True
    then show ?thesis using inv by (simp add: assign_number_def has_number_def numbered_refl)
  next
    case False
    have c: "chan_inv {} (tu_chs s) (tu_ch_table s) (tu_next_ch s)" using inv by (simp add: turn_inv_def)
    note a = chan_inv_number [OF c k False]
    have "tu_next_ch s \<le> PJ_TURN_CHANNEL_MAX" using n False by (simp add: has_number_def)
    then show ?thesis using a turn_inv_chs [OF inv, of "assign_number k s"] False by (simp add: assign_number_def has_number_def)
  qed
  then show "kept s (assign_number k s)" "turn_inv s \<Longrightarrow> has_number (tu_chs (assign_number k s) ! k)" by (auto simp: kept_defs assign_number_def)
qed

lemma bind_channel_kept:
  assumes res: "pj_turn_session_bind_channel env addr sess = Some (st, sess')"
  shows "kept sess sess'"
proof (cases "tu_state sess = PJ_TURN_STATE_READY")
  case False
  then show ?thesis using res by (simp add: pj_turn_session_bind_channel_def kept_refl)
next
  case True
  show ?thesis
  proof (cases "create_req env PJ_STUN_CHANNEL_BIND_REQUEST (grp_lock_acquire sess)")
    case (Inl e)
    then show ?thesis using res True lock_kept [OF kept_refl] by (simp add: pj_turn_session_bind_channel_def Let_def) blast
  next
    case (Inr x)
    obtain i s where x: "x = (i, s)" by (cases x)
    note c = create_req_steady [OF Inr [unfolded x]]
    obtain k s1 where l: "lookup_ch_by_addr env addr True False s = Some (Some k, s1)" and k: "k < length (tu_chs s1)"
      using res True Inr x by (auto simp: pj_turn_session_bind_channel_def Let_def bind_eq_Some_conv deref_Some_iff)
    let ?c = "tu_chs s1 ! k"
    have s1: "kept s s1" and draft: "drafted i PJ_STUN_CHANNEL_BIND_REQUEST s1"
      using lookup_ch_same [OF l] lookup_ch_inv [OF l, of "{}"] turn_inv_chs [of s s1] c(2) by (auto simp: kept_defs drafted_def turn_inv_def)
    note acc = kept_trans [OF steady_kept [OF c(1)] s1]
    show ?thesis
    proof (cases "ch_num ?c = PJ_TURN_INVALID_CHANNEL \<and> \<not> tu_next_ch s1 \<le> PJ_TURN_CHANNEL_MAX")
      case True
      then have "sess' = grp_lock_release s1" using res \<open>tu_state sess = _\<close> Inr x l k by (simp add: pj_turn_session_bind_channel_def Let_def)
      then show ?thesis using lock_kept [OF acc] by simp
    next
      case False
      define num where "num = (if ch_num ?c \<noteq> PJ_TURN_INVALID_CHANNEL then ch_num ?c else tu_next_ch s1)"
      define s2 where "s2 = assign_number k s1"
      obtain st3 s3 st4 s4 s5
        where r: "tdata_add i (\<lambda>m. pj_stun_msg_add_uint_attr m PJ_STUN_ATTR_CHANNEL_NUMBER (PJ_STUN_SET_CH_NB num)) s2 = Some (st3, s3)"
          "add_peer_addr i addr s3 = Some (st4, s4)" "send_msg env (Suc k) (is_udp s4) i s4 = Some (st, s5)" and s': "sess' = grp_lock_release s5"
        using res \<open>tu_state sess = _\<close> Inr x l k False unfolding num_def s2_def assign_number_def by (auto simp: pj_turn_session_bind_channel_def Let_def bind_eq_Some_conv split: if_splits)
      have k2: "k < length (tu_chs s2)" using k by (simp add: s2_def assign_number_def)
      note s2 = assign_number_kept [OF k False, folded s2_def]
      have "drafted i PJ_STUN_CHANNEL_BIND_REQUEST s2" using draft by (simp add: s2_def assign_number_def)
      then have "kept_if (k < length (tu_chs s2) \<and> has_number (tu_chs s2 ! k)) s2 s5" using send_bind_kept [OF r] by blast
      then have "kept s1 s5" using s2 k2 numbered_trans by (auto simp: kept_defs)
      then show ?thesis using lock_kept [OF kept_trans [OF acc]] s' by blast
    qed
  qed
qed

end
