(* ===== verification/TurnReach.thy ===== *)
theory TurnReach
  imports TurnChannels
begin

text \<open>
  The TURN session as a machine: its calls, packets and timers as events, the states they reach, and what holds there of the channels and of the lock.
\<close>

subsection \<open>Callbacks of the STUN session\<close>

lemma ch_token_method:
  "PJ_STUN_GET_METHOD t = PJ_STUN_CHANNEL_BIND_METHOD \<Longrightarrow> ch_token chs t token = ch_token chs PJ_STUN_CHANNEL_BIND_REQUEST token"
  by (simp add: ch_token_def req_methods(5))

lemma request_complete_kept:
  assumes res: "stun_on_request_complete env st token td response sess = Some sess'"
  shows "kept_if (ch_token (tu_chs sess) (td_type td) token) sess sess'"
proof (cases "PJ_STUN_GET_METHOD (td_type td) = PJ_STUN_CHANNEL_BIND_METHOD")
  case True
  then have "on_channel_bind_complete env st token response sess = Some sess'"
    using res by (simp add: stun_on_request_complete_def td_type_def Let_def PJ_STUN_CHANNEL_BIND_METHOD_def PJ_STUN_ALLOCATE_METHOD_def PJ_STUN_REFRESH_METHOD_def)
  then show ?thesis unfolding ch_token_method [OF True] by (rule channel_bind_complete_kept)
next
  case False
  then have "steady sess sess'"
    using res unfolding stun_on_request_complete_def Let_def td_type_def
    by (auto split: if_splits intro: allocate_complete_steady refresh_complete_steady create_perm_complete_steady steady_refl)
  then show ?thesis by (intro kept_kept_if steady_kept)
qed

text \<open>The tokens that reports carry.\<close>

definition tokens_ok :: "(nat \<Rightarrow> pj_stun_tx_data option) \<Rightarrow> ch_t list \<Rightarrow> sess_action \<Rightarrow> bool" where
  "tokens_ok store chs a = (case a of Sess_request_complete st token i m \<Rightarrow> (\<forall>td. store i = Some td \<longrightarrow> ch_token chs (td_type td) token) | _ \<Rightarrow> True)"

lemma tokens_ok_numbered: "tokens_ok store chs a \<Longrightarrow> numbered chs chs' \<Longrightarrow> tokens_ok store chs' a"
  using ch_token_numbered by (auto simp: tokens_ok_def split: sess_action.splits)

lemma kept_if_trans:
  assumes "kept_if P a b" "kept_if Q b c" "P \<Longrightarrow> numbered (tu_chs a) (tu_chs b) \<Longrightarrow> Q"
  shows "kept_if P a c"
  using assms numbered_trans by (auto simp: kept_if_def)

lemma stun_callbacks_kept:
  "stun_callbacks env store acts st sess = Some (st', sess') \<Longrightarrow> kept_if (list_all (tokens_ok store (tu_chs sess)) acts) sess sess'"
proof (induction acts arbitrary: st sess)
  case Nil
  then show ?case by (simp add: kept_if_def numbered_refl)
next
  case (Cons a acts)
  have step: "kept_if (list_all (tokens_ok store (tu_chs sess)) (a # acts)) sess sess'"
    if "kept_if (tokens_ok store (tu_chs sess) a) sess s" "stun_callbacks env store acts st1 s = Some (st', sess')" for st1 s
  proof (rule kept_if_trans [OF _ Cons.IH [OF that(2)]])
    show "kept_if (list_all (tokens_ok store (tu_chs sess)) (a # acts)) sess s" using that(1) by (auto simp: kept_if_def)
    show "list_all (tokens_ok store (tu_chs s)) acts" if "list_all (tokens_ok store (tu_chs sess)) (a # acts)" "numbered (tu_chs sess) (tu_chs s)"
      using that tokens_ok_numbered by (auto simp: list_all_iff)
  qed
  show ?case
  proof (cases a)
    case (Sess_request_complete st1 token i response)
    then obtain td s where td: "store i = Some td" "stun_on_request_complete env st1 token td response sess = Some s" "stun_callbacks env store acts st s = Some (st', sess')"
      using Cons.prems by (auto simp: bind_eq_Some_conv)
    have "kept_if (tokens_ok store (tu_chs sess) a) sess s" using request_complete_kept [OF td(2)] td(1) Sess_request_complete by (simp add: tokens_ok_def)
    then show ?thesis using step td(3) by blast
  next
    case (Sess_rx_indication pkt msg token src)
    then obtain st1 s where "stun_on_rx_indication msg sess = Some (st1, s)" and c: "stun_callbacks env store acts st1 s = Some (st', sess')"
      using Cons.prems by (auto simp: bind_eq_Some_conv)
    then show ?thesis by (intro step [OF _ c] kept_kept_if steady_kept rx_indication_steady)
  next
    case (Sess_send_msg token pkt dst)
    then have "stun_callbacks env store acts st (turn_emit [Turn_send_pkt pkt dst] sess) = Some (st', sess')" using Cons.prems by simp
    then show ?thesis by (rule step [OF kept_kept_if [OF steady_kept [OF steady_emit]]])
  next
    case (Sess_rx_request pkt rdata token src)
    then have "stun_callbacks env store acts st sess = Some (st', sess')" using Cons.prems by simp
    then show ?thesis by (rule step [OF kept_kept_if [OF kept_refl]])
  qed
qed

lemma stun_returned_kept:
  assumes res: "stun_returned env st stun sess = Some (st', sess')"
    and stun: "\<And>R. all_sent R (tu_stun sess) \<Longrightarrow> all_sent R stun \<and> reports_ok (ss_tdata (tu_stun sess)) (tu_stun sess) stun"
  shows "kept sess sess'"
proof -
  let ?s = "sess\<lparr>tu_stun := stun\<lparr>ss_out := []\<rparr>\<rparr>"
  let ?acts = "ss_out stun"
  have c: "kept_if (list_all (tokens_ok (ss_tdata (tu_stun sess)) (tu_chs sess)) ?acts) ?s sess'"
    using stun_callbacks_kept res unfolding stun_returned_def by fastforce
  have "turn_inv ?s \<and> list_all (tokens_ok (ss_tdata (tu_stun sess)) (tu_chs sess)) ?acts" if inv: "turn_inv sess"
  proof
    have all: "all_sent (ch_token (tu_chs sess)) (tu_stun sess)" and out: "ss_out (tu_stun sess) = []" using inv by (auto simp: turn_inv_def)
    note s = stun [OF all]
    show "turn_inv ?s" using inv s by (simp add: turn_inv_def)
    have "tokens_ok (ss_tdata (tu_stun sess)) (tu_chs sess) a" if "report_ok (ss_tdata (tu_stun sess)) a" for a
      using that all_sentD [OF all] by (auto simp: report_ok_def tokens_ok_def sent_ok_def split: sess_action.splits)
    then show "list_all (tokens_ok (ss_tdata (tu_stun sess)) (tu_chs sess)) ?acts" using s out by (auto simp: reports_ok_def list_all_iff)
  qed
  then show ?thesis using c by (auto simp: kept_defs)
qed

subsection \<open>Every operation keeps the invariant\<close>

lemma rx_pkt_kept:
  assumes res: "pj_turn_session_on_rx_pkt env pkt sess = Some (st, n, sess')" and pkt: "deref pkt 0 = Some b" and "b AND 0xC0 = 0 \<or> 4 \<le> length pkt"
  shows "kept sess sess'"
proof -
  let ?a = "grp_lock_acquire sess"
  consider (stun) server st1 stun s where "pj_stun_session_on_rx_pkt (stun_env env ?a) (tu_stun ?a) pkt
        (PJ_STUN_CHECK_PACKET OR PJ_STUN_NO_FINGERPRINT_CHECK OR (if is_udp ?a then PJ_STUN_IS_DATAGRAM else 0)) 0 server = Some (st1, n, stun)"
      "stun_returned env st1 stun ?a = Some (st, s)" "sess' = grp_lock_release s"
    | (data) s where "on_channel_data pkt ?a = Some (st, n, s)" "sess' = grp_lock_release s"
    using assms by (auto simp: pj_turn_session_on_rx_pkt_def Let_def bind_eq_Some_conv split: if_splits)
  then show ?thesis
  proof cases
    case stun
    have "kept ?a s" by (rule stun_returned_kept [OF stun(2) rx_pkt_sent [OF stun(1)]])
    then show ?thesis using lock_kept stun(3) by simp
  next
    case data
    then show ?thesis using lock_kept [OF steady_kept [OF channel_data_steady]] by simp
  qed
qed

lemma retransmit_kept: "stun_retransmit_timer env i sess = Some sess' \<Longrightarrow> kept sess sess'"
  unfolding stun_retransmit_timer_def by (auto simp: bind_eq_Some_conv intro!: stun_returned_kept dest: retransmit_timer_sent)

lemma destroy_timer_kept: "stun_destroy_timer env i sess = Some sess' \<Longrightarrow> kept sess sess'"
  unfolding stun_destroy_timer_def by (auto simp: bind_eq_Some_conv intro!: stun_returned_kept dest: destroy_timer_sent quietly_reports)

lemma refresh_channels_kept: "refresh_channels env ks b sess = Some (b', sess') \<Longrightarrow> kept sess sess'"
proof (induction ks arbitrary: b sess)
  case (Cons k ks)
  then show ?case using kept_trans [OF bind_channel_kept] by (auto simp: bind_eq_Some_conv split: if_splits)
qed (simp add: kept_refl)

lemma on_keep_alive_kept:
  assumes "on_keep_alive env sess = Some sess'"
  shows "kept sess sess'"
proof (cases "tu_state sess \<ge> PJ_TURN_STATE_DEALLOCATING")
  case True
  then show ?thesis using assms by (simp add: on_keep_alive_def kept_refl)
next
  case False
  define due where "due = PJ_TIME_VAL_LTE (tu_expiry sess) (te_now env)"
  obtain s1 b s2 m s3 s4
    where r: "(if due then send_refresh env (if ap_lifetime (tu_alloc_param sess) = 0 then -1 else ap_lifetime (tu_alloc_param sess)) sess else Some sess) = Some s1"
      and c: "refresh_channels env (hash_values (tu_ch_table s1)) due s1 = Some (b, s2)" and p: "refresh_permissions env s2 = Some (m, s3)"
      and k: "(if \<not> (b \<or> m \<noteq> 0) \<and> ap_ka_interval (tu_alloc_param s3) > 0 then send_blank_ind env s3 else Some s3) = Some s4"
      and s': "sess' = (if \<not> due then s4\<lparr>tu_timer := snd (slot_schedule_w_grp_lock (tu_timer s4) (tu_ka_interval s4 * 1000) TIMER_KEEP_ALIVE)\<rparr> else s4)"
    using assms False unfolding on_keep_alive_def due_def by (auto simp: Let_def bind_eq_Some_conv)
  have s1: "kept sess s1" using r by (auto split: if_splits intro: kept_refl steady_kept send_refresh_steady)
  have s4: "steady s3 s4" using k by (auto split: if_splits intro: steady_refl send_blank_ind_steady)
  have "steady s4 sess'" unfolding s' by (rule steady_upd) simp_all
  then have "kept s2 sess'" using steady_trans [OF refresh_permissions_steady [OF p]] steady_trans [OF s4] by (intro steady_kept) blast
  then show ?thesis using kept_trans [OF s1] kept_trans [OF refresh_channels_kept [OF c]] by blast
qed

lemma on_timer_event_kept:
  assumes "on_timer_event env sess = Some sess'"
  shows "kept sess sess'"
proof -
  let ?a = "(grp_lock_acquire sess)\<lparr>tu_timer := \<lparr>tm_id = TIMER_NONE, tm_delay = None\<rparr>\<rparr>"
  have "steady (grp_lock_acquire sess) ?a" by (rule steady_upd) simp_all
  then have a: "kept (grp_lock_acquire sess) s" if "kept ?a s" for s using kept_trans [OF steady_kept that] by blast
  show ?thesis
    using assms by (auto simp: on_timer_event_def Let_def bind_eq_Some_conv split: turn_timer_id.splits intro!: lock_kept a intro: kept_refl on_keep_alive_kept steady_kept do_destroy_steady)
qed

lemma drafting_if:
  assumes "drafting i t sess s" "(if c then tdata_add i (\<lambda>m. pj_stun_msg_add_uint_attr m a v) s else Some (st, s)) = Some (st', s')"
  shows "drafting i t sess s'"
  using assms drafting_add(1) [OF assms(1)] by (auto split: if_splits)

lemma alloc_steady:
  assumes res: "pj_turn_session_alloc env param sess = Some (st, sess')"
  shows "steady sess sess'"
proof (cases "tu_state sess > PJ_TURN_STATE_NULL \<and> tu_state sess \<le> PJ_TURN_STATE_RESOLVED")
  case False
  then show ?thesis using res by (auto simp: pj_turn_session_alloc_def steady_refl split: if_splits)
next
  case True
  define a where "a = (case param of Some p \<Rightarrow> (grp_lock_acquire sess)\<lparr>tu_alloc_param := pj_turn_alloc_param_copy p\<rparr> | None \<Rightarrow> grp_lock_acquire sess)"
  have a: "steady (grp_lock_acquire sess) s" if "steady a s" for s
    by (rule steady_from [OF that]) (simp_all add: a_def split: option.split)
  show ?thesis
  proof (cases "tu_state a < PJ_TURN_STATE_RESOLVED")
    case True
    have "steady a (a\<lparr>tu_pending_alloc := True\<rparr>)" by (rule steady_upd) simp_all
    then have "steady sess (grp_lock_release (a\<lparr>tu_pending_alloc := True\<rparr>))" by (intro lock_steady a)
    then show ?thesis
      using res True \<open>tu_state sess > _ \<and> _\<close> unfolding a_def by (auto simp: pj_turn_session_alloc_def Let_def)
  next
    case ready: False
    show ?thesis
    proof (cases "create_req env PJ_STUN_ALLOCATE_REQUEST a")
      case (Inl e)
      then show ?thesis using res True ready lock_steady [OF a [OF steady_refl]] unfolding a_def by (auto simp: pj_turn_session_alloc_def Let_def)
    next
      case (Inr x)
      obtain i s where x: "x = (i, s)" by (cases x)
      obtain st1 s1 st2 s2 st3 s3 s4
        where r1: "tdata_add i (\<lambda>m. pj_stun_msg_add_uint_attr m PJ_STUN_ATTR_REQ_TRANSPORT (PJ_STUN_SET_RT_PROTO 17)) s = Some (st1, s1)"
          and r2: "(if ap_bandwidth (tu_alloc_param s1) > 0
            then tdata_add i (\<lambda>m. pj_stun_msg_add_uint_attr m PJ_STUN_ATTR_BANDWIDTH (of_int (ap_bandwidth (tu_alloc_param s1)))) s1 else Some (PJ_SUCCESS, s1)) = Some (st2, s2)"
          and r3: "(if ap_lifetime (tu_alloc_param s2) > 0
            then tdata_add i (\<lambda>m. pj_stun_msg_add_uint_attr m PJ_STUN_ATTR_LIFETIME (of_int (ap_lifetime (tu_alloc_param s2)))) s2 else Some (PJ_SUCCESS, s2)) = Some (st3, s3)"
          and r4: "send_msg env 0 (is_udp (set_state PJ_TURN_STATE_ALLOCATING s3)) i (set_state PJ_TURN_STATE_ALLOCATING s3) = Some (st, s4)"
          and s': "sess' = grp_lock_release (if st \<noteq> PJ_SUCCESS then set_state PJ_TURN_STATE_RESOLVED s4 else s4)"
        using res True ready Inr x unfolding a_def by (auto simp: pj_turn_session_alloc_def Let_def bind_eq_Some_conv)
      have "drafting i PJ_STUN_ALLOCATE_REQUEST a s3" by (rule drafting_if [OF drafting_if [OF drafting_add(1) [OF drafting_create [OF Inr [unfolded x]] r1] r2] r3])
      then have s4: "steady a s4" using drafting_send [OF drafting_state r4 req_methods(2)] by blast
      then show ?thesis unfolding s' using steady_trans [OF s4 set_state_steady] by (intro lock_steady a) simp
    qed
  qed
qed

lemma dns_cb_steady:
  assumes "dns_srv_resolver_cb env st recs sess = Some sess'"
  shows "steady sess sess'"
proof (cases "st \<noteq> PJ_SUCCESS \<or> tu_pending_destroy sess")
  case True
  then show ?thesis using assms by (simp add: dns_srv_resolver_cb_def fail_with_steady)
next
  case False
  have up: "steady sess s'" if "steady (set_state PJ_TURN_STATE_RESOLVED (sess\<lparr>tu_srv_addr_list := l, tu_srv_addr := Some 0\<rparr>)) s'" for l s'
    by (rule steady_from [OF steady_trans [OF set_state_steady that]]) simp_all
  show ?thesis using assms False by (auto simp: dns_srv_resolver_cb_def Let_def split: if_splits intro!: up intro: steady_refl alloc_steady)
qed

text \<open>Setting the server, with what the application does in the callback.\<close>

datatype user_call = Call_nothing | Call_shutdown | Call_destroy pj_status

definition call_user :: "turn_env \<Rightarrow> user_call \<Rightarrow> pj_turn_session \<Rightarrow> pj_turn_session" where
  "call_user env u sess = (case u of
     Call_nothing \<Rightarrow> sess
   | Call_shutdown \<Rightarrow> (case pj_turn_session_shutdown env sess of Some (_, s) \<Rightarrow> s | None \<Rightarrow> sess)
   | Call_destroy err \<Rightarrow> (case pj_turn_session_destroy env err sess of Some (_, s) \<Rightarrow> s | None \<Rightarrow> sess))"

lemma shutdown_steady: "pj_turn_session_shutdown env sess = Some (st, sess') \<Longrightarrow> steady sess sess'"
  by (auto simp: pj_turn_session_shutdown_def bind_eq_Some_conv intro: lock_steady sess_shutdown_steady)

lemma destroy_steady:
  assumes "pj_turn_session_destroy env err sess = Some (st, sess')"
  shows "steady sess sess'"
proof -
  have "steady sess s'" if "sess_shutdown env PJ_SUCCESS (set_state PJ_TURN_STATE_DEALLOCATED (sess\<lparr>tu_last_status := err\<rparr>)) = Some s'" for s'
    by (rule steady_from [OF fail_with_steady [OF that]]) simp_all
  then show ?thesis using assms by (auto simp: pj_turn_session_destroy_def bind_eq_Some_conv Let_def split: if_splits intro: fail_with_steady)
qed

lemma call_user_steady: "steady sess (call_user env u sess)"
  using shutdown_steady destroy_steady by (auto simp: call_user_def steady_refl split: user_call.split option.split)

text \<open>The default port is out of range and the session has no other way to find the server.\<close>

definition server_leaks :: "bool \<Rightarrow> pj_status option \<Rightarrow> int \<Rightarrow> pj_turn_session \<Rightarrow> bool" where
  "server_leaks is_ip_addr resolver default_port sess \<longleftrightarrow>
     tu_state sess = PJ_TURN_STATE_NULL \<and> (is_ip_addr \<or> resolver = None) \<and> \<not> (0 < default_port \<and> default_port < 65536)"

lemma set_server_addrs_steady:
  assumes "set_server_addrs (call_user env u) ai True port sess = (st, sess')"
  shows "\<exists>s. steady sess s \<and> sess' = grp_lock_release s"
proof -
  let ?s = "call_user env u (set_state PJ_TURN_STATE_RESOLVING (sess\<lparr>tu_default_port := of_int port\<rparr>))"
  have s: "steady sess ?s" by (rule steady_from [OF steady_trans [OF set_state_steady call_user_steady]]) simp_all
  have "steady sess (set_state PJ_TURN_STATE_RESOLVED (?s\<lparr>tu_srv_addr_list := l, tu_srv_addr := Some 0\<rparr>))" for l
    by (rule steady_trans [OF s steady_from [OF set_state_steady]]) simp_all
  then show "\<exists>s. steady sess s \<and> sess' = grp_lock_release s"
    using assms s by (auto simp: set_server_addrs_def Let_def split: if_splits sum.splits)
qed

lemma set_server_steady:
  assumes res: "pj_turn_session_set_server (call_user env u) is_ip_addr resolver ai port sess = (st, sess')" and l: "\<not> server_leaks is_ip_addr resolver port sess"
  shows "steady sess sess'"
proof (cases "tu_state sess = PJ_TURN_STATE_NULL \<and> \<not> (is_ip_addr \<or> resolver = None)")
  case True
  let ?a = "grp_lock_acquire sess"
  let ?s = "\<lambda>a. call_user env u (set_state PJ_TURN_STATE_RESOLVING a)"
  have s: "steady ?a (?s a)" if "a = ?a \<or> a = ?a\<lparr>tu_default_port := p\<rparr>" for a p
    by (rule steady_from [OF steady_trans [OF set_state_steady call_user_steady]]) (use that in auto)
  have s0: "steady ?a (set_state PJ_TURN_STATE_NULL (?s a))" if "a = ?a \<or> a = ?a\<lparr>tu_default_port := p\<rparr>" for a p
    by (rule steady_trans [OF s [OF that] set_state_steady])
  show ?thesis
    using res True s s0 by (auto simp: pj_turn_session_set_server_def Let_def split: option.splits if_splits intro!: lock_steady intro: steady_refl)
next
  case False
  show ?thesis
  proof (cases "tu_state sess = PJ_TURN_STATE_NULL")
    case True
    then have "set_server_addrs (call_user env u) ai True port (grp_lock_acquire sess) = (st, sess')"
      using res False l by (auto simp: pj_turn_session_set_server_def server_leaks_def Let_def split: option.splits)
    then show ?thesis using set_server_addrs_steady lock_steady by blast
  next
    case False
    then show ?thesis using res by (simp add: pj_turn_session_set_server_def steady_refl)
  qed
qed

subsection \<open>The machine\<close>

text \<open>
  What the application, the network, the resolver and the timers do to a session. Responses of the STUN session to requests are not cached, so it has no timers but those of
  its transactions.
\<close>

datatype turn_event =
    Ev_set_server user_call bool "pj_status option" "pj_status + pj_sockaddr list" int
  | Ev_resolved pj_status "(16 word \<times> byte list list) list"
  | Ev_alloc "pj_turn_alloc_param option"
  | Ev_set_perm "pj_sockaddr list" nat
  | Ev_sendto "byte list" pj_sockaddr
  | Ev_bind_channel pj_sockaddr
  | Ev_rx_pkt "byte list"
  | Ev_retransmit_timer nat
  | Ev_destroy_timer nat
  | Ev_timer
  | Ev_shutdown
  | Ev_destroy pj_status
  | Ev_set_user_data nat
  | Ev_set_log "32 word"
  | Ev_set_software_name "byte list option"
  | Ev_set_credential pj_stun_auth_cred

fun turn_run :: "turn_env \<Rightarrow> turn_event \<Rightarrow> pj_turn_session \<Rightarrow> pj_turn_session option" where
  "turn_run env (Ev_set_server u ip resolver ai port) sess = Some (snd (pj_turn_session_set_server (call_user env u) ip resolver ai port sess))"
| "turn_run env (Ev_resolved st recs) sess = dns_srv_resolver_cb env st recs sess"
| "turn_run env (Ev_alloc param) sess = map_option snd (pj_turn_session_alloc env param sess)"
| "turn_run env (Ev_set_perm addrs options) sess = map_option snd (pj_turn_session_set_perm env addrs options sess)"
| "turn_run env (Ev_sendto pkt addr) sess = map_option snd (pj_turn_session_sendto env pkt addr sess)"
| "turn_run env (Ev_bind_channel addr) sess = map_option snd (pj_turn_session_bind_channel env addr sess)"
| "turn_run env (Ev_rx_pkt pkt) sess = map_option (\<lambda>(st, n, s). s) (pj_turn_session_on_rx_pkt env pkt sess)"
| "turn_run env (Ev_retransmit_timer i) sess = stun_retransmit_timer env i sess"
| "turn_run env (Ev_destroy_timer i) sess = stun_destroy_timer env i sess"
| "turn_run env Ev_timer sess = on_timer_event env sess"
| "turn_run env Ev_shutdown sess = map_option snd (pj_turn_session_shutdown env sess)"
| "turn_run env (Ev_destroy err) sess = map_option snd (pj_turn_session_destroy env err sess)"
| "turn_run env (Ev_set_user_data d) sess = Some (snd (pj_turn_session_set_user_data sess d))"
| "turn_run env (Ev_set_log flags) sess = Some (pj_turn_session_set_log sess flags)"
| "turn_run env (Ev_set_software_name sw) sess = Some (snd (pj_turn_session_set_software_name sess sw))"
| "turn_run env (Ev_set_credential cred) sess = Some (snd (pj_turn_session_set_credential sess cred))"

inductive turn_reachable :: "pj_turn_session \<Rightarrow> bool" where
  create: "pj_turn_session_create rto res_cache sw af tp lock_status on_rx_data on_state d = Some (Inr sess) \<Longrightarrow> turn_reachable sess"
| run: "turn_reachable sess \<Longrightarrow> turn_run env ev sess = Some sess' \<Longrightarrow> turn_reachable sess'"

text \<open>The two paths that return with the lock held.\<close>

definition leaks_lock :: "turn_event \<Rightarrow> pj_turn_session \<Rightarrow> bool" where
  "leaks_lock ev sess = (case ev of
     Ev_rx_pkt pkt \<Rightarrow> length pkt < 4 \<and> pkt \<noteq> [] \<and> hd pkt AND 0xC0 \<noteq> 0
   | Ev_set_server u ip resolver ai port \<Rightarrow> server_leaks ip resolver port sess
   | _ \<Rightarrow> False)"

lemma settings_steady:
  "steady sess (snd (pj_turn_session_set_user_data sess d))" "steady sess (pj_turn_session_set_log sess flags)"
  "steady sess (snd (pj_turn_session_set_software_name sess sw))" "steady sess (snd (pj_turn_session_set_credential sess cred))"
proof -
  have st: "steady sess (sess\<lparr>tu_stun := stun\<rparr>)" if "ss_tdata stun = ss_tdata (tu_stun sess)" "ss_out stun = ss_out (tu_stun sess)" for sess :: pj_turn_session and stun
    using that all_sent_cong [of stun "tu_stun sess"] by (simp add: steady_def stun_steady_def)
  show "steady sess (snd (pj_turn_session_set_user_data sess d))" by (rule steady_upd) (simp_all add: pj_turn_session_set_user_data_def)
  show "steady sess (pj_turn_session_set_log sess flags)" unfolding pj_turn_session_set_log_def by (rule st) (simp_all add: pj_stun_session_set_log_def)
  show "steady sess (snd (pj_turn_session_set_software_name sess sw))"
    unfolding pj_turn_session_set_software_name_def Let_def by (auto simp: pj_stun_session_set_software_name_def intro!: lock_steady st)
  show "steady sess (snd (pj_turn_session_set_credential sess cred))"
    unfolding pj_turn_session_set_credential_def Let_def by (auto simp: pj_stun_session_set_credential_def intro!: lock_steady st)
qed

lemma turn_run_kept:
  assumes res: "turn_run env ev sess = Some sess'" and l: "\<not> leaks_lock ev sess"
  shows "kept sess sess'"
proof (cases ev)
  case (Ev_set_server u ip resolver ai port)
  then show ?thesis using res l by (auto simp: leaks_lock_def intro!: steady_kept set_server_steady prod.collapse [symmetric])
next
  case (Ev_rx_pkt pkt)
  then obtain st n where r: "pj_turn_session_on_rx_pkt env pkt sess = Some (st, n, sess')" using res by auto
  obtain b where b: "deref pkt 0 = Some b" using r by (auto simp: pj_turn_session_on_rx_pkt_def bind_eq_Some_conv Let_def)
  then have "pkt \<noteq> []" "hd pkt = b" by (auto simp: deref_Some_iff hd_conv_nth)
  then show ?thesis using rx_pkt_kept [OF r b] l Ev_rx_pkt by (auto simp: leaks_lock_def)
qed (use res settings_steady in \<open>auto intro: steady_kept dns_cb_steady alloc_steady set_perm_steady sendto_steady bind_channel_kept retransmit_kept destroy_timer_kept on_timer_event_kept
    shutdown_steady destroy_steady\<close>)

lemma turn_run_leak:
  assumes res: "turn_run env ev sess = Some sess'" and l: "leaks_lock ev sess"
  shows "sess' = grp_lock_acquire sess"
proof (cases ev)
  case (Ev_set_server u ip resolver ai port)
  then show ?thesis using res l by (auto simp: leaks_lock_def server_leaks_def pj_turn_session_set_server_def set_server_addrs_def Let_def split: option.splits)
next
  case (Ev_rx_pkt pkt)
  then show ?thesis using res l by (auto simp: leaks_lock_def pj_turn_session_on_rx_pkt_def bind_eq_Some_conv Let_def deref_Some_iff hd_conv_nth split: if_splits)
qed (use l in \<open>simp_all add: leaks_lock_def\<close>)

lemma turn_run_inv: "turn_run env ev sess = Some sess' \<Longrightarrow> turn_inv sess \<Longrightarrow> turn_inv sess'"
  using turn_run_kept [of env ev sess sess'] turn_run_leak [of env ev sess sess'] by (cases "leaks_lock ev sess") (auto simp: kept_defs)

lemma turn_create_inv:
  assumes "pj_turn_session_create rto res_cache sw af tp lock_status on_rx_data on_state d = Some (Inr sess)"
  shows "turn_inv sess"
proof -
  obtain tbl where t: "pj_hash_create PJ_TURN_CHANNEL_HTABLE_SIZE = Some tbl"
    and s: "tu_chs sess = []" "tu_ch_table sess = tbl" "tu_next_ch sess = PJ_TURN_CHANNEL_MIN" "tu_stun sess = pj_stun_session_create rto res_cache sw False True True False"
    using assms by (auto simp: pj_turn_session_create_def bind_eq_Some_conv split: if_splits)
  have "PJ_TURN_CHANNEL_MIN \<le> PJ_TURN_CHANNEL_MAX + 1" by (simp add: PJ_TURN_CHANNEL_MIN_def PJ_TURN_CHANNEL_MAX_def)
  then show ?thesis
    using hash_create_keyed [OF t] by (simp add: s turn_inv_def chan_inv_def all_sent_def pj_stun_session_create_def pj_stun_session_set_software_name_def)
qed

lemma turn_reachable_inv: "turn_reachable sess \<Longrightarrow> turn_inv sess"
  by (induction rule: turn_reachable.induct) (auto intro: turn_create_inv turn_run_inv)

text \<open>What the invariant says of lookups.\<close>

lemma lookup_by_number:
  assumes inv: "chan_inv {} (tu_chs sess) (tu_ch_table sess) (tu_next_ch sess)"
  shows "lookup_ch_by_chnum sess n = Some k \<longleftrightarrow> k < length (tu_chs sess) \<and> ch_bound (tu_chs sess ! k) \<and> ch_num (tu_chs sess ! k) = n"
proof -
  have get: "lookup_ch_by_chnum sess n = ht_abs (tu_ch_table sess) (le_bytes16 n)" by (simp add: lookup_ch_by_chnum_def hash_get_abs known_hash_def)
  show ?thesis unfolding get using chan_invD(2,3) [OF inv, of "le_bytes16 n" k] chan_invD(6) [OF inv, of k] by (auto simp: le_bytes16_inj)
qed

lemma lookup_by_addr:
  assumes inv: "chan_inv {} (tu_chs sess) (tu_ch_table sess) (tu_next_ch sess)"
  shows "lookup_ch_by_addr env addr False b sess = Some (Some k, sess) \<longleftrightarrow> k < length (tu_chs sess) \<and> sockaddr_bytes (ch_addr (tu_chs sess ! k)) = sockaddr_bytes addr"
proof -
  have get: "pj_hash_get (tu_ch_table sess) (sockaddr_bytes addr) 0 = (ht_abs (tu_ch_table sess) (sockaddr_bytes addr), pj_hash_calc 0 (sockaddr_bytes addr))"
    by (simp add: hash_get_abs known_hash_def)
  have "lookup_ch_by_addr env addr False b sess = Some (Some k, sess) \<longleftrightarrow> ht_abs (tu_ch_table sess) (sockaddr_bytes addr) = Some k"
    unfolding lookup_ch_by_addr_def get using chan_invD(2) [OF inv, of "sockaddr_bytes addr"] by (auto simp: Let_def bind_eq_Some_conv deref_Some_iff split: option.splits)
  moreover have "ht_abs (tu_ch_table sess) (sockaddr_bytes addr) = Some k \<longleftrightarrow> k < length (tu_chs sess) \<and> sockaddr_bytes (ch_addr (tu_chs sess ! k)) = sockaddr_bytes addr"
    using chan_invD(2,3) [OF inv, of "sockaddr_bytes addr" k] chan_invD(4) [OF inv, of k] by auto
  ultimately show ?thesis by simp
qed

lemma below_max: "(n :: 16 word) < nx \<Longrightarrow> nx \<le> PJ_TURN_CHANNEL_MAX + 1 \<Longrightarrow> n \<le> PJ_TURN_CHANNEL_MAX"
  by (simp add: PJ_TURN_CHANNEL_MAX_def word_le_nat_alt word_less_nat_alt)

subsection \<open>Properties\<close>

text \<open>
  C36. The channels of a TURN session, in every state it can reach: a bound channel has a number, numbers are in the range 0x4000 to 0x7FFF and no two channels share one; a number
  is looked up to exactly the bound channel that has it, so that data is never delivered from a channel that was not bound, and an address to the only channel of that peer; and the
  token of every ChannelBind request in flight points to a channel with a number, which is what its completion relies on.
\<close>

theorem turn_channels_sound:
  assumes "turn_reachable sess"
  shows "(\<forall>k < length (tu_chs sess). (ch_bound (tu_chs sess ! k) \<longrightarrow> ch_num (tu_chs sess ! k) \<noteq> PJ_TURN_INVALID_CHANNEL) \<and>
      (ch_num (tu_chs sess ! k) \<noteq> PJ_TURN_INVALID_CHANNEL \<longrightarrow> PJ_TURN_CHANNEL_MIN \<le> ch_num (tu_chs sess ! k) \<and> ch_num (tu_chs sess ! k) \<le> PJ_TURN_CHANNEL_MAX)) \<and>
    (\<forall>j < length (tu_chs sess). \<forall>k < length (tu_chs sess). j \<noteq> k \<longrightarrow> sockaddr_bytes (ch_addr (tu_chs sess ! j)) \<noteq> sockaddr_bytes (ch_addr (tu_chs sess ! k)) \<and>
      (ch_num (tu_chs sess ! j) = ch_num (tu_chs sess ! k) \<longrightarrow> ch_num (tu_chs sess ! j) = PJ_TURN_INVALID_CHANNEL)) \<and>
    (\<forall>n k. lookup_ch_by_chnum sess n = Some k \<longleftrightarrow> k < length (tu_chs sess) \<and> ch_bound (tu_chs sess ! k) \<and> ch_num (tu_chs sess ! k) = n) \<and>
    (\<forall>env addr k. lookup_ch_by_addr env addr False False sess = Some (Some k, sess) \<longleftrightarrow>
      k < length (tu_chs sess) \<and> sockaddr_bytes (ch_addr (tu_chs sess ! k)) = sockaddr_bytes addr) \<and>
    (\<forall>i td. ss_tdata (tu_stun sess) i = Some td \<and> td_client_tsx td \<noteq> None \<and> PJ_STUN_GET_METHOD (mh_type (msg_hdr (td_msg td))) = PJ_STUN_CHANNEL_BIND_METHOD \<longrightarrow>
      (\<exists>k < length (tu_chs sess). td_token td = Suc k \<and> ch_num (tu_chs sess ! k) \<noteq> PJ_TURN_INVALID_CHANNEL))"
proof -
  have c: "chan_inv {} (tu_chs sess) (tu_ch_table sess) (tu_next_ch sess)" and t: "all_sent (ch_token (tu_chs sess)) (tu_stun sess)"
    using turn_reachable_inv [OF assms] by (auto simp: turn_inv_def)
  note num = chan_invD(5,7,8) [OF c, unfolded has_number_def]
  show ?thesis
  proof (intro conjI)
    show "\<forall>k < length (tu_chs sess). (ch_bound (tu_chs sess ! k) \<longrightarrow> ch_num (tu_chs sess ! k) \<noteq> PJ_TURN_INVALID_CHANNEL) \<and>
      (ch_num (tu_chs sess ! k) \<noteq> PJ_TURN_INVALID_CHANNEL \<longrightarrow> PJ_TURN_CHANNEL_MIN \<le> ch_num (tu_chs sess ! k) \<and> ch_num (tu_chs sess ! k) \<le> PJ_TURN_CHANNEL_MAX)"
      using num(1,2) below_max [OF _ chan_invD(10) [OF c]] by blast
    show "\<forall>j < length (tu_chs sess). \<forall>k < length (tu_chs sess). j \<noteq> k \<longrightarrow> sockaddr_bytes (ch_addr (tu_chs sess ! j)) \<noteq> sockaddr_bytes (ch_addr (tu_chs sess ! k)) \<and>
      (ch_num (tu_chs sess ! j) = ch_num (tu_chs sess ! k) \<longrightarrow> ch_num (tu_chs sess ! j) = PJ_TURN_INVALID_CHANNEL)"
      using num(3) chan_invD(4) [OF c] by (metis option.inject)
    show "\<forall>n k. lookup_ch_by_chnum sess n = Some k \<longleftrightarrow> k < length (tu_chs sess) \<and> ch_bound (tu_chs sess ! k) \<and> ch_num (tu_chs sess ! k) = n"
      using lookup_by_number [OF c] by blast
    show "\<forall>env addr k. lookup_ch_by_addr env addr False False sess = Some (Some k, sess) \<longleftrightarrow>
      k < length (tu_chs sess) \<and> sockaddr_bytes (ch_addr (tu_chs sess ! k)) = sockaddr_bytes addr"
      using lookup_by_addr [OF c] by blast
    show "\<forall>i td. ss_tdata (tu_stun sess) i = Some td \<and> td_client_tsx td \<noteq> None \<and> PJ_STUN_GET_METHOD (mh_type (msg_hdr (td_msg td))) = PJ_STUN_CHANNEL_BIND_METHOD \<longrightarrow>
      (\<exists>k < length (tu_chs sess). td_token td = Suc k \<and> ch_num (tu_chs sess ! k) \<noteq> PJ_TURN_INVALID_CHANNEL)"
      using all_sentD [OF t] by (fastforce simp: sent_ok_def td_type_def ch_token_def has_number_def)
  qed
qed

lemma demo_turn_reachable: "\<exists>sess. turn_reachable sess \<and> tu_chs sess = [] \<and> tu_lock sess = 0"
proof -
  obtain ht :: "nat pj_hash_table_t" where "pj_hash_create 8 = Some ht" using hash_create_iff [of 8] by force
  then have "\<exists>sess. pj_turn_session_create 100 0 [] PJ_AF_INET PJ_TURN_TP_UDP PJ_SUCCESS True True 0 = Some (Inr sess) \<and> tu_chs sess = [] \<and> tu_lock sess = 0"
    by (simp add: pj_turn_session_create_def PJ_TURN_CHANNEL_HTABLE_SIZE_def PJ_TURN_PERM_HTABLE_SIZE_def)
  then show ?thesis using turn_reachable.create by blast
qed

theorem turn_channels_sound_witness: "\<exists>sess. turn_reachable sess \<and> (\<forall>n. lookup_ch_by_chnum sess n = None)"
proof -
  obtain sess where s: "turn_reachable sess" "tu_chs sess = []" using demo_turn_reachable by blast
  have "lookup_ch_by_chnum sess n \<noteq> Some k" for n k
    using turn_channels_sound [OF s(1), THEN conjunct2, THEN conjunct2, THEN conjunct1] s(2) by simp
  then show ?thesis using s(1) by (meson not_Some_eq)
qed

text \<open>
  C37. The group lock is given back: whatever is done to a session, the calling thread holds its lock afterwards exactly as often as before, with two exceptions. A packet of one to
  three bytes that is not STUN, and setting a server by address with a port that is out of range, return with the lock held.
\<close>

theorem turn_lock_balanced:
  assumes "turn_run env ev sess = Some sess'"
  shows "tu_lock sess' = tu_lock sess + (if leaks_lock ev sess then 1 else 0)"
  using turn_run_kept [OF assms] turn_run_leak [OF assms] by (auto simp: kept_defs grp_lock_acquire_def)

theorem turn_lock_balanced_witness:
  "\<forall>env. \<exists>sess sess'. turn_reachable sess \<and> turn_run env (Ev_rx_pkt [0x40]) sess = Some sess' \<and> tu_lock sess' = tu_lock sess + 1"
proof
  fix env
  obtain sess where s: "turn_reachable sess" using demo_turn_reachable by blast
  have r: "turn_run env (Ev_rx_pkt [0x40]) sess = Some (grp_lock_acquire sess)" by (simp add: pj_turn_session_on_rx_pkt_def Let_def deref_def)
  have "leaks_lock (Ev_rx_pkt [0x40]) sess" by (simp add: leaks_lock_def)
  then show "\<exists>sess sess'. turn_reachable sess \<and> turn_run env (Ev_rx_pkt [0x40]) sess = Some sess' \<and> tu_lock sess' = tu_lock sess + 1"
    using turn_lock_balanced [OF r] s r by auto
qed

end
