(* ===== verification/TurnData.thy ===== *)
theory TurnData
  imports TurnSession
begin

text \<open>
  The data path of the TURN session: ChannelData from one end to the other, and the times of the refresh.
\<close>

subsection \<open>ChannelData\<close>

lemma and_not_3: "(x :: 32 word) AND NOT 3 = push_bit 2 (drop_bit 2 x)"
proof -
  have "x AND NOT (mask 2) = push_bit 2 (drop_bit 2 x)" by (rule bit_word_eqI) (auto simp: bit_simps not_less dest!: le_Suc_ex)
  then show ?thesis by (simp add: mask_eq_exp_minus_1)
qed

lemma unat_and_not_3: "unat ((x :: 32 word) AND NOT 3) = unat x div 4 * 4"
proof -
  have d: "unat (drop_bit 2 x) = unat x div 4" by (simp add: drop_bit_eq_div unat_div)
  have "unat (push_bit 2 (drop_bit 2 x)) = unat (drop_bit 2 x) * 2 ^ 2"
  proof (rule unat_push_bit_small)
    have "unat x < 2 ^ LENGTH(32)" by (rule unsigned_less)
    then show "unat (drop_bit 2 x) * 2 ^ 2 < 2 ^ LENGTH(32)" by (simp add: d div_less_iff_less_mult)
  qed
  then show ?thesis unfolding and_not_3 d by simp
qed

lemma channel_total_len: "n + 7 < 2 ^ 32 \<Longrightarrow> unat (channel_total_len (of_nat n)) = align4 n + 4"
proof -
  assume n: "n + 7 < 2 ^ 32"
  have "unat (of_nat n + 4 + 3 :: 32 word) = n + 7" using n unat_of_nat_small [of "n + 7", where 'a = 32] by (simp add: add.assoc)
  moreover have "(n + 7) div 4 = (n + 3) div 4 + 1" using div_add_self2 [of 4 "n + 3"] by simp
  ultimately show ?thesis unfolding channel_total_len_def unat_and_not_3 by (simp add: align4_def)
qed

lemma channel_total_len_wraps: "2 ^ 32 \<le> n + 7 \<Longrightarrow> n < 2 ^ 32 \<Longrightarrow> unat (channel_total_len (of_nat n)) \<le> 4"
proof -
  assume n: "2 ^ 32 \<le> n + 7" "n < 2 ^ 32"
  have "of_nat (n + 7 - 2 ^ 32 + 2 ^ 32) = (of_nat (n + 7 - 2 ^ 32) :: 32 word)" by (simp only: of_nat_add) simp
  then have "of_nat n + 4 + 3 = (of_nat (n + 7 - 2 ^ 32) :: 32 word)" using n(1) by (simp add: add.assoc)
  moreover have "unat (of_nat (n + 7 - 2 ^ 32) :: 32 word) = n + 7 - 2 ^ 32" by (rule unat_of_nat_small) (use n in simp)
  ultimately have "unat (of_nat n + 4 + 3 :: 32 word) = n + 7 - 2 ^ 32" by (simp only:)
  then show ?thesis using n(2) unfolding channel_total_len_def unat_and_not_3 by simp
qed

lemma length_be_bytes16: "length (be_bytes16 w) = 2"
  by (simp add: be_bytes16_def)

lemma length_channel_data [simp]: "length (pj_turn_channel_data num len) = 4"
  by (simp add: pj_turn_channel_data_def be_bytes16_def)

lemma align4_bounds: "n \<le> align4 n" "align4 n < n + 4" "align4 n mod 4 = 0"
  by (simp_all add: align4_def)

lemma send_channel_data_sent:
  assumes "length pkt + 7 < 2 ^ 32" "align4 (length pkt) + 4 \<le> length (tu_tx_pkt sess)" "server_addr sess = Some server"
  shows "\<exists>pad. length pad = align4 (length pkt) - length pkt \<and>
    send_channel_data env pkt num sess = Some (te_send env, turn_emit [Turn_send_pkt (pj_turn_channel_data num (of_nat (length pkt)) @ pkt @ pad) server]
      (sess\<lparr>tu_tx_pkt := memcpy_at (tu_tx_pkt sess) 0 (pj_turn_channel_data num (of_nat (length pkt)) @ pkt)\<rparr>))"
proof -
  let ?m = "pj_turn_channel_data num (of_nat (length pkt)) @ pkt"
  let ?tx = "memcpy_at (tu_tx_pkt sess) 0 ?m"
  have fit: "4 + length pkt \<le> length (tu_tx_pkt sess)" using assms(2) align4_bounds(1) [of "length pkt"] by linarith
  have "take (align4 (length pkt) + 4) ?tx = ?m @ take (align4 (length pkt) - length pkt) (drop (length ?m) (tu_tx_pkt sess))"
    using align4_bounds(1) [of "length pkt"] by (simp add: memcpy_at_def take_append)
  moreover have "length (take (align4 (length pkt) - length pkt) (drop (length ?m) (tu_tx_pkt sess))) = align4 (length pkt) - length pkt"
    using assms(2) align4_bounds(1) [of "length pkt"] by (subst length_take, subst min_absorb2) simp_all
  ultimately show ?thesis
    using assms fit channel_total_len [OF assms(1)]
    by (intro exI [of _ "take (align4 (length pkt) - length pkt) (drop (length ?m) (tu_tx_pkt sess))"]) (simp add: send_channel_data_def put_bytes_def Let_def)
qed

lemma channel_number_not_stun:
  assumes "0x4000 \<le> num" "num \<le> (0x7FFF :: 16 word)"
  shows "ucast (drop_bit 8 num) AND (0xC0 :: byte) \<noteq> 0"
proof -
  have "unat num div 2 ^ 14 = 1" using assms by (simp add: word_le_nat_alt)
  then have "bit (unat num) 14" by (simp add: bit_iff_odd)
  then have "bit num 14" by (simp add: bit_simps)
  then have "bit (ucast (drop_bit 8 num) AND (0xC0 :: byte)) 6" by (simp add: bit_simps)
  then show ?thesis by auto
qed

lemma on_rx_channel_data:
  assumes num: "0x4000 \<le> num" "num \<le> 0x7FFF" and len: "length pkt < 65536" and k: "lookup_ch_by_chnum sess num = Some k" "k < length (tu_chs sess)" "ch_bound (tu_chs sess ! k)"
    and pad: "length pkt + length pad = align4 (length pkt)" and cb: "tu_cb_on_rx_data sess"
  shows "pj_turn_session_on_rx_pkt env (pj_turn_channel_data num (of_nat (length pkt)) @ pkt @ pad) sess =
    Some (PJ_SUCCESS, 4 + length pkt + length pad, turn_emit [Turn_rx_data pkt (ch_addr (tu_chs sess ! k))] sess)"
proof -
  let ?p = "pj_turn_channel_data num (of_nat (length pkt)) @ pkt @ pad"
  have b0: "deref ?p 0 = Some (ucast (drop_bit 8 num))" by (simp add: pj_turn_channel_data_def be_bytes16_def deref_def)
  have g: "GETVAL16H ?p 0 = Some num" "GETVAL16H ?p 2 = Some (of_nat (length pkt))"
    using GETVAL16H_at [of "[]" num "be_bytes16 (of_nat (length pkt)) @ pkt @ pad"] GETVAL16H_at [of "be_bytes16 num" "of_nat (length pkt)" "pkt @ pad"]
    by (simp_all add: pj_turn_channel_data_def length_be_bytes16)
  have u: "unat (of_nat (length pkt) :: 16 word) = length pkt" using len by (simp add: unat_of_nat_small)
  have lk: "lookup_ch_by_chnum (grp_lock_acquire sess) num = Some k" using k(1) by (simp add: lookup_ch_by_chnum_def grp_lock_acquire_def)
  have "on_channel_data ?p (grp_lock_acquire sess) = Some (PJ_SUCCESS, align4 (length pkt) + 4, turn_emit [Turn_rx_data pkt (ch_addr (tu_chs sess ! k))] (grp_lock_acquire sess))"
    using g k lk u cb by (simp add: on_channel_data_def Let_def grp_lock_acquire_def)
  then show ?thesis
    using channel_number_not_stun [OF num] b0 pad by (simp add: pj_turn_session_on_rx_pkt_def Let_def grp_lock_acquire_def grp_lock_release_def turn_emit_def)
qed

subsection \<open>The time of the refresh\<close>

lemma refresh_short: "2 < lifetime \<Longrightarrow> uint lifetime < 15 \<Longrightarrow> refresh_times lifetime = (uint lifetime - 2, uint lifetime - 3)"
  by (simp add: refresh_times_def PJ_TURN_KEEP_ALIVE_SEC_def)

lemma sint_diff_60:
  assumes k: "uint (lifetime :: 32 word) - 60 = k \<or> uint lifetime - 60 = k + 2 ^ 32" "- (2 ^ 31) \<le> k" "k < 2 ^ 31"
  shows "sint (lifetime - 60) = k"
proof -
  have "uint (60 :: 32 word) = 60" by simp
  then have "lifetime - 60 = word_of_int (uint lifetime - 60)" by (simp only: word_sub_wi)
  also have "\<dots> = word_of_int k"
  proof -
    have "(word_of_int (k + 2 ^ 32) :: 32 word) = word_of_int k" by (simp only: wi_hom_add [symmetric]) simp
    then show ?thesis using k(1) by metis
  qed
  finally have "sint (lifetime - 60) = signed_take_bit (LENGTH(32) - 1) k" by (simp only: sint_sbintrunc')
  also have "\<dots> = k" using k(2,3) by (intro signed_take_bit_int_eq_self) simp_all
  finally show ?thesis .
qed

lemma refresh_long:
  assumes "15 \<le> uint lifetime" "uint lifetime < 2 ^ 31 + 60"
  shows "refresh_times lifetime = (15, if uint lifetime < 75 then 14 else uint lifetime - 60)"
proof -
  have "sint (lifetime - 60) = uint lifetime - 60" using assms by (intro sint_diff_60) simp_all
  then show ?thesis using assms by (simp add: refresh_times_def PJ_TURN_KEEP_ALIVE_SEC_def PJ_TURN_REFRESH_SEC_BEFORE_def Let_def)
qed

lemma refresh_huge:
  assumes "2 ^ 31 + 60 \<le> uint lifetime"
  shows "refresh_times lifetime = (15, 14)"
proof -
  have "sint (lifetime - 60) = uint lifetime - 60 - 2 ^ 32" using assms uint_lt2p [of lifetime] by (intro sint_diff_60) simp_all
  then show ?thesis using assms uint_lt2p [of lifetime] by (simp add: refresh_times_def PJ_TURN_KEEP_ALIVE_SEC_def PJ_TURN_REFRESH_SEC_BEFORE_def Let_def)
qed

text \<open>The refresh is due when the keep-alive timer expires for the \<open>n\<close>-th time.\<close>

definition refresh_due :: "turn_env \<Rightarrow> pj_turn_session \<Rightarrow> int \<Rightarrow> bool" where
  "refresh_due env sess n \<longleftrightarrow> PJ_TIME_VAL_LTE (tu_expiry sess) (PJ_TIME_VAL (tv_sec (te_now env) + n * tu_ka_interval sess) (tv_msec (te_now env)))"

lemma refresh_due_iff: "refresh_times lifetime = (ka, timeout) \<Longrightarrow> refresh_due env (set_lifetime env lifetime sess) n \<longleftrightarrow> timeout \<le> n * ka"
  unfolding refresh_due_def PJ_TIME_VAL_LTE_def PJ_TIME_VAL_GT_def set_lifetime_def by auto

lemma set_lifetime_ka: "tu_ka_interval (set_lifetime env lifetime sess) = fst (refresh_times lifetime)"
  by (simp add: set_lifetime_def split: prod.splits)

text \<open>The first multiple of the interval that reaches the timeout.\<close>

lemma first_tick:
  fixes ka timeout :: int
  assumes "0 < ka" "0 < timeout"
  shows "\<exists>n \<ge> 1. timeout \<le> n * ka \<and> (\<forall>m < n. \<not> timeout \<le> m * ka) \<and> n * ka < timeout + ka"
proof (intro exI conjI allI impI)
  let ?n = "(timeout + ka - 1) div ka"
  have eq: "timeout + ka - 1 = ?n * ka + (timeout + ka - 1) mod ka" by (metis div_mult_mod_eq)
  have mod: "0 \<le> (timeout + ka - 1) mod ka" "(timeout + ka - 1) mod ka < ka" using assms by simp_all
  show up: "timeout \<le> ?n * ka" and "?n * ka < timeout + ka" using eq mod by linarith+
  show "1 \<le> ?n" using assms by (simp add: div_int_pos_iff int_one_le_iff_zero_less pos_imp_zdiv_pos_iff)
  fix m assume "m < ?n"
  then have "m * ka \<le> (?n - 1) * ka" using assms by (intro mult_right_mono) auto
  then have "m * ka \<le> ?n * ka - ka" by (simp add: left_diff_distrib)
  then show "\<not> timeout \<le> m * ka" using eq mod by linarith
qed

subsection \<open>A session with a bound channel\<close>

lemma turn_created:
  "\<exists>sess. pj_turn_session_create 100 0 [] PJ_AF_INET PJ_TURN_TP_UDP PJ_SUCCESS True True 0 = Some (Inr sess) \<and> tu_cb_on_rx_data sess \<and>
     length (tu_tx_pkt sess) = PJ_TURN_MAX_PKT_LEN \<and> hash_keyed (tu_ch_table sess)"
proof -
  obtain ht :: "nat pj_hash_table_t" where ht: "pj_hash_create 8 = Some ht" using hash_create_iff [of 8] by force
  then show ?thesis using hash_create_keyed [OF ht] by (simp add: pj_turn_session_create_def PJ_TURN_CHANNEL_HTABLE_SIZE_def PJ_TURN_PERM_HTABLE_SIZE_def)
qed

definition demo_turn_peer :: pj_sockaddr where
  "demo_turn_peer = \<lparr>sa_family = PJ_AF_INET, sa_port = 9, sa_addr = [10, 0, 0, 1]\<rparr>"

lemma demo_bound:
  "\<exists>sess :: pj_turn_session. server_addr sess = Some demo_turn_peer \<and> length (tu_tx_pkt sess) = PJ_TURN_MAX_PKT_LEN \<and> lookup_ch_by_chnum sess 0x4000 = Some 0 \<and> 0 < length (tu_chs sess) \<and>
     ch_bound (tu_chs sess ! 0) \<and> ch_addr (tu_chs sess ! 0) = demo_turn_peer \<and> tu_cb_on_rx_data sess"
proof -
  obtain sess :: pj_turn_session where c: "tu_cb_on_rx_data sess" "length (tu_tx_pkt sess) = PJ_TURN_MAX_PKT_LEN" "hash_keyed (tu_ch_table sess)" using turn_created by blast
  obtain ht where ht: "hash_set True (tu_ch_table sess) (le_bytes16 0x4000) 0 (Some 0) False False = Some ht" using hash_set_Some by blast
  have "ht_abs ht (le_bytes16 0x4000) = Some 0" using hash_set_abs(2) [OF c(3) _ ht] by (simp add: known_hash_def)
  then have "fst (pj_hash_get ht (le_bytes16 0x4000) 0) = Some 0" by (simp add: hash_get_abs known_hash_def)
  then show ?thesis
    using c by (intro exI [of _ "sess\<lparr>tu_ch_table := ht, tu_srv_addr_list := [demo_turn_peer], tu_srv_addr := Some 0,
      tu_chs := [\<lparr>ch_num = 0x4000, ch_bound = True, ch_addr = demo_turn_peer, ch_expiry = PJ_TIME_VAL 0 0\<rparr>]\<rparr>"]) (simp add: lookup_ch_by_chnum_def server_addr_def)
qed

subsection \<open>Properties\<close>

text \<open>
  C39. Data sent over a bound channel arrives. A payload that fits the transmit buffer is sent as one ChannelData message, padded to a multiple of four bytes, and a session that
  has the channel bound delivers exactly the payload, from the peer of the channel, and takes the whole message off its input. A longer payload is refused and nothing is sent. A
  payload within seven bytes of \<open>2\<^sup>3\<^sup>2\<close> makes the length wrap around: the check passes and the copy overruns the buffer.
\<close>

theorem channel_data_roundtrip:
  assumes "server_addr sess = Some server" "length (tu_tx_pkt sess) = PJ_TURN_MAX_PKT_LEN" "PJ_TURN_CHANNEL_MIN \<le> num" "num \<le> PJ_TURN_CHANNEL_MAX"
    and "lookup_ch_by_chnum peer num = Some k" "k < length (tu_chs peer)" "ch_bound (tu_chs peer ! k)" "tu_cb_on_rx_data peer"
  shows "(length pkt + 4 \<le> PJ_TURN_MAX_PKT_LEN \<longrightarrow> (\<exists>p sess'. send_channel_data env pkt num sess = Some (te_send env, sess') \<and>
      tu_out sess' = tu_out sess @ [Turn_send_pkt p server] \<and> length p mod 4 = 0 \<and>
      pj_turn_session_on_rx_pkt env' p peer = Some (PJ_SUCCESS, length p, peer\<lparr>tu_out := tu_out peer @ [Turn_rx_data pkt (ch_addr (tu_chs peer ! k))]\<rparr>))) \<and>
    (PJ_TURN_MAX_PKT_LEN < length pkt + 4 \<and> length pkt + 7 < 2 ^ 32 \<longrightarrow> send_channel_data env pkt num sess = Some (PJ_ETOOBIG, sess)) \<and>
    (2 ^ 32 \<le> length pkt + 7 \<and> length pkt < 2 ^ 32 \<longrightarrow> send_channel_data env pkt num sess = None)"
proof (intro conjI impI)
  assume fit: "length pkt + 4 \<le> PJ_TURN_MAX_PKT_LEN"
  then have len: "length pkt \<le> 2996" by (simp add: PJ_TURN_MAX_PKT_LEN_def)
  have al: "align4 (length pkt) + 4 \<le> length (tu_tx_pkt sess)" using len assms(2) by (simp add: PJ_TURN_MAX_PKT_LEN_def align4_def)
  obtain pad where pad: "length pad = align4 (length pkt) - length pkt"
    and sent: "send_channel_data env pkt num sess = Some (te_send env, turn_emit [Turn_send_pkt (pj_turn_channel_data num (of_nat (length pkt)) @ pkt @ pad) server]
      (sess\<lparr>tu_tx_pkt := memcpy_at (tu_tx_pkt sess) 0 (pj_turn_channel_data num (of_nat (length pkt)) @ pkt)\<rparr>))"
    using send_channel_data_sent [OF _ al assms(1), of env num] len by auto
  have tot: "length pkt + length pad = align4 (length pkt)" using pad align4_bounds(1) [of "length pkt"] by simp
  let ?p = "pj_turn_channel_data num (of_nat (length pkt)) @ pkt @ pad"
  have four: "length ?p mod 4 = 0" using tot align4_bounds(3) [of "length pkt"] by simp
  have "pj_turn_session_on_rx_pkt env' ?p peer = Some (PJ_SUCCESS, length ?p, peer\<lparr>tu_out := tu_out peer @ [Turn_rx_data pkt (ch_addr (tu_chs peer ! k))]\<rparr>)"
    using on_rx_channel_data [of num pkt peer k pad env'] assms tot len by (simp add: PJ_TURN_CHANNEL_MIN_def PJ_TURN_CHANNEL_MAX_def turn_emit_def)
  then show "\<exists>p sess'. send_channel_data env pkt num sess = Some (te_send env, sess') \<and> tu_out sess' = tu_out sess @ [Turn_send_pkt p server] \<and> length p mod 4 = 0 \<and>
      pj_turn_session_on_rx_pkt env' p peer = Some (PJ_SUCCESS, length p, peer\<lparr>tu_out := tu_out peer @ [Turn_rx_data pkt (ch_addr (tu_chs peer ! k))]\<rparr>)"
    using sent four by (intro exI [of _ ?p] exI conjI) (auto simp: turn_emit_def)
next
  assume big: "PJ_TURN_MAX_PKT_LEN < length pkt + 4 \<and> length pkt + 7 < 2 ^ 32"
  then have "PJ_TURN_MAX_PKT_LEN < align4 (length pkt) + 4" using align4_bounds(1) [of "length pkt"] by linarith
  then show "send_channel_data env pkt num sess = Some (PJ_ETOOBIG, sess)"
    using big channel_total_len [of "length pkt"] assms(2) by (subst send_channel_data_def, subst Let_def, subst if_P) simp_all
next
  assume big: "2 ^ 32 \<le> length pkt + 7 \<and> length pkt < 2 ^ 32"
  then show "send_channel_data env pkt num sess = None"
    using channel_total_len_wraps [of "length pkt"] assms(2) by (simp add: send_channel_data_def Let_def put_bytes_def PJ_TURN_MAX_PKT_LEN_def)
qed

theorem channel_data_roundtrip_witness:
  "\<forall>env. \<exists>sess p sess'. send_channel_data env [1, 2, 3] 0x4000 sess = Some (te_send env, sess') \<and> tu_out sess' = tu_out sess @ [Turn_send_pkt p demo_turn_peer] \<and>
     pj_turn_session_on_rx_pkt env p sess = Some (PJ_SUCCESS, length p, sess\<lparr>tu_out := tu_out sess @ [Turn_rx_data [1, 2, 3] demo_turn_peer]\<rparr>)"
proof
  fix env
  obtain sess :: pj_turn_session where s: "server_addr sess = Some demo_turn_peer" "length (tu_tx_pkt sess) = PJ_TURN_MAX_PKT_LEN" "lookup_ch_by_chnum sess 0x4000 = Some 0" "0 < length (tu_chs sess)"
    "ch_bound (tu_chs sess ! 0)" "ch_addr (tu_chs sess ! 0) = demo_turn_peer" "tu_cb_on_rx_data sess" using demo_bound by blast
  show "\<exists>sess p sess'. send_channel_data env [1, 2, 3] 0x4000 sess = Some (te_send env, sess') \<and> tu_out sess' = tu_out sess @ [Turn_send_pkt p demo_turn_peer] \<and>
     pj_turn_session_on_rx_pkt env p sess = Some (PJ_SUCCESS, length p, sess\<lparr>tu_out := tu_out sess @ [Turn_rx_data [1, 2, 3] demo_turn_peer]\<rparr>)"
    using channel_data_roundtrip [OF s(1,2) _ _ s(3,4,5,7), of "[1, 2, 3]" env env] s(6)
    by (intro exI [of _ sess]) (auto simp: PJ_TURN_CHANNEL_MIN_def PJ_TURN_CHANNEL_MAX_def PJ_TURN_MAX_PKT_LEN_def)
qed

text \<open>
  C40. Once the server granted a lifetime of more than two seconds and less than \<open>2\<^sup>3\<^sup>1 + 60\<close>, the keep-alive timer, which expires every interval, finds the refresh due after
  some number of intervals and not before, and that moment is before the allocation expires, except for a lifetime of exactly 15 seconds, where the refresh is sent at the moment the
  allocation expires. A longer lifetime is read as a negative number, and the allocation is refreshed at the first expiry, after 15 seconds.
\<close>

theorem turn_refresh_in_time:
  assumes "2 < lifetime" and sess': "sess' = set_lifetime env lifetime sess"
  shows "0 < tu_ka_interval sess' \<and> (\<exists>n \<ge> 1. refresh_due env sess' n \<and> (\<forall>m. 1 \<le> m \<and> m < n \<longrightarrow> \<not> refresh_due env sess' m) \<and>
    (uint lifetime < 2 ^ 31 + 60 \<longrightarrow> (n * tu_ka_interval sess' < uint lifetime \<longleftrightarrow> lifetime \<noteq> 15)) \<and>
    (2 ^ 31 + 60 \<le> uint lifetime \<longrightarrow> n * tu_ka_interval sess' = 15))"
proof -
  define L where "L = uint lifetime"
  have L: "3 \<le> L" "L < 2 ^ 32" "lifetime = 15 \<longleftrightarrow> L = 15"
    using assms(1) uint_lt2p [of lifetime] by (simp_all add: L_def word_less_def word_uint_eq_iff)
  obtain ka timeout where t: "refresh_times lifetime = (ka, timeout)" by fastforce
  have due: "refresh_due env sess' n \<longleftrightarrow> timeout \<le> n * ka" for n using refresh_due_iff [OF t] by (simp add: sess')
  have ka: "tu_ka_interval sess' = ka" using set_lifetime_ka [of env lifetime sess] t by (simp add: sess')
  consider "L < 15" | "15 \<le> L" "L < 75" | "75 \<le> L" "L < 2 ^ 31 + 60" | "2 ^ 31 + 60 \<le> L" by linarith
  then show ?thesis
  proof cases
    case 1
    then have "ka = L - 2" "timeout = L - 3" using refresh_short [OF assms(1)] t by (simp_all add: L_def)
    then show ?thesis using L 1 by (intro conjI exI [of _ 1]) (simp_all add: due ka L_def [symmetric])
  next
    case 2
    then have "ka = 15" "timeout = 14" using refresh_long [of lifetime] t by (simp_all add: L_def)
    then show ?thesis using L 2 by (intro conjI exI [of _ 1]) (auto simp: due ka L_def [symmetric])
  next
    case 3
    then have kt: "ka = 15" "timeout = L - 60" using refresh_long [of lifetime] t by (simp_all add: L_def)
    then obtain n where "1 \<le> n" "timeout \<le> n * ka" "\<forall>m < n. \<not> timeout \<le> m * ka" "n * ka < timeout + ka" using first_tick [of ka timeout] 3 by auto
    then show ?thesis using L 3 kt by (intro conjI exI [of _ n]) (simp_all add: due ka L_def [symmetric])
  next
    case 4
    then have "ka = 15" "timeout = 14" using refresh_huge [of lifetime] t by (simp_all add: L_def)
    then show ?thesis using L 4 by (intro conjI exI [of _ 1]) (simp_all add: due ka L_def [symmetric])
  qed
qed

theorem turn_refresh_in_time_witness:
  "\<forall>env sess. \<exists>n \<ge> 1. refresh_due env (set_lifetime env 600 sess) n \<and> n * tu_ka_interval (set_lifetime env 600 sess) < 600"
  using turn_refresh_in_time [OF _ refl, of 600] by (fastforce simp: word_less_def)

end
