(* ===== verification/StunAuthProps.thy ===== *)
theory StunAuthProps
  imports StunAuth
begin

text \<open>
  What the authentication of STUN messages guarantees: a message signed with the key of a credential is accepted, an accepted message
  carries the HMAC of its bytes up to MESSAGE-INTEGRITY, and every other request is answered with a challenge.
\<close>

subsection \<open>What MESSAGE-INTEGRITY covers\<close>

definition attrs_room :: "pj_stun_attr list \<Rightarrow> nat" where
  "attrs_room as = sum_list (map (\<lambda>a. align4 (unat (at_length a)) + 4) as)"

lemma scan_msgint_plain:
  "list_all (\<lambda>a. at_type a \<noteq> PJ_STUN_ATTR_MESSAGE_INTEGRITY) as \<Longrightarrow> scan_msgint (as @ rest) None p = scan_msgint rest None (p + attrs_room as)"
  by (induction as arbitrary: p) (simp_all add: attrs_room_def add_ac)

lemma scan_msgint_found:
  "list_all (\<lambda>a. at_type a \<noteq> PJ_STUN_ATTR_MESSAGE_INTEGRITY) post \<Longrightarrow> scan_msgint post (Some a) p = (Some a, p, post \<noteq> [])"
  by (cases post) simp_all

text \<open>With at most one MESSAGE-INTEGRITY the scan finds it, and says whether more attributes follow.\<close>

lemma scan_msgint_None: "scan_msgint as None p = (None, q, b) \<Longrightarrow> list_all (\<lambda>a. at_type a \<noteq> PJ_STUN_ATTR_MESSAGE_INTEGRITY) as"
proof (induction as arbitrary: p)
  case (Cons a as)
  have "scan_msgint as (Some a) p \<noteq> (None, q, b)" for as a p by (induction as arbitrary: a) auto
  then show ?case using Cons by (auto split: if_splits)
qed simp

lemma scan_msgint_Some:
  assumes "scan_msgint as None p = (Some a, q, b)" "length (filter (\<lambda>a. at_type a = PJ_STUN_ATTR_MESSAGE_INTEGRITY) as) \<le> 1"
  obtains pre post where "as = pre @ a # post" "at_type a = PJ_STUN_ATTR_MESSAGE_INTEGRITY" "q = p + attrs_room pre" "b \<longleftrightarrow> post \<noteq> []"
proof -
  let ?P = "\<lambda>a. at_type a \<noteq> PJ_STUN_ATTR_MESSAGE_INTEGRITY"
  define pre where "pre = takeWhile ?P as"
  have pre: "list_all ?P pre" by (auto simp: pre_def list_all_iff dest: set_takeWhileD)
  show thesis
  proof (cases "dropWhile ?P as")
    case Nil
    have "as = pre @ []" using takeWhile_dropWhile_id [of ?P as] unfolding Nil pre_def by (rule sym)
    then show ?thesis using assms(1) scan_msgint_plain [OF pre, of "[]"] by simp
  next
    case (Cons m post)
    have as: "as = pre @ m # post" using takeWhile_dropWhile_id [of ?P as] unfolding Cons pre_def by (rule sym)
    have m: "\<not> ?P m" using Cons by (simp add: dropWhile_eq_Cons_conv)
    have "filter (\<lambda>a. at_type a = PJ_STUN_ATTR_MESSAGE_INTEGRITY) post = []" using assms(2) m unfolding as by simp
    then have "list_all ?P post" by (simp add: filter_empty_conv list_all_iff)
    then have "m = a \<and> q = p + attrs_room pre \<and> (b \<longleftrightarrow> post \<noteq> [])"
      using assms(1) m unfolding as by (auto simp: scan_msgint_plain [OF pre] scan_msgint_found)
    then show ?thesis using as m by (intro that [of pre post]) simp_all
  qed
qed

text \<open>The bytes that the digest covers: the header, with the length that ends at the attribute when others follow, and the attributes before it.\<close>

definition mi_covered :: "byte list \<Rightarrow> nat \<Rightarrow> bool \<Rightarrow> byte list" where
  "mi_covered pkt pos beyond =
     (if beyond then take 2 pkt @ be_bytes16 (of_nat (pos + 24)) @ take 16 (drop 4 pkt) else take 20 pkt) @ take pos (drop 20 pkt)"

lemma msg_digest_covered:
  assumes "stk_ok stk" "length key < 2 ^ 29" "length pkt < 2 ^ 29"
  shows "msg_digest stk key pkt pos beyond = (if 20 + pos \<le> length pkt then Some (hmac_spec sha1_digest key (mi_covered pkt pos beyond)) else None)"
proof (cases "20 + pos \<le> length pkt")
  case True
  have put: "PUTVAL16H (take 20 pkt) 2 v = Some (take 2 pkt @ be_bytes16 v @ take 16 (drop 4 pkt))" for v
    using True by (simp add: PUTVAL16H_bytes put_bytes_def memcpy_at_def take_drop)
  have hmac: "fst (pj_hmac_sha1_final (pj_hmac_sha1_update (pj_hmac_sha1_update (pj_hmac_sha1_init (fst stk) (snd stk) key) h) b)) = hmac_spec sha1_digest key (h @ b)"
    if "length h < 2 ^ 29" "length b < 2 ^ 29" for h b
    using hmac_sha1_parts [of "fst stk" "snd stk" key "[h, b]"] assms(1,2) that by (simp add: stk_ok_def)
  have "length (take 2 pkt @ be_bytes16 v @ take 16 (drop 4 pkt)) < 2 ^ 29" "length (take 20 pkt) < 2 ^ 29" "length (take pos (drop 20 pkt)) < 2 ^ 29" for v
    using assms(3) by simp_all
  then show ?thesis using True by (simp add: msg_digest_def get_bytes_def put hmac mi_covered_def del: length_append)
next
  case False
  then have "get_bytes pkt 0 20 = None \<or> get_bytes pkt 20 pos = None" by (auto simp: get_bytes_def)
  moreover have "PUTVAL16H hdr 2 v = None \<or> (\<exists>h. PUTVAL16H hdr 2 v = Some h)" for hdr v by auto
  ultimately show ?thesis using False by (auto simp: msg_digest_def)
qed

subsection \<open>Where the decoder found the attributes\<close>

primrec placed :: "byte list \<Rightarrow> nat \<Rightarrow> pj_stun_attr list \<Rightarrow> bool" where
  "placed start pos [] \<longleftrightarrow> True"
| "placed start pos (a # as) \<longleftrightarrow> GETATTRHDR (drop pos start) = Some (at_type a, at_length a) \<and>
     (at_type a = PJ_STUN_ATTR_MESSAGE_INTEGRITY \<longrightarrow> at_length a = 20 \<and> (\<exists>h. at_body a = Msgint_body h \<and> length h = 20 \<and> get_bytes (drop pos start) 4 20 = Some h)) \<and>
     placed start (pos + (align4 (unat (at_length a)) + 4)) as"

lemma placed_append: "placed start pos (as @ bs) \<longleftrightarrow> placed start pos as \<and> placed start (pos + attrs_room as) bs"
  by (induction as arbitrary: pos) (simp_all add: attrs_room_def add.assoc)

lemma decode_attr_hdr:
  assumes "decode_attr k buf hdr = Some (Inr a)"
  shows "GETATTRHDR buf = Some (at_type a, at_length a)"
proof (cases "k = XORED_SOCKADDR_ATTR")
  case True
  then have x: "decode_xored_sockaddr_attr buf hdr = Some (Inr a)" using assms by (simp add: decode_attr_def)
  then obtain res where "decode_sockaddr_attr buf hdr = Some res" by (auto simp: decode_xored_sockaddr_attr_def bind_eq_Some_conv)
  with x obtain b where b: "decode_sockaddr_attr buf hdr = Some (Inr b)" by (cases res) (auto simp: decode_xored_sockaddr_attr_def)
  then have "at_type b = at_type a" "at_length b = at_length a"
    using x by (cases "at_body b"; auto simp: decode_xored_sockaddr_attr_def split: if_splits)+
  then show ?thesis using b by (auto simp: decode_sockaddr_attr_def bind_eq_Some_conv Let_def split: if_splits)
next
  case False
  then show ?thesis using assms
    by (cases k) (auto simp: decode_attr_def decode_sockaddr_attr_def decode_empty_attr_def decode_string_attr_def decode_uint_attr_def decode_uint64_attr_def
        decode_binary_attr_def decode_msgint_attr_def decode_errcode_attr_def decode_unknown_attr_def bind_eq_Some_conv Let_def split: if_splits)
qed

lemma decode_one_placed:
  assumes "decode_one strerror want pdu pdu_len msg mi fp = Some (Inr (l, msg', mi', fp'))"
  obtains a where "msg_attrs msg' = msg_attrs msg @ [a]" "placed pdu 0 [a]" "l = align4 (unat (at_length a))"
proof -
  obtain t len where t: "GETVAL16H pdu 0 = Some t" "GETVAL16H pdu 2 = Some len" "\<not> pdu_len < align4 (unat len)"
    using assms by (auto simp: decode_one_def bind_eq_Some_conv Let_def split: if_splits)
  then have h: "GETATTRHDR pdu = Some (t, len)" by (simp add: GETATTRHDR_def)
  show thesis
  proof (cases "find_attr_desc (unat t)")
    case None
    then have ne: "t \<noteq> PJ_STUN_ATTR_MESSAGE_INTEGRITY" using known_checked_types by auto
    obtain res where res: "decode_unrecognized want pdu msg t = Some res" using assms t None by (auto simp: decode_one_def bind_eq_Some_conv)
    then have r: "res = Inr msg'" "l = align4 (unat len)" using assms t None by (cases res; simp add: decode_one_def)+
    have u: "\<not> t \<le> 0x7FFF" "length (msg_attrs msg) < PJ_STUN_MAX_ATTR" using res r(1) by (auto simp: decode_unrecognized_def bind_eq_Some_conv split: if_splits)
    then obtain d where d: "get_bytes pdu 4 (unat len) = Some d" using res r(1) t by (auto simp: decode_unrecognized_def bind_eq_Some_conv)
    have "t \<noteq> 0" using u by auto
    then have "msg' = msg\<lparr>msg_attrs := msg_attrs msg @ [INIT_ATTR t (length d) (Binary_body PJ_STUN_MAGIC d)]\<rparr>"
      using res r(1) t u d by (simp add: decode_unrecognized_def pj_stun_binary_attr_create_def)
    moreover have "of_nat (length d) = len" using get_bytes_length [OF d] by simp
    ultimately show ?thesis using h ne r(2) by (intro that [of "INIT_ATTR t (length d) (Binary_body PJ_STUN_MAGIC d)"]) (simp_all add: INIT_ATTR_def)
  next
    case (Some nk)
    then obtain name k where k: "find_attr_desc (unat t) = Some (name, k)" by (cases nk) simp
    then obtain res where res: "decode_recognized strerror want pdu msg mi fp t k = Some res" using assms t by (auto simp: decode_one_def bind_eq_Some_conv)
    then have r: "res = Inr (msg', mi', fp')" "l = align4 (unat len)" using assms t k by (cases res; simp add: decode_one_def)+
    obtain ra where "decode_attr k pdu (msg_hdr msg) = Some ra" using res by (auto simp: decode_recognized_def bind_eq_Some_conv)
    then obtain a where a: "decode_attr k pdu (msg_hdr msg) = Some (Inr a)" using res unfolding r by (cases ra) (auto simp: decode_recognized_def)
    then have m: "msg_attrs msg' = msg_attrs msg @ [a]" using res unfolding r by (auto simp: decode_recognized_def Let_def split: if_splits)
    have ah: "t = at_type a" "len = at_length a" using decode_attr_hdr [OF a] h by simp_all
    have "at_type a = PJ_STUN_ATTR_MESSAGE_INTEGRITY \<longrightarrow> k = MSGINT_ATTR" using k known_checked_types(1) unfolding ah by auto
    then have "at_type a = PJ_STUN_ATTR_MESSAGE_INTEGRITY \<longrightarrow> at_length a = 20 \<and> (\<exists>h. at_body a = Msgint_body h \<and> length h = 20 \<and> get_bytes pdu 4 20 = Some h)"
      using a by (auto simp: decode_attr_def decode_msgint_attr_def bind_eq_Some_conv get_bytes_length split: if_splits)
    then show ?thesis using that [OF m] h r(2) unfolding ah by simp
  qed
qed

lemma decode_attrs_placed:
  assumes "decode_attrs strerror want start pos pdu_len msg mi fp = Some (Inr (pos', left, msg'))"
    and "placed start 20 (msg_attrs msg)" "pdu_len = 0 \<or> pos = 20 + attrs_room (msg_attrs msg)"
  shows "placed start 20 (msg_attrs msg')"
  using assms
proof (induction strerror want start pos pdu_len msg mi fp rule: decode_attrs.induct)
  case (1 strerror want start pos pdu_len msg mi fp)
  show ?case
  proof (cases "pdu_len \<ge> 4")
    case True
    obtain l m mi' fp' where one: "decode_one strerror want (drop pos start) pdu_len msg mi fp = Some (Inr (l, m, mi', fp'))"
      using "1.prems"(1) True by (subst (asm) decode_attrs.simps) (auto split: option.splits sum.splits prod.splits)
    obtain a where a: "msg_attrs m = msg_attrs msg @ [a]" "placed (drop pos start) 0 [a]" "l = align4 (unat (at_length a))"
      by (rule decode_one_placed [OF one])
    have pos: "pos = 20 + attrs_room (msg_attrs msg)" using "1.prems"(3) True by simp
    have p: "placed start 20 (msg_attrs m)" using "1.prems"(2) a(2) unfolding a(1) placed_append pos by simp
    have room: "20 + attrs_room (msg_attrs m) = pos + (l + 4)" unfolding a(1) pos a(3) by (simp add: attrs_room_def)
    show ?thesis
    proof (cases "l + 4 \<ge> pdu_len")
      case t: True
      then have "decode_attrs strerror want start (pos + pdu_len) 0 m mi' fp' = Some (Inr (pos', left, msg'))"
        using "1.prems"(1) True one by (subst (asm) decode_attrs.simps) simp
      then show ?thesis using "1.IH"(1) [OF True one refl refl refl refl t _ p] by simp
    next
      case f: False
      then have "decode_attrs strerror want start (pos + (l + 4)) (pdu_len - (l + 4)) m mi' fp' = Some (Inr (pos', left, msg'))"
        using "1.prems"(1) True one by (subst (asm) decode_attrs.simps) simp
      then show ?thesis using "1.IH"(2) [OF True one refl refl refl refl f _ p] room by simp
    qed
  next
    case False
    then show ?thesis using "1.prems" by (subst (asm) decode_attrs.simps) auto
  qed
qed

lemma decode_placed:
  assumes "pj_stun_msg_decode strerror p options want = Some (Inr (msg, n))"
  shows "placed p 20 (msg_attrs msg) \<and> length (filter (\<lambda>a. at_type a = PJ_STUN_ATTR_MESSAGE_INTEGRITY) (msg_attrs msg)) \<le> 1 \<and>
    list_all attr_typed (msg_attrs msg) \<and> p \<noteq> []"
  using assms
proof (cases rule: decode_cases)
  case (parsed hdr pos left msg')
  then have m: "msg' = msg" "left = 0" by (simp_all split: if_splits)
  have "placed p 20 (msg_attrs msg)" by (rule decode_attrs_placed [OF parsed(2) [unfolded m]]) (simp_all add: attrs_room_def)
  moreover obtain mi fp where "decode_inv hdr msg mi fp"
    using decode_attrs_inv [OF parsed(2) decode_inv_init decode_hdr_tsx [OF parsed(1)]] unfolding m by blast
  moreover have "p \<noteq> []" using assms by (auto simp: pj_stun_msg_decode_def)
  ultimately show ?thesis by (auto simp: decode_inv_def seen_def split: if_splits)
qed simp_all

subsection \<open>Accepted requests\<close>

text \<open>What a static credential asks of the REALM and NONCE of a request.\<close>

definition cred_satisfied :: "(byte list \<Rightarrow> byte list \<Rightarrow> bool) \<Rightarrow> static_cred \<Rightarrow> byte list option \<Rightarrow> byte list option \<Rightarrow> bool" where
  "cred_satisfied stricmp c arealm anonce \<longleftrightarrow>
     (case arealm of None \<Rightarrow> sc_realm c = [] \<and> sc_nonce c = []
      | Some r \<Rightarrow> sc_realm c \<noteq> [] \<longrightarrow> stricmp r (sc_realm c) \<and> (sc_nonce c \<noteq> [] \<longrightarrow> anonce \<noteq> None)) \<and>
     (\<forall>n. anonce = Some n \<longrightarrow> sc_nonce c \<noteq> [] \<longrightarrow> n = sc_nonce c)"

definition cred_info :: "pj_md5_context \<Rightarrow> static_cred \<Rightarrow> pj_stun_req_cred_info" where
  "cred_info md c = \<lparr>ci_realm = sc_realm c, ci_username = sc_username c, ci_nonce = sc_nonce c,
     ci_auth_key = pj_stun_create_key md (Some (sc_realm c)) (sc_username c) (sc_data_type c) (sc_data c)\<rparr>"

lemma auth_policy_satisfied:
  "cred_satisfied stricmp c arealm anonce \<Longrightarrow> auth_policy stricmp msg (PJ_STUN_AUTH_CRED_STATIC c) (sc_realm c) (sc_nonce c) arealm user anonce = None"
  by (auto simp: cred_satisfied_def auth_policy_def nonce_policy_def split: option.splits)

lemma auth_static_accept:
  assumes scan: "scan_msgint (msg_attrs msg) None 0 = (Some a, pos, beyond)"
      "at_body a = Msgint_body (hmac_spec sha1_digest (ci_auth_key (cred_info md c)) (mi_covered pkt pos beyond))"
    and len: "20 + pos \<le> length pkt" "length pkt < 2 ^ 29" "stk_ok stk" "length (ci_auth_key (cred_info md c)) < 2 ^ 29"
    and attrs: "string_value (pj_stun_msg_find_attr msg PJ_STUN_ATTR_USERNAME 0) = Some (Some (sc_username c))"
      "string_value (pj_stun_msg_find_attr msg PJ_STUN_ATTR_REALM 0) = Some arealm"
      "string_value (pj_stun_msg_find_attr msg PJ_STUN_ATTR_NONCE 0) = Some anonce" and ok: "cred_satisfied stricmp c arealm anonce"
  shows "pj_stun_authenticate_request md stk stricmp pkt msg (PJ_STUN_AUTH_CRED_STATIC c) want = Some (PJ_SUCCESS, None, cred_info md c)"
proof -
  have realm: "\<not> (sc_realm c \<noteq> [] \<and> arealm = None)" using ok by (auto simp: cred_satisfied_def)
  have "pkt \<noteq> []" using len(1) by auto
  then show ?thesis
    using len scan(2) realm auth_policy_satisfied [OF ok] msg_digest_covered [OF len(3,4,2), of pos beyond]
    by (cases arealm) (simp_all add: pj_stun_authenticate_request_def cred_auth_def auth_checks_def scan(1) attrs auth_user_def cred_info_def hmac_matches_def Let_def)
qed

text \<open>The decoder gives back the strings that the sender put in.\<close>

lemma find_canon:
  "string_value (List.find (\<lambda>a. at_type a = t) (map (canon_attr hdr) as)) = string_value (List.find (\<lambda>a. at_type a = t) as)"
proof -
  have "List.find (\<lambda>a. at_type a = t) (map (canon_attr hdr) as) = map_option (canon_attr hdr) (List.find (\<lambda>a. at_type a = t) as)"
    by (induction as) (simp_all add: canon_attr_def)
  moreover have "string_value (Some (canon_attr hdr a)) = string_value (Some a)" for a
    by (cases "at_body a"; cases "find_attr_desc (unat (at_type a))") (simp_all add: string_value_def canon_attr_def)
  ultimately show ?thesis by (cases "List.find (\<lambda>a. at_type a = t) as") (simp_all add: string_value_def)
qed

lemma find_append: "List.find P (xs @ ys) = (case List.find P xs of None \<Rightarrow> List.find P ys | Some x \<Rightarrow> Some x)"
  by (induction xs) auto

lemma canon_room:
  assumes "attrs_size hdr as < 65536"
  shows "attrs_room (map (canon_attr hdr) as) = attrs_size hdr as"
  using assms
proof (induction as)
  case (Cons a as)
  then have "attrs_size hdr as < 65536" "attr_size hdr a < 65536" by simp_all
  moreover from this(2) have "length (attr_value hdr (at_body a)) < 65536" 
    using align4_ge [of "length (attr_value hdr (at_body a))"] unfolding attr_size_def by linarith
  ultimately show ?case using Cons.IH by (simp add: attrs_room_def canon_attr_def unat_of_nat_16 attr_size_def)
qed (simp add: attrs_room_def)

lemma covered_hdr:
  assumes "length (mh_tsx_id hdr) = 12" "beyond \<or> l = of_nat (length W + 24)"
  shows "mi_covered (hdr_bytes hdr l @ W @ V) (length W) beyond = hdr_bytes hdr (of_nat (length W + 24)) @ W"
proof -
  have "drop 20 (hdr_bytes hdr l @ W @ V) = W @ V" "take 20 (hdr_bytes hdr l @ W @ V) = hdr_bytes hdr l" using assms(1) by simp_all
  moreover have "take 2 (hdr_bytes hdr l @ W @ V) = be_bytes16 (mh_type hdr)" by (simp add: hdr_bytes_def)
  moreover have "drop 4 (hdr_bytes hdr l @ W @ V) = be_bytes32 (mh_magic hdr) @ mh_tsx_id hdr @ W @ V"
    using assms(1) by (simp add: hdr_bytes_def)
  then have "take 16 (drop 4 (hdr_bytes hdr l @ W @ V)) = be_bytes32 (mh_magic hdr) @ mh_tsx_id hdr" using assms(1) by simp
  ultimately show ?thesis using assms(2) by (auto simp: mi_covered_def hdr_bytes_def)
qed

text \<open>A packet whose MESSAGE-INTEGRITY is right is accepted, whatever well-formed attributes follow it.\<close>

lemma signed_packet_accepted:
  fixes as post m hdr W V stk md c
  defines "mi \<equiv> signed_msgint (hmac_spec sha1_digest (ci_auth_key (cred_info md c))) hdr W m"
  defines "B \<equiv> W @ attr_wire hdr mi @ V"
  defines "p \<equiv> hdr_bytes hdr (of_nat (length B)) @ B"
  assumes tsx: "length (mh_tsx_id hdr) = 12" and plain: "list_all plain_attr as" "list_all (attr_ok hdr) as" "attrs_wire hdr as W"
    and m: "at_type m = PJ_STUN_ATTR_MESSAGE_INTEGRITY" and post: "list_all (attr_ok hdr) post" "attrs_wire hdr post V" "attrs_order True False post"
      "list_all (\<lambda>a. at_type a \<noteq> PJ_STUN_ATTR_MESSAGE_INTEGRITY) post"
    and size: "length B < 65536" "length (as @ mi # post) \<le> PJ_STUN_MAX_ATTR" and check: "options AND PJ_STUN_CHECK_PACKET = 0 \<or> pj_stun_msg_check p options = Some PJ_SUCCESS"
    and key: "stk_ok stk" "length (ci_auth_key (cred_info md c)) < 2 ^ 29"
    and user: "string_value (List.find (\<lambda>a. at_type a = PJ_STUN_ATTR_USERNAME) (as @ post)) = Some (Some (sc_username c))"
      "string_value (List.find (\<lambda>a. at_type a = PJ_STUN_ATTR_REALM) (as @ post)) = Some arealm"
      "string_value (List.find (\<lambda>a. at_type a = PJ_STUN_ATTR_NONCE) (as @ post)) = Some anonce" and ok: "cred_satisfied stricmp c arealm anonce"
  shows "\<exists>dmsg. pj_stun_msg_decode strerror p options want = Some (Inr (dmsg, length p)) \<and> msg_attrs dmsg = map (canon_attr hdr) (as @ mi # post) \<and>
    pj_stun_authenticate_request md stk stricmp p dmsg (PJ_STUN_AUTH_CRED_STATIC c) want' = Some (PJ_SUCCESS, None, cred_info md c)"
proof -
  let ?h = "hmac_spec sha1_digest (ci_auth_key (cred_info md c)) (hdr_bytes hdr (of_nat (length W + 24)) @ W)"
  let ?dmsg = "\<lparr>msg_hdr = hdr\<lparr>mh_length := of_nat (length B)\<rparr>, msg_attrs = map (canon_attr hdr) (as @ mi # post)\<rparr>"
  have mi: "at_type mi = PJ_STUN_ATTR_MESSAGE_INTEGRITY" "at_body mi = Msgint_body ?h" "length ?h = 20"
    by (simp_all add: mi_def signed_msgint_def m hmac_spec_def length_sha1_digest)
  have mi_ok: "attr_ok hdr mi" using mi by (simp add: attr_ok_def body_ok_def known_checked_types)
  have mi_len: "length (attr_wire hdr mi) = 24" "attr_size hdr mi = 24" using mi by (simp_all add: attr_wire_def attr_value_def attr_size_def align4_def)
  have wire: "attrs_wire hdr (as @ mi # post) B" unfolding B_def
    using attrs_wire_append [OF plain(3) attrs_wire_Cons [OF post(2), of "[]" mi]] mi_len by simp
  have order: "attrs_order False False (as @ mi # post)" using order_plain [OF plain(1), of "mi # post"] post(3) mi(1) by simp
  have dec: "pj_stun_msg_decode strerror p options want = Some (Inr (?dmsg, 20 + length B))" unfolding p_def
    using plain(2) mi_ok post(1) by (intro decode_wire [OF _ tsx size(2) order wire size(1) check [unfolded p_def]]) simp
  have lW: "attrs_size hdr as = length W" "length W < 65536" using length_attrs_wire [OF plain(3)] size(1) by (simp_all add: B_def)
  have types: "list_all (\<lambda>a. at_type a \<noteq> PJ_STUN_ATTR_MESSAGE_INTEGRITY) (map (canon_attr hdr) as)"
      "list_all (\<lambda>a. at_type a \<noteq> PJ_STUN_ATTR_MESSAGE_INTEGRITY) (map (canon_attr hdr) post)"
    using plain(1) post(4) by (auto simp: list_all_iff plain_attr_def canon_attr_def)
  have "attrs_room (map (canon_attr hdr) as) = length W" using canon_room [of hdr as] lW by simp
  then have scan: "scan_msgint (msg_attrs ?dmsg) None 0 = (Some (canon_attr hdr mi), length W, post \<noteq> [])"
    using scan_msgint_plain [OF types(1), of "canon_attr hdr mi # map (canon_attr hdr) post" 0] scan_msgint_found [OF types(2)] mi(1)
    by (simp add: canon_attr_def)
  have "post \<noteq> [] \<or> of_nat (length B) = (of_nat (length W + 24) :: 16 word)" using post(2) mi_len by (auto simp: B_def)
  then have cov: "mi_covered p (length W) (post \<noteq> []) = hdr_bytes hdr (of_nat (length W + 24)) @ W"
    unfolding p_def B_def by (intro covered_hdr tsx) (simp only: B_def)
  have body: "at_body (canon_attr hdr mi) = Msgint_body (hmac_spec sha1_digest (ci_auth_key (cred_info md c)) (mi_covered p (length W) (post \<noteq> [])))"
    unfolding cov using mi(2) by (simp add: canon_attr_def split: option.splits)
  have p: "length p = 20 + length B" "20 + length W \<le> length p" "length p < 2 ^ 29" using size(1) tsx by (simp_all add: p_def B_def)
  have find: "string_value (pj_stun_msg_find_attr ?dmsg t 0) = string_value (List.find (\<lambda>a. at_type a = t) (as @ post))"
    if "t \<noteq> PJ_STUN_ATTR_MESSAGE_INTEGRITY" for t
  proof -
    have "List.find (\<lambda>a. at_type a = t) (as @ mi # post) = List.find (\<lambda>a. at_type a = t) (as @ post)" using that mi(1) by (simp add: find_append split: option.split)
    then show ?thesis using find_canon [of t hdr "as @ mi # post"] by (simp add: pj_stun_msg_find_attr_def)
  qed
  have ne: "PJ_STUN_ATTR_USERNAME \<noteq> PJ_STUN_ATTR_MESSAGE_INTEGRITY" "PJ_STUN_ATTR_REALM \<noteq> PJ_STUN_ATTR_MESSAGE_INTEGRITY"
      "PJ_STUN_ATTR_NONCE \<noteq> PJ_STUN_ATTR_MESSAGE_INTEGRITY"
    by (simp_all add: PJ_STUN_ATTR_USERNAME_def PJ_STUN_ATTR_REALM_def PJ_STUN_ATTR_NONCE_def PJ_STUN_ATTR_MESSAGE_INTEGRITY_def)
  have "pj_stun_authenticate_request md stk stricmp p ?dmsg (PJ_STUN_AUTH_CRED_STATIC c) want' = Some (PJ_SUCCESS, None, cred_info md c)"
    by (rule auth_static_accept [OF scan body p(2,3) key find [OF ne(1), unfolded user] find [OF ne(2), unfolded user] find [OF ne(3), unfolded user] ok])
  then show ?thesis using dec p(1) by (intro exI [of _ ?dmsg]) simp
qed

lemma signed_rest_split:
  assumes "map at_type rest \<in> {[PJ_STUN_ATTR_MESSAGE_INTEGRITY], [PJ_STUN_ATTR_MESSAGE_INTEGRITY, PJ_STUN_ATTR_FINGERPRINT]}"
  obtains m fps where "signed_rest mac hdr W rest = signed_msgint mac hdr W m # fps" "at_type m = PJ_STUN_ATTR_MESSAGE_INTEGRITY"
    "list_all (\<lambda>a. at_type a = PJ_STUN_ATTR_FINGERPRINT) fps"
  using assms that by (fastforce simp: signed_rest_def Let_def map_eq_Cons_conv signed_fingerprint_def)

lemma find_plain_attrs:
  assumes "PJ_STUN_ATTR_MESSAGE_INTEGRITY \<noteq> t" "PJ_STUN_ATTR_FINGERPRINT \<noteq> t" "list_all (\<lambda>a. \<not> plain_attr a) rest"
  shows "List.find (\<lambda>a. at_type a = t) (as @ rest) = List.find (\<lambda>a. at_type a = t) as"
proof -
  have "List.find (\<lambda>a. at_type a = t) rest = None" using assms by (auto simp: find_None_iff list_all_iff plain_attr_def)
  then show ?thesis by (simp add: find_append split: option.split)
qed

lemma order_suffix:
  "attrs_order False False (as @ a # post) \<Longrightarrow> list_all plain_attr as \<Longrightarrow> at_type a = PJ_STUN_ATTR_MESSAGE_INTEGRITY \<Longrightarrow> attrs_order True False post"
  by (induction as) (simp_all add: plain_attr_def)

subsection \<open>Answers to failures\<close>

lemma auth_reason_texts:
  "c \<in> {PJ_STUN_SC_BAD_REQUEST, PJ_STUN_SC_UNAUTHORIZED, PJ_STUN_SC_STALE_NONCE} \<Longrightarrow> c \<noteq> 0 \<and> (\<exists>r. pj_stun_get_err_reason c = Some (Some r))"
proof -
  have "pj_stun_get_err_reason PJ_STUN_SC_BAD_REQUEST = Some (Some ''Bad Request'')"
    "pj_stun_get_err_reason PJ_STUN_SC_UNAUTHORIZED = Some (Some ''Unauthorized'')"
    "pj_stun_get_err_reason PJ_STUN_SC_STALE_NONCE = Some (Some ''Stale Nonce'')" by code_simp+
  then show "c \<in> {PJ_STUN_SC_BAD_REQUEST, PJ_STUN_SC_UNAUTHORIZED, PJ_STUN_SC_STALE_NONCE} \<Longrightarrow> c \<noteq> 0 \<and> (\<exists>r. pj_stun_get_err_reason c = Some (Some r))"
    by (auto simp: PJ_STUN_SC_BAD_REQUEST_def PJ_STUN_SC_UNAUTHORIZED_def PJ_STUN_SC_STALE_NONCE_def)
qed

text \<open>The answer to a request that fails with an error code, under a credential with this realm and nonce.\<close>

definition is_challenge :: "pj_stun_msg_hdr \<Rightarrow> nat \<Rightarrow> byte list \<Rightarrow> byte list \<Rightarrow> pj_stun_msg \<Rightarrow> bool" where
  "is_challenge hdr code realm nonce r \<longleftrightarrow>
     msg_hdr r = \<lparr>mh_type = mh_type hdr OR PJ_STUN_ERROR_RESPONSE_BIT, mh_length = 0, mh_magic = mh_magic hdr, mh_tsx_id = mh_tsx_id hdr\<rparr> \<and>
     (\<exists>reason. msg_attrs r = INIT_ATTR PJ_STUN_ATTR_ERROR_CODE (4 + length reason) (Errcode_body code reason) #
        (if code \<noteq> 400 \<and> realm \<noteq> [] then [INIT_ATTR PJ_STUN_ATTR_REALM (length realm) (String_body realm)] else []) @
        (let n = (if nonce = [] \<and> realm \<noteq> [] then pjstun_nonce else nonce)
         in if code \<noteq> 400 \<and> n \<noteq> [] then [INIT_ATTR PJ_STUN_ATTR_NONCE (length n) (String_body n)] else []))"

lemma create_challenge_is:
  assumes "STUN_IS_REQUEST (mh_type (msg_hdr msg))" "c \<in> {PJ_STUN_SC_BAD_REQUEST, PJ_STUN_SC_UNAUTHORIZED, PJ_STUN_SC_STALE_NONCE}"
  shows "\<exists>r. create_challenge msg c errstr realm nonce = Some (Inr r) \<and> is_challenge (msg_hdr msg) c realm nonce r"
proof -
  obtain str where c: "c \<noteq> 0" "pj_stun_get_err_reason c = Some (Some str)" using auth_reason_texts [OF assms(2)] by blast
  obtain reason where r: "pj_stun_msg_create_response msg c (map_option bytes_of errstr) = Some (Inr
    \<lparr>msg_hdr = \<lparr>mh_type = mh_type (msg_hdr msg) OR PJ_STUN_ERROR_RESPONSE_BIT, mh_length = 0, mh_magic = mh_magic (msg_hdr msg), mh_tsx_id = mh_tsx_id (msg_hdr msg)\<rparr>,
      msg_attrs = [INIT_ATTR PJ_STUN_ATTR_ERROR_CODE (4 + length reason) (Errcode_body c reason)]\<rparr>)"
    using create_error_response [OF assms(1) c] by blast
  show ?thesis unfolding create_challenge_def r is_challenge_def
    by (simp add: Let_def pj_stun_msg_add_string_attr_def pj_stun_string_attr_create_def add_created_def pj_stun_msg_add_attr_def PJ_STUN_MAX_ATTR_def pjstun_nonce_def bytes_of_def, blast)
qed

text \<open>The failures of the checks.\<close>

lemma auth_policy_codes:
  "auth_policy stricmp msg cred realm nonce arealm user anonce = Some (code, t) \<Longrightarrow>
   code \<in> {PJ_STUN_SC_BAD_REQUEST, PJ_STUN_SC_UNAUTHORIZED, PJ_STUN_SC_STALE_NONCE}"
  by (auto simp: auth_policy_def nonce_policy_def Let_def split: option.splits if_splits pj_stun_auth_cred.splits)

lemma auth_checksE:
  assumes "auth_checks md stk stricmp pkt msg cred info = Some (failure, info')"
  obtains (refused) code t where "failure = Some (code, t)" "code \<in> {PJ_STUN_SC_BAD_REQUEST, PJ_STUN_SC_UNAUTHORIZED, PJ_STUN_SC_STALE_NONCE}"
  | (verified) amsgi pos beyond user arealm anonce username key digest same where
      "scan_msgint (msg_attrs msg) None 0 = (Some amsgi, pos, beyond)"
      "string_value (pj_stun_msg_find_attr msg PJ_STUN_ATTR_USERNAME 0) = Some (Some user)"
      "string_value (pj_stun_msg_find_attr msg PJ_STUN_ATTR_REALM 0) = Some arealm"
      "auth_user md msg cred (ci_realm info) arealm user = Some (username, key)" "info' = info\<lparr>ci_username := username, ci_auth_key := key\<rparr>"
      "string_value (pj_stun_msg_find_attr msg PJ_STUN_ATTR_NONCE 0) = Some anonce"
      "auth_policy stricmp msg cred (ci_realm info) (ci_nonce info) arealm user anonce = None"
      "msg_digest stk key pkt pos beyond = Some digest" "hmac_matches amsgi digest = Some same"
      "failure = (if same then None else Some (PJ_STUN_SC_UNAUTHORIZED, Some ''MESSAGE-INTEGRITY mismatch''))"
proof -
  obtain amsgi pos beyond where scan: "scan_msgint (msg_attrs msg) None 0 = (amsgi, pos, beyond)" by (rule prod_cases3)
  show thesis
  proof (cases amsgi)
    case None
    then show ?thesis using refused assms scan by (auto simp: auth_checks_def)
  next
    case mi: (Some a)
    note c = assms [unfolded auth_checks_def scan mi Let_def, simplified]
    obtain auser where u: "string_value (pj_stun_msg_find_attr msg PJ_STUN_ATTR_USERNAME 0) = Some auser"
      using c by (auto simp: bind_eq_Some_conv)
    show ?thesis
    proof (cases auser)
      case None
      then show ?thesis using refused c u by auto
    next
      case user: (Some user)
      obtain arealm where r: "string_value (pj_stun_msg_find_attr msg PJ_STUN_ATTR_REALM 0) = Some arealm"
        using c u user by (auto simp: bind_eq_Some_conv)
      show ?thesis
      proof (cases "ci_realm info \<noteq> [] \<and> arealm = None")
        case True
        then show ?thesis using refused c u user r by auto
      next
        case ok: False
        show ?thesis
        proof (cases "auth_user md msg cred (ci_realm info) arealm user")
          case None
          then show ?thesis using refused c ok u user r by auto
        next
          case (Some uk)
          then obtain username key where k: "auth_user md msg cred (ci_realm info) arealm user = Some (username, key)" by (cases uk) simp
          obtain anonce where n: "string_value (pj_stun_msg_find_attr msg PJ_STUN_ATTR_NONCE 0) = Some anonce"
            using c ok k u user r by (auto simp: bind_eq_Some_conv split: if_splits)
          show ?thesis
          proof (cases "auth_policy stricmp msg cred (ci_realm info) (ci_nonce info) arealm user anonce")
            case None
            then obtain digest same where d: "msg_digest stk key pkt pos beyond = Some digest" "hmac_matches a digest = Some same"
                "failure = (if same then None else Some (PJ_STUN_SC_UNAUTHORIZED, Some ''MESSAGE-INTEGRITY mismatch''))"
                "info' = info\<lparr>ci_username := username, ci_auth_key := key\<rparr>"
              using c ok k n u user r by (auto simp: bind_eq_Some_conv split: if_splits)
            show ?thesis by (rule verified [OF scan [unfolded mi] u [unfolded user] r k d(4) n None d(1,2,3)])
          next
            case (Some f)
            then have "failure = Some f" using c ok k n u user r by auto
            then show ?thesis using refused auth_policy_codes Some by (cases f) blast
          qed
        qed
      qed
    qed
  qed
qed

lemma auth_checks_codes:
  assumes "auth_checks md stk stricmp pkt msg cred info = Some (Some (code, t), info')"
  shows "code \<in> {PJ_STUN_SC_BAD_REQUEST, PJ_STUN_SC_UNAUTHORIZED, PJ_STUN_SC_STALE_NONCE}"
  using assms by (cases rule: auth_checksE) (auto split: if_splits)

text \<open>On a decoded message the checks never leave the packet and never meet an attribute of the wrong structure.\<close>

lemma string_value_typed:
  assumes "list_all attr_typed (msg_attrs msg)" "t \<in> {PJ_STUN_ATTR_USERNAME, PJ_STUN_ATTR_REALM, PJ_STUN_ATTR_NONCE}"
  shows "\<exists>s. string_value (pj_stun_msg_find_attr msg t 0) = Some s"
proof (cases "pj_stun_msg_find_attr msg t 0")
  case (Some a)
  then have "a \<in> set (msg_attrs msg)" "at_type a = t" by (auto simp: pj_stun_msg_find_attr_def find_Some_iff)
  moreover from this have "attr_typed a" using assms(1) by (simp add: list_all_iff)
  moreover have "map_option snd (find_attr_desc (unat t)) = Some STRING_ATTR" using assms(2)
    by (auto simp: find_attr_desc_def mandatory_attr_desc_def PJ_STUN_ATTR_USERNAME_def PJ_STUN_ATTR_REALM_def PJ_STUN_ATTR_NONCE_def PJ_STUN_ATTR_END_MANDATORY_ATTR_def)
  ultimately have "\<exists>s. at_body a = String_body s" by (cases "at_body a") (auto simp: attr_typed_def body_typed_def)
  then show ?thesis using Some by (auto simp: string_value_def)
qed (simp add: string_value_def)

lemma msg_digest_total: "20 + pos \<le> length pkt \<Longrightarrow> \<exists>d. msg_digest stk key pkt pos beyond = Some d"
  by (simp add: msg_digest_def get_bytes_def PUTVAL16H_bytes put_bytes_def)

lemma GETATTRHDR_length: "GETATTRHDR (drop pos p) = Some x \<Longrightarrow> pos \<le> length p"
  by (auto simp: GETATTRHDR_def GETVAL16H_def deref_def bind_eq_Some_conv split: if_splits)

lemma auth_checks_total:
  assumes "placed pkt 20 (msg_attrs msg)" "list_all attr_typed (msg_attrs msg)"
    and "length (filter (\<lambda>a. at_type a = PJ_STUN_ATTR_MESSAGE_INTEGRITY) (msg_attrs msg)) \<le> 1"
  shows "\<exists>failure info'. auth_checks md stk stricmp pkt msg cred info = Some (failure, info')"
proof -
  obtain amsgi pos beyond where scan: "scan_msgint (msg_attrs msg) None 0 = (amsgi, pos, beyond)" by (rule prod_cases3)
  show ?thesis
  proof (cases amsgi)
    case None
    then show ?thesis by (simp add: auth_checks_def scan)
  next
    case (Some a)
    obtain pre post where m: "msg_attrs msg = pre @ a # post" "at_type a = PJ_STUN_ATTR_MESSAGE_INTEGRITY" "pos = 0 + attrs_room pre"
      by (rule scan_msgint_Some [OF scan [unfolded Some] assms(3)])
    have "placed pkt (20 + pos) (a # post)" using assms(1) unfolding m(1,3) placed_append by simp
    then have a: "20 + pos \<le> length pkt" "\<exists>h. at_body a = Msgint_body h" using m(2) GETATTRHDR_length by auto
    obtain h where h: "at_body a = Msgint_body h" using a(2) by blast
    obtain u where u: "string_value (pj_stun_msg_find_attr msg PJ_STUN_ATTR_USERNAME 0) = Some u" using string_value_typed [OF assms(2), of PJ_STUN_ATTR_USERNAME] by auto
    obtain r where r: "string_value (pj_stun_msg_find_attr msg PJ_STUN_ATTR_REALM 0) = Some r" using string_value_typed [OF assms(2), of PJ_STUN_ATTR_REALM] by auto
    obtain n where n: "string_value (pj_stun_msg_find_attr msg PJ_STUN_ATTR_NONCE 0) = Some n" using string_value_typed [OF assms(2), of PJ_STUN_ATTR_NONCE] by auto
    obtain dg where dg: "msg_digest stk k pkt pos beyond = Some (dg k)" for k using msg_digest_total [OF a(1), of stk _ beyond] by metis
    show ?thesis unfolding auth_checks_def scan Some Let_def
      by (simp add: u r n dg h hmac_matches_def split: option.split prod.split)
  qed
qed

text \<open>The outcomes of verifying a request.\<close>

lemma authenticateE:
  assumes "pj_stun_authenticate_request md stk stricmp pkt msg cred want = Some (status, r, info)" "pkt \<noteq> []"
  obtains (callback) "cred_auth cred = Inl status" "r = None"
  | (checked) realm nonce failure where "cred_auth cred = Inr (realm, nonce)"
      "auth_checks md stk stricmp pkt msg cred \<lparr>ci_realm = realm, ci_username = [], ci_nonce = nonce, ci_auth_key = []\<rparr> = Some (failure, info)"
      "status = (case failure of None \<Rightarrow> PJ_SUCCESS | Some (code, _) \<Rightarrow> PJ_STATUS_FROM_STUN_CODE code)"
      "\<And>code t. failure = Some (code, t) \<Longrightarrow> want \<Longrightarrow> STUN_IS_REQUEST (mh_type (msg_hdr msg)) \<Longrightarrow>
        \<exists>res. create_challenge msg code t realm nonce = Some res \<and> r = (case res of Inl _ \<Rightarrow> None | Inr x \<Rightarrow> Some x)"
      "failure = None \<Longrightarrow> r = None"
proof (cases "cred_auth cred")
  case (Inl st)
  then show ?thesis using callback assms by (simp add: pj_stun_authenticate_request_def)
next
  case (Inr rn)
  obtain realm nonce where rn: "cred_auth cred = Inr (realm, nonce)" using Inr by (cases rn) simp
  note a = assms(1) [unfolded pj_stun_authenticate_request_def Let_def rn, simplified assms(2), simplified]
  then obtain failure info0 where f: "auth_checks md stk stricmp pkt msg cred \<lparr>ci_realm = realm, ci_username = [], ci_nonce = nonce, ci_auth_key = []\<rparr> = Some (failure, info0)"
    by (auto simp: bind_eq_Some_conv)
  show ?thesis
  proof (cases failure)
    case None
    then show ?thesis using a f by (intro checked [OF rn, of failure]) auto
  next
    case (Some ct)
    then show ?thesis using a f by (cases ct) (intro checked [OF rn, of failure]; auto simp: bind_eq_Some_conv split: if_splits)
  qed
qed

subsection \<open>Signed packets\<close>

text \<open>The packet of a message with MESSAGE-INTEGRITY, cut at that attribute.\<close>

lemma encode_with_msgint:
  assumes "stun_sendable msg" "20 + attrs_size (msg_hdr msg) (msg_attrs msg) \<le> length buf" "length buf < 2 ^ 32" "stk_ok stk" "length k < 2 ^ 29"
    and "PJ_STUN_ATTR_MESSAGE_INTEGRITY \<in> at_type ` set (msg_attrs msg)"
  obtains as rest m fps W V out msg' n where "msg_attrs msg = as @ rest" "list_all (\<lambda>a. \<not> plain_attr a) rest"
    "pj_stun_msg_encode pc stk msg buf 0 (Some k) = Some (Inr (out, msg', n))"
    "list_all plain_attr as" "list_all (attr_ok (msg_hdr msg)) as" "attrs_wire (msg_hdr msg) as W" "at_type m = PJ_STUN_ATTR_MESSAGE_INTEGRITY"
    "list_all (attr_ok (msg_hdr msg)) fps" "attrs_wire (msg_hdr msg) fps V" "attrs_order True False fps" "list_all (\<lambda>a. at_type a = PJ_STUN_ATTR_FINGERPRINT) fps"
    "length (W @ attr_wire (msg_hdr msg) (signed_msgint (hmac_spec sha1_digest k) (msg_hdr msg) W m) @ V) < 65536"
    "length (as @ signed_msgint (hmac_spec sha1_digest k) (msg_hdr msg) W m # fps) \<le> PJ_STUN_MAX_ATTR"
    "take n out = hdr_bytes (msg_hdr msg) (of_nat (length (W @ attr_wire (msg_hdr msg) (signed_msgint (hmac_spec sha1_digest k) (msg_hdr msg) W m) @ V))) @
      W @ attr_wire (msg_hdr msg) (signed_msgint (hmac_spec sha1_digest k) (msg_hdr msg) W m) @ V" "length (take n out) = n"
proof -
  let ?hdr = "msg_hdr msg" and ?n = "attrs_size (msg_hdr msg) (msg_attrs msg)"
  obtain as rest rest' W out where m: "as = takeWhile plain_attr (msg_attrs msg)" "rest = dropWhile plain_attr (msg_attrs msg)"
    and e: "rest' = signed_rest (hmac_spec sha1_digest k) ?hdr W rest" "attrs_wire ?hdr as W"
      "pj_stun_msg_encode pc stk msg buf 0 (Some k) = Some (Inr (out, \<lparr>msg_hdr = ?hdr\<lparr>mh_length := of_nat ?n\<rparr>, msg_attrs = as @ rest'\<rparr>, 20 + ?n))"
      "attrs_wire ?hdr (as @ rest') (W @ concat (map (attr_wire ?hdr) rest'))"
      "list_all (attr_ok ?hdr) (as @ rest')" "attrs_order False False (as @ rest')" "map at_type (as @ rest') = map at_type (msg_attrs msg)"
      "take (20 + ?n) out = hdr_bytes ?hdr (of_nat ?n) @ W @ concat (map (attr_wire ?hdr) rest')"
      "length (W @ concat (map (attr_wire ?hdr) rest')) = ?n"
    by (rule encode_sendable [OF assms(1-5), of pc])
  have split: "msg_attrs msg = as @ rest" using m by simp
  have plain: "list_all plain_attr as" unfolding m by (auto simp: list_all_iff dest: set_takeWhileD)
  have "map at_type rest \<in> {[], [PJ_STUN_ATTR_MESSAGE_INTEGRITY], [PJ_STUN_ATTR_FINGERPRINT], [PJ_STUN_ATTR_MESSAGE_INTEGRITY, PJ_STUN_ATTR_FINGERPRINT]}"
    using assms(1) unfolding stun_sendable_def m by blast
  moreover have "PJ_STUN_ATTR_MESSAGE_INTEGRITY \<in> set (map at_type rest)" using assms(6) plain unfolding split by (auto simp: list_all_iff plain_attr_def)
  ultimately have shape: "map at_type rest \<in> {[PJ_STUN_ATTR_MESSAGE_INTEGRITY], [PJ_STUN_ATTR_MESSAGE_INTEGRITY, PJ_STUN_ATTR_FINGERPRINT]}" by auto
  obtain mi fps where r: "rest' = signed_msgint (hmac_spec sha1_digest k) ?hdr W mi # fps" "at_type mi = PJ_STUN_ATTR_MESSAGE_INTEGRITY"
      "list_all (\<lambda>a. at_type a = PJ_STUN_ATTR_FINGERPRINT) fps"
    unfolding e(1) by (rule signed_rest_split [OF shape])
  let ?V = "concat (map (attr_wire ?hdr) fps)" and ?mi = "signed_msgint (hmac_spec sha1_digest k) ?hdr W mi"
  have tsx: "length (mh_tsx_id ?hdr) = 12" and n: "?n < 65536" "length (msg_attrs msg) \<le> PJ_STUN_MAX_ATTR"
    using assms(1) by (simp_all add: stun_sendable_def)
  have "list_all (\<lambda>a. length (attr_wire ?hdr a) = attr_size ?hdr a) rest'" unfolding e(1)
    by (intro signed_rest_exact [OF _ tsx]) (simp add: hmac_spec_def length_sha1_digest)
  then have V: "attrs_wire ?hdr fps ?V" unfolding r(1) by (intro checked_wire) simp
  have mi: "at_type ?mi = PJ_STUN_ATTR_MESSAGE_INTEGRITY" by (simp add: signed_msgint_def r(2))
  have ord: "attrs_order True False fps" by (rule order_suffix [OF e(6) [unfolded r(1)] plain mi])
  have ok: "list_all (attr_ok ?hdr) as" "list_all (attr_ok ?hdr) fps" using e(5) unfolding r(1) by simp_all
  have len: "length (W @ attr_wire ?hdr ?mi @ ?V) = ?n" using e(9) unfolding r(1) by simp
  have cnt: "length (as @ ?mi # fps) \<le> PJ_STUN_MAX_ATTR" using map_eq_imp_length_eq [OF e(7)] n(2) unfolding r(1) by simp
  have np: "list_all (\<lambda>a. \<not> plain_attr a) rest" using shape by (auto simp: list_all_iff plain_attr_def map_eq_Cons_conv)
  have pk: "take (20 + ?n) out = hdr_bytes ?hdr (of_nat (length (W @ attr_wire ?hdr ?mi @ ?V))) @ W @ attr_wire ?hdr ?mi @ ?V"
    unfolding e(8) len unfolding r(1) by simp
  have lp: "length (take (20 + ?n) out) = 20 + ?n" unfolding pk length_append using len tsx by simp
  show thesis by (rule that [OF split np e(3) plain ok(1) e(2) r(2) ok(2) V ord r(3) len [THEN eq_imp_le, THEN le_less_trans, OF n(1)] cnt pk lp])
qed

lemma auth_types_plain:
  "t \<in> {PJ_STUN_ATTR_USERNAME, PJ_STUN_ATTR_REALM, PJ_STUN_ATTR_NONCE} \<Longrightarrow> PJ_STUN_ATTR_MESSAGE_INTEGRITY \<noteq> t \<and> PJ_STUN_ATTR_FINGERPRINT \<noteq> t"
  by (auto simp: PJ_STUN_ATTR_USERNAME_def PJ_STUN_ATTR_REALM_def PJ_STUN_ATTR_NONCE_def PJ_STUN_ATTR_MESSAGE_INTEGRITY_def PJ_STUN_ATTR_FINGERPRINT_def)

subsection \<open>Properties\<close>

definition demo_cred :: static_cred where
  "demo_cred = \<lparr>sc_realm = [], sc_username = [0x61, 0x62, 0x3A, 0x63, 0x64], sc_data_type = PJ_STUN_PASSWD_PLAIN, sc_data = [1, 2, 3], sc_nonce = []\<rparr>"

definition demo_user :: pj_stun_attr where
  "demo_user = \<lparr>at_type = PJ_STUN_ATTR_USERNAME, at_length = 5, at_body = String_body [0x61, 0x62, 0x3A, 0x63, 0x64]\<rparr>"

definition demo_user_bytes :: "byte list" where
  "demo_user_bytes = [0, 6, 0, 5, 0x61, 0x62, 0x3A, 0x63, 0x64, 0, 0, 0]"

definition demo_msgint :: pj_stun_attr where
  "demo_msgint = \<lparr>at_type = PJ_STUN_ATTR_MESSAGE_INTEGRITY, at_length = 20, at_body = Msgint_body []\<rparr>"

definition demo_use_candidate :: pj_stun_attr where
  "demo_use_candidate = \<lparr>at_type = 0x0025, at_length = 0, at_body = Empty_body\<rparr>"

definition demo_decoded :: pj_stun_msg where
  "demo_decoded = \<lparr>msg_hdr = \<lparr>mh_type = 1, mh_length = 8, mh_magic = 0x2112A442, mh_tsx_id = [1, 2, 3, 4, 5, 6, 7, 8, 9, 10, 11, 12]\<rparr>,
     msg_attrs = [\<lparr>at_type = 6, at_length = 2, at_body = String_body [0x61, 0x62]\<rparr>]\<rparr>"

lemma demo_request_decoded: "pj_stun_msg_decode (\<lambda>_. []) demo_request 0 True = Some (Inr (demo_decoded, 28))" "STUN_IS_REQUEST (mh_type (msg_hdr demo_decoded))"
  by code_simp+

lemma demo_auth:
  "ci_auth_key (cred_info demo_md5 demo_cred) = [1, 2, 3]" "attrs_wire hdr [demo_user] demo_user_bytes" "plain_attr demo_user"
  "mh_magic hdr = PJ_STUN_MAGIC \<Longrightarrow> attr_ok hdr demo_user" "cred_satisfied stricmp demo_cred None None"
  "attr_ok hdr demo_use_candidate" "attrs_wire hdr [demo_use_candidate] [0, 0x25, 0, 0]" "at_type demo_msgint = PJ_STUN_ATTR_MESSAGE_INTEGRITY"
  "length (attr_wire hdr (signed_msgint (hmac_spec sha1_digest k) hdr W demo_msgint)) = 24"
proof -
  show "attr_ok hdr demo_user" if "mh_magic hdr = PJ_STUN_MAGIC"
    using demo_kinds(1) that by (simp add: demo_user_def attr_ok_def body_ok_def PJ_STUN_ATTR_USERNAME_def PJ_STUN_ATTR_SOFTWARE_def)
  show "length (attr_wire hdr (signed_msgint (hmac_spec sha1_digest k) hdr W demo_msgint)) = 24"
    by (simp add: signed_msgint_def attr_wire_def attr_value_def hmac_spec_def length_sha1_digest)
qed (simp_all add: cred_info_def demo_cred_def pj_stun_create_key_def demo_user_def demo_user_bytes_def demo_use_candidate_def demo_msgint_def attr_wire_def attr_value_def be_bytes16_def
    attr_size_def align4_def PJ_STUN_ATTR_USERNAME_def plain_attr_def PJ_STUN_ATTR_MESSAGE_INTEGRITY_def PJ_STUN_ATTR_FINGERPRINT_def cred_satisfied_def attr_ok_def body_ok_def
    find_attr_desc_def mandatory_attr_desc_def PJ_STUN_ATTR_END_MANDATORY_ATTR_def)

text \<open>
  C22. A request that a client signs with the key of a credential is accepted by a server that has the credential: for every well-formed message with
  a MESSAGE-INTEGRITY attribute, the right USERNAME and a REALM and NONCE that the credential asks for, encoding it with that key,
  decoding the bytes and authenticating the result returns success.
\<close>

theorem stun_auth_accepts_signed:
  assumes "stun_sendable msg" "20 + attrs_size (msg_hdr msg) (msg_attrs msg) \<le> length buf" "length buf < 2 ^ 32" "options AND PJ_STUN_CHECK_PACKET = 0"
    and "stk_ok stk" "stk_ok stk'" "length (ci_auth_key (cred_info md c)) < 2 ^ 29"
    and "PJ_STUN_ATTR_MESSAGE_INTEGRITY \<in> at_type ` set (msg_attrs msg)"
    and "string_value (pj_stun_msg_find_attr msg PJ_STUN_ATTR_USERNAME 0) = Some (Some (sc_username c))"
    and "string_value (pj_stun_msg_find_attr msg PJ_STUN_ATTR_REALM 0) = Some arealm"
    and "string_value (pj_stun_msg_find_attr msg PJ_STUN_ATTR_NONCE 0) = Some anonce" and "cred_satisfied stricmp c arealm anonce"
  shows "\<exists>out msg' n dmsg. pj_stun_msg_encode pc stk msg buf 0 (Some (ci_auth_key (cred_info md c))) = Some (Inr (out, msg', n)) \<and>
    pj_stun_msg_decode strerror (take n out) options want = Some (Inr (dmsg, n)) \<and>
    pj_stun_authenticate_request md stk' stricmp (take n out) dmsg (PJ_STUN_AUTH_CRED_STATIC c) want' = Some (PJ_SUCCESS, None, cred_info md c)"
proof -
  let ?hdr = "msg_hdr msg" and ?k = "ci_auth_key (cred_info md c)"
  have tsx: "length (mh_tsx_id ?hdr) = 12" using assms(1) by (simp add: stun_sendable_def)
  obtain as rest m fps W V out msg' n where split: "msg_attrs msg = as @ rest" "list_all (\<lambda>a. \<not> plain_attr a) rest"
    and enc: "pj_stun_msg_encode pc stk msg buf 0 (Some ?k) = Some (Inr (out, msg', n))"
    and e: "list_all plain_attr as" "list_all (attr_ok ?hdr) as" "attrs_wire ?hdr as W" "at_type m = PJ_STUN_ATTR_MESSAGE_INTEGRITY"
      "list_all (attr_ok ?hdr) fps" "attrs_wire ?hdr fps V" "attrs_order True False fps" and fp: "list_all (\<lambda>a. at_type a = PJ_STUN_ATTR_FINGERPRINT) fps"
    and size: "length (W @ attr_wire ?hdr (signed_msgint (hmac_spec sha1_digest ?k) ?hdr W m) @ V) < 65536"
      "length (as @ signed_msgint (hmac_spec sha1_digest ?k) ?hdr W m # fps) \<le> PJ_STUN_MAX_ATTR"
    and pk: "take n out = hdr_bytes ?hdr (of_nat (length (W @ attr_wire ?hdr (signed_msgint (hmac_spec sha1_digest ?k) ?hdr W m) @ V))) @
      W @ attr_wire ?hdr (signed_msgint (hmac_spec sha1_digest ?k) ?hdr W m) @ V" "length (take n out) = n"
    by (rule encode_with_msgint [OF assms(1-3,5,7,8), of pc])
  have np: "list_all (\<lambda>a. \<not> plain_attr a) fps" "list_all (\<lambda>a. at_type a \<noteq> PJ_STUN_ATTR_MESSAGE_INTEGRITY) fps"
    using fp by (auto simp: list_all_iff plain_attr_def)
  have find: "string_value (List.find (\<lambda>a. at_type a = t) (as @ fps)) = string_value (pj_stun_msg_find_attr msg t 0)"
    if "t \<in> {PJ_STUN_ATTR_USERNAME, PJ_STUN_ATTR_REALM, PJ_STUN_ATTR_NONCE}" for t
    unfolding pj_stun_msg_find_attr_def split using auth_types_plain [OF that] find_plain_attrs np(1) split(2) by simp
  have user: "string_value (List.find (\<lambda>a. at_type a = PJ_STUN_ATTR_USERNAME) (as @ fps)) = Some (Some (sc_username c))"
      "string_value (List.find (\<lambda>a. at_type a = PJ_STUN_ATTR_REALM) (as @ fps)) = Some arealm"
      "string_value (List.find (\<lambda>a. at_type a = PJ_STUN_ATTR_NONCE) (as @ fps)) = Some anonce"
    using find assms(9-11) by simp_all
  obtain dmsg where "pj_stun_msg_decode strerror (take n out) options want = Some (Inr (dmsg, length (take n out)))"
      "pj_stun_authenticate_request md stk' stricmp (take n out) dmsg (PJ_STUN_AUTH_CRED_STATIC c) want' = Some (PJ_SUCCESS, None, cred_info md c)"
    using signed_packet_accepted [OF tsx e np(2) size disjI1 [OF assms(4)] assms(6,7) user assms(12), folded pk(1)] by blast
  then show ?thesis using enc unfolding pk(2) by blast
qed

theorem stun_auth_accepts_signed_witness:
  "\<exists>out msg' n dmsg. pj_stun_msg_encode 0 demo_stk demo_msg (replicate 100 0xFF) 0 (Some (ci_auth_key (cred_info demo_md5 demo_cred))) = Some (Inr (out, msg', n)) \<and>
    pj_stun_msg_decode (\<lambda>_. []) (take n out) 0 True = Some (Inr (dmsg, n)) \<and>
    pj_stun_authenticate_request demo_md5 demo_stk (=) (take n out) dmsg (PJ_STUN_AUTH_CRED_STATIC demo_cred) True = Some (PJ_SUCCESS, None, cred_info demo_md5 demo_cred)"
proof -
  have a: "string_value (pj_stun_msg_find_attr demo_msg PJ_STUN_ATTR_USERNAME 0) = Some (Some (sc_username demo_cred))"
    "string_value (pj_stun_msg_find_attr demo_msg PJ_STUN_ATTR_REALM 0) = Some None" "string_value (pj_stun_msg_find_attr demo_msg PJ_STUN_ATTR_NONCE 0) = Some None"
    "PJ_STUN_ATTR_MESSAGE_INTEGRITY \<in> at_type ` set (msg_attrs demo_msg)"
    by (simp_all add: string_value_def pj_stun_msg_find_attr_def demo_msg_def demo_cred_def PJ_STUN_ATTR_USERNAME_def PJ_STUN_ATTR_REALM_def PJ_STUN_ATTR_NONCE_def
        PJ_STUN_ATTR_MESSAGE_INTEGRITY_def PJ_STUN_ATTR_FINGERPRINT_def)
  show ?thesis by (rule stun_auth_accepts_signed [OF demo_msg_ok(1) _ _ _ demo_msg_ok(3,3) _ a(4,1,2,3) demo_auth(5)]) (simp_all add: demo_msg_ok(2) demo_auth(1))
qed

text \<open>
  C21. What authentication guarantees of the packet: if a received packet is decoded and then accepted, the packet has a MESSAGE-INTEGRITY attribute at some position, its 20 bytes
  are the HMAC-SHA1, under the key that the credential has for the USERNAME of the packet, of all bytes before the attribute (with the
  length field of the header as it is, or ending at the attribute), and no response is made.
\<close>

theorem stun_auth_sound:
  assumes "pj_stun_msg_decode strerror pkt options want = Some (Inr (msg, n))"
    and "pj_stun_authenticate_request md stk stricmp pkt msg cred want' = Some (PJ_SUCCESS, r, info)"
    and "stk_ok stk" "length pkt < 2 ^ 29" "length (ci_auth_key info) < 2 ^ 29" "cred_auth cred \<noteq> Inl PJ_SUCCESS"
  shows "\<exists>pos beyond user arealm. r = None \<and>
    string_value (pj_stun_msg_find_attr msg PJ_STUN_ATTR_USERNAME 0) = Some (Some user) \<and>
    string_value (pj_stun_msg_find_attr msg PJ_STUN_ATTR_REALM 0) = Some arealm \<and>
    auth_user md msg cred (ci_realm info) arealm user = Some (ci_username info, ci_auth_key info) \<and>
    GETATTRHDR (drop (20 + pos) pkt) = Some (PJ_STUN_ATTR_MESSAGE_INTEGRITY, 20) \<and>
    get_bytes pkt (24 + pos) 20 = Some (hmac_spec sha1_digest (ci_auth_key info) (mi_covered pkt pos beyond))"
proof -
  have d: "placed pkt 20 (msg_attrs msg)" "length (filter (\<lambda>a. at_type a = PJ_STUN_ATTR_MESSAGE_INTEGRITY) (msg_attrs msg)) \<le> 1" "pkt \<noteq> []"
    using decode_placed [OF assms(1)] by simp_all
  obtain realm nonce where r: "r = None" and
    c: "auth_checks md stk stricmp pkt msg cred \<lparr>ci_realm = realm, ci_username = [], ci_nonce = nonce, ci_auth_key = []\<rparr> = Some (None, info)"
    using assms(2) d(3)
  proof (cases rule: authenticateE)
    case (checked realm nonce failure)
    then show ?thesis using that by (cases failure) auto
  qed (use assms(6) in simp)
  from c show ?thesis
  proof (cases rule: auth_checksE)
    case (verified amsgi pos beyond user arealm anonce username key digest same)
    obtain pre post where m: "msg_attrs msg = pre @ amsgi # post" "at_type amsgi = PJ_STUN_ATTR_MESSAGE_INTEGRITY" "pos = 0 + attrs_room pre" "beyond \<longleftrightarrow> post \<noteq> []"
      by (rule scan_msgint_Some [OF verified(1) d(2)])
    have "placed pkt (20 + pos) (amsgi # post)" using d(1) unfolding m(1,3) placed_append by simp
    then obtain h where h: "at_body amsgi = Msgint_body h" "length h = 20" "get_bytes (drop (20 + pos) pkt) 4 20 = Some h"
        "GETATTRHDR (drop (20 + pos) pkt) = Some (PJ_STUN_ATTR_MESSAGE_INTEGRITY, 20)"
      using m(2) by auto
    have key: "key = ci_auth_key info" "username = ci_username info" "realm = ci_realm info" using verified(5) by simp_all
    have "20 + pos \<le> length pkt" using verified(8) msg_digest_covered [OF assms(3) _ assms(4), of key pos beyond] assms(5) key by (auto split: if_splits)
    then have g: "get_bytes pkt (24 + pos) 20 = Some h" using h(3) by (auto simp: get_bytes_def add_ac split: if_splits)
    have dg: "digest = hmac_spec sha1_digest (ci_auth_key info) (mi_covered pkt pos beyond)"
      using verified(8) msg_digest_covered [OF assms(3) _ assms(4), of key pos beyond] assms(5) key by (auto split: if_splits)
    have "same" using verified(10) by (auto split: if_splits)
    then have "take 20 h = take 20 digest" using verified(9) h(1,2) memcmp_eq_0_iff [of 20 h digest] unfolding dg
      by (simp add: hmac_matches_def hmac_spec_def length_sha1_digest)
    then have "h = digest" using h(2) by (simp add: dg hmac_spec_def length_sha1_digest)
    then show ?thesis using verified(2,3,4) g h(4) key r unfolding dg by auto
  qed simp
qed

theorem stun_auth_sound_witness:
  "\<exists>pkt msg info pos beyond. pj_stun_msg_decode (\<lambda>_. []) pkt 0 True = Some (Inr (msg, length pkt)) \<and>
    pj_stun_authenticate_request demo_md5 demo_stk (=) pkt msg (PJ_STUN_AUTH_CRED_STATIC demo_cred) True = Some (PJ_SUCCESS, None, info) \<and>
    get_bytes pkt (24 + pos) 20 = Some (hmac_spec sha1_digest (ci_auth_key info) (mi_covered pkt pos beyond))"
proof -
  let ?hdr = "msg_hdr demo_msg" let ?B = "demo_user_bytes @ attr_wire ?hdr (signed_msgint (hmac_spec sha1_digest (ci_auth_key (cred_info demo_md5 demo_cred))) ?hdr demo_user_bytes demo_msgint) @ []"
  let ?p = "hdr_bytes ?hdr (of_nat (length ?B)) @ ?B"
  have h: "length (mh_tsx_id ?hdr) = 12" "mh_magic ?hdr = PJ_STUN_MAGIC" by (simp_all add: demo_msg_def)
  have B: "length ?B = 36" using demo_auth(9) by (simp add: demo_user_bytes_def)
  obtain dmsg where d: "pj_stun_msg_decode (\<lambda>_. []) ?p 0 True = Some (Inr (dmsg, length ?p))"
      "pj_stun_authenticate_request demo_md5 demo_stk (=) ?p dmsg (PJ_STUN_AUTH_CRED_STATIC demo_cred) True = Some (PJ_SUCCESS, None, cred_info demo_md5 demo_cred)"
    using signed_packet_accepted [of ?hdr "[demo_user]" demo_user_bytes demo_msgint "[]" "[]" demo_md5 demo_cred 0 demo_stk None None "(=)" "\<lambda>_. []" True True] h B demo_auth demo_msg_ok(3)
    by (auto simp: PJ_STUN_MAX_ATTR_def demo_user_def demo_cred_def string_value_def PJ_STUN_ATTR_USERNAME_def PJ_STUN_ATTR_REALM_def PJ_STUN_ATTR_NONCE_def)
  have "length ?p = 56" unfolding length_append B using h by (simp add: B [simplified])
  then show ?thesis using stun_auth_sound [OF d demo_msg_ok(3)] d demo_auth(1) by (fastforce simp: cred_auth_def)
qed

text \<open>
  C23. Every request is answered: verifying a decoded request never reads outside the packet, and with a credential at hand it either succeeds or fails with 400, 401 or 438 and
  makes an error response for the same transaction with that code; unless the code is 400, the response carries the realm of a long-term credential and a nonce to try again with.
\<close>

theorem stun_auth_challenge:
  assumes "pj_stun_msg_decode strerror pkt options want = Some (Inr (msg, n))" "STUN_IS_REQUEST (mh_type (msg_hdr msg))" "cred_auth cred = Inr (realm, nonce)"
  shows "\<exists>status r info. pj_stun_authenticate_request md stk stricmp pkt msg cred True = Some (status, r, info) \<and>
    (status = PJ_SUCCESS \<and> r = None \<or>
     (\<exists>code \<in> {PJ_STUN_SC_BAD_REQUEST, PJ_STUN_SC_UNAUTHORIZED, PJ_STUN_SC_STALE_NONCE}. status = PJ_STATUS_FROM_STUN_CODE code \<and>
        (\<exists>response. r = Some response \<and> is_challenge (msg_hdr msg) code realm nonce response)))"
proof -
  have d: "placed pkt 20 (msg_attrs msg)" "list_all attr_typed (msg_attrs msg)"
      "length (filter (\<lambda>a. at_type a = PJ_STUN_ATTR_MESSAGE_INTEGRITY) (msg_attrs msg)) \<le> 1" "pkt \<noteq> []"
    using decode_placed [OF assms(1)] by simp_all
  obtain failure info where f: "auth_checks md stk stricmp pkt msg cred \<lparr>ci_realm = realm, ci_username = [], ci_nonce = nonce, ci_auth_key = []\<rparr> = Some (failure, info)"
    using auth_checks_total [OF d(1-3)] by blast
  show ?thesis
  proof (cases failure)
    case None
    then show ?thesis using d(4) f assms(3) by (simp add: pj_stun_authenticate_request_def)
  next
    case (Some ct)
    then obtain code t where ct: "failure = Some (code, t)" by (cases ct) simp
    have code: "code \<in> {PJ_STUN_SC_BAD_REQUEST, PJ_STUN_SC_UNAUTHORIZED, PJ_STUN_SC_STALE_NONCE}" using auth_checks_codes f unfolding ct by blast
    obtain resp where r: "create_challenge msg code t realm nonce = Some (Inr resp)" "is_challenge (msg_hdr msg) code realm nonce resp"
      using create_challenge_is [OF assms(2) code] by blast
    have "pj_stun_authenticate_request md stk stricmp pkt msg cred True = Some (PJ_STATUS_FROM_STUN_CODE code, Some resp, info)"
      using d(4) f assms(2,3) r(1) ct by (simp add: pj_stun_authenticate_request_def)
    then show ?thesis using code r(2) by blast
  qed
qed

theorem stun_auth_challenge_witness:
  "\<exists>info response. pj_stun_authenticate_request demo_md5 demo_stk (=) demo_request demo_decoded (PJ_STUN_AUTH_CRED_STATIC (demo_cred\<lparr>sc_realm := [0x72]\<rparr>)) True =
      Some (PJ_STATUS_FROM_STUN_CODE PJ_STUN_SC_UNAUTHORIZED, Some response, info) \<and> is_challenge (msg_hdr demo_decoded) PJ_STUN_SC_UNAUTHORIZED [0x72] [] response"
proof -
  let ?cred = "PJ_STUN_AUTH_CRED_STATIC (demo_cred\<lparr>sc_realm := [0x72]\<rparr>)"
  have c: "cred_auth ?cred = Inr ([0x72], [])" by (simp add: cred_auth_def demo_cred_def)
  obtain status r info where a: "pj_stun_authenticate_request demo_md5 demo_stk (=) demo_request demo_decoded ?cred True = Some (status, r, info)"
      "status = PJ_SUCCESS \<and> r = None \<or> (\<exists>code \<in> {PJ_STUN_SC_BAD_REQUEST, PJ_STUN_SC_UNAUTHORIZED, PJ_STUN_SC_STALE_NONCE}.
        status = PJ_STATUS_FROM_STUN_CODE code \<and> (\<exists>response. r = Some response \<and> is_challenge (msg_hdr demo_decoded) code [0x72] [] response))"
    using stun_auth_challenge [OF demo_request_decoded c] by blast
  have "status = PJ_STATUS_FROM_STUN_CODE PJ_STUN_SC_UNAUTHORIZED" using a(1) demo_request_decoded(2)
    by (auto simp: pj_stun_authenticate_request_def c auth_checks_def demo_decoded_def demo_request_def PJ_STUN_ATTR_MESSAGE_INTEGRITY_def bind_eq_Some_conv)
  then show ?thesis using a by auto
qed

text \<open>
  C24. Attributes after MESSAGE-INTEGRITY are not protected: if a signed request is accepted, so is the packet that has any further well-formed attribute
  of another type appended to it (and the length field adjusted, which needs no key), and the decoded message contains that attribute.
\<close>

theorem stun_auth_unprotected_suffix:
  fixes as m x hdr W V stk md c
  defines "mi \<equiv> signed_msgint (hmac_spec sha1_digest (ci_auth_key (cred_info md c))) hdr W m"
  defines "B \<equiv> W @ attr_wire hdr mi @ V"
  defines "p \<equiv> hdr_bytes hdr (of_nat (length B)) @ B"
  assumes "length (mh_tsx_id hdr) = 12" "list_all plain_attr as" "list_all (attr_ok hdr) as" "attrs_wire hdr as W"
    and "at_type m = PJ_STUN_ATTR_MESSAGE_INTEGRITY" "attr_ok hdr x" "at_type x \<noteq> PJ_STUN_ATTR_MESSAGE_INTEGRITY" "attrs_wire hdr [x] V"
    and "length B < 65536" "length as + 2 \<le> PJ_STUN_MAX_ATTR" "options AND PJ_STUN_CHECK_PACKET = 0"
    and "stk_ok stk" "length (ci_auth_key (cred_info md c)) < 2 ^ 29"
    and "string_value (List.find (\<lambda>a. at_type a = PJ_STUN_ATTR_USERNAME) (as @ [x])) = Some (Some (sc_username c))"
    and "string_value (List.find (\<lambda>a. at_type a = PJ_STUN_ATTR_REALM) (as @ [x])) = Some arealm"
    and "string_value (List.find (\<lambda>a. at_type a = PJ_STUN_ATTR_NONCE) (as @ [x])) = Some anonce" and "cred_satisfied stricmp c arealm anonce"
  shows "\<exists>dmsg. pj_stun_msg_decode strerror p options want = Some (Inr (dmsg, length p)) \<and> canon_attr hdr x \<in> set (msg_attrs dmsg) \<and>
    pj_stun_authenticate_request md stk stricmp p dmsg (PJ_STUN_AUTH_CRED_STATIC c) want' = Some (PJ_SUCCESS, None, cred_info md c)"
proof -
  have post: "list_all (attr_ok hdr) [x]" "attrs_order True False [x]" "list_all (\<lambda>a. at_type a \<noteq> PJ_STUN_ATTR_MESSAGE_INTEGRITY) [x]"
      "length (as @ mi # [x]) \<le> PJ_STUN_MAX_ATTR"
    using assms(9,10,13) by simp_all
  obtain dmsg where "pj_stun_msg_decode strerror p options want = Some (Inr (dmsg, length p))" "msg_attrs dmsg = map (canon_attr hdr) (as @ mi # [x])"
      "pj_stun_authenticate_request md stk stricmp p dmsg (PJ_STUN_AUTH_CRED_STATIC c) want' = Some (PJ_SUCCESS, None, cred_info md c)"
    using signed_packet_accepted [OF assms(4-8) post(1) assms(11) post(2,3) assms(12) [unfolded B_def mi_def] post(4) [unfolded mi_def] disjI1 [OF assms(14)]
        assms(15-20), folded mi_def, folded B_def, folded p_def] by blast
  then show ?thesis by auto
qed

theorem stun_auth_unprotected_suffix_witness:
  "\<exists>p dmsg. pj_stun_msg_decode (\<lambda>_. []) p 0 True = Some (Inr (dmsg, length p)) \<and> canon_attr (msg_hdr demo_msg) demo_use_candidate \<in> set (msg_attrs dmsg) \<and>
    pj_stun_authenticate_request demo_md5 demo_stk (=) p dmsg (PJ_STUN_AUTH_CRED_STATIC demo_cred) True = Some (PJ_SUCCESS, None, cred_info demo_md5 demo_cred)"
proof -
  let ?hdr = "msg_hdr demo_msg"
  have h: "length (mh_tsx_id ?hdr) = 12" "mh_magic ?hdr = PJ_STUN_MAGIC" by (simp_all add: demo_msg_def)
  have u: "string_value (List.find (\<lambda>a. at_type a = PJ_STUN_ATTR_USERNAME) ([demo_user] @ [demo_use_candidate])) = Some (Some (sc_username demo_cred))"
      "string_value (List.find (\<lambda>a. at_type a = PJ_STUN_ATTR_REALM) ([demo_user] @ [demo_use_candidate])) = Some None"
      "string_value (List.find (\<lambda>a. at_type a = PJ_STUN_ATTR_NONCE) ([demo_user] @ [demo_use_candidate])) = Some None"
      "at_type demo_use_candidate \<noteq> PJ_STUN_ATTR_MESSAGE_INTEGRITY" "list_all plain_attr [demo_user]" "list_all (attr_ok ?hdr) [demo_user]"
    using demo_auth(3) demo_auth(4) [OF h(2)] by (simp_all add: demo_user_def demo_cred_def demo_use_candidate_def string_value_def PJ_STUN_ATTR_USERNAME_def PJ_STUN_ATTR_REALM_def
        PJ_STUN_ATTR_NONCE_def PJ_STUN_ATTR_MESSAGE_INTEGRITY_def)
  have B: "length (demo_user_bytes @ attr_wire ?hdr (signed_msgint (hmac_spec sha1_digest (ci_auth_key (cred_info demo_md5 demo_cred))) ?hdr demo_user_bytes demo_msgint) @ [0, 0x25, 0, 0]) < 65536"
    using demo_auth(9) by (simp add: demo_user_bytes_def)
  have side: "length [demo_user] + 2 \<le> PJ_STUN_MAX_ATTR" "0 AND PJ_STUN_CHECK_PACKET = 0" "length (ci_auth_key (cred_info demo_md5 demo_cred)) < 2 ^ 29"
    by (simp_all add: PJ_STUN_MAX_ATTR_def demo_auth(1))
  from stun_auth_unprotected_suffix [OF h(1) u(5,6) demo_auth(2,8,6) u(4) demo_auth(7) B side(1,2) demo_msg_ok(3) side(3) u(1-3) demo_auth(5), of "\<lambda>_. []" True "(=)" True]
  show ?thesis by blast
qed

text \<open>
  C25. The key of a long-term credential with a plain password is the MD5 digest, as RFC 1321 defines it, of user name, colon, realm, colon and password, with a quote at either
  end of the user name and of the realm dropped; it does not depend on what the stack held.
\<close>

theorem stun_long_term_key:
  assumes "length (md_in md) = 64" "realm \<noteq> []" "length realm < 2 ^ 32" "length user < 2 ^ 32" "length passwd < 2 ^ 32"
  shows "pj_stun_create_key md (Some realm) user PJ_STUN_PASSWD_PLAIN passwd =
    md5_digest (REMOVE_QUOTE user @ [0x3A] @ REMOVE_QUOTE realm @ [0x3A] @ passwd)"
proof -
  have q: "length (REMOVE_QUOTE s) \<le> length s" for s by (simp add: REMOVE_QUOTE_def Let_def)
  have "list_all (\<lambda>d. length d < 2 ^ 32) [REMOVE_QUOTE user, [0x3A], REMOVE_QUOTE realm, [0x3A], passwd]"
    using assms le_less_trans [OF q] by simp
  from md5.hash_parts [OF assms(1) this] show ?thesis using assms(2) by (simp add: pj_stun_create_key_def calc_md5_key_def Let_def)
qed

theorem stun_long_term_key_witness:
  "pj_stun_create_key demo_md5 (Some [0x22, 0x72, 0x22]) [0x75] PJ_STUN_PASSWD_PLAIN [0x70] = md5_digest [0x75, 0x3A, 0x72, 0x3A, 0x70]"
  using stun_long_term_key [of demo_md5 "[0x22, 0x72, 0x22]" "[0x75]" "[0x70]"] by (simp add: demo_md5_def REMOVE_QUOTE_def)

text \<open>
  A short-term credential that asks for a nonce accepts no request at all: even a request that carries the right NONCE and a valid digest is
  refused with 401, because only the nonce of the credential is tested, not the presence of the attribute.
\<close>

theorem stun_auth_short_term_nonce:
  assumes "sc_realm c = []" "sc_nonce c \<noteq> []" "pj_stun_msg_find_attr msg PJ_STUN_ATTR_REALM 0 = None"
    and "pj_stun_authenticate_request md stk stricmp pkt msg (PJ_STUN_AUTH_CRED_STATIC c) want = Some (status, r, info)"
  shows "status \<noteq> PJ_SUCCESS"
proof (cases "pkt = []")
  case True
  then show ?thesis using assms(4) by (auto simp: pj_stun_authenticate_request_def)
next
  case False
  from assms(4) this show ?thesis
  proof (cases rule: authenticateE)
    case (checked realm nonce failure)
    then have rn: "realm = []" "nonce \<noteq> []" using assms(1,2) by (auto simp: cred_auth_def)
    from checked(2) have "failure \<noteq> None"
    proof (cases rule: auth_checksE)
      case (verified amsgi pos beyond user arealm anonce username key digest same)
      then show ?thesis using assms(3) rn by (simp add: string_value_def auth_policy_def)
    qed simp
    then show ?thesis using checked(3) by auto
  qed (simp add: cred_auth_def)
qed

theorem stun_auth_short_term_nonce_witness:
  "\<exists>status r info. pj_stun_authenticate_request demo_md5 demo_stk (=) demo_request demo_decoded (PJ_STUN_AUTH_CRED_STATIC (demo_cred\<lparr>sc_nonce := [0x6E]\<rparr>)) False =
      Some (status, r, info) \<and> status \<noteq> PJ_SUCCESS"
proof -
  obtain status r info where a: "pj_stun_authenticate_request demo_md5 demo_stk (=) demo_request demo_decoded (PJ_STUN_AUTH_CRED_STATIC (demo_cred\<lparr>sc_nonce := [0x6E]\<rparr>)) False =
      Some (status, r, info)"
    by (simp add: pj_stun_authenticate_request_def cred_auth_def auth_checks_def demo_decoded_def demo_request_def PJ_STUN_ATTR_MESSAGE_INTEGRITY_def)
  moreover have "pj_stun_msg_find_attr demo_decoded PJ_STUN_ATTR_REALM 0 = None"
    by (simp add: pj_stun_msg_find_attr_def demo_decoded_def PJ_STUN_ATTR_REALM_def)
  ultimately show ?thesis using stun_auth_short_term_nonce [OF _ _ _ a] by (simp add: demo_cred_def)
qed

end
