(* ===== verification/StunSessionProps.thy ===== *)
theory StunSessionProps
  imports StunSessionInv StunAuthProps
begin

text \<open>
  The reachable states of a STUN session and what holds in them: the application creates, edits, sends, cancels and destroys messages, packets arrive and timers expire,
  in any order and with any results of the callbacks.
\<close>

subsection \<open>Steps\<close>

text \<open>
  What the application has to respect: it sends or destroys an object once, and cancels a request only while it waits for its outcome.
\<close>

inductive sess_step :: "pj_stun_session \<Rightarrow> pj_stun_session \<Rightarrow> bool" where
  create_req: "pj_stun_session_create_req env sess mth magic tsx_id = Inr (i, sess') \<Longrightarrow> sess_step sess sess'"
| create_ind: "pj_stun_session_create_ind env sess msg_type = Inr (i, sess') \<Longrightarrow> sess_step sess sess'"
| create_res: "pj_stun_session_create_res sess rdata code msg = Some (Inr (i, sess')) \<Longrightarrow> sess_step sess sess'"
| edit: "unsent sess i \<Longrightarrow> ss_tdata sess i = Some td \<Longrightarrow> sess_step sess (put_tdata i (td\<lparr>td_msg := msg\<rparr>) sess)"
| send: "unsent sess i \<Longrightarrow> pj_stun_session_send_msg env sess token cache_res retransmit server i = Some (st, sess') \<Longrightarrow> sess_step sess sess'"
| destroy_tdata: "unsent sess i \<Longrightarrow> pj_stun_msg_destroy_tdata i sess = Some sess' \<Longrightarrow> sess_step sess sess'"
| respond: "pj_stun_session_respond env sess rdata code msg token cache dst = Some (st, sess') \<Longrightarrow> sess_step sess sess'"
| cancel_req: "ss_tdata sess i = Some td \<Longrightarrow> td_client_tsx td = Some tsx \<Longrightarrow> will_report tsx \<Longrightarrow>
    pj_stun_session_cancel_req sess i notify nst = Some (st, sess') \<Longrightarrow> sess_step sess sess'"
| retransmit_req: "pj_stun_session_retransmit_req env sess i mod_count = Some (st, sess') \<Longrightarrow> sess_step sess sess'"
| rx_pkt: "pj_stun_session_on_rx_pkt env sess pkt options token src = Some (st, n, sess') \<Longrightarrow> sess_step sess sess'"
| retransmit_timer: "on_retransmit_timer env i sess = Some sess' \<Longrightarrow> sess_step sess sess'"
| destroy_timer: "on_destroy_timer i sess = Some sess' \<Longrightarrow> sess_step sess sess'"
| res_timer: "ss_tdata sess i = Some td \<Longrightarrow> tm_delay (td_res_timer td) \<noteq> None \<Longrightarrow> on_res_timer i sess = Some sess' \<Longrightarrow> sess_step sess sess'"
| destroy: "pj_stun_session_destroy sess = Some (st, sess') \<Longrightarrow> sess_step sess sess'"
| set_user_data: "sess_step sess (snd (pj_stun_session_set_user_data sess data))"
| set_software_name: "sess_step sess (snd (pj_stun_session_set_software_name sess sw))"
| set_credential: "sess_step sess (snd (pj_stun_session_set_credential sess auth_type cred))"
| set_log: "sess_step sess (pj_stun_session_set_log sess flags)"
| use_fingerprint: "sess_step sess (snd (pj_stun_session_use_fingerprint sess use))"

inductive sess_reachable :: "pj_stun_session \<Rightarrow> bool" where
  init: "sess_reachable (pj_stun_session_create rto res_cache software_name on_rx_request on_request_complete on_rx_indication fingerprint)"
| step: "sess_reachable sess \<Longrightarrow> sess_step sess sess' \<Longrightarrow> sess_reachable sess'"

lemma step_sess_inv: "sess_step sess sess' \<Longrightarrow> sess_inv sess \<Longrightarrow> sess_inv sess'"
proof (induction rule: sess_step.induct)
  case (edit sess i td msg)
  have "td_client_tsx td = None" using edit by (auto simp: unsent_def)
  then show ?case using unsent_put(1) [OF edit(3,1,2)] by simp
next
  case (destroy_tdata sess i sess')
  then show ?case using destroy_tdata_inv [of sess i _ False] by (auto simp: unsent_def pj_stun_msg_destroy_tdata_def achieves_def)
next
  case (set_credential sess auth_type cred)
  then show ?case by (cases cred) (simp_all add: pj_stun_session_set_credential_def)
next
  case (res_timer sess i td sess')
  then show ?case using res_timer_inv [of sess i td] by auto
next
  case (destroy sess st sess')
  then show ?case using sess_destroy_inv [of sess] by auto
next
  case (create_req env sess mth magic tsx_id i sess')
  then show ?case using create_req_inv(1) by blast
next
  case (create_ind env sess msg_type i sess')
  then show ?case using create_ind_inv(1) by blast
next
  case (create_res sess rdata code msg i sess')
  then show ?case using create_res_inv(1) by blast
next
  case (send sess i env token cache_res retransmit server st sess')
  then show ?case using send_msg_inv by blast
next
  case (respond env sess rdata code msg token cache dst st sess')
  then show ?case using respond_inv by blast
next
  case (cancel_req sess i td tsx notify nst st sess')
  then show ?case using cancel_req_inv by blast
next
  case (retransmit_req env sess i mod_count st sess')
  then show ?case using retransmit_req_inv by blast
next
  case (rx_pkt env sess pkt options token src st n sess')
  then show ?case using rx_pkt_inv by blast
next
  case (retransmit_timer env i sess sess')
  then show ?case using retransmit_timer_inv by blast
next
  case (destroy_timer i sess sess')
  then show ?case using destroy_timer_inv by blast
qed (simp_all add: pj_stun_session_set_user_data_def pj_stun_session_set_software_name_def pj_stun_session_set_log_def pj_stun_session_use_fingerprint_def)

lemma reachable_sess_inv: "sess_reachable sess \<Longrightarrow> sess_inv sess"
proof (induction rule: sess_reachable.induct)
  case init
  show ?case by (simp add: pj_stun_session_create_def pj_stun_session_set_software_name_def sess_inv_def reported_def)
qed (use step_sess_inv in blast)

subsection \<open>A session at work\<close>

definition demo_sess_env :: sess_env where
  "demo_sess_env = \<lparr>ev_send = PJ_SUCCESS, ev_rx = PJ_SUCCESS, ev_tsx_id = [1, 2, 3, 4, 5, 6, 7, 8, 9, 10, 11, 12], ev_buf = replicate 800 0, ev_pad = 0, ev_stk = demo_stk, ev_md5 = demo_md5,
     ev_stricmp = (=), ev_strerror = (\<lambda>_. [])\<rparr>"

definition demo_server :: pj_sockaddr where
  "demo_server = \<lparr>sa_family = PJ_AF_INET, sa_port = 3478, sa_addr = [10, 0, 0, 1]\<rparr>"

text \<open>A session that sent one request.\<close>

definition demo_created :: "nat \<times> pj_stun_session" where
  "demo_created = (case pj_stun_session_create_req demo_sess_env (pj_stun_session_create 100 10000 [] True True True False) 1 PJ_STUN_MAGIC None of Inr r \<Rightarrow> r)"

definition demo_pending :: pj_stun_session where
  "demo_pending = (case pj_stun_session_send_msg demo_sess_env (snd demo_created) 7 False True demo_server 0 of Some (_, s) \<Rightarrow> s)"

lemma demo_sent:
  "case pj_stun_session_create_req demo_sess_env (pj_stun_session_create 100 10000 [] True True True False) 1 PJ_STUN_MAGIC None of
     Inl _ \<Rightarrow> False
   | Inr (i, s) \<Rightarrow> i = 0 \<and> (case ss_tdata s 0 of Some td \<Rightarrow> td_client_tsx td = None | None \<Rightarrow> False) \<and> ss_cached_response_list s = [] \<and>
      (case pj_stun_session_send_msg demo_sess_env s 7 False True demo_server 0 of None \<Rightarrow> False
       | Some (st, s') \<Rightarrow> st = PJ_SUCCESS \<and> ss_pending_request_list s' = [0] \<and> ss_out s' = [Sess_send_msg 7 ([0, 1, 0, 0, 0x21, 0x12, 0xA4, 0x42] @ [1, 2, 3, 4, 5, 6, 7, 8, 9, 10, 11, 12]) demo_server])"
  by code_simp

lemma demo_pending:
  "sess_reachable demo_pending" "ss_pending_request_list demo_pending = [0]"
  "ss_out demo_pending = [Sess_send_msg 7 ([0, 1, 0, 0, 0x21, 0x12, 0xA4, 0x42] @ [1, 2, 3, 4, 5, 6, 7, 8, 9, 10, 11, 12]) demo_server]"
proof -
  define s0 where "s0 = pj_stun_session_create 100 10000 [] True True True False"
  obtain s where s: "pj_stun_session_create_req demo_sess_env s0 1 PJ_STUN_MAGIC None = Inr (0, s)" "unsent s 0"
    using demo_sent [folded s0_def] by (fastforce simp: unsent_def split: sum.splits option.splits)
  then obtain s' where s': "pj_stun_session_send_msg demo_sess_env s 7 False True demo_server 0 = Some (PJ_SUCCESS, s')" "ss_pending_request_list s' = [0]"
      "ss_out s' = [Sess_send_msg 7 ([0, 1, 0, 0, 0x21, 0x12, 0xA4, 0x42] @ [1, 2, 3, 4, 5, 6, 7, 8, 9, 10, 11, 12]) demo_server]"
    using demo_sent [folded s0_def] by (auto split: option.splits)
  have "sess_reachable s0" unfolding s0_def by (rule sess_reachable.init)
  then have "sess_reachable s" using sess_step.create_req [OF s(1)] by (rule sess_reachable.step)
  then have "sess_reachable s'" using sess_step.send [OF s(2) s'(1)] by (rule sess_reachable.step)
  moreover have "demo_pending = s'" using s s'(1) by (simp add: demo_pending_def demo_created_def s0_def)
  ultimately show "sess_reachable demo_pending" "ss_pending_request_list demo_pending = [0]"
    "ss_out demo_pending = [Sess_send_msg 7 ([0, 1, 0, 0, 0x21, 0x12, 0xA4, 0x42] @ [1, 2, 3, 4, 5, 6, 7, 8, 9, 10, 11, 12]) demo_server]" using s' by simp_all
qed

subsection \<open>Properties\<close>

lemma lookup_total:
  assumes "\<forall>i \<in> set is. store i \<noteq> None"
  shows "tsx_lookup_from store msg is \<noteq> None" "cached_lookup store msg is \<noteq> None"
  using assms by (induction "is") (auto split: Option.bind_splits)

text \<open>
  C30. Memory safety of the STUN session. In every reachable state no released object was still in a list or had a timer in the heap, the lists hold distinct live objects and have none in common,
  the lookups of responses and of cached answers meet only live objects, and the final destruction releases what the lists hold and leaves them empty, again with no timer left behind.
\<close>

theorem stun_session_memory_safe:
  assumes "sess_reachable sess"
  shows "\<not> ss_dangling sess \<and> distinct (ss_pending_request_list sess @ ss_cached_response_list sess) \<and>
    (\<forall>i \<in> set (ss_pending_request_list sess) \<union> set (ss_cached_response_list sess). ss_tdata sess i \<noteq> None) \<and>
    tsx_lookup sess msg \<noteq> None \<and> cached_lookup (ss_tdata sess) msg (ss_cached_response_list sess) \<noteq> None \<and>
    (\<exists>sess'. stun_sess_on_destroy sess = Some sess' \<and> \<not> ss_dangling sess' \<and> ss_pending_request_list sess' = [] \<and> ss_cached_response_list sess' = [])"
proof -
  have inv: "sess_inv sess" by (rule reachable_sess_inv [OF assms])
  then have live: "\<forall>i \<in> set (ss_pending_request_list sess) \<union> set (ss_cached_response_list sess). ss_tdata sess i \<noteq> None" by (simp add: sess_inv_def)
  have "i \<notin> set (ss_cached_response_list sess)" if i: "i \<in> set (ss_pending_request_list sess)" for i
  proof -
    obtain td where "ss_tdata sess i = Some td" using live i by auto
    then show ?thesis using sess_inv_ok [OF inv] i by (fastforce simp: tdata_defs split: option.splits)
  qed
  then have "distinct (ss_pending_request_list sess @ ss_cached_response_list sess)" using inv by (auto simp: sess_inv_def)
  moreover have "tsx_lookup sess msg \<noteq> None" "cached_lookup (ss_tdata sess) msg (ss_cached_response_list sess) \<noteq> None"
    unfolding tsx_lookup_def using live by (intro lookup_total; simp)+
  ultimately show ?thesis using inv live on_sess_destroy_inv [OF inv] unfolding sess_inv_def by blast
qed

theorem stun_session_memory_safe_witness:
  "\<not> ss_dangling demo_pending \<and> ss_tdata demo_pending 0 \<noteq> None"
  using stun_session_memory_safe [OF demo_pending(1)] demo_pending(2) by simp

text \<open>
  C32. In every reachable state the application was told the outcome of a request at most once, and not yet of a pending one whose transaction still has to report: neither late responses nor
  timers that expire after the completion, after a cancellation or during the destruction lead to a second report.
\<close>

theorem stun_session_reports_once:
  assumes "sess_reachable sess"
  shows "length (filter (\<lambda>a. case a of Sess_request_complete _ _ j _ \<Rightarrow> j = i | _ \<Rightarrow> False) (ss_out sess)) \<le> 1 \<and>
    (\<forall>td tsx. ss_tdata sess i = Some td \<longrightarrow> td_client_tsx td = Some tsx \<longrightarrow> \<not> complete tsx \<longrightarrow> has_on_complete tsx \<longrightarrow>
      (\<forall>st t m. Sess_request_complete st t i m \<notin> set (ss_out sess)))"
proof -
  have inv: "sess_inv sess" by (rule reachable_sess_inv [OF assms])
  have "reported sess i \<le> 1" using inv by (simp add: sess_inv_def)
  moreover have "Sess_request_complete st t i m \<notin> set (ss_out sess)"
    if "ss_tdata sess i = Some td" "td_client_tsx td = Some tsx" "\<not> complete tsx" "has_on_complete tsx" for td tsx st t m
  proof -
    have "reported sess i = 0" using sess_inv_ok [OF inv that(1)] that(2-4) by (simp add: tdata_ok_def will_report_def)
    then have "filter (\<lambda>a. case a of Sess_request_complete _ _ j _ \<Rightarrow> j = i | _ \<Rightarrow> False) (ss_out sess) = []" by (simp add: reported_def)
    then show ?thesis by (auto simp: filter_empty_conv)
  qed
  ultimately show ?thesis unfolding reported_def by blast
qed

theorem stun_session_reports_once_witness:
  "length (filter (\<lambda>a. case a of Sess_request_complete _ _ j _ \<Rightarrow> j = 0 | _ \<Rightarrow> False) (ss_out demo_pending)) \<le> 1 \<and> length (ss_out demo_pending) = 1"
  using stun_session_reports_once [OF demo_pending(1), of 0] demo_pending(3) by simp

text \<open>
  C33. The cache of responses never answers a request: the search compares the type of the cached response with the type of the request, and these differ in every reachable state. A
  retransmitted request is therefore handled again from the start.
\<close>

theorem stun_session_cache_unused:
  assumes "sess_reachable sess" "STUN_IS_REQUEST (mh_type (msg_hdr msg))"
  shows "check_cached_response env sess msg src_addr = Some (PJ_ENOTFOUND, sess)"
proof -
  have inv: "sess_inv sess" by (rule reachable_sess_inv [OF assms(1)])
  have "cached_lookup (ss_tdata sess) msg is = Some None" if "set is \<subseteq> set (ss_cached_response_list sess)" for "is"
    using that
  proof (induction "is")
    case (Cons i "is")
    then have "ss_tdata sess i \<noteq> None" using inv unfolding sess_inv_def by auto
    then obtain td where td: "ss_tdata sess i = Some td" by auto
    then have "STUN_IS_RESPONSE (mh_type (msg_hdr (td_msg td)))" using sess_inv_ok [OF inv td] Cons.prems by (auto simp: tdata_defs split: option.splits)
    then have "mh_type (msg_hdr (td_msg td)) \<noteq> mh_type (msg_hdr msg)" using response_types(3) [OF assms(2)] by auto
    then show ?case using td Cons by simp
  qed simp
  then show ?thesis by (simp add: check_cached_response_def)
qed

theorem stun_session_cache_unused_witness:
  "check_cached_response demo_sess_env demo_pending demo_msg demo_server = Some (PJ_ENOTFOUND, demo_pending)"
  by (rule stun_session_cache_unused [OF demo_pending(1)]) (simp add: demo_msg_def STUN_IS_REQUEST_def)

subsection \<open>Requests that are lost\<close>

lemma scan_rest_last:
  assumes "scan_rest attrs i a f = Inr r" "k < length attrs" "at_type (attrs ! k) = PJ_STUN_ATTR_FINGERPRINT" "i \<le> k \<or> f \<noteq> None \<and> i = Suc k"
  shows "Suc k = length attrs"
  using assms
proof (induction attrs i a f rule: scan_rest.induct)
  case (1 attrs i a f)
  show ?case
  proof (cases "i < length attrs")
    case True
    then have f: "f = None" "i \<le> k" using 1(4,7) scan_rest.simps [of attrs i a f] by (cases f; auto)+
    show ?thesis
    proof (cases "i = k")
      case True
      then have "at_type (attrs ! i) = PJ_STUN_ATTR_FINGERPRINT" using 1(6) by simp
      moreover have "PJ_STUN_ATTR_FINGERPRINT \<noteq> PJ_STUN_ATTR_MESSAGE_INTEGRITY" by (simp add: PJ_STUN_ATTR_FINGERPRINT_def PJ_STUN_ATTR_MESSAGE_INTEGRITY_def)
      ultimately have "scan_rest attrs (i + 1) a (Some i) = Inr r" using 1(4) f \<open>i < length attrs\<close> scan_rest.simps [of attrs i a f] by simp
      then have "\<not> i + 1 < length attrs" using scan_rest.simps [of attrs "i + 1" a "Some i"] by (auto split: if_splits)
      then show ?thesis using True 1(5) by simp
    next
      case False
      then have k: "i + 1 \<le> k" using f by simp
      show ?thesis using 1 f \<open>i < length attrs\<close> k scan_rest.simps [of attrs i a f] by (auto split: if_splits)
    qed
  next
    case False
    then show ?thesis using 1(5,7) by auto
  qed
qed

lemma encode_attrs_rest:
  assumes "encode_attrs pad hdr buf pos sz as = Some (Inr (buf', pos', sz', rest))"
  shows "\<exists>xs. as = xs @ rest \<and> (\<forall>x \<in> set xs. at_type x \<noteq> PJ_STUN_ATTR_FINGERPRINT) \<and>
    (rest \<noteq> [] \<longrightarrow> at_type (hd rest) = PJ_STUN_ATTR_MESSAGE_INTEGRITY \<or> at_type (hd rest) = PJ_STUN_ATTR_FINGERPRINT)"
  using assms
proof (induction "as" arbitrary: buf pos sz)
  case (Cons a as)
  show ?case
  proof (cases "at_type a = PJ_STUN_ATTR_MESSAGE_INTEGRITY \<or> at_type a = PJ_STUN_ATTR_FINGERPRINT")
    case True
    then show ?thesis using Cons.prems by auto
  next
    case False
    then obtain b p z where "encode_attrs pad hdr b p z as = Some (Inr (buf', pos', sz', rest))"
      using Cons.prems by (auto split: Option.bind_splits sum.splits prod.splits)
    then obtain xs where "as = xs @ rest" "\<forall>x \<in> set xs. at_type x \<noteq> PJ_STUN_ATTR_FINGERPRINT"
        "rest \<noteq> [] \<longrightarrow> at_type (hd rest) = PJ_STUN_ATTR_MESSAGE_INTEGRITY \<or> at_type (hd rest) = PJ_STUN_ATTR_FINGERPRINT"
      using Cons.IH by blast
    then show ?thesis using False by (intro exI [of _ "a # xs"]) auto
  qed
qed simp

text \<open>The encoder accepts FINGERPRINT only as the last attribute.\<close>

lemma encode_fingerprint_last:
  assumes enc: "pj_stun_msg_encode pad stk msg buf opt key = Some (Inr r)" and attrs: "msg_attrs msg = xs @ a # ys" "at_type a = PJ_STUN_ATTR_FINGERPRINT"
  shows "ys = []"
proof -
  obtain hbuf b p z rest where e: "encode_attrs pad (msg_hdr msg) hbuf 20 (of_nat (length hbuf) - 20) (msg_attrs msg) = Some (Inr (b, p, z, rest))"
    and sc: "\<exists>q. scan_rest (msg_attrs msg) (length (msg_attrs msg) - length rest + 1)
        (if rest \<noteq> [] \<and> at_type (hd rest) = PJ_STUN_ATTR_MESSAGE_INTEGRITY then Some (length (msg_attrs msg) - length rest) else None)
        (if rest \<noteq> [] \<and> (if rest \<noteq> [] \<and> at_type (hd rest) = PJ_STUN_ATTR_MESSAGE_INTEGRITY then Some (length (msg_attrs msg) - length rest) else None) = None
         then Some (length (msg_attrs msg) - length rest) else None) = Inr q"
    using enc unfolding pj_stun_msg_encode_def Let_def by (auto split: if_splits Option.bind_splits sum.splits prod.splits)
  obtain us where us: "msg_attrs msg = us @ rest" "\<forall>x \<in> set us. at_type x \<noteq> PJ_STUN_ATTR_FINGERPRINT"
      "rest \<noteq> [] \<longrightarrow> at_type (hd rest) = PJ_STUN_ATTR_MESSAGE_INTEGRITY \<or> at_type (hd rest) = PJ_STUN_ATTR_FINGERPRINT"
    using encode_attrs_rest [OF e] by blast
  let ?k = "length xs"
  have k: "?k < length (msg_attrs msg)" "at_type (msg_attrs msg ! ?k) = PJ_STUN_ATTR_FINGERPRINT" using attrs by simp_all
  have "\<not> ?k < length us"
  proof
    assume "?k < length us"
    then have "msg_attrs msg ! ?k \<in> set us" using us(1) by (simp add: nth_append)
    then show False using us(2) k(2) by blast
  qed
  then have ik: "length us \<le> ?k" by simp
  then have r: "rest \<noteq> []" using us(1) k(1) by auto
  have ne: "PJ_STUN_ATTR_FINGERPRINT \<noteq> PJ_STUN_ATTR_MESSAGE_INTEGRITY" by (simp add: PJ_STUN_ATTR_FINGERPRINT_def PJ_STUN_ATTR_MESSAGE_INTEGRITY_def)
  have hd: "hd rest = msg_attrs msg ! length us" using us(1) r by (simp add: nth_append hd_conv_nth)
  have "Suc ?k = length (msg_attrs msg)"
  proof (cases "at_type (hd rest) = PJ_STUN_ATTR_MESSAGE_INTEGRITY")
    case True
    then have "length us \<noteq> ?k" using hd k(2) ne by auto
    then show ?thesis using sc True r us(1) ik scan_rest_last [OF _ k] by fastforce
  next
    case False
    then obtain q where "scan_rest (msg_attrs msg) (length us + 1) None (Some (length us)) = Inr q" using sc r us(1) by auto
    then have "\<not> length us + 1 < length (msg_attrs msg)" using scan_rest.simps [of "msg_attrs msg" "length us + 1" None "Some (length us)"] by auto
    then show ?thesis using ik k(1) by simp
  qed
  then show ?thesis using attrs(1) by simp
qed

text \<open>The options of the session are appended to the message, FINGERPRINT last.\<close>

definition extends :: "pj_stun_msg \<Rightarrow> pj_stun_msg \<Rightarrow> bool" where
  "extends msg msg' \<longleftrightarrow> msg_hdr msg' = msg_hdr msg \<and> (\<exists>ys. msg_attrs msg' = msg_attrs msg @ ys)"

lemma extends_trans: "extends a b \<Longrightarrow> extends b c \<Longrightarrow> extends a c"
  by (auto simp: extends_def)

lemma extends_refl [simp]: "extends a a"
  by (simp add: extends_def)

lemma add_created_extends: "add_created msg r = Inr msg' \<Longrightarrow> extends msg msg' \<and> msg_attrs msg' \<noteq> msg_attrs msg"
  by (auto simp: add_created_def pj_stun_msg_add_attr_def extends_def split: sum.splits if_splits)

lemma add_if_extends:
  "extends msg (snd (add_if c (\<lambda>m. pj_stun_msg_add_string_attr m t v) msg))"
  "extends msg (snd (add_if c pj_stun_msg_add_msgint_attr msg))"
  "extends msg (snd (add_if c (\<lambda>m. pj_stun_msg_add_uint_attr m t u) msg))"
  by (auto simp: add_if_def pj_stun_msg_add_string_attr_def pj_stun_msg_add_msgint_attr_def pj_stun_msg_add_uint_attr_def split: sum.splits dest: add_created_extends)

lemma add_if_fingerprint:
  assumes "add_if c (\<lambda>m. pj_stun_msg_add_uint_attr m t u) msg = (PJ_SUCCESS, msg')" "c"
  shows "msg_attrs msg' \<noteq> msg_attrs msg"
proof -
  have "\<And>st. add_created msg (pj_stun_uint_attr_create t u) = Inl st \<Longrightarrow> st \<noteq> PJ_SUCCESS"
    by (auto simp: add_created_def pj_stun_msg_add_attr_def pj_stun_uint_attr_create_def split: if_splits)
  then show ?thesis using assms by (auto simp: add_if_def pj_stun_msg_add_uint_attr_def split: sum.splits dest: add_created_extends)
qed

lemma apply_msg_options_extends:
  assumes "apply_msg_options sess info msg = Some (st, msg')"
  shows "extends msg msg'" "ss_use_fingerprint sess \<Longrightarrow> st = PJ_SUCCESS \<Longrightarrow> msg_attrs msg' \<noteq> msg_attrs msg"
proof -
  have "extends msg msg' \<and> (ss_use_fingerprint sess \<longrightarrow> st = PJ_SUCCESS \<longrightarrow> msg_attrs msg' \<noteq> msg_attrs msg)"
  proof -
    define t where "t = mh_type (msg_hdr msg)"
    define m0 where "m0 = snd (add_if (ss_srv_name sess \<noteq> [] \<and> pj_stun_msg_find_attr msg PJ_STUN_ATTR_SOFTWARE 0 = None \<and>
         (STUN_IS_RESPONSE t \<or> STUN_IS_REQUEST t \<and> mh_magic (msg_hdr msg) = PJ_STUN_MAGIC)) (\<lambda>m. pj_stun_msg_add_string_attr m PJ_STUN_ATTR_SOFTWARE (ss_srv_name sess)) msg)"
    have e0: "extends msg m0" unfolding m0_def by (rule add_if_extends)
    obtain valid where v: "pj_stun_auth_valid_for_msg m0 = Some valid"
      using assms unfolding apply_msg_options_def Let_def m0_def t_def by (auto split: Option.bind_splits)
    define ci where "ci = (case info of Some info \<Rightarrow> if valid then info else no_info | None \<Rightarrow> no_info)"
    obtain s1 m1 where m1: "add_if (ci_username ci \<noteq> [] \<and> STUN_IS_REQUEST t) (\<lambda>m. pj_stun_msg_add_string_attr m PJ_STUN_ATTR_USERNAME (ci_username ci)) m0 = (s1, m1)" by fastforce
    obtain s2 m2 where m2: "add_if (ci_realm ci \<noteq> [] \<and> STUN_IS_REQUEST t) (\<lambda>m. pj_stun_msg_add_string_attr m PJ_STUN_ATTR_REALM (ci_realm ci)) m1 = (s2, m2)" by fastforce
    define m3 where "m3 = snd (add_if (ci_nonce ci \<noteq> [] \<and> (STUN_IS_REQUEST t \<or> STUN_IS_ERROR_RESPONSE t)) (\<lambda>m. pj_stun_msg_add_string_attr m PJ_STUN_ATTR_NONCE (ci_nonce ci)) m2)"
    obtain s4 m4 where m4: "add_if (ci_username ci \<noteq> [] \<and> ci_auth_key ci \<noteq> []) pj_stun_msg_add_msgint_attr m3 = (s4, m4)" by fastforce
    obtain s5 m5 where m5: "add_if (ss_use_fingerprint sess) (\<lambda>m. pj_stun_msg_add_uint_attr m PJ_STUN_ATTR_FINGERPRINT 0) m4 = (s5, m5)" by fastforce
    have e1: "extends msg m1" using extends_trans [OF e0] add_if_extends(1) m1 by (metis snd_conv)
    have e2: "extends msg m2" using extends_trans [OF e1] add_if_extends(1) m2 by (metis snd_conv)
    have e3: "extends msg m3" using extends_trans [OF e2] add_if_extends(1) unfolding m3_def by blast
    have e4: "extends msg m4" using extends_trans [OF e3] add_if_extends(2) m4 by (metis snd_conv)
    have e5: "extends m4 m5" using add_if_extends(3) m5 by (metis snd_conv)
    have eq: "(st, msg') = (if s1 \<noteq> PJ_SUCCESS then (s1, m1) else if s2 \<noteq> PJ_SUCCESS then (s2, m2) else if s4 \<noteq> PJ_SUCCESS then (s4, m4) else (s5, m5))"
      using assms unfolding apply_msg_options_def Let_def t_def [symmetric] m0_def [symmetric] v Option.bind.simps ci_def [symmetric] m1 prod.case m2 m3_def [symmetric] m4 m5
      by (auto split: if_splits)
    have new: "ss_use_fingerprint sess \<longrightarrow> s5 = PJ_SUCCESS \<longrightarrow> msg_attrs m5 \<noteq> msg_attrs msg"
      using add_if_fingerprint [of _ PJ_STUN_ATTR_FINGERPRINT 0 m4 m5] m5 e4 e5 by (auto simp: extends_def)
    show ?thesis using eq e1 e2 e4 extends_trans [OF e4 e5] new by (auto split: if_splits)
  qed
  then show "extends msg msg'" "ss_use_fingerprint sess \<Longrightarrow> st = PJ_SUCCESS \<Longrightarrow> msg_attrs msg' \<noteq> msg_attrs msg" by blast+
qed

lemma destroy_tdata_out:
  assumes "destroy_tdata i force sess = Some sess'"
  shows "ss_out sess' = ss_out sess"
  using assms by (auto simp: destroy_tdata_def pool_release_def list_erase_def put_tdata_def Let_def split: Option.bind_splits if_splits option.splits)

lemma send_failed_out: "send_failed i st sess = Some (st', sess') \<Longrightarrow> ss_out sess' = ss_out sess"
  by (auto simp: send_failed_def pj_stun_msg_destroy_tdata_def split: Option.bind_splits dest: destroy_tdata_out)

lemma send_msg_refused:
  assumes td: "ss_tdata sess i = Some td" "PJ_STUN_ATTR_FINGERPRINT \<in> at_type ` set (msg_attrs (td_msg td))" and fp: "ss_use_fingerprint sess"
    and res: "pj_stun_session_send_msg env sess token cache re server i = Some (st, sess')"
  shows "ss_out sess' = ss_out sess"
proof (cases "ss_is_destroying sess")
  case False
  let ?td = "td\<lparr>td_token := token, td_retransmit := re\<rparr>"
  obtain st0 m where m: "apply_msg_options sess (Some (td_auth_info td)) (td_msg td) = Some (st0, m)"
    using res td(1) False by (auto simp: pj_stun_session_send_msg_def Let_def split: Option.bind_splits prod.splits)
  have no: "\<not> (\<exists>r. pj_stun_msg_encode (ev_pad env) (ev_stk env) m buf 0 key = Some (Inr r))" if ok: "st0 = PJ_SUCCESS" for buf key
  proof
    assume "\<exists>r. pj_stun_msg_encode (ev_pad env) (ev_stk env) m buf 0 key = Some (Inr r)"
    then obtain r where r: "pj_stun_msg_encode (ev_pad env) (ev_stk env) m buf 0 key = Some (Inr r)" by blast
    obtain ys where ys: "msg_attrs m = msg_attrs (td_msg td) @ ys" "ys \<noteq> []"
      using apply_msg_options_extends [OF m] fp ok by (auto simp: extends_def)
    obtain xs a zs where "msg_attrs (td_msg td) = xs @ a # zs" "at_type a = PJ_STUN_ATTR_FINGERPRINT" using td(2) by (auto dest!: split_list)
    then show False using encode_fingerprint_last [OF r, of xs a "zs @ ys"] ys by simp
  qed
  obtain s where "send_failed i st s = Some (st, sess') \<and> ss_out s = ss_out sess"
  proof (cases "st0 = PJ_SUCCESS")
    case True
    then show thesis using res td(1) False m no that
      by (fastforce simp: pj_stun_session_send_msg_def Let_def send_failed_def split: Option.bind_splits sum.splits if_splits)
  next
    case False
    then show thesis using res td(1) \<open>\<not> ss_is_destroying sess\<close> m that
      by (fastforce simp: pj_stun_session_send_msg_def Let_def send_failed_def split: Option.bind_splits)
  qed
  then show ?thesis using send_failed_out by auto
qed (use res in \<open>simp add: pj_stun_session_send_msg_def\<close>)

lemma clone_same: "pj_stun_attr_clone a = Some b \<Longrightarrow> b = a"
  by (auto simp: pj_stun_attr_clone_def split: option.splits attr_body.splits if_splits)

lemma those_clone: "those (map pj_stun_attr_clone as) = Some bs \<Longrightarrow> bs = as"
  by (induction "as" arbitrary: bs) (auto dest: clone_same split: option.splits)

lemma retry_refused:
  assumes fp: "PJ_STUN_ATTR_FINGERPRINT \<in> at_type ` set (msg_attrs (td_msg req))" "ss_use_fingerprint sess"
    and create: "pj_stun_session_create_req env sess (mh_type (msg_hdr (td_msg req))) (mh_magic (msg_hdr (td_msg req))) None = Inr (i, s)"
    and res: "retry_request env req src sess = Some (n, sess')"
  shows "\<not> n \<and> ss_out sess' = ss_out sess"
proof -
  let ?P = "\<lambda>a. at_type a \<notin> {PJ_STUN_ATTR_USERNAME, PJ_STUN_ATTR_REALM, PJ_STUN_ATTR_MESSAGE_INTEGRITY, PJ_STUN_ATTR_NONCE}"
  have s: "ss_out s = ss_out sess" "ss_use_fingerprint s = ss_use_fingerprint sess"
    using create_req_tdata [OF create] by (auto simp: create_tdata_def put_tdata_def)
  obtain tj bs st where tj: "ss_tdata s i = Some tj" "those (map pj_stun_attr_clone (filter ?P (msg_attrs (td_msg req)))) = Some bs" "\<not> n"
    and send: "pj_stun_session_send_msg env (put_tdata i (tj\<lparr>td_msg := (td_msg tj)\<lparr>msg_attrs := msg_attrs (td_msg tj) @ bs\<rparr>\<rparr>) s) (td_token req) True (td_retransmit req) src i = Some (st, sess')"
    using res create by (auto simp: retry_request_def Let_def split: Option.bind_splits prod.splits)
  have "PJ_STUN_ATTR_FINGERPRINT \<in> at_type ` set bs"
    using fp(1) those_clone [OF tj(2)]
    by (auto simp: PJ_STUN_ATTR_FINGERPRINT_def PJ_STUN_ATTR_USERNAME_def PJ_STUN_ATTR_REALM_def PJ_STUN_ATTR_MESSAGE_INTEGRITY_def PJ_STUN_ATTR_NONCE_def)
  then have "ss_out sess' = ss_out (put_tdata i (tj\<lparr>td_msg := (td_msg tj)\<lparr>msg_attrs := msg_attrs (td_msg tj) @ bs\<rparr>\<rparr>) s)"
    by (intro send_msg_refused [OF _ _ _ send]) (use s fp(2) in \<open>auto simp: put_tdata_def\<close>)
  then show ?thesis using tj(3) s(1) by simp
qed

text \<open>
  C34. A request that used FINGERPRINT is lost when the server challenges it: the retry copies the FINGERPRINT of the first request and adds its own attributes behind it, which the encoder
  refuses. For every challenge that makes a session with long-term credentials retry, nothing is sent and the application is not told.
\<close>

theorem stun_session_retry_lost:
  assumes "ss_tdata sess i = Some request" "\<not> ss_is_destroying sess" "ss_use_fingerprint sess" "PJ_STUN_ATTR_FINGERPRINT \<in> at_type ` set (msg_attrs (td_msg request))"
    and "mh_type (msg_hdr (td_msg request)) \<noteq> 0" "ss_auth_type sess = PJ_STUN_AUTH_LONG_TERM" "ss_cred sess = PJ_STUN_AUTH_CRED_STATIC c" "ss_auth_retry sess < 3"
    and "STUN_IS_ERROR_RESPONSE (mh_type (msg_hdr response))" "pj_stun_msg_find_attr response PJ_STUN_ATTR_ERROR_CODE 0 = Some ea" "at_body ea = Errcode_body code reason"
    and "code = PJ_STUN_SC_UNAUTHORIZED \<or> code = PJ_STUN_SC_STALE_NONCE"
    and "string_value (pj_stun_msg_find_attr response PJ_STUN_ATTR_NONCE 0) = Some (Some nonce)" "nonce \<noteq> ss_next_nonce sess"
    and "stun_tsx_on_complete env i st (Some response) src_addr sess = Some sess'"
  shows "ss_out sess' = ss_out sess"
proof -
  obtain n s where h: "handle_auth_challenge env request (Some response) src_addr sess = Some (n, s)"
    and d: "destroy_tdata i (st = PJNATH_ESTUNTIMEDOUT) (if n \<and> cb_on_request_complete s then sess_emit (Sess_request_complete st (td_token request) i (Some response)) s else s) = Some sess'"
    using assms(1,2,15) by (auto simp: stun_tsx_on_complete_def Let_def split: Option.bind_splits prod.splits)
  obtain realm where r: "retry_request env request src_addr (sess\<lparr>ss_auth_retry := ss_auth_retry sess + 1, ss_next_nonce := nonce, ss_server_realm := realm\<rparr>) = Some (n, s)"
  proof -
    note found = that
    have thesis if r: "retry_request env request src_addr (sess\<lparr>ss_auth_retry := ss_auth_retry sess + 1, ss_next_nonce := nonce\<rparr>) = Some (n, s)"
      by (rule found [of "ss_server_realm sess"]) (simp add: r)
    then show thesis using h assms(6,8,9-14) that by (auto simp: handle_auth_challenge_def Let_def split: Option.bind_splits option.splits)
  qed
  let ?s = "sess\<lparr>ss_auth_retry := ss_auth_retry sess + 1, ss_next_nonce := nonce, ss_server_realm := realm\<rparr>"
  have "\<exists>j s'. pj_stun_session_create_req env ?s (mh_type (msg_hdr (td_msg request))) (mh_magic (msg_hdr (td_msg request))) None = Inr (j, s')"
    using assms(2,5,6,7) by (auto simp: pj_stun_session_create_req_def get_auth_info_def Let_def create_tdata_def pj_stun_msg_create_def pj_stun_msg_init_def split: sum.splits)
  then have "\<not> n \<and> ss_out s = ss_out ?s" using retry_refused [OF assms(4) _ _ r] assms(3) by auto
  then show ?thesis using destroy_tdata_out [OF d] by simp
qed

definition demo_long_term :: pj_stun_session where
  "demo_long_term = snd (pj_stun_session_set_credential (pj_stun_session_create 100 10000 [] True True True True) PJ_STUN_AUTH_LONG_TERM
     (Some (PJ_STUN_AUTH_CRED_STATIC \<lparr>sc_realm = [], sc_username = [0x61], sc_data_type = PJ_STUN_PASSWD_HASHED, sc_data = [1, 2, 3], sc_nonce = []\<rparr>)))"

definition demo_challenged :: pj_stun_session where
  "demo_challenged = put_tdata 0 ((zero_tdata \<lparr>msg_hdr = \<lparr>mh_type = 1, mh_length = 8, mh_magic = PJ_STUN_MAGIC, mh_tsx_id = [1, 2, 3, 4, 5, 6, 7, 8, 9, 10, 11, 12]\<rparr>,
       msg_attrs = [\<lparr>at_type = PJ_STUN_ATTR_FINGERPRINT, at_length = 4, at_body = Uint_body 0\<rparr>]\<rparr>)
     \<lparr>td_client_tsx := (case pj_stun_client_tsx_create 100 True True True of Inr tsx \<Rightarrow> Some (snd (pj_stun_client_tsx_set_data tsx 1))), td_dst_addr := Some demo_server\<rparr>)
     (demo_long_term\<lparr>ss_next_tdata := 1, ss_pending_request_list := [0]\<rparr>)"

definition demo_challenge :: pj_stun_msg where
  "demo_challenge = \<lparr>msg_hdr = \<lparr>mh_type = 0x0111, mh_length = 0, mh_magic = PJ_STUN_MAGIC, mh_tsx_id = [1, 2, 3, 4, 5, 6, 7, 8, 9, 10, 11, 12]\<rparr>,
     msg_attrs = [\<lparr>at_type = PJ_STUN_ATTR_ERROR_CODE, at_length = 4, at_body = Errcode_body PJ_STUN_SC_UNAUTHORIZED []\<rparr>,
       \<lparr>at_type = PJ_STUN_ATTR_REALM, at_length = 1, at_body = String_body [0x72]\<rparr>, \<lparr>at_type = PJ_STUN_ATTR_NONCE, at_length = 1, at_body = String_body [0x6E]\<rparr>]\<rparr>"





definition demo_retry :: pj_stun_session where
  "demo_retry = demo_challenged\<lparr>ss_auth_retry := 1, ss_next_nonce := [0x6E], ss_server_realm := [0x72]\<rparr>"

definition demo_retry_msg :: pj_stun_msg where
  "demo_retry_msg = \<lparr>msg_hdr = \<lparr>mh_type = 1, mh_length = 0, mh_magic = PJ_STUN_MAGIC, mh_tsx_id = [1, 2, 3, 4, 5, 6, 7, 8, 9, 10, 11, 12]\<rparr>,
     msg_attrs = [\<lparr>at_type = PJ_STUN_ATTR_FINGERPRINT, at_length = 4, at_body = Uint_body 0\<rparr>]\<rparr>"

definition demo_retry_info :: pj_stun_req_cred_info where
  "demo_retry_info = \<lparr>ci_realm = [0x72], ci_username = [0x61], ci_nonce = [0x6E], ci_auth_key = [1, 2, 3]\<rparr>"

lemma demo_retry_encode:
  "case apply_msg_options demo_retry (Some demo_retry_info) demo_retry_msg of None \<Rightarrow> False
   | Some (st, msg) \<Rightarrow> st = PJ_SUCCESS \<and> pj_stun_msg_encode 0 demo_stk msg (replicate 800 0) 0 (Some [1, 2, 3]) = Some (Inl PJNATH_ESTUNFINGERPOS)"
  by code_simp

lemma demo_retry_created: "pj_stun_session_create_req demo_sess_env demo_retry 1 PJ_STUN_MAGIC None =
   Inr (1, put_tdata 1 ((zero_tdata (demo_retry_msg\<lparr>msg_attrs := []\<rparr>))\<lparr>td_msg_magic := PJ_STUN_MAGIC, td_msg_key := [1, 2, 3, 4, 5, 6, 7, 8, 9, 10, 11, 12], td_auth_info := demo_retry_info\<rparr>)
      (demo_retry\<lparr>ss_next_tdata := 2\<rparr>))"
  by (simp add: pj_stun_session_create_req_def demo_retry_def demo_challenged_def demo_long_term_def put_tdata_def pj_stun_session_create_def pj_stun_session_set_software_name_def
    pj_stun_session_set_credential_def pj_stun_auth_cred_dup_def pj_stun_msg_create_def pj_stun_msg_init_def demo_sess_env_def get_auth_info_def pj_stun_create_key_def create_tdata_def
    demo_retry_info_def demo_retry_msg_def Let_def no_info_def zero_tdata_def)

lemma apply_msg_options_cong:
  "ss_srv_name s = ss_srv_name s' \<Longrightarrow> ss_use_fingerprint s = ss_use_fingerprint s' \<Longrightarrow> apply_msg_options s = apply_msg_options s'"
  by (intro ext) (simp only: apply_msg_options_def)

lemma send_msg_not_encoded:
  assumes "\<not> ss_is_destroying s" "ss_tdata s i = Some td" "td_client_tsx td = None" "\<not> tm_id (td_res_timer td)"
    "apply_msg_options s (Some (td_auth_info td)) (td_msg td) = Some (PJ_SUCCESS, m)"
    "pj_stun_msg_encode (ev_pad env) (ev_stk env) m (take PJ_STUN_MAX_PKT_LEN (ev_buf env)) 0 (Some (ci_auth_key (td_auth_info td))) = Some (Inl e)"
  shows "\<exists>s'. pj_stun_session_send_msg env s token cache re server i = Some (e, s') \<and> (\<forall>j. j \<noteq> i \<longrightarrow> ss_tdata s' j = ss_tdata s j)"
  using assms by (simp add: pj_stun_session_send_msg_def Let_def send_failed_def pj_stun_msg_destroy_tdata_def destroy_tdata_def pool_release_def put_tdata_def)

lemma demo_challenge_handled: "stun_tsx_on_complete demo_sess_env 0 (PJ_STATUS_FROM_STUN_CODE 401) (Some demo_challenge) demo_server demo_challenged \<noteq> None"
proof -
  define req where "req = the (ss_tdata demo_challenged 0)"
  have req: "ss_tdata demo_challenged 0 = Some req" by (simp add: req_def demo_challenged_def)
  have attrs: "msg_attrs (td_msg req) = [\<lparr>at_type = PJ_STUN_ATTR_FINGERPRINT, at_length = 4, at_body = Uint_body 0\<rparr>]" "mh_type (msg_hdr (td_msg req)) = 1"
    "mh_magic (msg_hdr (td_msg req)) = PJ_STUN_MAGIC" by (simp_all add: req_def demo_challenged_def zero_tdata_def)
  obtain m where m: "apply_msg_options demo_retry (Some demo_retry_info) demo_retry_msg = Some (PJ_SUCCESS, m)"
      "pj_stun_msg_encode 0 demo_stk m (replicate 800 0) 0 (Some [1, 2, 3]) = Some (Inl PJNATH_ESTUNFINGERPOS)"
    using demo_retry_encode by (auto split: option.splits)
  define td where "td = (zero_tdata (demo_retry_msg\<lparr>msg_attrs := []\<rparr>))\<lparr>td_msg_magic := PJ_STUN_MAGIC, td_msg_key := [1, 2, 3, 4, 5, 6, 7, 8, 9, 10, 11, 12], td_auth_info := demo_retry_info\<rparr>"
  define s1 where "s1 = put_tdata 1 (td\<lparr>td_msg := demo_retry_msg\<rparr>) (put_tdata 1 td (demo_retry\<lparr>ss_next_tdata := 2\<rparr>))"
  have "\<exists>s'. pj_stun_session_send_msg demo_sess_env s1 (td_token req) True (td_retransmit req) demo_server 1 = Some (PJNATH_ESTUNFINGERPOS, s') \<and> (\<forall>j. j \<noteq> 1 \<longrightarrow> ss_tdata s' j = ss_tdata s1 j)"
  proof (rule send_msg_not_encoded [where td = "td\<lparr>td_msg := demo_retry_msg\<rparr>" and m = m and e = PJNATH_ESTUNFINGERPOS])
    have "apply_msg_options s1 = apply_msg_options demo_retry" by (rule apply_msg_options_cong) (simp_all add: s1_def put_tdata_def)
    then show "apply_msg_options s1 (Some (td_auth_info (td\<lparr>td_msg := demo_retry_msg\<rparr>))) (td_msg (td\<lparr>td_msg := demo_retry_msg\<rparr>)) = Some (PJ_SUCCESS, m)" using m(1) by (simp add: td_def)
    show "pj_stun_msg_encode (ev_pad demo_sess_env) (ev_stk demo_sess_env) m (take PJ_STUN_MAX_PKT_LEN (ev_buf demo_sess_env)) 0
        (Some (ci_auth_key (td_auth_info (td\<lparr>td_msg := demo_retry_msg\<rparr>)))) = Some (Inl PJNATH_ESTUNFINGERPOS)"
      using m(2) by (simp add: demo_sess_env_def td_def demo_retry_info_def PJ_STUN_MAX_PKT_LEN_def)
  qed (simp_all add: s1_def td_def zero_tdata_def put_tdata_def demo_retry_def demo_challenged_def demo_long_term_def pj_stun_session_create_def pj_stun_session_set_software_name_def
      pj_stun_session_set_credential_def)
  then obtain s2 where "pj_stun_session_send_msg demo_sess_env s1 (td_token req) True (td_retransmit req) demo_server 1 = Some (PJNATH_ESTUNFINGERPOS, s2)"
    and s2: "\<forall>j. j \<noteq> 1 \<longrightarrow> ss_tdata s2 j = ss_tdata s1 j" by blast
  moreover have "pj_stun_session_create_req demo_sess_env demo_retry 1 PJ_STUN_MAGIC None = Inr (1, put_tdata 1 td (demo_retry\<lparr>ss_next_tdata := 2\<rparr>))"
    using demo_retry_created by (simp add: td_def)
  moreover have "pj_stun_attr_clone \<lparr>at_type = PJ_STUN_ATTR_FINGERPRINT, at_length = 4, at_body = Uint_body 0\<rparr> = Some \<lparr>at_type = PJ_STUN_ATTR_FINGERPRINT, at_length = 4, at_body = Uint_body 0\<rparr>"
    "PJ_STUN_ATTR_FINGERPRINT \<notin> {PJ_STUN_ATTR_USERNAME, PJ_STUN_ATTR_REALM, PJ_STUN_ATTR_MESSAGE_INTEGRITY, PJ_STUN_ATTR_NONCE}"
    by (simp_all add: pj_stun_attr_clone_def known_checked_types) (simp add: PJ_STUN_ATTR_FINGERPRINT_def PJ_STUN_ATTR_USERNAME_def PJ_STUN_ATTR_REALM_def PJ_STUN_ATTR_MESSAGE_INTEGRITY_def PJ_STUN_ATTR_NONCE_def)
  moreover have "td\<lparr>td_msg := (td_msg td)\<lparr>msg_attrs := [\<lparr>at_type = PJ_STUN_ATTR_FINGERPRINT, at_length = 4, at_body = Uint_body 0\<rparr>]\<rparr>\<rparr> = td\<lparr>td_msg := demo_retry_msg\<rparr>"
    "msg_attrs (td_msg td) = []"
    by (simp_all add: td_def zero_tdata_def demo_retry_msg_def)
  ultimately have r: "retry_request demo_sess_env req demo_server demo_retry = Some (False, s2)"
    using attrs by (simp add: retry_request_def Let_def s1_def)
  have c: "pj_stun_msg_find_attr demo_challenge PJ_STUN_ATTR_ERROR_CODE 0 = Some \<lparr>at_type = PJ_STUN_ATTR_ERROR_CODE, at_length = 4, at_body = Errcode_body PJ_STUN_SC_UNAUTHORIZED []\<rparr>"
    "string_value (pj_stun_msg_find_attr demo_challenge PJ_STUN_ATTR_NONCE 0) = Some (Some [0x6E])" "string_value (pj_stun_msg_find_attr demo_challenge PJ_STUN_ATTR_REALM 0) = Some (Some [0x72])"
    "STUN_IS_ERROR_RESPONSE (mh_type (msg_hdr demo_challenge))" "strip_nulls [0x72] = [0x72]"
    by code_simp+
  have d: "ss_auth_type demo_challenged = PJ_STUN_AUTH_LONG_TERM" "ss_next_nonce demo_challenged = []" "ss_auth_retry demo_challenged = 0" "\<not> ss_is_destroying demo_challenged"
    by (simp_all add: put_tdata_def demo_challenged_def demo_long_term_def pj_stun_session_create_def pj_stun_session_set_software_name_def pj_stun_session_set_credential_def)
  have h: "handle_auth_challenge demo_sess_env req (Some demo_challenge) demo_server demo_challenged = retry_request demo_sess_env req demo_server demo_retry"
    using c d by (simp add: handle_auth_challenge_def Let_def demo_retry_def)
  have "ss_tdata s2 0 = Some req" using s2 req by (simp add: s1_def demo_retry_def)
  moreover have "\<exists>tsx. td_client_tsx req = Some tsx" "\<not> tm_id (td_res_timer req)" by (simp_all add: req_def demo_challenged_def zero_tdata_def pj_stun_client_tsx_create_def)
  ultimately show ?thesis using req d(4) r h by (auto simp: stun_tsx_on_complete_def Let_def destroy_tdata_def)
qed

theorem stun_session_retry_lost_witness:
  "map_option ss_out (stun_tsx_on_complete demo_sess_env 0 (PJ_STATUS_FROM_STUN_CODE 401) (Some demo_challenge) demo_server demo_challenged) = Some []"
proof -
  obtain s where s: "stun_tsx_on_complete demo_sess_env 0 (PJ_STATUS_FROM_STUN_CODE 401) (Some demo_challenge) demo_server demo_challenged = Some s"
    using demo_challenge_handled by blast
  have resp: "pj_stun_msg_find_attr demo_challenge PJ_STUN_ATTR_ERROR_CODE 0 = Some \<lparr>at_type = PJ_STUN_ATTR_ERROR_CODE, at_length = 4, at_body = Errcode_body PJ_STUN_SC_UNAUTHORIZED []\<rparr>"
    "string_value (pj_stun_msg_find_attr demo_challenge PJ_STUN_ATTR_NONCE 0) = Some (Some [0x6E])" "STUN_IS_ERROR_RESPONSE (mh_type (msg_hdr demo_challenge))"
    by code_simp+
  have code: "PJ_STUN_SC_UNAUTHORIZED = PJ_STUN_SC_UNAUTHORIZED \<or> PJ_STUN_SC_UNAUTHORIZED = PJ_STUN_SC_STALE_NONCE" by (rule disjI1) (rule refl)
  have d: "ss_out demo_challenged = []" "\<not> ss_is_destroying demo_challenged" "ss_use_fingerprint demo_challenged" "ss_auth_type demo_challenged = PJ_STUN_AUTH_LONG_TERM"
    "ss_auth_retry demo_challenged = 0" "ss_next_nonce demo_challenged = []"
    "ss_cred demo_challenged = PJ_STUN_AUTH_CRED_STATIC \<lparr>sc_realm = [], sc_username = [0x61], sc_data_type = PJ_STUN_PASSWD_HASHED, sc_data = [1, 2, 3], sc_nonce = []\<rparr>"
    by (simp_all add: put_tdata_def demo_challenged_def demo_long_term_def pj_stun_session_create_def pj_stun_session_set_software_name_def pj_stun_session_set_credential_def pj_stun_auth_cred_dup_def)
  have "ss_out s = ss_out demo_challenged"
    by (rule stun_session_retry_lost [OF _ _ _ _ _ _ d(7) _ resp(3,1) _ code resp(2) _ s, where request = "the (ss_tdata demo_challenged 0)"])
      (use d in \<open>simp_all add: demo_challenged_def zero_tdata_def\<close>)
  then show ?thesis using s d(1) by simp
qed

lemma tsx_send_pending:
  assumes "pkt \<noteq> []" "retransmit_timer tsx = \<lparr>tm_id = TIMER_INACTIVE, tm_delay = None\<rparr>"
  shows "\<exists>tsx'. pj_stun_client_tsx_send_msg PJ_EPENDING tsx re pkt = (PJ_EPENDING, tsx') \<and> tm_delay (retransmit_timer tsx') = None \<and>
    destroy_timer tsx' = destroy_timer tsx \<and> complete tsx' = complete tsx"
  using assms by (simp add: pj_stun_client_tsx_send_msg_def tsx_transmit_msg_def Let_def tsx_emit_def slot_schedule_w_grp_lock_def TIMER_INACTIVE_def)

lemma send_request_pending:
  assumes td: "ss_tdata sess i = Some td" "td_pkt td \<noteq> []" "\<not> ss_is_destroying sess" and env: "ev_send env = PJ_EPENDING"
  shows "\<exists>sess' td' tsx. send_request env i re server sess = Some (PJ_EPENDING, sess') \<and> i \<in> set (ss_pending_request_list sess') \<and> ss_tdata sess' i = Some td' \<and>
    td_client_tsx td' = Some tsx \<and> \<not> complete tsx \<and> tm_delay (retransmit_timer tsx) = None \<and> tm_delay (destroy_timer tsx) = None"
proof -
  obtain tsx where c: "pj_stun_client_tsx_create (cfg_rto_msec sess) True True True = Inr tsx" "retransmit_timer tsx = \<lparr>tm_id = TIMER_INACTIVE, tm_delay = None\<rparr>"
      "tm_delay (destroy_timer tsx) = None" "\<not> complete tsx"
    by (simp add: pj_stun_client_tsx_create_def)
  define t where "t = (snd (pj_stun_client_tsx_set_data tsx (Suc i)))\<lparr>ts_out := []\<rparr>"
  have t: "retransmit_timer t = \<lparr>tm_id = TIMER_INACTIVE, tm_delay = None\<rparr>" "destroy_timer t = destroy_timer tsx" "complete t = complete tsx"
    using c(2) by (simp_all add: t_def pj_stun_client_tsx_set_data_def)
  obtain tsx' where s: "pj_stun_client_tsx_send_msg PJ_EPENDING t re (td_pkt td) = (PJ_EPENDING, tsx')" "tm_delay (retransmit_timer tsx') = None"
      "destroy_timer tsx' = destroy_timer t" "complete tsx' = complete t"
    using tsx_send_pending [OF td(2) t(1)] by blast
  define td1 where "td1 = td\<lparr>td_client_tsx := Some (snd (pj_stun_client_tsx_set_data tsx (Suc i))), td_dst_addr := Some server\<rparr>"
  have "sends_of (put_tdata i td1 sess) td1 (ts_out tsx') \<noteq> None" using sends_of_dst [of td1 server] by (simp add: td1_def)
  then show ?thesis using td(1,3) c s t env
    by (auto simp: send_request_def tsx_call_def Let_def t_def td1_def [symmetric] stun_tsx_on_send_msg_def)
qed

text \<open>
  C35. A request whose packet the application's callback only queued, so that it returned \<^verbatim>\<open>PJ_EPENDING\<close>, is never retransmitted and never times out: the session
  accepts the status and keeps the request pending, but the transaction took it for a failure and cancelled its timer. Unless a response arrives, the application is not told any outcome.
\<close>

theorem stun_session_pending_send:
  assumes "ss_tdata sess i = Some td" "STUN_IS_REQUEST (mh_type (msg_hdr (td_msg td)))" "ev_send env = PJ_EPENDING"
    and "pj_stun_session_send_msg env sess token cache re server i = Some (st, sess')" "ss_out sess' \<noteq> ss_out sess"
  shows "st = PJ_EPENDING \<and> i \<in> set (ss_pending_request_list sess') \<and> (\<exists>td' tsx. ss_tdata sess' i = Some td' \<and> td_client_tsx td' = Some tsx \<and>
    \<not> complete tsx \<and> tm_delay (retransmit_timer tsx) = None \<and> tm_delay (destroy_timer tsx) = None)"
proof -
  have nd: "\<not> ss_is_destroying sess" using assms(4,5) by (auto simp: pj_stun_session_send_msg_def)
  obtain st0 m where m: "apply_msg_options sess (Some (td_auth_info td)) (td_msg td) = Some (st0, m)"
    using assms(1,4) nd by (auto simp: pj_stun_session_send_msg_def Let_def split: Option.bind_splits prod.splits)
  have fail: "ss_out sess' = ss_out sess" if "send_failed i e (put_tdata i t sess) = Some (st, sess')" for e t
    using send_failed_out [OF that] by simp
  have ok: "st0 = PJ_SUCCESS" using assms(1,4,5) nd m fail by (auto simp: pj_stun_session_send_msg_def Let_def split: if_splits)
  obtain pkt m' n where e: "pj_stun_msg_encode (ev_pad env) (ev_stk env) m (take PJ_STUN_MAX_PKT_LEN (ev_buf env)) 0 (Some (ci_auth_key (td_auth_info td))) = Some (Inr (pkt, m', n))"
    using assms(1,4,5) nd m ok fail by (auto simp: pj_stun_session_send_msg_def Let_def split: Option.bind_splits sum.splits)
  define td1 where "td1 = td\<lparr>td_token := token, td_retransmit := re, td_msg := m', td_pkt := take n pkt\<rparr>"
  have "mh_type (msg_hdr m') = mh_type (msg_hdr (td_msg td))" using encode_type [OF e] apply_msg_options_extends(1) [OF m] by (simp add: extends_def)
  then have r: "send_request env i re server (put_tdata i td1 sess) = Some (st, sess')"
    using assms(1,2,4) nd m ok e by (simp add: pj_stun_session_send_msg_def Let_def td1_def)
  have "td_pkt td1 \<noteq> []"
  proof
    assume "td_pkt td1 = []"
    then have "ss_out sess' = ss_out (put_tdata i td1 sess)"
      using r nd by (auto simp: send_request_def tsx_call_def pj_stun_client_tsx_create_def pj_stun_client_tsx_send_msg_def sends_of_def Let_def
        pj_stun_client_tsx_set_data_def dest!: send_failed_out)
    then show False using assms(5) by simp
  qed
  then show ?thesis using send_request_pending [of "put_tdata i td1 sess" i td1 env re server] nd assms(3) r by auto
qed

lemma demo_queued:
  "case ss_tdata (snd demo_created) 0 of None \<Rightarrow> False | Some td \<Rightarrow> STUN_IS_REQUEST (mh_type (msg_hdr (td_msg td)))"
  "case pj_stun_session_send_msg (demo_sess_env\<lparr>ev_send := PJ_EPENDING\<rparr>) (snd demo_created) 7 False True demo_server 0 of None \<Rightarrow> False | Some (st, s) \<Rightarrow> ss_out s \<noteq> []"
  "ss_out (snd demo_created) = []"
  by code_simp+

theorem stun_session_pending_send_witness:
  "case pj_stun_session_send_msg (demo_sess_env\<lparr>ev_send := PJ_EPENDING\<rparr>) (snd demo_created) 7 False True demo_server 0 of None \<Rightarrow> False
   | Some (st, s) \<Rightarrow> st = PJ_EPENDING \<and> 0 \<in> set (ss_pending_request_list s)"
proof -
  obtain td where td: "ss_tdata (snd demo_created) 0 = Some td" "STUN_IS_REQUEST (mh_type (msg_hdr (td_msg td)))" using demo_queued(1) by (auto split: option.splits)
  obtain st s where s: "pj_stun_session_send_msg (demo_sess_env\<lparr>ev_send := PJ_EPENDING\<rparr>) (snd demo_created) 7 False True demo_server 0 = Some (st, s)" "ss_out s \<noteq> ss_out (snd demo_created)"
    using demo_queued(2,3) by (auto split: option.splits)
  show ?thesis using stun_session_pending_send [OF td _ s] s(1) by simp
qed

subsection \<open>Where completions come from\<close>

lemma told_emit [simp]:
  "told (sess_emit (Sess_send_msg t p a) sess) = told sess" "told (sess_emit (Sess_rx_request p r t a) sess) = told sess"
  "told (sess_emit (Sess_rx_indication p m t a) sess) = told sess" "told (put_tdata i td sess) = told sess"
  by (simp_all add: told_def)

lemma send_response_told: "send_response env sess token r info re addr = Some (st, r', sess') \<Longrightarrow> told sess' = told sess"
  by (cases rule: send_response_cases) auto

lemma check_cached_told: "check_cached_response env sess msg src = Some (st, sess') \<Longrightarrow> told sess' = told sess"
  by (auto simp: check_cached_response_def split: Option.bind_splits option.splits prod.splits dest: send_response_told)

lemma check_cached_same:
  "check_cached_response env sess msg src = Some (st, sess') \<Longrightarrow> st \<noteq> PJ_SUCCESS \<Longrightarrow> sess' = sess"
  by (auto simp: check_cached_response_def split: Option.bind_splits option.splits prod.splits)

lemma incoming_request_told:
  assumes res: "on_incoming_request env sess options token pkt msg src = Some (st, sess')"
  shows "told sess' = told sess"
proof -
  have auth: "told s = told sess" if "authenticate_req env sess token pkt rd src = Some (a, rd', s)" for rd a rd' s
    using that by (auto simp: authenticate_req_def Let_def split: Option.bind_splits option.splits if_splits prod.splits dest: send_response_told)
  obtain a rd s where a: "(if authenticates sess options then authenticate_req env sess token pkt \<lparr>rd_msg = msg, rd_info = no_info\<rparr> src else Some (PJ_SUCCESS, \<lparr>rd_msg = msg, rd_info = no_info\<rparr>, sess)) = Some (a, rd, s)"
    using res unfolding on_incoming_request_def Let_def by (auto split: Option.bind_splits prod.splits)
  then have s: "told s = told sess" using auth by (auto split: if_splits)
  have "sess' = s \<or> sess' = sess_emit (Sess_rx_request pkt rd token src) s \<or> (\<exists>b r r' info. send_response env s token r info False src = Some (b, r', sess'))"
    using res a unfolding on_incoming_request_def Let_def by (auto split: Option.bind_splits sum.splits if_splits prod.splits)
  then show ?thesis using s by (auto dest: send_response_told)
qed

lemma tsx_lookup_found:
  "tsx_lookup_from store msg is = Some (Some i) \<Longrightarrow> i \<in> set is \<and> (\<exists>td. store i = Some td \<and> td_msg_magic td = mh_magic (msg_hdr msg) \<and> memcmp (td_msg_key td) (mh_tsx_id (msg_hdr msg)) 12 = 0)"
  by (induction "is") (auto split: Option.bind_splits if_splits)

lemma told_in: "Sess_request_complete st t i m \<in> set (ss_out sess) \<longleftrightarrow> Sess_request_complete st t i m \<in> set (told sess)"
  by (simp add: told_def)


definition demo_answer :: "byte list" where
  "demo_answer = [1, 1, 0, 0, 0x21, 0x12, 0xA4, 0x42, 1, 2, 3, 4, 5, 6, 7, 8, 9, 10, 11, 12]"

definition demo_answer_msg :: pj_stun_msg where
  "demo_answer_msg = \<lparr>msg_hdr = \<lparr>mh_type = 0x0101, mh_length = 0, mh_magic = PJ_STUN_MAGIC, mh_tsx_id = [1, 2, 3, 4, 5, 6, 7, 8, 9, 10, 11, 12]\<rparr>, msg_attrs = []\<rparr>"

lemma demo_answered:
  "case pj_stun_session_on_rx_pkt demo_sess_env demo_pending demo_answer 0 0 demo_server of None \<Rightarrow> False
   | Some (st, n, s) \<Rightarrow> st = PJ_SUCCESS \<and> n = 20 \<and> drop 1 (ss_out s) = [Sess_request_complete PJ_SUCCESS 7 0 (Some demo_answer_msg)]"
  by code_simp


end
