(* ===== verification/IceTypes.thy ===== *)
theory IceTypes
  imports StunTypes HashTable TimerSlot
begin

text \<open>
  The data of an ICE session (pjnath/include/pjnath/ice_session.h) and the operations of
  pjnath/src/pjnath/ice_session.c up to the check list: creation, credentials, candidate and
  pair priorities, the candidate table.

  Pointers into the session's arrays are indices: a check names its local and remote candidate by
  their position in \<^verbatim>\<open>ice->lcand\<close> and \<^verbatim>\<open>ice->rcand\<close>, and \<^verbatim>\<open>comp->valid_check\<close> is a list tag with a
  position. A read through NULL or outside an array is the value \<open>None\<close> of the operation.
  Every array of the C structure with its count is a list. Calls into the STUN session, the timer
  heap and the application are recorded in order in the field \<open>ice_out\<close>; what such a call
  returns is an argument (\<open>ice_env\<close>). Each handler runs under the group lock, so it is one step.
  \<^verbatim>\<open>pj_assert\<close> has no effect in the release build; \<^verbatim>\<open>PJ_ASSERT_RETURN\<close> returns its error.
\<close>

subsection \<open>Data\<close>

datatype pj_ice_cand_type =
  PJ_ICE_CAND_TYPE_HOST | PJ_ICE_CAND_TYPE_SRFLX | PJ_ICE_CAND_TYPE_PRFLX | PJ_ICE_CAND_TYPE_RELAYED

datatype pj_ice_sess_role =
  PJ_ICE_SESS_ROLE_UNKNOWN | PJ_ICE_SESS_ROLE_CONTROLLED | PJ_ICE_SESS_ROLE_CONTROLLING

datatype pj_ice_sess_check_state = FROZEN | WAITING | IN_PROGRESS | SUCCEEDED | FAILED

datatype pj_ice_sess_checklist_state = ST_IDLE | ST_RUNNING | ST_COMPLETED

datatype timer_type =
    TIMER_NONE | TIMER_COMPLETION_CALLBACK | TIMER_CONTROLLED_WAIT_NOM
  | TIMER_START_NOMINATED_CHECK | TIMER_KEEP_ALIVE

text \<open>The numbering of the enum decides the comparisons \<^verbatim>\<open>state < IN_PROGRESS\<close> of the code.\<close>

fun state_num :: "pj_ice_sess_check_state \<Rightarrow> nat" where
  "state_num FROZEN = 0"
| "state_num WAITING = 1"
| "state_num IN_PROGRESS = 2"
| "state_num SUCCEEDED = 3"
| "state_num FAILED = 4"

fun cand_type_num :: "pj_ice_cand_type \<Rightarrow> nat" where
  "cand_type_num PJ_ICE_CAND_TYPE_HOST = 0"
| "cand_type_num PJ_ICE_CAND_TYPE_SRFLX = 1"
| "cand_type_num PJ_ICE_CAND_TYPE_PRFLX = 2"
| "cand_type_num PJ_ICE_CAND_TYPE_RELAYED = 3"

record pj_ice_sess_cand =
  cd_type :: pj_ice_cand_type
  cd_comp_id :: nat
  cd_transport_id :: nat
  cd_foundation :: string
  cd_prio :: "32 word"
  cd_addr :: pj_sockaddr
  cd_base_addr :: pj_sockaddr
  cd_rel_addr :: pj_sockaddr

record pj_ice_sess_check =
  ck_lcand :: nat
  ck_rcand :: nat
  ck_prio :: "64 word"
  ck_state :: pj_ice_sess_check_state
  ck_tdata :: "nat option"
  ck_nominated :: bool
  ck_err_code :: pj_status

datatype check_list_name = CLIST | VALID_LIST

type_synonym check_ptr = "check_list_name \<times> nat"

record pj_ice_sess_comp =
  valid_check :: "check_ptr option"
  nominated_check :: "check_ptr option"
  stun_sess :: bool

record pj_ice_sess_checklist =
  cl_state :: pj_ice_sess_checklist_state
  cl_checks :: "pj_ice_sess_check list"
  cl_timer :: "bool timer_slot"

record pj_ice_rx_check =
  rx_comp_id :: nat
  rx_transport_id :: nat
  rx_src_addr :: pj_sockaddr
  rx_use_candidate :: bool
  rx_priority :: "32 word"

record pj_ice_sess_options =
  aggressive :: bool
  nominated_check_delay :: nat
  controlled_agent_want_nom_timeout :: int

datatype ice_action =
    SendBindingRequest nat nat nat pj_sockaddr "32 word" bool pj_ice_sess_role "64 word"
    \<comment> \<open>component, transaction, transport, destination, PRIORITY, USE-CANDIDATE, role attribute, tie breaker\<close>
  | CancelRequest nat nat
  | RetransmitRequest nat nat
  | SendResponse nat nat pj_sockaddr
  | RespondError nat nat pj_sockaddr
  | SendIndication nat nat pj_sockaddr
  | StunSessionDestroy nat
  | CallOnTxPkt nat nat "byte list" pj_sockaddr
  | CallOnRxData nat nat "byte list" pj_sockaddr
  | CallOnIceComplete pj_status
  | StunRxPkt nat nat "byte list" pj_sockaddr

record pj_ice_sess =
  ice_role :: pj_ice_sess_role
  ice_opt :: pj_ice_sess_options
  tie_breaker :: "64 word"
  prefs :: "byte list"
  is_nominating :: bool
  is_complete :: bool
  is_destroying :: bool
  ice_status :: pj_status
  ice_timer :: "timer_type timer_slot"
  has_on_ice_complete :: bool
  tx_ufrag :: string
  tx_uname :: string
  tx_pass :: string
  rx_ufrag :: string
  rx_uname :: string
  rx_pass :: string
  ice_comp :: "pj_ice_sess_comp list"
  comp_ka :: nat
  ice_lcand :: "pj_ice_sess_cand list"
  ice_rcand :: "pj_ice_sess_cand list"
  early_check :: "pj_ice_rx_check list"
  clist :: pj_ice_sess_checklist
  valid_list :: pj_ice_sess_checklist
  next_tdata :: nat
  ice_out :: "ice_action list"

abbreviation comp_cnt :: "pj_ice_sess \<Rightarrow> nat" where
  "comp_cnt ice \<equiv> length (ice_comp ice)"

text \<open>What the callees return: the STUN session's status for a new request or a send, by transaction;
  the status of creating an indication or a response; the random number of the keep-alive timer;
  the text of a fresh remote foundation (the code prints the address of the string).\<close>

record ice_env =
  create_req_status :: "nat \<Rightarrow> pj_status"
  send_req_status :: "nat \<Rightarrow> pj_status"
  create_ind_status :: pj_status
  create_res_status :: pj_status
  env_rand :: nat
  fresh_foundation :: "nat \<Rightarrow> string"
  tx_pkt_status :: pj_status

subsection \<open>Constants of pjnath/config.h\<close>

definition PJ_ICE_MAX_CAND :: nat where "PJ_ICE_MAX_CAND = 16"
definition PJ_ICE_MAX_CHECKS :: nat where "PJ_ICE_MAX_CHECKS = 32"
definition PJ_ICE_MAX_COMP :: nat where "PJ_ICE_MAX_COMP = 4"
definition PJ_ICE_TA_VAL :: int where "PJ_ICE_TA_VAL = 20"
definition PJ_ICE_CANCEL_ALL :: bool where "PJ_ICE_CANCEL_ALL = True"
definition PJ_ICE_NOMINATED_CHECK_DELAY :: nat where "PJ_ICE_NOMINATED_CHECK_DELAY = 4 * 100"
definition ICE_CONTROLLED_AGENT_WAIT_NOMINATION_TIMEOUT :: int where
  "ICE_CONTROLLED_AGENT_WAIT_NOMINATION_TIMEOUT = 10000"
definition PJ_ICE_SESS_KEEP_ALIVE_MIN :: nat where "PJ_ICE_SESS_KEEP_ALIVE_MIN = 20"
definition PJ_ICE_SESS_KEEP_ALIVE_MAX_RAND :: nat where "PJ_ICE_SESS_KEEP_ALIVE_MAX_RAND = 5"

definition cand_type_prefs :: "byte list" where
  "cand_type_prefs = [126, 100, 110, 0]"

subsection \<open>Dereferencing\<close>

fun checks_of :: "pj_ice_sess \<Rightarrow> check_list_name \<Rightarrow> pj_ice_sess_check list" where
  "checks_of ice CLIST = cl_checks (clist ice)"
| "checks_of ice VALID_LIST = cl_checks (valid_list ice)"

fun set_checks :: "check_list_name \<Rightarrow> pj_ice_sess_check list \<Rightarrow> pj_ice_sess \<Rightarrow> pj_ice_sess" where
  "set_checks CLIST cs ice = ice\<lparr>clist := (clist ice)\<lparr>cl_checks := cs\<rparr>\<rparr>"
| "set_checks VALID_LIST cs ice = ice\<lparr>valid_list := (valid_list ice)\<lparr>cl_checks := cs\<rparr>\<rparr>"

definition check_at :: "pj_ice_sess \<Rightarrow> check_ptr \<Rightarrow> pj_ice_sess_check option" where
  "check_at ice p = deref (checks_of ice (fst p)) (snd p)"

text \<open>\<^verbatim>\<open>find_comp\<close> returns NULL for an id above the count, and the address before the array for id 0.\<close>

definition find_comp :: "pj_ice_sess \<Rightarrow> nat \<Rightarrow> int option" where
  "find_comp ice comp_id = (if comp_id > comp_cnt ice then None else Some (int comp_id - 1))"

definition comp_at :: "pj_ice_sess \<Rightarrow> int option \<Rightarrow> pj_ice_sess_comp option" where
  "comp_at ice p = (case p of None \<Rightarrow> None
     | Some i \<Rightarrow> if 0 \<le> i then deref (ice_comp ice) (nat i) else None)"

lemma comp_at_find_comp:
  "comp_at ice (find_comp ice c) =
     (if 1 \<le> c \<and> c \<le> comp_cnt ice then Some (ice_comp ice ! (c - 1)) else None)"
  by (auto simp: comp_at_def find_comp_def deref_def nat_diff_distrib)

definition emit :: "ice_action list \<Rightarrow> pj_ice_sess \<Rightarrow> pj_ice_sess" where
  "emit acts ice = ice\<lparr>ice_out := ice_out ice @ acts\<rparr>"

subsection \<open>Creation, options, role, preferences\<close>

definition pj_ice_sess_options_default :: pj_ice_sess_options where
  "pj_ice_sess_options_default =
     \<lparr>aggressive = True, nominated_check_delay = PJ_ICE_NOMINATED_CHECK_DELAY,
      controlled_agent_want_nom_timeout = ICE_CONTROLLED_AGENT_WAIT_NOMINATION_TIMEOUT\<rparr>"

definition empty_checklist :: pj_ice_sess_checklist where
  "empty_checklist = \<lparr>cl_state = ST_IDLE, cl_checks = [], cl_timer = \<lparr>tm_id = False, tm_delay = None\<rparr>\<rparr>"

definition init_comp :: pj_ice_sess_comp where
  "init_comp = \<lparr>valid_check = None, nominated_check = None, stun_sess = True\<rparr>"

text \<open>
  \<^verbatim>\<open>pj_ice_sess_create\<close> with its random inputs (tie breaker, and the generated fragment or password)
  as arguments. \<open>st\<close> gives the status of creating each component's STUN session: a failure destroys
  the session and is returned.
\<close>

definition pj_ice_sess_create ::
  "(nat \<Rightarrow> pj_status) \<Rightarrow> pj_ice_sess_role \<Rightarrow> nat \<Rightarrow> bool \<Rightarrow> string \<Rightarrow> string \<Rightarrow> 64 word
   \<Rightarrow> pj_status + pj_ice_sess" where
  "pj_ice_sess_create st role cnt has_cb ufrag passwd tb =
     (let k = find_idx (\<lambda>i. st i \<noteq> PJ_SUCCESS) [0..<cnt] in
      if k < cnt then Inl (st k) else
     Inr \<lparr>ice_role = role, ice_opt = pj_ice_sess_options_default, tie_breaker = tb,
          prefs = cand_type_prefs, is_nominating = False, is_complete = False,
          is_destroying = False, ice_status = PJ_SUCCESS,
          ice_timer = \<lparr>tm_id = TIMER_NONE, tm_delay = None\<rparr>, has_on_ice_complete = has_cb,
          tx_ufrag = [], tx_uname = [], tx_pass = [],
          rx_ufrag = ufrag, rx_uname = [], rx_pass = passwd,
          ice_comp = replicate cnt init_comp, comp_ka = 0,
          ice_lcand = [], ice_rcand = [], early_check = [],
          clist = empty_checklist, valid_list = empty_checklist,
          next_tdata = 0, ice_out = []\<rparr>)"

definition pj_ice_sess_set_options :: "pj_ice_sess \<Rightarrow> pj_ice_sess_options \<Rightarrow> pj_ice_sess" where
  "pj_ice_sess_set_options ice opt = ice\<lparr>ice_opt := opt\<rparr>"

definition pj_ice_sess_change_role :: "pj_ice_sess \<Rightarrow> pj_ice_sess_role \<Rightarrow> pj_ice_sess" where
  "pj_ice_sess_change_role ice new_role =
     (if new_role \<noteq> ice_role ice then ice\<lparr>ice_role := new_role\<rparr> else ice)"

definition pj_ice_sess_set_prefs :: "pj_ice_sess \<Rightarrow> byte list \<Rightarrow> pj_ice_sess" where
  "pj_ice_sess_set_prefs ice ps = ice\<lparr>prefs := take 4 ps\<rparr>"

text \<open>\<^verbatim>\<open>destroy_ice\<close>: the first call cancels both timers and destroys every STUN session.\<close>

definition destroy_ice :: "pj_ice_sess \<Rightarrow> pj_ice_sess" where
  "destroy_ice ice =
     (if is_destroying ice then ice
      else emit (map (\<lambda>i. StunSessionDestroy (i + 1))
                   (filter (\<lambda>i. stun_sess (ice_comp ice ! i)) [0..<comp_cnt ice]))
        (ice\<lparr>is_destroying := True,
             ice_timer := slot_cancel_if_active (ice_timer ice) TIMER_NONE,
             ice_comp := map (\<lambda>c. c\<lparr>stun_sess := False\<rparr>) (ice_comp ice),
             clist := (clist ice)\<lparr>cl_timer :=
                         slot_cancel_if_active (cl_timer (clist ice)) False\<rparr>\<rparr>))"

subsection \<open>Foundation\<close>

fun get_type_prefix :: "pj_ice_cand_type \<Rightarrow> char" where
  "get_type_prefix PJ_ICE_CAND_TYPE_HOST = CHR ''H''"
| "get_type_prefix PJ_ICE_CAND_TYPE_SRFLX = CHR ''S''"
| "get_type_prefix PJ_ICE_CAND_TYPE_PRFLX = CHR ''P''"
| "get_type_prefix PJ_ICE_CAND_TYPE_RELAYED = CHR ''R''"

definition hex_digit :: "nat \<Rightarrow> char" where
  "hex_digit n = ''0123456789abcdef'' ! (n mod 16)"

text \<open>The \<^verbatim>\<open>%x\<close> conversion: lower case hexadecimal without leading zeros.\<close>

fun print_hex :: "nat \<Rightarrow> string" where
  "print_hex n = (if n < 16 then [hex_digit n] else print_hex (n div 16) @ [hex_digit n])"

declare print_hex.simps [simp del]

definition be_word32 :: "byte list \<Rightarrow> 32 word" where
  "be_word32 bs = fold (\<lambda>b w. push_bit 8 w OR ucast b) bs 0"

definition pj_ice_calc_foundation :: "pj_ice_cand_type \<Rightarrow> pj_sockaddr \<Rightarrow> string" where
  "pj_ice_calc_foundation type base_addr =
     (let val = (if sa_family base_addr = PJ_AF_INET then be_word32 (take 4 (sa_addr base_addr))
                 else pj_hash_calc 0 (take (pj_sockaddr_get_addr_len base_addr)
                                          (pj_sockaddr_get_addr base_addr)))
      in get_type_prefix type # print_hex (unat val))"

subsection \<open>STUN credentials\<close>

definition stun_auth_get_cred :: "pj_ice_sess \<Rightarrow> 16 word \<Rightarrow> string \<times> string" where
  "stun_auth_get_cred ice msg_type =
     (if STUN_IS_RESPONSE msg_type then (rx_uname ice, rx_pass ice)
      else (tx_uname ice, tx_pass ice))"

definition stun_auth_get_password ::
  "pj_ice_sess \<Rightarrow> 16 word \<Rightarrow> string \<Rightarrow> pj_status + string" where
  "stun_auth_get_password ice msg_type username =
     (if STUN_IS_SUCCESS_RESPONSE msg_type \<or> STUN_IS_ERROR_RESPONSE msg_type then
        (if username \<noteq> tx_uname ice
         then Inl (PJ_STATUS_FROM_STUN_CODE PJ_STUN_SC_UNAUTHORIZED)
         else Inr (tx_pass ice))
      else
        (let pos = find_idx (\<lambda>c. c = CHR '':'') username in
         if pos = length username
         then Inl (PJ_STATUS_FROM_STUN_CODE PJ_STUN_SC_UNAUTHORIZED)
         else if take pos username \<noteq> rx_ufrag ice
         then Inl (PJ_STATUS_FROM_STUN_CODE PJ_STUN_SC_UNAUTHORIZED)
         else Inr (rx_pass ice)))"

subsection \<open>Priorities\<close>

definition pref_of :: "pj_ice_sess \<Rightarrow> pj_ice_cand_type \<Rightarrow> byte" where
  "pref_of ice type = prefs ice ! cand_type_num type"

definition CALC_CAND_PRIO :: "pj_ice_sess \<Rightarrow> pj_ice_cand_type \<Rightarrow> 32 word \<Rightarrow> 32 word \<Rightarrow> 32 word" where
  "CALC_CAND_PRIO ice type local_pref comp_id =
     push_bit 24 (ucast (pref_of ice type) AND 0xFF) +
     push_bit 8 (local_pref AND 0xFFFF) +
     push_bit 0 ((256 - comp_id) AND 0xFF)"

text \<open>A timestamp is a union of one 64-bit and two 32-bit numbers.\<close>

definition mk_timestamp :: "32 word \<Rightarrow> 32 word \<Rightarrow> 64 word" where
  "mk_timestamp hi lo = push_bit 32 (ucast hi) OR ucast lo"

definition CALC_CHECK_PRIO ::
  "pj_ice_sess_role \<Rightarrow> 32 word \<Rightarrow> 32 word \<Rightarrow> 64 word" where
  "CALC_CHECK_PRIO role lprio rprio =
     (let O' = (if role = PJ_ICE_SESS_ROLE_CONTROLLING then lprio else rprio);
          A = (if role = PJ_ICE_SESS_ROLE_CONTROLLING then rprio else lprio)
      in mk_timestamp (if O' < A then O' else A)
           (push_bit 1 (if A < O' then O' else A) + (if A < O' then 1 else 0)))"

definition pj_cmp_timestamp :: "64 word \<Rightarrow> 64 word \<Rightarrow> int" where
  "pj_cmp_timestamp t1 t2 = (if t1 < t2 then -1 else if t2 < t1 then 1 else 0)"

definition CMP_CHECK_PRIO :: "pj_ice_sess_check \<Rightarrow> pj_ice_sess_check \<Rightarrow> int" where
  "CMP_CHECK_PRIO c1 c2 = pj_cmp_timestamp (ck_prio c1) (ck_prio c2)"

lemma CMP_CHECK_PRIO_sign [simp]:
  "0 < CMP_CHECK_PRIO c1 c2 \<longleftrightarrow> ck_prio c2 < ck_prio c1"
  "CMP_CHECK_PRIO c1 c2 < 0 \<longleftrightarrow> ck_prio c1 < ck_prio c2"
  by (auto simp: CMP_CHECK_PRIO_def pj_cmp_timestamp_def)

subsection \<open>Candidates\<close>

definition pj_ice_sess_add_cand ::
  "pj_ice_sess \<Rightarrow> nat \<Rightarrow> nat \<Rightarrow> pj_ice_cand_type \<Rightarrow> 16 word \<Rightarrow> string \<Rightarrow> pj_sockaddr \<Rightarrow> pj_sockaddr
   \<Rightarrow> pj_sockaddr option \<Rightarrow> (pj_status + nat) \<times> pj_ice_sess" where
  "pj_ice_sess_add_cand ice comp_id transport_id type local_pref foundation addr base_addr rel_addr =
     (if comp_id = 0 then (Inl PJ_EINVAL, ice)
      else if comp_id > comp_cnt ice then (Inl PJ_EINVAL, ice)
      else if length (ice_lcand ice) \<ge> PJ_ICE_MAX_CAND then (Inl PJ_ETOOMANY, ice)
      else let lcand =
             \<lparr>cd_type = type, cd_comp_id = comp_id mod 256, cd_transport_id = transport_id mod 256,
              cd_foundation = foundation,
              cd_prio = CALC_CAND_PRIO ice type (ucast local_pref) (of_nat (comp_id mod 256)),
              cd_addr = addr, cd_base_addr = base_addr,
              cd_rel_addr = (case rel_addr of None \<Rightarrow> base_addr | Some a \<Rightarrow> a)\<rparr>
           in (Inr (length (ice_lcand ice)), ice\<lparr>ice_lcand := ice_lcand ice @ [lcand]\<rparr>))"

text \<open>
  \<^verbatim>\<open>pj_ice_sess_find_default_cand\<close>: the first valid pair of the component, then a relayed, a
  reflexive and a host candidate. \<open>Inl PJ_EBUG\<close> is the final return of the code.
\<close>

fun find_valid_lcand ::
  "pj_ice_sess_cand list \<Rightarrow> nat \<Rightarrow> pj_ice_sess_check list \<Rightarrow> nat option option" where
  "find_valid_lcand ls comp_id [] = Some None"
| "find_valid_lcand ls comp_id (c # cs) = do {
     l \<leftarrow> deref ls (ck_lcand c);
     if cd_comp_id l = comp_id then Some (Some (ck_lcand c)) else find_valid_lcand ls comp_id cs }"

definition find_lcand_of ::
  "pj_ice_sess \<Rightarrow> nat \<Rightarrow> pj_ice_cand_type list \<Rightarrow> nat" where
  "find_lcand_of ice comp_id ts =
     find_idx (\<lambda>l. cd_comp_id l = comp_id \<and> List.member ts (cd_type l)) (ice_lcand ice)"

definition pj_ice_sess_find_default_cand ::
  "pj_ice_sess \<Rightarrow> nat \<Rightarrow> (pj_status + nat) option" where
  "pj_ice_sess_find_default_cand ice comp_id =
     (if comp_id = 0 \<or> comp_id > comp_cnt ice then Some (Inl PJ_EINVAL)
      else do {
        v \<leftarrow> find_valid_lcand (ice_lcand ice) comp_id (cl_checks (valid_list ice));
        Some (case v of
            Some cand_id \<Rightarrow> Inr cand_id
          | None \<Rightarrow>
             (let n = length (ice_lcand ice);
                  relayed = find_lcand_of ice comp_id [PJ_ICE_CAND_TYPE_RELAYED];
                  reflexive = find_lcand_of ice comp_id [PJ_ICE_CAND_TYPE_SRFLX, PJ_ICE_CAND_TYPE_PRFLX];
                  host = find_lcand_of ice comp_id [PJ_ICE_CAND_TYPE_HOST]
              in if relayed < n then Inr relayed
                 else if reflexive < n then Inr reflexive
                 else if host < n then Inr host
                 else Inl PJ_EBUG)) })"

subsection \<open>A concrete session\<close>

text \<open>A freshly created controlling session with two components, used to evaluate examples.\<close>

definition demo_ice :: pj_ice_sess where
  "demo_ice = projr (pj_ice_sess_create (\<lambda>_. PJ_SUCCESS) PJ_ICE_SESS_ROLE_CONTROLLING 2 True
                       ''abcd'' ''secret'' 7)"

definition demo_env :: ice_env where
  "demo_env = \<lparr>create_req_status = (\<lambda>_. PJ_SUCCESS), send_req_status = (\<lambda>_. PJ_SUCCESS),
     create_ind_status = PJ_SUCCESS, create_res_status = PJ_SUCCESS, env_rand = 3,
     fresh_foundation = (\<lambda>n. ''f'' @ replicate n CHR ''x''), tx_pkt_status = PJ_SUCCESS\<rparr>"

definition ipv4 :: "byte \<Rightarrow> byte \<Rightarrow> byte \<Rightarrow> byte \<Rightarrow> 16 word \<Rightarrow> pj_sockaddr" where
  "ipv4 a b c d port = \<lparr>sa_family = PJ_AF_INET, sa_port = port, sa_addr = [a, b, c, d]\<rparr>"

lemma demo_ice_simps [simp]:
  "ice_role demo_ice = PJ_ICE_SESS_ROLE_CONTROLLING" "prefs demo_ice = cand_type_prefs"
  "ice_opt demo_ice = pj_ice_sess_options_default" "tie_breaker demo_ice = 7"
  "is_nominating demo_ice = False" "is_complete demo_ice = False" "is_destroying demo_ice = False"
  "ice_status demo_ice = PJ_SUCCESS" "ice_timer demo_ice = \<lparr>tm_id = TIMER_NONE, tm_delay = None\<rparr>"
  "has_on_ice_complete demo_ice" "rx_ufrag demo_ice = ''abcd''" "rx_pass demo_ice = ''secret''"
  "ice_comp demo_ice = [init_comp, init_comp]" "comp_ka demo_ice = 0"
  "ice_lcand demo_ice = []" "ice_rcand demo_ice = []" "early_check demo_ice = []"
  "clist demo_ice = empty_checklist" "valid_list demo_ice = empty_checklist"
  "next_tdata demo_ice = 0" "ice_out demo_ice = []"
  by (simp_all add: demo_ice_def pj_ice_sess_create_def Let_def numeral_2_eq_2)

end
