(* ===== verification/IceChecklist.thy ===== *)
theory IceChecklist
  imports IceTypes
begin

text \<open>
  The check list of an ICE session (ice_session.c): the state setters, sorting by pair priority with
  the repair of the component pointers, pruning, and the creation of the list from the remote
  candidates. The lemmas show that sorting permutes the list into descending priority and keeps
  every component pointer on the check it designated, and that pruning leaves no reflexive local
  candidate and no two pairs with the same remote candidate and base.
\<close>

subsection \<open>State setters\<close>

definition check_set_state ::
  "pj_ice_sess_check \<Rightarrow> pj_ice_sess_check_state \<Rightarrow> pj_status \<Rightarrow> pj_ice_sess_check" where
  "check_set_state check st err_code = check\<lparr>ck_state := st, ck_err_code := err_code\<rparr>"

definition clist_set_state ::
  "pj_ice_sess_checklist \<Rightarrow> pj_ice_sess_checklist_state \<Rightarrow> pj_ice_sess_checklist" where
  "clist_set_state cl st = (if cl_state cl \<noteq> st then cl\<lparr>cl_state := st\<rparr> else cl)"

subsection \<open>Sorting\<close>

text \<open>The inner loop: the index of the first element of highest priority from \<open>i\<close> on.\<close>

definition highest_from :: "pj_ice_sess_check list \<Rightarrow> nat \<Rightarrow> nat" where
  "highest_from cs i =
     fold (\<lambda>j highest. if CMP_CHECK_PRIO (cs ! j) (cs ! highest) > 0 then j else highest)
       [Suc i..<length cs] i"

text \<open>A swap of positions \<open>i\<close> and \<open>h\<close> of list \<open>l\<close> redirects the pointers into that list.\<close>

definition fix_ptr :: "check_list_name \<Rightarrow> nat \<Rightarrow> nat \<Rightarrow> check_ptr option \<Rightarrow> check_ptr option" where
  "fix_ptr l i h p =
     (if p = Some (l, h) then Some (l, i) else if p = Some (l, i) then Some (l, h) else p)"

definition fix_comp :: "check_list_name \<Rightarrow> nat \<Rightarrow> nat \<Rightarrow> pj_ice_sess_comp \<Rightarrow> pj_ice_sess_comp" where
  "fix_comp l i h c =
     c\<lparr>valid_check := fix_ptr l i h (valid_check c),
       nominated_check := fix_ptr l i h (nominated_check c)\<rparr>"

definition sort_step ::
  "check_list_name \<Rightarrow> nat \<Rightarrow> pj_ice_sess_check list \<times> pj_ice_sess_comp list
   \<Rightarrow> pj_ice_sess_check list \<times> pj_ice_sess_comp list" where
  "sort_step l i = (\<lambda>(cs, comps).
     let highest = highest_from cs i in
     if highest \<noteq> i then (swap cs i highest, map (fix_comp l i highest) comps) else (cs, comps))"

definition sort_loop ::
  "check_list_name \<Rightarrow> pj_ice_sess_check list \<times> pj_ice_sess_comp list
   \<Rightarrow> pj_ice_sess_check list \<times> pj_ice_sess_comp list" where
  "sort_loop l s = fold (sort_step l) [0..<length (fst s) - 1] s"

text \<open>With an empty list the loop bound \<^verbatim>\<open>clist->count-1\<close> wraps around and the loop leaves the array.\<close>

definition sort_checklist :: "pj_ice_sess \<Rightarrow> check_list_name \<Rightarrow> pj_ice_sess option" where
  "sort_checklist ice l =
     (if checks_of ice l = [] then None
      else let (cs, comps) = sort_loop l (checks_of ice l, ice_comp ice)
           in Some (set_checks l cs (ice\<lparr>ice_comp := comps\<rparr>)))"

subsection \<open>Pruning\<close>

definition find_base :: "pj_ice_sess_cand list \<Rightarrow> pj_ice_sess_cand \<Rightarrow> nat" where
  "find_base lcands srflx =
     find_idx (\<lambda>host. cd_type host = PJ_ICE_CAND_TYPE_HOST \<and>
                      pj_sockaddr_cmp (cd_base_addr srflx) (cd_addr host) = 0) lcands"

text \<open>The first loop. When a base is missing the pairs before it have already been replaced.\<close>

fun replace_srflx ::
  "pj_ice_sess_cand list \<Rightarrow> pj_ice_sess_check list \<Rightarrow> (pj_status \<times> pj_ice_sess_check list) option" where
  "replace_srflx lcands [] = Some (PJ_SUCCESS, [])"
| "replace_srflx lcands (c # cs) = do {
     srflx \<leftarrow> deref lcands (ck_lcand c);
     if cd_type srflx = PJ_ICE_CAND_TYPE_SRFLX \<and> find_base lcands srflx = length lcands
     then Some (PJNATH_EICENOHOSTCAND, c # cs)
     else do {
       let c' = (if cd_type srflx = PJ_ICE_CAND_TYPE_SRFLX
                 then c\<lparr>ck_lcand := find_base lcands srflx\<rparr> else c);
       (st, cs') \<leftarrow> replace_srflx lcands cs;
       Some (st, c' # cs') } }"

text \<open>The second loop removes, behind each pair, every pair it makes redundant.\<close>

definition redundant ::
  "pj_ice_sess_cand list \<Rightarrow> pj_ice_sess_check \<Rightarrow> pj_ice_sess_check \<Rightarrow> bool" where
  "redundant lcands ci cj \<longleftrightarrow>
     (ck_lcand ci = ck_lcand cj \<and> ck_rcand ci = ck_rcand cj) \<or>
     (ck_rcand cj = ck_rcand ci \<and>
      pj_sockaddr_cmp (cd_base_addr (lcands ! ck_lcand cj)) (cd_base_addr (lcands ! ck_lcand ci)) = 0)"

fun remove_redundant ::
  "pj_ice_sess_cand list \<Rightarrow> pj_ice_sess_check list \<Rightarrow> pj_ice_sess_check list" where
  "remove_redundant lcands [] = []"
| "remove_redundant lcands (c # cs) =
     c # remove_redundant lcands (filter (\<lambda>c'. \<not> redundant lcands c c') cs)"

definition prune_checklist ::
  "pj_ice_sess_cand list \<Rightarrow> pj_ice_sess_check list \<Rightarrow> (pj_status \<times> pj_ice_sess_check list) option" where
  "prune_checklist lcands cs = do {
     (st, cs') \<leftarrow> replace_srflx lcands cs;
     Some (if st \<noteq> PJ_SUCCESS then (st, cs') else (PJ_SUCCESS, remove_redundant lcands cs')) }"

subsection \<open>Creating the check list\<close>

definition pairs_with :: "pj_ice_sess_cand \<Rightarrow> pj_ice_sess_cand \<Rightarrow> bool" where
  "pairs_with lcand rcand \<longleftrightarrow>
     cd_comp_id lcand = cd_comp_id rcand \<and> sa_family (cd_addr lcand) = sa_family (cd_addr rcand)"

definition new_pair :: "pj_ice_sess \<Rightarrow> nat \<Rightarrow> nat \<Rightarrow> pj_ice_sess_check" where
  "new_pair ice i j =
     \<lparr>ck_lcand = i, ck_rcand = j,
      ck_prio = CALC_CHECK_PRIO (ice_role ice) (cd_prio (ice_lcand ice ! i)) (cd_prio (ice_rcand ice ! j)),
      ck_state = FROZEN, ck_tdata = None, ck_nominated = False, ck_err_code = PJ_SUCCESS\<rparr>"

text \<open>The double loop over local and remote candidates, with its early return when the array is full.\<close>

fun generate_pairs ::
  "pj_ice_sess \<Rightarrow> (nat \<times> nat) list \<Rightarrow> pj_ice_sess_check list \<Rightarrow> pj_status \<times> pj_ice_sess_check list" where
  "generate_pairs ice [] cs = (PJ_SUCCESS, cs)"
| "generate_pairs ice ((i, j) # ps) cs =
     (if length cs \<ge> PJ_ICE_MAX_CHECKS then (PJ_ETOOMANY, cs)
      else if \<not> pairs_with (ice_lcand ice ! i) (ice_rcand ice ! j) then generate_pairs ice ps cs
      else generate_pairs ice ps (cs @ [new_pair ice i j]))"

definition index_pairs :: "nat \<Rightarrow> nat \<Rightarrow> (nat \<times> nat) list" where
  "index_pairs n m = List.product [0..<n] [0..<m]"

definition matching_comp :: "pj_ice_sess \<Rightarrow> pj_ice_sess_cand \<Rightarrow> bool" where
  "matching_comp ice c \<longleftrightarrow> cd_comp_id c \<noteq> 0 \<and> cd_comp_id c \<le> comp_cnt ice"

definition highest_comp :: "pj_ice_sess_cand list \<Rightarrow> nat" where
  "highest_comp cs = fold (\<lambda>c h. if cd_comp_id c > h then cd_comp_id c else h) cs 0"

definition save_remote :: "pj_ice_sess \<Rightarrow> string \<Rightarrow> string \<Rightarrow> pj_ice_sess_cand list \<Rightarrow> pj_ice_sess" where
  "save_remote ice rem_ufrag rem_passwd rem_cand =
     ice\<lparr>tx_uname := rem_ufrag @ '':'' @ rx_ufrag ice, tx_ufrag := rem_ufrag,
         tx_pass := rem_passwd, rx_uname := rx_ufrag ice @ '':'' @ rem_ufrag,
         ice_rcand := filter (matching_comp ice) rem_cand\<rparr>"

text \<open>Components above the highest remote component id are destroyed and the count is lowered.\<close>

definition drop_comps :: "pj_ice_sess \<Rightarrow> nat \<Rightarrow> pj_ice_sess" where
  "drop_comps ice h =
     emit (map (\<lambda>i. StunSessionDestroy (i + 1))
             (filter (\<lambda>i. stun_sess (ice_comp ice ! i)) [h..<comp_cnt ice]))
       (ice\<lparr>ice_comp := take h (ice_comp ice),
            clist := (clist ice)\<lparr>cl_timer := (cl_timer (clist ice))\<lparr>tm_id := False\<rparr>\<rparr>\<rparr>)"

text \<open>
  The user name is assembled in \<^verbatim>\<open>char buf[128]\<close> without a length check: a longer one writes past
  the buffer, which is \<open>None\<close>. A new check takes the slot after the last one, which the zeroing
  allocator left cleared.
\<close>

definition pj_ice_sess_create_check_list ::
  "pj_ice_sess \<Rightarrow> string \<Rightarrow> string \<Rightarrow> pj_ice_sess_cand list \<Rightarrow> (pj_status \<times> pj_ice_sess) option" where
  "pj_ice_sess_create_check_list ice rem_ufrag rem_passwd rem_cand =
     (if rem_cand = [] then Some (PJ_EINVAL, ice)
      else if length rem_cand + length (ice_rcand ice) > PJ_ICE_MAX_CAND then Some (PJ_ETOOMANY, ice)
      else if length rem_ufrag + 1 + length (rx_ufrag ice) > 128 then None
      else do {
        let ice1 = save_remote ice rem_ufrag rem_passwd rem_cand;
        let (st, cs) = generate_pairs ice1
              (index_pairs (length (ice_lcand ice1)) (length (ice_rcand ice1))) (cl_checks (clist ice1));
        let ice2 = set_checks CLIST cs ice1;
        if st \<noteq> PJ_SUCCESS then Some (st, ice2)
        else if cs = [] then Some (PJ_ENOTFOUND, ice2)
        else do {
          ice3 \<leftarrow> sort_checklist ice2 CLIST;
          (pst, pcs) \<leftarrow> prune_checklist (ice_lcand ice3) (checks_of ice3 CLIST);
          let ice4 = set_checks CLIST pcs ice3;
          Some (if pst \<noteq> PJ_SUCCESS then (pst, ice4)
                else (PJ_SUCCESS, drop_comps ice4 (highest_comp (ice_rcand ice4)))) } })"

subsection \<open>Sorting is correct\<close>

definition prio_desc :: "pj_ice_sess_check \<Rightarrow> pj_ice_sess_check \<Rightarrow> bool" where
  "prio_desc a b \<longleftrightarrow> ck_prio b \<le> ck_prio a"

lemma fold_highest:
  "let h' = fold (\<lambda>j h. if CMP_CHECK_PRIO (cs ! j) (cs ! h) > 0 then j else h) js h
   in h' \<in> insert h (set js) \<and> (\<forall>k \<in> insert h (set js). ck_prio (cs ! k) \<le> ck_prio (cs ! h'))"
proof (induction js arbitrary: h)
  case (Cons j js)
  show ?case
    using Cons [of "if CMP_CHECK_PRIO (cs ! j) (cs ! h) > 0 then j else h"]
    by (auto simp: Let_def split: if_splits dest: order_less_imp_le order_trans)
qed simp

lemma highest_from_spec:
  assumes "i < length cs"
  shows "i \<le> highest_from cs i" "highest_from cs i < length cs"
    "\<And>k. i \<le> k \<Longrightarrow> k < length cs \<Longrightarrow> ck_prio (cs ! k) \<le> ck_prio (cs ! highest_from cs i)"
proof -
  have "insert i (set [Suc i..<length cs]) = {i..<length cs}" using assms by auto
  note F = fold_highest [of cs "[Suc i..<length cs]" i, unfolded this Let_def, folded highest_from_def]
  from F have h: "highest_from cs i \<in> {i..<length cs}" by (rule conjunct1)
  from F have m: "\<forall>k \<in> {i..<length cs}. ck_prio (cs ! k) \<le> ck_prio (cs ! highest_from cs i)"
    by (rule conjunct2)
  from h show "i \<le> highest_from cs i" "highest_from cs i < length cs" by auto
  from m show "\<And>k. i \<le> k \<Longrightarrow> k < length cs \<Longrightarrow> ck_prio (cs ! k) \<le> ck_prio (cs ! highest_from cs i)"
    by auto
qed

text \<open>What a pointer designates, given the contents \<open>cs\<close> of list \<open>l\<close> and of the other list.\<close>

definition look ::
  "check_list_name \<Rightarrow> pj_ice_sess_check list \<Rightarrow> (check_ptr \<Rightarrow> pj_ice_sess_check option) \<Rightarrow> check_ptr option
   \<Rightarrow> pj_ice_sess_check option" where
  "look l cs other p = Option.bind p (\<lambda>q. if fst q = l then deref cs (snd q) else other q)"

lemma look_fix_ptr:
  assumes "i < length cs" "h < length cs"
  shows "look l (swap cs i h) other (fix_ptr l i h p) = look l cs other p"
proof (cases p)
  case (Some q)
  then show ?thesis
    using assms by (cases q) (auto simp: look_def fix_ptr_def deref_def nth_swap)
qed (simp add: look_def fix_ptr_def)

definition targets ::
  "check_list_name \<Rightarrow> (check_ptr \<Rightarrow> pj_ice_sess_check option) \<Rightarrow> pj_ice_sess_check list \<times> pj_ice_sess_comp list
   \<Rightarrow> (pj_ice_sess_check option \<times> pj_ice_sess_check option \<times> bool) list" where
  "targets l other = (\<lambda>(cs, comps). map (\<lambda>c. (look l cs other (valid_check c),
     look l cs other (nominated_check c), stun_sess c)) comps)"

lemma sort_step_frame:
  assumes "i < length (fst s)"
  shows "mset (fst (sort_step l i s)) = mset (fst s)"
    "targets l other (sort_step l i s) = targets l other s"
    "length (snd (sort_step l i s)) = length (snd s)"
proof -
  obtain cs comps where s: "s = (cs, comps)" by (cases s)
  have h: "highest_from cs i < length cs" using highest_from_spec assms s by auto
  show "mset (fst (sort_step l i s)) = mset (fst s)"
    using assms h by (simp add: s sort_step_def Let_def mset_swap_elems)
  show "targets l other (sort_step l i s) = targets l other s"
    using assms h by (simp add: s sort_step_def Let_def targets_def fix_comp_def look_fix_ptr)
  show "length (snd (sort_step l i s)) = length (snd s)"
    by (simp add: s sort_step_def Let_def)
qed

definition sorted_to :: "nat \<Rightarrow> pj_ice_sess_check list \<Rightarrow> bool" where
  "sorted_to n cs \<longleftrightarrow> (\<forall>a < n. \<forall>b. a < b \<and> b < length cs \<longrightarrow> prio_desc (cs ! a) (cs ! b))"

lemma sort_step_sorted:
  assumes "sorted_to i (fst s)" "i < length (fst s)"
  shows "sorted_to (Suc i) (fst (sort_step l i s))"
proof -
  obtain cs comps where s: "s = (cs, comps)" by (cases s)
  define h where "h = highest_from cs i"
  have i: "i < length cs" and srt: "sorted_to i cs" using assms s by auto
  note hs = highest_from_spec [OF i, folded h_def]
  have fst: "fst (sort_step l i s) = (if h \<noteq> i then swap cs i h else cs)"
    by (simp add: s sort_step_def Let_def h_def)
  have nth: "(if h \<noteq> i then swap cs i h else cs) ! k =
      (if k = i then cs ! h else if k = h then cs ! i else cs ! k)" if "k < length cs" for k
    using that i hs(2) by (simp add: nth_swap)
  show ?thesis
    unfolding fst sorted_to_def
  proof (intro allI impI)
    fix a b
    assume a: "a < Suc i" and b: "a < b \<and> b < length (if h \<noteq> i then swap cs i h else cs)"
    then have bl: "b < length cs" by (auto split: if_splits)
    show "prio_desc ((if h \<noteq> i then swap cs i h else cs) ! a) ((if h \<noteq> i then swap cs i h else cs) ! b)"
    proof (cases "a = i")
      case True
      then show ?thesis using b bl i hs nth [of a] nth [of b] by (auto simp: prio_desc_def)
    next
      case False
      then have "a < i" using a by simp
      then show ?thesis using srt b bl i hs nth [of a] nth [of b] by (auto simp: sorted_to_def)
    qed
  qed
qed

lemma sort_loop_prefix:
  assumes "n \<le> length (fst s)"
  shows "let s' = fold (sort_step l) [0..<n] s in
    mset (fst s') = mset (fst s) \<and> targets l other s' = targets l other s \<and>
    length (snd s') = length (snd s) \<and> sorted_to n (fst s')"
  using assms
proof (induction n)
  case 0
  then show ?case by (simp add: sorted_to_def)
next
  case (Suc n)
  define s' where "s' = fold (sort_step l) [0..<n] s"
  from Suc have IH: "mset (fst s') = mset (fst s)" "targets l other s' = targets l other s"
    "length (snd s') = length (snd s)" "sorted_to n (fst s')"
    by (simp_all add: s'_def Let_def)
  have n: "n < length (fst s')"
    using Suc.prems mset_eq_length [OF IH(1)] by simp
  show ?case
    using IH sort_step_frame [OF n] sort_step_sorted [OF IH(4) n] by (simp add: s'_def Let_def)
qed

lemma sorted_to_all: "sorted_to (length cs - 1) cs \<Longrightarrow> sorted_wrt prio_desc cs"
  by (auto simp: sorted_to_def sorted_wrt_iff_nth_less)

lemma sort_loop_correct:
  "mset (fst (sort_loop l s)) = mset (fst s)"
  "targets l other (sort_loop l s) = targets l other s"
  "length (snd (sort_loop l s)) = length (snd s)"
  "sorted_wrt prio_desc (fst (sort_loop l s))"
proof -
  note P = sort_loop_prefix [of "length (fst s) - 1" s l other, folded sort_loop_def, unfolded Let_def]
  show "mset (fst (sort_loop l s)) = mset (fst s)"
    "targets l other (sort_loop l s) = targets l other s"
    "length (snd (sort_loop l s)) = length (snd s)"
    using P by simp_all
  have "sorted_to (length (fst s) - 1) (fst (sort_loop l s))" using P by simp
  moreover have "length (fst (sort_loop l s)) = length (fst s)" using P mset_eq_length by fastforce
  ultimately show "sorted_wrt prio_desc (fst (sort_loop l s))" using sorted_to_all by metis
qed

text \<open>
  C3. Sorting a non-empty list returns; the result is a permutation of the list in descending pair
  priority, and every component's valid and nominated pointer still designates the check it
  designated before (in either list), although the checks have moved.
\<close>

theorem sort_checklist_correct:
  assumes "checks_of ice l \<noteq> []"
  shows "\<exists>ice'. sort_checklist ice l = Some ice' \<and>
    mset (checks_of ice' l) = mset (checks_of ice l) \<and>
    sorted_wrt prio_desc (checks_of ice' l) \<and>
    map (\<lambda>c. (Option.bind (valid_check c) (check_at ice'), Option.bind (nominated_check c) (check_at ice')))
      (ice_comp ice') =
    map (\<lambda>c. (Option.bind (valid_check c) (check_at ice), Option.bind (nominated_check c) (check_at ice)))
      (ice_comp ice)"
proof -
  obtain cs comps where sl: "sort_loop l (checks_of ice l, ice_comp ice) = (cs, comps)"
    by (cases "sort_loop l (checks_of ice l, ice_comp ice)")
  define ice' where "ice' = set_checks l cs (ice\<lparr>ice_comp := comps\<rparr>)"
  have srt: "sort_checklist ice l = Some ice'"
    using assms sl by (simp add: sort_checklist_def ice'_def)
  have cs': "checks_of ice' l = cs" "ice_comp ice' = comps"
    by (cases l; simp add: ice'_def)+
  have at: "Option.bind p (check_at ice) = look l (checks_of ice l) (check_at ice) p" for p
    by (cases p) (auto simp: look_def check_at_def)
  have at': "Option.bind p (check_at ice') = look l cs (check_at ice) p" for p
  proof (cases p)
    case (Some q)
    have "checks_of ice' l' = checks_of ice l'" if "l' \<noteq> l" for l'
      using that by (cases l; cases l') (simp_all add: ice'_def)
    then show ?thesis using Some cs' by (auto simp: look_def check_at_def)
  qed (simp add: look_def)
  note S = sort_loop_correct [where l = l and s = "(checks_of ice l, ice_comp ice)", unfolded sl]
  have "map (\<lambda>(v, n, s). (v, n)) (targets l (check_at ice) (cs, comps)) =
      map (\<lambda>(v, n, s). (v, n)) (targets l (check_at ice) (checks_of ice l, ice_comp ice))"
    by (simp only: S(2))
  then have "map (\<lambda>c. (look l cs (check_at ice) (valid_check c), look l cs (check_at ice) (nominated_check c))) comps =
      map (\<lambda>c. (look l (checks_of ice l) (check_at ice) (valid_check c),
                look l (checks_of ice l) (check_at ice) (nominated_check c))) (ice_comp ice)"
    by (simp add: targets_def comp_def)
  then show ?thesis
    using srt S by (simp add: at at' cs')
qed

definition demo_check :: "64 word \<Rightarrow> pj_ice_sess_check" where
  "demo_check p = \<lparr>ck_lcand = 0, ck_rcand = 0, ck_prio = p, ck_state = SUCCEEDED, ck_tdata = None,
                   ck_nominated = False, ck_err_code = PJ_SUCCESS\<rparr>"

theorem sort_checklist_correct_witness:
  "\<exists>ice'. sort_checklist (set_checks VALID_LIST [demo_check 1, demo_check 9] demo_ice) VALID_LIST = Some ice' \<and>
     sorted_wrt prio_desc (checks_of ice' VALID_LIST)"
  using sort_checklist_correct [of "set_checks VALID_LIST [demo_check 1, demo_check 9] demo_ice" VALID_LIST]
  by auto

subsection \<open>Pruning is correct\<close>

lemma replace_srflx_length: "replace_srflx ls cs = Some (st, cs') \<Longrightarrow> length cs' = length cs"
  by (induction cs arbitrary: cs') (auto simp: Let_def split: if_splits bind_splits)

lemma find_base_host:
  "find_base ls c < length ls \<Longrightarrow>
   cd_type (ls ! find_base ls c) = PJ_ICE_CAND_TYPE_HOST \<and>
   pj_sockaddr_cmp (cd_base_addr c) (cd_addr (ls ! find_base ls c)) = 0"
  unfolding find_base_def by (drule find_idx_nth) simp

lemma replace_srflx_defined:
  "list_all (\<lambda>c. ck_lcand c < length ls) cs \<Longrightarrow> \<exists>st cs'. replace_srflx ls cs = Some (st, cs')"
  by (induction cs) (auto simp: Let_def)

lemma replace_srflx_success:
  assumes "replace_srflx ls cs = Some (PJ_SUCCESS, cs')"
  shows "list_all2 (\<lambda>c c'. c' = c\<lparr>ck_lcand := ck_lcand c'\<rparr> \<and> ck_lcand c' < length ls \<and>
           cd_type (ls ! ck_lcand c') \<noteq> PJ_ICE_CAND_TYPE_SRFLX \<and>
           (cd_type (ls ! ck_lcand c) \<noteq> PJ_ICE_CAND_TYPE_SRFLX \<longrightarrow> ck_lcand c' = ck_lcand c)) cs cs'"
  using assms
proof (induction cs arbitrary: cs')
  case (Cons c cs)
  from Cons.prems obtain s where s: "deref ls (ck_lcand c) = Some s"
    by (auto split: bind_splits)
  then have c: "ck_lcand c < length ls" "s = ls ! ck_lcand c" by (auto simp: deref_Some_iff)
  show ?case
  proof (cases "cd_type s = PJ_ICE_CAND_TYPE_SRFLX")
    case True
    with Cons.prems s obtain cs'' where
      b: "find_base ls s \<noteq> length ls" and r: "replace_srflx ls cs = Some (PJ_SUCCESS, cs'')" and
      cs': "cs' = c\<lparr>ck_lcand := find_base ls s\<rparr> # cs''"
      by (auto simp: Let_def split: if_splits bind_splits)
    from b have "find_base ls s < length ls"
      unfolding find_base_def by (simp only: find_idx_neq_length)
    with find_base_host [of ls s] Cons.IH [OF r] True c show ?thesis by (simp add: cs')
  next
    case False
    with Cons.prems s obtain cs'' where
      r: "replace_srflx ls cs = Some (PJ_SUCCESS, cs'')" and cs': "cs' = c # cs''"
      by (auto simp: Let_def split: if_splits bind_splits)
    with Cons.IH [OF r] False c show ?thesis by simp
  qed
qed simp

lemma set_remove_redundant: "set (remove_redundant ls cs) \<subseteq> set cs"
  by (induction ls cs rule: remove_redundant.induct) auto

lemma length_remove_redundant: "length (remove_redundant ls cs) \<le> length cs"
proof (induction ls cs rule: remove_redundant.induct)
  case (2 ls c cs)
  from 2 have "length (remove_redundant ls (filter (\<lambda>c'. \<not> redundant ls c c') cs)) \<le> length cs"
    using length_filter_le le_trans by blast
  then show ?case by simp
qed simp

lemma remove_redundant_pairwise:
  "sorted_wrt (\<lambda>a b. \<not> redundant ls a b) (remove_redundant ls cs)"
proof (induction ls cs rule: remove_redundant.induct)
  case (2 ls c cs)
  then show ?case
    using set_remove_redundant [of ls "filter (\<lambda>c'. \<not> redundant ls c c') cs"] by auto
qed simp

lemma remove_redundant_sorted:
  "sorted_wrt R cs \<Longrightarrow> sorted_wrt R (remove_redundant ls cs)"
proof (induction ls cs rule: remove_redundant.induct)
  case (2 ls c cs)
  then show ?case
    using set_remove_redundant [of ls "filter (\<lambda>c'. \<not> redundant ls c c') cs"]
    by (auto simp: sorted_wrt_filter)
qed simp

text \<open>A removed pair was made redundant by a kept pair in front of it.\<close>

lemma remove_redundant_covers:
  assumes "c \<in> set cs" "sorted_wrt R cs" "\<And>x. R x x"
  shows "\<exists>k \<in> set (remove_redundant ls cs). (k = c \<or> redundant ls k c) \<and> R k c"
  using assms
proof (induction ls cs rule: remove_redundant.induct)
  case (2 ls d cs)
  show ?case
  proof (cases "c = d \<or> redundant ls d c")
    case True
    then show ?thesis using "2.prems" by auto
  next
    case False
    then have "c \<in> set (filter (\<lambda>c'. \<not> redundant ls d c') cs)" using "2.prems" by auto
    with 2 show ?thesis by (auto simp: sorted_wrt_filter)
  qed
qed simp

lemma redundant_iff:
  "redundant ls a b \<longleftrightarrow> ck_rcand a = ck_rcand b \<and> (ck_lcand a = ck_lcand b \<or>
     pj_sockaddr_cmp (cd_base_addr (ls ! ck_lcand b)) (cd_base_addr (ls ! ck_lcand a)) = 0)"
  by (auto simp: redundant_def)

lemma prune_checklist_spec:
  assumes "list_all (\<lambda>c. ck_lcand c < length ls) cs" "sorted_wrt prio_desc cs"
  shows "\<exists>st cs'. prune_checklist ls cs = Some (st, cs') \<and>
    (st = PJ_SUCCESS \<longleftrightarrow> (\<forall>c \<in> set cs. cd_type (ls ! ck_lcand c) = PJ_ICE_CAND_TYPE_SRFLX \<longrightarrow>
        find_base ls (ls ! ck_lcand c) < length ls)) \<and>
    (st = PJ_SUCCESS \<longrightarrow>
      (\<forall>c \<in> set cs'. cd_type (ls ! ck_lcand c) \<noteq> PJ_ICE_CAND_TYPE_SRFLX \<and> ck_lcand c < length ls) \<and>
      sorted_wrt prio_desc cs' \<and>
      sorted_wrt (\<lambda>a b. \<not> redundant ls a b) cs' \<and>
      (\<exists>rs. replace_srflx ls cs = Some (PJ_SUCCESS, rs) \<and>
         (\<forall>c \<in> set rs. \<exists>k \<in> set cs'. (k = c \<or> redundant ls k c) \<and> prio_desc k c)))"
proof -
  obtain st rs where r: "replace_srflx ls cs = Some (st, rs)"
    using replace_srflx_defined assms(1) by blast
  have iff: "st = PJ_SUCCESS \<longleftrightarrow> (\<forall>c \<in> set cs. cd_type (ls ! ck_lcand c) = PJ_ICE_CAND_TYPE_SRFLX \<longrightarrow>
        find_base ls (ls ! ck_lcand c) < length ls)"
    using r assms(1)
  proof (induction cs arbitrary: rs)
    case (Cons c cs)
    then show ?case
      using find_idx_neq_length
      by (auto simp: Let_def find_base_def split: if_splits bind_splits)
  qed simp
  show ?thesis
  proof (cases "st = PJ_SUCCESS")
    case False
    then show ?thesis using r iff by (auto simp: prune_checklist_def)
  next
    case True
    then have r': "replace_srflx ls cs = Some (PJ_SUCCESS, rs)" using r by simp
    note A = replace_srflx_success [OF r']
    have srs: "sorted_wrt prio_desc rs"
      using assms(2) A
      by (auto simp: sorted_wrt_iff_nth_less list_all2_conv_all_nth prio_desc_def)
        (metis (no_types, lifting) less_trans pj_ice_sess_check.select_convs(3) pj_ice_sess_check.surjective
           pj_ice_sess_check.update_convs(1))
    have ok: "\<forall>c \<in> set rs. cd_type (ls ! ck_lcand c) \<noteq> PJ_ICE_CAND_TYPE_SRFLX \<and> ck_lcand c < length ls"
      using A by (auto simp: list_all2_conv_all_nth in_set_conv_nth)
    have "prune_checklist ls cs = Some (PJ_SUCCESS, remove_redundant ls rs)"
      using r' by (simp add: prune_checklist_def)
    then show ?thesis
      using True iff ok srs r' set_remove_redundant [of ls rs] remove_redundant_pairwise [of ls rs]
        remove_redundant_sorted [OF srs, of ls]
        remove_redundant_covers [OF _ srs, of _ ls]
      by (auto simp: prio_desc_def)
  qed
qed

text \<open>
  C4. Pruning a list that is sorted by priority: it returns; it fails exactly when the base of a
  server reflexive candidate is not a host candidate of the session; on success no local candidate
  is server reflexive, the list is still sorted, no kept pair is redundant with respect to a pair
  above it (same remote candidate and same local candidate or base), and every pair of the replaced
  list that was removed is redundant with respect to a kept pair of at least its priority.
\<close>

theorem prune_checklist_correct:
  assumes "list_all (\<lambda>c. ck_lcand c < length ls) cs" "sorted_wrt prio_desc cs"
  shows "\<exists>st cs'. prune_checklist ls cs = Some (st, cs') \<and>
    (st = PJ_SUCCESS \<longleftrightarrow> (\<forall>c \<in> set cs. cd_type (ls ! ck_lcand c) = PJ_ICE_CAND_TYPE_SRFLX \<longrightarrow>
        find_base ls (ls ! ck_lcand c) < length ls)) \<and>
    (st = PJ_SUCCESS \<longrightarrow>
      (\<forall>c \<in> set cs'. cd_type (ls ! ck_lcand c) \<noteq> PJ_ICE_CAND_TYPE_SRFLX \<and> ck_lcand c < length ls) \<and>
      sorted_wrt prio_desc cs' \<and>
      sorted_wrt (\<lambda>a b. \<not> (ck_rcand a = ck_rcand b \<and> (ck_lcand a = ck_lcand b \<or>
         pj_sockaddr_cmp (cd_base_addr (ls ! ck_lcand b)) (cd_base_addr (ls ! ck_lcand a)) = 0))) cs' \<and>
      (\<exists>rs. replace_srflx ls cs = Some (PJ_SUCCESS, rs) \<and>
         (\<forall>c \<in> set rs. \<exists>k \<in> set cs'. (k = c \<or> (ck_rcand k = ck_rcand c \<and> (ck_lcand k = ck_lcand c \<or>
         pj_sockaddr_cmp (cd_base_addr (ls ! ck_lcand c)) (cd_base_addr (ls ! ck_lcand k)) = 0))) \<and> prio_desc k c)))"
  using prune_checklist_spec [OF assms] unfolding redundant_iff .

definition demo_cand :: "pj_ice_cand_type \<Rightarrow> nat \<Rightarrow> pj_sockaddr \<Rightarrow> pj_sockaddr \<Rightarrow> pj_ice_sess_cand" where
  "demo_cand t c a b = \<lparr>cd_type = t, cd_comp_id = c, cd_transport_id = 1,
     cd_foundation = pj_ice_calc_foundation t b, cd_prio = CALC_CAND_PRIO demo_ice t 65535 (of_nat c),
     cd_addr = a, cd_base_addr = b, cd_rel_addr = b\<rparr>"

definition demo_lcands :: "pj_ice_sess_cand list" where
  "demo_lcands =
    [demo_cand PJ_ICE_CAND_TYPE_HOST 1 (ipv4 10 0 0 1 4000) (ipv4 10 0 0 1 4000),
     demo_cand PJ_ICE_CAND_TYPE_SRFLX 1 (ipv4 1 2 3 4 9000) (ipv4 10 0 0 1 4000)]"

theorem prune_checklist_correct_witness:
  "\<exists>cs'. prune_checklist demo_lcands [demo_check 9, (demo_check 5)\<lparr>ck_lcand := 1\<rparr>] = Some (PJ_SUCCESS, cs') \<and>
     sorted_wrt (\<lambda>a b. \<not> redundant demo_lcands a b) cs'"
proof -
  let ?cs = "[demo_check 9, (demo_check 5)\<lparr>ck_lcand := 1\<rparr>]"
  have r: "list_all (\<lambda>c. ck_lcand c < length demo_lcands) ?cs" "sorted_wrt prio_desc ?cs"
    by (simp_all add: demo_lcands_def demo_check_def prio_desc_def)
  have b: "\<forall>c \<in> set ?cs. cd_type (demo_lcands ! ck_lcand c) = PJ_ICE_CAND_TYPE_SRFLX \<longrightarrow>
      find_base demo_lcands (demo_lcands ! ck_lcand c) < length demo_lcands"
    by (simp add: demo_lcands_def demo_check_def demo_cand_def find_base_def)
  show ?thesis using prune_checklist_correct [OF r] b unfolding redundant_iff by blast
qed

subsection \<open>The created check list\<close>

lemma generate_pairs_success:
  "generate_pairs ice ps cs = (PJ_SUCCESS, cs') \<Longrightarrow>
   cs' = cs @ map (\<lambda>(i, j). new_pair ice i j)
     (filter (\<lambda>(i, j). pairs_with (ice_lcand ice ! i) (ice_rcand ice ! j)) ps)"
  by (induction ice ps cs rule: generate_pairs.induct) (auto split: if_splits)

lemma generate_pairs_length:
  "generate_pairs ice ps cs = (st, cs') \<Longrightarrow> length cs \<le> PJ_ICE_MAX_CHECKS \<Longrightarrow>
   length cs' \<le> PJ_ICE_MAX_CHECKS \<and> length cs \<le> length cs'"
  by (induction ice ps cs rule: generate_pairs.induct) (auto split: if_splits)

lemma generate_pairs_forall:
  "generate_pairs ice ps cs = (st, cs') \<Longrightarrow> (\<forall>c \<in> set cs. P c) \<Longrightarrow>
   (\<And>i j. (i, j) \<in> set ps \<Longrightarrow> pairs_with (ice_lcand ice ! i) (ice_rcand ice ! j) \<Longrightarrow> P (new_pair ice i j)) \<Longrightarrow>
   \<forall>c \<in> set cs'. P c"
  by (induction ice ps cs rule: generate_pairs.induct) (auto split: if_splits)

lemma fold_highest_comp:
  "fold (\<lambda>c h. if cd_comp_id c > h then cd_comp_id c else h) cs h = fold max (map cd_comp_id cs) h"
  by (induction cs arbitrary: h) (auto simp: max_def)

lemma highest_comp_Max: "highest_comp cs = Max (insert 0 (cd_comp_id ` set cs))"
  by (simp add: highest_comp_def fold_highest_comp flip: Max.set_eq_fold)

lemma highest_comp_ge: "c \<in> set cs \<Longrightarrow> cd_comp_id c \<le> highest_comp cs"
  unfolding highest_comp_Max by (rule Max_ge) auto

lemma highest_comp_le: "\<forall>c \<in> set cs. cd_comp_id c \<le> n \<Longrightarrow> highest_comp cs \<le> n"
  by (auto simp: highest_comp_Max)

end
