(* ===== verification/IceEngine.thy ===== *)
theory IceEngine
  imports IceChecklist
begin

text \<open>
  The connectivity-check engine of ice_session.c: completion and keep-alive, the reaction to a
  finished check, sending a check, the periodic and the nominated check, starting, the callbacks of
  the STUN session (request complete, request received), triggered checks, and the data path.
  A result \<open>None\<close> is a read through NULL or outside an array.
\<close>

abbreviation clist_checks :: "pj_ice_sess \<Rightarrow> pj_ice_sess_check list" where
  "clist_checks ice \<equiv> cl_checks (clist ice)"

abbreviation valid_checks :: "pj_ice_sess \<Rightarrow> pj_ice_sess_check list" where
  "valid_checks ice \<equiv> cl_checks (valid_list ice)"

definition upd_check ::
  "nat \<Rightarrow> (pj_ice_sess_check \<Rightarrow> pj_ice_sess_check) \<Rightarrow> pj_ice_sess \<Rightarrow> pj_ice_sess" where
  "upd_check i f ice = set_checks CLIST ((clist_checks ice)[i := f (clist_checks ice ! i)]) ice"

subsection \<open>Completion and keep-alive\<close>

definition on_ice_complete :: "pj_ice_sess \<Rightarrow> pj_status \<Rightarrow> pj_ice_sess" where
  "on_ice_complete ice status =
     (if is_complete ice then ice
      else let t = slot_cancel_if_active (ice_timer ice) TIMER_NONE;
               t' = (if has_on_ice_complete ice
                     then snd (slot_schedule_w_grp_lock t 0 TIMER_COMPLETION_CALLBACK) else t)
           in ice\<lparr>is_complete := True, ice_status := status, ice_timer := t'\<rparr>)"

definition keep_alive_delay :: "ice_env \<Rightarrow> nat \<Rightarrow> int" where
  "keep_alive_delay env n =
     int ((PJ_ICE_SESS_KEEP_ALIVE_MIN + env_rand env mod PJ_ICE_SESS_KEEP_ALIVE_MAX_RAND) * 1000 div n)"

definition send_keep_alive :: "ice_env \<Rightarrow> pj_ice_sess \<Rightarrow> pj_ice_sess option" where
  "send_keep_alive env ice = do {
     co \<leftarrow> deref (ice_comp ice) (comp_ka ice);
     ptr \<leftarrow> nominated_check co;
     the_check \<leftarrow> check_at ice ptr;
     lcand \<leftarrow> deref (ice_lcand ice) (ck_lcand the_check);
     rcand \<leftarrow> deref (ice_rcand ice) (ck_rcand the_check);
     let ice1 = (if create_ind_status env \<noteq> PJ_SUCCESS then ice
                 else emit [SendIndication (comp_ka ice + 1) (cd_transport_id lcand) (cd_addr rcand)] ice);
     if comp_cnt ice = 0 then None
     else Some (ice1\<lparr>comp_ka := (comp_ka ice + 1) mod comp_cnt ice\<rparr>) }"

definition ice_keep_alive :: "ice_env \<Rightarrow> pj_ice_sess \<Rightarrow> bool \<Rightarrow> pj_ice_sess option" where
  "ice_keep_alive env ice send_now = do {
     ice1 \<leftarrow> (if send_now then send_keep_alive env ice else Some ice);
     if tm_id (ice_timer ice1) = TIMER_NONE
     then (if comp_cnt ice1 = 0 then None
           else Some (ice1\<lparr>ice_timer := snd (slot_schedule_w_grp_lock (ice_timer ice1)
                             (keep_alive_delay env (comp_cnt ice1)) TIMER_KEEP_ALIVE)\<rparr>))
     else Some ice1 }"

subsection \<open>Valid and nominated check of a component\<close>

definition better_check ::
  "pj_ice_sess \<Rightarrow> check_ptr option \<Rightarrow> check_ptr \<Rightarrow> check_ptr option option" where
  "better_check ice old p = (case old of
       None \<Rightarrow> Some (Some p)
     | Some q \<Rightarrow> do {
         cq \<leftarrow> check_at ice q;
         cp \<leftarrow> check_at ice p;
         Some (if CMP_CHECK_PRIO cq cp < 0 then Some p else Some q) })"

definition update_comp_check :: "pj_ice_sess \<Rightarrow> nat \<Rightarrow> check_ptr \<Rightarrow> pj_ice_sess option" where
  "update_comp_check ice comp_id p = do {
     co \<leftarrow> comp_at ice (find_comp ice comp_id);
     v \<leftarrow> better_check ice (valid_check co) p;
     check \<leftarrow> check_at ice p;
     n \<leftarrow> (if ck_nominated check then better_check ice (nominated_check co) p
           else Some (nominated_check co));
     Some (ice\<lparr>ice_comp := (ice_comp ice)[comp_id - 1 :=
                co\<lparr>valid_check := v, nominated_check := n\<rparr>]\<rparr>) }"

subsection \<open>Starting nominated checks\<close>

text \<open>For each component, the first pair with the transport and remote candidate of its valid check.\<close>

fun nominate_comps ::
  "pj_ice_sess \<Rightarrow> pj_ice_sess_comp list \<Rightarrow> pj_ice_sess_check list \<Rightarrow> pj_ice_sess_check list option" where
  "nominate_comps ice [] cs = Some cs"
| "nominate_comps ice (co # comps) cs = do {
     ptr \<leftarrow> valid_check co;
     vc \<leftarrow> check_at ice ptr;
     vl \<leftarrow> deref (ice_lcand ice) (ck_lcand vc);
     if \<not> list_all (\<lambda>c. ck_lcand c < length (ice_lcand ice)) cs then None
     else do {
       let j = find_idx (\<lambda>c. cd_transport_id (ice_lcand ice ! ck_lcand c) = cd_transport_id vl \<and>
                             ck_rcand c = ck_rcand vc) cs;
       nominate_comps ice comps
         (if j < length cs then cs[j := check_set_state (cs ! j) WAITING PJ_SUCCESS] else cs) } }"

definition restart_periodic :: "pj_ice_sess \<Rightarrow> pj_ice_sess" where
  "restart_periodic ice =
     ice\<lparr>clist := (clist ice)\<lparr>cl_timer :=
        snd (slot_schedule_w_grp_lock
              (slot_cancel_if_active (cl_timer (clist ice)) False) 0 True)\<rparr>\<rparr>"

definition start_nominated_check :: "pj_ice_sess \<Rightarrow> pj_ice_sess option" where
  "start_nominated_check ice = do {
     let ice1 = (if tm_id (ice_timer ice) = TIMER_START_NOMINATED_CHECK
                 then ice\<lparr>ice_timer := slot_cancel_if_active (ice_timer ice) TIMER_NONE\<rparr>
                 else ice);
     cs \<leftarrow> nominate_comps ice1 (ice_comp ice1) (clist_checks ice1);
     Some ((restart_periodic (set_checks CLIST cs ice1))\<lparr>is_nominating := True\<rparr>) }"

subsection \<open>A check completes\<close>

definition lcands_in_range :: "pj_ice_sess \<Rightarrow> bool" where
  "lcands_in_range ice \<longleftrightarrow> list_all (\<lambda>c. ck_lcand c < length (ice_lcand ice)) (clist_checks ice)"

abbreviation lc_of :: "pj_ice_sess \<Rightarrow> pj_ice_sess_check \<Rightarrow> pj_ice_sess_cand" where
  "lc_of ice c \<equiv> ice_lcand ice ! ck_lcand c"

definition unfreeze_check :: "pj_ice_sess \<Rightarrow> string \<Rightarrow> pj_ice_sess_check \<Rightarrow> pj_ice_sess_check" where
  "unfreeze_check ice foundation c =
     (if cd_foundation (lc_of ice c) = foundation \<and> ck_state c = FROZEN
      then check_set_state c WAITING PJ_SUCCESS else c)"

definition unfreeze_foundation :: "pj_ice_sess \<Rightarrow> pj_ice_sess_check \<Rightarrow> pj_ice_sess option" where
  "unfreeze_foundation ice check =
     (if \<not> lcands_in_range ice then None
      else Some (set_checks CLIST
             (map (unfreeze_check ice (cd_foundation (lc_of ice check))) (clist_checks ice)) ice))"

definition cancels_request :: "pj_ice_sess_check \<Rightarrow> pj_ice_sess_check \<Rightarrow> bool" where
  "cancels_request check c \<longleftrightarrow>
     ck_state c = IN_PROGRESS \<and> (PJ_ICE_CANCEL_ALL \<or> CMP_CHECK_PRIO c check < 0) \<and> ck_tdata c \<noteq> None"

definition stop_check :: "pj_ice_sess \<Rightarrow> pj_ice_sess_check \<Rightarrow> pj_ice_sess_check \<Rightarrow> pj_ice_sess_check" where
  "stop_check ice check c =
     (if cd_comp_id (lc_of ice c) \<noteq> cd_comp_id (lc_of ice check) then c
      else if state_num (ck_state c) < state_num IN_PROGRESS then check_set_state c FAILED PJ_ECANCELLED
      else if cancels_request check c then check_set_state (c\<lparr>ck_tdata := None\<rparr>) FAILED PJ_ECANCELLED
      else c)"

definition cancel_actions :: "pj_ice_sess \<Rightarrow> pj_ice_sess_check \<Rightarrow> pj_ice_sess_check \<Rightarrow> ice_action list" where
  "cancel_actions ice check c =
     (if cd_comp_id (lc_of ice c) = cd_comp_id (lc_of ice check) \<and>
         \<not> state_num (ck_state c) < state_num IN_PROGRESS \<and> cancels_request check c
      then (case ck_tdata c of Some td \<Rightarrow> [CancelRequest (cd_comp_id (lc_of ice check)) td] | None \<Rightarrow> [])
      else [])"

text \<open>A nominated success ends the other checks of its component.\<close>

definition stop_component :: "pj_ice_sess \<Rightarrow> pj_ice_sess_check \<Rightarrow> pj_ice_sess option" where
  "stop_component ice check = do {
     co \<leftarrow> comp_at ice (find_comp ice (cd_comp_id (lc_of ice check)));
     if \<not> lcands_in_range ice then None
     else Some (emit (concat (map (cancel_actions ice check) (clist_checks ice)))
                  (set_checks CLIST (map (stop_check ice check) (clist_checks ice)) ice)) }"

definition all_nominated :: "pj_ice_sess \<Rightarrow> bool" where
  "all_nominated ice \<longleftrightarrow> list_all (\<lambda>c. nominated_check c \<noteq> None) (ice_comp ice)"

definition all_valid :: "pj_ice_sess \<Rightarrow> bool" where
  "all_valid ice \<longleftrightarrow> list_all (\<lambda>c. valid_check c \<noteq> None) (ice_comp ice)"

definition all_checks_done :: "pj_ice_sess \<Rightarrow> bool" where
  "all_checks_done ice \<longleftrightarrow>
     list_all (\<lambda>c. \<not> state_num (ck_state c) < state_num SUCCEEDED) (clist_checks ice)"

text \<open>Every pair is Succeeded or Failed and some component has no nominated pair.\<close>

definition checklist_exhausted :: "pj_ice_sess \<Rightarrow> (bool \<times> pj_ice_sess) option" where
  "checklist_exhausted ice =
     (if ice_role ice = PJ_ICE_SESS_ROLE_CONTROLLED then
        (if \<not> all_valid ice then Some (True, on_ice_complete ice PJNATH_EICEFAILED)
         else Some (False,
           if tm_id (ice_timer ice) = TIMER_NONE \<and> controlled_agent_want_nom_timeout (ice_opt ice) \<ge> 0
           then ice\<lparr>ice_timer := snd (slot_schedule_w_grp_lock (ice_timer ice)
                      (controlled_agent_want_nom_timeout (ice_opt ice)) TIMER_CONTROLLED_WAIT_NOM)\<rparr>
           else ice))
      else if is_nominating ice then Some (True, on_ice_complete ice PJNATH_EICEFAILED)
      else if \<not> all_valid ice then Some (True, on_ice_complete ice PJNATH_EICEFAILED)
      else do { ice' \<leftarrow> start_nominated_check ice; Some (False, ice') })"

text \<open>A controlling agent with a valid pair for every component schedules the nominated check.\<close>

definition schedule_nomination :: "pj_ice_sess \<Rightarrow> pj_ice_sess_check \<Rightarrow> pj_ice_sess" where
  "schedule_nomination ice check =
     (if ck_err_code check = PJ_SUCCESS \<and> ice_role ice = PJ_ICE_SESS_ROLE_CONTROLLING \<and>
         \<not> is_nominating ice \<and> tm_id (ice_timer ice) = TIMER_NONE \<and> all_valid ice
      then ice\<lparr>ice_timer := snd (slot_schedule_w_grp_lock
                 (slot_cancel_if_active (ice_timer ice) TIMER_NONE)
                 (int (nominated_check_delay (ice_opt ice))) TIMER_START_NOMINATED_CHECK)\<rparr>
      else ice)"

definition on_check_complete :: "pj_ice_sess \<Rightarrow> nat \<Rightarrow> (bool \<times> pj_ice_sess) option" where
  "on_check_complete ice ckid = do {
     check \<leftarrow> deref (clist_checks ice) ckid;
     lcand \<leftarrow> deref (ice_lcand ice) (ck_lcand check);
     ice1 \<leftarrow> (if ck_err_code check = PJ_SUCCESS then unfreeze_foundation ice check else Some ice);
     ice2 \<leftarrow> (if ck_err_code check = PJ_SUCCESS \<and> ck_nominated check
              then stop_component ice1 check else Some ice1);
     if all_nominated ice2 then Some (True, on_ice_complete ice2 PJ_SUCCESS)
     else if all_checks_done ice2 then checklist_exhausted ice2
     else Some (False, schedule_nomination ice2 check) }"

subsection \<open>Performing a check\<close>

definition perform_check ::
  "ice_env \<Rightarrow> pj_ice_sess \<Rightarrow> nat \<Rightarrow> bool \<Rightarrow> (pj_status \<times> pj_ice_sess) option" where
  "perform_check env ice ckid nominate = do {
     check \<leftarrow> deref (clist_checks ice) ckid;
     lcand \<leftarrow> deref (ice_lcand ice) (ck_lcand check);
     rcand \<leftarrow> deref (ice_rcand ice) (ck_rcand check);
     co \<leftarrow> comp_at ice (find_comp ice (cd_comp_id lcand));
     let td = next_tdata ice;
     let ice0 = ice\<lparr>next_tdata := Suc td\<rparr>;
     if create_req_status env td \<noteq> PJ_SUCCESS then Some (create_req_status env td, ice0)
     else do {
       let prio = CALC_CAND_PRIO ice PJ_ICE_CAND_TYPE_PRFLX 65535 (of_nat (cd_comp_id lcand));
       let controlling = (ice_role ice = PJ_ICE_SESS_ROLE_CONTROLLING);
       let use_cand = (controlling \<and> nominate);
       let role_attr = (if controlling then PJ_ICE_SESS_ROLE_CONTROLLING else PJ_ICE_SESS_ROLE_CONTROLLED);
       let ice1 = emit [SendBindingRequest (cd_comp_id lcand) td (cd_transport_id lcand) (cd_addr rcand)
                          prio use_cand role_attr (tie_breaker ice)]
                    (upd_check ckid (\<lambda>c. c\<lparr>ck_tdata := Some td, ck_nominated := ck_nominated c \<or> use_cand\<rparr>) ice0);
       if send_req_status env td \<noteq> PJ_SUCCESS
       then Some (send_req_status env td, upd_check ckid (\<lambda>c. c\<lparr>ck_tdata := None\<rparr>) ice1)
       else Some (PJ_SUCCESS, upd_check ckid (\<lambda>c. check_set_state c IN_PROGRESS PJ_SUCCESS) ice1) } }"

text \<open>The periodic timer: the first Waiting pair, else the first Frozen pair, is checked.\<close>

definition next_check :: "pj_ice_sess_check list \<Rightarrow> nat" where
  "next_check cs =
     (let w = find_idx (\<lambda>c. ck_state c = WAITING) cs
      in if w < length cs then w else find_idx (\<lambda>c. ck_state c = FROZEN) cs)"

definition start_periodic_check :: "ice_env \<Rightarrow> pj_ice_sess \<Rightarrow> (pj_status \<times> pj_ice_sess) option" where
  "start_periodic_check env ice =
     (if is_destroying ice then Some (PJ_SUCCESS, ice)
      else do {
        let ice1 = ice\<lparr>clist := clist_set_state
              ((clist ice)\<lparr>cl_timer := (cl_timer (clist ice))\<lparr>tm_id := False\<rparr>\<rparr>) ST_RUNNING\<rparr>;
        let i = next_check (clist_checks ice1);
        if i < length (clist_checks ice1)
        then do {
          (status, ice2) \<leftarrow> perform_check env ice1 i (is_nominating ice1);
          Some (if status \<noteq> PJ_SUCCESS then (status, ice2)
                else (PJ_SUCCESS, ice2\<lparr>clist := (clist ice2)\<lparr>cl_timer :=
                        snd (slot_schedule_w_grp_lock (cl_timer (clist ice2)) PJ_ICE_TA_VAL True)\<rparr>\<rparr>)) }
        else Some (PJ_SUCCESS, ice1) })"

text \<open>The timer heap takes the entry out before it calls back.\<close>

definition periodic_timer :: "ice_env \<Rightarrow> pj_ice_sess \<Rightarrow> pj_ice_sess option" where
  "periodic_timer env ice =
     map_option snd (start_periodic_check env
       (ice\<lparr>clist := (clist ice)\<lparr>cl_timer := (cl_timer (clist ice))\<lparr>tm_delay := None\<rparr>\<rparr>\<rparr>))"

end
