(* ===== verification/IceHandlers.thy ===== *)
theory IceHandlers
  imports IceEngine
begin

text \<open>
  The entry points of ice_session.c that the STUN session, the timer heap and the application call:
  triggered checks, starting the checks, the completion of a connectivity check, an incoming Binding
  request with the repair of role conflicts, the session timer, and sending and receiving data.
\<close>

subsection \<open>Triggered checks\<close>

text \<open>The remote candidate of a request: a known one by source address, or a new peer reflexive one.\<close>

definition learn_rcand ::
  "ice_env \<Rightarrow> pj_ice_sess \<Rightarrow> pj_ice_rx_check \<Rightarrow> (nat \<times> pj_ice_sess) option" where
  "learn_rcand env ice rcheck =
     (let i = find_idx (\<lambda>r. pj_sockaddr_cmp (rx_src_addr rcheck) (cd_addr r) = 0) (ice_rcand ice) in
      if i \<noteq> length (ice_rcand ice) then Some (i, ice)
      else if length (ice_rcand ice) \<ge> PJ_ICE_MAX_CAND then None
      else Some (length (ice_rcand ice), ice\<lparr>ice_rcand := ice_rcand ice @
             [\<lparr>cd_type = PJ_ICE_CAND_TYPE_PRFLX, cd_comp_id = rx_comp_id rcheck mod 256,
               cd_transport_id = 0,
               cd_foundation = fresh_foundation env (length (ice_rcand ice)),
               cd_prio = rx_priority rcheck, cd_addr = rx_src_addr rcheck,
               cd_base_addr = \<lparr>sa_family = 0, sa_port = 0, sa_addr = []\<rparr>,
               cd_rel_addr = \<lparr>sa_family = 0, sa_port = 0, sa_addr = []\<rparr>\<rparr>]\<rparr>))"

text \<open>Nominate the valid pairs that came from the check, then let the component pick them up.\<close>

fun nominate_valid ::
  "nat list \<Rightarrow> nat \<Rightarrow> nat \<Rightarrow> pj_ice_sess \<Rightarrow> pj_ice_sess option" where
  "nominate_valid [] tp rc ice = Some ice"
| "nominate_valid (j # js) tp rc ice = do {
     vc \<leftarrow> deref (valid_checks ice) j;
     vl \<leftarrow> deref (ice_lcand ice) (ck_lcand vc);
     if cd_transport_id vl = tp \<and> ck_rcand vc = rc
     then do {
       ice' \<leftarrow> update_comp_check
                (set_checks VALID_LIST ((valid_checks ice)[j := vc\<lparr>ck_nominated := True\<rparr>]) ice)
                (cd_comp_id vl) (VALID_LIST, j);
       nominate_valid js tp rc ice' }
     else nominate_valid js tp rc ice }"

text \<open>The pair of the request is already in the check list.\<close>

definition trigger_known ::
  "ice_env \<Rightarrow> pj_ice_sess \<Rightarrow> pj_ice_rx_check \<Rightarrow> nat \<Rightarrow> pj_ice_sess option" where
  "trigger_known env ice rcheck i = do {
     let ice1 = upd_check i (\<lambda>c. c\<lparr>ck_nominated := rx_use_candidate rcheck \<or> ck_nominated c\<rparr>) ice;
     let c = clist_checks ice1 ! i;
     if ck_state c = FROZEN \<or> ck_state c = WAITING
     then map_option snd (perform_check env ice1 i (ck_nominated c \<or> is_nominating ice1))
     else if ck_state c = IN_PROGRESS
     then do {
       co \<leftarrow> comp_at ice1 (find_comp ice1 (rx_comp_id rcheck));
       Some (case ck_tdata c of None \<Rightarrow> ice1
             | Some td \<Rightarrow> emit [RetransmitRequest (rx_comp_id rcheck) td] ice1) }
     else if ck_state c = SUCCEEDED
     then do {
       ice2 \<leftarrow> (if rx_use_candidate rcheck
                then nominate_valid [0..<length (valid_checks ice1)]
                       (cd_transport_id (lc_of ice1 c)) (ck_rcand c) ice1
                else Some ice1);
       map_option snd (on_check_complete ice2 i) }
     else Some ice1 }"

text \<open>The pair is new: it is appended as Waiting and checked at once.\<close>

definition trigger_new ::
  "ice_env \<Rightarrow> pj_ice_sess \<Rightarrow> pj_ice_rx_check \<Rightarrow> nat \<Rightarrow> nat \<Rightarrow> pj_ice_sess option" where
  "trigger_new env ice rcheck l r =
     (let n = length (clist_checks ice);
          c = \<lparr>ck_lcand = l, ck_rcand = r,
               ck_prio = CALC_CHECK_PRIO (ice_role ice) (cd_prio (ice_lcand ice ! l)) (cd_prio (ice_rcand ice ! r)),
               ck_state = WAITING, ck_tdata = None, ck_nominated = rx_use_candidate rcheck,
               ck_err_code = PJ_SUCCESS\<rparr>
      in map_option snd (perform_check env (set_checks CLIST (clist_checks ice @ [c]) ice) n
                           (rx_use_candidate rcheck \<or> is_nominating ice)))"

definition handle_incoming_check ::
  "ice_env \<Rightarrow> pj_ice_sess \<Rightarrow> pj_ice_rx_check \<Rightarrow> pj_ice_sess option" where
  "handle_incoming_check env ice rcheck =
     (case learn_rcand env ice rcheck of
        None \<Rightarrow> Some ice
      | Some (r, ice1) \<Rightarrow>
          if \<not> lcands_in_range ice1 then None
          else
            let k = find_idx (\<lambda>c. cd_comp_id (lc_of ice1 c) = rx_comp_id rcheck \<and>
                                  cd_transport_id (lc_of ice1 c) = rx_transport_id rcheck)
                      (clist_checks ice1)
            in if k = length (clist_checks ice1) then Some ice1
               else
                 let l = ck_lcand (clist_checks ice1 ! k);
                     i = find_idx (\<lambda>c. ck_lcand c = l \<and> ck_rcand c = r) (clist_checks ice1)
                 in if i \<noteq> length (clist_checks ice1) then trigger_known env ice1 rcheck i
                    else if length (clist_checks ice1) < PJ_ICE_MAX_CHECKS
                    then trigger_new env ice1 rcheck l r
                    else Some ice1)"

subsection \<open>Starting the checks\<close>

text \<open>
  One pair of each further foundation of the component becomes Waiting. \<open>flist\<close> is the array of
  foundations seen, of size \<open>PJ_ICE_MAX_CAND\<close>.
\<close>

fun unfreeze_first ::
  "pj_ice_sess_cand list \<Rightarrow> nat \<Rightarrow> string list \<Rightarrow> pj_ice_sess_check list \<Rightarrow> pj_ice_sess_check list option" where
  "unfreeze_first ls comp0 flist [] = Some []"
| "unfreeze_first ls comp0 flist (c # cs) = do {
     cand1 \<leftarrow> deref ls (ck_lcand c);
     if cd_comp_id cand1 = comp0 \<and> cd_foundation cand1 \<notin> set flist
     then (if length flist \<ge> PJ_ICE_MAX_CAND then None
           else do {
             cs' \<leftarrow> unfreeze_first ls comp0 (flist @ [cd_foundation cand1]) cs;
             Some ((if ck_state c = FROZEN then check_set_state c WAITING PJ_SUCCESS else c) # cs') })
     else do {
       cs' \<leftarrow> unfreeze_first ls comp0 flist cs;
       Some (c # cs') } }"

fun handle_early_checks ::
  "ice_env \<Rightarrow> pj_ice_rx_check list \<Rightarrow> pj_ice_sess \<Rightarrow> pj_ice_sess option" where
  "handle_early_checks env [] ice = Some ice"
| "handle_early_checks env (r # rs) ice = do {
     ice' \<leftarrow> handle_incoming_check env ice r;
     handle_early_checks env rs ice' }"

definition start_waiting :: "pj_ice_sess \<Rightarrow> nat \<Rightarrow> pj_ice_sess_check list option" where
  "start_waiting ice i = (let cs = clist_checks ice; c = cs ! i; cand0 = lc_of ice c in do {
     cs' \<leftarrow> unfreeze_first (ice_lcand ice) (cd_comp_id cand0) [cd_foundation cand0] (drop (Suc i) cs);
     Some (take i cs @ (if ck_state c = FROZEN then check_set_state c WAITING PJ_SUCCESS else c) # cs') })"

definition pj_ice_sess_start_check ::
  "ice_env \<Rightarrow> pj_ice_sess \<Rightarrow> (pj_status \<times> pj_ice_sess) option" where
  "pj_ice_sess_start_check env ice =
     (if clist_checks ice = [] then Some (PJ_EINVALIDOP, ice)
      else if \<not> lcands_in_range ice then None
      else do {
        let ice1 = (if aggressive (ice_opt ice) then ice\<lparr>is_nominating := True\<rparr> else ice);
        let i = find_idx (\<lambda>c. cd_comp_id (lc_of ice1 c) = 1) (clist_checks ice1);
        if i = length (clist_checks ice1) then Some (PJNATH_EICEINCOMPID, ice1)
        else do {
          cs \<leftarrow> start_waiting ice1 i;
          let ice2 = set_checks CLIST cs ice1;
          ice3 \<leftarrow> handle_early_checks env (early_check ice2) ice2;
          let (status, t) = slot_schedule_w_grp_lock (cl_timer (clist ice3)) 0 True;
          Some (status, ice3\<lparr>early_check := [],
                  clist := (clist ice3)\<lparr>cl_timer :=
                    (if status \<noteq> PJ_SUCCESS then t\<lparr>tm_id := False\<rparr> else t)\<rparr>\<rparr>) } })"

subsection \<open>A connectivity check has an answer\<close>

definition fail_check :: "pj_ice_sess \<Rightarrow> nat \<Rightarrow> pj_status \<Rightarrow> pj_ice_sess option" where
  "fail_check ice ckid status =
     map_option snd (on_check_complete (upd_check ckid (\<lambda>c. check_set_state c FAILED status) ice) ckid)"

text \<open>A 487 response: take the other role and send the check again.\<close>

definition role_conflict_response ::
  "ice_env \<Rightarrow> pj_ice_sess \<Rightarrow> nat \<Rightarrow> bool \<Rightarrow> bool \<Rightarrow> pj_ice_sess option" where
  "role_conflict_response env ice ckid req_controlling req_controlled =
     (let new_role = (if req_controlling then PJ_ICE_SESS_ROLE_CONTROLLED
                      else if req_controlled then PJ_ICE_SESS_ROLE_CONTROLLING
                      else PJ_ICE_SESS_ROLE_CONTROLLED);
          ice1 = (if new_role \<noteq> ice_role ice then pj_ice_sess_change_role ice new_role else ice);
          ice2 = upd_check ckid (\<lambda>c. check_set_state c WAITING PJ_SUCCESS) ice1
      in map_option snd (perform_check env ice2 ckid
           (ck_nominated (clist_checks ice2 ! ckid) \<or> is_nominating ice2)))"

text \<open>The local candidate of the mapped address, added as peer reflexive when it is not known.\<close>

definition mapped_lcand ::
  "pj_ice_sess \<Rightarrow> pj_ice_sess_check \<Rightarrow> nat \<Rightarrow> pj_sockaddr \<Rightarrow> (pj_status + nat) \<times> pj_ice_sess" where
  "mapped_lcand ice check transport_id xaddr =
     (let base = cd_base_addr (lc_of ice check);
          i = find_idx (\<lambda>l. pj_sockaddr_cmp xaddr (cd_addr l) = 0 \<and>
                            pj_sockaddr_cmp base (cd_base_addr l) = 0) (ice_lcand ice)
      in if i < length (ice_lcand ice) then (Inr i, ice)
         else pj_ice_sess_add_cand ice (cd_comp_id (lc_of ice check)) transport_id
                PJ_ICE_CAND_TYPE_PRFLX 65535
                (pj_ice_calc_foundation PJ_ICE_CAND_TYPE_PRFLX base) xaddr base (Some base))"

text \<open>
  The valid pair. \<^verbatim>\<open>pj_assert(valid_list.count < PJ_ICE_MAX_CHECKS)\<close> does not protect the array in
  the release build: beyond it the write is out of range.
\<close>

definition add_valid_pair ::
  "pj_ice_sess \<Rightarrow> pj_ice_sess_check \<Rightarrow> nat \<Rightarrow> (nat \<times> pj_ice_sess) option" where
  "add_valid_pair ice check l =
     (let vs = valid_checks ice;
          i = find_idx (\<lambda>v. ck_lcand v = l \<and> ck_rcand v = ck_rcand check) vs
      in if i < length vs
         then Some (i, set_checks VALID_LIST (vs[i := (vs ! i)\<lparr>ck_nominated := ck_nominated check\<rparr>]) ice)
         else if length vs \<ge> PJ_ICE_MAX_CHECKS then None
         else Some (length vs, set_checks VALID_LIST (vs @
                [\<lparr>ck_lcand = l, ck_rcand = ck_rcand check,
                  ck_prio = CALC_CHECK_PRIO (ice_role ice) (cd_prio (ice_lcand ice ! l))
                              (cd_prio (ice_rcand ice ! ck_rcand check)),
                  ck_state = SUCCEEDED, ck_tdata = None, ck_nominated = ck_nominated check,
                  ck_err_code = PJ_SUCCESS\<rparr>]) ice))"

definition check_succeeded ::
  "pj_ice_sess \<Rightarrow> nat \<Rightarrow> pj_ice_sess_check \<Rightarrow> nat \<Rightarrow> pj_ice_sess option" where
  "check_succeeded ice ckid check l = do {
     (k, ice1) \<leftarrow> add_valid_pair ice check l;
     ice2 \<leftarrow> update_comp_check ice1 (cd_comp_id (ice_lcand ice1 ! l)) (VALID_LIST, k);
     ice3 \<leftarrow> sort_checklist ice2 VALID_LIST;
     map_option snd (on_check_complete
       (upd_check ckid (\<lambda>c. check_set_state c SUCCEEDED PJ_SUCCESS) ice3) ckid) }"

record stun_outcome =
  so_status :: pj_status
  so_req_controlling :: bool
  so_req_controlled :: bool
  so_xor_mapped_addr :: "pj_sockaddr option"
  so_src_addr :: pj_sockaddr

definition on_stun_request_complete ::
  "ice_env \<Rightarrow> pj_ice_sess \<Rightarrow> nat \<Rightarrow> nat \<Rightarrow> stun_outcome \<Rightarrow> pj_ice_sess option" where
  "on_stun_request_complete env ice ckid transport_id res = do {
     c0 \<leftarrow> deref (clist_checks ice) ckid;
     let ice1 = upd_check ckid (\<lambda>c. c\<lparr>ck_tdata := None\<rparr>) ice;
     let check = clist_checks ice1 ! ckid;
     if is_destroying ice1 then Some ice1
     else if so_status res = PJ_STATUS_FROM_STUN_CODE PJ_STUN_SC_ROLE_CONFLICT
     then role_conflict_response env ice1 ckid (so_req_controlling res) (so_req_controlled res)
     else if so_status res \<noteq> PJ_SUCCESS then fail_check ice1 ckid (so_status res)
     else do {
       lcand \<leftarrow> deref (ice_lcand ice1) (ck_lcand check);
       rcand \<leftarrow> deref (ice_rcand ice1) (ck_rcand check);
       if pj_sockaddr_cmp (cd_addr rcand) (so_src_addr res) \<noteq> 0
       then fail_check ice1 ckid PJNATH_EICEINSRCADDR
       else (case so_xor_mapped_addr res of
           None \<Rightarrow> fail_check ice1 ckid PJNATH_ESTUNNOMAPPEDADDR
         | Some xaddr \<Rightarrow>
             (case mapped_lcand ice1 check transport_id xaddr of
                (Inl status, ice2) \<Rightarrow> fail_check ice2 ckid status
              | (Inr l, ice2) \<Rightarrow> check_succeeded ice2 ckid check l)) } }"

subsection \<open>An incoming Binding request\<close>

definition PJ_STUN_BINDING_REQUEST :: "16 word" where "PJ_STUN_BINDING_REQUEST = 0x0001"

record stun_request =
  rq_type :: "16 word"
  rq_priority :: "32 word option"
  rq_use_candidate :: bool
  rq_controlling :: "64 word option"
  rq_controlled :: "64 word option"
  rq_username :: "string option"

datatype role_decision = ROLE_KEEP | ROLE_SWITCH pj_ice_sess_role | ROLE_CONFLICT

text \<open>Section 7.2.1.1. The code looks for ICE-CONTROLLING first and for ICE-CONTROLLED only without it.\<close>

definition resolve_role :: "pj_ice_sess_role \<Rightarrow> 64 word \<Rightarrow> stun_request \<Rightarrow> role_decision" where
  "resolve_role role tb rq =
     (if role = PJ_ICE_SESS_ROLE_CONTROLLING then
        (case rq_controlling rq of
           Some v \<Rightarrow> if pj_cmp_timestamp tb v < 0 then ROLE_SWITCH PJ_ICE_SESS_ROLE_CONTROLLED
                     else ROLE_CONFLICT
         | None \<Rightarrow> ROLE_KEEP)
      else if role = PJ_ICE_SESS_ROLE_CONTROLLED then
        (case (rq_controlling rq, rq_controlled rq) of
           (None, Some v) \<Rightarrow> if pj_cmp_timestamp tb v < 0 then ROLE_CONFLICT
                             else ROLE_SWITCH PJ_ICE_SESS_ROLE_CONTROLLING
         | _ \<Rightarrow> ROLE_KEEP)
      else ROLE_KEEP)"

definition answer_request ::
  "ice_env \<Rightarrow> pj_ice_sess \<Rightarrow> nat \<Rightarrow> nat \<Rightarrow> 32 word \<Rightarrow> bool \<Rightarrow> pj_sockaddr \<Rightarrow> (pj_status \<times> pj_ice_sess) option" where
  "answer_request env ice comp_id transport_id prio use_cand src_addr =
     (if create_res_status env \<noteq> PJ_SUCCESS then Some (create_res_status env, ice)
      else do {
        let ice1 = emit [SendResponse comp_id transport_id src_addr] ice;
        let rcheck = \<lparr>rx_comp_id = comp_id, rx_transport_id = transport_id, rx_src_addr = src_addr,
                      rx_use_candidate = use_cand, rx_priority = prio\<rparr>;
        if ice_rcand ice1 = []
        then Some (PJ_SUCCESS, ice1\<lparr>early_check := early_check ice1 @ [rcheck]\<rparr>)
        else do {
          ice2 \<leftarrow> handle_incoming_check env ice1 rcheck;
          Some (PJ_SUCCESS, ice2) } })"

definition on_stun_rx_request ::
  "ice_env \<Rightarrow> pj_ice_sess \<Rightarrow> nat \<Rightarrow> nat \<Rightarrow> stun_request \<Rightarrow> pj_sockaddr \<Rightarrow> (pj_status \<times> pj_ice_sess) option" where
  "on_stun_rx_request env ice comp_id transport_id rq src_addr =
     (if rq_type rq \<noteq> PJ_STUN_BINDING_REQUEST
      then Some (PJ_SUCCESS, emit [RespondError comp_id PJ_STUN_SC_BAD_REQUEST src_addr] ice)
      else if is_destroying ice then Some (PJ_EINVALIDOP, ice)
      else (case rq_priority rq of
          None \<Rightarrow> Some (PJ_SUCCESS, ice)
        | Some prio \<Rightarrow> do {
            ice1 \<leftarrow> (if ice_rcand ice = []
                     then (case rq_username rq of
                             None \<Rightarrow> None
                           | Some u \<Rightarrow> Some (ice\<lparr>rx_uname := u\<rparr>))
                     else Some ice);
            case resolve_role (ice_role ice1) (tie_breaker ice1) rq of
              ROLE_CONFLICT \<Rightarrow>
                Some (PJ_SUCCESS, emit [RespondError comp_id PJ_STUN_SC_ROLE_CONFLICT src_addr] ice1)
            | ROLE_SWITCH r \<Rightarrow>
                answer_request env (pj_ice_sess_change_role ice1 r) comp_id transport_id prio
                  (rq_use_candidate rq) src_addr
            | ROLE_KEEP \<Rightarrow>
                answer_request env ice1 comp_id transport_id prio (rq_use_candidate rq) src_addr }))"

subsection \<open>The session timer\<close>

definition on_timer :: "ice_env \<Rightarrow> pj_ice_sess \<Rightarrow> pj_ice_sess option" where
  "on_timer env ice =
     (let type = tm_id (ice_timer ice);
          ice1 = ice\<lparr>ice_timer := \<lparr>tm_id = TIMER_NONE, tm_delay = None\<rparr>\<rparr>
      in if is_destroying ice1 then Some ice1
         else (case type of
             TIMER_CONTROLLED_WAIT_NOM \<Rightarrow> Some (on_ice_complete ice1 PJNATH_EICENOMTIMEOUT)
           | TIMER_COMPLETION_CALLBACK \<Rightarrow> do {
               ice2 \<leftarrow> (if ice_status ice1 = PJ_SUCCESS then ice_keep_alive env ice1 False else Some ice1);
               Some (if has_on_ice_complete ice2
                     then emit [CallOnIceComplete (ice_status ice1)] ice2 else ice2) }
           | TIMER_START_NOMINATED_CHECK \<Rightarrow> start_nominated_check ice1
           | TIMER_KEEP_ALIVE \<Rightarrow> ice_keep_alive env ice1 True
           | TIMER_NONE \<Rightarrow> Some ice1))"

subsection \<open>Data path\<close>

definition on_stun_send_msg ::
  "ice_env \<Rightarrow> pj_ice_sess \<Rightarrow> nat \<Rightarrow> nat \<Rightarrow> byte list \<Rightarrow> pj_sockaddr \<Rightarrow> pj_status \<times> pj_ice_sess" where
  "on_stun_send_msg env ice comp_id transport_id pkt dst_addr =
     (if is_destroying ice then (PJ_EINVALIDOP, ice)
      else (tx_pkt_status env, emit [CallOnTxPkt comp_id transport_id pkt dst_addr] ice))"

definition pj_ice_sess_send_data ::
  "ice_env \<Rightarrow> pj_ice_sess \<Rightarrow> nat \<Rightarrow> byte list \<Rightarrow> (pj_status \<times> pj_ice_sess) option" where
  "pj_ice_sess_send_data env ice comp_id data =
     (if comp_id = 0 then Some (PJ_EINVAL, ice)
      else if comp_id > comp_cnt ice then Some (PJNATH_EICEINCOMPID, ice)
      else if is_destroying ice then Some (PJ_EINVALIDOP, ice)
      else (case comp_at ice (find_comp ice comp_id) of
          None \<Rightarrow> Some (PJNATH_EICEINCOMPID, ice)
        | Some co \<Rightarrow> (case valid_check co of
            None \<Rightarrow> Some (PJNATH_EICEINPROGRESS, ice)
          | Some p \<Rightarrow> do {
              check \<leftarrow> check_at ice p;
              cand \<leftarrow> deref (ice_lcand ice) (ck_lcand check);
              rcand \<leftarrow> deref (ice_rcand ice) (ck_rcand check);
              Some (tx_pkt_status env,
                    emit [CallOnTxPkt comp_id (cd_transport_id cand) data (cd_addr rcand)] ice) })))"

text \<open>
  \<^verbatim>\<open>stun_check\<close> stands for \<^verbatim>\<open>pj_stun_msg_check\<close> with the flags of the code and \<open>stun_rx\<close> for the
  status of the STUN session's input function. The session's four transports have the ids 0 to 3.
\<close>

definition pj_ice_sess_on_rx_pkt ::
  "(byte list \<Rightarrow> pj_status) \<Rightarrow> (byte list \<Rightarrow> pj_status) \<Rightarrow> pj_ice_sess \<Rightarrow> nat \<Rightarrow> nat \<Rightarrow> byte list
   \<Rightarrow> pj_sockaddr \<Rightarrow> (pj_status \<times> pj_ice_sess) option" where
  "pj_ice_sess_on_rx_pkt stun_check stun_rx ice comp_id transport_id pkt src_addr =
     (if is_destroying ice then Some (PJ_EINVALIDOP, ice)
      else (case find_comp ice comp_id of
          None \<Rightarrow> Some (PJNATH_EICEINCOMPID, ice)
        | Some p \<Rightarrow>
            if transport_id \<ge> 4 then Some (PJ_EINVAL, ice)
            else if stun_check pkt = PJ_SUCCESS
            then do {
              co \<leftarrow> comp_at ice (Some p);
              Some (stun_rx pkt, emit [StunRxPkt comp_id transport_id pkt src_addr] ice) }
            else Some (PJ_SUCCESS, emit [CallOnRxData comp_id transport_id pkt src_addr] ice)))"

end
