(* ===== verification/IceSafety.thy ===== *)
theory IceSafety
  imports IceHandlers
begin

text \<open>
  The invariant of an ICE session and memory safety of every handler: from a created session, under
  the guards a caller has to respect, no handler reads through NULL or outside an array, and the
  bounds of the candidate and check arrays hold.

  The invariant has three parts: the pointers (which mention candidates, components and the pairs of
  both lists), the timer with the completion state, and the transactions of checks in progress.
\<close>

subsection \<open>The invariant\<close>

definition pairs :: "pj_ice_sess_check list \<Rightarrow> (nat \<times> nat) list" where
  "pairs cs = map (\<lambda>c. (ck_lcand c, ck_rcand c)) cs"

definition pair_ok :: "pj_ice_sess \<Rightarrow> nat \<times> nat \<Rightarrow> bool" where
  "pair_ok ice = (\<lambda>(l, r). l < length (ice_lcand ice) \<and> r < length (ice_rcand ice) \<and>
     1 \<le> cd_comp_id (ice_lcand ice ! l) \<and> cd_comp_id (ice_lcand ice ! l) \<le> comp_cnt ice)"

definition ptr_ok :: "pj_ice_sess \<Rightarrow> nat \<Rightarrow> check_ptr option \<Rightarrow> bool" where
  "ptr_ok ice i p = (case p of None \<Rightarrow> True
     | Some (l, k) \<Rightarrow> l = VALID_LIST \<and> k < length (valid_checks ice) \<and>
         cd_comp_id (ice_lcand ice ! fst (pairs (valid_checks ice) ! k)) = Suc i)"

text \<open>Different components use different base addresses, and a host candidate is its own base.\<close>

definition wf_bases :: "pj_ice_sess_cand list \<Rightarrow> bool" where
  "wf_bases ls \<longleftrightarrow>
     (\<forall>a \<in> set ls. \<forall>b \<in> set ls.
        pj_sockaddr_cmp (cd_base_addr a) (cd_base_addr b) = 0 \<longrightarrow> cd_comp_id a = cd_comp_id b) \<and>
     (\<forall>h \<in> set ls. cd_type h = PJ_ICE_CAND_TYPE_HOST \<longrightarrow> cd_base_addr h = cd_addr h)"

definition ptr_inv :: "pj_ice_sess \<Rightarrow> bool" where
  "ptr_inv ice \<longleftrightarrow>
     (\<forall>p \<in> set (pairs (clist_checks ice)). pair_ok ice p) \<and>
     (\<forall>p \<in> set (pairs (valid_checks ice)). pair_ok ice p) \<and>
     (\<forall>i < comp_cnt ice. ptr_ok ice i (valid_check (ice_comp ice ! i)) \<and>
                         ptr_ok ice i (nominated_check (ice_comp ice ! i))) \<and>
     wf_bases (ice_lcand ice) \<and>
     0 < comp_cnt ice \<and> comp_cnt ice \<le> PJ_ICE_MAX_COMP \<and> comp_ka ice < comp_cnt ice \<and>
     length (ice_lcand ice) \<le> PJ_ICE_MAX_CAND \<and> length (ice_rcand ice) \<le> PJ_ICE_MAX_CAND \<and>
     length (clist_checks ice) \<le> PJ_ICE_MAX_CHECKS \<and> length (valid_checks ice) \<le> PJ_ICE_MAX_CHECKS"

definition timer_ok :: "timer_type timer_slot \<Rightarrow> bool \<Rightarrow> pj_status \<Rightarrow> bool \<Rightarrow> bool \<Rightarrow> bool" where
  "timer_ok t complete status valid nominated \<longleftrightarrow>
     (tm_id t = TIMER_NONE \<longleftrightarrow> tm_delay t = None) \<and>
     (tm_id t = TIMER_START_NOMINATED_CHECK \<longrightarrow> valid) \<and>
     (tm_id t = TIMER_KEEP_ALIVE \<longrightarrow> nominated) \<and>
     (tm_id t = TIMER_COMPLETION_CALLBACK \<longrightarrow> complete) \<and>
     (complete \<and> status = PJ_SUCCESS \<longrightarrow> nominated)"

definition timer_inv :: "pj_ice_sess \<Rightarrow> bool" where
  "timer_inv ice \<longleftrightarrow>
     timer_ok (ice_timer ice) (is_complete ice) (ice_status ice) (all_valid ice) (all_nominated ice)"

definition busy_ok :: "pj_ice_sess_check \<Rightarrow> bool" where
  "busy_ok c \<longleftrightarrow> (ck_state c = IN_PROGRESS \<longrightarrow> ck_tdata c \<noteq> None)"

definition busy_inv :: "pj_ice_sess \<Rightarrow> bool" where
  "busy_inv ice \<longleftrightarrow> is_destroying ice \<or> (\<forall>c \<in> set (clist_checks ice). busy_ok c)"

definition ice_inv :: "pj_ice_sess \<Rightarrow> bool" where
  "ice_inv ice \<longleftrightarrow> ptr_inv ice \<and> timer_inv ice \<and> busy_inv ice"

text \<open>The part of the state that the pointer invariant depends on.\<close>

definition shape ::
  "pj_ice_sess \<Rightarrow> pj_ice_sess_cand list \<times> pj_ice_sess_cand list \<times> pj_ice_sess_comp list \<times> nat
     \<times> (nat \<times> nat) list \<times> (nat \<times> nat) list" where
  "shape ice = (ice_lcand ice, ice_rcand ice, ice_comp ice, comp_ka ice,
     pairs (clist_checks ice), pairs (valid_checks ice))"

lemma length_pairs [simp]: "length (pairs cs) = length cs"
  by (simp add: pairs_def)

lemma nth_pairs: "i < length cs \<Longrightarrow> pairs cs ! i = (ck_lcand (cs ! i), ck_rcand (cs ! i))"
  by (simp add: pairs_def)

lemma pairs_update:
  "(\<And>c. ck_lcand (f c) = ck_lcand c \<and> ck_rcand (f c) = ck_rcand c) \<Longrightarrow> pairs (cs[i := f (cs ! i)]) = pairs cs"
  by (cases "i < length cs") (auto simp: pairs_def map_update list_update_same_conv list_update_beyond)

lemma pairs_map:
  "(\<And>c. ck_lcand (f c) = ck_lcand c \<and> ck_rcand (f c) = ck_rcand c) \<Longrightarrow> pairs (map f cs) = pairs cs"
  by (simp add: pairs_def)

lemma ptr_inv_shape:
  assumes "shape ice' = shape ice"
  shows "ptr_inv ice' = ptr_inv ice"
proof -
  have p: "pairs (clist_checks ice') = pairs (clist_checks ice)" "pairs (valid_checks ice') = pairs (valid_checks ice)"
    and q: "ice_lcand ice' = ice_lcand ice" "ice_rcand ice' = ice_rcand ice" "ice_comp ice' = ice_comp ice"
    "comp_ka ice' = comp_ka ice"
    using assms by (simp_all add: shape_def)
  have l: "length (clist_checks ice') = length (clist_checks ice)"
    "length (valid_checks ice') = length (valid_checks ice)"
    using p [THEN arg_cong [of _ _ length]] by simp_all
  have "pair_ok ice' = pair_ok ice" "ptr_ok ice' = ptr_ok ice"
    unfolding pair_ok_def [abs_def] ptr_ok_def [abs_def] q p l by (rule refl)+
  then show ?thesis by (simp only: ptr_inv_def p q l)
qed

lemma all_valid_comp: "ice_comp ice' = ice_comp ice \<Longrightarrow> all_valid ice' = all_valid ice"
  by (simp add: all_valid_def)

lemma all_nominated_comp: "ice_comp ice' = ice_comp ice \<Longrightarrow> all_nominated ice' = all_nominated ice"
  by (simp add: all_nominated_def)

lemma timer_inv_frame:
  "ice_timer ice' = ice_timer ice \<Longrightarrow> is_complete ice' = is_complete ice \<Longrightarrow> ice_status ice' = ice_status ice \<Longrightarrow>
   ice_comp ice' = ice_comp ice \<Longrightarrow> timer_inv ice' = timer_inv ice"
  using all_valid_comp [of ice' ice] all_nominated_comp [of ice' ice] by (simp add: timer_inv_def)

lemma ice_inv_shapeI:
  assumes "ptr_inv ice" "shape ice' = shape ice" "timer_inv ice'" "busy_inv ice'"
  shows "ice_inv ice'"
  using assms by (simp add: ice_inv_def ptr_inv_shape [OF assms(2)])

lemma busy_inv_frame:
  "is_destroying ice' = is_destroying ice \<Longrightarrow> clist_checks ice' = clist_checks ice \<Longrightarrow> busy_inv ice' = busy_inv ice"
  by (simp add: busy_inv_def)

lemma timer_ok_schedule:
  "timer_ok t complete status v n \<Longrightarrow> (i = TIMER_START_NOMINATED_CHECK \<longrightarrow> v) \<Longrightarrow> (i = TIMER_KEEP_ALIVE \<longrightarrow> n) \<Longrightarrow>
   (i = TIMER_COMPLETION_CALLBACK \<longrightarrow> complete) \<Longrightarrow> i \<noteq> TIMER_NONE \<Longrightarrow>
   timer_ok (snd (slot_schedule_w_grp_lock t d i)) complete status v n"
  by (simp add: timer_ok_def slot_schedule_w_grp_lock_def)

lemma timer_ok_cancel:
  "timer_ok t complete status v n \<Longrightarrow>
   timer_ok (slot_cancel_if_active t TIMER_NONE) complete status v n"
  by (simp add: timer_ok_def slot_cancel_if_active_def)

lemma check_at_VALID: "check_at ice (VALID_LIST, k) = deref (valid_checks ice) k"
  by (simp add: check_at_def)

text \<open>Reading what the pointer invariant gives.\<close>

lemma ptr_invD_clist:
  assumes "ptr_inv ice" "i < length (clist_checks ice)"
  shows "ck_lcand (clist_checks ice ! i) < length (ice_lcand ice)"
    "ck_rcand (clist_checks ice ! i) < length (ice_rcand ice)"
    "1 \<le> cd_comp_id (lc_of ice (clist_checks ice ! i))"
    "cd_comp_id (lc_of ice (clist_checks ice ! i)) \<le> comp_cnt ice"
proof -
  have "pairs (clist_checks ice) ! i \<in> set (pairs (clist_checks ice))" using assms(2) by simp
  then have "pair_ok ice (pairs (clist_checks ice) ! i)" using assms(1) by (simp add: ptr_inv_def)
  then show "ck_lcand (clist_checks ice ! i) < length (ice_lcand ice)"
    "ck_rcand (clist_checks ice ! i) < length (ice_rcand ice)"
    "1 \<le> cd_comp_id (lc_of ice (clist_checks ice ! i))"
    "cd_comp_id (lc_of ice (clist_checks ice ! i)) \<le> comp_cnt ice"
    using assms(2) by (simp_all add: nth_pairs pair_ok_def)
qed

lemma ptr_invD_valid:
  assumes "ptr_inv ice" "i < length (valid_checks ice)"
  shows "ck_lcand (valid_checks ice ! i) < length (ice_lcand ice)"
    "ck_rcand (valid_checks ice ! i) < length (ice_rcand ice)"
    "1 \<le> cd_comp_id (lc_of ice (valid_checks ice ! i))"
    "cd_comp_id (lc_of ice (valid_checks ice ! i)) \<le> comp_cnt ice"
proof -
  have "pairs (valid_checks ice) ! i \<in> set (pairs (valid_checks ice))" using assms(2) by simp
  then have "pair_ok ice (pairs (valid_checks ice) ! i)" using assms(1) by (simp add: ptr_inv_def)
  then show "ck_lcand (valid_checks ice ! i) < length (ice_lcand ice)"
    "ck_rcand (valid_checks ice ! i) < length (ice_rcand ice)"
    "1 \<le> cd_comp_id (lc_of ice (valid_checks ice ! i))"
    "cd_comp_id (lc_of ice (valid_checks ice ! i)) \<le> comp_cnt ice"
    using assms(2) by (simp_all add: nth_pairs pair_ok_def)
qed

lemma ptr_inv_lcands_in_range: "ptr_inv ice \<Longrightarrow> lcands_in_range ice"
  unfolding lcands_in_range_def list_all_length using ptr_invD_clist by blast

lemma ptr_okD:
  assumes "ptr_inv ice" "i < comp_cnt ice"
    "valid_check (ice_comp ice ! i) = Some p \<or> nominated_check (ice_comp ice ! i) = Some p"
  shows "\<exists>k. p = (VALID_LIST, k) \<and> k < length (valid_checks ice) \<and>
    cd_comp_id (lc_of ice (valid_checks ice ! k)) = Suc i"
proof -
  have "ptr_ok ice i (Some p)" using assms by (auto simp: ptr_inv_def)
  then show ?thesis by (auto simp: ptr_ok_def nth_pairs split: prod.splits)
qed

text \<open>What only grows: a component that has a valid or nominated check keeps having one.\<close>

definition progress :: "pj_ice_sess \<Rightarrow> pj_ice_sess \<Rightarrow> bool" where
  "progress ice ice' \<longleftrightarrow> (all_valid ice \<longrightarrow> all_valid ice') \<and> (all_nominated ice \<longrightarrow> all_nominated ice')"

subsection \<open>Completion and keep-alive\<close>

lemma on_ice_complete_frame [frame_simps]:
  "shape (on_ice_complete ice st) = shape ice" "ice_comp (on_ice_complete ice st) = ice_comp ice"
  "clist (on_ice_complete ice st) = clist ice" "is_destroying (on_ice_complete ice st) = is_destroying ice"
  by (simp_all add: on_ice_complete_def Let_def shape_def)

lemma on_ice_complete_inv [inv_intros]:
  assumes "ice_inv ice" "status = PJ_SUCCESS \<Longrightarrow> all_nominated ice"
  shows "ice_inv (on_ice_complete ice status)"
proof (cases "is_complete ice")
  case True
  then show ?thesis using assms by (simp add: on_ice_complete_def)
next
  case False
  have t: "timer_ok (ice_timer ice) False (ice_status ice) (all_valid ice) (all_nominated ice)"
    using assms(1) False by (simp add: ice_inv_def timer_inv_def)
  have t': "timer_ok (slot_cancel_if_active (ice_timer ice) TIMER_NONE) True status
      (all_valid ice) (all_nominated ice)"
    using assms(2) by (simp add: timer_ok_def slot_cancel_if_active_def)
  have "timer_inv (on_ice_complete ice status)"
    using t' timer_ok_schedule [OF t', of TIMER_COMPLETION_CALLBACK 0] False
    by (simp add: timer_inv_def on_ice_complete_def Let_def all_valid_def all_nominated_def)
  then show ?thesis
    using assms(1) by (intro ice_inv_shapeI [of ice]) (auto simp: frame_simps ice_inv_def busy_inv_def)
qed

lemma send_keep_alive_ok:
  assumes "ice_inv ice" "all_nominated ice"
  shows "\<exists>ice'. send_keep_alive env ice = Some ice' \<and> ice_inv ice' \<and> ice_comp ice' = ice_comp ice \<and>
    ice_timer ice' = ice_timer ice"
proof -
  have p: "ptr_inv ice" and ka: "comp_ka ice < comp_cnt ice"
    using assms(1) by (auto simp: ice_inv_def ptr_inv_def)
  obtain ptr where n: "nominated_check (ice_comp ice ! comp_ka ice) = Some ptr"
    using assms(2) ka by (auto simp: all_nominated_def list_all_length)
  obtain k where k: "ptr = (VALID_LIST, k)" "k < length (valid_checks ice)"
    using ptr_okD [OF p ka] n by blast
  note v = ptr_invD_valid [OF p k(2)]
  define ice1 where "ice1 = (if create_ind_status env \<noteq> PJ_SUCCESS then ice
      else emit [SendIndication (comp_ka ice + 1) (cd_transport_id (lc_of ice (valid_checks ice ! k)))
                   (cd_addr (ice_rcand ice ! ck_rcand (valid_checks ice ! k)))] ice)"
  define ice' where "ice' = ice1\<lparr>comp_ka := (comp_ka ice + 1) mod comp_cnt ice\<rparr>"
  have run: "send_keep_alive env ice = Some ice'"
    using ka n k v by (auto simp: send_keep_alive_def check_at_def Let_def ice1_def ice'_def)
  have f: "ice_comp ice' = ice_comp ice" "ice_timer ice' = ice_timer ice" "clist ice' = clist ice"
    "valid_list ice' = valid_list ice" "ice_lcand ice' = ice_lcand ice" "ice_rcand ice' = ice_rcand ice"
    "is_complete ice' = is_complete ice" "ice_status ice' = ice_status ice"
    "is_destroying ice' = is_destroying ice" "comp_ka ice' = (comp_ka ice + 1) mod comp_cnt ice"
    by (auto simp: ice'_def ice1_def emit_def)
  have "0 < comp_cnt ice" using ka by linarith
  then have "(comp_ka ice + 1) mod comp_cnt ice < comp_cnt ice" by (rule mod_less_divisor)
  moreover have "pair_ok ice' = pair_ok ice" "ptr_ok ice' = ptr_ok ice"
    unfolding pair_ok_def [abs_def] ptr_ok_def [abs_def] f by (rule refl)+
  ultimately have "ptr_inv ice'" using p by (simp add: ptr_inv_def f)
  then have "ice_inv ice'"
    using assms(1) timer_inv_frame [of ice' ice] busy_inv_frame [of ice' ice] by (simp add: ice_inv_def f)
  then show ?thesis using run f by blast
qed

lemma ice_keep_alive_ok:
  assumes "ice_inv ice" "all_nominated ice"
  shows "\<exists>ice'. ice_keep_alive env ice b = Some ice' \<and> ice_inv ice'"
proof -
  obtain ice1 where i1: "(if b then send_keep_alive env ice else Some ice) = Some ice1"
    "ice_inv ice1" "ice_comp ice1 = ice_comp ice"
    using send_keep_alive_ok [OF assms] assms by (cases b) auto
  have c: "comp_cnt ice1 \<noteq> 0" and an: "all_nominated ice1"
    using i1 assms(2) by (auto simp: ice_inv_def ptr_inv_def all_nominated_def)
  have "ice_inv (ice1\<lparr>ice_timer := snd (slot_schedule_w_grp_lock (ice_timer ice1) d TIMER_KEEP_ALIVE)\<rparr>)" for d
    using i1(2) an
    by (intro ice_inv_shapeI [of ice1])
      (simp_all add: ice_inv_def shape_def timer_inv_def timer_ok_schedule busy_inv_def all_valid_def all_nominated_def)
  then show ?thesis
    using i1 c by (simp add: ice_keep_alive_def)
qed

subsection \<open>Changes that keep the pairs\<close>

lemma timer_inv_progress:
  assumes "timer_inv ice" "ice_timer ice' = ice_timer ice" "is_complete ice' = is_complete ice"
    "ice_status ice' = ice_status ice" "progress ice ice'"
  shows "timer_inv ice'"
  using assms by (auto simp: timer_inv_def timer_ok_def progress_def)

lemma ice_inv_emit [simp]: "ice_inv (emit acts ice) = ice_inv ice"
proof -
  have f: "shape (emit acts ice) = shape ice" "clist_checks (emit acts ice) = clist_checks ice"
    by (simp_all add: emit_def shape_def)
  show ?thesis
    using ptr_inv_shape [OF f(1)] timer_inv_frame [of "emit acts ice" ice] busy_inv_frame [OF _ f(2)]
    by (simp add: ice_inv_def) (simp add: emit_def)
qed

lemma ice_inv_set_clist [inv_intros]:
  assumes "ice_inv ice" "pairs cs = pairs (clist_checks ice)"
    "is_destroying ice \<or> (\<forall>c \<in> set cs. busy_ok c)"
  shows "ice_inv (set_checks CLIST cs ice)"
  using assms timer_inv_frame [of "set_checks CLIST cs ice" ice]
  by (intro ice_inv_shapeI [of ice]) (simp_all add: ice_inv_def shape_def busy_inv_def)

lemma ice_inv_upd_check [inv_intros]:
  assumes "ice_inv ice" "\<And>c. ck_lcand (f c) = ck_lcand c \<and> ck_rcand (f c) = ck_rcand c"
    "i < length (clist_checks ice) \<Longrightarrow> busy_ok (clist_checks ice ! i) \<or> is_destroying ice \<Longrightarrow>
       busy_ok (f (clist_checks ice ! i)) \<or> is_destroying ice"
  shows "ice_inv (upd_check i f ice)"
  unfolding upd_check_def
proof (rule ice_inv_set_clist [OF assms(1) pairs_update [OF assms(2)]])
  have b: "is_destroying ice \<or> (\<forall>c \<in> set (clist_checks ice). busy_ok c)"
    using assms(1) by (simp add: ice_inv_def busy_inv_def)
  show "is_destroying ice \<or> (\<forall>c \<in> set ((clist_checks ice)[i := f (clist_checks ice ! i)]). busy_ok c)"
  proof (cases "i < length (clist_checks ice)")
    case True
    then show ?thesis
      using b assms(3) nth_mem [OF True] by (auto dest!: set_update_subset_insert [THEN subsetD])
  next
    case False
    then show ?thesis using b by (simp add: list_update_beyond)
  qed
qed

lemma upd_check_frame [frame_simps, simp]:
  "ice_lcand (upd_check i f ice) = ice_lcand ice" "ice_rcand (upd_check i f ice) = ice_rcand ice"
  "ice_comp (upd_check i f ice) = ice_comp ice" "valid_list (upd_check i f ice) = valid_list ice"
  "ice_timer (upd_check i f ice) = ice_timer ice" "ice_role (upd_check i f ice) = ice_role ice"
  "is_nominating (upd_check i f ice) = is_nominating ice" "is_destroying (upd_check i f ice) = is_destroying ice"
  "early_check (upd_check i f ice) = early_check ice" "is_complete (upd_check i f ice) = is_complete ice"
  "ice_status (upd_check i f ice) = ice_status ice" "ice_opt (upd_check i f ice) = ice_opt ice"
  "tie_breaker (upd_check i f ice) = tie_breaker ice" "next_tdata (upd_check i f ice) = next_tdata ice"
  "clist_checks (upd_check i f ice) = (clist_checks ice)[i := f (clist_checks ice ! i)]"
  "rx_ufrag (upd_check i f ice) = rx_ufrag ice" "ice_out (upd_check i f ice) = ice_out ice"
  by (simp_all add: upd_check_def)

lemma emit_frame [frame_simps, simp]:
  "ice_lcand (emit a ice) = ice_lcand ice" "ice_rcand (emit a ice) = ice_rcand ice"
  "ice_comp (emit a ice) = ice_comp ice" "valid_list (emit a ice) = valid_list ice"
  "clist (emit a ice) = clist ice" "ice_timer (emit a ice) = ice_timer ice"
  "ice_role (emit a ice) = ice_role ice" "is_nominating (emit a ice) = is_nominating ice"
  "is_destroying (emit a ice) = is_destroying ice" "early_check (emit a ice) = early_check ice"
  "is_complete (emit a ice) = is_complete ice" "ice_status (emit a ice) = ice_status ice"
  "ice_opt (emit a ice) = ice_opt ice" "tie_breaker (emit a ice) = tie_breaker ice"
  "next_tdata (emit a ice) = next_tdata ice" "ice_out (emit a ice) = ice_out ice @ a"
  "has_on_ice_complete (emit a ice) = has_on_ice_complete ice" "rx_ufrag (emit a ice) = rx_ufrag ice"
  by (simp_all add: emit_def)

lemma ice_inv_next_tdata [simp]: "ice_inv (ice\<lparr>next_tdata := n\<rparr>) = ice_inv ice"
proof -
  have f: "shape (ice\<lparr>next_tdata := n\<rparr>) = shape ice" by (simp add: shape_def)
  show ?thesis
    using ptr_inv_shape [OF f] timer_inv_frame [of "ice\<lparr>next_tdata := n\<rparr>" ice]
    by (simp add: ice_inv_def busy_inv_def)
qed

lemma ice_inv_clist_timer [simp]:
  "ice_inv (ice\<lparr>clist := (clist ice)\<lparr>cl_timer := t\<rparr>\<rparr>) = ice_inv ice"
proof -
  have f: "shape (ice\<lparr>clist := (clist ice)\<lparr>cl_timer := t\<rparr>\<rparr>) = shape ice" by (simp add: shape_def)
  show ?thesis
    using ptr_inv_shape [OF f] timer_inv_frame [of "ice\<lparr>clist := (clist ice)\<lparr>cl_timer := t\<rparr>\<rparr>" ice]
    by (simp add: ice_inv_def busy_inv_def)
qed

lemma ice_inv_is_nominating [simp]: "ice_inv (ice\<lparr>is_nominating := b\<rparr>) = ice_inv ice"
proof -
  have f: "shape (ice\<lparr>is_nominating := b\<rparr>) = shape ice" by (simp add: shape_def)
  show ?thesis
    using ptr_inv_shape [OF f] timer_inv_frame [of "ice\<lparr>is_nominating := b\<rparr>" ice]
    by (simp add: ice_inv_def busy_inv_def)
qed

lemma ice_inv_timer [inv_intros]:
  assumes "ice_inv ice" "timer_ok t (is_complete ice) (ice_status ice) (all_valid ice) (all_nominated ice)"
  shows "ice_inv (ice\<lparr>ice_timer := t\<rparr>)"
  using assms by (intro ice_inv_shapeI [of ice])
    (simp_all add: ice_inv_def shape_def timer_inv_def busy_inv_def all_valid_def all_nominated_def)

lemma busy_ok_set_state [simp]:
  "busy_ok (check_set_state c st e) \<longleftrightarrow> (st = IN_PROGRESS \<longrightarrow> ck_tdata c \<noteq> None)"
  by (simp add: busy_ok_def check_set_state_def)

lemma check_set_state_sel [simp]:
  "ck_lcand (check_set_state c st e) = ck_lcand c" "ck_rcand (check_set_state c st e) = ck_rcand c"
  "ck_state (check_set_state c st e) = st" "ck_err_code (check_set_state c st e) = e"
  "ck_tdata (check_set_state c st e) = ck_tdata c" "ck_nominated (check_set_state c st e) = ck_nominated c"
  "ck_prio (check_set_state c st e) = ck_prio c"
  by (simp_all add: check_set_state_def)

subsection \<open>Valid and nominated check\<close>

lemma better_check_ok:
  assumes "\<And>q. old = Some q \<Longrightarrow> check_at ice q \<noteq> None" "check_at ice p \<noteq> None"
  shows "\<exists>q. better_check ice old p = Some (Some q) \<and> (Some q = old \<or> q = p)"
proof (cases old)
  case (Some q)
  then show ?thesis using assms by (auto simp: better_check_def simp del: split_paired_Ex)
qed (simp add: better_check_def)

lemma update_comp_check_ok:
  assumes p: "ptr_inv ice" and k: "k < length (valid_checks ice)"
    and c: "c = cd_comp_id (lc_of ice (valid_checks ice ! k))"
  shows "\<exists>comps. update_comp_check ice c (VALID_LIST, k) = Some (ice\<lparr>ice_comp := comps\<rparr>) \<and>
    ptr_inv (ice\<lparr>ice_comp := comps\<rparr>) \<and> progress ice (ice\<lparr>ice_comp := comps\<rparr>)"
proof -
  have c1: "1 \<le> c" "c \<le> comp_cnt ice" using ptr_invD_valid [OF p k] c by auto
  define i where "i = c - 1"
  have i: "i < comp_cnt ice" "c = Suc i" using c1 by (auto simp: i_def)
  define co where "co = ice_comp ice ! i"
  have at: "check_at ice q \<noteq> None" if "valid_check co = Some q \<or> nominated_check co = Some q" for q
    using ptr_okD [OF p i(1), of q] that by (auto simp: co_def check_at_def)
  have pk: "check_at ice (VALID_LIST, k) = Some (valid_checks ice ! k)" using k by (simp add: check_at_def)
  obtain qv where qv: "better_check ice (valid_check co) (VALID_LIST, k) = Some (Some qv)"
      "Some qv = valid_check co \<or> qv = (VALID_LIST, k)"
    using better_check_ok [of "valid_check co" ice "(VALID_LIST, k)"] at pk by auto
  obtain qn where qn: "(if ck_nominated (valid_checks ice ! k)
        then better_check ice (nominated_check co) (VALID_LIST, k) else Some (nominated_check co)) = Some qn"
      "qn = nominated_check co \<or> qn = Some (VALID_LIST, k)"
      "nominated_check co \<noteq> None \<longrightarrow> qn \<noteq> None"
    using better_check_ok [of "nominated_check co" ice "(VALID_LIST, k)"] at pk
    by (cases "ck_nominated (valid_checks ice ! k)") auto
  define comps where "comps = (ice_comp ice)[i := co\<lparr>valid_check := Some qv, nominated_check := qn\<rparr>]"
  have run: "update_comp_check ice c (VALID_LIST, k) = Some (ice\<lparr>ice_comp := comps\<rparr>)"
  proof -
    have cat: "comp_at ice (find_comp ice c) = Some co" using c1 by (simp add: comp_at_find_comp co_def i_def)
    show ?thesis unfolding update_comp_check_def cat by (simp add: qv(1) pk qn(1) comps_def i_def)
  qed
  have new: "ptr_ok ice i (Some (VALID_LIST, k))"
    using k c i by (simp add: ptr_ok_def nth_pairs)
  have old: "ptr_ok ice j (valid_check (ice_comp ice ! j))" "ptr_ok ice j (nominated_check (ice_comp ice ! j))"
    if "j < comp_cnt ice" for j
    using p that by (simp_all add: ptr_inv_def)
  have okv: "ptr_ok ice i (Some qv)" "ptr_ok ice i qn"
    using qv(2) qn(2) new old [OF i(1)] co_def by auto
  have len: "length comps = comp_cnt ice" by (simp add: comps_def)
  have po: "pair_ok (ice\<lparr>ice_comp := comps\<rparr>) = pair_ok ice" "ptr_ok (ice\<lparr>ice_comp := comps\<rparr>) = ptr_ok ice"
    unfolding pair_ok_def [abs_def] ptr_ok_def [abs_def] by (simp_all add: len cong: option.case_cong)
  have "\<forall>j < comp_cnt ice. ptr_ok ice j (valid_check (comps ! j)) \<and> ptr_ok ice j (nominated_check (comps ! j))"
    using old okv i by (auto simp: comps_def nth_list_update)
  then have "ptr_inv (ice\<lparr>ice_comp := comps\<rparr>)"
    using p unfolding ptr_inv_def po by (simp add: len)
  moreover have "progress ice (ice\<lparr>ice_comp := comps\<rparr>)"
    using qn(3) i(1)
    by (auto simp: progress_def all_valid_def all_nominated_def comps_def list_all_length nth_list_update co_def)
  ultimately show ?thesis using run by blast
qed

subsection \<open>Nominated checks\<close>

lemma nominate_comps_ok:
  assumes "ptr_inv ice" "\<forall>co \<in> set comps. \<exists>k. valid_check co = Some (VALID_LIST, k) \<and> k < length (valid_checks ice)"
    "\<forall>c \<in> set cs. ck_lcand c < length (ice_lcand ice)"
  shows "\<exists>cs'. nominate_comps ice comps cs = Some cs' \<and> pairs cs' = pairs cs \<and>
    ((\<forall>c \<in> set cs. busy_ok c) \<longrightarrow> (\<forall>c \<in> set cs'. busy_ok c))"
  using assms(2,3)
proof (induction comps arbitrary: cs)
  case (Cons co comps)
  then obtain k where k: "valid_check co = Some (VALID_LIST, k)" "k < length (valid_checks ice)" by auto
  note v = ptr_invD_valid [OF assms(1) k(2)]
  define j where "j = find_idx (\<lambda>c. cd_transport_id (ice_lcand ice ! ck_lcand c) =
      cd_transport_id (lc_of ice (valid_checks ice ! k)) \<and> ck_rcand c = ck_rcand (valid_checks ice ! k)) cs"
  define cs1 where "cs1 = (if j < length cs then cs[j := check_set_state (cs ! j) WAITING PJ_SUCCESS] else cs)"
  have p1: "pairs cs1 = pairs cs" by (simp add: cs1_def pairs_update [of "\<lambda>c. check_set_state c WAITING PJ_SUCCESS"])
  have b1: "\<forall>c \<in> set cs1. busy_ok c" if "\<forall>c \<in> set cs. busy_ok c"
    using that by (auto simp: cs1_def split: if_splits dest!: set_update_subset_insert [THEN subsetD])
  have l1: "\<forall>c \<in> set cs1. ck_lcand c < length (ice_lcand ice)"
    using Cons.prems(2) nth_mem [of j cs]
    by (auto simp: cs1_def split: if_splits dest!: set_update_subset_insert [THEN subsetD])
  obtain cs' where cs': "nominate_comps ice comps cs1 = Some cs'" "pairs cs' = pairs cs1"
      "(\<forall>c \<in> set cs1. busy_ok c) \<longrightarrow> (\<forall>c \<in> set cs'. busy_ok c)"
    using Cons.IH [OF _ l1] Cons.prems(1) by auto
  have "nominate_comps ice (co # comps) cs = Some cs'"
    using k v Cons.prems(2) cs'(1) by (simp add: check_at_VALID list_all_iff Let_def flip: j_def cs1_def split del: if_split cong: if_cong)
  then show ?case using cs' p1 b1 by auto
qed simp

lemma start_nominated_check_ok:
  assumes "ice_inv ice" "all_valid ice"
  shows "\<exists>ice'. start_nominated_check ice = Some ice' \<and> ice_inv ice'"
proof -
  define ice1 where "ice1 = (if tm_id (ice_timer ice) = TIMER_START_NOMINATED_CHECK
      then ice\<lparr>ice_timer := slot_cancel_if_active (ice_timer ice) TIMER_NONE\<rparr> else ice)"
  have t: "timer_ok (ice_timer ice) (is_complete ice) (ice_status ice) (all_valid ice) (all_nominated ice)"
    using assms(1) by (simp add: ice_inv_def timer_inv_def)
  have i1: "ice_inv ice1"
    using assms(1) ice_inv_timer [OF assms(1) timer_ok_cancel [OF t]] by (simp add: ice1_def)
  then have p: "ptr_inv ice1" by (simp add: ice_inv_def)
  have f: "ice_comp ice1 = ice_comp ice" by (simp add: ice1_def)
  have A: "\<forall>co \<in> set (ice_comp ice1). \<exists>k. valid_check co = Some (VALID_LIST, k) \<and> k < length (valid_checks ice1)"
  proof
    fix co assume "co \<in> set (ice_comp ice1)"
    then obtain i where i: "i < comp_cnt ice1" "co = ice_comp ice1 ! i" by (auto simp: in_set_conv_nth)
    then obtain q where q: "valid_check co = Some q"
      using assms(2) f by (auto simp: all_valid_def list_all_length)
    then show "\<exists>k. valid_check co = Some (VALID_LIST, k) \<and> k < length (valid_checks ice1)"
      using ptr_okD [OF p i(1)] i(2) by blast
  qed
  have B: "\<forall>c \<in> set (clist_checks ice1). ck_lcand c < length (ice_lcand ice1)"
    using ptr_inv_lcands_in_range [OF p] by (simp add: lcands_in_range_def list_all_iff)
  obtain cs where cs: "nominate_comps ice1 (ice_comp ice1) (clist_checks ice1) = Some cs"
      "pairs cs = pairs (clist_checks ice1)"
      "(\<forall>c \<in> set (clist_checks ice1). busy_ok c) \<longrightarrow> (\<forall>c \<in> set cs. busy_ok c)"
    using nominate_comps_ok [OF p A B] by blast
  have "ice_inv (set_checks CLIST cs ice1)"
  proof (rule ice_inv_set_clist [OF i1 cs(2)])
    show "is_destroying ice1 \<or> (\<forall>c \<in> set cs. busy_ok c)"
      using i1 cs(3) by (auto simp: ice_inv_def busy_inv_def)
  qed
  then have "ice_inv ((restart_periodic (set_checks CLIST cs ice1))\<lparr>is_nominating := True\<rparr>)"
    unfolding restart_periodic_def ice_inv_is_nominating ice_inv_clist_timer .
  moreover have "start_nominated_check ice =
      Some ((restart_periodic (set_checks CLIST cs ice1))\<lparr>is_nominating := True\<rparr>)"
    unfolding start_nominated_check_def Let_def ice1_def [symmetric] cs(1) by simp
  ultimately show ?thesis by blast
qed

subsection \<open>A check completes\<close>

lemma unfreeze_check_pair:
  "ck_lcand (unfreeze_check ice f c) = ck_lcand c \<and> ck_rcand (unfreeze_check ice f c) = ck_rcand c"
  by (simp add: unfreeze_check_def)

lemma busy_unfreeze: "busy_ok c \<Longrightarrow> busy_ok (unfreeze_check ice f c)"
  by (simp add: unfreeze_check_def)

lemma stop_check_pair:
  "ck_lcand (stop_check ice d c) = ck_lcand c \<and> ck_rcand (stop_check ice d c) = ck_rcand c"
  by (simp add: stop_check_def)

lemma busy_stop: "busy_ok c \<Longrightarrow> busy_ok (stop_check ice d c)"
  by (simp add: stop_check_def)

lemma ice_inv_map_clist:
  assumes "ice_inv ice" "\<And>c. ck_lcand (f c) = ck_lcand c \<and> ck_rcand (f c) = ck_rcand c"
    "\<And>c. busy_ok c \<Longrightarrow> busy_ok (f c)"
  shows "ice_inv (set_checks CLIST (map f (clist_checks ice)) ice)"
proof (rule ice_inv_set_clist [OF assms(1) pairs_map [OF assms(2)]])
  show "is_destroying ice \<or> (\<forall>c \<in> set (map f (clist_checks ice)). busy_ok c)"
    using assms(1,3) by (auto simp: ice_inv_def busy_inv_def)
qed

lemma unfreeze_foundation_ok:
  assumes "ice_inv ice"
  shows "\<exists>cs. unfreeze_foundation ice check = Some (set_checks CLIST cs ice) \<and>
    ice_inv (set_checks CLIST cs ice) \<and> pairs cs = pairs (clist_checks ice)"
  using assms ptr_inv_lcands_in_range
  by (simp add: unfreeze_foundation_def ice_inv_map_clist unfreeze_check_pair busy_unfreeze pairs_map
      ice_inv_def [of ice] del: set_checks.simps) (metis ice_inv_map_clist assms unfreeze_check_pair busy_unfreeze
      pairs_map)

lemma stop_component_ok:
  assumes "ice_inv ice" "1 \<le> cd_comp_id (lc_of ice check)" "cd_comp_id (lc_of ice check) \<le> comp_cnt ice"
  shows "\<exists>cs acts. stop_component ice check = Some (emit acts (set_checks CLIST cs ice)) \<and>
    ice_inv (set_checks CLIST cs ice)"
proof -
  have "lcands_in_range ice" using assms(1) ptr_inv_lcands_in_range by (simp add: ice_inv_def)
  moreover have "ice_inv (set_checks CLIST (map (stop_check ice check) (clist_checks ice)) ice)"
    using assms(1) stop_check_pair busy_stop by (intro ice_inv_map_clist)
  ultimately show ?thesis
    using assms(2,3) unfolding stop_component_def by (auto simp: comp_at_find_comp)
qed

lemma checklist_exhausted_ok:
  assumes "ice_inv ice"
  shows "\<exists>b ice'. checklist_exhausted ice = Some (b, ice') \<and> ice_inv ice'"
proof -
  have t: "timer_ok (ice_timer ice) (is_complete ice) (ice_status ice) (all_valid ice) (all_nominated ice)"
    using assms by (simp add: ice_inv_def timer_inv_def)
  have w: "ice_inv (ice\<lparr>ice_timer := snd (slot_schedule_w_grp_lock (ice_timer ice) d TIMER_CONTROLLED_WAIT_NOM)\<rparr>)" for d
    using timer_ok_schedule [OF t] by (intro ice_inv_timer [OF assms]) simp
  have f: "ice_inv (on_ice_complete ice PJNATH_EICEFAILED)"
    using assms by (rule on_ice_complete_inv) simp
  show ?thesis
  proof (cases "ice_role ice \<noteq> PJ_ICE_SESS_ROLE_CONTROLLED \<and> \<not> is_nominating ice \<and> all_valid ice")
    case True
    then show ?thesis using start_nominated_check_ok [OF assms] by (auto simp: checklist_exhausted_def)
  next
    case False
    then show ?thesis using f w assms by (auto simp: checklist_exhausted_def)
  qed
qed

lemma schedule_nomination_inv:
  assumes "ice_inv ice" shows "ice_inv (schedule_nomination ice check)"
proof -
  have t: "timer_ok (ice_timer ice) (is_complete ice) (ice_status ice) (all_valid ice) (all_nominated ice)"
    using assms by (simp add: ice_inv_def timer_inv_def)
  show ?thesis
    unfolding schedule_nomination_def
    using assms ice_inv_timer [OF assms timer_ok_schedule [OF timer_ok_cancel [OF t]]] by simp
qed

lemma on_check_complete_ok:
  assumes "ice_inv ice" "ckid < length (clist_checks ice)"
  shows "\<exists>b ice'. on_check_complete ice ckid = Some (b, ice') \<and> ice_inv ice'"
proof -
  define check where "check = clist_checks ice ! ckid"
  have p: "ptr_inv ice" using assms(1) by (simp add: ice_inv_def)
  note c = ptr_invD_clist [OF p assms(2), folded check_def]
  obtain ice1 where i1: "(if ck_err_code check = PJ_SUCCESS then unfreeze_foundation ice check else Some ice) = Some ice1"
      "ice_inv ice1" "ice_lcand ice1 = ice_lcand ice" "ice_comp ice1 = ice_comp ice"
    using unfreeze_foundation_ok [OF assms(1), of check] assms(1) by (cases "ck_err_code check = PJ_SUCCESS") auto
  obtain ice2 where i2: "(if ck_err_code check = PJ_SUCCESS \<and> ck_nominated check
        then stop_component ice1 check else Some ice1) = Some ice2" "ice_inv ice2"
    using stop_component_ok [OF i1(2), of check] i1 c
    by (cases "ck_err_code check = PJ_SUCCESS \<and> ck_nominated check") auto
  have "on_check_complete ice ckid =
      (if all_nominated ice2 then Some (True, on_ice_complete ice2 PJ_SUCCESS)
       else if all_checks_done ice2 then checklist_exhausted ice2
       else Some (False, schedule_nomination ice2 check))"
    using assms(2) c(1) unfolding on_check_complete_def
    by (simp add: i1(1) i2(1) flip: check_def split del: if_split)
  then show ?thesis
    using i2(2) on_ice_complete_inv checklist_exhausted_ok schedule_nomination_inv by auto
qed

subsection \<open>Performing a check\<close>

lemma perform_check_ok:
  assumes "ice_inv ice" "i < length (clist_checks ice)" "ck_state (clist_checks ice ! i) \<noteq> IN_PROGRESS"
  shows "\<exists>st ice'. perform_check env ice i b = Some (st, ice') \<and> ice_inv ice' \<and> early_check ice' = early_check ice"
proof -
  have p: "ptr_inv ice" using assms(1) by (simp add: ice_inv_def)
  note c = ptr_invD_clist [OF p assms(2)]
  define td where "td = next_tdata ice"
  define use where "use = (ice_role ice = PJ_ICE_SESS_ROLE_CONTROLLING \<and> b)"
  have i1: "ice_inv (upd_check i (\<lambda>c. c\<lparr>ck_tdata := Some td, ck_nominated := ck_nominated c \<or> use\<rparr>)
      (ice\<lparr>next_tdata := Suc td\<rparr>))" (is "ice_inv ?ice1")
    using assms(1) by (intro ice_inv_upd_check) (auto simp: busy_ok_def)
  have i2: "ice_inv (upd_check i (\<lambda>c. c\<lparr>ck_tdata := None\<rparr>) (emit acts ?ice1))" for acts
    using i1 assms(2,3) by (intro ice_inv_upd_check) (auto simp: busy_ok_def)
  have i3: "ice_inv (upd_check i (\<lambda>c. check_set_state c IN_PROGRESS PJ_SUCCESS) (emit acts ?ice1))" for acts
    using i1 assms(2) by (intro ice_inv_upd_check) auto
  show ?thesis
    using assms(1,2) c i2 i3
    by (simp add: perform_check_def comp_at_find_comp Let_def td_def use_def)
qed

lemma find_idx_state:
  "i = find_idx (\<lambda>c. P (ck_state c)) cs \<Longrightarrow> i < length cs \<Longrightarrow> P (ck_state (cs ! i))"
  using find_idx_nth [of "\<lambda>c. P (ck_state c)" cs] by simp

lemma next_check_state:
  "next_check cs < length cs \<Longrightarrow>
   ck_state (cs ! next_check cs) = WAITING \<or> ck_state (cs ! next_check cs) = FROZEN"
  using find_idx_nth [of "\<lambda>c. ck_state c = WAITING" cs] find_idx_nth [of "\<lambda>c. ck_state c = FROZEN" cs]
  by (auto simp: next_check_def Let_def split: if_splits)

lemma ice_inv_cl_state [simp]: "ice_inv (ice\<lparr>clist := clist_set_state (clist ice) st\<rparr>) = ice_inv ice"
proof -
  have f: "shape (ice\<lparr>clist := clist_set_state (clist ice) st\<rparr>) = shape ice"
    by (simp add: shape_def clist_set_state_def)
  show ?thesis
    using ptr_inv_shape [OF f] timer_inv_frame [of "ice\<lparr>clist := clist_set_state (clist ice) st\<rparr>" ice]
    by (simp add: ice_inv_def busy_inv_def) (simp add: clist_set_state_def)
qed

lemma start_periodic_check_ok:
  assumes "ice_inv ice"
  shows "\<exists>st ice'. start_periodic_check env ice = Some (st, ice') \<and> ice_inv ice'"
proof (cases "is_destroying ice")
  case False
  define ice0 where "ice0 = ice\<lparr>clist := (clist ice)\<lparr>cl_timer := (cl_timer (clist ice))\<lparr>tm_id := False\<rparr>\<rparr>\<rparr>"
  define ice1 where "ice1 = ice0\<lparr>clist := clist_set_state (clist ice0) ST_RUNNING\<rparr>"
  have eq: "ice1 = ice\<lparr>clist := clist_set_state
      ((clist ice)\<lparr>cl_timer := (cl_timer (clist ice))\<lparr>tm_id := False\<rparr>\<rparr>) ST_RUNNING\<rparr>"
    by (simp add: ice1_def ice0_def)
  have i1: "ice_inv ice1" using assms by (simp only: ice1_def ice0_def ice_inv_cl_state ice_inv_clist_timer)
  define i where "i = next_check (clist_checks ice1)"
  show ?thesis
  proof (cases "i < length (clist_checks ice1)")
    case True
    then have "ck_state (clist_checks ice1 ! i) \<noteq> IN_PROGRESS"
      using next_check_state [of "clist_checks ice1"] by (auto simp: i_def)
    then obtain st ice2 where r: "perform_check env ice1 i (is_nominating ice1) = Some (st, ice2)" "ice_inv ice2"
      using perform_check_ok [OF i1 True] by blast
    have "start_periodic_check env ice = Some (if st \<noteq> PJ_SUCCESS then (st, ice2)
          else (PJ_SUCCESS, ice2\<lparr>clist := (clist ice2)\<lparr>cl_timer :=
             snd (slot_schedule_w_grp_lock (cl_timer (clist ice2)) PJ_ICE_TA_VAL True)\<rparr>\<rparr>))"
      unfolding start_periodic_check_def eq [symmetric] Let_def i_def [symmetric] using False True r(1) by simp
    then show ?thesis using r(2) by auto
  next
    case F: False
    have "start_periodic_check env ice = Some (PJ_SUCCESS, ice1)"
      unfolding start_periodic_check_def eq [symmetric] Let_def i_def [symmetric] using False F by simp
    then show ?thesis using i1 by blast
  qed
qed (simp add: start_periodic_check_def assms)

lemma periodic_timer_ok:
  assumes "ice_inv ice"
  shows "\<exists>ice'. periodic_timer env ice = Some ice' \<and> ice_inv ice'"
proof -
  have "ice_inv (ice\<lparr>clist := (clist ice)\<lparr>cl_timer := (cl_timer (clist ice))\<lparr>tm_delay := None\<rparr>\<rparr>\<rparr>)"
    using assms by simp
  from start_periodic_check_ok [OF this, of env] show ?thesis by (auto simp: periodic_timer_def)
qed

end
