(* ===== verification/IceHandlerSafety.thy ===== *)
theory IceHandlerSafety
  imports IceSafety
begin

text \<open>
  Every entry point of the session keeps the invariant of \<open>IceSafety\<close> and never reads through NULL or
  outside an array, under the guards its caller
  has to respect.
\<close>

subsection \<open>Frame lemmas for the entry points\<close>

lemma ice_inv_fields [simp]:
  "ice_inv (ice\<lparr>early_check := e\<rparr>) = ice_inv ice" "ice_inv (ice\<lparr>ice_role := r\<rparr>) = ice_inv ice"
  "ice_inv (ice\<lparr>ice_opt := opt\<rparr>) = ice_inv ice" "ice_inv (ice\<lparr>prefs := ps\<rparr>) = ice_inv ice"
  "ice_inv (ice\<lparr>rx_uname := u\<rparr>) = ice_inv ice"
proof -
  have f: "shape (ice\<lparr>early_check := e\<rparr>) = shape ice" "shape (ice\<lparr>ice_role := r\<rparr>) = shape ice"
    "shape (ice\<lparr>ice_opt := opt\<rparr>) = shape ice" "shape (ice\<lparr>prefs := ps\<rparr>) = shape ice"
    "shape (ice\<lparr>rx_uname := u\<rparr>) = shape ice"
    by (simp_all add: shape_def)
  note p = f [THEN ptr_inv_shape]
  show "ice_inv (ice\<lparr>early_check := e\<rparr>) = ice_inv ice" "ice_inv (ice\<lparr>ice_role := r\<rparr>) = ice_inv ice"
    "ice_inv (ice\<lparr>ice_opt := opt\<rparr>) = ice_inv ice" "ice_inv (ice\<lparr>prefs := ps\<rparr>) = ice_inv ice"
    "ice_inv (ice\<lparr>rx_uname := u\<rparr>) = ice_inv ice"
    using p timer_inv_frame [of "ice\<lparr>early_check := e\<rparr>" ice] timer_inv_frame [of "ice\<lparr>ice_role := r\<rparr>" ice]
      timer_inv_frame [of "ice\<lparr>ice_opt := opt\<rparr>" ice] timer_inv_frame [of "ice\<lparr>prefs := ps\<rparr>" ice]
      timer_inv_frame [of "ice\<lparr>rx_uname := u\<rparr>" ice]
    by (simp_all add: ice_inv_def busy_inv_def)
qed

lemma ice_inv_change_role [simp]: "ice_inv (pj_ice_sess_change_role ice r) = ice_inv ice"
  by (simp add: pj_ice_sess_change_role_def)

lemma change_role_frame [simp]:
  "early_check (pj_ice_sess_change_role ice r) = early_check ice"
  "clist (pj_ice_sess_change_role ice r) = clist ice" "ice_rcand (pj_ice_sess_change_role ice r) = ice_rcand ice"
  "is_destroying (pj_ice_sess_change_role ice r) = is_destroying ice"
  by (simp_all add: pj_ice_sess_change_role_def)

text \<open>A new array of candidates, components or checks whose pairs are all in order.\<close>

lemma ice_invI_grow:
  assumes "ice_inv ice" "ptr_inv ice'" "ice_timer ice' = ice_timer ice" "is_complete ice' = is_complete ice"
    "ice_status ice' = ice_status ice" "progress ice ice'" "busy_inv ice'"
  shows "ice_inv ice'"
  using assms timer_inv_progress [of ice ice'] by (simp add: ice_inv_def)

lemma progress_comp: "ice_comp ice' = ice_comp ice \<Longrightarrow> progress ice ice'"
  by (simp add: progress_def all_valid_def all_nominated_def)

lemma ice_inv_set_valid:
  assumes "ice_inv ice" "pairs vs = pairs (valid_checks ice)"
  shows "ice_inv (set_checks VALID_LIST vs ice)"
  using assms timer_inv_frame [of "set_checks VALID_LIST vs ice" ice]
  by (intro ice_inv_shapeI [of ice]) (simp_all add: ice_inv_def shape_def busy_inv_def)

lemma ice_inv_comps:
  assumes "ice_inv ice" "ptr_inv (ice\<lparr>ice_comp := comps\<rparr>)" "progress ice (ice\<lparr>ice_comp := comps\<rparr>)"
  shows "ice_inv (ice\<lparr>ice_comp := comps\<rparr>)"
  using assms by (intro ice_invI_grow [OF assms(1)]) (simp_all add: ice_inv_def busy_inv_def)

subsection \<open>Triggered checks\<close>

lemma ice_inv_rcand_append:
  assumes "ice_inv ice" "length (ice_rcand ice) < PJ_ICE_MAX_CAND"
  shows "ice_inv (ice\<lparr>ice_rcand := ice_rcand ice @ [r]\<rparr>)" (is "ice_inv ?ice'")
proof -
  have p: "ptr_inv ice" using assms(1) by (simp add: ice_inv_def)
  have "pair_ok ?ice' q" if "pair_ok ice q" for q using that by (auto simp: pair_ok_def)
  moreover have "ptr_ok ?ice' = ptr_ok ice"
    unfolding ptr_ok_def [abs_def] by (simp cong: option.case_cong)
  ultimately have "ptr_inv ?ice'" using p assms(2) by (simp add: ptr_inv_def)
  then show ?thesis
    using assms(1) by (intro ice_invI_grow [OF assms(1)]) (simp_all add: progress_comp ice_inv_def busy_inv_def)
qed

lemma learn_rcand_ok:
  assumes "ice_inv ice" "learn_rcand env ice rc = Some (r, ice1)"
  shows "ice_inv ice1" "r < length (ice_rcand ice1)" "clist ice1 = clist ice" "early_check ice1 = early_check ice"
    "ice_lcand ice1 = ice_lcand ice" "is_destroying ice1 = is_destroying ice"
  using assms ice_inv_rcand_append [OF assms(1)] find_idx_neq_length
  by (auto simp: learn_rcand_def Let_def split: if_splits)

lemma nominate_valid_ok:
  assumes "ice_inv ice" "\<forall>j \<in> set js. j < length (valid_checks ice)"
  shows "\<exists>ice'. nominate_valid js tp rc ice = Some ice' \<and> ice_inv ice' \<and> clist ice' = clist ice \<and>
    early_check ice' = early_check ice \<and> is_destroying ice' = is_destroying ice"
  using assms
proof (induction js arbitrary: ice)
  case (Cons j js)
  define vc where "vc = valid_checks ice ! j"
  have j: "j < length (valid_checks ice)" using Cons.prems by simp
  have p: "ptr_inv ice" using Cons.prems by (simp add: ice_inv_def)
  note v = ptr_invD_valid [OF p j, folded vc_def]
  show ?case
  proof (cases "cd_transport_id (lc_of ice vc) = tp \<and> ck_rcand vc = rc")
    case True
    define ice1 where "ice1 = set_checks VALID_LIST ((valid_checks ice)[j := vc\<lparr>ck_nominated := True\<rparr>]) ice"
    have i1: "ice_inv ice1"
      unfolding ice1_def using Cons.prems(1)
      by (rule ice_inv_set_valid) (simp add: vc_def pairs_update [of "\<lambda>c. c\<lparr>ck_nominated := True\<rparr>"])
    have f: "length (valid_checks ice1) = length (valid_checks ice)" "ice_lcand ice1 = ice_lcand ice"
      "ck_lcand (valid_checks ice1 ! j) = ck_lcand vc"
      using j by (simp_all add: ice1_def)
    have p1: "ptr_inv ice1" using i1 by (simp add: ice_inv_def)
    obtain comps where c: "update_comp_check ice1 (cd_comp_id (lc_of ice vc)) (VALID_LIST, j) = Some (ice1\<lparr>ice_comp := comps\<rparr>)"
        "ptr_inv (ice1\<lparr>ice_comp := comps\<rparr>)" "progress ice1 (ice1\<lparr>ice_comp := comps\<rparr>)"
      using update_comp_check_ok [OF p1, of j] j f by auto
    obtain ice' where "nominate_valid js tp rc (ice1\<lparr>ice_comp := comps\<rparr>) = Some ice'" "ice_inv ice'"
        "clist ice' = clist ice1" "early_check ice' = early_check ice1" "is_destroying ice' = is_destroying ice1"
      using Cons.IH [OF ice_inv_comps [OF i1 c(2,3)]] Cons.prems(2) f by auto
    moreover have "clist ice1 = clist ice" "early_check ice1 = early_check ice" "is_destroying ice1 = is_destroying ice"
      by (simp_all add: ice1_def)
    moreover have "nominate_valid (j # js) tp rc ice = nominate_valid js tp rc (ice1\<lparr>ice_comp := comps\<rparr>)"
      using j v True c(1) by (simp add: ice1_def flip: vc_def)
    ultimately show ?thesis by simp
  next
    case False
    then have "nominate_valid (j # js) tp rc ice = nominate_valid js tp rc ice"
      using j v by (auto simp flip: vc_def)
    then show ?thesis using Cons.IH Cons.prems by simp
  qed
qed simp

lemma map_option_snd_ok:
  "\<exists>a ice'. f = Some (a, ice') \<and> P ice' \<Longrightarrow> \<exists>ice'. map_option snd f = Some ice' \<and> P ice'"
  by auto

lemma trigger_known_ok:
  assumes "ice_inv ice" "i < length (clist_checks ice)"
    "1 \<le> rx_comp_id rc" "rx_comp_id rc \<le> comp_cnt ice"
  shows "\<exists>ice'. trigger_known env ice rc i = Some ice' \<and> ice_inv ice'"
proof -
  define ice1 where "ice1 = upd_check i (\<lambda>c. c\<lparr>ck_nominated := rx_use_candidate rc \<or> ck_nominated c\<rparr>) ice"
  define c where "c = clist_checks ice1 ! i"
  have i1: "ice_inv ice1" unfolding ice1_def
    using assms(1) by (intro ice_inv_upd_check) (auto simp: busy_ok_def)
  have len: "i < length (clist_checks ice1)" using assms(2) by (simp add: ice1_def)
  have co: "comp_at ice1 (find_comp ice1 (rx_comp_id rc)) \<noteq> None"
    using assms(3,4) by (simp add: comp_at_find_comp ice1_def)
  have eq: "trigger_known env ice rc i = (if ck_state c = FROZEN \<or> ck_state c = WAITING
     then map_option snd (perform_check env ice1 i (ck_nominated c \<or> is_nominating ice1))
     else if ck_state c = IN_PROGRESS
     then do {
       co \<leftarrow> comp_at ice1 (find_comp ice1 (rx_comp_id rc));
       Some (case ck_tdata c of None \<Rightarrow> ice1
             | Some td \<Rightarrow> emit [RetransmitRequest (rx_comp_id rc) td] ice1) }
     else if ck_state c = SUCCEEDED
     then do {
       ice2 \<leftarrow> (if rx_use_candidate rc
                then nominate_valid [0..<length (valid_checks ice1)]
                       (cd_transport_id (lc_of ice1 c)) (ck_rcand c) ice1
                else Some ice1);
       map_option snd (on_check_complete ice2 i) }
     else Some ice1)"
    unfolding trigger_known_def Let_def ice1_def c_def ..
  obtain ice2 where i2: "(if rx_use_candidate rc
                then nominate_valid [0..<length (valid_checks ice1)]
                       (cd_transport_id (lc_of ice1 c)) (ck_rcand c) ice1
                else Some ice1) = Some ice2" "ice_inv ice2" "clist ice2 = clist ice1"
    using nominate_valid_ok [OF i1, of "[0..<length (valid_checks ice1)]"] i1
    by (cases "rx_use_candidate rc") fastforce+
  have P: "\<exists>ice'. map_option snd (perform_check env ice1 i b) = Some ice' \<and> ice_inv ice'"
    if "ck_state c = FROZEN \<or> ck_state c = WAITING" for b
    using perform_check_ok [OF i1 len, of env b] that by (intro map_option_snd_ok) (auto simp flip: c_def)
  have C: "\<exists>ice'. map_option snd (on_check_complete ice2 i) = Some ice' \<and> ice_inv ice'"
    using on_check_complete_ok [OF i2(2), of i] i2(3) len by (intro map_option_snd_ok) simp
  show ?thesis
    unfolding eq using P C i2(1) co i1 by (cases "ck_state c") (auto split: option.split)
qed

lemma ice_inv_clist_append:
  assumes "ice_inv ice" "length (clist_checks ice) < PJ_ICE_MAX_CHECKS" "busy_ok c"
    "pair_ok ice (ck_lcand c, ck_rcand c)"
  shows "ice_inv (set_checks CLIST (clist_checks ice @ [c]) ice)" (is "ice_inv ?ice'")
proof -
  have p: "ptr_inv ice" using assms(1) by (simp add: ice_inv_def)
  have "pair_ok ?ice' = pair_ok ice" "ptr_ok ?ice' = ptr_ok ice"
    unfolding pair_ok_def [abs_def] ptr_ok_def [abs_def] by (simp_all cong: option.case_cong)
  then have "ptr_inv ?ice'" using p assms(2,4) by (auto simp: ptr_inv_def pairs_def)
  then show ?thesis
    using assms(1,3) by (intro ice_invI_grow [OF assms(1)]) (auto simp: progress_comp ice_inv_def busy_inv_def)
qed

lemma trigger_new_ok:
  assumes "ice_inv ice" "length (clist_checks ice) < PJ_ICE_MAX_CHECKS" "pair_ok ice (l, r)"
  shows "\<exists>ice'. trigger_new env ice rc l r = Some ice' \<and> ice_inv ice'"
proof -
  define c where "c = \<lparr>ck_lcand = l, ck_rcand = r,
      ck_prio = CALC_CHECK_PRIO (ice_role ice) (cd_prio (ice_lcand ice ! l)) (cd_prio (ice_rcand ice ! r)),
      ck_state = WAITING, ck_tdata = None, ck_nominated = rx_use_candidate rc, ck_err_code = PJ_SUCCESS\<rparr>"
  have "ice_inv (set_checks CLIST (clist_checks ice @ [c]) ice)"
    using assms by (intro ice_inv_clist_append) (simp_all add: c_def busy_ok_def)
  from perform_check_ok [OF this, of "length (clist_checks ice)" env "rx_use_candidate rc \<or> is_nominating ice"]
  show ?thesis unfolding trigger_new_def Let_def c_def [symmetric]
    by (intro map_option_snd_ok) (auto simp: c_def)
qed

lemma handle_incoming_check_ok:
  assumes "ice_inv ice"
  shows "\<exists>ice'. handle_incoming_check env ice rc = Some ice' \<and> ice_inv ice'"
proof (cases "learn_rcand env ice rc")
  case None
  then show ?thesis using assms by (simp add: handle_incoming_check_def)
next
  case (Some q)
  obtain r ice1 where q: "q = (r, ice1)" by (cases q)
  note L = learn_rcand_ok [OF assms, of env rc r ice1, unfolded Some q, OF refl]
  have p: "ptr_inv ice1" using L(1) by (simp add: ice_inv_def)
  define k where "k = find_idx (\<lambda>c. cd_comp_id (lc_of ice1 c) = rx_comp_id rc \<and>
      cd_transport_id (lc_of ice1 c) = rx_transport_id rc) (clist_checks ice1)"
  show ?thesis
  proof (cases "k = length (clist_checks ice1)")
    case True
    then show ?thesis
      using Some q L(1) ptr_inv_lcands_in_range [OF p]
      unfolding handle_incoming_check_def by (simp add: Let_def flip: k_def)
  next
    case False
    define l where "l = ck_lcand (clist_checks ice1 ! k)"
    define i where "i = find_idx (\<lambda>c. ck_lcand c = l \<and> ck_rcand c = r) (clist_checks ice1)"
    have k: "k < length (clist_checks ice1)" using False unfolding k_def by (simp only: find_idx_neq_length)
    have kc: "cd_comp_id (ice_lcand ice1 ! l) = rx_comp_id rc"
      using find_idx_nth [OF k [unfolded k_def]] by (simp flip: k_def l_def)
    note c = ptr_invD_clist [OF p k, folded l_def]
    have eq: "handle_incoming_check env ice rc =
        (if i \<noteq> length (clist_checks ice1) then trigger_known env ice1 rc i
         else if length (clist_checks ice1) < PJ_ICE_MAX_CHECKS then trigger_new env ice1 rc l r else Some ice1)"
      using Some q False ptr_inv_lcands_in_range [OF p]
      unfolding handle_incoming_check_def by (simp add: Let_def i_def l_def flip: k_def)
    have i: "i < length (clist_checks ice1)" if "i \<noteq> length (clist_checks ice1)"
      using that unfolding i_def by (simp only: find_idx_neq_length)
    have "pair_ok ice1 (l, r)" using c L(2) by (simp add: pair_ok_def)
    then show ?thesis
      unfolding eq
      using L(1) i trigger_known_ok [OF L(1), of i rc env] trigger_new_ok [OF L(1), of l r env rc] c kc by auto
  qed
qed

subsection \<open>Starting the checks\<close>

lemma unfreeze_first_ok:
  assumes "\<forall>c \<in> set cs. ck_lcand c < length ls" "length ls \<le> PJ_ICE_MAX_CAND" "distinct flist"
    "set flist \<subseteq> cd_foundation ` set ls"
  shows "\<exists>cs'. unfreeze_first ls comp0 flist cs = Some cs' \<and> pairs cs' = pairs cs \<and>
    ((\<forall>c \<in> set cs. busy_ok c) \<longrightarrow> (\<forall>c \<in> set cs'. busy_ok c))"
  using assms(1,3,4)
proof (induction cs arbitrary: flist)
  case (Cons c cs)
  define f where "f = cd_foundation (ls ! ck_lcand c)"
  have fin: "f \<in> cd_foundation ` set ls" using Cons.prems(1) by (simp add: f_def)
  show ?case
  proof (cases "cd_comp_id (ls ! ck_lcand c) = comp0 \<and> f \<notin> set flist")
    case True
    have "card (set (flist @ [f])) \<le> card (cd_foundation ` set ls)"
      using Cons.prems fin by (intro card_mono) auto
    also have "\<dots> \<le> PJ_ICE_MAX_CAND"
      using card_image_le [OF finite_set, of cd_foundation ls] card_length [of ls] assms(2) by linarith
    finally have room: "length flist < PJ_ICE_MAX_CAND"
      using True Cons.prems(2) distinct_card [of "flist @ [f]"] by simp
    obtain cs' where "unfreeze_first ls comp0 (flist @ [f]) cs = Some cs'" "pairs cs' = pairs cs"
        "(\<forall>c \<in> set cs. busy_ok c) \<longrightarrow> (\<forall>c \<in> set cs'. busy_ok c)"
      using Cons.IH [of "flist @ [f]"] Cons.prems True fin by auto
    then show ?thesis using True room Cons.prems(1) by (auto simp: pairs_def simp flip: f_def)
  next
    case False
    obtain cs' where "unfreeze_first ls comp0 flist cs = Some cs'" "pairs cs' = pairs cs"
        "(\<forall>c \<in> set cs. busy_ok c) \<longrightarrow> (\<forall>c \<in> set cs'. busy_ok c)"
      using Cons.IH [of flist] Cons.prems by auto
    then show ?thesis using False Cons.prems(1) by (auto simp: pairs_def simp flip: f_def)
  qed
qed simp

lemma start_waiting_ok:
  assumes "ice_inv ice" "i < length (clist_checks ice)"
  shows "\<exists>cs. start_waiting ice i = Some cs \<and> ice_inv (set_checks CLIST cs ice)"
proof -
  define cs0 where "cs0 = clist_checks ice"
  define c where "c = cs0 ! i"
  have p: "ptr_inv ice" using assms(1) by (simp add: ice_inv_def)
  have r: "\<forall>c \<in> set cs0. ck_lcand c < length (ice_lcand ice)"
    using ptr_inv_lcands_in_range [OF p] by (simp add: lcands_in_range_def list_all_iff cs0_def)
  have split: "cs0 = take i cs0 @ c # drop (Suc i) cs0"
    using assms(2) unfolding c_def cs0_def by (rule id_take_nth_drop)
  have c: "ck_lcand c < length (ice_lcand ice)" using r assms(2) by (simp add: c_def cs0_def)
  obtain cs' where cs': "unfreeze_first (ice_lcand ice) (cd_comp_id (lc_of ice c)) [cd_foundation (lc_of ice c)]
        (drop (Suc i) cs0) = Some cs'" "pairs cs' = pairs (drop (Suc i) cs0)"
      "(\<forall>c \<in> set (drop (Suc i) cs0). busy_ok c) \<longrightarrow> (\<forall>c \<in> set cs'. busy_ok c)"
    using unfreeze_first_ok [of "drop (Suc i) cs0" "ice_lcand ice" "[cd_foundation (lc_of ice c)]"
        "cd_comp_id (lc_of ice c)"] r c p in_set_dropD [of _ "Suc i" cs0]
    by (simp add: ptr_inv_def) blast
  define c' where "c' = (if ck_state c = FROZEN then check_set_state c WAITING PJ_SUCCESS else c)"
  have run: "start_waiting ice i = Some (take i cs0 @ c' # cs')"
    unfolding start_waiting_def Let_def cs0_def [symmetric] c_def [symmetric] c'_def [symmetric] cs'(1) by simp
  have "pairs (take i cs0 @ c' # cs') = pairs (take i cs0 @ c # drop (Suc i) cs0)"
    using cs'(2) by (simp add: pairs_def c'_def)
  then have pr: "pairs (take i cs0 @ c' # cs') = pairs (clist_checks ice)" using split by (simp add: cs0_def)
  have "is_destroying ice \<or> (\<forall>x \<in> set (take i cs0 @ c' # cs'). busy_ok x)"
  proof (cases "is_destroying ice")
    case False
    then have "\<forall>x \<in> set cs0. busy_ok x" using assms(1) by (simp add: ice_inv_def busy_inv_def cs0_def)
    then have b: "\<forall>x \<in> set (take i cs0 @ c # drop (Suc i) cs0). busy_ok x" using split by simp
    then show ?thesis using cs'(3) by (auto simp: c'_def)
  qed simp
  then show ?thesis using run ice_inv_set_clist [OF assms(1) pr] by blast
qed

lemma handle_early_checks_ok:
  "ice_inv ice \<Longrightarrow> \<exists>ice'. handle_early_checks env rs ice = Some ice' \<and> ice_inv ice'"
proof (induction rs arbitrary: ice)
  case (Cons r rs)
  then show ?case using handle_incoming_check_ok [OF Cons.prems, of env r] by auto
qed simp

lemma start_check_ok:
  assumes "ice_inv ice"
  shows "\<exists>st ice'. pj_ice_sess_start_check env ice = Some (st, ice') \<and> ice_inv ice'"
proof (cases "clist_checks ice = []")
  case False
  define ice1 where "ice1 = (if aggressive (ice_opt ice) then ice\<lparr>is_nominating := True\<rparr> else ice)"
  have i1: "ice_inv ice1" using assms by (simp add: ice1_def)
  have r: "lcands_in_range ice" using assms ptr_inv_lcands_in_range by (simp add: ice_inv_def)
  define i where "i = find_idx (\<lambda>c. cd_comp_id (lc_of ice1 c) = 1) (clist_checks ice1)"
  show ?thesis
  proof (cases "i = length (clist_checks ice1)")
    case True
    then show ?thesis
      using False r i1 unfolding pj_ice_sess_start_check_def Let_def ice1_def [symmetric] i_def [symmetric] by simp
  next
    case F: False
    then have i: "i < length (clist_checks ice1)" unfolding i_def by (simp only: find_idx_neq_length)
    obtain cs where cs: "start_waiting ice1 i = Some cs" "ice_inv (set_checks CLIST cs ice1)"
      using start_waiting_ok [OF i1 i] by blast
    obtain ice3 where e: "handle_early_checks env (early_check (set_checks CLIST cs ice1)) (set_checks CLIST cs ice1) = Some ice3"
        "ice_inv ice3"
      using handle_early_checks_ok [OF cs(2)] by blast
    have inv: "ice_inv (ice3\<lparr>early_check := [], clist := (clist ice3)\<lparr>cl_timer := t\<rparr>\<rparr>)" for t
      using e(2) ice_inv_clist_timer [where ice = "ice3\<lparr>early_check := []\<rparr>" and t = t] by simp
    show ?thesis
      using False F r cs(1) e inv
      unfolding pj_ice_sess_start_check_def Let_def ice1_def [symmetric] i_def [symmetric]
      by (auto split: prod.split)
  qed
qed (simp add: pj_ice_sess_start_check_def assms)

subsection \<open>A connectivity check has an answer\<close>

text \<open>The handler clears the transaction of the check first, so only the other checks are in order.\<close>

definition busy_but :: "nat \<Rightarrow> pj_ice_sess \<Rightarrow> bool" where
  "busy_but k ice \<longleftrightarrow> is_destroying ice \<or> (\<forall>j < length (clist_checks ice). j \<noteq> k \<longrightarrow> busy_ok (clist_checks ice ! j))"

definition inv_but :: "nat \<Rightarrow> pj_ice_sess \<Rightarrow> bool" where
  "inv_but k ice \<longleftrightarrow> ptr_inv ice \<and> timer_inv ice \<and> busy_but k ice"

lemma shape_upd_check:
  "(\<And>c. ck_lcand (f c) = ck_lcand c \<and> ck_rcand (f c) = ck_rcand c) \<Longrightarrow> shape (upd_check i f ice) = shape ice"
  by (simp add: shape_def pairs_update upd_check_def)

lemma inv_but_upd_check:
  assumes "inv_but k ice" "\<And>c. ck_lcand (f c) = ck_lcand c \<and> ck_rcand (f c) = ck_rcand c"
  shows "inv_but k (upd_check k f ice)"
  using assms(1) ptr_inv_shape [OF shape_upd_check [OF assms(2)]] timer_inv_frame [of "upd_check k f ice" ice]
  by (simp add: inv_but_def busy_but_def)

lemma inv_but_set_state:
  assumes "inv_but k ice" "st \<noteq> IN_PROGRESS"
  shows "ice_inv (upd_check k (\<lambda>c. check_set_state c st e) ice)" (is "ice_inv ?ice'")
proof -
  have "inv_but k ?ice'" using assms(1) by (rule inv_but_upd_check) simp
  moreover have "busy_inv ?ice'"
  proof (cases "is_destroying ice")
    case False
    then have "busy_ok (clist_checks ?ice' ! i)" if "i < length (clist_checks ice)" for i
      using that assms by (cases "i = k") (simp_all add: inv_but_def busy_but_def)
    then show ?thesis by (auto simp: busy_inv_def in_set_conv_nth)
  qed (simp add: busy_inv_def)
  ultimately show ?thesis by (simp add: inv_but_def ice_inv_def)
qed

lemma inv_but_clear:
  assumes "ice_inv ice"
  shows "inv_but k (upd_check k (\<lambda>c. c\<lparr>ck_tdata := None\<rparr>) ice)"
proof (rule inv_but_upd_check)
  show "inv_but k ice" using assms by (auto simp: ice_inv_def inv_but_def busy_inv_def busy_but_def)
qed simp

lemma fail_check_ok:
  assumes "inv_but k ice" "k < length (clist_checks ice)"
  shows "\<exists>ice'. fail_check ice k st = Some ice' \<and> ice_inv ice'"
  unfolding fail_check_def using assms
  by (intro map_option_snd_ok on_check_complete_ok inv_but_set_state) simp_all

lemma inv_but_change_role [simp]: "inv_but k (pj_ice_sess_change_role ice r) = inv_but k ice"
proof -
  have f: "shape (pj_ice_sess_change_role ice r) = shape ice" by (simp add: shape_def pj_ice_sess_change_role_def)
  show ?thesis
    using ptr_inv_shape [OF f] timer_inv_frame [of "pj_ice_sess_change_role ice r" ice]
    by (simp add: inv_but_def busy_but_def) (simp add: pj_ice_sess_change_role_def)
qed

lemma role_conflict_response_ok:
  assumes "inv_but k ice" "k < length (clist_checks ice)"
  shows "\<exists>ice'. role_conflict_response env ice k a b = Some ice' \<and> ice_inv ice'"
proof -
  define r where "r = (if a then PJ_ICE_SESS_ROLE_CONTROLLED
      else if b then PJ_ICE_SESS_ROLE_CONTROLLING else PJ_ICE_SESS_ROLE_CONTROLLED)"
  define ice1 where "ice1 = (if r \<noteq> ice_role ice then pj_ice_sess_change_role ice r else ice)"
  have i1: "inv_but k ice1" "clist ice1 = clist ice" using assms(1) by (simp_all add: ice1_def)
  define ice2 where "ice2 = upd_check k (\<lambda>c. check_set_state c WAITING PJ_SUCCESS) ice1"
  have i2: "ice_inv ice2" unfolding ice2_def by (rule inv_but_set_state [OF i1(1)]) simp
  show ?thesis
    unfolding role_conflict_response_def Let_def r_def [symmetric] ice1_def [symmetric] ice2_def [symmetric]
  proof (rule map_option_snd_ok)
    have k: "k < length (clist_checks ice2)" "ck_state (clist_checks ice2 ! k) \<noteq> IN_PROGRESS"
      using assms(2) i1(2) by (simp_all add: ice2_def)
    show "\<exists>st ice'. perform_check env ice2 k (ck_nominated (clist_checks ice2 ! k) \<or> is_nominating ice2) =
        Some (st, ice') \<and> ice_inv ice'"
      using perform_check_ok [OF i2 k] by blast
  qed
qed

text \<open>What a new local candidate has to respect: its base belongs to its own component.\<close>

definition base_ok :: "pj_ice_sess_cand list \<Rightarrow> nat \<Rightarrow> pj_ice_cand_type \<Rightarrow> pj_sockaddr \<Rightarrow> pj_sockaddr \<Rightarrow> bool" where
  "base_ok ls comp_id type addr base \<longleftrightarrow>
     (\<forall>a \<in> set ls. pj_sockaddr_cmp (cd_base_addr a) base = 0 \<or> pj_sockaddr_cmp base (cd_base_addr a) = 0 \<longrightarrow>
        cd_comp_id a = comp_id) \<and> (type = PJ_ICE_CAND_TYPE_HOST \<longrightarrow> base = addr)"

lemma wf_bases_same_comp:
  "wf_bases ls \<Longrightarrow> a \<in> set ls \<Longrightarrow> b \<in> set ls \<Longrightarrow> pj_sockaddr_cmp (cd_base_addr a) (cd_base_addr b) = 0 \<Longrightarrow>
   cd_comp_id a = cd_comp_id b"
  unfolding wf_bases_def by blast

lemma wf_bases_append:
  assumes "wf_bases ls" "base_ok ls (cd_comp_id c) (cd_type c) (cd_addr c) (cd_base_addr c)"
  shows "wf_bases (ls @ [c])"
  unfolding wf_bases_def
proof (intro conjI ballI impI)
  fix a b assume ab: "a \<in> set (ls @ [c])" "b \<in> set (ls @ [c])"
    and z: "pj_sockaddr_cmp (cd_base_addr a) (cd_base_addr b) = 0"
  show "cd_comp_id a = cd_comp_id b"
  proof (cases "a \<in> set ls \<and> b \<in> set ls")
    case True
    then show ?thesis using wf_bases_same_comp [OF assms(1)] z by blast
  next
    case False
    then have "a = c \<or> b = c" using ab by auto
    then show ?thesis using ab z assms(2) unfolding base_ok_def by (cases "a = c"; cases "b = c") auto
  qed
next
  fix h assume "h \<in> set (ls @ [c])" "cd_type h = PJ_ICE_CAND_TYPE_HOST"
  moreover have "\<forall>h \<in> set ls. cd_type h = PJ_ICE_CAND_TYPE_HOST \<longrightarrow> cd_base_addr h = cd_addr h"
    using assms(1) unfolding wf_bases_def by (rule conjunct2)
  moreover have "cd_type c = PJ_ICE_CAND_TYPE_HOST \<longrightarrow> cd_base_addr c = cd_addr c"
    using assms(2) unfolding base_ok_def by (rule conjunct2)
  ultimately show "cd_base_addr h = cd_addr h" by auto
qed

lemma ptr_inv_lcand_append:
  assumes "ptr_inv ice" "length (ice_lcand ice) < PJ_ICE_MAX_CAND" "wf_bases (ice_lcand ice @ [c])"
  shows "ptr_inv (ice\<lparr>ice_lcand := ice_lcand ice @ [c]\<rparr>)" (is "ptr_inv ?ice'")
proof -
  have po: "pair_ok ?ice' q" if "pair_ok ice q" for q using that by (auto simp: pair_ok_def nth_append)
  have "ptr_ok ?ice' i q" if "i < comp_cnt ice" "ptr_ok ice i q" for i q
  proof (cases q)
    case (Some x)
    with that(2) obtain k where k: "x = (VALID_LIST, k)" "k < length (valid_checks ice)"
      by (auto simp: ptr_ok_def split: prod.splits)
    then show ?thesis
      using that(2) Some ptr_invD_valid(1) [OF assms(1) k(2)] by (simp add: ptr_ok_def nth_pairs nth_append)
  qed (simp add: ptr_ok_def)
  with po assms show ?thesis by (simp add: ptr_inv_def)
qed

lemma add_cand_ok:
  assumes "ptr_inv ice" "base_ok (ice_lcand ice) comp_id type addr base"
    "pj_ice_sess_add_cand ice comp_id tp type lp fnd addr base rel = (res, ice')"
  shows "ptr_inv ice' \<and> (\<exists>ls. ice' = ice\<lparr>ice_lcand := ls\<rparr>) \<and>
    (\<forall>l. res = Inr l \<longrightarrow> l < length (ice_lcand ice') \<and> cd_comp_id (ice_lcand ice' ! l) = comp_id) \<and>
    (\<forall>l < length (ice_lcand ice). ice_lcand ice' ! l = ice_lcand ice ! l)"
proof (cases "comp_id = 0 \<or> comp_id > comp_cnt ice \<or> length (ice_lcand ice) \<ge> PJ_ICE_MAX_CAND")
  case True
  then have "res = Inl PJ_EINVAL \<or> res = Inl PJ_ETOOMANY" "ice' = ice"
    using assms(3) by (auto simp: pj_ice_sess_add_cand_def split: if_splits)
  moreover have "\<exists>ls. ice = ice\<lparr>ice_lcand := ls\<rparr>" by (rule exI [of _ "ice_lcand ice"]) simp
  ultimately show ?thesis using assms(1) by auto
next
  case False
  define c where "c = \<lparr>cd_type = type, cd_comp_id = comp_id mod 256, cd_transport_id = tp mod 256,
      cd_foundation = fnd, cd_prio = CALC_CAND_PRIO ice type (ucast lp) (of_nat (comp_id mod 256)),
      cd_addr = addr, cd_base_addr = base, cd_rel_addr = (case rel of None \<Rightarrow> base | Some a \<Rightarrow> a)\<rparr>"
  have m: "comp_id mod 256 = comp_id"
    using False assms(1) by (auto simp: ptr_inv_def PJ_ICE_MAX_COMP_def)
  have r: "res = Inr (length (ice_lcand ice))" "ice' = ice\<lparr>ice_lcand := ice_lcand ice @ [c]\<rparr>"
    using assms(3) False by (auto simp: pj_ice_sess_add_cand_def Let_def c_def)
  have "wf_bases (ice_lcand ice @ [c])"
    using assms(1,2) m by (intro wf_bases_append) (simp_all add: c_def ptr_inv_def)
  then have "ptr_inv ice'" using False assms(1) r(2) ptr_inv_lcand_append [OF assms(1)] by simp
  then show ?thesis using r m by (auto simp: c_def nth_append)
qed

lemma mapped_lcand_ok:
  assumes "inv_but k ice" "k < length (clist_checks ice)" "check = clist_checks ice ! k"
    "mapped_lcand ice check tp xaddr = (res, ice')"
  shows "inv_but k ice' \<and> clist ice' = clist ice \<and> valid_list ice' = valid_list ice \<and>
    (\<forall>l. res = Inr l \<longrightarrow> pair_ok ice' (l, ck_rcand check))"
proof -
  define base where "base = cd_base_addr (lc_of ice check)"
  define i where "i = find_idx (\<lambda>l. pj_sockaddr_cmp xaddr (cd_addr l) = 0 \<and>
      pj_sockaddr_cmp base (cd_base_addr l) = 0) (ice_lcand ice)"
  have p: "ptr_inv ice" using assms(1) by (simp add: inv_but_def)
  then have wf: "wf_bases (ice_lcand ice)" by (simp add: ptr_inv_def)
  note c = ptr_invD_clist [OF p assms(2), folded assms(3)]
  have lin: "lc_of ice check \<in> set (ice_lcand ice)" using c(1) by simp
  show ?thesis
  proof (cases "i < length (ice_lcand ice)")
    case True
    then have r: "res = Inr i" "ice' = ice"
      using assms(4) by (auto simp: mapped_lcand_def Let_def simp flip: base_def i_def)
    have "pj_sockaddr_cmp base (cd_base_addr (ice_lcand ice ! i)) = 0"
      using find_idx_nth [OF True [unfolded i_def]] by (simp flip: i_def)
    then have "cd_comp_id (ice_lcand ice ! i) = cd_comp_id (lc_of ice check)"
      using wf_bases_same_comp [OF wf lin, of "ice_lcand ice ! i"] True by (simp add: base_def)
    then show ?thesis using assms(1) r c True by (auto simp: pair_ok_def)
  next
    case False
    have a: "pj_ice_sess_add_cand ice (cd_comp_id (lc_of ice check)) tp PJ_ICE_CAND_TYPE_PRFLX 65535
        (pj_ice_calc_foundation PJ_ICE_CAND_TYPE_PRFLX base) xaddr base (Some base) = (res, ice')"
      using assms(4) False unfolding mapped_lcand_def Let_def base_def [symmetric] i_def [symmetric] by simp
    have "base_ok (ice_lcand ice) (cd_comp_id (lc_of ice check)) PJ_ICE_CAND_TYPE_PRFLX xaddr base"
      unfolding base_ok_def base_def
      using wf_bases_same_comp [OF wf lin] wf_bases_same_comp [OF wf _ lin] by fastforce
    from add_cand_ok [OF p this a] obtain ls where
      A: "ptr_inv ice'" "ice' = ice\<lparr>ice_lcand := ls\<rparr>"
        "\<forall>l. res = Inr l \<longrightarrow> l < length ls \<and> cd_comp_id (ls ! l) = cd_comp_id (lc_of ice check)"
      by auto
    have "inv_but k ice'"
      using A(1,2) assms(1) timer_inv_frame [of ice' ice] by (simp add: inv_but_def busy_but_def)
    then show ?thesis using A c by (auto simp: pair_ok_def)
  qed
qed

text \<open>Sorting the valid list keeps the pointer invariant.\<close>

definition tags :: "pj_ice_sess_comp list \<Rightarrow> (check_list_name option \<times> check_list_name option) list" where
  "tags comps = map (\<lambda>c. (map_option fst (valid_check c), map_option fst (nominated_check c))) comps"

lemma sort_step_tags: "tags (snd (sort_step l i s)) = tags (snd s)"
proof -
  have "map_option fst (fix_ptr l i h p) = map_option fst p" for h p
    by (auto simp: fix_ptr_def split: if_splits)
  then show ?thesis by (cases s) (simp add: sort_step_def Let_def tags_def fix_comp_def)
qed

lemma sort_loop_tags: "tags (snd (sort_loop l s)) = tags (snd s)"
proof -
  have "tags (snd (fold (sort_step l) is s)) = tags (snd s)" for "is"
    by (induction "is" arbitrary: s) (simp_all add: sort_step_tags)
  then show ?thesis by (simp add: sort_loop_def)
qed

lemma sort_checklist_frame:
  assumes "checks_of ice l \<noteq> []"
  obtains cs comps where "sort_checklist ice l = Some (set_checks l cs (ice\<lparr>ice_comp := comps\<rparr>))"
    "mset cs = mset (checks_of ice l)" "tags comps = tags (ice_comp ice)" "length comps = comp_cnt ice"
    "targets l other (cs, comps) = targets l other (checks_of ice l, ice_comp ice)"
    "sorted_wrt prio_desc cs"
proof -
  obtain cs comps where sl: "sort_loop l (checks_of ice l, ice_comp ice) = (cs, comps)"
    by (cases "sort_loop l (checks_of ice l, ice_comp ice)")
  note S = sort_loop_correct [where l = l and s = "(checks_of ice l, ice_comp ice)", unfolded sl]
  have "tags comps = tags (ice_comp ice)"
    using sort_loop_tags [of l "(checks_of ice l, ice_comp ice)"] by (simp add: sl)
  moreover have "sort_checklist ice l = Some (set_checks l cs (ice\<lparr>ice_comp := comps\<rparr>))"
    using assms by (simp add: sort_checklist_def sl)
  ultimately show thesis using that S by simp
qed

lemma tags_None:
  "tags comps' = tags comps \<Longrightarrow> length comps' = length comps \<Longrightarrow> i < length comps \<Longrightarrow>
   map_option fst (valid_check (comps' ! i)) = map_option fst (valid_check (comps ! i)) \<and>
   map_option fst (nominated_check (comps' ! i)) = map_option fst (nominated_check (comps ! i))"
  unfolding tags_def by (drule arg_cong [where f = "\<lambda>xs. xs ! i"]) simp

lemma targets_nth:
  "targets l other (cs', comps') = targets l other (cs, comps) \<Longrightarrow> length comps' = length comps \<Longrightarrow> i < length comps \<Longrightarrow>
   look l cs' other (valid_check (comps' ! i)) = look l cs other (valid_check (comps ! i)) \<and>
   look l cs' other (nominated_check (comps' ! i)) = look l cs other (nominated_check (comps ! i))"
  unfolding targets_def by (drule arg_cong [where f = "\<lambda>xs. xs ! i"]) simp

lemma progress_tags:
  assumes "tags (ice_comp ice') = tags (ice_comp ice)"
  shows "progress ice ice'"
proof -
  have l: "comp_cnt ice' = comp_cnt ice" using assms by (metis length_map tags_def)
  have "valid_check (ice_comp ice' ! i) = None \<longleftrightarrow> valid_check (ice_comp ice ! i) = None"
    "nominated_check (ice_comp ice' ! i) = None \<longleftrightarrow> nominated_check (ice_comp ice ! i) = None"
    if "i < comp_cnt ice" for i
    using tags_None [OF assms l that] by (metis option.map_disc_iff)+
  then show ?thesis unfolding progress_def all_valid_def all_nominated_def list_all_length l by blast
qed

lemma ptr_ok_sorted:
  assumes "ptr_ok ice i p" "map_option fst p' = map_option fst p"
    "look VALID_LIST cs other p' = look VALID_LIST (valid_checks ice) other p"
    "valid_checks ice' = cs" "ice_lcand ice' = ice_lcand ice"
  shows "ptr_ok ice' i p'"
proof (cases p)
  case (Some q)
  with assms(1) obtain k where k: "q = (VALID_LIST, k)" "k < length (valid_checks ice)"
      "cd_comp_id (lc_of ice (valid_checks ice ! k)) = Suc i"
    by (auto simp: ptr_ok_def nth_pairs split: prod.splits)
  then obtain k' where p': "p' = Some (VALID_LIST, k')" using assms(2) Some by auto
  have "deref cs k' = Some (valid_checks ice ! k)" using assms(3) p' k Some by (simp add: look_def)
  then have "k' < length cs" "cs ! k' = valid_checks ice ! k" by (auto simp: deref_Some_iff)
  then show ?thesis using k assms(4,5) by (simp add: ptr_ok_def p' nth_pairs)
qed (use assms(2) in \<open>simp add: ptr_ok_def\<close>)

lemma sort_valid_ok:
  assumes "inv_but k ice" "valid_checks ice \<noteq> []"
  shows "\<exists>ice'. sort_checklist ice VALID_LIST = Some ice' \<and> inv_but k ice' \<and> clist ice' = clist ice"
proof -
  from assms(2) have ne: "checks_of ice VALID_LIST \<noteq> []" by simp
  obtain cs comps where S: "sort_checklist ice VALID_LIST = Some (set_checks VALID_LIST cs (ice\<lparr>ice_comp := comps\<rparr>))"
      "mset cs = mset (valid_checks ice)" "tags comps = tags (ice_comp ice)" "length comps = comp_cnt ice"
      "targets VALID_LIST (\<lambda>_. None) (cs, comps) = targets VALID_LIST (\<lambda>_. None) (valid_checks ice, ice_comp ice)"
    using sort_checklist_frame [OF ne, of "\<lambda>_. None"] unfolding checks_of.simps by metis
  define ice' where "ice' = set_checks VALID_LIST cs (ice\<lparr>ice_comp := comps\<rparr>)"
  have f: "valid_checks ice' = cs" "ice_lcand ice' = ice_lcand ice" "ice_comp ice' = comps" "clist ice' = clist ice"
    "ice_rcand ice' = ice_rcand ice" "comp_ka ice' = comp_ka ice" "ice_timer ice' = ice_timer ice"
    "is_complete ice' = is_complete ice" "ice_status ice' = ice_status ice" "is_destroying ice' = is_destroying ice"
    by (simp_all add: ice'_def)
  have p: "ptr_inv ice" "timer_inv ice" "busy_but k ice" using assms(1) by (simp_all add: inv_but_def)
  have po: "pair_ok ice' = pair_ok ice" unfolding pair_ok_def [abs_def] f S(4) by (rule refl)
  have "set (pairs cs) = set (pairs (valid_checks ice))" "length cs = length (valid_checks ice)"
    using mset_eq_setD [OF S(2)] mset_eq_length [OF S(2)] by (simp_all add: pairs_def)
  moreover have "ptr_ok ice' i (valid_check (comps ! i)) \<and> ptr_ok ice' i (nominated_check (comps ! i))"
    if "i < comp_cnt ice" for i
    using p(1) that targets_nth [OF S(5,4) that] tags_None [OF S(3,4) that] ptr_ok_sorted [OF _ _ _ f(1,2)]
    unfolding ptr_inv_def by metis
  ultimately have "ptr_inv ice'" using p(1) by (simp add: ptr_inv_def po f S(4))
  moreover have "timer_inv ice'"
    using timer_inv_progress [OF p(2) f(7-9) progress_tags] S(3) f(3) by simp
  moreover have "busy_but k ice'" using p(3) by (simp add: busy_but_def f)
  ultimately show ?thesis using S(1) unfolding ice'_def [symmetric] inv_but_def by (simp add: f)
qed

text \<open>Room for one more valid pair, unless the pair is known: what the assertion of the code checks.\<close>

definition valid_room :: "pj_ice_sess \<Rightarrow> bool" where
  "valid_room ice \<longleftrightarrow> length (valid_checks ice) < PJ_ICE_MAX_CHECKS"

lemma add_valid_pair_ok:
  assumes "inv_but k ice" "pair_ok ice (l, ck_rcand check)" "valid_room ice"
  shows "\<exists>j vs. add_valid_pair ice check l = Some (j, set_checks VALID_LIST vs ice) \<and> j < length vs \<and>
    ck_lcand (vs ! j) = l \<and> inv_but k (set_checks VALID_LIST vs ice)"
proof -
  define vs where "vs = valid_checks ice"
  define i where "i = find_idx (\<lambda>v. ck_lcand v = l \<and> ck_rcand v = ck_rcand check) vs"
  have p: "ptr_inv ice" "timer_inv ice" "busy_but k ice" using assms(1) by (simp_all add: inv_but_def)
  have inv: "inv_but k (set_checks VALID_LIST vs' ice)" if "ptr_inv (set_checks VALID_LIST vs' ice)" for vs'
    using that p timer_inv_frame [of "set_checks VALID_LIST vs' ice" ice] by (simp add: inv_but_def busy_but_def)
  show ?thesis
  proof (cases "i < length vs")
    case True
    let ?vs = "vs[i := (vs ! i)\<lparr>ck_nominated := ck_nominated check\<rparr>]"
    have s: "shape (set_checks VALID_LIST ?vs ice) = shape ice"
      by (simp add: shape_def vs_def pairs_update [of "\<lambda>c. c\<lparr>ck_nominated := ck_nominated check\<rparr>"])
    have "ck_lcand (vs ! i) = l" using find_idx_nth [OF True [unfolded i_def]] by (simp flip: i_def)
    moreover have "add_valid_pair ice check l = Some (i, set_checks VALID_LIST ?vs ice)"
      using True unfolding add_valid_pair_def Let_def vs_def [symmetric] i_def [symmetric] by simp
    ultimately show ?thesis using True inv [of ?vs] ptr_inv_shape [OF s] p(1) by auto
  next
    case False
    define c where "c = \<lparr>ck_lcand = l, ck_rcand = ck_rcand check,
        ck_prio = CALC_CHECK_PRIO (ice_role ice) (cd_prio (ice_lcand ice ! l)) (cd_prio (ice_rcand ice ! ck_rcand check)),
        ck_state = SUCCEEDED, ck_tdata = None, ck_nominated = ck_nominated check, ck_err_code = PJ_SUCCESS\<rparr>"
    define ice' where "ice' = set_checks VALID_LIST (vs @ [c]) ice"
    have f: "ice_lcand ice' = ice_lcand ice" "ice_rcand ice' = ice_rcand ice" "ice_comp ice' = ice_comp ice"
      "clist ice' = clist ice" "valid_checks ice' = vs @ [c]" "comp_ka ice' = comp_ka ice"
      by (simp_all add: ice'_def)
    have po: "pair_ok ice' = pair_ok ice" unfolding pair_ok_def [abs_def] f by (rule refl)
    have "pairs (vs @ [c]) = pairs vs @ [(l, ck_rcand check)]" by (simp add: pairs_def c_def)
    moreover have "ptr_ok ice' i p" if "ptr_ok ice i p" for i p
      using that by (auto simp: ptr_ok_def f vs_def pairs_def nth_append split: option.splits prod.splits)
    ultimately have "ptr_inv ice'"
      using p(1) assms(2,3) by (simp add: ptr_inv_def po f valid_room_def) (simp add: vs_def)
    then have "ptr_inv (set_checks VALID_LIST (vs @ [c]) ice)" by (simp add: ice'_def)
    moreover have "add_valid_pair ice check l = Some (length vs, set_checks VALID_LIST (vs @ [c]) ice)"
      using False assms(3) unfolding add_valid_pair_def Let_def vs_def [symmetric] i_def [symmetric]
      by (simp add: c_def valid_room_def vs_def)
    ultimately show ?thesis using inv [of "vs @ [c]"] by (auto simp: c_def)
  qed
qed

lemma check_succeeded_ok:
  assumes "inv_but k ice" "pair_ok ice (l, ck_rcand check)" "valid_room ice" "k < length (clist_checks ice)"
  shows "\<exists>ice'. check_succeeded ice k check l = Some ice' \<and> ice_inv ice'"
proof -
  obtain j vs where a: "add_valid_pair ice check l = Some (j, set_checks VALID_LIST vs ice)" "j < length vs"
      "ck_lcand (vs ! j) = l" "inv_but k (set_checks VALID_LIST vs ice)"
    using add_valid_pair_ok [OF assms(1-3)] by blast
  define ice1 where "ice1 = set_checks VALID_LIST vs ice"
  have i1: "ptr_inv ice1" "timer_inv ice1" "busy_but k ice1" using a(4) by (simp_all add: ice1_def inv_but_def)
  have j: "j < length (valid_checks ice1)" "cd_comp_id (ice_lcand ice1 ! l) = cd_comp_id (lc_of ice1 (valid_checks ice1 ! j))"
    using a(2,3) by (simp_all add: ice1_def)
  obtain comps where c: "update_comp_check ice1 (cd_comp_id (ice_lcand ice1 ! l)) (VALID_LIST, j) = Some (ice1\<lparr>ice_comp := comps\<rparr>)"
      "ptr_inv (ice1\<lparr>ice_comp := comps\<rparr>)" "progress ice1 (ice1\<lparr>ice_comp := comps\<rparr>)"
    using update_comp_check_ok [OF i1(1) j] by blast
  have i2: "inv_but k (ice1\<lparr>ice_comp := comps\<rparr>)"
    using c i1 timer_inv_progress [OF i1(2) _ _ _ c(3)] by (simp add: inv_but_def busy_but_def)
  have "valid_checks (ice1\<lparr>ice_comp := comps\<rparr>) \<noteq> []" using a(2) by (auto simp: ice1_def)
  from sort_valid_ok [OF i2 this] obtain ice3 where s: "sort_checklist (ice1\<lparr>ice_comp := comps\<rparr>) VALID_LIST = Some ice3"
      "inv_but k ice3" "clist ice3 = clist (ice1\<lparr>ice_comp := comps\<rparr>)"
    by blast
  have "\<exists>b ice'. on_check_complete (upd_check k (\<lambda>c. check_set_state c SUCCEEDED PJ_SUCCESS) ice3) k = Some (b, ice') \<and> ice_inv ice'"
    using assms(4) s(3) by (intro on_check_complete_ok inv_but_set_state [OF s(2)]) (simp_all add: ice1_def)
  then show ?thesis
    unfolding check_succeeded_def a(1) ice1_def [symmetric] using c(1) s(1) by auto
qed

lemma on_stun_request_complete_ok:
  assumes "ice_inv ice" "k < length (clist_checks ice)" "valid_room ice"
  shows "\<exists>ice'. on_stun_request_complete env ice k tp res = Some ice' \<and> ice_inv ice'"
proof -
  define ice1 where "ice1 = upd_check k (\<lambda>c. c\<lparr>ck_tdata := None\<rparr>) ice"
  define check where "check = clist_checks ice1 ! k"
  have i1: "inv_but k ice1" unfolding ice1_def using assms(1) by (rule inv_but_clear)
  have p: "ptr_inv ice1" using i1 by (simp add: inv_but_def)
  have k: "k < length (clist_checks ice1)" using assms(2) by (simp add: ice1_def)
  note c = ptr_invD_clist [OF p k, folded check_def]
  have eq: "on_stun_request_complete env ice k tp res =
     (if is_destroying ice1 then Some ice1
      else if so_status res = PJ_STATUS_FROM_STUN_CODE PJ_STUN_SC_ROLE_CONFLICT
      then role_conflict_response env ice1 k (so_req_controlling res) (so_req_controlled res)
      else if so_status res \<noteq> PJ_SUCCESS then fail_check ice1 k (so_status res)
      else if pj_sockaddr_cmp (cd_addr (ice_rcand ice1 ! ck_rcand check)) (so_src_addr res) \<noteq> 0
      then fail_check ice1 k PJNATH_EICEINSRCADDR
      else (case so_xor_mapped_addr res of
          None \<Rightarrow> fail_check ice1 k PJNATH_ESTUNNOMAPPEDADDR
        | Some xaddr \<Rightarrow>
            (case mapped_lcand ice1 check tp xaddr of
               (Inl status, ice2) \<Rightarrow> fail_check ice2 k status
             | (Inr l, ice2) \<Rightarrow> check_succeeded ice2 k check l)))"
    using assms(2) c(1,2) unfolding on_stun_request_complete_def Let_def ice1_def [symmetric] check_def [symmetric]
    by simp
  have D: "ice_inv ice1" if "is_destroying ice1"
    using that i1 by (simp add: ice_inv_def inv_but_def busy_inv_def)
  have S: "\<exists>ice'. (case mapped_lcand ice1 check tp xaddr of (Inl status, ice2) \<Rightarrow> fail_check ice2 k status
             | (Inr l, ice2) \<Rightarrow> check_succeeded ice2 k check l) = Some ice' \<and> ice_inv ice'" for xaddr
  proof -
    obtain r ice2 where m: "mapped_lcand ice1 check tp xaddr = (r, ice2)" by (cases "mapped_lcand ice1 check tp xaddr")
    note M = mapped_lcand_ok [OF i1 k check_def m]
    have k2: "k < length (clist_checks ice2)" using M k by simp
    have r2: "valid_room ice2" using M assms(3) by (simp add: valid_room_def ice1_def)
    show ?thesis
    proof (cases r)
      case (Inl st)
      then show ?thesis using fail_check_ok [OF _ k2, of st] M by (simp add: m)
    next
      case (Inr l)
      then show ?thesis using check_succeeded_ok [OF _ _ r2 k2, of l check] M by (simp add: m)
    qed
  qed
  show ?thesis
    unfolding eq using D S role_conflict_response_ok [OF i1 k] fail_check_ok [OF i1 k] by (auto split: option.split)
qed

end
