(* ===== verification/IceReach.thy ===== *)
theory IceReach
  imports IceHandlerSafety
begin

text \<open>
  A session as a state machine: the events are the calls the application, the STUN session and the
  timer heap make, with the guard each caller has to respect; the reachable states satisfy the
  invariant of \<open>IceSafety\<close>, so no entry point reads through NULL or outside an array.
\<close>

subsection \<open>The remaining entry points\<close>

lemma answer_request_ok:
  assumes "ice_inv ice"
  shows "\<exists>st ice'. answer_request env ice comp_id tp prio u src = Some (st, ice') \<and> ice_inv ice'"
proof -
  define rc where "rc = \<lparr>rx_comp_id = comp_id, rx_transport_id = tp, rx_src_addr = src,
      rx_use_candidate = u, rx_priority = prio\<rparr>"
  have i: "ice_inv (emit [SendResponse comp_id tp src] ice)" using assms by simp
  obtain ice2 where h: "handle_incoming_check env (emit [SendResponse comp_id tp src] ice) rc = Some ice2" "ice_inv ice2"
    using handle_incoming_check_ok [OF i] by blast
  show ?thesis
    using assms h unfolding answer_request_def Let_def rc_def [symmetric] by auto
qed

lemma on_stun_rx_request_ok:
  assumes "ice_inv ice" "ice_rcand ice = [] \<Longrightarrow> rq_username rq \<noteq> None"
  shows "\<exists>st ice'. on_stun_rx_request env ice comp_id tp rq src = Some (st, ice') \<and> ice_inv ice'"
proof -
  have R: "\<exists>st ice'. (case resolve_role (ice_role ice1) (tie_breaker ice1) rq of
              ROLE_CONFLICT \<Rightarrow> Some (PJ_SUCCESS, emit [RespondError comp_id PJ_STUN_SC_ROLE_CONFLICT src] ice1)
            | ROLE_SWITCH r \<Rightarrow> answer_request env (pj_ice_sess_change_role ice1 r) comp_id tp prio (rq_use_candidate rq) src
            | ROLE_KEEP \<Rightarrow> answer_request env ice1 comp_id tp prio (rq_use_candidate rq) src) = Some (st, ice') \<and> ice_inv ice'"
    if "ice_inv ice1" for ice1 prio
    using that answer_request_ok [OF that] answer_request_ok [of "pj_ice_sess_change_role ice1 r" for r]
    by (auto split: role_decision.split)
  show ?thesis
  proof (cases "ice_rcand ice = []")
    case True
    then obtain u where u: "rq_username rq = Some u" using assms(2) by auto
    show ?thesis
      using True u assms(1) R [of "ice\<lparr>rx_uname := u\<rparr>"]
      by (auto simp: on_stun_rx_request_def simp del: pj_ice_sess.simps split: option.split)
  next
    case False
    then show ?thesis using assms(1) R [OF assms(1)] by (auto simp: on_stun_rx_request_def split: option.split)
  qed
qed

lemma on_timer_ok:
  assumes "ice_inv ice"
  shows "\<exists>ice'. on_timer env ice = Some ice' \<and> ice_inv ice'"
proof -
  define ice1 where "ice1 = ice\<lparr>ice_timer := \<lparr>tm_id = TIMER_NONE, tm_delay = None\<rparr>\<rparr>"
  have t: "timer_ok (ice_timer ice) (is_complete ice) (ice_status ice) (all_valid ice) (all_nominated ice)"
    using assms by (simp add: ice_inv_def timer_inv_def)
  have i1: "ice_inv ice1" unfolding ice1_def
    using t by (intro ice_inv_timer [OF assms]) (simp add: timer_ok_def)
  have f: "all_valid ice1 = all_valid ice" "all_nominated ice1 = all_nominated ice"
    by (simp_all add: ice1_def all_valid_def all_nominated_def)
  have V: "\<exists>ice'. start_nominated_check ice1 = Some ice' \<and> ice_inv ice'" if "tm_id (ice_timer ice) = TIMER_START_NOMINATED_CHECK"
    using start_nominated_check_ok [OF i1] t that f by (simp add: timer_ok_def)
  have K: "\<exists>ice'. ice_keep_alive env ice1 True = Some ice' \<and> ice_inv ice'" if "tm_id (ice_timer ice) = TIMER_KEEP_ALIVE"
    using ice_keep_alive_ok [OF i1] t that f by (simp add: timer_ok_def)
  have C: "\<exists>ice'. (if ice_status ice1 = PJ_SUCCESS then ice_keep_alive env ice1 False else Some ice1) = Some ice' \<and> ice_inv ice'"
    if "tm_id (ice_timer ice) = TIMER_COMPLETION_CALLBACK"
    using ice_keep_alive_ok [OF i1, of env False] i1 t that f by (auto simp: timer_ok_def ice1_def)
  have N: "ice_inv (on_ice_complete ice1 PJNATH_EICENOMTIMEOUT)" using i1 by (rule on_ice_complete_inv) simp
  show ?thesis
    unfolding on_timer_def Let_def ice1_def [symmetric]
    using V K C N i1 by (cases "tm_id (ice_timer ice)") (auto split: if_splits)
qed

lemma destroy_ice_ok: "ice_inv ice \<Longrightarrow> ice_inv (destroy_ice ice)"
proof (cases "is_destroying ice")
  case False
  assume inv: "ice_inv ice"
  define ice1 where "ice1 = ice\<lparr>is_destroying := True,
      ice_timer := slot_cancel_if_active (ice_timer ice) TIMER_NONE,
      ice_comp := map (\<lambda>c. c\<lparr>stun_sess := False\<rparr>) (ice_comp ice),
      clist := (clist ice)\<lparr>cl_timer := slot_cancel_if_active (cl_timer (clist ice)) False\<rparr>\<rparr>"
  have f: "ice_lcand ice1 = ice_lcand ice" "ice_rcand ice1 = ice_rcand ice" "comp_cnt ice1 = comp_cnt ice"
    "clist_checks ice1 = clist_checks ice" "valid_list ice1 = valid_list ice" "comp_ka ice1 = comp_ka ice"
    "i < comp_cnt ice \<Longrightarrow> valid_check (ice_comp ice1 ! i) = valid_check (ice_comp ice ! i)"
    "i < comp_cnt ice \<Longrightarrow> nominated_check (ice_comp ice1 ! i) = nominated_check (ice_comp ice ! i)" for i
    by (simp_all add: ice1_def)
  have "pair_ok ice1 = pair_ok ice" "ptr_ok ice1 = ptr_ok ice"
    unfolding pair_ok_def [abs_def] ptr_ok_def [abs_def] f by (rule refl)+
  then have "ptr_inv ice1" using inv by (simp add: ptr_inv_def ice_inv_def f)
  moreover have "all_valid ice1 = all_valid ice" "all_nominated ice1 = all_nominated ice"
    by (simp_all add: all_valid_def all_nominated_def ice1_def list_all_length)
  then have "timer_inv ice1"
    using inv timer_ok_cancel by (simp add: ice_inv_def timer_inv_def) (simp add: ice1_def)
  moreover have "busy_inv ice1" by (simp add: busy_inv_def ice1_def)
  ultimately have "ice_inv ice1" by (simp add: ice_inv_def)
  then show ?thesis using False by (simp add: destroy_ice_def flip: ice1_def)
qed (simp add: destroy_ice_def)

lemma ice_inv_add_cand:
  assumes "ice_inv ice" "base_ok (ice_lcand ice) comp_id type addr base"
  shows "ice_inv (snd (pj_ice_sess_add_cand ice comp_id tp type lp fnd addr base rel))"
proof -
  obtain res ice' where a: "pj_ice_sess_add_cand ice comp_id tp type lp fnd addr base rel = (res, ice')"
    by (cases "pj_ice_sess_add_cand ice comp_id tp type lp fnd addr base rel")
  have p: "ptr_inv ice" using assms(1) by (simp add: ice_inv_def)
  obtain ls where A: "ptr_inv ice'" "ice' = ice\<lparr>ice_lcand := ls\<rparr>" using add_cand_ok [OF p assms(2) a] by blast
  have "ice_inv ice'"
    using A assms(1) by (intro ice_invI_grow [OF assms(1)]) (simp_all add: progress_comp ice_inv_def busy_inv_def)
  then show ?thesis using a by simp
qed

lemma send_data_ok:
  assumes "ice_inv ice"
  shows "\<exists>st ice'. pj_ice_sess_send_data env ice comp_id data = Some (st, ice') \<and> ice_inv ice'"
proof (cases "comp_id = 0 \<or> comp_id > comp_cnt ice \<or> is_destroying ice")
  case True
  then show ?thesis using assms by (auto simp: pj_ice_sess_send_data_def)
next
  case False
  have p: "ptr_inv ice" using assms by (simp add: ice_inv_def)
  have i: "comp_id - 1 < comp_cnt ice" using False by auto
  have c: "comp_at ice (find_comp ice comp_id) = Some (ice_comp ice ! (comp_id - 1))"
    using False by (simp add: comp_at_find_comp)
  show ?thesis
  proof (cases "valid_check (ice_comp ice ! (comp_id - 1))")
    case None
    then show ?thesis using False assms c by (simp add: pj_ice_sess_send_data_def)
  next
    case (Some q)
    then obtain k where k: "q = (VALID_LIST, k)" "k < length (valid_checks ice)" using ptr_okD [OF p i] by blast
    show ?thesis
      using False assms c Some k ptr_invD_valid [OF p k(2)] by (simp add: pj_ice_sess_send_data_def check_at_def)
  qed
qed

lemma on_rx_pkt_ok:
  assumes "ice_inv ice" "1 \<le> comp_id"
  shows "\<exists>st ice'. pj_ice_sess_on_rx_pkt chk rx ice comp_id tp pkt src = Some (st, ice') \<and> ice_inv ice'"
  using assms by (auto simp: pj_ice_sess_on_rx_pkt_def find_comp_def comp_at_def nat_diff_distrib)

subsection \<open>Creating the check list\<close>

text \<open>Before the check list exists: no pair, no valid pair, no keep-alive sent.\<close>

definition fresh :: "pj_ice_sess \<Rightarrow> bool" where
  "fresh ice \<longleftrightarrow> clist_checks ice = [] \<and> valid_checks ice = [] \<and> comp_ka ice = 0"

text \<open>Pairs made from candidates of one component.\<close>

definition paired :: "pj_ice_sess_cand list \<Rightarrow> pj_ice_sess_cand list \<Rightarrow> pj_ice_sess_check \<Rightarrow> bool" where
  "paired ls rs c \<longleftrightarrow> ck_lcand c < length ls \<and> ck_rcand c < length rs \<and>
     cd_comp_id (ls ! ck_lcand c) = cd_comp_id (rs ! ck_rcand c) \<and> busy_ok c"

lemma replace_srflx_paired:
  "wf_bases ls \<Longrightarrow> replace_srflx ls cs = Some (st, cs') \<Longrightarrow> \<forall>c \<in> set cs. paired ls rs c \<Longrightarrow> \<forall>c \<in> set cs'. paired ls rs c"
proof (induction cs arbitrary: cs')
  case (Cons c cs)
  define s where "s = ls ! ck_lcand c"
  have c: "paired ls rs c" and tl: "\<forall>c \<in> set cs. paired ls rs c" using Cons.prems(3) by auto
  then have l: "ck_lcand c < length ls" by (simp add: paired_def)
  define c' where "c' = (if cd_type s = PJ_ICE_CAND_TYPE_SRFLX then c\<lparr>ck_lcand := find_base ls s\<rparr> else c)"
  have "paired ls rs c'" if b: "cd_type s = PJ_ICE_CAND_TYPE_SRFLX \<longrightarrow> find_base ls s \<noteq> length ls"
  proof (cases "cd_type s = PJ_ICE_CAND_TYPE_SRFLX")
    case True
    define h where "h = ls ! find_base ls s"
    have fb: "find_base ls s < length ls" using b True unfolding find_base_def by (simp only: find_idx_neq_length)
    have sh: "s \<in> set ls" "h \<in> set ls" using l fb by (simp_all add: s_def h_def)
    have "cd_type h = PJ_ICE_CAND_TYPE_HOST" "pj_sockaddr_cmp (cd_base_addr s) (cd_addr h) = 0"
      using find_base_host [OF fb] by (simp_all add: h_def)
    moreover from this have "cd_base_addr h = cd_addr h" using Cons.prems(1) sh(2) unfolding wf_bases_def by blast
    ultimately have "cd_comp_id s = cd_comp_id h"
      using wf_bases_same_comp [OF Cons.prems(1) sh] by simp
    then show ?thesis using c fb True by (simp add: paired_def c'_def s_def h_def busy_ok_def)
  next
    case False
    then show ?thesis using c by (simp add: c'_def)
  qed
  then show ?case
    using Cons.IH [OF Cons.prems(1) _ tl] Cons.prems(2) c tl l
    by (auto simp: Let_def c'_def s_def split: if_splits bind_splits)
qed simp

text \<open>The check list \<open>cs\<close> in a session without valid pairs, with the first \<open>n\<close> components.\<close>

lemma ice_inv_new_clist:
  assumes "ice_inv ice" "valid_checks ice = []" "\<forall>c \<in> set cs. paired (ice_lcand ice) rs c"
    "\<forall>r \<in> set rs. 1 \<le> cd_comp_id r \<and> cd_comp_id r \<le> n"
    "length rs \<le> PJ_ICE_MAX_CAND" "length cs \<le> PJ_ICE_MAX_CHECKS" "0 < n" "n \<le> comp_cnt ice" "comp_ka ice = 0"
    "ice_lcand ice' = ice_lcand ice" "ice_rcand ice' = rs" "clist_checks ice' = cs" "valid_checks ice' = []"
    "comp_ka ice' = 0" "tags (ice_comp ice') = take n (tags (ice_comp ice))" "ice_timer ice' = ice_timer ice"
    "is_complete ice' = is_complete ice" "ice_status ice' = ice_status ice"
  shows "ice_inv ice'"
proof -
  have p: "ptr_inv ice" "timer_inv ice" using assms(1) by (simp_all add: ice_inv_def)
  have cnt: "comp_cnt ice' = n"
    using arg_cong [OF assms(15), of length] assms(8) unfolding tags_def by simp
  have none: "valid_check (ice_comp ice ! i) = None" "nominated_check (ice_comp ice ! i) = None" if "i < comp_cnt ice" for i
    using ptr_okD [OF p(1) that] assms(2) by (metis length_0_conv not_less_zero option.exhaust)+
  have none': "valid_check (ice_comp ice' ! i) = None" "nominated_check (ice_comp ice' ! i) = None" if "i < n" for i
  proof -
    have "tags (ice_comp ice') ! i = tags (ice_comp ice) ! i" using assms(15) that by simp
    then show "valid_check (ice_comp ice' ! i) = None" "nominated_check (ice_comp ice' ! i) = None"
      using that cnt assms(8) none [of i] by (simp_all add: tags_def)
  qed
  have "pair_ok ice' (ck_lcand c, ck_rcand c)" if "c \<in> set cs" for c
  proof -
    have q: "paired (ice_lcand ice) rs c" using that assms(3) by blast
    then have "rs ! ck_rcand c \<in> set rs" by (simp add: paired_def)
    then have "1 \<le> cd_comp_id (rs ! ck_rcand c) \<and> cd_comp_id (rs ! ck_rcand c) \<le> n" using assms(4) by blast
    then show ?thesis using q cnt by (simp add: paired_def pair_ok_def assms(10,11))
  qed
  then have "ptr_inv ice'"
    using p(1) assms(5-8) none'
    by (auto simp: ptr_inv_def pairs_def ptr_ok_def assms(10-14) cnt)
  moreover have nv: "\<not> all_valid ice'" "\<not> all_nominated ice'" "\<not> all_valid ice" "\<not> all_nominated ice"
    using none' [OF assms(7)] none [OF less_le_trans [OF assms(7,8)]] assms(7) less_le_trans [OF assms(7,8)]
    unfolding all_valid_def all_nominated_def list_all_length cnt by blast+
  then have "timer_inv ice'" using p(2) by (simp add: timer_inv_def assms(16-18))
  moreover have "busy_inv ice'" using assms(3) by (auto simp: busy_inv_def assms(12) paired_def)
  ultimately show ?thesis by (simp add: ice_inv_def)
qed

lemma generated_paired:
  assumes "generate_pairs ice (index_pairs (length (ice_lcand ice)) (length (ice_rcand ice))) [] = (st, cs)"
  shows "(\<forall>c \<in> set cs. paired (ice_lcand ice) (ice_rcand ice) c) \<and> length cs \<le> PJ_ICE_MAX_CHECKS"
proof
  show "\<forall>c \<in> set cs. paired (ice_lcand ice) (ice_rcand ice) c"
    using assms by (rule generate_pairs_forall)
      (auto simp: paired_def new_pair_def index_pairs_def pairs_with_def busy_ok_def)
  show "length cs \<le> PJ_ICE_MAX_CHECKS" using generate_pairs_length [OF assms] by simp
qed

lemma sort_prune_ok:
  assumes "clist_checks ice \<noteq> []" "wf_bases (ice_lcand ice)" "\<forall>c \<in> set (clist_checks ice). paired (ice_lcand ice) rs c"
  obtains cs comps pst pcs where
    "sort_checklist ice CLIST = Some (set_checks CLIST cs (ice\<lparr>ice_comp := comps\<rparr>))"
    "tags comps = tags (ice_comp ice)" "prune_checklist (ice_lcand ice) cs = Some (pst, pcs)"
    "\<forall>c \<in> set pcs. paired (ice_lcand ice) rs c" "length pcs \<le> length (clist_checks ice)"
proof -
  let ?ls = "ice_lcand ice"
  have ne: "checks_of ice CLIST \<noteq> []" using assms(1) by simp
  obtain cs comps where S: "sort_checklist ice CLIST = Some (set_checks CLIST cs (ice\<lparr>ice_comp := comps\<rparr>))"
      "mset cs = mset (clist_checks ice)" "tags comps = tags (ice_comp ice)"
    by (rule sort_checklist_frame [OF ne]) auto
  have cs: "\<forall>c \<in> set cs. paired ?ls rs c" "length cs = length (clist_checks ice)"
    using mset_eq_setD [OF S(2)] mset_eq_length [OF S(2)] assms(3) by simp_all
  obtain pst rcs where r: "replace_srflx ?ls cs = Some (pst, rcs)"
    using replace_srflx_defined [of ?ls cs] cs(1) by (auto simp: list_all_iff paired_def)
  define pcs where "pcs = (if pst \<noteq> PJ_SUCCESS then rcs else remove_redundant ?ls rcs)"
  have "prune_checklist ?ls cs = Some (pst, pcs)" by (simp add: prune_checklist_def r pcs_def)
  moreover have "\<forall>c \<in> set pcs. paired ?ls rs c" "length pcs \<le> length (clist_checks ice)"
    using replace_srflx_paired [OF assms(2) r cs(1)] set_remove_redundant [of ?ls rcs]
      length_remove_redundant [of ?ls rcs] replace_srflx_length [OF r] cs(2)
    by (auto simp: pcs_def)
  ultimately show thesis using that S by blast
qed

lemma create_check_list_ok:
  assumes "ice_inv ice" "fresh ice" "length uf + 1 + length (rx_ufrag ice) \<le> 128"
  shows "\<exists>st ice'. pj_ice_sess_create_check_list ice uf pw rem = Some (st, ice') \<and> ice_inv ice'"
proof (cases "rem = [] \<or> length rem + length (ice_rcand ice) > PJ_ICE_MAX_CAND")
  case True
  then show ?thesis using assms(1) by (auto simp: pj_ice_sess_create_check_list_def)
next
  case False
  define ls where "ls = ice_lcand ice"
  define rs where "rs = filter (matching_comp ice) rem"
  define ice1 where "ice1 = save_remote ice uf pw rem"
  have f1: "ice_lcand ice1 = ls" "ice_rcand ice1 = rs" "clist_checks ice1 = []" "valid_checks ice1 = []"
    "comp_ka ice1 = 0" "ice_comp ice1 = ice_comp ice" "ice_timer ice1 = ice_timer ice"
    "is_complete ice1 = is_complete ice" "ice_status ice1 = ice_status ice"
    using assms(2) by (simp_all add: ice1_def save_remote_def rs_def ls_def fresh_def)
  have "length rs \<le> PJ_ICE_MAX_CAND"
    using False length_filter_le [of "matching_comp ice" rem] unfolding rs_def by linarith
  then have rs: "\<forall>r \<in> set rs. 1 \<le> cd_comp_id r \<and> cd_comp_id r \<le> comp_cnt ice" "length rs \<le> PJ_ICE_MAX_CAND"
    by (auto simp: rs_def matching_comp_def)
  have p: "valid_checks ice = []" "comp_ka ice = 0" "wf_bases ls" "0 < comp_cnt ice"
    using assms(1,2) by (simp_all add: ice_inv_def fresh_def ptr_inv_def ls_def)
  note new = ice_inv_new_clist [OF assms(1) p(1), where rs = rs, folded ls_def]
  obtain st cs where g: "generate_pairs ice1 (index_pairs (length ls) (length rs)) [] = (st, cs)"
    by (cases "generate_pairs ice1 (index_pairs (length ls) (length rs)) []")
  have cs: "\<forall>c \<in> set cs. paired ls rs c" "length cs \<le> PJ_ICE_MAX_CHECKS"
    using generated_paired [of ice1 st cs] g by (simp_all add: f1)
  define ice2 where "ice2 = set_checks CLIST cs ice1"
  have f2: "ice_lcand ice2 = ls" "clist_checks ice2 = cs" "ice_comp ice2 = ice_comp ice" by (simp_all add: ice2_def f1)
  have run: "pj_ice_sess_create_check_list ice uf pw rem =
     (if st \<noteq> PJ_SUCCESS then Some (st, ice2) else if cs = [] then Some (PJ_ENOTFOUND, ice2)
      else do { ice3 \<leftarrow> sort_checklist ice2 CLIST;
          (pst, pcs) \<leftarrow> prune_checklist (ice_lcand ice3) (checks_of ice3 CLIST);
          let ice4 = set_checks CLIST pcs ice3;
          Some (if pst \<noteq> PJ_SUCCESS then (pst, ice4)
                else (PJ_SUCCESS, drop_comps ice4 (highest_comp (ice_rcand ice4)))) })"
    using False assms(3)
    unfolding pj_ice_sess_create_check_list_def Let_def ice1_def [symmetric] f1(1-3) g prod.case ice2_def [symmetric]
    by simp
  show ?thesis
  proof (cases "st \<noteq> PJ_SUCCESS \<or> cs = []")
    case True
    moreover have "ice_inv ice2"
      using cs rs p(2,4) f1 by (intro new [where cs = cs and n = "comp_cnt ice"]) (simp_all add: ice2_def tags_def)
    ultimately show ?thesis unfolding run by auto
  next
    case ok: False
    have pre: "clist_checks ice2 \<noteq> []" "wf_bases (ice_lcand ice2)" "\<forall>c \<in> set (clist_checks ice2). paired (ice_lcand ice2) rs c"
      using ok cs p(3) by (simp_all add: f2)
    obtain cs3 comps pst pcs where
      S: "sort_checklist ice2 CLIST = Some (set_checks CLIST cs3 (ice2\<lparr>ice_comp := comps\<rparr>))"
        "tags comps = tags (ice_comp ice)" "prune_checklist ls cs3 = Some (pst, pcs)"
      and pcs: "\<forall>c \<in> set pcs. paired ls rs c" "length pcs \<le> PJ_ICE_MAX_CHECKS"
      by (rule sort_prune_ok [OF pre, unfolded f2]) (use cs(2) in auto)
    define ice4 where "ice4 = set_checks CLIST pcs (set_checks CLIST cs3 (ice2\<lparr>ice_comp := comps\<rparr>))"
    have f4: "ice_lcand ice4 = ls" "ice_rcand ice4 = rs" "clist_checks ice4 = pcs" "valid_checks ice4 = []"
      "comp_ka ice4 = 0" "ice_comp ice4 = comps" "ice_timer ice4 = ice_timer ice"
      "is_complete ice4 = is_complete ice" "ice_status ice4 = ice_status ice"
      using f1 by (simp_all add: ice4_def ice2_def)
    have i4: "ice_inv ice4"
      using pcs rs p(2,4) f4 S(2) by (intro new [where cs = pcs and n = "comp_cnt ice"]) (simp_all add: tags_def)
    define h where "h = highest_comp rs"
    have rsne: "rs \<noteq> []" using cs ok by (cases cs) (auto simp: paired_def)
    have h: "0 < h" "h \<le> comp_cnt ice" "\<forall>r \<in> set rs. 1 \<le> cd_comp_id r \<and> cd_comp_id r \<le> h"
      using rs(1) rsne highest_comp_ge [of _ rs] highest_comp_le [of rs "comp_cnt ice"]
      by (cases rs; fastforce simp: h_def)+
    have i5: "ice_inv (drop_comps ice4 h)"
      using pcs rs(2) h p(2) f4 S(2)
      by (intro new [where cs = pcs and n = h]) (simp_all add: drop_comps_def emit_def tags_def take_map [symmetric])
    have "pj_ice_sess_create_check_list ice uf pw rem =
        Some (if pst \<noteq> PJ_SUCCESS then (pst, ice4) else (PJ_SUCCESS, drop_comps ice4 h))"
      using ok S(3) f2(1) f4(2) unfolding run S(1) h_def ice4_def by simp
    then show ?thesis using i4 i5 by auto
  qed
qed

subsection \<open>The state machine of a session\<close>

datatype ice_event =
    EvSetOptions pj_ice_sess_options
  | EvChangeRole pj_ice_sess_role
  | EvSetPrefs "byte list"
  | EvAddCand nat nat pj_ice_cand_type "16 word" string pj_sockaddr pj_sockaddr "pj_sockaddr option"
  | EvCreateCheckList string string "pj_ice_sess_cand list"
  | EvStartCheck ice_env
  | EvPeriodicTimer ice_env
  | EvTimer ice_env
  | EvRequestComplete ice_env nat nat stun_outcome
  | EvRxRequest ice_env nat nat stun_request pj_sockaddr
  | EvSendMsg ice_env nat nat "byte list" pj_sockaddr
  | EvSendData ice_env nat "byte list"
  | EvRxPkt pj_status pj_status nat nat "byte list" pj_sockaddr
  | EvDestroy

text \<open>
  What each caller respects: the preferences are an array of four; a candidate's base belongs to its
  component; the check list is created once, with a user name that fits its buffer; the STUN session
  reports the completion of a check that was sent, while there is room for a valid pair; it has
  authenticated a request, which then carries a user name; component ids start at 1.
\<close>

fun ice_guard :: "ice_event \<Rightarrow> pj_ice_sess \<Rightarrow> bool" where
  "ice_guard (EvSetPrefs ps) ice = (length ps = 4)"
| "ice_guard (EvAddCand comp_id tp type lp fnd addr base rel) ice = base_ok (ice_lcand ice) comp_id type addr base"
| "ice_guard (EvCreateCheckList uf pw rem) ice = (fresh ice \<and> length uf + 1 + length (rx_ufrag ice) \<le> 128)"
| "ice_guard (EvRequestComplete env ckid tp res) ice = (ckid < length (clist_checks ice) \<and> valid_room ice)"
| "ice_guard (EvRxRequest env comp_id tp rq src) ice = (ice_rcand ice = [] \<longrightarrow> rq_username rq \<noteq> None)"
| "ice_guard (EvRxPkt chk rx comp_id tp pkt src) ice = (1 \<le> comp_id)"
| "ice_guard _ ice = True"

fun ice_run :: "ice_event \<Rightarrow> pj_ice_sess \<Rightarrow> pj_ice_sess option" where
  "ice_run (EvSetOptions opt) ice = Some (pj_ice_sess_set_options ice opt)"
| "ice_run (EvChangeRole r) ice = Some (pj_ice_sess_change_role ice r)"
| "ice_run (EvSetPrefs ps) ice = Some (pj_ice_sess_set_prefs ice ps)"
| "ice_run (EvAddCand comp_id tp type lp fnd addr base rel) ice =
     Some (snd (pj_ice_sess_add_cand ice comp_id tp type lp fnd addr base rel))"
| "ice_run (EvCreateCheckList uf pw rem) ice = map_option snd (pj_ice_sess_create_check_list ice uf pw rem)"
| "ice_run (EvStartCheck env) ice = map_option snd (pj_ice_sess_start_check env ice)"
| "ice_run (EvPeriodicTimer env) ice = periodic_timer env ice"
| "ice_run (EvTimer env) ice = on_timer env ice"
| "ice_run (EvRequestComplete env ckid tp res) ice = on_stun_request_complete env ice ckid tp res"
| "ice_run (EvRxRequest env comp_id tp rq src) ice = map_option snd (on_stun_rx_request env ice comp_id tp rq src)"
| "ice_run (EvSendMsg env comp_id tp pkt dst) ice = Some (snd (on_stun_send_msg env ice comp_id tp pkt dst))"
| "ice_run (EvSendData env comp_id data) ice = map_option snd (pj_ice_sess_send_data env ice comp_id data)"
| "ice_run (EvRxPkt chk rx comp_id tp pkt src) ice =
     map_option snd (pj_ice_sess_on_rx_pkt (\<lambda>_. chk) (\<lambda>_. rx) ice comp_id tp pkt src)"
| "ice_run EvDestroy ice = Some (destroy_ice ice)"

inductive ice_reachable :: "pj_ice_sess \<Rightarrow> bool" where
  created: "pj_ice_sess_create st role cnt cb ufrag passwd tb = Inr ice \<Longrightarrow> 0 < cnt \<Longrightarrow> cnt \<le> PJ_ICE_MAX_COMP \<Longrightarrow>
     ice_reachable ice"
| step: "ice_reachable ice \<Longrightarrow> ice_guard e ice \<Longrightarrow> ice_run e ice = Some ice' \<Longrightarrow> ice_reachable ice'"

lemma create_inv:
  assumes "pj_ice_sess_create st role cnt cb ufrag passwd tb = Inr ice" "0 < cnt" "cnt \<le> PJ_ICE_MAX_COMP"
  shows "ice_inv ice"
proof -
  have f: "ice_lcand ice = []" "ice_rcand ice = []" "clist_checks ice = []" "valid_checks ice = []" "comp_ka ice = 0"
    "ice_comp ice = replicate cnt init_comp" "ice_timer ice = \<lparr>tm_id = TIMER_NONE, tm_delay = None\<rparr>" "\<not> is_complete ice"
    using assms(1) by (auto simp: pj_ice_sess_create_def Let_def empty_checklist_def split: if_splits)
  then show ?thesis
    using assms(2,3) by (simp add: ice_inv_def ptr_inv_def timer_inv_def busy_inv_def timer_ok_def wf_bases_def
        pairs_def ptr_ok_def init_comp_def)
qed

lemma ice_run_ok:
  assumes "ice_inv ice" "ice_guard e ice"
  shows "\<exists>ice'. ice_run e ice = Some ice' \<and> ice_inv ice'"
proof (cases e)
  case (EvRxRequest env comp_id tp rq src)
  then show ?thesis
    using on_stun_rx_request_ok [of ice rq env comp_id tp src] assms by (auto intro: map_option_snd_ok)
next
  case (EvSendMsg env comp_id tp pkt dst)
  then show ?thesis using assms by (auto simp: on_stun_send_msg_def)
qed (use assms create_check_list_ok [THEN map_option_snd_ok] start_check_ok [THEN map_option_snd_ok] periodic_timer_ok
    on_timer_ok on_stun_request_complete_ok send_data_ok [THEN map_option_snd_ok] on_rx_pkt_ok [THEN map_option_snd_ok]
    destroy_ice_ok ice_inv_add_cand
  in \<open>simp_all add: pj_ice_sess_set_options_def pj_ice_sess_set_prefs_def del: map_option_eq_Some\<close>)

lemma ice_reachable_inv: "ice_reachable ice \<Longrightarrow> ice_inv ice"
proof (induction rule: ice_reachable.induct)
  case (step ice e ice')
  then show ?case using ice_run_ok [of ice e] by auto
qed (rule create_inv)

text \<open>A sequence of guarded calls.\<close>

fun ice_exec :: "ice_event list \<Rightarrow> pj_ice_sess \<Rightarrow> pj_ice_sess option" where
  "ice_exec [] ice = Some ice"
| "ice_exec (e # es) ice = (if ice_guard e ice then Option.bind (ice_run e ice) (ice_exec es) else None)"

lemma ice_exec_reachable: "ice_reachable ice \<Longrightarrow> ice_exec es ice = Some ice' \<Longrightarrow> ice_reachable ice'"
  by (induction es arbitrary: ice) (auto split: if_splits bind_splits intro: step)

text \<open>
  C1. Memory safety of a session. In every reachable state, every call that respects its guard
  returns: no entry point reads through NULL or outside an array; and the arrays stay within the
  bounds of the C structure. A 16-entry candidate table, a 32-entry check list.
\<close>

theorem ice_session_safe:
  assumes "ice_reachable ice" "ice_guard e ice"
  shows "\<exists>ice'. ice_run e ice = Some ice' \<and>
    length (ice_lcand ice') \<le> PJ_ICE_MAX_CAND \<and> length (ice_rcand ice') \<le> PJ_ICE_MAX_CAND \<and>
    length (clist_checks ice') \<le> PJ_ICE_MAX_CHECKS \<and> length (valid_checks ice') \<le> PJ_ICE_MAX_CHECKS \<and>
    comp_ka ice' < comp_cnt ice'"
  using ice_run_ok [OF ice_reachable_inv [OF assms(1)] assms(2)] by (auto simp: ice_inv_def ptr_inv_def)

lemma demo_ice_reachable: "ice_reachable demo_ice"
proof (rule created)
  show "pj_ice_sess_create (\<lambda>_. PJ_SUCCESS) PJ_ICE_SESS_ROLE_CONTROLLING 2 True ''abcd'' ''secret'' 7 = Inr demo_ice"
    by (simp add: demo_ice_def pj_ice_sess_create_def Let_def)
qed (simp_all add: PJ_ICE_MAX_COMP_def)

theorem ice_session_safe_witness:
  "\<exists>ice'. ice_run (EvAddCand 1 0 PJ_ICE_CAND_TYPE_HOST 65535 ''H1'' (ipv4 10 0 0 1 4000) (ipv4 10 0 0 1 4000) None) demo_ice
     = Some ice' \<and> length (ice_lcand ice') \<le> PJ_ICE_MAX_CAND"
  using ice_session_safe [OF demo_ice_reachable, of "EvAddCand 1 0 PJ_ICE_CAND_TYPE_HOST 65535 ''H1''
      (ipv4 10 0 0 1 4000) (ipv4 10 0 0 1 4000) None"]
  by (auto simp: base_ok_def)


text \<open>A complete run of a session with one host candidate on each side.\<close>

definition demo_addr :: pj_sockaddr where "demo_addr = ipv4 10 0 0 1 4000"
definition demo_peer :: pj_sockaddr where "demo_peer = ipv4 10 0 0 2 5000"

definition demo_rcand :: pj_ice_sess_cand where
  "demo_rcand = \<lparr>cd_type = PJ_ICE_CAND_TYPE_HOST, cd_comp_id = 1, cd_transport_id = 0, cd_foundation = ''Ha000002'',
     cd_prio = 2130706431, cd_addr = demo_peer, cd_base_addr = demo_peer, cd_rel_addr = demo_peer\<rparr>"

definition demo_outcome :: stun_outcome where
  "demo_outcome = \<lparr>so_status = PJ_SUCCESS, so_req_controlling = True, so_req_controlled = False,
     so_xor_mapped_addr = Some demo_addr, so_src_addr = demo_peer\<rparr>"

definition demo_events :: "ice_event list" where
  "demo_events =
    [EvAddCand 1 0 PJ_ICE_CAND_TYPE_HOST 65535 ''Ha000001'' demo_addr demo_addr None,
     EvCreateCheckList ''peer'' ''pass'' [demo_rcand],
     EvStartCheck demo_env, EvPeriodicTimer demo_env, EvRequestComplete demo_env 0 0 demo_outcome]"

definition demo_done :: pj_ice_sess where
  "demo_done = the (ice_exec demo_events demo_ice)"

lemma demo_exec_facts:
  "case ice_exec demo_events demo_ice of None \<Rightarrow> False
   | Some ice \<Rightarrow> is_complete ice \<and> ice_status ice = PJ_SUCCESS \<and> comp_cnt ice = 1"
  by code_simp

lemma demo_done_facts:
  "ice_reachable demo_done" "is_complete demo_done" "ice_status demo_done = PJ_SUCCESS" "comp_cnt demo_done = 1"
  using demo_exec_facts ice_exec_reachable [OF demo_ice_reachable, of demo_events]
  by (auto simp: demo_done_def split: option.splits)


end
