(* ===== verification/IcePriority.thy ===== *)
theory IcePriority
  imports IceTypes
begin

text \<open>
  Candidate and pair priorities of ice_session.c against the formulas of the ICE specification, the
  agreement of both agents on the order of pairs, and the foundation of a candidate.
\<close>

lemma unat_mask_FF: "unat ((x :: 32 word) AND 0xFF) = unat x mod 256"
  using unat_and_mask [of x 8] by (simp add: mask_eq_exp_minus_1)

lemma unat_mask_FFFF: "unat ((x :: 32 word) AND 0xFFFF) = unat x mod 65536"
  using unat_and_mask [of x 16] by (simp add: mask_eq_exp_minus_1)

lemma unat_256_minus:
  assumes "c \<le> 256"
  shows "unat (256 - of_nat c :: 32 word) = 256 - c"
proof -
  have "(256 - of_nat c :: 32 word) = of_nat (256 - c)"
    using assms of_nat_diff [of c 256, where ?'a = "32 word"] by simp
  then show ?thesis by (simp only: unat_of_nat) simp
qed

lemma CALC_CAND_PRIO_value:
  assumes "1 \<le> c" and "c \<le> 255"
  shows "unat (CALC_CAND_PRIO ice t lp (of_nat c)) =
    unat (pref_of ice t) * 2 ^ 24 + (unat lp mod 2 ^ 16) * 2 ^ 8 + (256 - c)"
proof -
  let ?p = "ucast (pref_of ice t) AND 0xFF :: 32 word"
  let ?l = "lp AND 0xFFFF"
  let ?c = "(256 - of_nat c) AND 0xFF :: 32 word"
  have p: "unat ?p = unat (pref_of ice t)"
    by (simp add: unat_mask_FF unat_ucast_up)
  have l: "unat ?l = unat lp mod 2 ^ 16" "unat ?l < 65536"
    by (simp_all add: unat_mask_FFFF)
  have c: "unat ?c = 256 - c"
    using assms by (simp add: unat_mask_FF unat_256_minus)
  have pl: "unat ?p < 256"
    by (simp add: p)
  have p24: "unat (push_bit 24 ?p) = unat ?p * 2 ^ 24"
    using pl by (intro unat_push_bit_small) simp
  have l8: "unat (push_bit 8 ?l) = unat ?l * 2 ^ 8"
    using l(2) by (intro unat_push_bit_small) simp
  have s1: "unat (push_bit 24 ?p + push_bit 8 ?l) = unat ?p * 2 ^ 24 + unat ?l * 2 ^ 8"
    using pl l(2) p24 l8 by (subst unat_add_small) auto
  have "unat (push_bit 24 ?p + push_bit 8 ?l + ?c) = unat ?p * 2 ^ 24 + unat ?l * 2 ^ 8 + unat ?c"
    using pl l(2) s1 c assms by (subst unat_add_small) auto
  then show ?thesis
    unfolding CALC_CAND_PRIO_def by (simp only: push_bit_0_id id_apply p l c)
qed

lemma lex_digits_less_iff:
  fixes a b c a' b' c' :: nat
  assumes "b < n" "b' < n" "c < m" "c' < m"
  shows "a * (n * m) + b * m + c < a' * (n * m) + b' * m + c' \<longleftrightarrow>
    a < a' \<or> (a = a' \<and> (b < b' \<or> (b = b' \<and> c < c')))"
proof -
  have low: "x * m + y < n * m" if "x < n" "y < m" for x y :: nat
  proof -
    have "x * m + y < (x + 1) * m" using that by simp
    also have "\<dots> \<le> n * m" using that by (intro mult_right_mono) auto
    finally show ?thesis .
  qed
  have two: "x * k + y < x' * k + y' \<longleftrightarrow> x < x' \<or> (x = x' \<and> y < y')"
    if "y < k" "y' < k" for x x' y y' k :: nat
  proof -
    have step: "u * k + v < w * k + z" if "u < w" "v < k" for u v w z
    proof -
      have "u * k + v < (u + 1) * k" using that by simp
      also have "\<dots> \<le> w * k" using that by (intro mult_right_mono) auto
      finally show ?thesis by simp
    qed
    show ?thesis
      using step [of x x' y y'] step [of x' x y' y] that by (cases x x' rule: linorder_cases) auto
  qed
  have "a * (n * m) + b * m + c < a' * (n * m) + b' * m + c' \<longleftrightarrow>
    a * (n * m) + (b * m + c) < a' * (n * m) + (b' * m + c')" by (simp add: add.assoc)
  also have "\<dots> \<longleftrightarrow> a < a' \<or> (a = a' \<and> b * m + c < b' * m + c')"
    using assms by (intro two low)
  also have "b * m + c < b' * m + c' \<longleftrightarrow> b < b' \<or> (b = b' \<and> c < c')"
    using assms by (intro two)
  finally show ?thesis .
qed

text \<open>
  C5. The priority of a candidate is the number \<open>2^24\<close> type preference + \<open>2^8\<close> local preference +
  (256 - component id) of the ICE specification, without overflow; so candidates of one session are
  ordered by type preference, then local preference, then by the lower component id.
\<close>

theorem cand_prio_lexicographic:
  fixes lp lp' :: "16 word"
  assumes "1 \<le> c" "c \<le> 255" "1 \<le> c'" "c' \<le> 255"
  shows "unat (CALC_CAND_PRIO ice t (ucast lp) (of_nat c)) =
           unat (pref_of ice t) * 2 ^ 24 + unat lp * 2 ^ 8 + (256 - c) \<and>
         (CALC_CAND_PRIO ice t (ucast lp) (of_nat c) < CALC_CAND_PRIO ice t' (ucast lp') (of_nat c') \<longleftrightarrow>
           pref_of ice t < pref_of ice t' \<or>
           pref_of ice t = pref_of ice t' \<and> (lp < lp' \<or> lp = lp' \<and> c' < c))"
proof -
  have u: "unat (ucast x :: 32 word) = unat x" "unat x < 65536" for x :: "16 word"
    by (simp_all add: unat_ucast_up)
  have v: "unat (CALC_CAND_PRIO ice s (ucast x) (of_nat d)) =
      unat (pref_of ice s) * (65536 * 256) + unat x * 256 + (256 - d)"
    if "1 \<le> d" "d \<le> 255" for s d and x :: "16 word"
    using that u(2) [of x] by (simp add: CALC_CAND_PRIO_value u(1))
  have "CALC_CAND_PRIO ice t (ucast lp) (of_nat c) < CALC_CAND_PRIO ice t' (ucast lp') (of_nat c') \<longleftrightarrow>
      unat (pref_of ice t) < unat (pref_of ice t') \<or>
      unat (pref_of ice t) = unat (pref_of ice t') \<and>
        (unat lp < unat lp' \<or> unat lp = unat lp' \<and> 256 - c < 256 - c')"
    using assms u(2) unfolding word_less_nat_alt
    by (simp only: v, intro lex_digits_less_iff) auto
  moreover have "256 - c < 256 - c' \<longleftrightarrow> c' < c" using assms by arith
  ultimately show ?thesis
    using assms by (simp add: v word_less_nat_alt flip: word_unat_eq_iff)
qed

theorem cand_prio_lexicographic_witness:
  "CALC_CAND_PRIO demo_ice PJ_ICE_CAND_TYPE_RELAYED 65535 1 < CALC_CAND_PRIO demo_ice PJ_ICE_CAND_TYPE_HOST 0 2"
  using cand_prio_lexicographic [of 1 2 demo_ice PJ_ICE_CAND_TYPE_RELAYED 65535 PJ_ICE_CAND_TYPE_HOST 0]
  by (simp add: pref_of_def cand_type_prefs_def)

subsection \<open>Pair priority\<close>

lemma mk_timestamp_add: "mk_timestamp hi lo = push_bit 32 (ucast hi) + ucast lo"
  unfolding mk_timestamp_def
  by (rule disjunctive_add [symmetric]) (auto simp: bit_simps dest: bit_imp_le_length)

lemma unat_mk_timestamp: "unat (mk_timestamp hi lo) = unat hi * 2 ^ 32 + unat lo"
proof -
  have h: "unat (ucast hi :: 64 word) = unat hi" and l: "unat (ucast lo :: 64 word) = unat lo"
    by (simp_all add: unat_ucast_up)
  have hi: "unat hi < 2 ^ 32" and lo: "unat lo < 2 ^ 32"
    using unsigned_less [of hi] unsigned_less [of lo] by simp_all
  have p: "unat (push_bit 32 (ucast hi :: 64 word)) = unat hi * 2 ^ 32"
    using hi by (subst unat_push_bit_small) (simp_all add: h)
  show ?thesis
    unfolding mk_timestamp_add using hi lo by (subst unat_add_small) (simp_all add: p l)
qed

text \<open>
  For candidate priorities below \<open>2^31\<close> (every priority \<open>CALC_CAND_PRIO\<close> computes from the
  default preferences), the pair priority is \<open>2^32 * min(G,D) + 2 * max(G,D) + (1 if G > D)\<close>, where
  \<open>G\<close> is the controlling and \<open>D\<close> the controlled agent's candidate: no carry of the doubled maximum
  is lost in its 32-bit half. The agent in the other role computes the same number for the pair, so
  both agents order their check lists alike.
\<close>

theorem pair_prio_formula:
  assumes "G < 2 ^ 31" and "D < 2 ^ 31"
  shows "unat (CALC_CHECK_PRIO PJ_ICE_SESS_ROLE_CONTROLLING G D) =
           2 ^ 32 * min (unat G) (unat D) + 2 * max (unat G) (unat D) + (if unat G > unat D then 1 else 0) \<and>
         CALC_CHECK_PRIO PJ_ICE_SESS_ROLE_CONTROLLED D G = CALC_CHECK_PRIO PJ_ICE_SESS_ROLE_CONTROLLING G D"
proof -
  have GD: "unat G < 2 ^ 31" "unat D < 2 ^ 31"
    using assms by (simp_all add: word_less_nat_alt)
  have dbl: "unat (push_bit 1 x + b) = 2 * unat x + unat b"
    if "unat x < 2 ^ 31" "unat b \<le> 1" for x b :: "32 word"
  proof -
    have "unat (push_bit 1 x) = unat x * 2 ^ 1"
      using that by (intro unat_push_bit_small) simp
    then show ?thesis using that by (subst unat_add_small) simp_all
  qed
  have "unat (CALC_CHECK_PRIO PJ_ICE_SESS_ROLE_CONTROLLING G D) =
      unat (if G < D then G else D) * 2 ^ 32 +
      unat (push_bit 1 (if D < G then G else D) + (if D < G then 1 else 0))"
    by (simp only: CALC_CHECK_PRIO_def Let_def unat_mk_timestamp if_True simp_thms)
  also have "unat (push_bit 1 (if D < G then G else D) + (if D < G then 1 else 0)) =
      2 * unat (if D < G then G else D) + unat (if D < G then 1 else 0 :: 32 word)"
    using GD by (intro dbl) auto
  finally show ?thesis
    by (auto simp: CALC_CHECK_PRIO_def word_less_nat_alt)
qed

theorem pair_prio_formula_witness:
  "unat (CALC_CHECK_PRIO PJ_ICE_SESS_ROLE_CONTROLLING 0x7EFFFFFF 0x64FFFFFE) =
     2 ^ 32 * 0x64FFFFFE + 2 * 0x7EFFFFFF + 1"
  using pair_prio_formula [of "0x7EFFFFFF" "0x64FFFFFE"] by simp

subsection \<open>Foundations\<close>

lemma hex_digit_inj:
  assumes "hex_digit m = hex_digit n" shows "m mod 16 = n mod 16"
proof -
  have "distinct ''0123456789abcdef''" by simp
  moreover have "m mod 16 < length ''0123456789abcdef''" "n mod 16 < length ''0123456789abcdef''"
    by simp_all
  ultimately show ?thesis
    using assms unfolding hex_digit_def by (metis nth_eq_iff_index_eq)
qed

lemma print_hex_neq_Nil [simp]: "print_hex n \<noteq> []"
  by (subst print_hex.simps) simp

lemma print_hex_inj: "print_hex m = print_hex n \<Longrightarrow> m = n"
proof (induction m arbitrary: n rule: print_hex.induct)
  case (1 m)
  have lt: "k < 16 \<longleftrightarrow> length (print_hex k) = 1" for k
    by (subst print_hex.simps) auto
  show ?case
  proof (cases "m < 16")
    case True
    with lt [of m] lt [of n] "1.prems" have "n < 16" by simp
    with True "1.prems" have "hex_digit m = hex_digit n"
      by (simp add: print_hex.simps [of m] print_hex.simps [of n])
    then show ?thesis using True \<open>n < 16\<close> by (auto dest: hex_digit_inj)
  next
    case False
    with lt [of m] lt [of n] "1.prems" have n: "\<not> n < 16" by simp
    with False "1.prems" have "print_hex (m div 16) = print_hex (n div 16)" "hex_digit m = hex_digit n"
      by (simp_all add: print_hex.simps [of m] print_hex.simps [of n])
    then have "m div 16 = n div 16" "m mod 16 = n mod 16"
      using "1.IH" False by (auto dest: hex_digit_inj)
    then show ?thesis by (metis div_mult_mod_eq)
  qed
qed

lemma get_type_prefix_inj: "get_type_prefix t = get_type_prefix t' \<Longrightarrow> t = t'"
  by (cases t; cases t') auto

lemma be_word32_4_add:
  "unat (be_word32 [a, b, c, d]) = ((unat a * 256 + unat b) * 256 + unat c) * 256 + unat d"
proof -
  have step: "unat (push_bit 8 w OR ucast x) = unat w * 256 + unat x"
    if "unat w < 2 ^ 24" for w :: "32 word" and x :: byte
  proof -
    have "push_bit 8 w OR ucast x = push_bit 8 w + ucast x"
      by (rule disjunctive_add [symmetric]) (auto simp: bit_simps dest: bit_imp_le_length)
    moreover have "unat (push_bit 8 w) = unat w * 2 ^ 8"
      using that by (intro unat_push_bit_small) simp
    moreover have "unat (ucast x :: 32 word) = unat x" by (simp add: unat_ucast_up)
    moreover have "unat w * 256 + unat x < 2 ^ 32" using that unat_byte_less [of x] by (simp del: unat_byte_less)
    ultimately show ?thesis by (simp add: unat_add_small)
  qed
  have B: "unat x \<le> 255" for x :: byte using unat_byte_less [of x] by (simp del: unat_byte_less)
  define w1 :: "32 word" where "w1 = push_bit 8 0 OR ucast a"
  define w2 :: "32 word" where "w2 = push_bit 8 w1 OR ucast b"
  define w3 :: "32 word" where "w3 = push_bit 8 w2 OR ucast c"
  have w1: "unat w1 = unat a" unfolding w1_def by (subst step) simp_all
  have w2: "unat w2 = unat a * 256 + unat b"
    unfolding w2_def using w1 B [of a] by (subst step) simp_all
  have w3: "unat w3 = (unat a * 256 + unat b) * 256 + unat c"
    unfolding w3_def using w2 B [of a] B [of b] by (subst step) simp_all
  have be: "be_word32 [a, b, c, d] = push_bit 8 w3 OR ucast d"
    by (simp add: be_word32_def w1_def w2_def w3_def)
  show ?thesis unfolding be using w3 B [of a] B [of b] B [of c] by (subst step) simp_all
qed

lemma be_word32_inj:
  assumes "length xs = 4" "length ys = 4" "be_word32 xs = be_word32 ys"
  shows "xs = ys"
proof -
  obtain a b c d where xs: "xs = [a, b, c, d]"
    using assms(1) by (auto simp: numeral_eq_Suc length_Suc_conv)
  obtain a' b' c' d' where ys: "ys = [a', b', c', d']"
    using assms(2) by (auto simp: numeral_eq_Suc length_Suc_conv)
  have eq: "((unat a * 256 + unat b) * 256 + unat c) * 256 + unat d =
      ((unat a' * 256 + unat b') * 256 + unat c') * 256 + unat d'"
    using assms(3) unfolding xs ys by (metis be_word32_4_add)
  have dig: "x = x' \<and> u = u'" if "x * 256 + unat u = x' * 256 + unat u'" for x x' and u u' :: byte
  proof -
    have "(x * 256 + unat u) mod 256 = unat u" "(x' * 256 + unat u') mod 256 = unat u'" by simp_all
    with that have "unat u = unat u'" by metis
    with that show ?thesis by (simp add: word_unat_eq_iff)
  qed
  from dig [OF eq] have d: "d = d'" and
    e3: "(unat a * 256 + unat b) * 256 + unat c = (unat a' * 256 + unat b') * 256 + unat c'" by auto
  from dig [OF e3] have c: "c = c'" and e2: "unat a * 256 + unat b = unat a' * 256 + unat b'" by auto
  from dig [OF e2] have "b = b'" "unat a = unat a'" by auto
  with c d show ?thesis unfolding xs ys by (simp add: word_unat_eq_iff)
qed

text \<open>
  Two IPv4 candidates have the same foundation exactly when they have the same type and the same
  base IP address, as the comment on \<^verbatim>\<open>pj_ice_calc_foundation\<close> requires (the port plays no part).
\<close>

theorem foundation_iff:
  assumes "wf_sockaddr a" "sa_family a = PJ_AF_INET" "wf_sockaddr b" "sa_family b = PJ_AF_INET"
  shows "pj_ice_calc_foundation t a = pj_ice_calc_foundation t' b \<longleftrightarrow> t = t' \<and> sa_addr a = sa_addr b"
proof -
  have len: "length (sa_addr a) = 4" "length (sa_addr b) = 4"
    using assms by (auto simp: wf_sockaddr_def pj_sockaddr_get_addr_len_def PJ_AF_INET_def PJ_AF_INET6_def)
  have "pj_ice_calc_foundation t a = pj_ice_calc_foundation t' b \<longleftrightarrow>
      t = t' \<and> be_word32 (sa_addr a) = be_word32 (sa_addr b)"
    using assms len
    by (auto simp: pj_ice_calc_foundation_def Let_def word_unat_eq_iff
        dest: get_type_prefix_inj print_hex_inj)
  then show ?thesis using be_word32_inj len by auto
qed

theorem foundation_iff_witness:
  "pj_ice_calc_foundation PJ_ICE_CAND_TYPE_HOST (ipv4 10 0 0 1 5000) =
   pj_ice_calc_foundation PJ_ICE_CAND_TYPE_HOST (ipv4 10 0 0 1 6000)"
  using foundation_iff [of "ipv4 10 0 0 1 5000" "ipv4 10 0 0 1 6000"]
  by (simp add: ipv4_def wf_sockaddr_def pj_sockaddr_get_addr_len_def PJ_AF_INET_def PJ_AF_INET6_def)

end
