(* ===== verification/TimerHeap.thy ===== *)
theory TimerHeap
  imports TimeVal
begin

text \<open>
  The timer heap (pjlib/src/pj/timer.c): an array heap of timer entries ordered by expiry, with the
  parallel array that maps the internal id of an entry to its slot and threads the free ids.

  Entries live in a store indexed by handles, which stand for their addresses. A read or write
  outside an array is the value \<open>None\<close>. The heap lock is held over each operation, except around the
  callbacks of a poll. The number of references on each group lock is kept in \<open>th_refs\<close>.
\<close>

type_synonym handle = nat

record pj_timer_entry =
  te_id :: int
  te_has_cb :: bool
  te_timer_id :: int
  te_timer_value :: pj_time_val
  te_grp_lock :: "nat option"

record pj_timer_heap =
  th_max_size :: nat
  th_cur_size :: nat
  th_max_entries_per_poll :: nat
  th_heap :: "handle list"
  th_timer_ids :: "int list"
  th_freelist :: int
  th_entries :: "handle \<Rightarrow> pj_timer_entry"
  th_refs :: "nat \<Rightarrow> int"

definition HEAP_PARENT :: "nat \<Rightarrow> nat" where
  "HEAP_PARENT x = (if x = 0 then 0 else (x - 1) div 2)"

definition HEAP_LEFT :: "nat \<Rightarrow> nat" where
  "HEAP_LEFT x = x + x + 1"

definition DEFAULT_MAX_TIMED_OUT_PER_POLL :: nat where
  "DEFAULT_MAX_TIMED_OUT_PER_POLL = 64"

lemma HEAP_PARENT_less [simp]: "0 < x \<Longrightarrow> HEAP_PARENT x < x"
  by (auto simp: HEAP_PARENT_def)

abbreviation tm_val :: "pj_timer_heap \<Rightarrow> handle \<Rightarrow> pj_time_val" where
  "tm_val ht h \<equiv> te_timer_value (th_entries ht h)"

definition upd_entry :: "handle \<Rightarrow> (pj_timer_entry \<Rightarrow> pj_timer_entry) \<Rightarrow> pj_timer_heap \<Rightarrow> pj_timer_heap" where
  "upd_entry h f ht = ht\<lparr>th_entries := (th_entries ht)(h := f (th_entries ht h))\<rparr>"

definition set_timer_id :: "int \<Rightarrow> int \<Rightarrow> pj_timer_heap \<Rightarrow> pj_timer_heap option" where
  "set_timer_id i v ht =
     (if 0 \<le> i \<and> nat i < length (th_timer_ids ht)
      then Some (ht\<lparr>th_timer_ids := (th_timer_ids ht)[nat i := v]\<rparr>) else None)"

definition get_timer_id :: "pj_timer_heap \<Rightarrow> int \<Rightarrow> int option" where
  "get_timer_id ht i = (if 0 \<le> i then deref (th_timer_ids ht) (nat i) else None)"

subsection \<open>Operations on the array\<close>

definition copy_node :: "pj_timer_heap \<Rightarrow> nat \<Rightarrow> handle \<Rightarrow> pj_timer_heap option" where
  "copy_node ht slot moved_node =
     (if slot < length (th_heap ht)
      then set_timer_id (te_timer_id (th_entries ht moved_node)) (int slot)
             (ht\<lparr>th_heap := (th_heap ht)[slot := moved_node]\<rparr>)
      else None)"

definition pop_freelist :: "pj_timer_heap \<Rightarrow> (int \<times> pj_timer_heap) option" where
  "pop_freelist ht = do {
     next_id \<leftarrow> get_timer_id ht (th_freelist ht);
     Some (th_freelist ht, ht\<lparr>th_freelist := - next_id\<rparr>) }"

definition push_freelist :: "pj_timer_heap \<Rightarrow> int \<Rightarrow> pj_timer_heap option" where
  "push_freelist ht old_id = do {
     ht1 \<leftarrow> set_timer_id old_id (- th_freelist ht) ht;
     Some (ht1\<lparr>th_freelist := old_id\<rparr>) }"

lemma copy_node_cur_size: "copy_node ht slot h = Some ht' \<Longrightarrow> th_cur_size ht' = th_cur_size ht"
  by (auto simp: copy_node_def set_timer_id_def split: if_splits)

text \<open>The second argument of the C loops is always the parent, or the left child, of the slot.\<close>

function reheap_down :: "pj_timer_heap \<Rightarrow> handle \<Rightarrow> nat \<Rightarrow> pj_timer_heap option" where
  "reheap_down ht moved_node slot =
     (if HEAP_LEFT slot < th_cur_size ht then do {
        l \<leftarrow> deref (th_heap ht) (HEAP_LEFT slot);
        child \<leftarrow> (if HEAP_LEFT slot + 1 < th_cur_size ht then do {
                    r \<leftarrow> deref (th_heap ht) (HEAP_LEFT slot + 1);
                    Some (if PJ_TIME_VAL_LT (tm_val ht r) (tm_val ht l) then HEAP_LEFT slot + 1 else HEAP_LEFT slot) }
                  else Some (HEAP_LEFT slot));
        c \<leftarrow> deref (th_heap ht) child;
        if PJ_TIME_VAL_LT (tm_val ht c) (tm_val ht moved_node)
        then do {
          ht' \<leftarrow> copy_node ht slot c;
          reheap_down ht' moved_node child }
        else copy_node ht slot moved_node }
      else copy_node ht slot moved_node)"
  by pat_completeness auto
termination
  by (relation "measure (\<lambda>(ht, _, slot). th_cur_size ht - slot)") 
    (auto dest: copy_node_cur_size simp: HEAP_LEFT_def split: if_splits bind_splits)

function reheap_up :: "pj_timer_heap \<Rightarrow> handle \<Rightarrow> nat \<Rightarrow> pj_timer_heap option" where
  "reheap_up ht moved_node slot =
     (if slot > 0 then do {
        p \<leftarrow> deref (th_heap ht) (HEAP_PARENT slot);
        if PJ_TIME_VAL_LT (tm_val ht moved_node) (tm_val ht p)
        then do {
          ht' \<leftarrow> copy_node ht slot p;
          reheap_up ht' moved_node (HEAP_PARENT slot) }
        else copy_node ht slot moved_node }
      else copy_node ht slot moved_node)"
  by pat_completeness auto
termination by (relation "measure (\<lambda>(_, _, slot). slot)") auto

declare reheap_up.simps [simp del] reheap_down.simps [simp del]

definition remove_node :: "pj_timer_heap \<Rightarrow> nat \<Rightarrow> (handle \<times> pj_timer_heap) option" where
  "remove_node ht slot = do {
     removed_node \<leftarrow> deref (th_heap ht) slot;
     ht1 \<leftarrow> push_freelist ht (te_timer_id (th_entries ht removed_node));
     if th_cur_size ht1 = 0 then None
     else do {
       let ht2 = upd_entry removed_node (\<lambda>e. e\<lparr>te_timer_id := -1\<rparr>) (ht1\<lparr>th_cur_size := th_cur_size ht1 - 1\<rparr>);
       if slot < th_cur_size ht2
       then do {
         moved_node \<leftarrow> deref (th_heap ht2) (th_cur_size ht2);
         ht3 \<leftarrow> copy_node ht2 slot moved_node;
         p \<leftarrow> deref (th_heap ht3) (HEAP_PARENT slot);
         ht4 \<leftarrow> (if PJ_TIME_VAL_GTE (tm_val ht3 moved_node) (tm_val ht3 p)
                 then reheap_down ht3 moved_node slot else reheap_up ht3 moved_node slot);
         Some (removed_node, ht4) }
       else Some (removed_node, ht2) } }"

text \<open>The new slots of the heap array are not initialised: 0 stands for whatever they hold.\<close>

definition grow_heap :: "pj_timer_heap \<Rightarrow> pj_timer_heap" where
  "grow_heap ht =
     (let new_size = th_max_size ht * 2 in
      ht\<lparr>th_heap := th_heap ht @ replicate (new_size - th_max_size ht) 0,
         th_timer_ids := th_timer_ids ht @ map (\<lambda>i. - int (i + 1)) [th_max_size ht..<new_size],
         th_max_size := new_size\<rparr>)"

definition insert_node :: "pj_timer_heap \<Rightarrow> handle \<Rightarrow> pj_timer_heap option" where
  "insert_node ht new_node = do {
     let ht1 = (if th_cur_size ht + 2 \<ge> th_max_size ht then grow_heap ht else ht);
     ht2 \<leftarrow> reheap_up ht1 new_node (th_cur_size ht1);
     Some (ht2\<lparr>th_cur_size := th_cur_size ht2 + 1\<rparr>) }"

definition schedule_entry :: "pj_timer_heap \<Rightarrow> handle \<Rightarrow> pj_time_val \<Rightarrow> (pj_status \<times> pj_timer_heap) option" where
  "schedule_entry ht entry future_time =
     (if th_cur_size ht < th_max_size ht then do {
        (new_id, ht1) \<leftarrow> pop_freelist ht;
        ht2 \<leftarrow> insert_node (upd_entry entry (\<lambda>e. e\<lparr>te_timer_id := new_id, te_timer_value := future_time\<rparr>) ht1) entry;
        Some (PJ_SUCCESS, ht2) }
      else Some (PJ_STATUS (-1), ht))"

text \<open>\<^verbatim>\<open>cancel\<close> is only called with the flag that suppresses the close hook. The first test lets an id equal to
  the size of the array pass, which then reads past it.\<close>

definition cancel :: "pj_timer_heap \<Rightarrow> handle \<Rightarrow> (nat \<times> pj_timer_heap) option" where
  "cancel ht entry =
     (let tid = te_timer_id (th_entries ht entry);
          reset = upd_entry entry (\<lambda>e. e\<lparr>te_timer_id := -1\<rparr>) ht
      in if tid < 0 \<or> tid > int (th_max_size ht) then Some (0, reset)
         else do {
           timer_node_slot \<leftarrow> get_timer_id ht tid;
           if timer_node_slot < 0 then Some (0, reset)
           else do {
             h \<leftarrow> deref (th_heap ht) (nat timer_node_slot);
             if entry \<noteq> h then Some (0, reset)
             else do {
               (_, ht1) \<leftarrow> remove_node ht (nat timer_node_slot);
               Some (1, ht1) } } })"

subsection \<open>The interface of the heap\<close>

definition pj_timer_heap_create :: "nat \<Rightarrow> (handle \<Rightarrow> pj_timer_entry) \<Rightarrow> (nat \<Rightarrow> int) \<Rightarrow> pj_timer_heap" where
  "pj_timer_heap_create sz ents refs =
     \<lparr>th_max_size = sz + 2, th_cur_size = 0, th_max_entries_per_poll = DEFAULT_MAX_TIMED_OUT_PER_POLL,
      th_heap = replicate (sz + 2) 0, th_timer_ids = map (\<lambda>i. - int (i + 1)) [0..<sz + 2],
      th_freelist = 1, th_entries = ents, th_refs = refs\<rparr>"

definition pj_timer_heap_set_max_timed_out_per_poll :: "pj_timer_heap \<Rightarrow> nat \<Rightarrow> nat \<times> pj_timer_heap" where
  "pj_timer_heap_set_max_timed_out_per_poll ht cnt =
     (th_max_entries_per_poll ht, ht\<lparr>th_max_entries_per_poll := cnt\<rparr>)"

definition pj_timer_entry_init :: "pj_timer_entry \<Rightarrow> int \<Rightarrow> bool \<Rightarrow> pj_timer_entry" where
  "pj_timer_entry_init entry i cb = entry\<lparr>te_timer_id := -1, te_id := i, te_has_cb := cb, te_grp_lock := None\<rparr>"

definition pj_timer_entry_running :: "pj_timer_entry \<Rightarrow> bool" where
  "pj_timer_entry_running entry \<longleftrightarrow> te_timer_id entry \<ge> 1"

definition grp_lock_ref :: "int \<Rightarrow> nat option \<Rightarrow> pj_timer_heap \<Rightarrow> pj_timer_heap" where
  "grp_lock_ref d l ht = (case l of None \<Rightarrow> ht
     | Some k \<Rightarrow> ht\<lparr>th_refs := (th_refs ht)(k := th_refs ht k + d)\<rparr>)"

definition schedule_w_grp_lock ::
  "pj_timer_heap \<Rightarrow> pj_time_val \<Rightarrow> handle \<Rightarrow> pj_time_val \<Rightarrow> int option \<Rightarrow> nat option
   \<Rightarrow> (pj_status \<times> pj_timer_heap) option" where
  "schedule_w_grp_lock ht now entry delay id_val grp_lock =
     (if \<not> te_has_cb (th_entries ht entry) then Some (PJ_EINVAL, ht)
      else if te_timer_id (th_entries ht entry) \<ge> 1 then Some (PJ_EINVALIDOP, ht)
      else do {
        (status, ht1) \<leftarrow> schedule_entry ht entry (PJ_TIME_VAL_ADD now delay);
        if status = PJ_SUCCESS
        then Some (status, grp_lock_ref 1 grp_lock (upd_entry entry
               (\<lambda>e. e\<lparr>te_id := (case id_val of None \<Rightarrow> te_id e | Some i \<Rightarrow> i), te_grp_lock := grp_lock\<rparr>) ht1))
        else Some (status, ht1) })"

definition pj_timer_heap_schedule ::
  "pj_timer_heap \<Rightarrow> pj_time_val \<Rightarrow> handle \<Rightarrow> pj_time_val \<Rightarrow> (pj_status \<times> pj_timer_heap) option" where
  "pj_timer_heap_schedule ht now entry delay = schedule_w_grp_lock ht now entry delay None None"

definition cancel_timer :: "pj_timer_heap \<Rightarrow> handle \<Rightarrow> int option \<Rightarrow> (nat \<times> pj_timer_heap) option" where
  "cancel_timer ht entry id_val = do {
     (cnt, ht1) \<leftarrow> cancel ht entry;
     let ht2 = (case id_val of None \<Rightarrow> ht1 | Some i \<Rightarrow> upd_entry entry (\<lambda>e. e\<lparr>te_id := i\<rparr>) ht1);
     Some (cnt, grp_lock_ref (-1) (te_grp_lock (th_entries ht2 entry))
                    (upd_entry entry (\<lambda>e. e\<lparr>te_grp_lock := None\<rparr>) ht2)) }"

definition pj_timer_heap_cancel :: "pj_timer_heap \<Rightarrow> handle \<Rightarrow> (nat \<times> pj_timer_heap) option" where
  "pj_timer_heap_cancel ht entry = cancel_timer ht entry None"

definition pj_timer_heap_schedule_w_grp_lock ::
  "pj_timer_heap \<Rightarrow> pj_time_val \<Rightarrow> handle \<Rightarrow> pj_time_val \<Rightarrow> int \<Rightarrow> nat option \<Rightarrow> (pj_status \<times> pj_timer_heap) option" where
  "pj_timer_heap_schedule_w_grp_lock ht now entry delay id_val grp_lock =
     schedule_w_grp_lock ht now entry delay (Some id_val) grp_lock"

definition pj_timer_heap_cancel_if_active :: "pj_timer_heap \<Rightarrow> handle \<Rightarrow> int \<Rightarrow> (nat \<times> pj_timer_heap) option" where
  "pj_timer_heap_cancel_if_active ht entry id_val = cancel_timer ht entry (Some id_val)"

text \<open>
  Polling. \<open>cb h ht\<close> is what the callback of entry \<open>h\<close> does to the heap, which is unlocked around it.
  \<open>n\<close> is the number of entries the call may still process; callbacks do not change the limit.
\<close>

fun poll_loop ::
  "(handle \<Rightarrow> pj_timer_heap \<Rightarrow> pj_timer_heap option) \<Rightarrow> pj_time_val \<Rightarrow> nat \<Rightarrow> pj_timer_heap
   \<Rightarrow> (handle list \<times> pj_timer_heap) option" where
  "poll_loop cb now 0 ht = Some ([], ht)"
| "poll_loop cb now (Suc n) ht =
     (if th_cur_size ht = 0 then Some ([], ht)
      else do {
        top \<leftarrow> deref (th_heap ht) 0;
        if PJ_TIME_VAL_LTE (tm_val ht top) now
        then do {
          (node, ht1) \<leftarrow> remove_node ht 0;
          let grp_lock = te_grp_lock (th_entries ht1 node);
          let ht2 = upd_entry node (\<lambda>e. e\<lparr>te_grp_lock := None\<rparr>) ht1;
          ht3 \<leftarrow> (if te_has_cb (th_entries ht2 node) then cb node ht2 else Some ht2);
          (fired, ht4) \<leftarrow> poll_loop cb now n (grp_lock_ref (-1) grp_lock ht3);
          Some (node # fired, ht4) }
        else Some ([], ht) })"

definition PJ_MAXINT32 :: int where "PJ_MAXINT32 = 0x7fffffff"

definition poll_delay :: "pj_time_val \<Rightarrow> pj_time_val \<Rightarrow> pj_time_val" where
  "poll_delay t now =
     (let d = PJ_TIME_VAL_SUB t now in if tv_sec d < 0 \<or> tv_msec d < 0 then PJ_TIME_VAL 0 0 else d)"

definition pj_timer_heap_poll ::
  "(handle \<Rightarrow> pj_timer_heap \<Rightarrow> pj_timer_heap option) \<Rightarrow> pj_time_val \<Rightarrow> pj_timer_heap
   \<Rightarrow> (handle list \<times> pj_time_val \<times> pj_timer_heap) option" where
  "pj_timer_heap_poll cb now ht =
     (if th_cur_size ht = 0 then Some ([], PJ_TIME_VAL PJ_MAXINT32 PJ_MAXINT32, ht)
      else do {
        (fired, ht1) \<leftarrow> poll_loop cb now (th_max_entries_per_poll ht) ht;
        next_delay \<leftarrow> (if th_cur_size ht1 = 0 then Some (PJ_TIME_VAL PJ_MAXINT32 PJ_MAXINT32)
                       else do {
                         top \<leftarrow> deref (th_heap ht1) 0;
                         Some (poll_delay (tm_val ht1 top) now) });
        Some (fired, next_delay, ht1) })"

definition pj_timer_heap_count :: "pj_timer_heap \<Rightarrow> nat" where
  "pj_timer_heap_count ht = th_cur_size ht"

definition pj_timer_heap_earliest_time :: "pj_timer_heap \<Rightarrow> (pj_status + pj_time_val) option" where
  "pj_timer_heap_earliest_time ht =
     (if th_cur_size ht = 0 then Some (Inl PJ_ENOTFOUND)
      else do { top \<leftarrow> deref (th_heap ht) 0; Some (Inr (tm_val ht top)) })"

end
