(* ===== verification/ArrayHeap.thy ===== *)
theory ArrayHeap
  imports TimerHeap
begin

text \<open>
  The heap order of an array and the two repairs of it, as exchanges of elements: what the loops
  \<^verbatim>\<open>reheap_up\<close> and \<^verbatim>\<open>reheap_down\<close> of the timer heap, which carry a hole through the array, compute.
\<close>

lemma parent_iff: "0 < i \<Longrightarrow> HEAP_PARENT i = s \<longleftrightarrow> i = HEAP_LEFT s \<or> i = HEAP_LEFT s + 1"
  unfolding HEAP_PARENT_def HEAP_LEFT_def by (simp, presburger)

lemma parent_left [simp]:
  "HEAP_PARENT (HEAP_LEFT s) = s" "HEAP_PARENT (HEAP_LEFT s + 1) = s" "HEAP_PARENT (Suc (HEAP_LEFT s)) = s"
  by (simp_all add: HEAP_PARENT_def HEAP_LEFT_def)

lemma parent_bound [simp]: "i < n \<Longrightarrow> HEAP_PARENT i < n"
  by (auto simp: HEAP_PARENT_def)

lemma parent_neq [simp]: "0 < i \<Longrightarrow> HEAP_PARENT i \<noteq> i"
  by (metis HEAP_PARENT_less less_irrefl)

lemma left_greater [simp]: "s < HEAP_LEFT s" "0 < HEAP_LEFT s"
  by (simp_all add: HEAP_LEFT_def)

definition heap_ok :: "('a \<Rightarrow> 'k::linorder) \<Rightarrow> nat \<Rightarrow> 'a list \<Rightarrow> bool" where
  "heap_ok key n H \<longleftrightarrow> (\<forall>i < n. 0 < i \<longrightarrow> key (H ! HEAP_PARENT i) \<le> key (H ! i))"

function sift_up :: "('a \<Rightarrow> 'k::linorder) \<Rightarrow> 'a list \<Rightarrow> nat \<Rightarrow> 'a list" where
  "sift_up key H i =
     (if 0 < i \<and> key (H ! i) < key (H ! HEAP_PARENT i)
      then sift_up key (swap H i (HEAP_PARENT i)) (HEAP_PARENT i) else H)"
  by pat_completeness auto
termination by (relation "measure (\<lambda>(_, _, i). i)") auto

definition min_child :: "('a \<Rightarrow> 'k::linorder) \<Rightarrow> nat \<Rightarrow> 'a list \<Rightarrow> nat \<Rightarrow> nat" where
  "min_child key n H i =
     (if HEAP_LEFT i + 1 < n \<and> key (H ! (HEAP_LEFT i + 1)) < key (H ! HEAP_LEFT i)
      then HEAP_LEFT i + 1 else HEAP_LEFT i)"

lemma min_child_cases: "min_child key n H i = HEAP_LEFT i \<or> min_child key n H i = HEAP_LEFT i + 1"
  by (simp add: min_child_def)

lemma min_child_greater [simp]: "i < min_child key n H i"
  using min_child_cases [of key n H i] left_greater(1) [of i] by linarith

lemma min_child_less: "HEAP_LEFT i < n \<Longrightarrow> min_child key n H i < n"
  by (auto simp: min_child_def)

function sift_down :: "('a \<Rightarrow> 'k::linorder) \<Rightarrow> nat \<Rightarrow> 'a list \<Rightarrow> nat \<Rightarrow> 'a list" where
  "sift_down key n H i =
     (if HEAP_LEFT i < n \<and> key (H ! min_child key n H i) < key (H ! i)
      then sift_down key n (swap H i (min_child key n H i)) (min_child key n H i) else H)"
  by pat_completeness auto
termination
  by (relation "measure (\<lambda>(_, n, _, i). n - i)")
    (auto intro!: diff_less_mono2 intro: less_trans [OF left_greater(1)])

declare sift_up.simps [simp del] sift_down.simps [simp del]

subsection \<open>Both repairs permute\<close>

lemma sift_up_mset: "i < length H \<Longrightarrow> mset (sift_up key H i) = mset H"
proof (induction key H i rule: sift_up.induct)
  case (1 key H i)
  then show ?case
    using mset_swap_elems [of i H "HEAP_PARENT i"] HEAP_PARENT_less [of i]
    by (subst sift_up.simps) (auto intro: less_trans)
qed

lemma sift_down_mset: "i < length H \<Longrightarrow> n \<le> length H \<Longrightarrow> mset (sift_down key n H i) = mset H"
proof (induction key n H i rule: sift_down.induct)
  case (1 key n H i)
  then show ?case
    using min_child_less [of i n key H] mset_swap_elems [of i H "min_child key n H i"]
    by (subst sift_down.simps) auto
qed

lemma sift_up_length [simp]: "i < length H \<Longrightarrow> length (sift_up key H i) = length H"
  using sift_up_mset mset_eq_length by metis

lemma sift_down_length [simp]: "i < length H \<Longrightarrow> n \<le> length H \<Longrightarrow> length (sift_down key n H i) = length H"
  using sift_down_mset mset_eq_length by metis

subsection \<open>Both repairs restore the heap order\<close>

text \<open>The order holds except above the slot, respectively below it; and around it.\<close>

definition around_ok :: "('a \<Rightarrow> 'k::linorder) \<Rightarrow> nat \<Rightarrow> 'a list \<Rightarrow> nat \<Rightarrow> bool" where
  "around_ok key n H s \<longleftrightarrow>
     (\<forall>c < n. 0 < c \<and> HEAP_PARENT c = s \<and> 0 < s \<longrightarrow> key (H ! HEAP_PARENT s) \<le> key (H ! c))"

definition up_ok :: "('a \<Rightarrow> 'k::linorder) \<Rightarrow> nat \<Rightarrow> 'a list \<Rightarrow> nat \<Rightarrow> bool" where
  "up_ok key n H s \<longleftrightarrow>
     (\<forall>i < n. 0 < i \<and> i \<noteq> s \<longrightarrow> key (H ! HEAP_PARENT i) \<le> key (H ! i)) \<and> around_ok key n H s"

definition down_ok :: "('a \<Rightarrow> 'k::linorder) \<Rightarrow> nat \<Rightarrow> 'a list \<Rightarrow> nat \<Rightarrow> bool" where
  "down_ok key n H s \<longleftrightarrow>
     (\<forall>i < n. 0 < i \<and> HEAP_PARENT i \<noteq> s \<longrightarrow> key (H ! HEAP_PARENT i) \<le> key (H ! i)) \<and> around_ok key n H s"

lemma up_ok_step:
  assumes "up_ok key n H s" "n \<le> length H" "s < n" "0 < s" "key (H ! s) < key (H ! HEAP_PARENT s)"
  shows "up_ok key n (swap H s (HEAP_PARENT s)) (HEAP_PARENT s)"
proof -
  define p where "p = HEAP_PARENT s"
  have p: "p < s" using assms(4) by (simp add: p_def)
  have nth: "swap H s p ! i = (if i = s then H ! p else if i = p then H ! s else H ! i)" if "i < n" for i
    using that assms p by (simp add: nth_swap)
  have ord: "\<And>i. i < n \<Longrightarrow> 0 < i \<Longrightarrow> i \<noteq> s \<Longrightarrow> key (H ! HEAP_PARENT i) \<le> key (H ! i)"
    and ar: "\<And>c. c < n \<Longrightarrow> 0 < c \<Longrightarrow> HEAP_PARENT c = s \<Longrightarrow> key (H ! p) \<le> key (H ! c)"
    using assms(1,4) by (auto simp: up_ok_def around_ok_def p_def)
  have lt: "HEAP_PARENT i < n" if "i < n" "0 < i" for i using that HEAP_PARENT_less [of i] by linarith
  have "key (swap H s p ! HEAP_PARENT i) \<le> key (swap H s p ! i)" if i: "i < n" "0 < i" "i \<noteq> p" for i
    using nth [OF i(1)] nth [OF lt [OF i(1,2)]] assms(5) i p ord [OF i(1,2)] ar [OF i(1,2)]
    by (auto simp flip: p_def intro: order.trans [OF less_imp_le])
  moreover have "key (swap H s p ! HEAP_PARENT p) \<le> key (swap H s p ! c)"
    if c: "c < n" "0 < c" "HEAP_PARENT c = p" "0 < p" for c
  proof -
    have pp: "HEAP_PARENT p < p" using c(4) by simp
    have 1: "key (H ! HEAP_PARENT p) \<le> key (H ! p)" using ord [of p] c(4) p assms(3) by simp
    have "c \<noteq> p" using c(2,3) HEAP_PARENT_less [of c] by auto
    then show ?thesis
      using nth [OF c(1)] nth [of "HEAP_PARENT p"] pp p assms(3) 1 ord [OF c(1,2)] c(3) by (auto intro: order.trans)
  qed
  ultimately show ?thesis by (auto simp: up_ok_def around_ok_def simp flip: p_def)
qed

lemma sift_up_heap:
  "up_ok key n H s \<Longrightarrow> n \<le> length H \<Longrightarrow> s < n \<Longrightarrow> heap_ok key n (sift_up key H s)"
proof (induction key H s rule: sift_up.induct)
  case (1 key H s)
  show ?case
  proof (cases "0 < s \<and> key (H ! s) < key (H ! HEAP_PARENT s)")
    case True
    have "heap_ok key n (sift_up key (swap H s (HEAP_PARENT s)) (HEAP_PARENT s))"
      using "1.IH" [OF True] up_ok_step [OF "1.prems"] True "1.prems" HEAP_PARENT_less [of s] by simp
    then show ?thesis using True by (subst sift_up.simps) simp
  next
    case False
    have "key (H ! HEAP_PARENT i) \<le> key (H ! i)" if "i < n" "0 < i" for i
      using False that "1.prems"(1) by (cases "i = s") (auto simp: up_ok_def)
    then show ?thesis using False by (subst sift_up.simps) (auto simp: heap_ok_def)
  qed
qed

lemma min_child_le:
  "HEAP_LEFT s < n \<Longrightarrow> i < n \<Longrightarrow> 0 < i \<Longrightarrow> HEAP_PARENT i = s \<Longrightarrow> key (H ! min_child key n H s) \<le> key (H ! i)"
  by (auto simp: parent_iff min_child_def)

lemma down_ok_step:
  assumes "down_ok key n H s" "n \<le> length H" "HEAP_LEFT s < n" "c = min_child key n H s" "key (H ! c) < key (H ! s)"
  shows "down_ok key n (swap H s c) c"
proof -
  have c: "c < n" "s < c" "HEAP_PARENT c = s"
    using assms(3,4) min_child_less [of s n key H] min_child_cases [of key n H s] by auto
  have nth: "swap H s c ! i = (if i = c then H ! s else if i = s then H ! c else H ! i)" if "i < n" for i
    using that assms(2) c by (auto simp: nth_swap)
  have ord: "\<And>i. i < n \<Longrightarrow> 0 < i \<Longrightarrow> HEAP_PARENT i \<noteq> s \<Longrightarrow> key (H ! HEAP_PARENT i) \<le> key (H ! i)"
    and ar: "0 < s \<Longrightarrow> key (H ! HEAP_PARENT s) \<le> key (H ! c)"
    using assms(1) c by (auto simp: down_ok_def around_ok_def)
  have lt: "HEAP_PARENT i < n" if "i < n" "0 < i" for i using that HEAP_PARENT_less [of i] by linarith
  have "key (swap H s c ! HEAP_PARENT i) \<le> key (swap H s c ! i)" if i: "i < n" "0 < i" "HEAP_PARENT i \<noteq> c" for i
  proof (cases "HEAP_PARENT i = s")
    case True
    then show ?thesis
      using nth [OF i(1)] nth [OF lt [OF i(1,2)]] c i assms(5) min_child_le [OF assms(3) i(1,2) True, of key H] assms(4)
        HEAP_PARENT_less [OF i(2)]
      by auto
  next
    case False
    then show ?thesis
      using nth [OF i(1)] nth [OF lt [OF i(1,2)]] c i ord [OF i(1,2) False] ar HEAP_PARENT_less [OF i(2)] by auto
  qed
  moreover have "key (swap H s c ! HEAP_PARENT c) \<le> key (swap H s c ! d)"
    if d: "d < n" "0 < d" "HEAP_PARENT d = c" for d
    using nth [OF d(1)] nth [of s] c d ord [OF d(1,2)] HEAP_PARENT_less [OF d(2)] by auto
  ultimately show ?thesis by (auto simp: down_ok_def around_ok_def)
qed

lemma sift_down_heap:
  "down_ok key n H s \<Longrightarrow> n \<le> length H \<Longrightarrow> s < n \<Longrightarrow> heap_ok key n (sift_down key n H s)"
proof (induction key n H s rule: sift_down.induct)
  case (1 key n H s)
  show ?case
  proof (cases "HEAP_LEFT s < n \<and> key (H ! min_child key n H s) < key (H ! s)")
    case True
    have "heap_ok key n (sift_down key n (swap H s (min_child key n H s)) (min_child key n H s))"
      using "1.IH" [OF True] down_ok_step [OF "1.prems"(1,2) _ refl] True "1.prems" min_child_less [of s n key H] by simp
    then show ?thesis using True by (subst sift_down.simps) simp
  next
    case False
    have "key (H ! HEAP_PARENT i) \<le> key (H ! i)" if i: "i < n" "0 < i" for i
    proof (cases "HEAP_PARENT i = s")
      case True
      then have "HEAP_LEFT s < n" using i parent_iff [OF i(2), of s] by auto
      then show ?thesis using False True min_child_le [OF _ i True, of key H] by (auto simp: not_less)
    next
      case F: False
      then show ?thesis using i "1.prems"(1) by (simp add: down_ok_def)
    qed
    then show ?thesis using False by (subst sift_down.simps) (auto simp: heap_ok_def)
  qed
qed

text \<open>The root of a heap is least.\<close>

lemma heap_ok_root: "heap_ok key n H \<Longrightarrow> i < n \<Longrightarrow> key (H ! 0) \<le> key (H ! i)"
proof (induction i rule: less_induct)
  case (less i)
  show ?case
  proof (cases "i = 0")
    case False
    then have "key (H ! 0) \<le> key (H ! HEAP_PARENT i)" using less HEAP_PARENT_less [of i] by simp
    also have "\<dots> \<le> key (H ! i)" using less.prems False by (simp add: heap_ok_def)
    finally show ?thesis .
  qed simp
qed

text \<open>An element replaced by another one: which repair is needed.\<close>

lemma heap_ok_replace:
  assumes "heap_ok key (Suc n) H" "s < n" "n < length H" "H' = H[s := x]"
  shows "key (H' ! HEAP_PARENT s) \<le> key x \<Longrightarrow> down_ok key n H' s"
    "key x < key (H' ! HEAP_PARENT s) \<Longrightarrow> up_ok key n H' s"
proof -
  have nth: "H' ! i = (if i = s then x else H ! i)" if "i < n" for i using that assms by simp
  have ord: "key (H ! HEAP_PARENT i) \<le> key (H ! i)" if "i < n" "0 < i" for i
    using that assms(1) by (simp add: heap_ok_def)
  have lt: "HEAP_PARENT i < n" if "i < n" "0 < i" for i using that HEAP_PARENT_less [of i] by linarith
  have ar: "around_ok key n H' s"
  proof -
    have "key (H' ! HEAP_PARENT s) \<le> key (H' ! c)" if c: "c < n" "0 < c" "HEAP_PARENT c = s" "0 < s" for c
    proof -
      have "HEAP_PARENT s \<noteq> s" "c \<noteq> s" using parent_neq [OF c(4)] parent_neq [OF c(2)] c(3) by simp_all
      then show ?thesis
        using nth [OF lt [OF assms(2) c(4)]] nth [OF c(1)] ord [OF assms(2) c(4)] ord [OF c(1,2)] c(3)
        by (auto intro: order.trans)
    qed
    then show ?thesis by (simp add: around_ok_def)
  qed
  show "down_ok key n H' s" if x: "key (H' ! HEAP_PARENT s) \<le> key x"
  proof -
    have "key (H' ! HEAP_PARENT i) \<le> key (H' ! i)" if i: "i < n" "0 < i" "HEAP_PARENT i \<noteq> s" for i
      using x nth [OF i(1)] nth [OF lt [OF i(1,2)]] ord [OF i(1,2)] i by auto
    then show ?thesis using ar by (simp add: down_ok_def)
  qed
  show "up_ok key n H' s" if x: "key x < key (H' ! HEAP_PARENT s)"
  proof -
    have s0: "0 < s"
    proof (rule ccontr)
      assume "\<not> 0 < s"
      then show False using x nth [OF assms(2)] by (simp add: HEAP_PARENT_def)
    qed
    have "key x \<le> key (H ! s)"
      using x nth [OF lt [OF assms(2) s0]] HEAP_PARENT_less [OF s0] ord [OF assms(2) s0] by (auto split: if_splits)
    then have "key (H' ! HEAP_PARENT i) \<le> key (H' ! i)" if i: "i < n" "0 < i" "i \<noteq> s" for i
      using nth [OF i(1)] nth [OF lt [OF i(1,2)]] ord [OF i(1,2)] i by (auto intro: order.trans)
    then show ?thesis using ar by (simp add: up_ok_def)
  qed
qed

end
