(* ===== verification/TimerHeapInv.thy ===== *)
theory TimerHeapInv
  imports ArrayHeap
begin

text \<open>
  The invariant of the timer heap: the array is ordered, every scheduled entry knows its slot through
  its id, and the other ids form the free list, which ends at the first id beyond the arrays. Every
  operation keeps it and stays inside the arrays; scheduling never fails.
\<close>

subsection \<open>Slots and ids\<close>

abbreviation tid :: "pj_timer_heap \<Rightarrow> handle \<Rightarrow> nat" where
  "tid ht h \<equiv> nat (te_timer_id (th_entries ht h))"

text \<open>The ids of the first \<open>n\<close> elements of \<open>H\<close> are in range, distinct, and lead to their slots, except for slot \<open>k\<close>.\<close>

definition ids_ok :: "(handle \<Rightarrow> nat) \<Rightarrow> int list \<Rightarrow> nat \<Rightarrow> handle list \<Rightarrow> nat \<Rightarrow> bool" where
  "ids_ok t ids n H k \<longleftrightarrow>
     (\<forall>i < n. 1 \<le> t (H ! i) \<and> t (H ! i) < length ids) \<and>
     (\<forall>i < n. \<forall>j < n. t (H ! i) = t (H ! j) \<longrightarrow> i = j) \<and>
     (\<forall>i < n. i \<noteq> k \<longrightarrow> ids ! t (H ! i) = int i)"

lemma ids_ok_swap:
  assumes "ids_ok t ids n H s" "p < n" "s < n" "p \<noteq> s" "n \<le> length H"
  shows "ids_ok t (ids[t (H ! p) := int s]) n (swap H s p) p"
proof -
  have nth: "swap H s p ! i = (if i = s then H ! p else if i = p then H ! s else H ! i)" if "i < n" for i
    using that assms by (simp add: nth_swap)
  have r: "1 \<le> t (H ! i) \<and> t (H ! i) < length ids" if "i < n" for i using that assms(1) by (simp add: ids_ok_def)
  have inj: "i = j" if "i < n" "j < n" "t (H ! i) = t (H ! j)" for i j
    using that assms(1) unfolding ids_ok_def by blast
  have v: "ids ! t (H ! i) = int i" if "i < n" "i \<noteq> s" for i using that assms(1) by (simp add: ids_ok_def)
  have "1 \<le> t (swap H s p ! i) \<and> t (swap H s p ! i) < length ids" if "i < n" for i
    using that nth r assms(2,3) by simp
  moreover have "i = j" if "i < n" "j < n" "t (swap H s p ! i) = t (swap H s p ! j)" for i j
    using that(3) unfolding nth [OF that(1)] nth [OF that(2)]
    by (auto split: if_splits dest!: inj [OF that(1,2)] inj [OF assms(2) that(2)] inj [OF assms(3) that(2)]
        inj [OF that(1) assms(2)] inj [OF that(1) assms(3)] inj [OF assms(2,3)] inj [OF assms(3,2)])
  moreover have "ids[t (H ! p) := int s] ! t (swap H s p ! i) = int i" if "i < n" "i \<noteq> p" for i
  proof (cases "i = s")
    case True
    then show ?thesis using nth [OF that(1)] r [OF assms(2)] by simp
  next
    case False
    then have "t (H ! i) \<noteq> t (H ! p)" using inj [OF that(1) assms(2)] that(2) by auto
    then show ?thesis using nth [OF that(1)] False that v by simp
  qed
  ultimately show ?thesis by (simp add: ids_ok_def)
qed

lemma ids_ok_close:
  assumes "ids_ok t ids n H s" "s < n"
  shows "ids_ok t (ids[t (H ! s) := int s]) n H n"
proof -
  have "ids[t (H ! s) := int s] ! t (H ! i) = int i" if "i < n" for i
    using that assms unfolding ids_ok_def by (cases "i = s") (auto simp: nth_list_update)
  then show ?thesis using assms by (simp add: ids_ok_def)
qed

lemma take_swap_set: "i < n \<Longrightarrow> j < n \<Longrightarrow> n \<le> length H \<Longrightarrow> set (take n (swap H i j)) = set (take n H)"
proof -
  assume a: "i < n" "j < n" "n \<le> length H"
  have "take n (swap H i j) = swap (take n H) i j" using a by (simp add: swap_def take_update_swap)
  then show ?thesis using a mset_swap_elems [of i "take n H" j] by (metis length_take min.absorb2 set_mset_mset)
qed

lemma copy_node_run:
  assumes "slot < length (th_heap ht)" "1 \<le> tid ht h" "tid ht h < length (th_timer_ids ht)"
  shows "copy_node ht slot h =
    Some (ht\<lparr>th_heap := (th_heap ht)[slot := h], th_timer_ids := (th_timer_ids ht)[tid ht h := int slot]\<rparr>)"
  using assms by (simp add: copy_node_def set_timer_id_def)

text \<open>What both loops do to the two arrays, for the array \<open>H\<close> with the node put into the hole.\<close>

definition placed :: "pj_timer_heap \<Rightarrow> nat \<Rightarrow> handle list \<Rightarrow> handle list \<Rightarrow> pj_timer_heap \<Rightarrow> bool" where
  "placed ht n H H' ht' \<longleftrightarrow> (\<exists>ids'. ht' = ht\<lparr>th_heap := H', th_timer_ids := ids'\<rparr> \<and>
     length ids' = length (th_timer_ids ht) \<and> ids_ok (tid ht) ids' n H' n \<and>
     (\<forall>j. (\<forall>h \<in> set (take n H). j \<noteq> tid ht h) \<longrightarrow> ids' ! j = th_timer_ids ht ! j))"

lemma take_nth_mem: "i < n \<Longrightarrow> n \<le> length H \<Longrightarrow> H ! i \<in> set (take n H)"
  by (metis length_take min.absorb2 nth_mem nth_take)

lemma set_take_iff: "n \<le> length H \<Longrightarrow> x \<in> set (take n H) \<longleftrightarrow> (\<exists>i < n. x = H ! i)"
  by (auto simp: in_set_conv_nth min_def)

lemma copy_node_placed:
  assumes "n \<le> length (th_heap ht)" "s < n" "H = (th_heap ht)[s := node]" "ids_ok (tid ht) (th_timer_ids ht) n H s"
  shows "\<exists>ht'. copy_node ht s node = Some ht' \<and> placed ht n H H ht'"
proof -
  have n1: "H ! s = node" using assms(1-3) by simp
  moreover have "1 \<le> tid ht (H ! s) \<and> tid ht (H ! s) < length (th_timer_ids ht)"
    using assms(2,4) unfolding ids_ok_def by blast
  ultimately have n: "H ! s = node" "1 \<le> tid ht node" "tid ht node < length (th_timer_ids ht)" by simp_all
  have "node \<in> set (take n H)" using n(1) take_nth_mem [OF assms(2), of H] assms(1,3) by simp
  then have "placed ht n H H (ht\<lparr>th_heap := (th_heap ht)[s := node], th_timer_ids := (th_timer_ids ht)[tid ht node := int s]\<rparr>)"
    using ids_ok_close [OF assms(4,2)] n(1) assms(3) unfolding placed_def by (intro exI) (auto simp: nth_list_update)
  then show ?thesis using copy_node_run [of s ht node] n assms by auto
qed

text \<open>One exchange: the hole moves from \<open>s\<close> to \<open>p\<close>.\<close>

lemma hole_step:
  assumes "n \<le> length (th_heap ht)" "s < n" "p < n" "p \<noteq> s" "H = (th_heap ht)[s := node]"
    "ids_ok (tid ht) (th_timer_ids ht) n H s"
    "ht' = ht\<lparr>th_heap := (th_heap ht)[s := th_heap ht ! p], th_timer_ids := (th_timer_ids ht)[tid ht (H ! p) := int s]\<rparr>"
  shows "copy_node ht s (th_heap ht ! p) = Some ht'" "(th_heap ht')[p := node] = swap H s p"
    "ids_ok (tid ht') (th_timer_ids ht') n (swap H s p) p"
    "placed ht' n (swap H s p) H' ht'' \<Longrightarrow> placed ht n H H' ht''"
proof -
  have hp: "H ! p = th_heap ht ! p" using assms by simp
  have r: "1 \<le> tid ht (H ! p)" "tid ht (H ! p) < length (th_timer_ids ht)" using assms(3,6) by (auto simp: ids_ok_def)
  show "copy_node ht s (th_heap ht ! p) = Some ht'"
    using copy_node_run [of s ht "th_heap ht ! p"] r assms(1,2,7) hp by simp
  show "(th_heap ht')[p := node] = swap H s p"
    using assms by (simp add: swap_def)
  have len: "n \<le> length H" using assms(1,5) by simp
  show "ids_ok (tid ht') (th_timer_ids ht') n (swap H s p) p"
    using ids_ok_swap [OF assms(6,3,2,4) len] assms(7) by simp
  show "placed ht n H H' ht''" if "placed ht' n (swap H s p) H' ht''"
  proof -
    from that obtain ids' where i: "ht'' = ht'\<lparr>th_heap := H', th_timer_ids := ids'\<rparr>"
        "length ids' = length (th_timer_ids ht')" "ids_ok (tid ht') ids' n H' n"
        "\<And>j. (\<forall>h \<in> set (take n (swap H s p)). j \<noteq> tid ht' h) \<Longrightarrow> ids' ! j = th_timer_ids ht' ! j"
      by (auto simp: placed_def)
    have "ids' ! j = th_timer_ids ht ! j" if j: "\<forall>h \<in> set (take n H). j \<noteq> tid ht h" for j
    proof -
      have "j \<noteq> tid ht (H ! p)" using j take_nth_mem [OF assms(3) len] by blast
      then show ?thesis using i(4) [of j] j take_swap_set [OF assms(2,3) len] assms(7) by simp
    qed
    then show ?thesis using i assms(7) unfolding placed_def by (intro exI [of _ ids']) auto
  qed
qed

lemma reheap_up_run:
  assumes "n \<le> length (th_heap ht)" "s < n" "H = (th_heap ht)[s := node]" "ids_ok (tid ht) (th_timer_ids ht) n H s"
  shows "\<exists>ht'. reheap_up ht node s = Some ht' \<and> placed ht n H (sift_up (tm_val ht) H s) ht'"
  using assms
proof (induction s arbitrary: ht H rule: less_induct)
  case (less s)
  define p where "p = HEAP_PARENT s"
  have hs: "H ! s = node" using less.prems by simp
  have hp: "H ! p = th_heap ht ! p" if "0 < s"
    using parent_neq [OF that] less.prems(3) by (simp add: p_def)
  show ?case
  proof (cases "0 < s \<and> tm_val ht node < tm_val ht (th_heap ht ! p)")
    case True
    then have p: "p < s" using HEAP_PARENT_less by (simp add: p_def)
    then have p: "p < s" "p < n" "p \<noteq> s" "H ! p = th_heap ht ! p" using less.prems by simp_all
    define ht1 where "ht1 = ht\<lparr>th_heap := (th_heap ht)[s := th_heap ht ! p],
        th_timer_ids := (th_timer_ids ht)[tid ht (H ! p) := int s]\<rparr>"
    note S = hole_step [OF less.prems(1,2) p(2,3) less.prems(3,4) ht1_def]
    have "n \<le> length (th_heap ht1)" using less.prems(1) by (simp add: ht1_def)
    from less.IH [OF p(1) this p(2) S(2) [symmetric] S(3)] obtain ht' where
      h: "reheap_up ht1 node p = Some ht'" "placed ht1 n (swap H s p) (sift_up (tm_val ht1) (swap H s p) p) ht'"
      by blast
    have "sift_up (tm_val ht) H s = sift_up (tm_val ht1) (swap H s p) p"
      using True p hs by (subst sift_up.simps) (simp add: ht1_def flip: p_def)
    moreover have "reheap_up ht node s = reheap_up ht1 node p"
      using True S(1) less.prems(1) p by (subst reheap_up.simps) (simp flip: p_def)
    ultimately show ?thesis using h S(4) by auto
  next
    case False
    have "sift_up (tm_val ht) H s = H"
      using False hs hp by (subst sift_up.simps) (auto simp flip: p_def)
    moreover have "reheap_up ht node s = copy_node ht s node"
      using False less.prems by (subst reheap_up.simps) (auto simp: p_def)
    ultimately show ?thesis using copy_node_placed [OF less.prems] by simp
  qed
qed

lemma reheap_down_run:
  assumes "n \<le> length (th_heap ht)" "s < n" "H = (th_heap ht)[s := node]" "ids_ok (tid ht) (th_timer_ids ht) n H s"
    "th_cur_size ht = n"
  shows "\<exists>ht'. reheap_down ht node s = Some ht' \<and> placed ht n H (sift_down (tm_val ht) n H s) ht'"
  using assms
proof (induction "n - s" arbitrary: s ht H rule: less_induct)
  case less
  define l where "l = HEAP_LEFT s"
  define c where "c = min_child (tm_val ht) n H s"
  have hs: "H ! s = node" and sl: "s < l" using less.prems by (simp_all add: l_def)
  have sc: "s < c" unfolding c_def by (rule min_child_greater)
  then have ch: "H ! c = th_heap ht ! c" using less.prems by simp
  have cl: "c < n" if "l < n" using that min_child_less [of s n] by (simp add: c_def l_def)
  have eq: "reheap_down ht node s = (if tm_val ht (H ! c) < tm_val ht node
      then Option.bind (copy_node ht s (H ! c)) (\<lambda>ht'. reheap_down ht' node c) else copy_node ht s node)" if "l < n"
  proof -
    have n: "H ! l = th_heap ht ! l" "H ! (l + 1) = th_heap ht ! (l + 1)" using less.prems sl by (simp_all add: nth_list_update)
    have "c = (if l + 1 < n \<and> tm_val ht (th_heap ht ! (l + 1)) < tm_val ht (th_heap ht ! l) then l + 1 else l)"
      unfolding c_def min_child_def l_def [symmetric] n ..
    then show ?thesis
      using that less.prems n cl
      by (subst reheap_down.simps) (auto simp flip: l_def)
  qed
  show ?case
  proof (cases "l < n \<and> tm_val ht (H ! c) < tm_val ht node")
    case True
    then have c: "c < n" "c \<noteq> s" "H ! c = th_heap ht ! c" "s < c" using cl ch sc by auto
    define ht1 where "ht1 = ht\<lparr>th_heap := (th_heap ht)[s := th_heap ht ! c],
        th_timer_ids := (th_timer_ids ht)[tid ht (H ! c) := int s]\<rparr>"
    note S = hole_step [OF less.prems(1,2) c(1,2) less.prems(3,4) ht1_def]
    have l1: "n \<le> length (th_heap ht1)" "th_cur_size ht1 = n" using less.prems(1,5) by (simp_all add: ht1_def)
    have "n - c < n - s" using c less.prems by simp
    from less.hyps [OF this l1(1) c(1) S(2) [symmetric] S(3) l1(2)] obtain ht' where
      h: "reheap_down ht1 node c = Some ht'" "placed ht1 n (swap H s c) (sift_down (tm_val ht1) n (swap H s c) c) ht'"
      by blast
    have "sift_down (tm_val ht) n H s = sift_down (tm_val ht1) n (swap H s c) c"
      using True hs by (subst sift_down.simps) (simp add: ht1_def flip: c_def l_def)
    moreover have "reheap_down ht node s = reheap_down ht1 node c"
      using True S(1) c(3) eq by simp
    ultimately show ?thesis using h S(4) by auto
  next
    case False
    have "sift_down (tm_val ht) n H s = H"
      using False hs by (subst sift_down.simps) (auto simp flip: l_def c_def)
    moreover have "reheap_down ht node s = copy_node ht s node"
    proof (cases "l < n")
      case True
      then show ?thesis using False eq by simp
    next
      case F: False
      then show ?thesis using less.prems by (subst reheap_down.simps) (simp flip: l_def)
    qed
    ultimately show ?thesis using copy_node_placed [OF less.prems(1-4)] by simp
  qed
qed

subsection \<open>The free list\<close>

text \<open>The chain of free ids \<open>fs\<close> from \<open>f\<close> to the first id beyond the array.\<close>

fun chain :: "int list \<Rightarrow> nat \<Rightarrow> nat list \<Rightarrow> int \<Rightarrow> bool" where
  "chain ids m [] f = (f = int m)"
| "chain ids m (x # xs) f = (f = int x \<and> chain ids m xs (- (ids ! x)))"

lemma chain_cong: "(\<And>x. x \<in> set fs \<Longrightarrow> ids' ! x = ids ! x) \<Longrightarrow> chain ids m fs f \<Longrightarrow> chain ids' m fs f"
  by (induction fs arbitrary: f) auto

lemma chain_push: "x \<notin> set fs \<Longrightarrow> x < length ids \<Longrightarrow> chain ids m fs f \<Longrightarrow> chain (ids[x := - f]) m (x # fs) (int x)"
proof -
  assume a: "x \<notin> set fs" "x < length ids" "chain ids m fs f"
  have "chain (ids[x := - f]) m fs f" using a by (intro chain_cong [OF _ a(3)]) (auto simp: nth_list_update)
  then show ?thesis using a(2) by simp
qed

lemma chain_append:
  "chain ids m fs f \<Longrightarrow> chain ids m' gs (int m) \<Longrightarrow> chain ids m' (fs @ gs) f"
  by (induction fs arbitrary: f) auto

lemma chain_upt:
  "a \<le> b \<Longrightarrow> (\<And>i. a \<le> i \<Longrightarrow> i < b \<Longrightarrow> ids ! i = - int (i + 1)) \<Longrightarrow> chain ids b [a..<b] (int a)"
proof (induction "b - a" arbitrary: a)
  case (Suc k)
  then have "a < b" by simp
  moreover have "chain ids b [Suc a..<b] (int (Suc a))" using Suc.hyps(1) [of "Suc a"] Suc by simp
  ultimately show ?case using Suc.prems(2) [of a] by (simp add: upt_rec [of a] add.commute)
qed simp

lemma chain_grow:
  assumes "chain ids m fs f" "\<forall>x \<in> set fs. x < m" "length ids = m"
  shows "chain (ids @ map (\<lambda>i. - int (i + 1)) [m..<m * 2]) (m * 2) (fs @ [m..<m * 2]) f"
proof (rule chain_append)
  show "chain (ids @ map (\<lambda>i. - int (i + 1)) [m..<m * 2]) m fs f"
    using assms by (intro chain_cong [OF _ assms(1)]) (simp add: nth_append)
  show "chain (ids @ map (\<lambda>i. - int (i + 1)) [m..<m * 2]) (m * 2) [m..<m * 2] (int m)"
    by (rule chain_upt) (simp_all add: nth_append assms(3))
qed

subsection \<open>The invariant\<close>

definition scheduled :: "pj_timer_heap \<Rightarrow> handle set" where
  "scheduled ht = set (take (th_cur_size ht) (th_heap ht))"

definition free_ok :: "pj_timer_heap \<Rightarrow> nat list \<Rightarrow> bool" where
  "free_ok ht fs \<longleftrightarrow> distinct fs \<and> set fs = {1..<th_max_size ht} - tid ht ` scheduled ht \<and>
     chain (th_timer_ids ht) (th_max_size ht) fs (th_freelist ht)"

definition heap_inv :: "pj_timer_heap \<Rightarrow> bool" where
  "heap_inv ht \<longleftrightarrow>
     length (th_heap ht) = th_max_size ht \<and> length (th_timer_ids ht) = th_max_size ht \<and>
     th_cur_size ht + 2 \<le> th_max_size ht \<and>
     ids_ok (tid ht) (th_timer_ids ht) (th_cur_size ht) (th_heap ht) (th_cur_size ht) \<and>
     heap_ok (tm_val ht) (th_cur_size ht) (th_heap ht) \<and>
     (\<exists>fs. free_ok ht fs) \<and> th_timer_ids ht ! 0 < 0 \<and>
     (\<forall>h. h \<notin> scheduled ht \<longrightarrow> te_timer_id (th_entries ht h) < 1)"

lemma scheduled_nth: "heap_inv ht \<Longrightarrow> h \<in> scheduled ht \<longleftrightarrow> (\<exists>i < th_cur_size ht. h = th_heap ht ! i)"
  by (auto simp: scheduled_def in_set_conv_nth heap_inv_def min_def)

lemma running_iff: "heap_inv ht \<Longrightarrow> pj_timer_entry_running (th_entries ht h) \<longleftrightarrow> h \<in> scheduled ht"
proof -
  assume inv: "heap_inv ht"
  have "te_timer_id (th_entries ht h) \<ge> 1" if sch: "h \<in> scheduled ht"
  proof -
    obtain i where i: "i < th_cur_size ht" "h = th_heap ht ! i" using sch scheduled_nth [OF inv] by blast
    then have "1 \<le> tid ht h" using inv unfolding heap_inv_def ids_ok_def by blast
    then show ?thesis by simp
  qed
  moreover have "te_timer_id (th_entries ht h) < 1" if "h \<notin> scheduled ht"
    using that inv unfolding heap_inv_def by blast
  ultimately show ?thesis unfolding pj_timer_entry_running_def by (meson not_le)
qed

lemma set_take_sift_up:
  "s < n \<Longrightarrow> n \<le> length H \<Longrightarrow> set (take n (sift_up key H s)) = set (take n H)"
proof (induction key H s rule: sift_up.induct)
  case (1 key H s)
  then show ?case
    using take_swap_set [of s n "HEAP_PARENT s" H] by (subst sift_up.simps) simp
qed

lemma set_take_sift_down:
  "s < n \<Longrightarrow> n \<le> length H \<Longrightarrow> set (take n (sift_down key n H s)) = set (take n H)"
proof (induction key n H s rule: sift_down.induct)
  case (1 key n H s)
  then show ?case
    using take_swap_set [of s n "min_child key n H s" H] min_child_less [of s n key H] by (subst sift_down.simps) simp
qed

lemma create_heap_inv:
  assumes "\<forall>h. te_timer_id (ents h) < 1"
  shows "heap_inv (pj_timer_heap_create sz ents refs)" "scheduled (pj_timer_heap_create sz ents refs) = {}"
proof -
  have "chain (map (\<lambda>i. - int (i + 1)) [0..<sz + 2]) (sz + 2) [1..<sz + 2] (int 1)"
    by (rule chain_upt) (simp_all del: upt_Suc)
  then have "free_ok (pj_timer_heap_create sz ents refs) [1..<sz + 2]"
    by (auto simp: free_ok_def pj_timer_heap_create_def scheduled_def simp del: upt_Suc)
  then show "heap_inv (pj_timer_heap_create sz ents refs)"
    using assms unfolding heap_inv_def
    by (auto simp: pj_timer_heap_create_def scheduled_def ids_ok_def heap_ok_def simp del: upt_Suc)
  show "scheduled (pj_timer_heap_create sz ents refs) = {}"
    by (simp add: scheduled_def pj_timer_heap_create_def)
qed

subsection \<open>Inserting\<close>

text \<open>The state between taking a free id for \<open>h\<close> and putting \<open>h\<close> into the array.\<close>

definition pre_insert :: "pj_timer_heap \<Rightarrow> handle \<Rightarrow> bool" where
  "pre_insert ht h \<longleftrightarrow>
     length (th_heap ht) = th_max_size ht \<and> length (th_timer_ids ht) = th_max_size ht \<and>
     th_cur_size ht + 2 \<le> th_max_size ht \<and>
     ids_ok (tid ht) (th_timer_ids ht) (th_cur_size ht) (th_heap ht) (th_cur_size ht) \<and>
     heap_ok (tm_val ht) (th_cur_size ht) (th_heap ht) \<and>
     h \<notin> scheduled ht \<and> 1 \<le> tid ht h \<and> tid ht h < th_max_size ht \<and> tid ht h \<notin> tid ht ` scheduled ht \<and>
     (\<exists>fs. distinct fs \<and> set fs = {1..<th_max_size ht} - tid ht ` insert h (scheduled ht) \<and>
        chain (th_timer_ids ht) (th_max_size ht) fs (th_freelist ht)) \<and> th_timer_ids ht ! 0 < 0 \<and>
     (\<forall>g. g \<notin> insert h (scheduled ht) \<longrightarrow> te_timer_id (th_entries ht g) < 1)"

lemma pre_insert_grow:
  assumes "pre_insert ht h"
  shows "pre_insert (grow_heap ht) h" "scheduled (grow_heap ht) = scheduled ht"
proof -
  let ?m = "th_max_size ht" and ?n = "th_cur_size ht"
  define ht' where "ht' = grow_heap ht"
  have f: "th_heap ht' = th_heap ht @ replicate (?m * 2 - ?m) 0" "th_max_size ht' = ?m * 2" "th_freelist ht' = th_freelist ht"
    "th_timer_ids ht' = th_timer_ids ht @ map (\<lambda>i. - int (i + 1)) [?m..<?m * 2]" "th_entries ht' = th_entries ht"
    "th_cur_size ht' = ?n"
    by (simp_all add: ht'_def grow_heap_def Let_def)
  have len: "length (th_heap ht) = ?m" "length (th_timer_ids ht) = ?m" "?n + 2 \<le> ?m"
    using assms by (simp_all add: pre_insert_def)
  have s: "scheduled ht' = scheduled ht" using len by (simp add: scheduled_def f)
  have h: "th_heap ht' ! i = th_heap ht ! i" if "i < ?n" for i using that len by (simp add: f nth_append)
  obtain fs where fs: "distinct fs" "set fs = {1..<?m} - tid ht ` insert h (scheduled ht)"
      "chain (th_timer_ids ht) ?m fs (th_freelist ht)"
    using assms by (auto simp: pre_insert_def)
  have t: "tid ht g < ?m" if g: "g \<in> insert h (scheduled ht)" for g
  proof (cases "g = h")
    case True
    then show ?thesis using assms unfolding pre_insert_def by blast
  next
    case False
    then obtain i where "i < ?n" "g = th_heap ht ! i"
      using g len by (auto simp: scheduled_def in_set_conv_nth)
    then show ?thesis using assms len(2) unfolding pre_insert_def ids_ok_def by auto
  qed
  have "chain (th_timer_ids ht') (th_max_size ht') (fs @ [?m..<?m * 2]) (th_freelist ht')"
    unfolding f using fs len by (intro chain_grow) auto
  moreover have "distinct (fs @ [?m..<?m * 2])" "set (fs @ [?m..<?m * 2]) = {1..<th_max_size ht'} - tid ht ` insert h (scheduled ht)"
  proof -
    define A where "A = tid ht ` insert h (scheduled ht)"
    have "A \<subseteq> {..<?m}" using t by (auto simp: A_def)
    then show "distinct (fs @ [?m..<?m * 2])" "set (fs @ [?m..<?m * 2]) = {1..<th_max_size ht'} - tid ht ` insert h (scheduled ht)"
      using fs(1,2) len(3) unfolding A_def [symmetric] by (auto simp: f)
  qed
  ultimately have ex: "\<exists>fs. distinct fs \<and> set fs = {1..<th_max_size ht'} - tid ht ` insert h (scheduled ht) \<and>
      chain (th_timer_ids ht') (th_max_size ht') fs (th_freelist ht')" by blast
  have ok: "ids_ok (tid ht') (th_timer_ids ht') ?n (th_heap ht') ?n" "heap_ok (tm_val ht') ?n (th_heap ht')"
    using assms h unfolding pre_insert_def ids_ok_def heap_ok_def by (auto simp: f nth_append)
  have rest: "h \<notin> scheduled ht" "1 \<le> tid ht h" "tid ht h < ?m * 2" "tid ht h \<notin> tid ht ` scheduled ht"
    "\<forall>g. g \<notin> insert h (scheduled ht) \<longrightarrow> te_timer_id (th_entries ht g) < 1" "th_timer_ids ht' ! 0 < 0"
    using assms len by (simp_all add: pre_insert_def f nth_append)
  have "length (th_heap ht') = th_max_size ht'" "length (th_timer_ids ht') = th_max_size ht'" "?n + 2 \<le> th_max_size ht'"
    using len by (simp_all add: f)
  then show "pre_insert (grow_heap ht) h"
    using ex ok rest unfolding ht'_def [symmetric] pre_insert_def s f(2,5,6) by blast
  show "scheduled (grow_heap ht) = scheduled ht" using s by (simp add: ht'_def)
qed

lemma insert_ids_ok:
  assumes "pre_insert ht h"
  shows "ids_ok (tid ht) (th_timer_ids ht) (Suc (th_cur_size ht)) ((th_heap ht)[th_cur_size ht := h]) (th_cur_size ht)"
proof -
  let ?n = "th_cur_size ht"
  have len: "?n < length (th_heap ht)" "length (th_timer_ids ht) = th_max_size ht" using assms by (auto simp: pre_insert_def)
  have ok: "ids_ok (tid ht) (th_timer_ids ht) ?n (th_heap ht) ?n"
    and x: "1 \<le> tid ht h" "tid ht h < th_max_size ht" "tid ht h \<notin> tid ht ` scheduled ht"
    using assms by (simp_all add: pre_insert_def)
  have nx: "tid ht (th_heap ht ! i) \<noteq> tid ht h" if "i < ?n" for i
    using x(3) take_nth_mem [OF that, of "th_heap ht"] len by (metis image_eqI less_imp_le scheduled_def)
  have nth: "(th_heap ht)[?n := h] ! i = (if i < ?n then th_heap ht ! i else h)" if "i < Suc ?n" for i
    using that len by (auto simp: nth_list_update less_Suc_eq)
  show ?thesis
    using ok x(1,2) nx len(2) unfolding ids_ok_def
    by (auto simp: nth less_Suc_eq) metis+
qed

lemma insert_node_ok:
  assumes "pre_insert ht h"
  shows "\<exists>ht'. insert_node ht h = Some ht' \<and> heap_inv ht' \<and> scheduled ht' = insert h (scheduled ht) \<and>
    th_entries ht' = th_entries ht \<and> th_refs ht' = th_refs ht \<and>
    th_max_entries_per_poll ht' = th_max_entries_per_poll ht"
proof -
  let ?n = "th_cur_size ht"
  define ht1 where "ht1 = (if ?n + 2 \<ge> th_max_size ht then grow_heap ht else ht)"
  have p: "pre_insert ht1 h" and s1: "scheduled ht1 = scheduled ht"
    using assms pre_insert_grow [OF assms] by (simp_all add: ht1_def)
  have f1: "th_cur_size ht1 = ?n" "th_entries ht1 = th_entries ht" "th_refs ht1 = th_refs ht"
    "th_max_entries_per_poll ht1 = th_max_entries_per_poll ht"
    by (simp_all add: ht1_def grow_heap_def Let_def)
  have room: "?n + 3 \<le> th_max_size ht1"
    using assms by (simp add: ht1_def grow_heap_def Let_def pre_insert_def)
  have len: "length (th_heap ht1) = th_max_size ht1" "length (th_timer_ids ht1) = th_max_size ht1"
    using p by (simp_all add: pre_insert_def)
  define H where "H = (th_heap ht1)[?n := h]"
  have lH: "Suc ?n \<le> length (th_heap ht1)" "?n < Suc ?n" using room len by simp_all
  have sH: "set (take (Suc ?n) H) = insert h (scheduled ht)"
    using lH s1 f1(1) by (simp add: H_def scheduled_def take_Suc_conv_app_nth)
  obtain ht2 where r: "reheap_up ht1 h ?n = Some ht2" "placed ht1 (Suc ?n) H (sift_up (tm_val ht1) H ?n) ht2"
    using reheap_up_run [OF lH H_def] insert_ids_ok [OF p] f1(1) by (auto simp: H_def)
  define H' where "H' = sift_up (tm_val ht1) H ?n"
  obtain ids' where i: "ht2 = ht1\<lparr>th_heap := H', th_timer_ids := ids'\<rparr>" "length ids' = th_max_size ht1"
      "ids_ok (tid ht1) ids' (Suc ?n) H' (Suc ?n)"
      "\<And>j. (\<forall>g \<in> insert h (scheduled ht). j \<noteq> tid ht1 g) \<Longrightarrow> ids' ! j = th_timer_ids ht1 ! j"
    using r(2) len(2) by (auto simp: placed_def H'_def sH)
  define ht' where "ht' = ht2\<lparr>th_cur_size := Suc ?n\<rparr>"
  have "up_ok (tm_val ht1) (Suc ?n) H ?n"
  proof -
    have nth: "H ! i = th_heap ht1 ! i" if "i < ?n" for i using that by (simp add: H_def)
    have "heap_ok (tm_val ht1) ?n (th_heap ht1)" using p f1(1) by (simp add: pre_insert_def)
    moreover have "c \<le> ?n \<Longrightarrow> 0 < c \<Longrightarrow> HEAP_PARENT c \<noteq> ?n" for c using HEAP_PARENT_less [of c] by linarith
    ultimately show ?thesis by (auto simp: up_ok_def around_ok_def heap_ok_def less_Suc_eq nth)
  qed
  then have hok: "heap_ok (tm_val ht1) (Suc ?n) H'"
    unfolding H'_def using lH by (intro sift_up_heap) (simp_all add: H_def)
  have sch: "scheduled ht' = insert h (scheduled ht)"
    using set_take_sift_up [of ?n "Suc ?n" H] lH sH by (simp add: scheduled_def ht'_def i(1) H'_def H_def)
  obtain fs where fs: "distinct fs" "set fs = {1..<th_max_size ht1} - tid ht1 ` insert h (scheduled ht)"
      "chain (th_timer_ids ht1) (th_max_size ht1) fs (th_freelist ht1)"
    using p by (auto simp: pre_insert_def s1)
  have "chain ids' (th_max_size ht1) fs (th_freelist ht1)"
    using fs i(4) by (intro chain_cong [OF _ fs(3)]) auto
  then have "free_ok ht' fs" using fs sch by (simp add: free_ok_def ht'_def i(1))
  moreover have "\<forall>g. g \<notin> insert h (scheduled ht) \<longrightarrow> te_timer_id (th_entries ht1 g) < 1"
    using p unfolding pre_insert_def s1 by blast
  moreover have "length H' = th_max_size ht1" using lH len by (simp add: H'_def H_def)
  moreover have "th_timer_ids ht' ! 0 < 0"
  proof -
    have "1 \<le> tid ht1 g" if "g \<in> insert h (scheduled ht1)" for g
      using that p by (auto simp: pre_insert_def ids_ok_def scheduled_def set_take_iff)
    then have "\<forall>g \<in> insert h (scheduled ht). 0 \<noteq> tid ht1 g" unfolding s1 by force
    then have "ids' ! 0 = th_timer_ids ht1 ! 0" by (rule i(4))
    moreover have "th_timer_ids ht1 ! 0 < 0" using p unfolding pre_insert_def by blast
    ultimately show ?thesis by (simp add: ht'_def i(1))
  qed
  ultimately have "heap_inv ht'"
    using i(2,3) hok room unfolding heap_inv_def sch by (auto simp: ht'_def i(1))
  moreover have "insert_node ht h = Some ht'"
    using r(1) unfolding insert_node_def Let_def ht1_def [symmetric] f1(1) by (simp add: ht'_def i(1) f1)
  ultimately show ?thesis using sch f1 by (auto simp: ht'_def i(1))
qed

text \<open>Scheduling an idle entry succeeds.\<close>

lemma free_nonempty:
  assumes "heap_inv ht" "free_ok ht fs"
  shows "fs \<noteq> []"
proof
  assume "fs = []"
  then have "{1..<th_max_size ht} \<subseteq> tid ht ` scheduled ht" using assms(2) by (simp add: free_ok_def)
  then have "card {1..<th_max_size ht} \<le> card (tid ht ` scheduled ht)" by (intro card_mono) (simp_all add: scheduled_def)
  also have "\<dots> \<le> card (scheduled ht)" by (rule card_image_le) (simp add: scheduled_def)
  also have "\<dots> \<le> th_cur_size ht"
    unfolding scheduled_def using card_length [of "take (th_cur_size ht) (th_heap ht)"] by simp
  finally show False using assms(1) by (auto simp: heap_inv_def)
qed

lemma pop_pre_insert:
  assumes inv: "heap_inv ht" and h: "h \<notin> scheduled ht"
  obtains x ht1 where "pop_freelist ht = Some (int x, ht1)" "1 \<le> x" "th_entries ht1 = th_entries ht"
    "th_refs ht1 = th_refs ht" "th_max_entries_per_poll ht1 = th_max_entries_per_poll ht"
    "pre_insert (upd_entry h (\<lambda>e. e\<lparr>te_timer_id := int x, te_timer_value := t\<rparr>) ht1) h"
    "scheduled (upd_entry h (\<lambda>e. e\<lparr>te_timer_id := int x, te_timer_value := t\<rparr>) ht1) = scheduled ht"
proof -
  let ?n = "th_cur_size ht"
  obtain fs where "free_ok ht fs" using inv by (auto simp: heap_inv_def)
  then obtain x xs where fs: "free_ok ht (x # xs)" using free_nonempty [OF inv] by (cases fs) auto
  then have x: "x \<in> {1..<th_max_size ht} - tid ht ` scheduled ht" "th_freelist ht = int x" "distinct (x # xs)"
    "set (x # xs) = {1..<th_max_size ht} - tid ht ` scheduled ht"
    "chain (th_timer_ids ht) (th_max_size ht) xs (- (th_timer_ids ht ! x))"
    by (auto simp: free_ok_def)
  define ht1 where "ht1 = ht\<lparr>th_freelist := - (th_timer_ids ht ! x)\<rparr>"
  define ht2 where "ht2 = upd_entry h (\<lambda>e. e\<lparr>te_timer_id := int x, te_timer_value := t\<rparr>) ht1"
  have len: "length (th_heap ht) = th_max_size ht" "length (th_timer_ids ht) = th_max_size ht" "?n + 2 \<le> th_max_size ht"
    using inv by (simp_all add: heap_inv_def)
  have pop: "pop_freelist ht = Some (int x, ht1)"
    using x(1,2) len by (simp add: pop_freelist_def get_timer_id_def ht1_def)
  have f: "th_heap ht2 = th_heap ht" "th_timer_ids ht2 = th_timer_ids ht" "th_max_size ht2 = th_max_size ht"
    "th_cur_size ht2 = ?n" "th_freelist ht2 = - (th_timer_ids ht ! x)" "tid ht2 h = x"
    "\<And>g. g \<noteq> h \<Longrightarrow> th_entries ht2 g = th_entries ht g"
    by (simp_all add: ht2_def ht1_def upd_entry_def)
  have s: "scheduled ht2 = scheduled ht" by (simp add: scheduled_def f)
  have e: "th_entries ht2 (th_heap ht ! i) = th_entries ht (th_heap ht ! i)" if "i < ?n" for i
    using that h scheduled_nth [OF inv] by (intro f(7)) auto
  have im: "tid ht2 ` scheduled ht = tid ht ` scheduled ht" using h f(7) by (intro image_cong refl) metis
  have "ids_ok (tid ht2) (th_timer_ids ht2) ?n (th_heap ht2) ?n" "heap_ok (tm_val ht2) ?n (th_heap ht2)"
    using inv e unfolding heap_inv_def ids_ok_def heap_ok_def by (auto simp: f)
  moreover have "\<exists>fs. distinct fs \<and> set fs = {1..<th_max_size ht} - tid ht2 ` insert h (scheduled ht) \<and>
      chain (th_timer_ids ht2) (th_max_size ht) fs (th_freelist ht2)"
    using x(3-5) by (intro exI [of _ xs]) (auto simp: f im)
  moreover have "\<forall>g. g \<notin> insert h (scheduled ht) \<longrightarrow> te_timer_id (th_entries ht2 g) < 1"
    using inv f(7) unfolding heap_inv_def by simp
  moreover have "th_timer_ids ht ! 0 < 0" using inv unfolding heap_inv_def by blast
  ultimately have "pre_insert ht2 h"
    unfolding pre_insert_def s f(3,4,6) using h x(1) im len by (simp add: f(1,2))
  then show thesis using that [of x ht1] pop x(1) s by (simp add: ht1_def flip: ht2_def) (simp add: ht2_def ht1_def)
qed

lemma schedule_entry_ok:
  assumes inv: "heap_inv ht" and h: "h \<notin> scheduled ht"
  shows "\<exists>ht' i. schedule_entry ht h t = Some (PJ_SUCCESS, ht') \<and> heap_inv ht' \<and> scheduled ht' = insert h (scheduled ht) \<and>
    th_entries ht' = (th_entries ht)(h := (th_entries ht h)\<lparr>te_timer_id := i, te_timer_value := t\<rparr>) \<and>
    th_refs ht' = th_refs ht \<and> th_max_entries_per_poll ht' = th_max_entries_per_poll ht"
proof -
  obtain x ht1 where p: "pop_freelist ht = Some (int x, ht1)" "th_entries ht1 = th_entries ht"
      "th_refs ht1 = th_refs ht" "th_max_entries_per_poll ht1 = th_max_entries_per_poll ht"
      "pre_insert (upd_entry h (\<lambda>e. e\<lparr>te_timer_id := int x, te_timer_value := t\<rparr>) ht1) h"
      "scheduled (upd_entry h (\<lambda>e. e\<lparr>te_timer_id := int x, te_timer_value := t\<rparr>) ht1) = scheduled ht"
    using pop_pre_insert [OF inv h, of t] by metis
  have "th_cur_size ht < th_max_size ht" using inv by (simp add: heap_inv_def)
  moreover obtain ht' where i: "insert_node (upd_entry h (\<lambda>e. e\<lparr>te_timer_id := int x, te_timer_value := t\<rparr>) ht1) h = Some ht'"
      "heap_inv ht'" "scheduled ht' = insert h (scheduled ht)"
      "th_entries ht' = (th_entries ht)(h := (th_entries ht h)\<lparr>te_timer_id := int x, te_timer_value := t\<rparr>)"
      "th_refs ht' = th_refs ht" "th_max_entries_per_poll ht' = th_max_entries_per_poll ht"
    using insert_node_ok [OF p(5)] p(2-4,6) by (auto simp: upd_entry_def)
  ultimately have "schedule_entry ht h t = Some (PJ_SUCCESS, ht')" using p(1) by (simp add: schedule_entry_def)
  then show ?thesis using i by blast
qed

subsection \<open>Removing\<close>

lemma heap_inv_tid:
  assumes "heap_inv ht" "i < th_cur_size ht"
  shows "1 \<le> tid ht (th_heap ht ! i)" "tid ht (th_heap ht ! i) < th_max_size ht"
    "th_timer_ids ht ! tid ht (th_heap ht ! i) = int i"
  using assms unfolding heap_inv_def ids_ok_def by auto

lemma heap_inv_inj:
  assumes "heap_inv ht" "i < th_cur_size ht" "j < th_cur_size ht" "tid ht (th_heap ht ! i) = tid ht (th_heap ht ! j)"
  shows "i = j"
proof -
  have "\<forall>i < th_cur_size ht. \<forall>j < th_cur_size ht. tid ht (th_heap ht ! i) = tid ht (th_heap ht ! j) \<longrightarrow> i = j"
    using assms(1) unfolding heap_inv_def ids_ok_def by blast
  then show ?thesis using assms(2-4) by blast
qed

lemma heap_distinct:
  assumes "heap_inv ht" "i < th_cur_size ht" "j < th_cur_size ht" "th_heap ht ! i = th_heap ht ! j"
  shows "i = j"
  using heap_inv_inj [OF assms(1-3)] assms(4) by simp

text \<open>The state after the id of the entry in \<open>slot\<close> has gone back to the free list.\<close>

definition released :: "pj_timer_heap \<Rightarrow> nat \<Rightarrow> pj_timer_heap" where
  "released ht slot = (let h = th_heap ht ! slot in
     ht\<lparr>th_timer_ids := (th_timer_ids ht)[tid ht h := - th_freelist ht], th_freelist := int (tid ht h),
        th_cur_size := th_cur_size ht - 1,
        th_entries := (th_entries ht)(h := (th_entries ht h)\<lparr>te_timer_id := -1\<rparr>)\<rparr>)"

lemma released_heap_inv:
  assumes inv: "heap_inv ht" and slot: "slot < th_cur_size ht"
    and ht': "ht' = (released ht slot)\<lparr>th_heap := H, th_timer_ids := ids\<rparr>"
    and H: "length H = th_max_size ht" "set (take (th_cur_size ht - 1) H) = scheduled ht - {th_heap ht ! slot}"
      "heap_ok (tm_val ht) (th_cur_size ht - 1) H"
    and ids: "length ids = th_max_size ht" "ids_ok (tid (released ht slot)) ids (th_cur_size ht - 1) H (th_cur_size ht - 1)"
      "\<And>j. j \<notin> tid ht ` (scheduled ht - {th_heap ht ! slot}) \<Longrightarrow> ids ! j = th_timer_ids (released ht slot) ! j"
  shows "heap_inv ht'" "scheduled ht' = scheduled ht - {th_heap ht ! slot}"
proof -
  define h where "h = th_heap ht ! slot"
  have f: "th_max_size ht' = th_max_size ht" "th_cur_size ht' = th_cur_size ht - 1" "th_heap ht' = H" "th_timer_ids ht' = ids"
    "th_freelist ht' = int (tid ht h)" "th_entries ht' = (th_entries ht)(h := (th_entries ht h)\<lparr>te_timer_id := -1\<rparr>)"
    "tid ht' = tid (released ht slot)" "tm_val ht' = tm_val ht"
    by (simp_all add: ht' released_def Let_def h_def fun_eq_iff)
  show s: "scheduled ht' = scheduled ht - {th_heap ht ! slot}" using H(2) by (simp add: scheduled_def [of ht'] f)
  have hs: "h \<in> scheduled ht" using slot scheduled_nth [OF inv] by (auto simp: h_def)
  obtain fs where fs: "distinct fs" "set fs = {1..<th_max_size ht} - tid ht ` scheduled ht"
      "chain (th_timer_ids ht) (th_max_size ht) fs (th_freelist ht)"
    using inv by (auto simp: heap_inv_def free_ok_def)
  note t = heap_inv_tid(1,2) [OF inv slot, folded h_def]
  have inj: "g = h" if "g \<in> scheduled ht" "tid ht g = tid ht h" for g
    using that heap_inv_inj [OF inv _ slot] unfolding h_def scheduled_nth [OF inv] by blast
  have nin: "tid ht h \<notin> tid ht ` (scheduled ht - {h})" using inj by auto
  have im: "tid ht' ` (scheduled ht - {h}) = tid ht ` scheduled ht - {tid ht h}"
    using inj hs by (auto simp: f(6))
  have "chain ((th_timer_ids ht)[tid ht h := - th_freelist ht]) (th_max_size ht) (tid ht h # fs) (int (tid ht h))"
    using fs t hs inv by (intro chain_push) (auto simp: heap_inv_def)
  moreover have "ids ! x = (th_timer_ids ht)[tid ht h := - th_freelist ht] ! x" if "x \<in> set (tid ht h # fs)" for x
    using that fs(2) nin ids(3) [of x] by (auto simp: released_def Let_def simp flip: h_def)
  ultimately have c: "chain ids (th_max_size ht) (tid ht h # fs) (int (tid ht h))" by (rule chain_cong [rotated])
  have "free_ok ht' (tid ht h # fs)"
    unfolding free_ok_def s h_def [symmetric] im f(1,4,5) using c fs t hs by auto
  moreover have "\<forall>g. g \<notin> scheduled ht - {h} \<longrightarrow> te_timer_id (th_entries ht' g) < 1"
    using inv by (auto simp: f(6) heap_inv_def)
  moreover have "th_cur_size ht' + 2 \<le> th_max_size ht'" using inv by (auto simp: f heap_inv_def)
  moreover have "ids_ok (tid ht') (th_timer_ids ht') (th_cur_size ht') (th_heap ht') (th_cur_size ht')"
    "heap_ok (tm_val ht') (th_cur_size ht') (th_heap ht')"
    using ids(2) H(3) unfolding f(2-4,7,8) by simp_all
  moreover have "th_timer_ids ht' ! 0 < 0"
  proof -
    have "0 \<notin> tid ht ` scheduled ht" using heap_inv_tid(1) [OF inv] scheduled_nth [OF inv] by fastforce
    then have "ids ! 0 = th_timer_ids (released ht slot) ! 0" by (intro ids(3)) auto
    also have "\<dots> = th_timer_ids ht ! 0" using t(1) by (simp add: released_def Let_def flip: h_def)
    finally show ?thesis using inv by (simp add: f(4) heap_inv_def)
  qed
  ultimately show "heap_inv ht'"
    unfolding heap_inv_def s h_def [symmetric] using H(1) ids(1) f(1,3,4) by auto
qed

text \<open>The array with the last entry moved into the slot.\<close>

lemma moved_last:
  assumes inv: "heap_inv ht" and slot: "slot < n" and n: "th_cur_size ht = Suc n"
    and H: "H = (th_heap ht)[slot := th_heap ht ! n]"
  shows "set (take n H) = scheduled ht - {th_heap ht ! slot}"
    "ids_ok (tid (released ht slot)) (th_timer_ids (released ht slot)) n H slot"
proof -
  define h where "h = th_heap ht ! slot"
  have len: "length (th_heap ht) = th_max_size ht" "length (th_timer_ids ht) = th_max_size ht" "Suc n < th_max_size ht"
    using inv n by (auto simp: heap_inv_def)
  have nth: "H ! i = (if i = slot then th_heap ht ! n else th_heap ht ! i)" if "i < n" for i
    using that H len by (simp add: nth_list_update)
  have d: "i = j" if "i < Suc n" "j < Suc n" "th_heap ht ! i = th_heap ht ! j" for i j
    using heap_distinct [OF inv, of i j] that n by simp
  have ne: "H ! i \<noteq> h" if "i < n" for i
  proof
    assume "H ! i = h"
    then show False using nth [OF that] d [of n slot] d [of i slot] that slot by (auto simp: h_def split: if_splits)
  qed
  show "set (take n H) = scheduled ht - {th_heap ht ! slot}"
  proof -
    have "x \<in> set (take n H) \<longleftrightarrow> x \<in> scheduled ht \<and> x \<noteq> h" for x
    proof
      assume "x \<in> set (take n H)"
      then obtain i where i: "i < n" "x = H ! i" using len H by (auto simp: set_take_iff)
      then show "x \<in> scheduled ht \<and> x \<noteq> h"
        using nth [OF i(1)] ne [OF i(1)] n scheduled_nth [OF inv, of x] less_Suc_eq by (auto split: if_splits)
    next
      assume x: "x \<in> scheduled ht \<and> x \<noteq> h"
      then obtain i where i: "i < Suc n" "x = th_heap ht ! i" using scheduled_nth [OF inv, of x] n by auto
      have "x = H ! (if i = n then slot else i)" "(if i = n then slot else i) < n"
        using i x slot nth [of i] nth [of slot] by (auto simp: h_def less_Suc_eq)
      then show "x \<in> set (take n H)" using len H by (auto simp: set_take_iff)
    qed
    then show ?thesis by (auto simp: h_def)
  qed
  have ok: "1 \<le> tid ht (th_heap ht ! i)" "tid ht (th_heap ht ! i) < th_max_size ht"
    "th_timer_ids ht ! tid ht (th_heap ht ! i) = int i" if "i < Suc n" for i
    using that heap_inv_tid [OF inv, of i] n by simp_all
  have inj: "i = j" if "i < Suc n" "j < Suc n" "tid ht (th_heap ht ! i) = tid ht (th_heap ht ! j)" for i j
    using that heap_inv_inj [OF inv, of i j] n by simp
  define idx where "idx i = (if i = slot then n else i)" for i
  have Hi: "H ! i = th_heap ht ! idx i" "idx i < Suc n" "idx i \<noteq> slot" if "i < n" for i
    using that nth [OF that] slot by (auto simp: idx_def)
  have t: "tid (released ht slot) (H ! i) = tid ht (th_heap ht ! idx i)" if "i < n" for i
    using ne [OF that] Hi [OF that] by (simp add: released_def Let_def flip: h_def)
  have v: "th_timer_ids (released ht slot) ! tid ht (th_heap ht ! idx i) = int (idx i)" if "i < n" for i
  proof -
    have "tid ht (th_heap ht ! idx i) \<noteq> tid ht h"
      using inj [of "idx i" slot] Hi [OF that] slot by (auto simp: h_def)
    then show ?thesis using ok(3) Hi(2) [OF that] by (simp add: released_def Let_def flip: h_def)
  qed
  have len': "length (th_timer_ids (released ht slot)) = th_max_size ht" using len by (simp add: released_def Let_def)
  show "ids_ok (tid (released ht slot)) (th_timer_ids (released ht slot)) n H slot"
    unfolding ids_ok_def
  proof (intro conjI allI impI)
    fix i assume i: "i < n"
    show "1 \<le> tid (released ht slot) (H ! i)" "tid (released ht slot) (H ! i) < length (th_timer_ids (released ht slot))"
      using ok(1,2) [OF Hi(2) [OF i]] t [OF i] len' by simp_all
  next
    fix i j assume i: "i < n" and j: "j < n" and e: "tid (released ht slot) (H ! i) = tid (released ht slot) (H ! j)"
    have "idx i = idx j" using inj [OF Hi(2) [OF i] Hi(2) [OF j]] e t [OF i] t [OF j] by simp
    then show "i = j" using i j by (auto simp: idx_def split: if_splits)
  next
    fix i assume i: "i < n" "i \<noteq> slot"
    then show "th_timer_ids (released ht slot) ! tid (released ht slot) (H ! i) = int i"
      using v [OF i(1)] t [OF i(1)] by (simp add: idx_def)
  qed
qed

lemma released_last:
  assumes inv: "heap_inv ht" and n: "th_cur_size ht = Suc n"
  shows "ids_ok (tid (released ht n)) (th_timer_ids (released ht n)) n (th_heap ht) n"
proof -
  have len: "length (th_timer_ids (released ht n)) = th_max_size ht"
    using inv by (simp add: heap_inv_def released_def Let_def)
  have i: "i < th_cur_size ht" "n < th_cur_size ht" if "i < n" for i using that n by simp_all
  have ne: "th_heap ht ! i \<noteq> th_heap ht ! n" "tid ht (th_heap ht ! i) \<noteq> tid ht (th_heap ht ! n)" if "i < n" for i
    using heap_inv_inj [OF inv i [OF that]] that by auto
  have t: "tid (released ht n) (th_heap ht ! i) = tid ht (th_heap ht ! i)" if "i < n" for i
    using ne(1) [OF that] by (simp add: released_def Let_def)
  show ?thesis
    unfolding ids_ok_def
  proof (intro conjI allI impI)
    fix j assume j: "j < n"
    show "1 \<le> tid (released ht n) (th_heap ht ! j)" "tid (released ht n) (th_heap ht ! j) < length (th_timer_ids (released ht n))"
      using heap_inv_tid [OF inv i(1) [OF j]] t [OF j] len by simp_all
  next
    fix j k assume j: "j < n" and k: "k < n"
      and e: "tid (released ht n) (th_heap ht ! j) = tid (released ht n) (th_heap ht ! k)"
    show "j = k" using heap_inv_inj [OF inv i(1) [OF j] i(1) [OF k]] e t [OF j] t [OF k] by simp
  next
    fix j assume j: "j < n" "j \<noteq> n"
    then show "th_timer_ids (released ht n) ! tid (released ht n) (th_heap ht ! j) = int j"
      using heap_inv_tid(3) [OF inv i(1) [OF j(1)]] t [OF j(1)] ne(2) [OF j(1)] by (simp add: released_def Let_def)
  qed
qed

lemma ids_ok_mono: "ids_ok t ids n H n \<Longrightarrow> ids_ok t ids n H k"
  by (simp add: ids_ok_def)

lemma released_tid: "g \<noteq> th_heap ht ! slot \<Longrightarrow> tid (released ht slot) g = tid ht g"
  by (simp add: released_def Let_def)

text \<open>The slot is filled with the last entry, and the order repaired downwards or upwards.\<close>

definition refill :: "pj_timer_heap \<Rightarrow> nat \<Rightarrow> nat \<Rightarrow> pj_timer_heap option" where
  "refill ht2 slot n = do {
     moved_node \<leftarrow> deref (th_heap ht2) n;
     ht3 \<leftarrow> copy_node ht2 slot moved_node;
     p \<leftarrow> deref (th_heap ht3) (HEAP_PARENT slot);
     if PJ_TIME_VAL_GTE (tm_val ht3 moved_node) (tm_val ht3 p)
     then reheap_down ht3 moved_node slot else reheap_up ht3 moved_node slot }"

lemma refill_ok:
  assumes inv: "heap_inv ht" and slot: "slot < n" and n: "th_cur_size ht = Suc n" and ht2: "ht2 = released ht slot"
  shows "\<exists>H ids ht4. refill ht2 slot n = Some ht4 \<and>
     ht4 = ht2\<lparr>th_heap := H, th_timer_ids := ids\<rparr> \<and>
     length H = th_max_size ht \<and> set (take n H) = scheduled ht - {th_heap ht ! slot} \<and> heap_ok (tm_val ht) n H \<and>
     length ids = th_max_size ht \<and> ids_ok (tid ht2) ids n H n \<and>
     (\<forall>j. j \<notin> tid ht ` (scheduled ht - {th_heap ht ! slot}) \<longrightarrow> ids ! j = th_timer_ids ht2 ! j)"
proof -
  let ?S = "scheduled ht - {th_heap ht ! slot}"
  define m where "m = th_heap ht ! n"
  define H0 where "H0 = (th_heap ht)[slot := m]"
  have len: "length (th_heap ht) = th_max_size ht" "length (th_timer_ids ht) = th_max_size ht" "Suc n < th_max_size ht"
    using inv n by (auto simp: heap_inv_def)
  have f: "th_heap ht2 = th_heap ht" "th_cur_size ht2 = n" "tm_val ht2 = tm_val ht" "length (th_timer_ids ht2) = th_max_size ht"
    using n len by (simp_all add: ht2 released_def Let_def fun_eq_iff)
  note M = moved_last [OF inv slot n H0_def [unfolded m_def], folded ht2]
  have H0: "length H0 = th_max_size ht" "H0 ! slot = m" "n \<le> length H0" using slot len by (simp_all add: H0_def)
  have mS: "m \<in> ?S" using take_nth_mem [OF slot H0(3)] M(1) H0(2) by simp
  have tm: "1 \<le> tid ht2 m" "tid ht2 m < length (th_timer_ids ht2)" 
    using M(2) slot unfolding ids_ok_def H0(2) [symmetric] by blast+
  define ht3 where "ht3 = ht2\<lparr>th_heap := H0, th_timer_ids := (th_timer_ids ht2)[tid ht2 m := int slot]\<rparr>"
  have copy: "copy_node ht2 slot m = Some ht3"
    unfolding ht3_def H0_def using copy_node_run [OF _ tm, of slot] slot len f(1) by simp
  have f3: "th_heap ht3 = H0" "th_entries ht3 = th_entries ht2" "th_cur_size ht3 = n" "(th_heap ht3)[slot := m] = H0"
    by (simp_all add: ht3_def f H0_def)
  have i3: "ids_ok (tid ht3) (th_timer_ids ht3) n H0 slot"
    using ids_ok_mono [OF ids_ok_close [OF M(2) slot], of slot] H0(2) by (simp add: ht3_def)
  have l3: "n \<le> length (th_heap ht3)" using H0(3) by (simp add: f3)
  define H where "H = (if tm_val ht (H0 ! HEAP_PARENT slot) \<le> tm_val ht m then sift_down (tm_val ht) n H0 slot else sift_up (tm_val ht) H0 slot)"
  have hok: "heap_ok (tm_val ht) (Suc n) (th_heap ht)" "n < length (th_heap ht)" using inv n len by (simp_all add: heap_inv_def)
  note rep = heap_ok_replace [OF hok(1) slot hok(2) H0_def]
  have h1: "heap_ok (tm_val ht) n H"
    using rep sift_down_heap [of "tm_val ht", OF _ H0(3) slot] sift_up_heap [of "tm_val ht", OF _ H0(3) slot]
    by (simp add: H_def not_le)
  have h2: "set (take n H) = ?S" "length H = th_max_size ht"
    using M(1) set_take_sift_up [OF slot H0(3), of "tm_val ht"] set_take_sift_down [OF slot H0(3), of "tm_val ht"] slot H0
    by (simp_all add: H_def)
  have "\<exists>ht4. (if tm_val ht (H0 ! HEAP_PARENT slot) \<le> tm_val ht m then reheap_down ht3 m slot else reheap_up ht3 m slot) = Some ht4 \<and>
      placed ht3 n H0 H ht4"
    using reheap_down_run [OF l3 slot f3(4) [symmetric] i3 f3(3)] reheap_up_run [OF l3 slot f3(4) [symmetric] i3]
    by (simp add: H_def f3(2) f(3))
  then obtain ht4 where r: "(if tm_val ht (H0 ! HEAP_PARENT slot) \<le> tm_val ht m then reheap_down ht3 m slot else reheap_up ht3 m slot) = Some ht4"
      "placed ht3 n H0 H ht4" by blast
  then obtain ids where i: "ht4 = ht3\<lparr>th_heap := H, th_timer_ids := ids\<rparr>" "length ids = length (th_timer_ids ht3)"
      "ids_ok (tid ht3) ids n H n" "\<And>j. (\<forall>g \<in> ?S. j \<noteq> tid ht3 g) \<Longrightarrow> ids ! j = th_timer_ids ht3 ! j"
    by (auto simp: placed_def M(1))
  have "ids ! j = th_timer_ids ht2 ! j" if j: "j \<notin> tid ht ` ?S" for j
  proof -
    have t: "tid ht2 g = tid ht g" if "g \<in> ?S" for g using that released_tid ht2 by simp
    then have "\<forall>g \<in> ?S. j \<noteq> tid ht3 g" "j \<noteq> tid ht2 m" using j mS by (auto simp: f3(2))
    then show ?thesis using i(4) by (simp add: ht3_def)
  qed
  moreover have "ht4 = ht2\<lparr>th_heap := H, th_timer_ids := ids\<rparr>" by (simp add: i(1) ht3_def)
  moreover have "length ids = th_max_size ht" using i(2) f(4) by (simp add: ht3_def)
  moreover have "ids_ok (tid ht2) ids n H n" using i(3) by (simp add: f3(2))
  ultimately have i3': "ht4 = ht2\<lparr>th_heap := H, th_timer_ids := ids\<rparr>" "length ids = th_max_size ht" "ids_ok (tid ht2) ids n H n"
    "\<forall>j. j \<notin> tid ht ` ?S \<longrightarrow> ids ! j = th_timer_ids ht2 ! j" by blast+
  have "deref (th_heap ht2) n = Some m" "deref (th_heap ht3) (HEAP_PARENT slot) = Some (H0 ! HEAP_PARENT slot)"
    "tm_val ht3 g = tm_val ht g" for g
    using len slot H0 f(3) by (simp_all add: f(1) f3 m_def fun_eq_iff)
  then have "refill ht2 slot n = Some ht4" using copy r(1) by (simp add: refill_def)
  then show ?thesis
    using h1 h2 i3' by (intro exI [of _ H] exI [of _ ids] exI [of _ ht4]) simp
qed

lemma remove_node_ok:
  assumes inv: "heap_inv ht" and slot: "slot < th_cur_size ht"
  shows "\<exists>ht'. remove_node ht slot = Some (th_heap ht ! slot, ht') \<and> heap_inv ht' \<and>
    scheduled ht' = scheduled ht - {th_heap ht ! slot} \<and> th_refs ht' = th_refs ht \<and>
    th_entries ht' = (th_entries ht)(th_heap ht ! slot := (th_entries ht (th_heap ht ! slot))\<lparr>te_timer_id := -1\<rparr>) \<and>
    th_max_entries_per_poll ht' = th_max_entries_per_poll ht \<and> th_cur_size ht' = th_cur_size ht - 1"
proof -
  define h where "h = th_heap ht ! slot"
  define ht2 where "ht2 = released ht slot"
  obtain n where n: "th_cur_size ht = Suc n" using slot by (cases "th_cur_size ht") auto
  have len: "length (th_heap ht) = th_max_size ht" "length (th_timer_ids ht) = th_max_size ht" "Suc n < th_max_size ht"
    using inv n by (auto simp: heap_inv_def)
  note t = heap_inv_tid [OF inv slot, folded h_def]
  have f: "th_heap ht2 = th_heap ht" "th_cur_size ht2 = n" "th_refs ht2 = th_refs ht"
    "th_entries ht2 = (th_entries ht)(h := (th_entries ht h)\<lparr>te_timer_id := -1\<rparr>)"
    "th_max_entries_per_poll ht2 = th_max_entries_per_poll ht" "tm_val ht2 = tm_val ht"
    "length (th_timer_ids ht2) = th_max_size ht"
    using n len by (simp_all add: ht2_def released_def Let_def h_def fun_eq_iff)
  have push: "push_freelist ht (te_timer_id (th_entries ht h)) =
      Some (ht\<lparr>th_timer_ids := (th_timer_ids ht)[tid ht h := - th_freelist ht], th_freelist := int (tid ht h)\<rparr>)"
    using t len by (simp add: push_freelist_def set_timer_id_def)
  have rel: "upd_entry h (\<lambda>e. e\<lparr>te_timer_id := -1\<rparr>)
      (ht\<lparr>th_timer_ids := (th_timer_ids ht)[tid ht h := - th_freelist ht], th_freelist := int (tid ht h),
          th_cur_size := th_cur_size ht - 1\<rparr>) = ht2"
    by (simp add: ht2_def released_def upd_entry_def Let_def h_def)
  have run: "remove_node ht slot =
      (if slot < n then Option.bind (refill ht2 slot n) (\<lambda>ht4. Some (h, ht4)) else Some (h, ht2))"
    unfolding remove_node_def refill_def using slot n len push rel f(2)
    by (simp add: Let_def flip: h_def cong: if_cong)
  have "\<exists>H ids. remove_node ht slot = Some (h, ht2\<lparr>th_heap := H, th_timer_ids := ids\<rparr>) \<and>
     length H = th_max_size ht \<and> set (take n H) = scheduled ht - {h} \<and> heap_ok (tm_val ht) n H \<and>
     length ids = th_max_size ht \<and> ids_ok (tid ht2) ids n H n \<and>
     (\<forall>j. j \<notin> tid ht ` (scheduled ht - {h}) \<longrightarrow> ids ! j = th_timer_ids ht2 ! j)"
  proof (cases "slot < n")
    case True
    from refill_ok [OF inv True n ht2_def, folded h_def] obtain H ids ht4 where
      "refill ht2 slot n = Some ht4" "ht4 = ht2\<lparr>th_heap := H, th_timer_ids := ids\<rparr>"
      "length H = th_max_size ht" "set (take n H) = scheduled ht - {h}" "heap_ok (tm_val ht) n H"
      "length ids = th_max_size ht" "ids_ok (tid ht2) ids n H n"
      "\<forall>j. j \<notin> tid ht ` (scheduled ht - {h}) \<longrightarrow> ids ! j = th_timer_ids ht2 ! j" by blast
    then show ?thesis using True unfolding run by (intro exI [of _ H] exI [of _ ids]) simp
  next
    case False
    then have last: "slot = n" using slot n by simp
    have "th_heap ht ! n \<noteq> th_heap ht ! i" if "i < n" for i using heap_distinct [OF inv, of n i] n that by auto
    then have S: "set (take n (th_heap ht)) = scheduled ht - {h}"
      using n len by (auto simp: scheduled_def h_def last take_Suc_conv_app_nth set_take_iff)
    have i: "ids_ok (tid ht2) (th_timer_ids ht2) n (th_heap ht) n"
      using released_last [OF inv n] by (simp add: ht2_def last)
    have "heap_ok (tm_val ht) n (th_heap ht)" using inv n by (simp add: heap_inv_def heap_ok_def)
    then show ?thesis
      using False S i f len unfolding run by (intro exI [of _ "th_heap ht"] exI [of _ "th_timer_ids ht2"]) simp
  qed
  then obtain H ids where R: "remove_node ht slot = Some (h, ht2\<lparr>th_heap := H, th_timer_ids := ids\<rparr>)"
     "length H = th_max_size ht" "set (take n H) = scheduled ht - {h}" "heap_ok (tm_val ht) n H"
     "length ids = th_max_size ht" "ids_ok (tid ht2) ids n H n"
     "\<And>j. j \<notin> tid ht ` (scheduled ht - {h}) \<Longrightarrow> ids ! j = th_timer_ids ht2 ! j"
    by blast
  have n1: "th_cur_size ht - 1 = n" using n by simp
  note L = released_heap_inv [OF inv slot refl R(2), unfolded n1, folded h_def ht2_def, OF R(3,4,5,6,7)]
  show ?thesis using R(1) L f n by (simp flip: h_def)
qed

end
