(* ===== verification/TimerQueue.thy ===== *)
theory TimerQueue
  imports TimerHeapInv TimerSlot
begin

text \<open>
  What the timer heap promises to its clients: a map from entries to expiry times, from which the
  earliest is taken first. The contract is a locale; the heap is an interpretation of it. Polling
  fires the due entries in the order of their expiry, references to group locks are balanced, and the
  timer slots of the ICE session are an abstraction of heap entries.
\<close>

subsection \<open>The abstract contract\<close>

text \<open>Taking entries one after the other, at most \<open>n\<close>.\<close>

fun drain :: "('q \<Rightarrow> ('h \<times> 'q) option) \<Rightarrow> nat \<Rightarrow> 'q \<Rightarrow> 'h list" where
  "drain pop 0 q = []"
| "drain pop (Suc n) q = (case pop q of None \<Rightarrow> [] | Some (h, q') \<Rightarrow> h # drain pop n q')"

locale timer_queue =
  fixes inv :: "'q \<Rightarrow> bool"
    and timers :: "'q \<Rightarrow> 'h \<Rightarrow> 't::linorder option"
    and sched :: "'q \<Rightarrow> 'h \<Rightarrow> 't \<Rightarrow> 'q option"
    and unsched :: "'q \<Rightarrow> 'h \<Rightarrow> 'q option"
    and pop :: "'q \<Rightarrow> ('h \<times> 'q) option"
  assumes sched_spec: "inv q \<Longrightarrow> timers q h = None \<Longrightarrow>
      \<exists>q'. sched q h t = Some q' \<and> inv q' \<and> timers q' = (timers q)(h := Some t)"
    and unsched_spec: "inv q \<Longrightarrow> \<exists>q'. unsched q h = Some q' \<and> inv q' \<and> timers q' = (timers q)(h := None)"
    and pop_spec: "inv q \<Longrightarrow> timers q \<noteq> Map.empty \<Longrightarrow>
      \<exists>h t q'. pop q = Some (h, q') \<and> inv q' \<and> timers q h = Some t \<and>
        (\<forall>g s. timers q g = Some s \<longrightarrow> t \<le> s) \<and> timers q' = (timers q)(h := None)"
    and pop_empty: "inv q \<Longrightarrow> timers q = Map.empty \<Longrightarrow> pop q = None"
begin

lemma reschedule:
  assumes "inv q"
  shows "\<exists>q1 q2. unsched q h = Some q1 \<and> sched q1 h t = Some q2 \<and> inv q2 \<and> timers q2 = (timers q)(h := Some t)"
proof -
  obtain q1 where q1: "unsched q h = Some q1" "inv q1" "timers q1 = (timers q)(h := None)"
    using unsched_spec [OF assms] by blast
  then show ?thesis using sched_spec [OF q1(2), of h t] by auto
qed

lemma drain_subset: "inv q \<Longrightarrow> h \<in> set (drain pop n q) \<Longrightarrow> timers q h \<noteq> None"
proof (induction n arbitrary: q)
  case (Suc n)
  show ?case
  proof (cases "timers q = Map.empty")
    case True
    then show ?thesis using Suc.prems pop_empty by simp
  next
    case False
    then obtain g t q' where p: "pop q = Some (g, q')" "inv q'" "timers q g = Some t" "timers q' = (timers q)(g := None)"
      using pop_spec [OF Suc.prems(1)] by blast
    then show ?thesis using Suc.IH [OF p(2)] Suc.prems(2) by (auto split: if_splits)
  qed
qed simp

text \<open>A drain takes distinct entries in the order of their expiry, none later than what is left.\<close>

lemma drain_sorted:
  assumes "inv q"
  shows "distinct (drain pop n q)" "sorted (map (\<lambda>h. the (timers q h)) (drain pop n q))"
proof -
  have "distinct (drain pop n q) \<and> sorted (map (\<lambda>h. the (timers q h)) (drain pop n q))"
    using assms
  proof (induction n arbitrary: q)
    case (Suc n)
    show ?case
    proof (cases "timers q = Map.empty")
      case True
      then show ?thesis using Suc.prems pop_empty by simp
    next
      case False
      then obtain g t q' where p: "pop q = Some (g, q')" "inv q'" "timers q g = Some t"
          "\<forall>h s. timers q h = Some s \<longrightarrow> t \<le> s" "timers q' = (timers q)(g := None)"
        using pop_spec [OF Suc.prems] by blast
      have sub: "timers q' h \<noteq> None" if "h \<in> set (drain pop n q')" for h using drain_subset [OF p(2) that] .
      have gn: "g \<notin> set (drain pop n q')" using sub [of g] p(5) by auto
      have "\<forall>h \<in> set (drain pop n q'). t \<le> the (timers q h)"
      proof
        fix h assume "h \<in> set (drain pop n q')"
        then obtain s where "timers q h = Some s" using sub [of h] p(5) gn by (cases "h = g") auto
        then show "t \<le> the (timers q h)" using p(4) by simp
      qed
      moreover have "map (\<lambda>h. the (timers q h)) (drain pop n q') = map (\<lambda>h. the (timers q' h)) (drain pop n q')"
        using gn p(5) by (intro map_cong refl) auto
      then have "sorted (map (\<lambda>h. the (timers q h)) (drain pop n q'))" using Suc.IH [OF p(2)] by (simp del: map_eq_conv)
      ultimately show ?thesis using Suc.IH [OF p(2)] gn p(1,3) by simp
    qed
  qed simp
  then show "distinct (drain pop n q)" "sorted (map (\<lambda>h. the (timers q h)) (drain pop n q))" by blast+
qed

text \<open>With as many steps as there are entries it takes all of them.\<close>

lemma drain_all: "inv q \<Longrightarrow> finite (dom (timers q)) \<Longrightarrow> card (dom (timers q)) \<le> n \<Longrightarrow> set (drain pop n q) = dom (timers q)"
proof (induction n arbitrary: q)
  case (Suc n)
  show ?case
  proof (cases "timers q = Map.empty")
    case True
    then show ?thesis using Suc.prems pop_empty by simp
  next
    case False
    then obtain g t q' where p: "pop q = Some (g, q')" "inv q'" "timers q g = Some t" "timers q' = (timers q)(g := None)"
      using pop_spec [OF Suc.prems(1)] by blast
    then have d: "dom (timers q') = dom (timers q) - {g}" "g \<in> dom (timers q)" by auto
    then have "set (drain pop n q') = dom (timers q')" using Suc.IH [OF p(2)] Suc.prems(2,3) by simp
    then show ?thesis using p(1) d by auto
  qed
qed simp

end

subsection \<open>The heap keeps the contract\<close>

definition timers :: "pj_timer_heap \<Rightarrow> handle \<Rightarrow> pj_time_val option" where
  "timers ht h = (if h \<in> scheduled ht then Some (tm_val ht h) else None)"

definition heap_pop :: "pj_timer_heap \<Rightarrow> (handle \<times> pj_timer_heap) option" where
  "heap_pop ht = (if th_cur_size ht = 0 then None else remove_node ht 0)"

text \<open>Only the ids and values of the scheduled entries matter, and that the others are idle.\<close>

lemma heap_inv_cong:
  assumes inv: "heap_inv ht" and f: "th_heap ht' = th_heap ht" "th_timer_ids ht' = th_timer_ids ht"
      "th_max_size ht' = th_max_size ht" "th_cur_size ht' = th_cur_size ht" "th_freelist ht' = th_freelist ht"
    and e: "\<And>h. h \<in> scheduled ht \<Longrightarrow> te_timer_id (th_entries ht' h) = te_timer_id (th_entries ht h) \<and> tm_val ht' h = tm_val ht h"
    and idle: "\<And>h. h \<notin> scheduled ht \<Longrightarrow> te_timer_id (th_entries ht' h) < 1"
  shows "heap_inv ht'" "scheduled ht' = scheduled ht" "timers ht' = timers ht"
proof -
  show s: "scheduled ht' = scheduled ht" by (simp add: scheduled_def f)
  have n: "tid ht' (th_heap ht ! i) = tid ht (th_heap ht ! i)" "tm_val ht' (th_heap ht ! i) = tm_val ht (th_heap ht ! i)"
    if "i < th_cur_size ht" for i
  proof -
    have "th_heap ht ! i \<in> scheduled ht" using that scheduled_nth [OF inv] by blast
    then show "tid ht' (th_heap ht ! i) = tid ht (th_heap ht ! i)" "tm_val ht' (th_heap ht ! i) = tm_val ht (th_heap ht ! i)"
      using e by simp_all
  qed
  have "tid ht' ` scheduled ht = tid ht ` scheduled ht" using e by (intro image_cong) auto
  then have "\<exists>fs. free_ok ht' fs" using inv unfolding heap_inv_def free_ok_def s f by simp
  moreover have "ids_ok (tid ht') (th_timer_ids ht) (th_cur_size ht) (th_heap ht) (th_cur_size ht)"
  proof -
    have "ids_ok (tid ht) (th_timer_ids ht) (th_cur_size ht) (th_heap ht) (th_cur_size ht)"
      using inv by (simp add: heap_inv_def)
    then show ?thesis unfolding ids_ok_def by (simp add: n)
  qed
  moreover have "heap_ok (tm_val ht') (th_cur_size ht) (th_heap ht)"
    using inv n(2) parent_bound unfolding heap_inv_def heap_ok_def by simp
  moreover have "length (th_heap ht) = th_max_size ht" "length (th_timer_ids ht) = th_max_size ht"
    "th_cur_size ht + 2 \<le> th_max_size ht" "th_timer_ids ht ! 0 < 0"
    using inv by (simp_all add: heap_inv_def)
  ultimately show "heap_inv ht'" using idle unfolding heap_inv_def s f by blast
  show "timers ht' = timers ht" using e by (simp add: timers_def fun_eq_iff s)
qed

lemma schedule_entry_timers:
  assumes "heap_inv ht" "h \<notin> scheduled ht"
  obtains ht' i where "schedule_entry ht h t = Some (PJ_SUCCESS, ht')" "heap_inv ht'" "timers ht' = (timers ht)(h := Some t)"
    "scheduled ht' = insert h (scheduled ht)" "th_refs ht' = th_refs ht"
    "th_entries ht' = (th_entries ht)(h := (th_entries ht h)\<lparr>te_timer_id := i, te_timer_value := t\<rparr>)"
proof -
  obtain ht' i where s: "schedule_entry ht h t = Some (PJ_SUCCESS, ht')" "heap_inv ht'" "scheduled ht' = insert h (scheduled ht)"
      "th_refs ht' = th_refs ht"
      "th_entries ht' = (th_entries ht)(h := (th_entries ht h)\<lparr>te_timer_id := i, te_timer_value := t\<rparr>)"
    using schedule_entry_ok [OF assms] by blast
  moreover have "timers ht' = (timers ht)(h := Some t)" by (auto simp: timers_def fun_eq_iff s)
  ultimately show thesis using that by blast
qed

lemma cancel_ok:
  assumes inv: "heap_inv ht"
  shows "\<exists>ht'. cancel ht h = Some (if h \<in> scheduled ht then 1 else 0, ht') \<and> heap_inv ht' \<and>
    timers ht' = (timers ht)(h := None) \<and> scheduled ht' = scheduled ht - {h} \<and> th_refs ht' = th_refs ht \<and>
    th_entries ht' = (th_entries ht)(h := (th_entries ht h)\<lparr>te_timer_id := -1\<rparr>)"
proof (cases "h \<in> scheduled ht")
  case True
  then obtain i where i: "i < th_cur_size ht" "h = th_heap ht ! i" using scheduled_nth [OF inv] by blast
  note t = heap_inv_tid [OF inv i(1), folded i(2)]
  have t0: "\<not> te_timer_id (th_entries ht h) < 0" "\<not> int (th_max_size ht) < te_timer_id (th_entries ht h)"
    using t(1,2) by linarith+
  have len: "length (th_heap ht) = th_max_size ht" "length (th_timer_ids ht) = th_max_size ht" "i < th_max_size ht"
    using inv i(1) by (auto simp: heap_inv_def)
  obtain ht' where r: "remove_node ht i = Some (h, ht')" "heap_inv ht'" "scheduled ht' = scheduled ht - {h}"
      "th_refs ht' = th_refs ht" "th_entries ht' = (th_entries ht)(h := (th_entries ht h)\<lparr>te_timer_id := -1\<rparr>)"
    using remove_node_ok [OF inv i(1)] i(2) by auto
  have "cancel ht h = Some (1, ht')"
    using t t0 len r(1) unfolding cancel_def Let_def get_timer_id_def by (simp flip: i(2))
  moreover have "timers ht' = (timers ht)(h := None)" by (auto simp: timers_def fun_eq_iff r)
  ultimately show ?thesis using True r by auto
next
  case False
  define ht' where "ht' = upd_entry h (\<lambda>e. e\<lparr>te_timer_id := -1\<rparr>) ht"
  have lt: "te_timer_id (th_entries ht h) < 1" using inv False unfolding heap_inv_def by blast
  have "th_timer_ids ht ! 0 < 0" "0 < length (th_timer_ids ht)" using inv by (auto simp: heap_inv_def)
  then have "cancel ht h = Some (0, ht')"
    using lt by (cases "te_timer_id (th_entries ht h) = 0") (auto simp: cancel_def Let_def get_timer_id_def ht'_def)
  moreover have s: "scheduled ht' = scheduled ht" by (simp add: ht'_def upd_entry_def scheduled_def)
  moreover have e: "th_entries ht' = (th_entries ht)(h := (th_entries ht h)\<lparr>te_timer_id := -1\<rparr>)"
    by (simp add: ht'_def upd_entry_def)
  moreover have "heap_inv ht'"
    using inv False unfolding ht'_def by (intro heap_inv_cong [OF inv]) (auto simp: upd_entry_def heap_inv_def)
  ultimately show ?thesis using False by (auto simp: timers_def fun_eq_iff ht'_def upd_entry_def)
qed

lemma heap_pop_ok:
  assumes inv: "heap_inv ht" and ne: "th_cur_size ht \<noteq> 0"
  obtains ht' where "heap_pop ht = Some (th_heap ht ! 0, ht')" "heap_inv ht'" "th_heap ht ! 0 \<in> scheduled ht"
    "\<And>g. g \<in> scheduled ht \<Longrightarrow> tm_val ht (th_heap ht ! 0) \<le> tm_val ht g"
    "timers ht' = (timers ht)(th_heap ht ! 0 := None)" "scheduled ht' = scheduled ht - {th_heap ht ! 0}" "th_refs ht' = th_refs ht"
    "th_entries ht' = (th_entries ht)(th_heap ht ! 0 := (th_entries ht (th_heap ht ! 0))\<lparr>te_timer_id := -1\<rparr>)"
proof -
  let ?h = "th_heap ht ! 0"
  obtain ht' where r: "remove_node ht 0 = Some (?h, ht')" "heap_inv ht'" "scheduled ht' = scheduled ht - {?h}"
      "th_refs ht' = th_refs ht" "th_entries ht' = (th_entries ht)(?h := (th_entries ht ?h)\<lparr>te_timer_id := -1\<rparr>)"
    using remove_node_ok [OF inv, of 0] ne by auto
  have min: "tm_val ht ?h \<le> tm_val ht g" if "g \<in> scheduled ht" for g
    using that inv heap_ok_root [of "tm_val ht" "th_cur_size ht" "th_heap ht"]
    unfolding scheduled_nth [OF inv] heap_inv_def by blast
  have mem: "?h \<in> scheduled ht" using ne scheduled_nth [OF inv] by blast
  have tm: "timers ht' = (timers ht)(?h := None)" by (auto simp: timers_def fun_eq_iff r)
  have "heap_pop ht = Some (?h, ht')" using r(1) ne by (simp add: heap_pop_def)
  then show thesis using that min mem tm r by blast
qed

lemma timers_empty: "heap_inv ht \<Longrightarrow> timers ht = Map.empty \<longleftrightarrow> th_cur_size ht = 0"
proof -
  assume inv: "heap_inv ht"
  have "timers ht = Map.empty \<longleftrightarrow> scheduled ht = {}" by (auto simp: timers_def fun_eq_iff)
  also have "\<dots> \<longleftrightarrow> th_cur_size ht = 0"
    using inv by (auto simp: scheduled_def heap_inv_def)
  finally show ?thesis .
qed

interpretation heap_queue: timer_queue heap_inv timers
  "\<lambda>ht h t. map_option snd (schedule_entry ht h t)" "\<lambda>ht h. map_option snd (cancel ht h)" heap_pop
proof unfold_locales
  fix q h t assume a: "heap_inv q" "timers q h = None"
  then have "h \<notin> scheduled q" by (auto simp: timers_def split: if_splits)
  then show "\<exists>q'. map_option snd (schedule_entry q h t) = Some q' \<and> heap_inv q' \<and> timers q' = (timers q)(h := Some t)"
    using schedule_entry_timers [OF a(1), of h t] by (metis option.simps(9) snd_conv)
next
  fix q h assume "heap_inv q"
  from cancel_ok [OF this, of h]
  show "\<exists>q'. map_option snd (cancel q h) = Some q' \<and> heap_inv q' \<and> timers q' = (timers q)(h := None)" by auto
next
  fix q assume a: "heap_inv q" "timers q \<noteq> Map.empty"
  then have "th_cur_size q \<noteq> 0" using timers_empty by blast
  then obtain q' where p: "heap_pop q = Some (th_heap q ! 0, q')" "heap_inv q'" "th_heap q ! 0 \<in> scheduled q"
      "\<And>g. g \<in> scheduled q \<Longrightarrow> tm_val q (th_heap q ! 0) \<le> tm_val q g" "timers q' = (timers q)(th_heap q ! 0 := None)"
    using heap_pop_ok [OF a(1)] by metis
  have "\<forall>g s. timers q g = Some s \<longrightarrow> tm_val q (th_heap q ! 0) \<le> s" using p(4) by (simp add: timers_def)
  then show "\<exists>h t q'. heap_pop q = Some (h, q') \<and> heap_inv q' \<and> timers q h = Some t \<and>
      (\<forall>g s. timers q g = Some s \<longrightarrow> t \<le> s) \<and> timers q' = (timers q)(h := None)"
    using p by (intro exI [of _ "th_heap q ! 0"] exI [of _ "tm_val q (th_heap q ! 0)"] exI [of _ q']) (simp add: timers_def)
next
  fix q assume "heap_inv q" "timers q = Map.empty"
  then show "heap_pop q = None" using timers_empty by (simp add: heap_pop_def)
qed

subsection \<open>Scheduling and cancelling\<close>

text \<open>References: an idle entry holds none, and each group lock is held once by every scheduled entry that names it.\<close>

definition refs_inv :: "(nat \<Rightarrow> int) \<Rightarrow> pj_timer_heap \<Rightarrow> bool" where
  "refs_inv base ht \<longleftrightarrow>
     (\<forall>h. h \<notin> scheduled ht \<longrightarrow> te_grp_lock (th_entries ht h) = None) \<and>
     (\<forall>l. th_refs ht l = base l + int (card {h \<in> scheduled ht. te_grp_lock (th_entries ht h) = Some l}))"

lemma finite_scheduled [simp]: "finite (scheduled ht)"
  by (simp add: scheduled_def)

lemma grp_lock_ref_frame [simp]:
  "th_heap (grp_lock_ref d l ht) = th_heap ht" "th_timer_ids (grp_lock_ref d l ht) = th_timer_ids ht"
  "th_max_size (grp_lock_ref d l ht) = th_max_size ht" "th_cur_size (grp_lock_ref d l ht) = th_cur_size ht"
  "th_freelist (grp_lock_ref d l ht) = th_freelist ht" "th_entries (grp_lock_ref d l ht) = th_entries ht"
  "th_max_entries_per_poll (grp_lock_ref d l ht) = th_max_entries_per_poll ht"
  "scheduled (grp_lock_ref d l ht) = scheduled ht" "timers (grp_lock_ref d l ht) = timers ht"
  by (cases l; simp add: grp_lock_ref_def scheduled_def timers_def fun_eq_iff)+

lemma grp_lock_ref_refs: "th_refs (grp_lock_ref d l ht) k = th_refs ht k + (if l = Some k then d else 0)"
  by (cases l) (simp_all add: grp_lock_ref_def)

lemma grp_lock_ref_inv [simp]: "heap_inv (grp_lock_ref d l ht) = heap_inv ht"
  by (simp add: heap_inv_def free_ok_def)

lemma upd_entry_frame [simp]:
  "th_heap (upd_entry h f ht) = th_heap ht" "th_timer_ids (upd_entry h f ht) = th_timer_ids ht"
  "th_max_size (upd_entry h f ht) = th_max_size ht" "th_cur_size (upd_entry h f ht) = th_cur_size ht"
  "th_freelist (upd_entry h f ht) = th_freelist ht" "th_refs (upd_entry h f ht) = th_refs ht"
  "th_max_entries_per_poll (upd_entry h f ht) = th_max_entries_per_poll ht"
  "th_entries (upd_entry h f ht) = (th_entries ht)(h := f (th_entries ht h))" "scheduled (upd_entry h f ht) = scheduled ht"
  by (simp_all add: upd_entry_def scheduled_def)

lemma upd_entry_inv:
  assumes "heap_inv ht" "\<And>e. te_timer_id (f e) = te_timer_id e \<and> te_timer_value (f e) = te_timer_value e"
  shows "heap_inv (upd_entry h f ht)" "timers (upd_entry h f ht) = timers ht"
  using assms by (intro heap_inv_cong [OF assms(1)]; auto simp: heap_inv_def)+

lemma card_lock_insert:
  assumes "h \<notin> S" "finite S" "\<And>g. g \<noteq> h \<Longrightarrow> f g = f' g"
  shows "int (card {g \<in> insert h S. f g = Some l}) = int (card {g \<in> S. f' g = Some l}) + (if f h = Some l then 1 else 0)"
proof -
  have "{g \<in> insert h S. f g = Some l} = (if f h = Some l then insert h {g \<in> S. f' g = Some l} else {g \<in> S. f' g = Some l})"
    using assms(1,3) by auto (metis assms(3))+
  then show ?thesis using assms by simp
qed

lemma schedule_w_grp_lock_ok:
  assumes inv: "heap_inv ht" and refs: "refs_inv base ht" and cb: "te_has_cb (th_entries ht h)" and idle: "h \<notin> scheduled ht"
  shows "\<exists>ht'. schedule_w_grp_lock ht now h delay i l = Some (PJ_SUCCESS, ht') \<and> heap_inv ht' \<and> refs_inv base ht' \<and>
    timers ht' = (timers ht)(h := Some (PJ_TIME_VAL_ADD now delay)) \<and>
    te_id (th_entries ht' h) = (case i of None \<Rightarrow> te_id (th_entries ht h) | Some k \<Rightarrow> k)"
proof -
  obtain ht1 j where s: "schedule_entry ht h (PJ_TIME_VAL_ADD now delay) = Some (PJ_SUCCESS, ht1)" "heap_inv ht1"
      "timers ht1 = (timers ht)(h := Some (PJ_TIME_VAL_ADD now delay))" "scheduled ht1 = insert h (scheduled ht)" "th_refs ht1 = th_refs ht"
      "th_entries ht1 = (th_entries ht)(h := (th_entries ht h)\<lparr>te_timer_id := j, te_timer_value := PJ_TIME_VAL_ADD now delay\<rparr>)"
    using schedule_entry_timers [OF inv idle] by metis
  define f where "f = (\<lambda>e :: pj_timer_entry. e\<lparr>te_id := (case i of None \<Rightarrow> te_id e | Some k \<Rightarrow> k), te_grp_lock := l\<rparr>)"
  define ht' where "ht' = grp_lock_ref 1 l (upd_entry h f ht1)"
  have nr: "\<not> te_timer_id (th_entries ht h) \<ge> 1" using inv idle unfolding heap_inv_def by force
  have run: "schedule_w_grp_lock ht now h delay i l = Some (PJ_SUCCESS, ht')"
    using cb nr s(1) by (simp add: schedule_w_grp_lock_def ht'_def f_def)
  have "heap_inv ht'" "timers ht' = timers ht1"
    using upd_entry_inv [OF s(2), of f h] by (simp_all add: ht'_def f_def)
  moreover have "refs_inv base ht'"
  proof -
    have "int (card {g \<in> insert h (scheduled ht). te_grp_lock (th_entries ht' g) = Some k}) =
        int (card {g \<in> scheduled ht. te_grp_lock (th_entries ht g) = Some k}) + (if te_grp_lock (th_entries ht' h) = Some k then 1 else 0)" for k
      using idle by (intro card_lock_insert) (simp_all add: ht'_def s(6))
    moreover have "te_grp_lock (th_entries ht' h) = l" by (simp add: ht'_def f_def)
    moreover have "\<forall>g. g \<notin> insert h (scheduled ht) \<longrightarrow> te_grp_lock (th_entries ht' g) = None"
      using refs by (simp add: refs_inv_def ht'_def s(6))
    ultimately show ?thesis using refs unfolding refs_inv_def by (simp add: ht'_def s(4,5) grp_lock_ref_refs)
  qed
  moreover have "te_id (th_entries ht' h) = (case i of None \<Rightarrow> te_id (th_entries ht h) | Some k \<Rightarrow> k)"
    by (cases i) (simp_all add: ht'_def f_def s(6))
  ultimately show ?thesis using run s(3) by simp
qed

lemma cancel_timer_ok:
  assumes inv: "heap_inv ht" and refs: "refs_inv base ht"
  shows "\<exists>ht'. cancel_timer ht h i = Some (if h \<in> scheduled ht then 1 else 0, ht') \<and> heap_inv ht' \<and> refs_inv base ht' \<and>
    timers ht' = (timers ht)(h := None) \<and>
    te_id (th_entries ht' h) = (case i of None \<Rightarrow> te_id (th_entries ht h) | Some k \<Rightarrow> k)"
proof -
  obtain ht1 where c: "cancel ht h = Some (if h \<in> scheduled ht then 1 else 0, ht1)" "heap_inv ht1"
      "timers ht1 = (timers ht)(h := None)" "scheduled ht1 = scheduled ht - {h}" "th_refs ht1 = th_refs ht"
      "th_entries ht1 = (th_entries ht)(h := (th_entries ht h)\<lparr>te_timer_id := -1\<rparr>)"
    using cancel_ok [OF inv] by blast
  define ht2 where "ht2 = (case i of None \<Rightarrow> ht1 | Some k \<Rightarrow> upd_entry h (\<lambda>e. e\<lparr>te_id := k\<rparr>) ht1)"
  have h2: "heap_inv ht2" "timers ht2 = timers ht1" "scheduled ht2 = scheduled ht1" "th_refs ht2 = th_refs ht1"
    using c(2) upd_entry_inv [OF c(2), of "\<lambda>e. e\<lparr>te_id := k\<rparr>" h for k] by (cases i; simp add: ht2_def)+
  have e2: "te_grp_lock (th_entries ht2 g) = te_grp_lock (th_entries ht g)"
    "te_id (th_entries ht2 h) = (case i of None \<Rightarrow> te_id (th_entries ht h) | Some k \<Rightarrow> k)" for g
    by (cases i; simp add: ht2_def c(6))+
  define l where "l = te_grp_lock (th_entries ht h)"
  define ht' where "ht' = grp_lock_ref (-1) l (upd_entry h (\<lambda>e. e\<lparr>te_grp_lock := None\<rparr>) ht2)"
  have run: "cancel_timer ht h i = Some (if h \<in> scheduled ht then 1 else 0, ht')"
    using c(1) e2(1) [of h] unfolding cancel_timer_def Let_def by (simp add: ht'_def l_def flip: ht2_def)
  have "heap_inv ht'" "timers ht' = timers ht1"
    using h2 upd_entry_inv [OF h2(1), of "\<lambda>e. e\<lparr>te_grp_lock := None\<rparr>" h] by (simp_all add: ht'_def)
  moreover have "refs_inv base ht'"
  proof (cases "h \<in> scheduled ht")
    case True
    then have S: "insert h (scheduled ht - {h}) = scheduled ht" by blast
    have "int (card {g \<in> insert h (scheduled ht - {h}). te_grp_lock (th_entries ht g) = Some k}) =
        int (card {g \<in> scheduled ht - {h}. te_grp_lock (th_entries ht' g) = Some k}) + (if l = Some k then 1 else 0)" for k
      unfolding l_def by (intro card_lock_insert) (simp_all add: ht'_def e2(1))
    then have "int (card {g \<in> scheduled ht. te_grp_lock (th_entries ht g) = Some k}) =
        int (card {g \<in> scheduled ht - {h}. te_grp_lock (th_entries ht' g) = Some k}) + (if l = Some k then 1 else 0)" for k
      unfolding S .
    then show ?thesis
      using refs unfolding refs_inv_def by (simp add: ht'_def h2(3,4) c(4,5) e2(1) grp_lock_ref_refs)
  next
    case False
    then have "l = None" using refs by (simp add: refs_inv_def l_def)
    then have "te_grp_lock (th_entries ht' g) = te_grp_lock (th_entries ht g)" for g
      using e2(1) by (simp add: ht'_def l_def)
    then show ?thesis
      using refs False \<open>l = None\<close> unfolding refs_inv_def by (simp add: ht'_def h2(3,4) c(4,5) grp_lock_ref_refs)
  qed
  moreover have "te_id (th_entries ht' h) = (case i of None \<Rightarrow> te_id (th_entries ht h) | Some k \<Rightarrow> k)"
    using e2(2) by (simp add: ht'_def)
  ultimately show ?thesis using run c(3) by simp
qed

subsection \<open>Polling\<close>

text \<open>A callback that schedules and cancels keeps the invariants, whatever the references held elsewhere.\<close>

definition cb_ok :: "(handle \<Rightarrow> pj_timer_heap \<Rightarrow> pj_timer_heap option) \<Rightarrow> bool" where
  "cb_ok cb \<longleftrightarrow> (\<forall>h ht base. heap_inv ht \<and> refs_inv base ht \<longrightarrow>
     (\<exists>ht'. cb h ht = Some ht' \<and> heap_inv ht' \<and> refs_inv base ht'))"

text \<open>One iteration of the poll loop, with an entry due.\<close>

definition poll_step ::
  "(handle \<Rightarrow> pj_timer_heap \<Rightarrow> pj_timer_heap option) \<Rightarrow> handle \<Rightarrow> pj_timer_heap \<Rightarrow> pj_timer_heap option" where
  "poll_step cb node ht1 =
     (let ht2 = upd_entry node (\<lambda>e. e\<lparr>te_grp_lock := None\<rparr>) ht1
      in map_option (grp_lock_ref (-1) (te_grp_lock (th_entries ht1 node)))
           (if te_has_cb (th_entries ht2 node) then cb node ht2 else Some ht2))"

lemma poll_loop_step:
  assumes "heap_inv ht" "th_cur_size ht \<noteq> 0" "tm_val ht (th_heap ht ! 0) \<le> now" "heap_pop ht = Some (node, ht1)"
  shows "poll_loop cb now (Suc n) ht = Option.bind (poll_step cb node ht1)
    (\<lambda>ht3. Option.bind (poll_loop cb now n ht3) (\<lambda>(fired, ht4). Some (node # fired, ht4)))"
proof -
  have "0 < length (th_heap ht)" using assms(1) by (auto simp: heap_inv_def)
  moreover have "remove_node ht 0 = Some (node, ht1)" using assms(2,4) by (simp add: heap_pop_def)
  ultimately show ?thesis
    using assms(2,3) by (simp add: poll_step_def Let_def bind_map_option comp_def)
qed

lemma poll_loop_stop:
  assumes "heap_inv ht" "\<not> (th_cur_size ht \<noteq> 0 \<and> tm_val ht (th_heap ht ! 0) \<le> now)"
  shows "poll_loop cb now n ht = Some ([], ht)"
  using assms by (cases n) (auto simp: heap_inv_def)

lemma poll_step_ok:
  assumes inv: "heap_inv ht" and refs: "refs_inv base ht" and ne: "th_cur_size ht \<noteq> 0" and cb: "cb_ok cb"
    and pop: "heap_pop ht = Some (node, ht1)"
  shows "\<exists>ht3. poll_step cb node ht1 = Some ht3 \<and> heap_inv ht3 \<and> refs_inv base ht3"
proof -
  obtain ht1' where p: "heap_pop ht = Some (th_heap ht ! 0, ht1')" "heap_inv ht1'" "th_heap ht ! 0 \<in> scheduled ht"
    "scheduled ht1' = scheduled ht - {th_heap ht ! 0}" "th_refs ht1' = th_refs ht"
    "th_entries ht1' = (th_entries ht)(th_heap ht ! 0 := (th_entries ht (th_heap ht ! 0))\<lparr>te_timer_id := -1\<rparr>)"
    using heap_pop_ok [OF inv ne] by metis
  then have n: "node = th_heap ht ! 0" "ht1' = ht1" using pop by auto
  note p = p [folded n(1), unfolded n(2)]
  define l where "l = te_grp_lock (th_entries ht1 node)"
  define ht2 where "ht2 = upd_entry node (\<lambda>e. e\<lparr>te_grp_lock := None\<rparr>) ht1"
  define base' where "base' k = base k + (if l = Some k then 1 else 0)" for k
  have h2: "heap_inv ht2" using upd_entry_inv [OF p(2)] by (simp add: ht2_def)
  have S: "insert node (scheduled ht - {node}) = scheduled ht" using p(3) by blast
  have "int (card {g \<in> insert node (scheduled ht - {node}). te_grp_lock (th_entries ht g) = Some k}) =
      int (card {g \<in> scheduled ht - {node}. te_grp_lock (th_entries ht2 g) = Some k}) +
      (if te_grp_lock (th_entries ht node) = Some k then 1 else 0)" for k
    by (intro card_lock_insert) (simp_all add: ht2_def p(6))
  moreover have "l = te_grp_lock (th_entries ht node)" by (simp add: l_def p(6))
  ultimately have r2: "refs_inv base' ht2"
    using refs unfolding S refs_inv_def by (simp add: ht2_def p(4,5,6) base'_def)
  have "\<exists>ht3. (if te_has_cb (th_entries ht2 node) then cb node ht2 else Some ht2) = Some ht3 \<and> heap_inv ht3 \<and> refs_inv base' ht3"
    using cb h2 r2 unfolding cb_ok_def by auto
  then obtain ht3 where h3: "(if te_has_cb (th_entries ht2 node) then cb node ht2 else Some ht2) = Some ht3"
      "heap_inv ht3" "refs_inv base' ht3" by blast
  have "poll_step cb node ht1 = Some (grp_lock_ref (-1) l ht3)"
    using h3(1) unfolding poll_step_def Let_def ht2_def [symmetric] l_def [symmetric] by simp
  moreover have "refs_inv base (grp_lock_ref (-1) l ht3)"
    using h3(3) by (simp add: refs_inv_def grp_lock_ref_refs base'_def)
  ultimately show ?thesis using h3(2) by simp
qed

lemma poll_loop_ok:
  assumes "heap_inv ht" "refs_inv base ht" "cb_ok cb"
  shows "\<exists>fired ht'. poll_loop cb now n ht = Some (fired, ht') \<and> heap_inv ht' \<and> refs_inv base ht' \<and> length fired \<le> n"
  using assms(1,2)
proof (induction n arbitrary: ht)
  case (Suc n)
  show ?case
  proof (cases "th_cur_size ht \<noteq> 0 \<and> tm_val ht (th_heap ht ! 0) \<le> now")
    case True
    then have ne: "th_cur_size ht \<noteq> 0" by blast
    obtain node ht1 where pop: "heap_pop ht = Some (node, ht1)" using heap_pop_ok [OF Suc.prems(1) ne] by metis
    obtain ht3 where s: "poll_step cb node ht1 = Some ht3" "heap_inv ht3" "refs_inv base ht3"
      using poll_step_ok [OF Suc.prems ne assms(3) pop] by blast
    then show ?thesis
      using Suc.IH [OF s(2,3)] poll_loop_step [OF Suc.prems(1) ne _ pop, of now cb n] True by auto
  next
    case False
    then show ?thesis using poll_loop_stop [OF Suc.prems(1), of now cb "Suc n"] Suc.prems by auto
  qed
qed simp

text \<open>With callbacks that leave the heap alone, the loop takes the due entries in the order of their expiry.\<close>

definition fires :: "pj_timer_heap \<Rightarrow> pj_time_val \<Rightarrow> nat \<Rightarrow> handle list \<Rightarrow> pj_timer_heap \<Rightarrow> bool" where
  "fires ht now n fs ht' \<longleftrightarrow>
     distinct fs \<and> length fs \<le> n \<and> sorted (map (\<lambda>h. the (timers ht h)) fs) \<and>
     (\<forall>h \<in> set fs. \<exists>t. timers ht h = Some t \<and> t \<le> now) \<and>
     timers ht' = (\<lambda>h. if h \<in> set fs then None else timers ht h) \<and>
     (length fs < n \<longrightarrow> (\<forall>h t. timers ht' h = Some t \<longrightarrow> now < t))"

lemma fires_Cons:
  assumes t: "timers ht node = Some t" "t \<le> now" and min: "\<And>h s. timers ht h = Some s \<Longrightarrow> t \<le> s"
    and eq: "timers ht1 = (timers ht)(node := None)" and f: "fires ht1 now n fs ht'"
  shows "fires ht now (Suc n) (node # fs) ht'"
proof -
  have due: "\<forall>h \<in> set fs. \<exists>s. timers ht1 h = Some s \<and> s \<le> now" using f by (simp add: fires_def)
  then have n: "node \<notin> set fs" unfolding eq by auto
  have same: "timers ht h = timers ht1 h" if "h \<in> set fs" for h using that n by (auto simp: eq)
  have "map (\<lambda>h. the (timers ht h)) fs = map (\<lambda>h. the (timers ht1 h)) fs" using same by simp
  then have "sorted (map (\<lambda>h. the (timers ht h)) fs)" using f by (simp add: fires_def del: map_eq_conv)
  moreover have "\<forall>h \<in> set fs. \<exists>s. timers ht h = Some s \<and> s \<le> now \<and> t \<le> s" using due same min by (metis (no_types))
  ultimately show ?thesis
    using f n t unfolding fires_def by (auto simp: eq fun_eq_iff)
qed

lemma poll_loop_quiet:
  assumes "heap_inv ht" "\<And>h ht. cb h ht = Some ht"
  shows "\<exists>fs ht'. poll_loop cb now n ht = Some (fs, ht') \<and> heap_inv ht' \<and> fires ht now n fs ht'"
  using assms(1)
proof (induction n arbitrary: ht)
  case (Suc n)
  show ?case
  proof (cases "th_cur_size ht \<noteq> 0 \<and> tm_val ht (th_heap ht ! 0) \<le> now")
    case True
    define node where "node = th_heap ht ! 0"
    have ne: "th_cur_size ht \<noteq> 0" and due: "tm_val ht node \<le> now" using True by (simp_all add: node_def)
    obtain ht1 where pop: "heap_pop ht = Some (node, ht1)" "heap_inv ht1" "node \<in> scheduled ht"
        "\<And>g. g \<in> scheduled ht \<Longrightarrow> tm_val ht node \<le> tm_val ht g" "timers ht1 = (timers ht)(node := None)"
      using heap_pop_ok [OF Suc.prems ne] unfolding node_def by metis
    define ht3 where "ht3 = grp_lock_ref (-1) (te_grp_lock (th_entries ht1 node)) (upd_entry node (\<lambda>e. e\<lparr>te_grp_lock := None\<rparr>) ht1)"
    have s: "poll_step cb node ht1 = Some ht3" by (simp add: poll_step_def Let_def assms(2) ht3_def)
    have h3: "heap_inv ht3" "timers ht3 = (timers ht)(node := None)"
      using upd_entry_inv [OF pop(2), of "\<lambda>e. e\<lparr>te_grp_lock := None\<rparr>" node] pop(5) by (simp_all add: ht3_def)
    obtain fs ht' where IH: "poll_loop cb now n ht3 = Some (fs, ht')" "heap_inv ht'" "fires ht3 now n fs ht'"
      using Suc.IH [OF h3(1)] by blast
    have "fires ht now (Suc n) (node # fs) ht'"
      using pop(3,4) due by (intro fires_Cons [OF _ _ _ h3(2) IH(3)]) (auto simp: timers_def split: if_splits)
    then show ?thesis
      using poll_loop_step [OF Suc.prems ne _ pop(1), of now cb n] True s IH by auto
  next
    case False
    have "now < t" if "timers ht h = Some t" for h t
    proof -
      have h: "h \<in> scheduled ht" "t = tm_val ht h" using that by (auto simp: timers_def split: if_splits)
      then have ne: "th_cur_size ht \<noteq> 0" using scheduled_nth [OF Suc.prems] by auto
      have "tm_val ht (th_heap ht ! 0) \<le> tm_val ht h" using heap_pop_ok [OF Suc.prems ne] h(1) by metis
      then show ?thesis using False ne h(2) by (simp add: not_le less_le_trans)
    qed
    then show ?thesis
      using poll_loop_stop [OF Suc.prems False] Suc.prems
      by (intro exI [of _ "[]"] exI [of _ ht]) (auto simp: fires_def simp del: poll_loop.simps)
  qed
qed (simp add: fires_def)

subsection \<open>Properties\<close>

text \<open>
  C6. The timer heap refines a map from entries to expiry times. Scheduling an idle entry that has a
  callback always succeeds, grows the arrays when they are full, and adds the entry with the time
  now + delay; scheduling one that runs already is refused and changes nothing; cancelling removes
  the entry and tells whether it was scheduled. Both stay inside the arrays, keep the heap and
  free-list invariant, and keep the references on group locks balanced.
\<close>

theorem timer_heap_refines_map:
  assumes "heap_inv ht" "refs_inv base ht" "te_has_cb (th_entries ht h)"
  shows "(timers ht h = None \<longrightarrow> (\<exists>ht'. pj_timer_heap_schedule_w_grp_lock ht now h delay i l = Some (PJ_SUCCESS, ht') \<and>
      heap_inv ht' \<and> refs_inv base ht' \<and> timers ht' = (timers ht)(h := Some (PJ_TIME_VAL_ADD now delay)) \<and>
      te_id (th_entries ht' h) = i)) \<and>
    (timers ht h \<noteq> None \<longrightarrow> pj_timer_heap_schedule_w_grp_lock ht now h delay i l = Some (PJ_EINVALIDOP, ht)) \<and>
    (\<exists>ht'. pj_timer_heap_cancel_if_active ht h i = Some (if timers ht h = None then 0 else 1, ht') \<and>
      heap_inv ht' \<and> refs_inv base ht' \<and> timers ht' = (timers ht)(h := None) \<and> te_id (th_entries ht' h) = i)"
proof (intro conjI impI)
  have sch: "timers ht h = None \<longleftrightarrow> h \<notin> scheduled ht" by (simp add: timers_def)
  show "\<exists>ht'. pj_timer_heap_schedule_w_grp_lock ht now h delay i l = Some (PJ_SUCCESS, ht') \<and>
      heap_inv ht' \<and> refs_inv base ht' \<and> timers ht' = (timers ht)(h := Some (PJ_TIME_VAL_ADD now delay)) \<and>
      te_id (th_entries ht' h) = i" if "timers ht h = None"
    using schedule_w_grp_lock_ok [OF assms, of now delay "Some i" l] sch that
    by (simp add: pj_timer_heap_schedule_w_grp_lock_def)
  show "pj_timer_heap_schedule_w_grp_lock ht now h delay i l = Some (PJ_EINVALIDOP, ht)" if "timers ht h \<noteq> None"
    using running_iff [OF assms(1), of h] assms(3) sch that
    by (simp add: pj_timer_heap_schedule_w_grp_lock_def schedule_w_grp_lock_def pj_timer_entry_running_def)
  have "(if timers ht h = None then 0 else 1) = (if h \<in> scheduled ht then 1 else 0 :: nat)" using sch by simp
  then show "\<exists>ht'. pj_timer_heap_cancel_if_active ht h i = Some (if timers ht h = None then 0 else 1, ht') \<and>
      heap_inv ht' \<and> refs_inv base ht' \<and> timers ht' = (timers ht)(h := None) \<and> te_id (th_entries ht' h) = i"
    using cancel_timer_ok [OF assms(1,2), of h "Some i"] by (simp only: pj_timer_heap_cancel_if_active_def option.case)
qed

text \<open>A heap for two entries, both idle.\<close>

definition demo_heap :: pj_timer_heap where
  "demo_heap = pj_timer_heap_create 2
     (\<lambda>h. \<lparr>te_id = int h, te_has_cb = True, te_timer_id = -1, te_timer_value = PJ_TIME_VAL 0 0, te_grp_lock = None\<rparr>) (\<lambda>_. 1)"

lemma demo_heap_inv: "heap_inv demo_heap" "refs_inv (\<lambda>_. 1) demo_heap" "timers demo_heap = Map.empty" "te_has_cb (th_entries demo_heap h)"
  unfolding demo_heap_def
  by (simp_all add: create_heap_inv refs_inv_def timers_def fun_eq_iff) (simp_all add: pj_timer_heap_create_def)

theorem timer_heap_refines_map_witness:
  "\<exists>ht'. pj_timer_heap_schedule_w_grp_lock demo_heap (PJ_TIME_VAL 10 0) 3 (PJ_TIME_VAL 1 500) 7 (Some 4) = Some (PJ_SUCCESS, ht') \<and>
     timers ht' = (timers demo_heap)(3 := Some (PJ_TIME_VAL_ADD (PJ_TIME_VAL 10 0) (PJ_TIME_VAL 1 500)))"
  using timer_heap_refines_map [OF demo_heap_inv(1,2,4), of 3 "PJ_TIME_VAL 10 0" "PJ_TIME_VAL 1 500" 7 "Some 4"]
  by (auto simp: demo_heap_inv(3))



text \<open>
  C7. When the callbacks leave the heap alone, a poll fires exactly the due entries, up to the
  configured number, each once and in the order of their expiry; it removes them and nothing else;
  if it fires fewer than the limit, nothing due is left. The delay it reports is the time to the next
  expiry, 0 if that has passed, and the largest value if no entry is left.
\<close>

theorem timer_poll_order:
  assumes "heap_inv ht" "\<And>h ht. cb h ht = Some ht"
  shows "\<exists>fired d ht'. pj_timer_heap_poll cb now ht = Some (fired, d, ht') \<and> heap_inv ht' \<and>
    fires ht now (th_max_entries_per_poll ht) fired ht' \<and>
    (timers ht' = Map.empty \<longrightarrow> d = PJ_TIME_VAL PJ_MAXINT32 PJ_MAXINT32) \<and>
    (\<forall>h t. timers ht' h = Some t \<and> (\<forall>g s. timers ht' g = Some s \<longrightarrow> t \<le> s) \<longrightarrow> d = poll_delay t now)"
proof (cases "th_cur_size ht = 0")
  case True
  then have "timers ht = Map.empty" using timers_empty [OF assms(1)] by simp
  then show ?thesis using assms(1) True by (auto simp: pj_timer_heap_poll_def fires_def fun_eq_iff)
next
  case False
  obtain fired ht' where l: "poll_loop cb now (th_max_entries_per_poll ht) ht = Some (fired, ht')" "heap_inv ht'"
      "fires ht now (th_max_entries_per_poll ht) fired ht'"
    using poll_loop_quiet [OF assms(1), of cb now "th_max_entries_per_poll ht"] assms(2) by blast
  define d where "d = (if th_cur_size ht' = 0 then PJ_TIME_VAL PJ_MAXINT32 PJ_MAXINT32 else poll_delay (tm_val ht' (th_heap ht' ! 0)) now)"
  have "0 < length (th_heap ht')" using l(2) by (auto simp: heap_inv_def)
  then have run: "pj_timer_heap_poll cb now ht = Some (fired, d, ht')"
    using l(1) False by (simp add: pj_timer_heap_poll_def d_def)
  have "d = poll_delay t now" if t: "timers ht' h = Some t" "\<And>g s. timers ht' g = Some s \<Longrightarrow> t \<le> s" for h t
  proof -
    have ne: "th_cur_size ht' \<noteq> 0" using t(1) timers_empty [OF l(2)] by auto
    have top: "timers ht' (th_heap ht' ! 0) = Some (tm_val ht' (th_heap ht' ! 0))" "\<And>g. g \<in> scheduled ht' \<Longrightarrow> tm_val ht' (th_heap ht' ! 0) \<le> tm_val ht' g"
      using heap_pop_ok [OF l(2) ne] by (metis timers_def)+
    then have "t = tm_val ht' (th_heap ht' ! 0)" using t(1) t(2) [OF top(1)] by (auto simp: timers_def split: if_splits intro: antisym)
    then show ?thesis using ne by (simp add: d_def)
  qed
  moreover have "timers ht' = Map.empty \<longrightarrow> d = PJ_TIME_VAL PJ_MAXINT32 PJ_MAXINT32" using timers_empty [OF l(2)] by (simp add: d_def)
  ultimately show ?thesis using run l by blast
qed

text \<open>The same heap with three entries, scheduled out of order.\<close>

definition demo_busy :: pj_timer_heap where
  "demo_busy = (let add = (\<lambda>h t ht. snd (the (schedule_entry ht h t)))
     in add 5 (PJ_TIME_VAL 9 0) (add 4 (PJ_TIME_VAL 12 0) (add 3 (PJ_TIME_VAL 10 0) demo_heap)))"

lemma add_timer:
  assumes "heap_inv q" "timers q = m" "m h = None"
  shows "heap_inv (snd (the (schedule_entry q h t)))" "timers (snd (the (schedule_entry q h t))) = m(h \<mapsto> t)"
  using heap_queue.sched_spec [OF assms(1), of h t] assms(2,3) by auto

lemma demo_busy_inv: "heap_inv demo_busy" "dom (timers demo_busy) = {3, 4, 5}"
proof -
  note 1 = add_timer [OF demo_heap_inv(1,3), of 3 "PJ_TIME_VAL 10 0", simplified]
  note 2 = add_timer [OF 1, of 4 "PJ_TIME_VAL 12 0", simplified]
  note 3 = add_timer [OF 2, of 5 "PJ_TIME_VAL 9 0", simplified]
  show "heap_inv demo_busy" "dom (timers demo_busy) = {3, 4, 5}" using 3 by (auto simp: demo_busy_def)
qed

theorem timer_poll_order_witness:
  "\<exists>ht'. pj_timer_heap_poll (\<lambda>h ht. Some ht) (PJ_TIME_VAL 10 0) demo_busy = Some ([5, 3], PJ_TIME_VAL 2 0, ht') \<and>
     fires demo_busy (PJ_TIME_VAL 10 0) 64 [5, 3] ht'"
proof -
  have "map_option (\<lambda>(f, d, _). (f, d)) (pj_timer_heap_poll (\<lambda>h ht. Some ht) (PJ_TIME_VAL 10 0) demo_busy) = Some ([5, 3], PJ_TIME_VAL 2 0)"
    by code_simp
  moreover have "th_max_entries_per_poll demo_busy = 64" by code_simp
  ultimately show ?thesis
    using timer_poll_order [OF demo_busy_inv(1), of "\<lambda>h ht. Some ht" "PJ_TIME_VAL 10 0"] by auto
qed

text \<open>
  Taking entries one after the other from a heap in order gives them sorted by expiry, without
  repetition, and as many steps as the heap has entries give all of them: heap sort by expiry.
\<close>

theorem timer_heap_drain_sorted:
  assumes "heap_inv ht"
  shows "distinct (drain heap_pop n ht) \<and> sorted (map (\<lambda>h. the (timers ht h)) (drain heap_pop n ht)) \<and>
    (pj_timer_heap_count ht \<le> n \<longrightarrow> set (drain heap_pop n ht) = dom (timers ht))"
proof -
  have "dom (timers ht) = set (take (th_cur_size ht) (th_heap ht))" by (auto simp: timers_def scheduled_def split: if_splits)
  then have "finite (dom (timers ht))" "card (dom (timers ht)) \<le> pj_timer_heap_count ht"
    using card_length [of "take (th_cur_size ht) (th_heap ht)"] by (simp_all add: pj_timer_heap_count_def)
  then show ?thesis using heap_queue.drain_sorted [OF assms] heap_queue.drain_all [OF assms] by simp
qed

theorem timer_heap_drain_sorted_witness: "drain heap_pop 3 demo_busy = [5, 3, 4] \<and> set (drain heap_pop 3 demo_busy) = {3, 4, 5}"
proof
  show "drain heap_pop 3 demo_busy = [5, 3, 4]" by code_simp
  have "pj_timer_heap_count demo_busy \<le> 3" by code_simp
  then show "set (drain heap_pop 3 demo_busy) = {3, 4, 5}"
    using timer_heap_drain_sorted [OF demo_busy_inv(1), of 3] demo_busy_inv(2) by simp
qed

subsection \<open>The timer slots of an ICE session\<close>

text \<open>A slot shows the user id of its entry and whether it is scheduled.\<close>

definition slot_rel :: "pj_timer_heap \<Rightarrow> handle \<Rightarrow> int timer_slot \<Rightarrow> bool" where
  "slot_rel ht h t \<longleftrightarrow> tm_id t = te_id (th_entries ht h) \<and> (tm_delay t = None \<longleftrightarrow> timers ht h = None)"

text \<open>
  The operations on the timer slots of the ICE session simulate those of the heap: with the same
  arguments they return the same status and lead to related states.
\<close>

theorem timer_slots_simulate:
  assumes "heap_inv ht" "refs_inv base ht" "te_has_cb (th_entries ht h)" "slot_rel ht h t"
  shows "(\<exists>ht'. pj_timer_heap_schedule_w_grp_lock ht now h delay i l = Some (fst (slot_schedule_w_grp_lock t d i), ht') \<and>
      heap_inv ht' \<and> refs_inv base ht' \<and> slot_rel ht' h (snd (slot_schedule_w_grp_lock t d i))) \<and>
    (\<exists>n ht'. pj_timer_heap_cancel_if_active ht h i = Some (n, ht') \<and>
      heap_inv ht' \<and> refs_inv base ht' \<and> slot_rel ht' h (slot_cancel_if_active t i))"
proof
  have rel: "tm_delay t = None \<longleftrightarrow> h \<notin> scheduled ht" using assms(4) by (simp add: slot_rel_def timers_def)
  show "\<exists>ht'. pj_timer_heap_schedule_w_grp_lock ht now h delay i l = Some (fst (slot_schedule_w_grp_lock t d i), ht') \<and>
      heap_inv ht' \<and> refs_inv base ht' \<and> slot_rel ht' h (snd (slot_schedule_w_grp_lock t d i))"
  proof (cases "h \<in> scheduled ht")
    case True
    then have "te_timer_id (th_entries ht h) \<ge> 1"
      using running_iff [OF assms(1), of h] by (simp add: pj_timer_entry_running_def)
    then show ?thesis
      using True rel assms
      by (simp add: pj_timer_heap_schedule_w_grp_lock_def schedule_w_grp_lock_def slot_schedule_w_grp_lock_def)
  next
    case False
    then show ?thesis
      using schedule_w_grp_lock_ok [OF assms(1-3) False, of now delay "Some i" l] rel
      by (auto simp: pj_timer_heap_schedule_w_grp_lock_def slot_schedule_w_grp_lock_def slot_rel_def)
  qed
  show "\<exists>n ht'. pj_timer_heap_cancel_if_active ht h i = Some (n, ht') \<and>
      heap_inv ht' \<and> refs_inv base ht' \<and> slot_rel ht' h (slot_cancel_if_active t i)"
    using cancel_timer_ok [OF assms(1,2), of h "Some i"]
    by (auto simp: pj_timer_heap_cancel_if_active_def slot_cancel_if_active_def slot_rel_def)
qed

theorem timer_slots_simulate_witness:
  "\<exists>ht'. pj_timer_heap_schedule_w_grp_lock demo_heap (PJ_TIME_VAL 1 0) 2 (PJ_TIME_VAL 0 20) 5 None =
       Some (fst (slot_schedule_w_grp_lock \<lparr>tm_id = (2::int), tm_delay = None\<rparr> 20 (5::int)), ht') \<and>
     slot_rel ht' 2 (snd (slot_schedule_w_grp_lock \<lparr>tm_id = (2::int), tm_delay = None\<rparr> 20 (5::int)))"
proof -
  have "slot_rel demo_heap 2 \<lparr>tm_id = (2::int), tm_delay = None\<rparr>"
    by (simp add: slot_rel_def demo_heap_inv(3)) (simp add: demo_heap_def pj_timer_heap_create_def)
  from timer_slots_simulate [OF demo_heap_inv(1,2,4) this] show ?thesis by blast
qed

end
