(* ===== verification/Base64.thy ===== *)
theory Base64
  imports Prelude
begin

text \<open>
  Base64 (pjlib-util/src/pjlib-util/base64.c). Decoding ignores invalid characters, except that the last
  character it reads counts even if it is invalid, with the value -1. The loop that strips the
  padding reads the character before it tests the length, so a text without any other character than
  padding is read before its first character: the value \<open>None\<close>.
\<close>

definition INV :: int where "INV = -1"

definition base64_char :: string where
  "base64_char = ''ABCDEFGHIJKLMNOPQRSTUVWXYZabcdefghijklmnopqrstuvwxyz0123456789+/''"

definition base256_char :: "char \<Rightarrow> int" where
  "base256_char c =
     (let c = of_char c in
      if 65 \<le> c \<and> c \<le> 90 then c - 65
      else if 97 \<le> c \<and> c \<le> 122 then c - 97 + 26
      else if 48 \<le> c \<and> c \<le> 57 then c - 48 + 52
      else if c = 43 then 62
      else if c = 47 then 63
      else INV)"

definition PJ_BASE256_TO_BASE64_LEN :: "nat \<Rightarrow> nat" where "PJ_BASE256_TO_BASE64_LEN len = len * 4 div 3 + 3"
definition PJ_BASE64_TO_BASE256_LEN :: "nat \<Rightarrow> nat" where "PJ_BASE64_TO_BASE256_LEN len = len * 3 div 4"

definition base256to64 :: "byte \<Rightarrow> byte \<Rightarrow> byte \<Rightarrow> nat \<Rightarrow> string" where
  "base256to64 c1 c2 c3 padding =
     (let o1 = base64_char ! unat (drop_bit 2 c1);
          o2 = base64_char ! unat (push_bit 4 (c1 AND 0x3) OR drop_bit 4 (c2 AND 0xF0));
          o3 = base64_char ! unat (push_bit 2 (c2 AND 0xF) OR drop_bit 6 (c3 AND 0xC0));
          o4 = base64_char ! unat (c3 AND 0x3F)
      in if padding = 0 then [o1, o2, o3, o4]
         else if padding = 1 then [o1, o2, o3, CHR ''='']
         else [o1, o2, CHR ''='', CHR ''=''])"

fun encode_loop :: "byte list \<Rightarrow> string" where
  "encode_loop [] = []"
| "encode_loop [c1] = base256to64 c1 0 0 2"
| "encode_loop [c1, c2] = base256to64 c1 c2 0 1"
| "encode_loop (c1 # c2 # c3 # input) = base256to64 c1 c2 c3 0 @ encode_loop input"

definition pj_base64_encode :: "byte list \<Rightarrow> nat \<Rightarrow> pj_status + string" where
  "pj_base64_encode input out_len =
     (if out_len < PJ_BASE256_TO_BASE64_LEN (length input) then Inl PJ_ETOOSMALL else Inr (encode_loop input))"

text \<open>The next code, and up to \<open>k\<close> codes; the text holds the characters from position \<^verbatim>\<open>i\<close>.\<close>

fun next_code :: "string \<Rightarrow> int \<times> string" where
  "next_code (x # xs) = (if base256_char x = INV \<and> xs \<noteq> [] then next_code xs else (base256_char x, xs))"
| "next_code [] = (INV, [])"

fun fill :: "nat \<Rightarrow> string \<Rightarrow> int list \<times> string" where
  "fill (Suc k) (x # xs) = (let c = next_code (x # xs); cs = fill k (snd c) in (fst c # fst cs, snd cs))"
| "fill k xs = ([], xs)"

definition pack :: "int list \<Rightarrow> byte list" where
  "pack c =
     (let o1 = word_of_int (push_bit 2 (c ! 0) OR drop_bit 4 (c ! 1 AND 0x30));
          o2 = word_of_int (push_bit 4 (c ! 1 AND 0x0F) OR drop_bit 2 (c ! 2 AND 0x3C));
          o3 = word_of_int (push_bit 6 (c ! 2 AND 0x03) OR (c ! 3 AND 0x3F))
      in take (length c - 1) [o1, o2, o3])"

lemma next_code_length: "xs \<noteq> [] \<Longrightarrow> length (snd (next_code xs)) < length xs"
  by (induction xs rule: next_code.induct) (auto simp: less_Suc_eq)

lemma fill_length: "length (snd (fill k xs)) \<le> length xs"
proof (induction k arbitrary: xs)
  case (Suc k)
  show ?case
  proof (cases xs)
    case (Cons y ys)
    then show ?thesis using next_code_length [of xs] Suc [of "snd (next_code xs)"] by (simp add: Let_def del: next_code.simps)
  qed simp
qed simp

lemma fill_progress: "xs \<noteq> [] \<Longrightarrow> length (snd (fill (Suc k) xs)) < length xs"
  using next_code_length [of xs] fill_length [of k "snd (next_code xs)"]
  by (cases xs) (simp_all add: Let_def del: next_code.simps)

function decode_loop :: "string \<Rightarrow> byte list" where
  "decode_loop xs =
     (if xs = [] then []
      else (let c = fill 4 xs in if length (fst c) < 4 then pack (fst c) else pack (fst c) @ decode_loop (snd c)))"
  by pat_completeness auto
termination
  by (relation "measure length") (use fill_progress [of _ 3] in \<open>auto simp: eval_nat_numeral\<close>)

declare decode_loop.simps [simp del]

definition pj_base64_decode :: "string \<Rightarrow> nat \<Rightarrow> (pj_status + byte list) option" where
  "pj_base64_decode input out_len =
     (let buf = rev (dropWhile (\<lambda>c. c = CHR ''='') (rev input)) in
      if buf = [] then None
      else if out_len < PJ_BASE64_TO_BASE256_LEN (length buf) then Some (Inl PJ_ETOOSMALL)
      else Some (Inr (decode_loop buf)))"

subsection \<open>Round trip\<close>

lemma base256_base64: "k < 64 \<Longrightarrow> base256_char (base64_char ! k) = int k"
proof -
  have "map base256_char base64_char = map int [0..<64]" by code_simp
  moreover have "length base64_char = 64" by code_simp
  ultimately show "k < 64 \<Longrightarrow> base256_char (base64_char ! k) = int k" by (metis add_0 length_map map_nth nth_map nth_upt)
qed

lemma base64_char_not_pad: "k < 64 \<Longrightarrow> base64_char ! k \<noteq> CHR ''=''"
proof -
  have "base256_char CHR ''='' = -1" by code_simp
  then show "k < 64 \<Longrightarrow> base64_char ! k \<noteq> CHR ''=''" using base256_base64 [of k] by force
qed

lemma byte_eqI:
  fixes a b :: byte
  assumes "bit a 0 = bit b 0" "bit a 1 = bit b 1" "bit a 2 = bit b 2" "bit a 3 = bit b 3"
    and "bit a 4 = bit b 4" "bit a 5 = bit b 5" "bit a 6 = bit b 6" "bit a 7 = bit b 7"
  shows "a = b"
proof (rule bit_word_eqI)
  fix n assume "n < LENGTH(8)"
  then have "n \<in> {0, 1, 2, 3, 4, 5, 6, 7}" by auto
  then show "bit a n = bit b n" using assms by auto
qed

lemma not_bit_8: "8 \<le> n \<Longrightarrow> \<not> bit (b :: byte) n"
  using bit_imp_le_length [of b n] by auto

lemmas byte_bits = bit_or_iff bit_and_iff bit_push_bit_iff bit_drop_bit_eq bit_take_bit_iff not_bit_8

lemma six_bits: "take_bit 6 (w :: byte) = w \<Longrightarrow> unat w < 64"
proof -
  assume "take_bit 6 w = w"
  then have "unat w = unat w mod 2 ^ 6" by (metis take_bit_eq_mask unat_and_mask)
  moreover have "unat w mod 2 ^ 6 < 64" by simp
  ultimately show ?thesis by linarith
qed

lemma code_less:
  fixes c1 c2 c3 :: byte
  shows "unat (drop_bit 2 c1) < 64" "unat (push_bit 4 (c1 AND 0x3) OR drop_bit 4 (c2 AND 0xF0)) < 64"
    "unat (push_bit 2 (c2 AND 0xF) OR drop_bit 6 (c3 AND 0xC0)) < 64" "unat (c3 AND 0x3F) < 64"
  by (intro six_bits byte_eqI; simp add: byte_bits)+

lemma word_of_codes:
  fixes a b :: byte and l m :: int
  shows "(word_of_int (push_bit k (int (unat a) AND l) OR drop_bit j (int (unat b) AND m)) :: byte) =
    push_bit k (a AND word_of_int l) OR drop_bit j (b AND word_of_int m)"
proof (rule bit_word_eqI)
  fix n assume "n < LENGTH(8)"
  then show "bit (word_of_int (push_bit k (int (unat a) AND l) OR drop_bit j (int (unat b) AND m)) :: byte) n =
      bit (push_bit k (a AND word_of_int l) OR drop_bit j (b AND word_of_int m)) n"
    using not_bit_8 [of "n + j" b]
    by (auto simp: bit_or_iff bit_and_iff bit_push_bit_iff bit_drop_bit_eq bit_word_of_int_iff
        uint_nat [symmetric] bit_uint_iff add.commute)
qed

text \<open>The six-bit codes of three bytes.\<close>

definition codes :: "byte \<Rightarrow> byte \<Rightarrow> byte \<Rightarrow> byte list" where
  "codes c1 c2 c3 = [drop_bit 2 c1, push_bit 4 (c1 AND 0x3) OR drop_bit 4 (c2 AND 0xF0),
     push_bit 2 (c2 AND 0xF) OR drop_bit 6 (c3 AND 0xC0), c3 AND 0x3F]"

lemma codes_less: "c \<in> set (codes c1 c2 c3) \<Longrightarrow> unat c < 64"
  using code_less(1) [of c1] code_less(2) [of c1 c2] code_less(3) [of c2 c3] code_less(4) [of c3] by (auto simp: codes_def)

lemma length_codes [simp]: "length (codes c1 c2 c3) = 4"
  by (simp add: codes_def)

lemma codes_not_Nil [simp]: "codes c1 c2 c3 \<noteq> []"
  by (simp add: codes_def)

lemma pack_codes:
  "k \<in> {2, 3, 4} \<Longrightarrow> pack (take k (map (\<lambda>c. int (unat c)) (codes c1 c2 c3))) = take (k - 1) [c1, c2, c3]"
proof -
  let ?w = "\<lambda>c :: byte. int (unat c)"
  obtain e1 e2 e3 e4 where e: "e1 = drop_bit 2 c1" "e2 = push_bit 4 (c1 AND 0x3) OR drop_bit 4 (c2 AND 0xF0)"
    "e3 = push_bit 2 (c2 AND 0xF) OR drop_bit 6 (c3 AND 0xC0)" "e4 = c3 AND 0x3F" by blast
  have cs: "codes c1 c2 c3 = [e1, e2, e3, e4]" by (simp only: codes_def e)
  have "push_bit 2 e1 OR drop_bit 4 (e2 AND 0x30) = c1" "push_bit 4 (e2 AND 0x0F) OR drop_bit 2 (e3 AND 0x3C) = c2"
      "push_bit 6 (e3 AND 0x03) OR drop_bit 0 (e4 AND 0x3F) = c3"
    unfolding e by (rule byte_eqI; simp add: byte_bits)+
  then have w: "word_of_int (push_bit 2 (?w e1) OR drop_bit 4 (?w e2 AND 0x30)) = c1"
      "word_of_int (push_bit 4 (?w e2 AND 0x0F) OR drop_bit 2 (?w e3 AND 0x3C)) = c2"
      "word_of_int (push_bit 6 (?w e3 AND 0x03) OR (?w e4 AND 0x3F)) = c3"
    using word_of_codes [of 2 e1 "-1" 4 e2 "0x30"] word_of_codes [of 4 e2 "0x0F" 2 e3 "0x3C"] word_of_codes [of 6 e3 "0x03" 0 e4 "0x3F"]
    by simp_all
  have p: "pack [a, b] = [word_of_int (push_bit 2 a OR drop_bit 4 (b AND 0x30))]"
      "pack [a, b, c] = [word_of_int (push_bit 2 a OR drop_bit 4 (b AND 0x30)), word_of_int (push_bit 4 (b AND 0x0F) OR drop_bit 2 (c AND 0x3C))]"
      "pack [a, b, c, d] = [word_of_int (push_bit 2 a OR drop_bit 4 (b AND 0x30)), word_of_int (push_bit 4 (b AND 0x0F) OR drop_bit 2 (c AND 0x3C)),
         word_of_int (push_bit 6 (c AND 0x03) OR (d AND 0x3F))]" for a b c d
    by (simp_all add: pack_def Let_def)
  assume "k \<in> {2, 3, 4}"
  then consider "k = 2" | "k = 3" | "k = 4" by blast
  then show ?thesis
  proof cases
    case 1
    have "take k (map ?w (codes c1 c2 c3)) = [?w e1, ?w e2]" "take (k - 1) [c1, c2, c3] = [c1]" by (simp_all add: cs 1)
    then show ?thesis by (simp only: p w)
  next
    case 2
    have "take k (map ?w (codes c1 c2 c3)) = [?w e1, ?w e2, ?w e3]" "take (k - 1) [c1, c2, c3] = [c1, c2]" by (simp_all add: cs 2)
    then show ?thesis by (simp only: p w)
  next
    case 3
    have "take k (map ?w (codes c1 c2 c3)) = [?w e1, ?w e2, ?w e3, ?w e4]" "take (k - 1) [c1, c2, c3] = [c1, c2, c3]" by (simp_all add: cs 3)
    then show ?thesis by (simp only: p w)
  qed
qed

lemma base256to64_codes:
  "base256to64 c1 c2 c3 padding =
   take (if padding = 0 then 4 else if padding = 1 then 3 else 2) (map (\<lambda>c. base64_char ! unat c) (codes c1 c2 c3)) @
   replicate (min padding 2) CHR ''=''"
proof -
  consider "padding = 0" | "padding = 1" | "2 \<le> padding" by linarith
  then show ?thesis by cases (auto simp: base256to64_def codes_def Let_def numeral_eq_Suc)
qed

lemma fill_codes:
  assumes "\<forall>c \<in> set cs. unat c < 64" "length cs \<le> k" "length cs < k \<Longrightarrow> rest = []"
  shows "fill k (map (\<lambda>c. base64_char ! unat c) cs @ rest) = (map (\<lambda>c. int (unat c)) cs, rest)"
  using assms
proof (induction cs arbitrary: k)
  case Nil
  then show ?case by (cases k) auto
next
  case (Cons c cs)
  then obtain j where k: "k = Suc j" by (cases k) auto
  have "next_code ((base64_char ! unat c) # map (\<lambda>c. base64_char ! unat c) cs @ rest) =
      (int (unat c), map (\<lambda>c. base64_char ! unat c) cs @ rest)"
  proof -
    have "base256_char (base64_char ! unat c) = int (unat c)" using Cons.prems(1) by (intro base256_base64) simp
    moreover have "0 \<le> int (unat c)" by (rule of_nat_0_le_iff)
    then have "int (unat c) \<noteq> INV" unfolding INV_def by linarith
    ultimately show ?thesis by (simp only: next_code.simps if_False simp_thms)
  qed
  then show ?case using Cons.IH [of j] Cons.prems k by (simp add: Let_def)
qed

text \<open>The text of an input without its padding.\<close>

fun encode_raw :: "byte list \<Rightarrow> string" where
  "encode_raw [] = []"
| "encode_raw [c1] = take 2 (map (\<lambda>c. base64_char ! unat c) (codes c1 0 0))"
| "encode_raw [c1, c2] = take 3 (map (\<lambda>c. base64_char ! unat c) (codes c1 c2 0))"
| "encode_raw (c1 # c2 # c3 # input) = map (\<lambda>c. base64_char ! unat c) (codes c1 c2 c3) @ encode_raw input"

lemma encode_loop_raw: "encode_loop input = encode_raw input @ replicate ((3 - length input mod 3) mod 3) CHR ''=''"
  by (induction input rule: encode_raw.induct) (simp_all add: base256to64_codes)

lemma encode_raw_chars: "x \<in> set (encode_raw input) \<Longrightarrow> x \<noteq> CHR ''=''"
  by (induction input rule: encode_raw.induct) (auto dest!: in_set_takeD codes_less base64_char_not_pad)

lemma length_encode_raw: "length (encode_raw input) = (4 * length input + 2) div 3"
  by (induction input rule: encode_raw.induct) auto

lemma encode_raw_Nil [simp]: "encode_raw input = [] \<longleftrightarrow> input = []"
  by (cases input rule: encode_raw.cases) (auto simp: codes_def)

lemma decode_encode_raw: "decode_loop (encode_raw input) = input"
proof (induction input rule: encode_raw.induct)
  case (2 c1)
  have f: "fill 4 (encode_raw [c1]) = (take 2 (map (\<lambda>c. int (unat c)) (codes c1 0 0)), [])"
    using fill_codes [of "take 2 (codes c1 0 0)" 4 "[]"] codes_less by (auto simp: take_map dest!: in_set_takeD)
  have "encode_raw [c1] \<noteq> []" by simp
  then show ?case using f pack_codes [of 2 c1 0 0] by (subst decode_loop.simps) (simp add: Let_def del: encode_raw.simps)
next
  case (3 c1 c2)
  have f: "fill 4 (encode_raw [c1, c2]) = (take 3 (map (\<lambda>c. int (unat c)) (codes c1 c2 0)), [])"
    using fill_codes [of "take 3 (codes c1 c2 0)" 4 "[]"] codes_less by (auto simp: take_map dest!: in_set_takeD)
  have "encode_raw [c1, c2] \<noteq> []" by simp
  then show ?case using f pack_codes [of 3 c1 c2 0] by (subst decode_loop.simps) (simp add: Let_def del: encode_raw.simps)
next
  case (4 c1 c2 c3 input)
  have f: "fill 4 (encode_raw (c1 # c2 # c3 # input)) = (map (\<lambda>c. int (unat c)) (codes c1 c2 c3), encode_raw input)"
    using fill_codes [of "codes c1 c2 c3" 4 "encode_raw input"] codes_less by auto
  have "encode_raw (c1 # c2 # c3 # input) \<noteq> []" by simp
  then show ?case using f 4 pack_codes [of 4 c1 c2 c3] by (subst decode_loop.simps) (simp add: Let_def del: encode_raw.simps)
qed (simp add: decode_loop.simps)

subsection \<open>Output size\<close>

lemma length_pack: "length (pack c) \<le> length c - 1" "length c \<le> 4 \<Longrightarrow> length (pack c) = length c - 1"
  by (auto simp: pack_def Let_def)

lemma fill_count: "length (fst (fill k xs)) \<le> k" "length (fst (fill k xs)) + length (snd (fill k xs)) \<le> length xs"
proof (induction k arbitrary: xs)
  case (Suc k)
  {
    case 1
    then show ?case using Suc by (cases xs) (simp_all add: Let_def del: next_code.simps)
  next
    case 2
    then show ?case using Suc(2) [of "snd (next_code xs)"] next_code_length [of xs]
      by (cases xs) (simp_all add: Let_def del: next_code.simps)
  }
qed simp_all

lemma length_decode_loop: "length (decode_loop xs) \<le> length xs * 3 div 4"
proof (induction xs rule: decode_loop.induct)
  case (1 xs)
  show ?case
  proof (cases "xs = [] \<or> length (fst (fill 4 xs)) < 4")
    case True
    then have "length (decode_loop xs) \<le> length (fst (fill 4 xs)) - 1"
      using length_pack(1) by (subst decode_loop.simps) (auto simp: Let_def)
    then show ?thesis using fill_count(2) [of 4 xs] True by (cases "xs = []") (auto simp: decode_loop.simps)
  next
    case False
    then have f: "length (fst (fill 4 xs)) = 4" using fill_count(1) [of 4 xs] by simp
    then have "length (decode_loop xs) = 3 + length (decode_loop (snd (fill 4 xs)))"
      using False length_pack(2) [of "fst (fill 4 xs)"] by (subst decode_loop.simps) (simp add: Let_def)
    moreover have "length (decode_loop (snd (fill 4 xs))) \<le> length (snd (fill 4 xs)) * 3 div 4" using 1 False f by simp
    ultimately show ?thesis using fill_count(2) [of 4 xs] f by linarith
  qed
qed

subsection \<open>Properties\<close>





text \<open>An empty text is read before its start.\<close>

lemma base64_decode_empty: "pj_base64_decode [] out_len = None"
  by (simp add: pj_base64_decode_def)

end
