(* ===== verification/Spec2Isabelle.thy ===== *)
theory Spec2Isabelle
  imports TurnReach TurnData StunSessionProps StunAuthProps StunTsxProps IceReach IcePriority TimerQueue Crc32 Sha1 Md5 Base64
begin

text \<open>
  \<^bold>\<open>The program.\<close> eChannel is a peer-to-peer channel: two peers find a path through their NATs with ICE and run uTP
  over it. The C code under src/src is pjlib (operating system layer, timers, data structures), pjlib-util
  (digests, checksums, encodings) and pjnath (STUN, TURN, ICE). An ICE session (pjnath ice\_session.c) pairs local and remote
  candidates into a check list and sends STUN Binding requests for the pairs; the STUN layer (stun\_msg.c)
  encodes, authenticates and decodes these messages with SHA-1, MD5, CRC-32 and Base64 of pjlib-util; the timer heap of pjlib (timer.c)
  drives the pacing of the checks, the nomination delay and the keep-alives.

  \<^bold>\<open>Layout.\<close> Prelude holds the status codes, search loops, array and buffer helpers. One group of theories models each part:

  \<^item> SockAddr: socket addresses (sock\_common.c) as ICE uses them. HashTable: hash.c, a vector of chains, with its iterator; the interface of a table is the locale \<^verbatim>\<open>dictionary\<close>,
    interpreted on it.

  \<^item> IceTypes (data, creation, credentials, candidates, priorities), IceChecklist (sorting, pruning, creating the check
    list), IceEngine (check states, completion, periodic and nominated checks), IceHandlers (entry points of the STUN session, the timers and the
    application): ice\_session.c and ice\_session.h. The session is the record \<^verbatim>\<open>pj_ice_sess\<close>; pointers into arrays are
    indices; an access outside an array or through NULL is \<open>None\<close>. The timer of the session is a slot that the timer heap simulates.

  \<^item> IceSafety, IceHandlerSafety, IceReach: the invariant of the session, that every handler keeps it, and the reachable
    states as an inductive predicate over all entry points; IcePriority: the arithmetic of candidate and pair priorities and of foundations.

  \<^item> TimeVal, TimerHeap, ArrayHeap, TimerHeapInv, TimerQueue: timer.c with its free list, the heap order, the group lock
    references and the poll loop whose callbacks may call back into the heap. The interface of a timer queue is the locale \<^verbatim>\<open>timer_queue\<close>,
    interpreted on the heap.

  \<^item> Crc32, BlockHash, Sha1, Md5, Base64: crc32.c (both build variants), sha1.c, md5.c, hmac\_sha1.c, hmac\_md5.c, base64.c. The
    interface of an incremental hash is the locale \<^verbatim>\<open>stream_hash\<close>, of which HMAC is a client; it is interpreted on both digests.

  \<^item> StunTypes, StunAttr, StunMsg: stun\_msg.c, from the tables and attribute codecs to whole messages. StunWire, StunRoundtrip, StunCodec, StunProps: the
    wire format as a specification of both directions, the round trip and FINGERPRINT. StunSafety: what the decoder makes of arbitrary bytes.

  \<^item> StunAuth, StunAuthProps: stun\_auth.c, the keys of credentials, the verification of requests and responses and the challenges, composed with the codec.

  \<^item> TimerSlot: a timer entry as its owner sees it, used by the ICE session and the transaction. StunTsx, StunTsxProps: the client transaction of stun\_transaction.c as a
    step relation over its operations and timers. What the application's callbacks return are arguments, and the calls to them are recorded in order.

  \<^item> StunSession: stun\_session.c, which ties messages, transactions and credentials together: it signs and sends, keeps pending requests and cached responses, authenticates what arrives and
    repeats challenged requests. Messages are objects of a store from which releasing their pool removes them. StunSessionInv: the invariant and that every operation keeps it, by a frame
    argument around the object in hand. StunSessionProps: the step relation of application, packets and timers, and the properties of its reachable states.

  \<^item> TurnSession: turn\_session.c, the client of a relay: resolving, allocating, refreshing, permissions and channels, and the data path, over the STUN session and two hash tables. TurnData: the
    framing of data and the times of the refresh. StunTokens: a request keeps its type and its token from sending to reporting, which is what the TURN session relies on when it passes
    pointers to channels through the STUN session. TurnInv: the operations that leave the channels alone; TurnChannels: the invariant of the channels and their table, and the operations that change
    them; TurnReach: the session as a machine of events, its reachable states, and the lock.

  \<^bold>\<open>What the theorems show.\<close> ICE: no reachable state lets an entry point leave the arrays, a successful session has a pair for every component, and
  sorting, pruning, priorities and foundations do what RFC 5245 asks. Timers: the heap refines a map from entries to times and a
  poll fires what is due, in order. Utilities: digests, HMACs and checksums equal reference definitions; Base64 is inverted by decoding within its buffers.
  STUN: encoding writes the format of RFC 5389 and decoding inverts it; decoded messages are well typed, refused requests are answered, and a packet check
  catches a changed byte. A request signed with the key of a credential is accepted, an accepted one carries the HMAC of its bytes up to MESSAGE-INTEGRITY, and
  what follows that attribute is not protected. A transaction reports once and times out after seven transmissions on its schedule.
  A session never uses a message it released, reports each request at most once, and only for a response that matches and authenticates; three theorems show requests and responses that
  it loses. The hash table refines a partial map. In every state that a TURN session reaches its channels and their table agree, and every operation but two gives the lock back. Data sent over a TURN channel arrives unchanged, and an allocation is refreshed in time except for one lifetime.

  \<^bold>\<open>Bounds and termination.\<close> Machine integers are words of the width of the source where they can wrap, and naturals elsewhere. Loops are total
  functions with measures; the poll loop of the timer is bounded by its own limit. The size of a hash table is found by a loop that may not end, a partial function; it ends exactly for sizes up to \<open>2\<^sup>3\<^sup>1\<close>. The walk over a hash table is
  bounded by its number of entries, which is what it visits. No other definition has fuel: that a transaction ends is proved of its step relation, where the
  number of timer expiries is bounded by eight.

  \<^bold>\<open>Not modelled.\<close> Threads, sockets, polling and memory pools (allocation always succeeds, and locks are taken to serialise the handlers); the logging
  calls; the sockets of stun\_sock.c, turn\_sock.c and ice\_strans.c; DNS and getaddrinfo, whose results are arguments;
  the C++ application, libTrans, librdp, libLogger and libutp; generated code; TLS, DNS, the command line and HTTP tools.
\<close>

end
